(* ===== verification/Bari_Prelude.thy ===== *)
theory Bari_Prelude
  imports
    Complex_Main
    "HOL-Library.AList"
    "HOL-Library.Char_ord"
    "HOL-Library.List_Lexorder"
    "HOL-Library.Sublist"
begin

text \<open>
  The shared vocabulary of the development: JavaScript values, insertion-ordered maps, the
  string operations of the language that the modelled sources use, and the generic lemmas on
  them.  Nothing here models a file of the repository; it models the part of the JavaScript
  language and of its standard library that the repository's code is written in.

  A JavaScript string is a \<^typ>\<open>string\<close>: a list of code units restricted to the range
  0 to 255.  Every character the modelled code tests for lies in that range; the white space
  characters beyond it (U+1680, U+2000 and their like) are the only ones the code could tell
  apart that the model cannot express.  The one component that depends on code units above 255,
  the byte slicing of task output, has its own string type.  A JavaScript number is an
  \<^typ>\<open>int\<close> where the code uses it as an integer.
\<close>

section \<open>Collections of rules\<close>

named_theorems js_defs "definitions of the language primitives, to be unfolded on closed terms"

section \<open>Values\<close>

text \<open>
  Values of type \<^verbatim>\<open>unknown\<close>.  Objects and arrays carry their identity: \<open>Some i\<close> for a value that
  reached the code from outside, \<open>None\<close> for an object literal that the modelled code has just
  built and that nothing else can reference.  A cyclic value is represented by its unfolding up
  to the second occurrence of an identity on a path, which is as far as code that tracks the
  objects it is inside of can look.  The flag of an object says whether its prototype is
  \<^verbatim>\<open>Object.prototype\<close> or \<^verbatim>\<open>null\<close>.
\<close>

datatype jsnum = NInt int | NNaN | NPosInf | NNegInf

datatype jsval =
    JUndefined
  | JNull
  | JBool bool
  | JNum jsnum
  | JStr string
  | JArr "nat option" "jsval list"
  | JObj "nat option" bool "(string \<times> jsval) list"
  | JOther

type_synonym js_record = "(string \<times> jsval) list"

text \<open>An optional value of type \<^verbatim>\<open>T | null | undefined\<close>.\<close>

datatype 'a nullable = Undefined | Null | Val 'a

fun js_truthy :: "jsval \<Rightarrow> bool" where
  "js_truthy JUndefined = False"
| "js_truthy JNull = False"
| "js_truthy (JBool b) = b"
| "js_truthy (JNum n) = (case n of NInt i \<Rightarrow> i \<noteq> 0 | NNaN \<Rightarrow> False | _ \<Rightarrow> True)"
| "js_truthy (JStr s) = (s \<noteq> [])"
| "js_truthy (JArr _ _) = True"
| "js_truthy (JObj _ _ _) = True"
| "js_truthy JOther = True"

text \<open>A property read \<^verbatim>\<open>o[k]\<close>: an absent key reads as \<^const>\<open>JUndefined\<close>.\<close>

definition js_prop :: "js_record \<Rightarrow> string \<Rightarrow> jsval" where
  [js_defs]: "js_prop r k = (case map_of r k of None \<Rightarrow> JUndefined | Some v \<Rightarrow> v)"

definition js_as_string :: "jsval \<Rightarrow> string option" where
  [js_defs]: "js_as_string v = (case v of JStr s \<Rightarrow> Some s | _ \<Rightarrow> None)"

text \<open>Object spread \<^verbatim>\<open>{...a, ...b}\<close>: the keys of \<open>b\<close> overwrite those of \<open>a\<close> in place.\<close>

definition js_spread :: "('k \<times> 'v) list \<Rightarrow> ('k \<times> 'v) list \<Rightarrow> ('k \<times> 'v) list" where
  [js_defs]: "js_spread a b = fold (\<lambda>(k, v) acc. AList.update k v acc) b a"

text \<open>The nullish operator \<^verbatim>\<open>a ?? b\<close> on an optional value.\<close>

definition nullish :: "'a option \<Rightarrow> 'a \<Rightarrow> 'a" where
  [js_defs]: "nullish a b = (case a of None \<Rightarrow> b | Some x \<Rightarrow> x)"

text \<open>The same operator when the right-hand side is optional too.\<close>

definition or_else :: "'a option \<Rightarrow> 'a option \<Rightarrow> 'a option" where
  [js_defs]: "or_else a b = (case a of None \<Rightarrow> b | Some x \<Rightarrow> Some x)"

text \<open>A string in a condition: \<^verbatim>\<open>undefined\<close> and the empty string are falsy.\<close>

definition truthy_str :: "string option \<Rightarrow> bool" where
  [js_defs]: "truthy_str s = (case s of None \<Rightarrow> False | Some t \<Rightarrow> t \<noteq> [])"

section \<open>Strings\<close>

definition dquoted :: "string \<Rightarrow> string" where
  [js_defs]: "dquoted s = CHR 0x22 # s @ [CHR 0x22]"

definition js_space :: "char \<Rightarrow> bool" where
  [js_defs]: "js_space c = (of_char c \<in> {9, 10, 11, 12, 13, 32, 160 :: nat})"

definition js_trim_start :: "string \<Rightarrow> string" where
  [js_defs]: "js_trim_start s = dropWhile js_space s"

definition js_trim :: "string \<Rightarrow> string" where
  [js_defs]: "js_trim s = rev (dropWhile js_space (rev (dropWhile js_space s)))"

text \<open>\<^verbatim>\<open>s.includes(t)\<close>, \<^verbatim>\<open>s.startsWith(t)\<close>.\<close>

fun js_includes :: "string \<Rightarrow> string \<Rightarrow> bool" where
  "js_includes [] t = (t = [])"
| "js_includes (c # s) t = (prefix t (c # s) \<or> js_includes s t)"

definition js_starts_with :: "string \<Rightarrow> string \<Rightarrow> bool" where
  [js_defs]: "js_starts_with s t = prefix t s"

definition js_ends_with :: "string \<Rightarrow> string \<Rightarrow> bool" where
  [js_defs]: "js_ends_with s t = suffix t s"

text \<open>\<^verbatim>\<open>toLowerCase\<close> on one character.\<close>

definition to_lower :: "char \<Rightarrow> char" where
  "to_lower c = (let n = (of_char c :: nat) in
     if 65 \<le> n \<and> n \<le> 90 \<or> 192 \<le> n \<and> n \<le> 222 \<and> n \<noteq> 215 then char_of (n + 32) else c)"

text \<open>\<^verbatim>\<open>s.split(sep)\<close>, left to right.\<close>

fun split_at_prefix :: "string \<Rightarrow> string \<Rightarrow> string \<Rightarrow> (string \<times> string) option" where
  "split_at_prefix sep acc [] = None"
| "split_at_prefix sep acc (c # s) =
     (if prefix sep (c # s) then Some (rev acc, drop (length sep) (c # s))
      else split_at_prefix sep (c # acc) s)"

lemma split_at_prefix_length:
  "split_at_prefix sep acc s = Some (a, b) \<Longrightarrow> sep \<noteq> [] \<Longrightarrow> length b < length s"
  by (induction sep acc s rule: split_at_prefix.induct) (auto split: if_splits simp: Suc_le_eq)

function js_split :: "string \<Rightarrow> string \<Rightarrow> string list" where
  "js_split sep s =
     (if sep = [] then map (\<lambda>c. [c]) s
      else case split_at_prefix sep [] s of
        None \<Rightarrow> [s]
      | Some (a, b) \<Rightarrow> a # js_split sep b)"
  by pat_completeness auto
termination
  by (relation "measure (\<lambda>(sep, s). length s)") (auto dest: split_at_prefix_length)

declare js_split.simps [simp del]

definition js_join :: "string \<Rightarrow> string list \<Rightarrow> string" where
  [js_defs]: "js_join sep xs =
    (case xs of [] \<Rightarrow> [] | y # ys \<Rightarrow> y @ concat (map (\<lambda>z. sep @ z) ys))"

text \<open>The decimal form of an integer, \<^verbatim>\<open>String(n)\<close>, and \<^verbatim>\<open>Number.parseInt(s, 10)\<close>.\<close>

definition digit_char :: "nat \<Rightarrow> char" where
  [js_defs]: "digit_char d = char_of (48 + d)"

definition is_digit :: "char \<Rightarrow> bool" where
  [js_defs]: "is_digit c = (48 \<le> (of_char c :: nat) \<and> (of_char c :: nat) \<le> 57)"

definition digit_val :: "char \<Rightarrow> nat" where
  [js_defs]: "digit_val c = of_char c - 48"

fun show_nat :: "nat \<Rightarrow> string" where
  "show_nat n = (if n < 10 then [digit_char n] else show_nat (n div 10) @ [digit_char (n mod 10)])"

declare show_nat.simps [simp del]

definition show_int :: "int \<Rightarrow> string" where
  [js_defs]: "show_int i = (if i < 0 then CHR ''-'' # show_nat (nat (- i)) else show_nat (nat i))"

definition read_digits :: "nat \<Rightarrow> string \<Rightarrow> nat" where
  [js_defs]: "read_digits n s = foldl (\<lambda>a c. 10 * a + digit_val c) n s"

text \<open>\<open>None\<close> is \<^verbatim>\<open>NaN\<close>.\<close>

definition parse_int :: "string \<Rightarrow> int option" where
  [js_defs]: "parse_int s =
    (let t = dropWhile js_space s;
         neg = (case t of c # _ \<Rightarrow> c = CHR ''-'' | [] \<Rightarrow> False);
         u = (case t of c # r \<Rightarrow> if c = CHR ''-'' \<or> c = CHR ''+'' then r else t | [] \<Rightarrow> []);
         ds = takeWhile is_digit u
     in if ds = [] then None
        else Some (if neg then - int (read_digits 0 ds) else int (read_digits 0 ds)))"

text \<open>An indexed read \<^verbatim>\<open>xs[i]\<close>, and \<^verbatim>\<open>indexOf\<close> from a position on for a character and for a string.\<close>

definition nth_opt :: "'a list \<Rightarrow> nat \<Rightarrow> 'a option" where
  "nth_opt xs i = (if i < length xs then Some (xs ! i) else None)"

definition char_index_from :: "char \<Rightarrow> string \<Rightarrow> nat \<Rightarrow> nat option" where
  "char_index_from c s i =
     (if c \<in> set (drop i s) then Some (i + length (takeWhile (\<lambda>x. x \<noteq> c) (drop i s))) else None)"

fun sub_index :: "string \<Rightarrow> string \<Rightarrow> nat \<Rightarrow> nat option" where
  "sub_index t [] k = (if t = [] then Some k else None)"
| "sub_index t (c # s) k = (if prefix t (c # s) then Some k else sub_index t s (k + 1))"

definition js_index_of_from :: "string \<Rightarrow> string \<Rightarrow> nat \<Rightarrow> nat option" where
  "js_index_of_from s t i = sub_index t (drop i s) i"

text \<open>\<^verbatim>\<open>s.slice(i, j)\<close> for indices counted from the start.\<close>

definition js_slice :: "'a list \<Rightarrow> nat \<Rightarrow> nat \<Rightarrow> 'a list" where
  "js_slice s i j = drop i (take j s)"

section \<open>Errors\<close>

text \<open>Code that may throw returns a sum: \<open>Inl\<close> the error, \<open>Inr\<close> the value.  \<open>bind_err\<close> sequences two such
  computations; \<open>fold_err\<close> is a loop whose body may throw.\<close>

definition bind_err :: "'e + 'a \<Rightarrow> ('a \<Rightarrow> 'e + 'b) \<Rightarrow> 'e + 'b" where
  "bind_err m f = (case m of Inl e \<Rightarrow> Inl e | Inr x \<Rightarrow> f x)"

fun fold_err :: "('x \<Rightarrow> 's \<Rightarrow> 'e + 's) \<Rightarrow> 'x list \<Rightarrow> 's \<Rightarrow> 'e + 's" where
  "fold_err f [] s = Inr s"
| "fold_err f (x # xs) s = (case f x s of Inl e \<Rightarrow> Inl e | Inr s' \<Rightarrow> fold_err f xs s')"

section \<open>Lemmas\<close>

subsection \<open>Errors\<close>

lemma bind_err_simps [simp]: "bind_err (Inl e) f = Inl e" "bind_err (Inr x) f = f x"
  by (simp_all add: bind_err_def)

lemma bind_err_Inr_iff: "bind_err m f = Inr y \<longleftrightarrow> (\<exists>x. m = Inr x \<and> f x = Inr y)"
  by (simp add: bind_err_def split: sum.split)

lemma map_sum_Inr_iff: "map_sum g f m = Inr y \<longleftrightarrow> (\<exists>x. m = Inr x \<and> y = f x)"
  by (cases m) auto

lemma bind_err_assoc: "bind_err (bind_err m f) g = bind_err m (\<lambda>x. bind_err (f x) g)"
  by (cases m) simp_all

lemma fold_err_Cons: "fold_err f (x # xs) s = bind_err (f x s) (fold_err f xs)"
  by (simp add: bind_err_def)

lemma fold_err_ConsE:
  assumes "fold_err f (x # xs) s = Inr s'"
  obtains s1 where "f x s = Inr s1" "fold_err f xs s1 = Inr s'"
  using assms by (auto split: sum.splits)

lemma fold_err_append: "fold_err f (xs @ ys) s = bind_err (fold_err f xs s) (fold_err f ys)"
  by (induction xs arbitrary: s) (simp_all add: bind_err_def split: sum.split)

lemma fold_err_invariant:
  "fold_err f xs s = Inr s' \<Longrightarrow> I s \<Longrightarrow> (\<And>x s s'. x \<in> set xs \<Longrightarrow> I s \<Longrightarrow> f x s = Inr s' \<Longrightarrow> I s') \<Longrightarrow> I s'"
proof (induction xs arbitrary: s)
  case (Cons x xs)
  obtain s1 where s1: "f x s = Inr s1" "fold_err f xs s1 = Inr s'" using Cons.prems(1) by (auto split: sum.splits)
  show ?case by (rule Cons.IH [OF s1(2)]) (use Cons.prems(2,3) s1(1) in \<open>auto\<close>)
qed simp

subsection \<open>Positions\<close>

text \<open>Induction for a loop over the positions below \<open>n\<close> that moves forward in steps of any size.\<close>

lemma position_induct:
  fixes i n :: nat
  assumes "\<And>i. (\<And>j. i < j \<Longrightarrow> i < n \<Longrightarrow> P j) \<Longrightarrow> P i"
  shows "P i"
proof (induction "n - i" arbitrary: i rule: less_induct)
  case less
  show ?case by (rule assms) (use less in auto)
qed

lemma nth_opt_Some [simp]: "nth_opt xs i = Some x \<longleftrightarrow> i < length xs \<and> xs ! i = x"
  by (auto simp: nth_opt_def)

lemma char_index_from_Some:
  "char_index_from c s i = Some k \<Longrightarrow> i \<le> k \<and> k < length s \<and> s ! k = c \<and> c \<notin> set (js_slice s i k)"
proof -
  assume h: "char_index_from c s i = Some k"
  let ?d = "drop i s" and ?t = "takeWhile (\<lambda>x. x \<noteq> c) (drop i s)"
  have m: "c \<in> set ?d" and k: "k = i + length ?t" using h by (auto simp: char_index_from_def split: if_splits)
  then have l: "length ?t < length ?d" using takeWhile_eq_all_conv [of "\<lambda>x. x \<noteq> c" ?d]
    by (metis length_takeWhile_le le_neq_implies_less takeWhile_eq_take take_all_iff le_refl)
  moreover have "?d ! length ?t = c" using nth_length_takeWhile [of "\<lambda>x. x \<noteq> c" ?d] l by blast
  moreover have "js_slice s i k = ?t" by (simp add: js_slice_def k drop_take takeWhile_eq_take [symmetric])
  ultimately show ?thesis using k by (auto simp: dest: set_takeWhileD)
qed

text \<open>A loop that counts down from \<open>n - 1\<close> to \<open>lo\<close> and stops at the first position with a property.\<close>

fun find_down :: "(nat \<Rightarrow> bool) \<Rightarrow> nat \<Rightarrow> nat \<Rightarrow> nat option" where
  "find_down P lo 0 = None"
| "find_down P lo (Suc n) = (if n < lo then None else if P n then Some n else find_down P lo n)"

lemma find_down_Suc: "find_down P (Suc lo) (Suc n) = map_option Suc (find_down (\<lambda>i. P (Suc i)) lo n)"
  by (induction n) simp_all

lemma find_down_Some_iff:
  "find_down P lo n = Some i \<longleftrightarrow> lo \<le> i \<and> i < n \<and> P i \<and> (\<forall>j. i < j \<and> j < n \<longrightarrow> \<not> P j)"
proof (induction n)
  case (Suc n)
  show ?case
  proof (cases "n < lo")
    case False
    then show ?thesis using Suc by (auto simp: less_Suc_eq)
  qed auto
qed simp

lemma find_down_None_iff: "find_down P lo n = None \<longleftrightarrow> (\<forall>i. lo \<le> i \<and> i < n \<longrightarrow> \<not> P i)"
  by (induction n) (auto simp: less_Suc_eq not_less)

subsection \<open>Insertion-ordered maps\<close>

text \<open>
  A \<^verbatim>\<open>Map\<close> and the own properties of a plain object are association lists with distinct keys
  in insertion order: \<^const>\<open>map_of\<close> reads, \<^const>\<open>AList.update\<close> writes in place or appends,
  \<^const>\<open>AList.delete\<close> removes.
\<close>

abbreviation keys :: "('k \<times> 'v) list \<Rightarrow> 'k list" where
  "keys m \<equiv> map fst m"

lemma keys_update_mem [simp]:
  "k \<in> set (keys m) \<Longrightarrow> keys (AList.update k v m) = keys m"
  by (induction m) auto

lemma update_new: "k \<notin> set (keys m) \<Longrightarrow> AList.update k v m = m @ [(k, v)]"
  by (induction m) auto

lemma list_all_update: "list_all P m \<Longrightarrow> P (k, v) \<Longrightarrow> list_all P (AList.update k v m)"
  by (induction m) auto

lemma keys_update_new [simp]:
  "k \<notin> set (keys m) \<Longrightarrow> keys (AList.update k v m) = keys m @ [k]"
  by (induction m) auto

lemma map_of_update [simp]: "map_of (AList.update k v m) j = (if j = k then Some v else map_of m j)"
  by (simp add: update_conv')

lemma map_of_delete [simp]: "map_of (AList.delete k m) j = (if j = k then None else map_of m j)"
  by (simp add: delete_conv')

lemma map_of_None_iff: "map_of m k = None \<longleftrightarrow> k \<notin> set (keys m)"
  by (induction m) auto

lemma map_of_Some_in_keys: "map_of m k = Some v \<Longrightarrow> k \<in> set (keys m)"
  by (metis map_of_None_iff option.distinct(1))

lemma map_of_spread: "map_of (js_spread a b) k = (case map_of (rev b) k of None \<Rightarrow> map_of a k | Some v \<Rightarrow> Some v)"
  unfolding js_spread_def
  by (induction b arbitrary: a) (auto split: option.splits simp: map_add_def)

lemma map_of_spread_distinct:
  "distinct (keys b) \<Longrightarrow> map_of (js_spread a b) k = (case map_of b k of None \<Rightarrow> map_of a k | Some v \<Rightarrow> Some v)"
proof -
  assume d: "distinct (keys b)"
  then have "map_of (rev b) = map_of b"
    by (subst map_of_inject_set) (auto simp: rev_map [symmetric])
  then show ?thesis by (simp add: map_of_spread)
qed

subsection \<open>Decimal numbers\<close>

lemma of_char_digit [simp]: "d < 10 \<Longrightarrow> of_char (digit_char d) = (48 + d :: nat)"
  by (simp add: digit_char_def)

lemma is_digit_digit_char [simp]: "d < 10 \<Longrightarrow> is_digit (digit_char d)"
  by (simp add: is_digit_def)

lemma digit_val_digit_char [simp]: "d < 10 \<Longrightarrow> digit_val (digit_char d) = d"
  by (simp add: digit_val_def)

lemma show_nat_digits: "list_all is_digit (show_nat n)"
proof (induction n rule: show_nat.induct)
  case (1 n)
  then show ?case by (subst show_nat.simps) simp
qed

lemma show_nat_nonempty [simp]: "show_nat n \<noteq> []"
  by (subst show_nat.simps) simp

lemma read_digits_append: "read_digits n (s @ t) = read_digits (read_digits n s) t"
  by (simp add: read_digits_def)

lemma read_show_nat [simp]: "read_digits 0 (show_nat n) = n"
proof (induction n rule: show_nat.induct)
  case (1 n)
  show ?case
  proof (cases "n < 10")
    case True
    then show ?thesis by (subst show_nat.simps) (simp add: read_digits_def)
  next
    case False
    then have "read_digits 0 (show_nat n) = read_digits (n div 10) [digit_char (n mod 10)]"
      using 1 by (subst show_nat.simps) (simp add: read_digits_append)
    also have "\<dots> = n" by (simp add: read_digits_def)
    finally show ?thesis .
  qed
qed

lemma show_nat_inj: "show_nat m = show_nat n \<Longrightarrow> m = n"
  by (metis read_show_nat)

lemma takeWhile_list_all [simp]: "list_all P s \<Longrightarrow> takeWhile P s = s"
  by (simp add: list_all_iff)

lemma is_digit_cases: "is_digit c \<Longrightarrow> \<not> js_space c \<and> c \<noteq> CHR ''-'' \<and> c \<noteq> CHR ''+''"
  by (auto simp: is_digit_def js_space_def)

lemma parse_show_nat [simp]: "parse_int (show_nat n) = Some (int n)"
proof -
  obtain c r where s: "show_nat n = c # r" by (metis list.exhaust show_nat_nonempty)
  from show_nat_digits [of n] s have "is_digit c" by simp
  then have "\<not> js_space c" "c \<noteq> CHR ''-''" "c \<noteq> CHR ''+''" by (auto dest: is_digit_cases)
  moreover have "takeWhile is_digit (c # r) = c # r"
    using show_nat_digits [of n] unfolding s by simp
  ultimately show ?thesis
    using read_show_nat [of n] unfolding s parse_int_def by simp
qed

lemma parse_show_int [simp]: "0 \<le> i \<Longrightarrow> parse_int (show_int i) = Some i"
  by (simp add: show_int_def)

subsection \<open>Substrings\<close>

lemma js_includes_iff: "js_includes s t \<longleftrightarrow> (\<exists>a b. s = a @ t @ b)"
proof (induction s)
  case Nil
  then show ?case by simp
next
  case (Cons c s)
  show ?case
  proof
    assume "js_includes (c # s) t"
    then consider "prefix t (c # s)" | "js_includes s t" by auto
    then show "\<exists>a b. c # s = a @ t @ b"
    proof cases
      case 1
      then show ?thesis by (metis append_Nil prefixE)
    next
      case 2
      with Cons show ?thesis by (metis append_Cons)
    qed
  next
    assume "\<exists>a b. c # s = a @ t @ b"
    then obtain a b where "c # s = a @ t @ b" by blast
    then have "prefix t (c # s) \<or> (\<exists>a b. s = a @ t @ b)"
      by (cases a) auto
    with Cons show "js_includes (c # s) t" by auto
  qed
qed

subsection \<open>Splitting and joining\<close>

lemma split_at_prefix_join:
  "split_at_prefix sep acc s = Some (a, b) \<Longrightarrow> a @ sep @ b = rev acc @ s"
proof (induction sep acc s rule: split_at_prefix.induct)
  case (2 sep acc c s)
  then show ?case
    by (cases "prefix sep (c # s)") (auto simp: prefix_def)
qed simp

lemma js_split_nonempty: "sep \<noteq> [] \<Longrightarrow> js_split sep s \<noteq> []"
  by (subst js_split.simps) (auto split: option.splits)

lemma js_join_Cons: "ys \<noteq> [] \<Longrightarrow> js_join sep (y # ys) = y @ sep @ js_join sep ys"
  by (cases ys) (simp_all add: js_join_def)

lemma js_join_split [simp]: "sep \<noteq> [] \<Longrightarrow> js_join sep (js_split sep s) = s"
proof (induction sep s rule: js_split.induct)
  case (1 sep s)
  show ?case
  proof (cases "split_at_prefix sep [] s")
    case None
    then show ?thesis using 1 by (subst js_split.simps) (simp add: js_join_def)
  next
    case (Some p)
    obtain a b where p: "p = (a, b)" by fastforce
    then have "js_join sep (js_split sep s) = a @ sep @ js_join sep (js_split sep b)"
      using 1 Some by (subst js_split.simps) (simp add: js_join_Cons js_split_nonempty)
    also have "\<dots> = s" using 1 Some p split_at_prefix_join [of sep "[]" s a b] by simp
    finally show ?thesis .
  qed
qed

end
