(* ===== verification/Background_Task_Store.thy ===== *)
theory Background_Task_Store
  imports Bari_Prelude
begin

text \<open>
  The background task contract of \<^verbatim>\<open>packages/agent-modules/background-task/src\<close>: the types
  (\<^verbatim>\<open>types.ts\<close>), the status machine (\<^verbatim>\<open>status.ts\<close>), the errors (\<^verbatim>\<open>errors.ts\<close>) and the
  in-memory task store (\<^verbatim>\<open>in-memory-store.ts\<close>).  The interface \<^verbatim>\<open>TaskStore\<close> is the record of
  operations \<open>TaskStoreOps\<close>; the laws a client may rely on are the locale \<open>task_store\<close>,
  which the in-memory store interprets.

  Timestamps are integers.  The store's own clock is the field \<open>st_now\<close>, a function of the number
  of times it has been read.  The store clones every task it takes in and hands out
  (\<^verbatim>\<open>cloneTask\<close>, \<^verbatim>\<open>cloneEvent\<close>); a value of the model is such a snapshot, so a clone is the value
  itself.
\<close>

section \<open>Types\<close>

datatype BackgroundTaskKind = KBash | KSubagent | KWorkflow | KCustom

datatype BackgroundTaskStatus =
  Queued | Running | Stopping | Succeeded | Failed | Canceled | Lost

record TaskError =
  te_message :: string
  te_code :: "string option"
  te_details :: "js_record option"

record TaskUsage =
  tu_inputTokens :: "int option"
  tu_outputTokens :: "int option"
  tu_totalTokens :: "int option"
  tu_costUsd :: "rat option"
  tu_metadata :: "js_record option"

datatype TaskOutputKind = OFile | OOss | OSandboxJob | OSessionTranscript | OMemory

record TaskOutputRef =
  or_taskId :: string
  or_kind :: TaskOutputKind
  or_uri :: string
  or_offset :: "int option"
  or_updatedAt :: "int option"
  or_metadata :: "js_record option"

record BackgroundTask =
  taskId :: string
  kind :: BackgroundTaskKind
  status :: BackgroundTaskStatus
  ownerSessionId :: string
  description :: "string option"
  toolCallId :: "string option"
  parentMessageId :: "string option"
  parentTaskId :: "string nullable"
  createdAt :: int
  updatedAt :: int
  startedAt :: "int option"
  endedAt :: "int option"
  deliveredAt :: "int option"
  outputRef :: "TaskOutputRef option"
  lastError :: "TaskError option"
  usage :: "TaskUsage option"
  metadata :: "js_record option"

text \<open>
  A patch: \<open>None\<close> is an absent key.  A key may be present with the value \<^verbatim>\<open>undefined\<close>, which
  overwrites an optional field of the task, hence the two levels of \<open>option\<close>.
\<close>

record BackgroundTaskPatch =
  p_status :: "BackgroundTaskStatus option"
  p_description :: "string option option"
  p_toolCallId :: "string option option"
  p_parentMessageId :: "string option option"
  p_parentTaskId :: "string nullable option"
  p_updatedAt :: "int option"
  p_startedAt :: "int option option"
  p_endedAt :: "int option option"
  p_deliveredAt :: "int option option"
  p_outputRef :: "TaskOutputRef option option"
  p_lastError :: "TaskError option option"
  p_usage :: "TaskUsage option option"
  p_metadata :: "js_record option"

definition empty_patch :: BackgroundTaskPatch where
  "empty_patch = \<lparr>p_status = None, p_description = None, p_toolCallId = None,
     p_parentMessageId = None, p_parentTaskId = None, p_updatedAt = None, p_startedAt = None,
     p_endedAt = None, p_deliveredAt = None, p_outputRef = None, p_lastError = None,
     p_usage = None, p_metadata = None\<rparr>"

datatype TaskOrderBy = OrderCreatedAt | OrderUpdatedAt | OrderCompletedAt

datatype TaskOrder = Asc | Desc

text \<open>A query.  \<open>q_parentTaskId\<close> distinguishes \<^verbatim>\<open>undefined\<close> (no filter) from \<^verbatim>\<open>null\<close>.\<close>

record TaskQuery =
  q_taskIds :: "string list option"
  q_ownerSessionId :: "string option"
  q_parentTaskId :: "string nullable"
  q_kinds :: "BackgroundTaskKind list option"
  q_statuses :: "BackgroundTaskStatus list option"
  q_createdAfter :: "int option"
  q_createdBefore :: "int option"
  q_updatedAfter :: "int option"
  q_updatedBefore :: "int option"
  q_limit :: "rat option"
  q_cursor :: "string option"
  q_orderBy :: "TaskOrderBy option"
  q_order :: "TaskOrder option"
  q_includeArchived :: "bool option"
  q_undeliveredOnly :: "bool option"

definition any_query :: TaskQuery where
  "any_query = \<lparr>q_taskIds = None, q_ownerSessionId = None, q_parentTaskId = Undefined,
     q_kinds = None, q_statuses = None, q_createdAfter = None, q_createdBefore = None,
     q_updatedAfter = None, q_updatedBefore = None, q_limit = None, q_cursor = None,
     q_orderBy = None, q_order = None, q_includeArchived = None, q_undeliveredOnly = None\<rparr>"

record TaskListResult =
  lr_items :: "BackgroundTask list"
  lr_nextCursor :: "string option"

datatype TaskLifecycleEventType =
  EvCreated | EvStarted | EvOutputUpdated | EvStopRequested | EvStatusChanged | EvCompleted

record TaskLifecycleEvent =
  ev_eventId :: string
  ev_taskId :: string
  ev_ownerSessionId :: string
  ev_type :: TaskLifecycleEventType
  ev_timestamp :: int
  ev_sequence :: "nat option"
  ev_payload :: "js_record option"

fun kind_string :: "BackgroundTaskKind \<Rightarrow> string" where
  "kind_string KBash = ''bash''"
| "kind_string KSubagent = ''subagent''"
| "kind_string KWorkflow = ''workflow''"
| "kind_string KCustom = ''custom''"

fun status_string :: "BackgroundTaskStatus \<Rightarrow> string" where
  "status_string Queued = ''queued''"
| "status_string Running = ''running''"
| "status_string Stopping = ''stopping''"
| "status_string Succeeded = ''succeeded''"
| "status_string Failed = ''failed''"
| "status_string Canceled = ''canceled''"
| "status_string Lost = ''lost''"

section \<open>The status machine\<close>

definition ACTIVE_TASK_STATUSES :: "BackgroundTaskStatus list" where
  "ACTIVE_TASK_STATUSES = [Queued, Running, Stopping]"

definition TERMINAL_TASK_STATUSES :: "BackgroundTaskStatus list" where
  "TERMINAL_TASK_STATUSES = [Succeeded, Failed, Canceled, Lost]"

definition isActiveTaskStatus :: "BackgroundTaskStatus \<Rightarrow> bool" where
  "isActiveTaskStatus s = (s \<in> set ACTIVE_TASK_STATUSES)"

definition isTerminalTaskStatus :: "BackgroundTaskStatus \<Rightarrow> bool" where
  "isTerminalTaskStatus s = (s \<in> set TERMINAL_TASK_STATUSES)"

definition canTransitionTaskStatus :: "BackgroundTaskStatus \<Rightarrow> BackgroundTaskStatus \<Rightarrow> bool" where
  "canTransitionTaskStatus from to =
     (if from = to then True
      else if isTerminalTaskStatus from then False
      else case from of
        Queued \<Rightarrow> to \<in> set [Running, Stopping, Succeeded, Failed, Canceled, Lost]
      | Running \<Rightarrow> to \<in> set [Stopping, Succeeded, Failed, Canceled, Lost]
      | Stopping \<Rightarrow> to \<in> set [Succeeded, Failed, Canceled, Lost]
      | _ \<Rightarrow> False)"

section \<open>Errors\<close>

datatype BackgroundTaskError =
    TaskNotFoundError string
  | TaskAlreadyExistsError string
  | TaskRunnerNotFoundError BackgroundTaskKind
  | TaskRunnerAlreadyRegisteredError BackgroundTaskKind
  | InvalidTaskStatusTransitionError string BackgroundTaskStatus BackgroundTaskStatus

fun error_message :: "BackgroundTaskError \<Rightarrow> string" where
  "error_message (TaskNotFoundError i) = ''Background task not found: '' @ i"
| "error_message (TaskAlreadyExistsError i) = ''Background task already exists: '' @ i"
| "error_message (TaskRunnerNotFoundError k) =
     ''No background task runner registered for kind: '' @ kind_string k"
| "error_message (TaskRunnerAlreadyRegisteredError k) =
     ''Background task runner already registered for kind: '' @ kind_string k"
| "error_message (InvalidTaskStatusTransitionError i f t) =
     ''Invalid background task status transition for '' @ i @ '': '' @
     status_string f @ '' -> '' @ status_string t"

fun error_code :: "BackgroundTaskError \<Rightarrow> string" where
  "error_code (TaskNotFoundError i) = ''TASK_NOT_FOUND''"
| "error_code (TaskAlreadyExistsError i) = ''TASK_ALREADY_EXISTS''"
| "error_code (TaskRunnerNotFoundError k) = ''TASK_RUNNER_NOT_FOUND''"
| "error_code (TaskRunnerAlreadyRegisteredError k) = ''TASK_RUNNER_EXISTS''"
| "error_code (InvalidTaskStatusTransitionError i f t) = ''INVALID_TASK_STATUS_TRANSITION''"

fun error_details :: "BackgroundTaskError \<Rightarrow> js_record" where
  "error_details (TaskNotFoundError i) = [(''taskId'', JStr i)]"
| "error_details (TaskAlreadyExistsError i) = [(''taskId'', JStr i)]"
| "error_details (TaskRunnerNotFoundError k) = [(''kind'', JStr (kind_string k))]"
| "error_details (TaskRunnerAlreadyRegisteredError k) = [(''kind'', JStr (kind_string k))]"
| "error_details (InvalidTaskStatusTransitionError i f t) =
     [(''taskId'', JStr i), (''from'', JStr (status_string f)), (''to'', JStr (status_string t))]"

text \<open>
  A thrown value: one of the module's errors, another \<^verbatim>\<open>Error\<close> with its message and stack, or any
  other value, of which only \<^verbatim>\<open>String(error)\<close> is used.
\<close>

datatype thrown =
    ThrownTaskError BackgroundTaskError
  | ThrownError string "string option"
  | ThrownOther string

definition normalizeTaskError :: "thrown \<Rightarrow> string \<Rightarrow> TaskError" where
  "normalizeTaskError e fallbackCode =
     (case e of
        ThrownTaskError b \<Rightarrow>
          \<lparr>te_message = error_message b, te_code = Some (error_code b),
           te_details = Some (error_details b)\<rparr>
      | ThrownError m stack \<Rightarrow>
          \<lparr>te_message = m, te_code = Some fallbackCode,
           te_details = (if truthy_str stack then Some [(''stack'', JStr (the stack))] else None)\<rparr>
      | ThrownOther s \<Rightarrow>
          \<lparr>te_message = s, te_code = Some fallbackCode, te_details = None\<rparr>)"

section \<open>The in-memory task store\<close>

record InMemoryTaskStore =
  tasks :: "(string \<times> BackgroundTask) list"
  events :: "TaskLifecycleEvent list"
  st_now :: "nat \<Rightarrow> int"
  st_ticks :: nat

definition DEFAULT_TASK_LIST_LIMIT :: int where
  "DEFAULT_TASK_LIST_LIMIT = 100"

definition MAX_TASK_LIST_LIMIT :: int where
  "MAX_TASK_LIST_LIMIT = 500"

definition new_store :: "(nat \<Rightarrow> int) \<Rightarrow> InMemoryTaskStore" where
  "new_store clock = \<lparr>tasks = [], events = [], st_now = clock, st_ticks = 0\<rparr>"

definition mergeRecord :: "js_record option \<Rightarrow> js_record option \<Rightarrow> js_record option" where
  "mergeRecord current p =
     (if current = None \<and> p = None then None
      else Some (js_spread (js_spread [] (nullish current [])) (nullish p [])))"

definition clampLimit :: "rat option \<Rightarrow> int" where
  "clampLimit limit =
     (case limit of
        None \<Rightarrow> DEFAULT_TASK_LIST_LIMIT
      | Some l \<Rightarrow> if l \<le> 0 then DEFAULT_TASK_LIST_LIMIT else min \<lfloor>l\<rfloor> MAX_TASK_LIST_LIMIT)"

definition parseCursor :: "string option \<Rightarrow> int" where
  "parseCursor cursor =
     (if \<not> truthy_str cursor then 0
      else case parse_int (the cursor) of
        None \<Rightarrow> 0
      | Some v \<Rightarrow> if 0 < v then v else 0)"

fun getOrderValue :: "BackgroundTask \<Rightarrow> TaskOrderBy \<Rightarrow> int" where
  "getOrderValue t OrderUpdatedAt = updatedAt t"
| "getOrderValue t OrderCompletedAt = nullish (endedAt t) 0"
| "getOrderValue t OrderCreatedAt = createdAt t"

text \<open>\<^verbatim>\<open>(task.parentTaskId ?? null)\<close>.\<close>

definition nullable_or_null :: "'a nullable \<Rightarrow> 'a nullable" where
  "nullable_or_null v = (case v of Undefined \<Rightarrow> Null | _ \<Rightarrow> v)"

definition matchesQuery :: "BackgroundTask \<Rightarrow> TaskQuery \<Rightarrow> bool" where
  "matchesQuery task query =
     (if (case q_taskIds query of Some ids \<Rightarrow> taskId task \<notin> set ids | None \<Rightarrow> False) then False
      else if truthy_str (q_ownerSessionId query) \<and> Some (ownerSessionId task) \<noteq> q_ownerSessionId query then False
      else if q_parentTaskId query \<noteq> Undefined \<and> nullable_or_null (parentTaskId task) \<noteq> q_parentTaskId query then False
      else if (case q_kinds query of Some ks \<Rightarrow> kind task \<notin> set ks | None \<Rightarrow> False) then False
      else if (case q_statuses query of Some ss \<Rightarrow> status task \<notin> set ss | None \<Rightarrow> False) then False
      else if (case q_createdAfter query of Some a \<Rightarrow> createdAt task < a | None \<Rightarrow> False) then False
      else if (case q_createdBefore query of Some b \<Rightarrow> b < createdAt task | None \<Rightarrow> False) then False
      else if (case q_updatedAfter query of Some a \<Rightarrow> updatedAt task < a | None \<Rightarrow> False) then False
      else if (case q_updatedBefore query of Some b \<Rightarrow> b < updatedAt task | None \<Rightarrow> False) then False
      else True)"

definition store_create :: "InMemoryTaskStore \<Rightarrow> BackgroundTask \<Rightarrow> InMemoryTaskStore \<times> (thrown + BackgroundTask)" where
  "store_create s task =
     (if map_of (tasks s) (taskId task) \<noteq> None
      then (s, Inl (ThrownTaskError (TaskAlreadyExistsError (taskId task))))
      else (s\<lparr>tasks := AList.update (taskId task) task (tasks s)\<rparr>, Inr task))"

definition store_get :: "InMemoryTaskStore \<Rightarrow> string \<Rightarrow> BackgroundTask option" where
  "store_get s i = map_of (tasks s) i"

text \<open>\<open>Array.prototype.sort\<close> is stable, as \<^const>\<open>sort_key\<close> is.\<close>

definition store_sorted :: "InMemoryTaskStore \<Rightarrow> TaskQuery \<Rightarrow> BackgroundTask list" where
  "store_sorted s query =
     (let order = nullish (q_order query) Desc;
          orderBy = nullish (q_orderBy query) OrderCreatedAt;
          items = filter (\<lambda>t. matchesQuery t query) (map snd (tasks s))
      in if order = Asc then sort_key (\<lambda>t. getOrderValue t orderBy) items
         else sort_key (\<lambda>t. - getOrderValue t orderBy) items)"

definition store_list :: "InMemoryTaskStore \<Rightarrow> TaskQuery \<Rightarrow> TaskListResult" where
  "store_list s query =
     (let offset = parseCursor (q_cursor query);
          limit = clampLimit (q_limit query);
          items = store_sorted s query;
          page = take (nat limit) (drop (nat offset) items);
          nextOffset = offset + int (length page)
      in \<lparr>lr_items = page,
          lr_nextCursor = (if nextOffset < int (length items) then Some (show_int nextOffset) else None)\<rparr>)"

text \<open>The object \<^verbatim>\<open>{...current, ...patch, metadata, updatedAt}\<close>.\<close>

definition apply_patch :: "BackgroundTask \<Rightarrow> BackgroundTaskPatch \<Rightarrow> int \<Rightarrow> BackgroundTask" where
  "apply_patch current p now =
     current\<lparr>status := nullish (p_status p) (status current),
       description := nullish (p_description p) (description current),
       toolCallId := nullish (p_toolCallId p) (toolCallId current),
       parentMessageId := nullish (p_parentMessageId p) (parentMessageId current),
       parentTaskId := nullish (p_parentTaskId p) (parentTaskId current),
       startedAt := nullish (p_startedAt p) (startedAt current),
       endedAt := nullish (p_endedAt p) (endedAt current),
       deliveredAt := nullish (p_deliveredAt p) (deliveredAt current),
       outputRef := nullish (p_outputRef p) (outputRef current),
       lastError := nullish (p_lastError p) (lastError current),
       usage := nullish (p_usage p) (usage current),
       metadata := mergeRecord (metadata current) (p_metadata p),
       updatedAt := nullish (p_updatedAt p) now\<rparr>"

definition store_patch ::
  "InMemoryTaskStore \<Rightarrow> string \<Rightarrow> BackgroundTaskPatch \<Rightarrow> InMemoryTaskStore \<times> (thrown + BackgroundTask)" where
  "store_patch s i p =
     (case map_of (tasks s) i of
        None \<Rightarrow> (s, Inl (ThrownTaskError (TaskNotFoundError i)))
      | Some current \<Rightarrow>
          if (case p_status p of
                Some to \<Rightarrow> \<not> canTransitionTaskStatus (status current) to
              | None \<Rightarrow> False)
          then (s, Inl (ThrownTaskError
                  (InvalidTaskStatusTransitionError i (status current) (the (p_status p)))))
          else
            let updated = apply_patch current p (st_now s (st_ticks s));
                ticks' = (if p_updatedAt p = None then Suc (st_ticks s) else st_ticks s)
            in (s\<lparr>tasks := AList.update i updated (tasks s), st_ticks := ticks'\<rparr>, Inr updated))"

definition to_upper :: "char \<Rightarrow> char" where
  "to_upper c = (if 97 \<le> (of_char c :: nat) \<and> (of_char c :: nat) \<le> 122 then char_of (of_char c - 32 :: nat) else c)"

definition store_updateStatus ::
  "InMemoryTaskStore \<Rightarrow> string \<Rightarrow> BackgroundTaskStatus \<Rightarrow> string option \<Rightarrow>
   InMemoryTaskStore \<times> (thrown + BackgroundTask)" where
  "store_updateStatus s i st reason =
     (let p = empty_patch\<lparr>p_status := Some st\<rparr>;
          p' = (if truthy_str reason \<and> st \<in> set [Failed, Canceled, Lost]
                then p\<lparr>p_lastError := Some (Some \<lparr>te_message = the reason,
                        te_code = Some (map to_upper (status_string st)), te_details = None\<rparr>)\<rparr>
                else p)
      in store_patch s i p')"

definition store_appendEvent :: "InMemoryTaskStore \<Rightarrow> TaskLifecycleEvent \<Rightarrow> InMemoryTaskStore" where
  "store_appendEvent s e = s\<lparr>events := events s @ [e]\<rparr>"

definition store_listEvents :: "InMemoryTaskStore \<Rightarrow> string option \<Rightarrow> TaskLifecycleEvent list" where
  "store_listEvents s i = filter (\<lambda>e. \<not> truthy_str i \<or> Some (ev_taskId e) = i) (events s)"

section \<open>The interface of a task store\<close>

record 's TaskStoreOps =
  ts_create :: "'s \<Rightarrow> BackgroundTask \<Rightarrow> 's \<times> (thrown + BackgroundTask)"
  ts_get :: "'s \<Rightarrow> string \<Rightarrow> BackgroundTask option"
  ts_list :: "'s \<Rightarrow> TaskQuery \<Rightarrow> TaskListResult"
  ts_patch :: "'s \<Rightarrow> string \<Rightarrow> BackgroundTaskPatch \<Rightarrow> 's \<times> (thrown + BackgroundTask)"
  ts_updateStatus :: "'s \<Rightarrow> string \<Rightarrow> BackgroundTaskStatus \<Rightarrow> string option \<Rightarrow> 's \<times> (thrown + BackgroundTask)"
  ts_appendEvent :: "'s \<Rightarrow> TaskLifecycleEvent \<Rightarrow> 's"

definition in_memory_ops :: "InMemoryTaskStore TaskStoreOps" where
  "in_memory_ops = \<lparr>ts_create = store_create, ts_get = store_get, ts_list = store_list,
     ts_patch = store_patch, ts_updateStatus = store_updateStatus, ts_appendEvent = store_appendEvent\<rparr>"

text \<open>A patch is legal for a task when it changes no status or changes it along the machine.\<close>

definition patch_legal :: "BackgroundTask \<Rightarrow> BackgroundTaskPatch \<Rightarrow> bool" where
  "patch_legal c p =
     (case p_status p of None \<Rightarrow> True | Some to \<Rightarrow> canTransitionTaskStatus (status c) to)"

text \<open>
  What a client of the interface may rely on: \<open>evlog\<close> is the list of appended events, \<open>invar\<close> the
  store's invariant.  Ids are never reused, a patch changes one task and nothing else, an
  operation that throws changes nothing.
\<close>

locale task_store =
  fixes S :: "'s TaskStoreOps"
    and evlog :: "'s \<Rightarrow> TaskLifecycleEvent list"
    and invar :: "'s \<Rightarrow> bool"
  assumes get_taskId: "invar s \<Longrightarrow> ts_get S s i = Some t \<Longrightarrow> taskId t = i"
    and create_dup: "ts_get S s (taskId t) = Some u \<Longrightarrow>
      ts_create S s t = (s, Inl (ThrownTaskError (TaskAlreadyExistsError (taskId t))))"
    and create_new: "invar s \<Longrightarrow> ts_get S s (taskId t) = None \<Longrightarrow>
      \<exists>s'. ts_create S s t = (s', Inr t) \<and> invar s' \<and>
        ts_get S s' = (ts_get S s)(taskId t \<mapsto> t) \<and> evlog s' = evlog s"
    and patch_missing: "ts_get S s i = None \<Longrightarrow>
      ts_patch S s i p = (s, Inl (ThrownTaskError (TaskNotFoundError i)))"
    and patch_illegal: "ts_get S s i = Some c \<Longrightarrow> \<not> patch_legal c p \<Longrightarrow>
      ts_patch S s i p = (s, Inl (ThrownTaskError
        (InvalidTaskStatusTransitionError i (status c) (the (p_status p)))))"
    and patch_ok: "invar s \<Longrightarrow> ts_get S s i = Some c \<Longrightarrow> patch_legal c p \<Longrightarrow>
      \<exists>s' now. ts_patch S s i p = (s', Inr (apply_patch c p now)) \<and> invar s' \<and>
        ts_get S s' = (ts_get S s)(i \<mapsto> apply_patch c p now) \<and> evlog s' = evlog s"
    and append_event: "invar s \<Longrightarrow> invar (ts_appendEvent S s e) \<and>
      ts_get S (ts_appendEvent S s e) = ts_get S s \<and> evlog (ts_appendEvent S s e) = evlog s @ [e]"
begin

lemma append_get [simp]: "invar s \<Longrightarrow> ts_get S (ts_appendEvent S s e) = ts_get S s"
  by (simp add: append_event)

lemma append_invar [simp]: "invar s \<Longrightarrow> invar (ts_appendEvent S s e)"
  by (simp add: append_event)

lemma append_log [simp]: "invar s \<Longrightarrow> evlog (ts_appendEvent S s e) = evlog s @ [e]"
  by (simp add: append_event)

lemma create_cases:
  assumes "invar s"
  obtains u where "ts_get S s (taskId t) = Some u"
      "ts_create S s t = (s, Inl (ThrownTaskError (TaskAlreadyExistsError (taskId t))))"
    | s' where "ts_get S s (taskId t) = None" "ts_create S s t = (s', Inr t)" "invar s'"
      "ts_get S s' = (ts_get S s)(taskId t \<mapsto> t)" "evlog s' = evlog s"
  using assms create_dup create_new by (metis option.exhaust)

lemma patch_cases:
  assumes "invar s"
  obtains "ts_get S s i = None"
      "ts_patch S s i p = (s, Inl (ThrownTaskError (TaskNotFoundError i)))"
    | c where "ts_get S s i = Some c" "\<not> patch_legal c p"
      "ts_patch S s i p = (s, Inl (ThrownTaskError
         (InvalidTaskStatusTransitionError i (status c) (the (p_status p)))))"
    | c s' now where "ts_get S s i = Some c" "patch_legal c p"
      "ts_patch S s i p = (s', Inr (apply_patch c p now))" "invar s'"
      "ts_get S s' = (ts_get S s)(i \<mapsto> apply_patch c p now)" "evlog s' = evlog s"
proof (cases "ts_get S s i")
  case None
  then show ?thesis using patch_missing that(1) by blast
next
  case (Some c)
  show ?thesis
  proof (cases "patch_legal c p")
    case True
    then show ?thesis using patch_ok [OF assms Some] that(3) [OF Some] by metis
  next
    case False
    then show ?thesis using patch_illegal [OF Some] that(2) [OF Some] by blast
  qed
qed

end

section \<open>Properties of the status machine\<close>

text \<open>Phases: the machine only moves to a later phase, and the last phase is final.\<close>

fun status_phase :: "BackgroundTaskStatus \<Rightarrow> nat" where
  "status_phase Queued = 0"
| "status_phase Running = 1"
| "status_phase Stopping = 2"
| "status_phase _ = 3"

lemmas status_defs = canTransitionTaskStatus_def isTerminalTaskStatus_def isActiveTaskStatus_def
  TERMINAL_TASK_STATUSES_def ACTIVE_TASK_STATUSES_def

lemma canTransition_iff_phase:
  "canTransitionTaskStatus a b \<longleftrightarrow> a = b \<or> status_phase a < status_phase b"
  by (cases a; cases b) (simp_all add: status_defs)

lemma terminal_iff_phase: "isTerminalTaskStatus a \<longleftrightarrow> status_phase a = 3"
  by (cases a) (simp_all add: status_defs)

lemma status_phase_le: "status_phase a \<le> 3"
  by (cases a) simp_all

lemma canTransition_refl [simp]: "canTransitionTaskStatus a a"
  by (simp add: canTransitionTaskStatus_def)

lemma canTransition_trans:
  "canTransitionTaskStatus a b \<Longrightarrow> canTransitionTaskStatus b c \<Longrightarrow> canTransitionTaskStatus a c"
  by (auto simp: canTransition_iff_phase)

lemma canTransition_from_terminal:
  "isTerminalTaskStatus a \<Longrightarrow> canTransitionTaskStatus a b \<longleftrightarrow> b = a"
  using status_phase_le [of b] by (auto simp: canTransition_iff_phase terminal_iff_phase)

lemma active_iff_not_terminal: "isActiveTaskStatus a \<longleftrightarrow> \<not> isTerminalTaskStatus a"
  by (cases a) (simp_all add: status_defs)

section \<open>The in-memory store keeps the contract\<close>

definition store_inv :: "InMemoryTaskStore \<Rightarrow> bool" where
  "store_inv s = (distinct (keys (tasks s)) \<and> list_all (\<lambda>(k, t). taskId t = k) (tasks s))"

lemma store_inv_new [simp]: "store_inv (new_store clock)"
  by (simp add: store_inv_def new_store_def)

lemma store_inv_get: "store_inv s \<Longrightarrow> store_get s i = Some t \<Longrightarrow> taskId t = i"
  by (auto simp: store_inv_def store_get_def list_all_iff dest: map_of_SomeD)

lemma store_inv_update:
  "store_inv s \<Longrightarrow> taskId t = i \<Longrightarrow> store_inv (s\<lparr>tasks := AList.update i t (tasks s)\<rparr>)"
  by (simp add: store_inv_def distinct_update list_all_update)

lemma apply_patch_frame [simp]:
  "taskId (apply_patch c p n) = taskId c" "kind (apply_patch c p n) = kind c"
  "ownerSessionId (apply_patch c p n) = ownerSessionId c" "createdAt (apply_patch c p n) = createdAt c"
  by (simp_all add: apply_patch_def)

lemma apply_patch_status [simp]: "status (apply_patch c p n) = nullish (p_status p) (status c)"
  by (simp add: apply_patch_def)

lemma patch_legal_status: "patch_legal c p \<Longrightarrow> canTransitionTaskStatus (status c) (status (apply_patch c p n))"
  by (auto simp: patch_legal_def nullish_def split: option.splits)

lemma store_patch_eq:
  "store_patch s i p =
     (case store_get s i of
        None \<Rightarrow> (s, Inl (ThrownTaskError (TaskNotFoundError i)))
      | Some c \<Rightarrow>
          if \<not> patch_legal c p
          then (s, Inl (ThrownTaskError (InvalidTaskStatusTransitionError i (status c) (the (p_status p)))))
          else (s\<lparr>tasks := AList.update i (apply_patch c p (st_now s (st_ticks s))) (tasks s),
                  st_ticks := (if p_updatedAt p = None then Suc (st_ticks s) else st_ticks s)\<rparr>,
                Inr (apply_patch c p (st_now s (st_ticks s)))))"
  by (simp add: store_patch_def store_get_def patch_legal_def Let_def split: option.splits)

lemma in_memory_ops_sel [simp]:
  "ts_create in_memory_ops = store_create" "ts_get in_memory_ops = store_get"
  "ts_list in_memory_ops = store_list" "ts_patch in_memory_ops = store_patch"
  "ts_updateStatus in_memory_ops = store_updateStatus"
  "ts_appendEvent in_memory_ops = store_appendEvent"
  by (simp_all add: in_memory_ops_def)

lemma store_create_new:
  assumes "store_inv s" "store_get s (taskId t) = None"
  shows "\<exists>s'. store_create s t = (s', Inr t) \<and> store_inv s' \<and>
    store_get s' = (store_get s)(taskId t \<mapsto> t) \<and> events s' = events s"
proof -
  let ?s = "s\<lparr>tasks := AList.update (taskId t) t (tasks s)\<rparr>"
  have "store_create s t = (?s, Inr t)" using assms(2) by (simp add: store_create_def store_get_def)
  moreover have "store_inv ?s" using assms(1) by (simp add: store_inv_update)
  moreover have "store_get ?s = (store_get s)(taskId t \<mapsto> t)" by (rule ext) (simp add: store_get_def)
  ultimately show ?thesis by simp
qed

lemma store_patch_ok:
  assumes "store_inv s" "store_get s i = Some c" "patch_legal c p"
  shows "\<exists>s' now. store_patch s i p = (s', Inr (apply_patch c p now)) \<and> store_inv s' \<and>
    store_get s' = (store_get s)(i \<mapsto> apply_patch c p now) \<and> events s' = events s"
proof -
  let ?t = "apply_patch c p (st_now s (st_ticks s))"
  let ?s = "s\<lparr>tasks := AList.update i ?t (tasks s),
    st_ticks := (if p_updatedAt p = None then Suc (st_ticks s) else st_ticks s)\<rparr>"
  have "taskId ?t = i" using assms by (auto dest: store_inv_get)
  then have "store_inv ?s" using assms(1) by (simp add: store_inv_def distinct_update list_all_update)
  moreover have "store_patch s i p = (?s, Inr ?t)" using assms by (simp add: store_patch_eq)
  moreover have "store_get ?s = (store_get s)(i \<mapsto> ?t)" by (rule ext) (simp add: store_get_def)
  ultimately show ?thesis
    by (intro exI [of _ ?s] exI [of _ "st_now s (st_ticks s)"]) simp
qed

interpretation mem: task_store in_memory_ops events store_inv
proof (unfold_locales, goal_cases)
  case (1 s i t)
  then show ?case by (simp add: store_inv_get)
next
  case (2 s t u)
  then show ?case by (simp add: store_create_def store_get_def)
next
  case (3 s t)
  then show ?case using store_create_new by simp
next
  case (4 s i p)
  then show ?case by (simp add: store_patch_eq)
next
  case (5 s i c p)
  then show ?case by (simp add: store_patch_eq)
next
  case (6 s i c p)
  then show ?case using store_patch_ok by simp
next
  case (7 s e)
  then show ?case by (simp add: store_appendEvent_def store_inv_def store_get_def fun_eq_iff)
qed

section \<open>Interleavings\<close>

text \<open>
  Every operation of the store runs without suspending, so whatever callers interleave, the store
  sees a sequence of whole operations.  One step is any operation with any arguments.
\<close>

inductive store_step :: "InMemoryTaskStore \<Rightarrow> InMemoryTaskStore \<Rightarrow> bool" where
  step_create: "store_step s (fst (store_create s t))"
| step_patch: "store_step s (fst (store_patch s i p))"
| step_updateStatus: "store_step s (fst (store_updateStatus s i st reason))"
| step_appendEvent: "store_step s (store_appendEvent s e)"

inductive_cases store_stepE: "store_step s s'"

lemma updateStatus_is_patch: "\<exists>p. store_updateStatus s i st reason = store_patch s i p"
  by (auto simp: store_updateStatus_def Let_def)

lemma store_step_cases:
  assumes "store_step s s'"
  obtains (create) t where "s' = fst (store_create s t)"
    | (patch) i p where "s' = fst (store_patch s i p)"
    | (append) e where "s' = store_appendEvent s e"
  using assms by (elim store_stepE) (metis updateStatus_is_patch)+

text \<open>\<open>task_le t t'\<close>: \<open>t'\<close> may be a later version of \<open>t\<close>.\<close>

definition task_le :: "BackgroundTask \<Rightarrow> BackgroundTask \<Rightarrow> bool" where
  "task_le t t' \<longleftrightarrow> taskId t' = taskId t \<and> kind t' = kind t \<and> ownerSessionId t' = ownerSessionId t \<and>
     createdAt t' = createdAt t \<and> canTransitionTaskStatus (status t) (status t')"

lemma task_le_refl [simp]: "task_le t t"
  by (simp add: task_le_def)

lemma task_le_trans: "task_le a b \<Longrightarrow> task_le b c \<Longrightarrow> task_le a c"
  by (auto simp: task_le_def intro: canTransition_trans)

lemma task_le_terminal: "task_le t t' \<Longrightarrow> isTerminalTaskStatus (status t) \<Longrightarrow> status t' = status t"
  by (simp add: task_le_def canTransition_from_terminal)

lemma task_le_patch: "patch_legal c p \<Longrightarrow> task_le c (apply_patch c p n)"
  using patch_legal_status by (simp add: task_le_def)

lemma store_step_inv: "store_step s s' \<Longrightarrow> store_inv s \<Longrightarrow> store_inv s'"
proof (cases rule: store_step_cases, assumption)
  fix t assume "store_inv s" "s' = fst (store_create s t)"
  then show ?thesis by (cases rule: mem.create_cases [of s t, simplified]) auto
next
  fix i p assume "store_inv s" "s' = fst (store_patch s i p)"
  then show ?thesis by (cases rule: mem.patch_cases [of s i p, simplified]) auto
next
  fix e assume "store_inv s" "s' = store_appendEvent s e"
  then show ?thesis using mem.append_event by simp
qed

lemma store_step_task:
  assumes "store_step s s'" "store_inv s" "store_get s i = Some t"
  shows "\<exists>t'. store_get s' i = Some t' \<and> task_le t t'"
  using assms(1)
proof (cases rule: store_step_cases)
  case (create u)
  with assms show ?thesis by (cases rule: mem.create_cases [of s u, simplified]) auto
next
  case (patch j p)
  with assms show ?thesis
    by (cases rule: mem.patch_cases [of s j p, simplified]) (auto simp: task_le_patch)
next
  case (append e)
  with assms show ?thesis using mem.append_event by simp
qed

lemma store_run_task:
  assumes "store_step\<^sup>*\<^sup>* s s'" "store_inv s" "store_get s i = Some t"
  shows "store_inv s' \<and> (\<exists>t'. store_get s' i = Some t' \<and> task_le t t')"
  using assms
proof (induction rule: rtranclp_induct)
  case base
  then show ?case by auto
next
  case (step u v)
  then obtain t' where "store_inv u" "store_get u i = Some t'" "task_le t t'" by blast
  moreover obtain t'' where "store_get v i = Some t''" "task_le t' t''"
    using store_step_task [OF step.hyps(2)] calculation by blast
  ultimately show ?case using store_step_inv [OF step.hyps(2)] task_le_trans by blast
qed

lemma store_step_events:
  assumes "store_step s s'" "store_inv s"
  shows "prefix (events s) (events s')"
  using assms(1)
proof (cases rule: store_step_cases)
  case (create u)
  with assms show ?thesis by (cases rule: mem.create_cases [of s u, simplified]) auto
next
  case (patch j p)
  with assms show ?thesis by (cases rule: mem.patch_cases [of s j p, simplified]) auto
next
  case (append e)
  with assms show ?thesis by (simp add: store_appendEvent_def)
qed

section \<open>Listing\<close>

lemma set_store_sorted:
  "set (store_sorted s q) = {t \<in> snd ` set (tasks s). matchesQuery t q}"
  by (auto simp: store_sorted_def Let_def)

lemma matchesQuery_cursor [simp]: "matchesQuery t (q\<lparr>q_cursor := c\<rparr>) = matchesQuery t q"
  unfolding matchesQuery_def by (simp cong: if_cong split del: if_split)

lemma store_sorted_cursor [simp]: "store_sorted s (q\<lparr>q_cursor := c\<rparr>) = store_sorted s q"
  unfolding store_sorted_def by (simp cong: if_cong split del: if_split)

lemma clampLimit_le: "clampLimit l \<le> 500"
  by (auto simp: clampLimit_def DEFAULT_TASK_LIST_LIMIT_def MAX_TASK_LIST_LIMIT_def split: option.splits)

lemma clampLimit_nonneg: "0 \<le> clampLimit l"
  by (auto simp: clampLimit_def DEFAULT_TASK_LIST_LIMIT_def MAX_TASK_LIST_LIMIT_def split: option.splits)

lemma clampLimit_pos: "(\<forall>x. l = Some x \<longrightarrow> x \<le> 0 \<or> 1 \<le> x) \<Longrightarrow> 1 \<le> clampLimit l"
  by (auto simp: clampLimit_def DEFAULT_TASK_LIST_LIMIT_def MAX_TASK_LIST_LIMIT_def le_floor_iff
      split: option.splits)

lemma parseCursor_show [simp]: "parseCursor (Some (show_int (int n))) = int n"
proof -
  have "show_int (int n) \<noteq> []" by (simp add: show_int_def)
  then show ?thesis by (simp add: parseCursor_def truthy_str_def)
qed

lemma parseCursor_None [simp]: "parseCursor None = 0"
  by (simp add: parseCursor_def truthy_str_def)

text \<open>A client that follows \<^verbatim>\<open>nextCursor\<close> until it is absent.\<close>

fun follow_pages :: "nat \<Rightarrow> InMemoryTaskStore \<Rightarrow> TaskQuery \<Rightarrow> BackgroundTask list option" where
  "follow_pages 0 s q = None"
| "follow_pages (Suc n) s q =
     (let r = store_list s q
      in case lr_nextCursor r of
           None \<Rightarrow> Some (lr_items r)
         | Some c \<Rightarrow> map_option (\<lambda>ts. lr_items r @ ts) (follow_pages n s (q\<lparr>q_cursor := Some c\<rparr>)))"

lemma store_list_at:
  assumes "parseCursor (q_cursor q) = int k"
  shows "store_list s q =
    \<lparr>lr_items = take (nat (clampLimit (q_limit q))) (drop k (store_sorted s q)),
     lr_nextCursor = (if k + nat (clampLimit (q_limit q)) < length (store_sorted s q)
       then Some (show_int (int (k + nat (clampLimit (q_limit q))))) else None)\<rparr>"
  using assms by (auto simp: store_list_def Let_def min_def)

lemma follow_pages_from:
  assumes "1 \<le> clampLimit (q_limit q)" "parseCursor (q_cursor q) = int k"
    and "length (store_sorted s q) < k + n"
  shows "0 < n \<Longrightarrow> follow_pages n s q = Some (drop k (store_sorted s q))"
  using assms
proof (induction n arbitrary: q k)
  case 0
  then show ?case by simp
next
  case (Suc n)
  let ?L = "nat (clampLimit (q_limit q))" and ?xs = "store_sorted s q"
  have L: "1 \<le> ?L" using Suc.prems(2) by linarith
  show ?case
  proof (cases "k + ?L < length ?xs")
    case False
    then show ?thesis using store_list_at [OF Suc.prems(3), of s] by (simp add: Let_def)
  next
    case True
    let ?q = "q\<lparr>q_cursor := Some (show_int (int (k + ?L)))\<rparr>"
    have "follow_pages n s ?q = Some (drop (k + ?L) ?xs)"
      using Suc.IH [of ?q "k + ?L"] Suc.prems L True by (simp del: of_nat_add)
    moreover have "take ?L (drop k ?xs) @ drop (k + ?L) ?xs = drop k ?xs"
      using append_take_drop_id [of ?L "drop k ?xs"] by (simp add: add.commute)
    ultimately show ?thesis
      using store_list_at [OF Suc.prems(3), of s] True
      by (simp add: Let_def del: of_nat_add)
  qed
qed

section \<open>Properties\<close>

text \<open>A sample task and store for the witnesses.\<close>

definition sample_task :: "string \<Rightarrow> BackgroundTaskStatus \<Rightarrow> int \<Rightarrow> BackgroundTask" where
  "sample_task i st now =
     \<lparr>taskId = i, kind = KBash, status = st, ownerSessionId = ''s1'', description = None,
      toolCallId = None, parentMessageId = None, parentTaskId = Undefined, createdAt = now,
      updatedAt = now, startedAt = None, endedAt = None, deliveredAt = None, outputRef = None,
      lastError = None, usage = None, metadata = None\<rparr>"

definition sample_store :: InMemoryTaskStore where
  "sample_store = (new_store (\<lambda>n. int n))\<lparr>tasks :=
     [(''a'', sample_task ''a'' Succeeded 1), (''b'', sample_task ''b'' Running 2), (''c'', sample_task ''c'' Queued 3)]\<rparr>"

lemma sample_store_inv: "store_inv sample_store"
  by (simp add: store_inv_def sample_store_def new_store_def sample_task_def)

text \<open>a status may change only to a status of a strictly later phase (queued, running, stopping, ended),
  and staying put is always allowed; the table in \<^verbatim>\<open>canTransitionTaskStatus\<close> is exactly that order.\<close>

theorem canTransition_is_phase_order:
  "canTransitionTaskStatus from to \<longleftrightarrow> from = to \<or> status_phase from < status_phase to"
  by (rule canTransition_iff_phase)

text \<open>C31: whatever sequence of store operations callers interleave, a stored task is never lost, keeps its
  id, kind, owner and creation time, its status only moves forward, and a terminal status is final.\<close>

theorem stored_task_only_moves_forward:
  assumes "store_step\<^sup>*\<^sup>* s s'" "store_inv s" "store_get s i = Some t"
  shows "\<exists>t'. store_get s' i = Some t' \<and> taskId t' = i \<and> kind t' = kind t \<and>
    ownerSessionId t' = ownerSessionId t \<and> createdAt t' = createdAt t \<and>
    canTransitionTaskStatus (status t) (status t') \<and>
    (isTerminalTaskStatus (status t) \<longrightarrow> status t' = status t)"
proof -
  obtain t' where t': "store_get s' i = Some t'" "task_le t t'"
    using store_run_task [OF assms] by blast
  have "taskId t = i" using assms(2,3) by (rule store_inv_get)
  moreover have "isTerminalTaskStatus (status t) \<longrightarrow> status t' = status t"
    using task_le_terminal [OF t'(2)] by blast
  ultimately show ?thesis
    using t' by (intro exI [of _ t']) (simp add: task_le_def)
qed

theorem stored_task_only_moves_forward_witness:
  "\<exists>s' t'. store_step\<^sup>*\<^sup>* sample_store s' \<and> store_get s' ''b'' = Some t' \<and>
     canTransitionTaskStatus Running (status t')"
proof -
  let ?s = "fst (store_patch sample_store ''b'' (empty_patch\<lparr>p_status := Some Failed\<rparr>))"
  have r: "store_step\<^sup>*\<^sup>* sample_store ?s" by (rule r_into_rtranclp) (rule step_patch)
  have g: "store_get sample_store ''b'' = Some (sample_task ''b'' Running 2)"
    by (simp add: store_get_def sample_store_def)
  obtain t' where t': "store_get ?s ''b'' = Some t'"
      "canTransitionTaskStatus (status (sample_task ''b'' Running 2)) (status t')"
    using stored_task_only_moves_forward [OF r sample_store_inv g] by blast
  have "status (sample_task ''b'' Running 2) = Running" by (simp add: sample_task_def)
  with r t' show ?thesis by metis
qed

text \<open>a patch never half-applies: it reports a missing task or an illegal transition and leaves the store
  as it was, or it stores and returns the merged task and changes no other task.\<close>

theorem patch_is_all_or_nothing:
  assumes "store_inv s"
  shows "case store_get s i of
      None \<Rightarrow> store_patch s i p = (s, Inl (ThrownTaskError (TaskNotFoundError i)))
    | Some c \<Rightarrow>
        if \<exists>to. p_status p = Some to \<and> \<not> canTransitionTaskStatus (status c) to
        then store_patch s i p = (s, Inl (ThrownTaskError
               (InvalidTaskStatusTransitionError i (status c) (the (p_status p)))))
        else \<exists>s' now. store_patch s i p = (s', Inr (apply_patch c p now)) \<and> store_inv s' \<and>
               store_get s' = (store_get s)(i \<mapsto> apply_patch c p now) \<and> events s' = events s"
proof (cases "store_get s i")
  case None
  then show ?thesis by (simp add: store_patch_eq)
next
  case (Some c)
  have "(\<exists>to. p_status p = Some to \<and> \<not> canTransitionTaskStatus (status c) to) = (\<not> patch_legal c p)"
    by (auto simp: patch_legal_def split: option.splits)
  then show ?thesis
    using Some assms store_patch_ok [OF assms Some, of p] by (simp add: store_patch_eq)
qed

theorem patch_is_all_or_nothing_witness:
  "store_patch sample_store ''a'' (empty_patch\<lparr>p_status := Some Running\<rparr>) =
     (sample_store, Inl (ThrownTaskError (InvalidTaskStatusTransitionError ''a'' Succeeded Running)))"
  using patch_is_all_or_nothing [OF sample_store_inv, of "''a''" "empty_patch\<lparr>p_status := Some Running\<rparr>"]
  by (simp add: store_get_def sample_store_def sample_task_def empty_patch_def status_defs)

text \<open>following \<^verbatim>\<open>nextCursor\<close> from page to page returns every matching task exactly once, in the order of the
  full sorted list, in at most one page more than there are matching tasks, unless the requested limit
  lies strictly between 0 and 1.\<close>

theorem pages_cover_the_listing:
  assumes "\<forall>l. q_limit q = Some l \<longrightarrow> l \<le> 0 \<or> 1 \<le> l" "q_cursor q = None"
  shows "follow_pages (Suc (length (store_sorted s q))) s q = Some (store_sorted s q)"
  using follow_pages_from [of q 0 s "Suc (length (store_sorted s q))"] assms clampLimit_pos [OF assms(1)]
  by simp

theorem pages_cover_the_listing_witness:
  "follow_pages 4 sample_store (any_query\<lparr>q_limit := Some 2, q_order := Some Asc\<rparr>) =
     Some [sample_task ''a'' Succeeded 1, sample_task ''b'' Running 2, sample_task ''c'' Queued 3]"
proof -
  let ?q = "any_query\<lparr>q_limit := Some 2, q_order := Some Asc\<rparr>"
  have s: "store_sorted sample_store ?q =
      [sample_task ''a'' Succeeded 1, sample_task ''b'' Running 2, sample_task ''c'' Queued 3]"
    by (simp add: store_sorted_def sample_store_def any_query_def matchesQuery_def truthy_str_def
        nullish_def sample_task_def Let_def)
  show ?thesis
    using pages_cover_the_listing [of ?q sample_store] unfolding s
    by (simp add: any_query_def eval_nat_numeral)
qed

text \<open>a page holds only matching stored tasks, at most 500 of them, ordered by the requested field in the
  requested direction.\<close>

theorem page_is_sound:
  "set (lr_items (store_list s q)) \<subseteq> {t \<in> snd ` set (tasks s). matchesQuery t q} \<and>
   length (lr_items (store_list s q)) \<le> 500 \<and>
   sorted_wrt (\<lambda>x y. let v = (\<lambda>t. getOrderValue t (nullish (q_orderBy q) OrderCreatedAt))
     in if nullish (q_order q) Desc = Asc then v x \<le> v y else v y \<le> v x) (lr_items (store_list s q))"
proof (intro conjI)
  show "set (lr_items (store_list s q)) \<subseteq> {t \<in> snd ` set (tasks s). matchesQuery t q}"
    using set_store_sorted [of s q]
    by (auto simp: store_list_def Let_def dest!: in_set_takeD in_set_dropD)
  show "length (lr_items (store_list s q)) \<le> 500"
    using clampLimit_le [of "q_limit q"] by (simp add: store_list_def Let_def min_le_iff_disj nat_le_iff)
  have "sorted_wrt (\<lambda>x y. f x \<le> f y) (sort_key f xs)" for f :: "BackgroundTask \<Rightarrow> int" and xs
    using sorted_sort_key [of f xs] by (simp add: sorted_wrt_map)
  from this [of "\<lambda>t. getOrderValue t (nullish (q_orderBy q) OrderCreatedAt)"]
    this [of "\<lambda>t. - getOrderValue t (nullish (q_orderBy q) OrderCreatedAt)"]
  show "sorted_wrt (\<lambda>x y. let v = (\<lambda>t. getOrderValue t (nullish (q_orderBy q) OrderCreatedAt))
     in if nullish (q_order q) Desc = Asc then v x \<le> v y else v y \<le> v x) (lr_items (store_list s q))"
    by (auto simp: store_list_def store_sorted_def Let_def intro!: sorted_wrt_take sorted_wrt_drop)
qed

text \<open>the in-memory store does not look at \<^verbatim>\<open>undeliveredOnly\<close>: a listing that asks for undelivered tasks only
  is the listing that does not, so delivered tasks are returned too.\<close>

theorem undeliveredOnly_has_no_effect:
  "store_list s (q\<lparr>q_undeliveredOnly := Some True\<rparr>) = store_list s (q\<lparr>q_undeliveredOnly := None\<rparr>)"
proof -
  have "matchesQuery t (q\<lparr>q_undeliveredOnly := Some True\<rparr>) = matchesQuery t (q\<lparr>q_undeliveredOnly := None\<rparr>)" for t
    unfolding matchesQuery_def by (simp cong: if_cong split del: if_split)
  then show ?thesis by (simp add: store_list_def store_sorted_def)
qed

text \<open>a limit strictly between 0 and 1 is floored to 0, so the page is empty and the next cursor is the
  cursor just read: a client that follows it never advances.\<close>

theorem fractional_limit_never_advances:
  assumes "q_limit q = Some l" "0 < l" "l < 1"
    and "parseCursor (q_cursor q) < int (length (store_sorted s q))"
  shows "lr_items (store_list s q) = [] \<and>
    parseCursor (lr_nextCursor (store_list s q)) = parseCursor (q_cursor q)"
proof -
  have "\<lfloor>l\<rfloor> = 0" using assms(2,3) by (simp add: floor_eq_iff)
  then have l: "clampLimit (q_limit q) = 0"
    using assms(1,2) by (simp add: clampLimit_def MAX_TASK_LIST_LIMIT_def)
  have "0 \<le> parseCursor (q_cursor q)" by (simp add: parseCursor_def split: option.splits)
  then obtain k where k: "parseCursor (q_cursor q) = int k" using nonneg_int_cases by blast
  from l store_list_at [OF k, of s] assms(4) k show ?thesis by simp
qed

theorem fractional_limit_never_advances_witness:
  "lr_items (store_list sample_store (any_query\<lparr>q_limit := Some (1 / 2)\<rparr>)) = []"
  by (rule fractional_limit_never_advances [of _ "1 / 2", THEN conjunct1])
    (simp_all add: any_query_def store_sorted_def sample_store_def matchesQuery_def truthy_str_def
      nullish_def sample_task_def Let_def parseCursor_def)

end
