(* ===== verification/Js_Text.thy ===== *)
theory Js_Text
  imports Bari_Prelude
begin

text \<open>
  Strings as UTF-16 code units, for the components that count or slice bytes: \<open>utf8_encode\<close> is
  \<^verbatim>\<open>Buffer.from(s, 'utf8')\<close>, \<open>utf8_decode\<close> is \<^verbatim>\<open>buffer.toString('utf8')\<close> with the replacement
  character for every maximal invalid part, \<open>js_subarray\<close> is \<^verbatim>\<open>buffer.subarray\<close> with its
  reading of negative bounds, and \<open>code_points\<close> is what \<^verbatim>\<open>for (const c of s)\<close> iterates over.
\<close>

section \<open>Text and bytes\<close>

type_synonym utext = "nat list"

definition is_high :: "nat \<Rightarrow> bool" where
  "is_high u = (55296 \<le> u \<and> u \<le> 56319)"

definition is_low :: "nat \<Rightarrow> bool" where
  "is_low u = (56320 \<le> u \<and> u \<le> 57343)"

definition replacement :: nat where
  "replacement = 65533"

definition utf8_3 :: "nat \<Rightarrow> nat list" where
  "utf8_3 c = [224 + c div 4096, 128 + (c div 64) mod 64, 128 + c mod 64]"

definition utf8_4 :: "nat \<Rightarrow> nat list" where
  "utf8_4 c = [240 + c div 262144, 128 + (c div 4096) mod 64, 128 + (c div 64) mod 64, 128 + c mod 64]"

fun utf8_encode :: "utext \<Rightarrow> nat list" where
  "utf8_encode [] = []"
| "utf8_encode (u # us) =
     (if u < 128 then u # utf8_encode us
      else if u < 2048 then (192 + u div 64) # (128 + u mod 64) # utf8_encode us
      else if is_high u then
        (case us of
           v # vs \<Rightarrow>
             if is_low v
             then utf8_4 (65536 + (u - 55296) * 1024 + (v - 56320)) @ utf8_encode vs
             else utf8_3 replacement @ utf8_encode us
         | [] \<Rightarrow> utf8_3 replacement)
      else if is_low u then utf8_3 replacement @ utf8_encode us
      else utf8_3 u @ utf8_encode us)"

definition cont :: "nat \<Rightarrow> bool" where
  "cont b = (128 \<le> b \<and> b \<le> 191)"

text \<open>The permitted range of the first continuation byte after a lead byte.\<close>

definition first_cont :: "nat \<Rightarrow> nat \<Rightarrow> bool" where
  "first_cont b c =
     (if b = 224 then 160 \<le> c \<and> c \<le> 191
      else if b = 237 then 128 \<le> c \<and> c \<le> 159
      else if b = 240 then 144 \<le> c \<and> c \<le> 191
      else if b = 244 then 128 \<le> c \<and> c \<le> 143
      else cont c)"

definition utf16 :: "nat \<Rightarrow> utext" where
  "utf16 c = (if c < 65536 then [c] else [55296 + (c - 65536) div 1024, 56320 + (c - 65536) mod 1024])"

fun utf8_decode :: "nat list \<Rightarrow> utext" where
  "utf8_decode [] = []"
| "utf8_decode (b # bs) =
     (if b < 128 then b # utf8_decode bs
      else if 194 \<le> b \<and> b \<le> 223 then
        (case bs of
           c # cs \<Rightarrow> if cont c then ((b - 192) * 64 + (c - 128)) # utf8_decode cs
                     else replacement # utf8_decode bs
         | [] \<Rightarrow> [replacement])
      else if 224 \<le> b \<and> b \<le> 239 then
        (case bs of
           c # cs \<Rightarrow>
             if first_cont b c then
               (case cs of
                  d # ds \<Rightarrow>
                    if cont d
                    then ((b - 224) * 4096 + (c - 128) * 64 + (d - 128)) # utf8_decode ds
                    else replacement # utf8_decode cs
                | [] \<Rightarrow> [replacement])
             else replacement # utf8_decode bs
         | [] \<Rightarrow> [replacement])
      else if 240 \<le> b \<and> b \<le> 244 then
        (case bs of
           c # cs \<Rightarrow>
             if first_cont b c then
               (case cs of
                  d # ds \<Rightarrow>
                    if cont d then
                      (case ds of
                         e # es \<Rightarrow>
                           if cont e
                           then utf16 ((b - 240) * 262144 + (c - 128) * 4096 + (d - 128) * 64 + (e - 128))
                                  @ utf8_decode es
                           else replacement # utf8_decode ds
                       | [] \<Rightarrow> [replacement])
                    else replacement # utf8_decode cs
                | [] \<Rightarrow> [replacement])
             else replacement # utf8_decode bs
         | [] \<Rightarrow> [replacement])
      else replacement # utf8_decode bs)"

definition clamp_index :: "int \<Rightarrow> int \<Rightarrow> int" where
  "clamp_index n i = (if i < 0 then max 0 (n + i) else min i n)"

definition js_subarray :: "'a list \<Rightarrow> int \<Rightarrow> int \<Rightarrow> 'a list" where
  "js_subarray xs start end =
     (let n = int (length xs); a = clamp_index n start; b = clamp_index n end
      in take (nat (b - a)) (drop (nat a) xs))"

fun code_points :: "utext \<Rightarrow> nat list" where
  "code_points [] = []"
| "code_points (u # us) =
     (if is_high u then
        (case us of
           v # vs \<Rightarrow> if is_low v then (65536 + (u - 55296) * 1024 + (v - 56320)) # code_points vs else u # code_points us
         | [] \<Rightarrow> [u])
      else u # code_points us)"

definition ascii_text :: "string \<Rightarrow> utext" where
  "ascii_text s = map of_char s"

end
