(* ===== verification/Background_Task_Output.thy ===== *)
theory Background_Task_Output
  imports Background_Task_Store Js_Text
begin

text \<open>
  The in-memory task output store (\<^verbatim>\<open>in-memory-output-store.ts\<close>).  Output content is a list of
  UTF-16 code units, because the store slices it by UTF-8 bytes.
\<close>

section \<open>Text\<close>

text \<open>\<^verbatim>\<open>encodeURIComponent\<close> on code units below 256.\<close>

definition uri_unreserved :: "char \<Rightarrow> bool" where
  "uri_unreserved c = (let n = (of_char c :: nat) in
     (48 \<le> n \<and> n \<le> 57) \<or> (65 \<le> n \<and> n \<le> 90) \<or> (97 \<le> n \<and> n \<le> 122) \<or> c \<in> set ''-_.!~*()'' \<or> n = 39)"

definition hex_digit :: "nat \<Rightarrow> char" where
  "hex_digit d = ''0123456789ABCDEF'' ! d"

definition percent_byte :: "nat \<Rightarrow> string" where
  "percent_byte b = [CHR ''%'', hex_digit (b div 16), hex_digit (b mod 16)]"

definition encodeURIComponent :: "string \<Rightarrow> string" where
  "encodeURIComponent s =
     concat (map (\<lambda>c. if uri_unreserved c then [c]
                      else concat (map percent_byte (utf8_encode [of_char c]))) s)"

section \<open>The output store\<close>

datatype TaskOutputStream = Stdout | Stderr | Transcript | FinalResult

record TaskOutputChunk =
  ch_taskId :: string
  ch_stream :: "TaskOutputStream option"
  ch_content :: utext
  ch_offset :: "int option"
  ch_timestamp :: "int option"
  ch_metadata :: "js_record option"

record TaskOutputReadOptions =
  ro_offset :: "int option"
  ro_limitBytes :: "int option"
  ro_stream :: "TaskOutputStream option"

record TaskOutputReadResult =
  rr_content :: utext
  rr_nextOffset :: "int option"
  rr_truncated :: "bool option"
  rr_summary :: "string option"
  rr_outputRef :: "TaskOutputRef option"

record OutputRecord =
  rec_chunks :: "TaskOutputChunk list"
  rec_summary :: "string option"
  rec_outputRef :: "TaskOutputRef option"

record InMemoryTaskOutputStore =
  outputs :: "(string \<times> OutputRecord) list"
  os_now :: "nat \<Rightarrow> int"
  os_ticks :: nat
  os_kind :: TaskOutputKind
  os_uriPrefix :: string

definition new_output_store ::
  "(nat \<Rightarrow> int) \<Rightarrow> TaskOutputKind option \<Rightarrow> string option \<Rightarrow> InMemoryTaskOutputStore" where
  "new_output_store clock k pfx =
     \<lparr>outputs = [], os_now = clock, os_ticks = 0, os_kind = nullish k OMemory,
      os_uriPrefix = nullish pfx ''memory://background-task/''\<rparr>"

definition byteLength :: "utext \<Rightarrow> int" where
  "byteLength s = int (length (utf8_encode s))"

record Utf8Slice =
  sl_content :: utext
  sl_nextOffset :: int
  sl_truncated :: bool

definition sliceUtf8 :: "utext \<Rightarrow> int \<Rightarrow> int option \<Rightarrow> Utf8Slice" where
  "sliceUtf8 content offset limitBytes =
     (let buffer = utf8_encode content;
          n = int (length buffer);
          start = min offset n;
          end = (case limitBytes of None \<Rightarrow> n | Some l \<Rightarrow> min n (start + l))
      in \<lparr>sl_content = utf8_decode (js_subarray buffer start end),
          sl_nextOffset = end, sl_truncated = (end < n)\<rparr>)"

definition chunk_content :: "TaskOutputChunk list \<Rightarrow> TaskOutputStream option \<Rightarrow> utext" where
  "chunk_content chunks stream =
     concat (map ch_content
       (filter (\<lambda>c. stream = None \<or> Some (nullish (ch_stream c) Stdout) = stream) chunks))"

definition out_getContent :: "InMemoryTaskOutputStore \<Rightarrow> string \<Rightarrow> TaskOutputStream option \<Rightarrow> utext" where
  "out_getContent s i stream =
     (case map_of (outputs s) i of None \<Rightarrow> [] | Some r \<Rightarrow> chunk_content (rec_chunks r) stream)"

definition out_getOrCreate :: "InMemoryTaskOutputStore \<Rightarrow> string \<Rightarrow> InMemoryTaskOutputStore \<times> OutputRecord" where
  "out_getOrCreate s i =
     (case map_of (outputs s) i of
        Some r \<Rightarrow> (s, r)
      | None \<Rightarrow>
          let r = \<lparr>rec_chunks = [], rec_summary = None, rec_outputRef = None\<rparr>
          in (s\<lparr>outputs := AList.update i r (outputs s)\<rparr>, r))"

definition out_append :: "InMemoryTaskOutputStore \<Rightarrow> TaskOutputChunk \<Rightarrow> InMemoryTaskOutputStore \<times> TaskOutputRef" where
  "out_append s chunk =
     (let (s1, r) = out_getOrCreate s (ch_taskId chunk);
          stream = nullish (ch_stream chunk) Stdout;
          offset = nullish (ch_offset chunk) (byteLength (out_getContent s1 (ch_taskId chunk) (Some stream)));
          timestamp = nullish (ch_timestamp chunk) (os_now s1 (os_ticks s1));
          ticks = (if ch_timestamp chunk = None then Suc (os_ticks s1) else os_ticks s1);
          stored = chunk\<lparr>ch_stream := Some stream, ch_offset := Some offset, ch_timestamp := Some timestamp\<rparr>;
          ref = \<lparr>or_taskId = ch_taskId chunk, or_kind = os_kind s1,
                 or_uri = os_uriPrefix s1 @ encodeURIComponent (ch_taskId chunk),
                 or_offset = Some (offset + byteLength (ch_content chunk)),
                 or_updatedAt = Some timestamp, or_metadata = None\<rparr>;
          r' = r\<lparr>rec_chunks := rec_chunks r @ [stored], rec_outputRef := Some ref\<rparr>
      in (s1\<lparr>outputs := AList.update (ch_taskId chunk) r' (outputs s1), os_ticks := ticks\<rparr>, ref))"

definition out_read :: "InMemoryTaskOutputStore \<Rightarrow> string \<Rightarrow> TaskOutputReadOptions \<Rightarrow> TaskOutputReadResult" where
  "out_read s i options =
     (case map_of (outputs s) i of
        None \<Rightarrow> \<lparr>rr_content = [], rr_nextOffset = Some (nullish (ro_offset options) 0),
                 rr_truncated = None, rr_summary = None, rr_outputRef = None\<rparr>
      | Some r \<Rightarrow>
          let offset = max 0 (nullish (ro_offset options) 0);
              slice = sliceUtf8 (out_getContent s i (ro_stream options)) offset (ro_limitBytes options)
          in \<lparr>rr_content = sl_content slice, rr_nextOffset = Some (sl_nextOffset slice),
              rr_truncated = Some (sl_truncated slice), rr_summary = rec_summary r,
              rr_outputRef = rec_outputRef r\<rparr>)"

definition out_tail :: "InMemoryTaskOutputStore \<Rightarrow> string \<Rightarrow> int option \<Rightarrow> TaskOutputReadResult" where
  "out_tail s i limitBytes =
     (let l = nullish limitBytes 8192;
          content = out_getContent s i None;
          offset = max 0 (byteLength content - l)
      in out_read s i \<lparr>ro_offset = Some offset, ro_limitBytes = Some l, ro_stream = None\<rparr>)"

definition out_finalize :: "InMemoryTaskOutputStore \<Rightarrow> string \<Rightarrow> string option \<Rightarrow> InMemoryTaskOutputStore" where
  "out_finalize s i summary =
     (let (s1, r) = out_getOrCreate s i
      in s1\<lparr>outputs := AList.update i (r\<lparr>rec_summary := summary\<rparr>) (outputs s1)\<rparr>)"

section \<open>Encoding round trips\<close>

text \<open>Well-formed text: surrogates come in pairs and code units are 16 bits wide.\<close>

fun wf_utf16 :: "utext \<Rightarrow> bool" where
  "wf_utf16 [] = True"
| "wf_utf16 (u # us) =
     (if is_high u then (case us of v # vs \<Rightarrow> is_low v \<and> wf_utf16 vs | [] \<Rightarrow> False)
      else \<not> is_low u \<and> u < 65536 \<and> wf_utf16 us)"

definition ascii :: "utext \<Rightarrow> bool" where
  "ascii s = list_all (\<lambda>u. u < 128) s"

lemma utf8_encode_ascii: "ascii s \<Longrightarrow> utf8_encode s = s"
  by (induction s) (auto simp: ascii_def)

lemma utf8_decode_ascii: "ascii s \<Longrightarrow> utf8_decode s = s"
  by (induction s) (auto simp: ascii_def)

lemma utf8_decode_2:
  assumes "128 \<le> u" "u < 2048"
  shows "utf8_decode ((192 + u div 64) # (128 + u mod 64) # bs) = u # utf8_decode bs"
proof -
  have "2 \<le> u div 64" "u div 64 < 32" using assms by auto
  moreover have "u mod 64 < 64" by simp
  ultimately have "194 \<le> 192 + u div 64 \<and> 192 + u div 64 \<le> 223" "cont (128 + u mod 64)"
    by (auto simp: cont_def)
  moreover have "(192 + u div 64 - 192) * 64 + (128 + u mod 64 - 128) = u" by simp
  ultimately show ?thesis by simp
qed

lemma split_base64_3: "(u::nat) = (u div 4096) * 4096 + ((u div 64) mod 64) * 64 + u mod 64"
proof -
  have "u div 4096 = u div 64 div 64" by (simp add: div_mult2_eq [symmetric])
  then show ?thesis
    using div_mult_mod_eq [of u 64] div_mult_mod_eq [of "u div 64" 64] by linarith
qed

lemma split_base64_4:
  "(u::nat) = (u div 262144) * 262144 + ((u div 4096) mod 64) * 4096 + ((u div 64) mod 64) * 64 + u mod 64"
proof -
  have "u div 262144 = u div 4096 div 64" by (simp add: div_mult2_eq [symmetric])
  then show ?thesis
    using split_base64_3 [of u] div_mult_mod_eq [of "u div 4096" 64] by linarith
qed

lemma utf8_decode_3:
  assumes "2048 \<le> u" "u < 65536" "\<not> is_high u" "\<not> is_low u"
  shows "utf8_decode (utf8_3 u @ bs) = u # utf8_decode bs"
proof -
  let ?a = "u div 4096" and ?b = "(u div 64) mod 64" and ?c = "u mod 64"
  have u: "u = ?a * 4096 + ?b * 64 + ?c" by (rule split_base64_3)
  have "?a < 16" "?b < 64" "?c < 64" using assms by auto
  moreover have "?a = 0 \<Longrightarrow> 32 \<le> ?b" using assms(1) u \<open>?b < 64\<close> \<open>?c < 64\<close> by linarith
  moreover have "?a = 13 \<Longrightarrow> ?b < 32"
  proof (rule ccontr)
    assume "?a = 13" "\<not> ?b < 32"
    then have "55296 \<le> u" "u < 57344" using u \<open>?b < 64\<close> \<open>?c < 64\<close> by linarith+
    with assms(3,4) show False by (auto simp: is_high_def is_low_def)
  qed
  ultimately have "first_cont (224 + ?a) (128 + ?b)" "cont (128 + ?c)" "224 + ?a \<le> 239"
    by (auto simp: first_cont_def cont_def)
  moreover have "(224 + ?a - 224) * 4096 + (128 + ?b - 128) * 64 + (128 + ?c - 128) = u"
    using u by simp
  ultimately show ?thesis by (simp add: utf8_3_def)
qed

lemma utf8_decode_4:
  assumes "65536 \<le> u" "u < 1114112"
  shows "utf8_decode (utf8_4 u @ bs) = utf16 u @ utf8_decode bs"
proof -
  let ?a = "u div 262144" and ?b = "(u div 4096) mod 64" and ?c = "(u div 64) mod 64" and ?d = "u mod 64"
  have u: "u = ?a * 262144 + ?b * 4096 + ?c * 64 + ?d" by (rule split_base64_4)
  have l: "?a \<le> 4" "?b < 64" "?c < 64" "?d < 64" using assms by auto
  moreover have "?a = 0 \<Longrightarrow> 16 \<le> ?b" using assms(1) u l by linarith
  moreover have "?a = 4 \<Longrightarrow> ?b < 16" using assms(2) u by linarith
  ultimately have "first_cont (240 + ?a) (128 + ?b)" "cont (128 + ?c)" "cont (128 + ?d)"
    by (auto simp: first_cont_def cont_def)
  moreover have "(240 + ?a - 240) * 262144 + (128 + ?b - 128) * 4096 + (128 + ?c - 128) * 64 + (128 + ?d - 128) = u"
    using u by simp
  ultimately show ?thesis using l by (simp add: utf8_4_def)
qed

lemma utf16_pair:
  assumes "is_high u" "is_low v"
  shows "utf16 (65536 + (u - 55296) * 1024 + (v - 56320)) = [u, v]"
proof -
  define x where "x = u - 55296"
  define y where "y = v - 56320"
  have "y < 1024" "u = 55296 + x" "v = 56320 + y"
    using assms by (auto simp: x_def y_def is_high_def is_low_def)
  then show ?thesis by (simp add: utf16_def)
qed

lemma utf8_roundtrip: "wf_utf16 s \<Longrightarrow> utf8_decode (utf8_encode s) = s"
proof (induction s rule: utf8_encode.induct)
  case 1
  show ?case by simp
next
  case (2 u us)
  consider "u < 128" | "128 \<le> u" "u < 2048" | "2048 \<le> u" "is_high u" | "2048 \<le> u" "\<not> is_high u"
    by linarith
  then show ?case
  proof cases
    case 1
    then show ?thesis using 2 by (auto simp: is_high_def)
  next
    case hyps: 2
    then have "utf8_encode (u # us) = (192 + u div 64) # (128 + u mod 64) # utf8_encode us" by simp
    with hyps show ?thesis
      using 2 utf8_decode_2 [OF hyps] by (auto simp: is_high_def simp del: utf8_decode.simps)
  next
    case 3
    then obtain v vs where us: "us = v # vs" "is_low v" "wf_utf16 vs"
      using "2.prems" by (auto split: list.splits)
    let ?c = "65536 + (u - 55296) * 1024 + (v - 56320)"
    have "65536 \<le> ?c" "?c < 1114112" using 3 us by (auto simp: is_high_def is_low_def)
    moreover have "utf8_encode (u # us) = utf8_4 ?c @ utf8_encode vs" using 3 us by simp
    moreover have "utf8_decode (utf8_encode vs) = vs" using "2.IH" 3 us by auto
    ultimately show ?thesis
      using utf8_decode_4 [of ?c] utf16_pair [OF 3(2) us(2)] us by simp
  next
    case 4
    with "2.prems" have w: "\<not> is_low u" "u < 65536" "wf_utf16 us" by auto
    then have "utf8_decode (utf8_encode us) = us" using "2.IH" 4 by auto
    moreover have "utf8_encode (u # us) = utf8_3 u @ utf8_encode us" using 4 w by simp
    ultimately show ?thesis using utf8_decode_3 4 w by (simp del: utf8_decode.simps)
  qed
qed

section \<open>Reading\<close>

lemma js_subarray_in_range:
  "0 \<le> a \<Longrightarrow> a \<le> b \<Longrightarrow> b \<le> int (length xs) \<Longrightarrow> js_subarray xs a b = take (nat (b - a)) (drop (nat a) xs)"
  by (simp add: js_subarray_def clamp_index_def Let_def)

lemma sliceUtf8_all: "wf_utf16 s \<Longrightarrow> sliceUtf8 s 0 None =
    \<lparr>sl_content = s, sl_nextOffset = byteLength s, sl_truncated = False\<rparr>"
  by (simp add: sliceUtf8_def Let_def js_subarray_in_range utf8_roundtrip byteLength_def)

lemma ascii_take_drop: "ascii s \<Longrightarrow> ascii (take a (drop b s))"
  by (auto simp: ascii_def list_all_iff dest: in_set_takeD in_set_dropD)

lemma sliceUtf8_ascii:
  assumes "ascii s" "k \<le> length s"
  shows "sliceUtf8 s (int k) (Some (int l)) =
    \<lparr>sl_content = take l (drop k s), sl_nextOffset = int (min (length s) (k + l)),
     sl_truncated = (k + l < length s)\<rparr>"
proof -
  have "js_subarray s (int k) (int (min (length s) (k + l))) = take l (drop k s)"
    using assms(2) by (subst js_subarray_in_range) (auto simp: min_def nat_diff_distrib')
  then show ?thesis
    using assms utf8_decode_ascii [OF ascii_take_drop [OF assms(1)], of l k]
    by (auto simp: sliceUtf8_def utf8_encode_ascii Let_def min_def)
qed

text \<open>A client that reads a task's output in pieces, from \<^verbatim>\<open>nextOffset\<close> to \<^verbatim>\<open>nextOffset\<close>.\<close>

fun follow_reads ::
  "nat \<Rightarrow> InMemoryTaskOutputStore \<Rightarrow> string \<Rightarrow> TaskOutputStream option \<Rightarrow> nat \<Rightarrow> int \<Rightarrow> utext option" where
  "follow_reads 0 s i stream l offset = None"
| "follow_reads (Suc n) s i stream l offset =
     (let r = out_read s i \<lparr>ro_offset = Some offset, ro_limitBytes = Some (int l), ro_stream = stream\<rparr>
      in if rr_truncated r = Some True
         then map_option (\<lambda>t. rr_content r @ t) (follow_reads n s i stream l (the (rr_nextOffset r)))
         else Some (rr_content r))"

lemma follow_reads_from:
  assumes "map_of (outputs s) i = Some r" "ascii (out_getContent s i stream)" "0 < l"
    and "k \<le> length (out_getContent s i stream)" "length (out_getContent s i stream) < k + n"
  shows "follow_reads n s i stream l (int k) = Some (drop k (out_getContent s i stream))"
  using assms
proof (induction n arbitrary: k)
  case 0
  then show ?case by simp
next
  case (Suc n)
  let ?c = "out_getContent s i stream"
  let ?r = "out_read s i \<lparr>ro_offset = Some (int k), ro_limitBytes = Some (int l), ro_stream = stream\<rparr>"
  have r: "rr_content ?r = take l (drop k ?c)" "rr_nextOffset ?r = Some (int (min (length ?c) (k + l)))"
    "rr_truncated ?r = Some (k + l < length ?c)"
    using Suc.prems by (simp_all add: out_read_def sliceUtf8_ascii Let_def nullish_def)
  show ?case
  proof (cases "k + l < length ?c")
    case False
    then show ?thesis using r by (simp add: Let_def)
  next
    case True
    have "follow_reads n s i stream l (int (k + l)) = Some (drop (k + l) ?c)"
      using Suc.IH [of "k + l"] Suc.prems True by simp
    moreover have "take l (drop k ?c) @ drop (k + l) ?c = drop k ?c"
      using append_take_drop_id [of l "drop k ?c"] by (simp add: add.commute)
    ultimately show ?thesis using r True by (simp add: Let_def min_def del: of_nat_add)
  qed
qed

section \<open>Writing\<close>

lemma chunk_content_snoc:
  "chunk_content (cs @ [c]) stream =
     chunk_content cs stream @ (if stream = None \<or> Some (nullish (ch_stream c) Stdout) = stream then ch_content c else [])"
  by (simp add: chunk_content_def)

lemma out_append_content:
  "out_getContent (fst (out_append s c)) i stream =
     (if i = ch_taskId c \<and> (stream = None \<or> stream = Some (nullish (ch_stream c) Stdout))
      then out_getContent s i stream @ ch_content c else out_getContent s i stream)"
proof -
  define r0 where "r0 = snd (out_getOrCreate s (ch_taskId c))"
  obtain r where r: "map_of (outputs (fst (out_append s c))) =
      (map_of (outputs s))(ch_taskId c \<mapsto> r)"
    and cs: "\<exists>b. rec_chunks r = rec_chunks r0 @ [b] \<and> ch_content b = ch_content c \<and>
      ch_stream b = Some (nullish (ch_stream c) Stdout)"
    by (cases "map_of (outputs s) (ch_taskId c)")
      (auto simp: out_append_def out_getOrCreate_def Let_def fun_eq_iff r0_def)
  have "chunk_content (rec_chunks r0) stream = out_getContent s (ch_taskId c) stream"
    by (cases "map_of (outputs s) (ch_taskId c)")
      (auto simp: r0_def out_getOrCreate_def out_getContent_def Let_def chunk_content_def)
  with r cs show ?thesis
    by (auto simp: out_getContent_def chunk_content_snoc nullish_def [of "Some _"] split: if_splits)
qed

lemma out_finalize_content [simp]:
  "out_getContent (out_finalize s i m) j stream = out_getContent s j stream"
  by (auto simp: out_finalize_def out_getOrCreate_def out_getContent_def Let_def chunk_content_def
      split: option.splits)

lemma out_append_offset:
  assumes "ch_offset c = None"
  shows "or_offset (snd (out_append s c)) =
    Some (byteLength (out_getContent s (ch_taskId c) (Some (nullish (ch_stream c) Stdout))) + byteLength (ch_content c))"
  using assms
  by (auto simp: out_append_def out_getOrCreate_def out_getContent_def Let_def chunk_content_def nullish_def
      split: option.splits)

section \<open>Properties\<close>

text \<open>A store with one task whose output is one Latin-1 character.\<close>

definition sample_outputs :: "utext \<Rightarrow> InMemoryTaskOutputStore" where
  "sample_outputs txt = fst (out_append (new_output_store (\<lambda>n. int n) None None)
     \<lparr>ch_taskId = ''t'', ch_stream = None, ch_content = txt, ch_offset = None, ch_timestamp = None, ch_metadata = None\<rparr>)"

lemma new_output_store_content [simp]: "out_getContent (new_output_store c k p) i stream = []"
  by (simp add: new_output_store_def out_getContent_def)

lemma sample_outputs_content:
  "out_getContent (sample_outputs txt) ''t'' None = txt" "out_getContent (sample_outputs txt) ''t'' (Some Stdout) = txt"
  by (simp_all add: sample_outputs_def out_append_content nullish_def)

lemma sample_outputs_record: "\<exists>r. map_of (outputs (sample_outputs txt)) ''t'' = Some r"
  by (simp add: sample_outputs_def out_append_def out_getOrCreate_def new_output_store_def Let_def)

text \<open>text appended to a task's stream is read back in full behind what the stream held, the returned
  reference counts its bytes, and no other task's or stream's output changes.\<close>

theorem append_then_read:
  assumes "stream = nullish (ch_stream c) Stdout"
    and "wf_utf16 (out_getContent s (ch_taskId c) (Some stream) @ ch_content c)"
  shows "rr_content (out_read (fst (out_append s c)) (ch_taskId c)
       \<lparr>ro_offset = None, ro_limitBytes = None, ro_stream = Some stream\<rparr>) =
     out_getContent s (ch_taskId c) (Some stream) @ ch_content c \<and>
   (ch_offset c = None \<longrightarrow> or_offset (snd (out_append s c)) =
     Some (byteLength (out_getContent s (ch_taskId c) (Some stream)) + byteLength (ch_content c))) \<and>
   (\<forall>i other. i \<noteq> ch_taskId c \<or> (other \<noteq> None \<and> other \<noteq> Some stream) \<longrightarrow>
     out_getContent (fst (out_append s c)) i other = out_getContent s i other)"
proof (intro conjI allI impI)
  have "\<exists>r. map_of (outputs (fst (out_append s c))) (ch_taskId c) = Some r"
    by (simp add: out_append_def out_getOrCreate_def Let_def split: prod.splits)
  then show "rr_content (out_read (fst (out_append s c)) (ch_taskId c)
       \<lparr>ro_offset = None, ro_limitBytes = None, ro_stream = Some stream\<rparr>) =
     out_getContent s (ch_taskId c) (Some stream) @ ch_content c"
    using assms sliceUtf8_all [OF assms(2)]
    by (auto simp: out_read_def Let_def nullish_def [of None] out_append_content)
qed (use assms(1) in \<open>auto simp: out_append_offset out_append_content\<close>)

theorem append_then_read_witness:
  "rr_content (out_read (fst (out_append (sample_outputs [233])
       \<lparr>ch_taskId = ''t'', ch_stream = None, ch_content = [97], ch_offset = None, ch_timestamp = None, ch_metadata = None\<rparr>)) ''t''
       \<lparr>ro_offset = None, ro_limitBytes = None, ro_stream = Some Stdout\<rparr>) = [233, 97]"
proof -
  let ?c = "\<lparr>ch_taskId = ''t'', ch_stream = None, ch_content = [97], ch_offset = None, ch_timestamp = None,
    ch_metadata = None\<rparr> :: TaskOutputChunk"
  show ?thesis
    using append_then_read [of Stdout ?c "sample_outputs [233]"]
    by (simp add: sample_outputs_content nullish_def is_high_def is_low_def)
qed

text \<open>for ASCII output, a client that follows \<^verbatim>\<open>nextOffset\<close> while the answer is truncated gathers exactly the
  stream's content, whatever positive byte limit it asks for.\<close>

theorem ascii_reads_are_complete:
  assumes "map_of (outputs s) i = Some r" "ascii (out_getContent s i stream)" "0 < l"
  shows "follow_reads (Suc (length (out_getContent s i stream))) s i stream l 0 = Some (out_getContent s i stream)"
  using follow_reads_from [OF assms, of 0] by (simp del: follow_reads.simps)

theorem ascii_reads_are_complete_witness:
  "follow_reads 4 (sample_outputs [97, 98, 99]) ''t'' None 2 0 = Some [97, 98, 99]"
proof -
  obtain r where "map_of (outputs (sample_outputs [97, 98, 99])) ''t'' = Some r"
    using sample_outputs_record by blast
  from ascii_reads_are_complete [OF this, of None 2] show ?thesis
    by (simp add: sample_outputs_content ascii_def eval_nat_numeral del: follow_reads.simps)
qed

text \<open>outside ASCII the same client loses text: reading a two-byte character one byte at a time yields two
  replacement characters, because a slice may end inside a character.\<close>

theorem short_reads_break_characters:
  assumes "map_of (outputs s) i = Some r" "out_getContent s i stream = [u]" "128 \<le> u" "u < 2048"
  shows "follow_reads 2 s i stream 1 0 = Some [replacement, replacement]"
proof -
  have e: "utf8_encode [u] = [192 + u div 64, 128 + u mod 64]" using assms by simp
  have "2 \<le> u div 64" "u div 64 < 32" using assms by auto
  then have d: "utf8_decode [192 + u div 64] = [replacement]" "utf8_decode [128 + u mod 64] = [replacement]"
    by auto
  have j: "js_subarray (utf8_encode [u]) 0 1 = [192 + u div 64]"
    "js_subarray (utf8_encode [u]) 1 2 = [128 + u mod 64]"
    unfolding e by (simp_all add: js_subarray_def clamp_index_def)
  have n: "int (length (utf8_encode [u])) = 2" unfolding e by simp
  have "out_read s i \<lparr>ro_offset = Some 0, ro_limitBytes = Some 1, ro_stream = stream\<rparr> =
      \<lparr>rr_content = [replacement], rr_nextOffset = Some 1, rr_truncated = Some True,
       rr_summary = rec_summary r, rr_outputRef = rec_outputRef r\<rparr>"
    "out_read s i \<lparr>ro_offset = Some 1, ro_limitBytes = Some 1, ro_stream = stream\<rparr> =
      \<lparr>rr_content = [replacement], rr_nextOffset = Some 2, rr_truncated = Some False,
       rr_summary = rec_summary r, rr_outputRef = rec_outputRef r\<rparr>"
    using assms d j n
    by (simp_all add: out_read_def sliceUtf8_def Let_def nullish_def del: utf8_encode.simps utf8_decode.simps)
  then show ?thesis by (simp add: eval_nat_numeral)
qed

theorem short_reads_break_characters_witness:
  "follow_reads 2 (sample_outputs [233]) ''t'' None 1 0 = Some [replacement, replacement]"
proof -
  obtain r where "map_of (outputs (sample_outputs [233])) ''t'' = Some r"
    using sample_outputs_record by blast
  from short_reads_break_characters [OF this sample_outputs_content(1)] show ?thesis by simp
qed

end
