(* ===== verification/Background_Task_Manager.thy ===== *)
theory Background_Task_Manager
  imports Background_Task_Output
begin

text \<open>
  The default background task manager (\<^verbatim>\<open>background-task/src/manager.ts\<close>).  It is generic in the
  task store, as the class is: every operation takes the record \<open>TaskStoreOps\<close> it was built with.

  Every \<^verbatim>\<open>await\<close> of a call is a point at which other calls may run.  A call in progress is a value of
  \<open>PendingCall\<close>, which holds what its code needs after the \<^verbatim>\<open>await\<close> it has reached; a step runs one call to
  its next \<^verbatim>\<open>await\<close>.  Runners are code outside the module: a registered runner is a reference, its
  \<^verbatim>\<open>start\<close> and \<^verbatim>\<open>stop\<close> settle at any time and with any outcome, and what it does meanwhile through the
  manager or the store are steps of their own.
\<close>

section \<open>State\<close>

record 's Manager =
  mg_store :: 's
  mg_output :: InMemoryTaskOutputStore
  mg_runners :: "(BackgroundTaskKind \<times> nat) list"
  mg_now :: "nat \<Rightarrow> int"
  mg_ticks :: nat
  mg_taskIdGenerator :: "nat \<Rightarrow> string"
  mg_taskIds :: nat
  mg_eventIdGenerator :: "nat \<Rightarrow> string"
  mg_eventIds :: nat
  mg_sequence :: nat

record StartTaskRequest =
  rq_kind :: BackgroundTaskKind
  rq_ownerSessionId :: string
  rq_description :: "string option"
  rq_toolCallId :: "string option"
  rq_parentMessageId :: "string option"
  rq_parentTaskId :: "string nullable"
  rq_input :: jsval
  rq_metadata :: "js_record option"

record TaskRuntimeHandle =
  th_taskId :: string
  th_outputRef :: "TaskOutputRef option"
  th_pid :: "int option"
  th_sandboxJobId :: "string option"
  th_subSessionId :: "string option"

text \<open>The result status of \<^verbatim>\<open>complete\<close> is \<^verbatim>\<open>succeeded\<close> or \<^verbatim>\<open>canceled\<close>.\<close>

datatype CompletedStatus = CompletedSucceeded | CompletedCanceled

fun completed_status :: "CompletedStatus \<Rightarrow> BackgroundTaskStatus" where
  "completed_status CompletedSucceeded = Succeeded"
| "completed_status CompletedCanceled = Canceled"

record CompleteTaskOptions =
  co_status :: "CompletedStatus option"
  co_outputRef :: "TaskOutputRef option"
  co_summary :: "string option"
  co_usage :: "TaskUsage option"
  co_metadata :: "js_record option"

section \<open>Operations\<close>

definition new_manager ::
  "'s \<Rightarrow> InMemoryTaskOutputStore \<Rightarrow> (nat \<Rightarrow> int) \<Rightarrow> (nat \<Rightarrow> string) \<Rightarrow> (nat \<Rightarrow> string) \<Rightarrow> 's Manager" where
  "new_manager s out clock ids evids =
     \<lparr>mg_store = s, mg_output = out, mg_runners = [], mg_now = clock, mg_ticks = 0,
      mg_taskIdGenerator = ids, mg_taskIds = 0, mg_eventIdGenerator = evids, mg_eventIds = 0,
      mg_sequence = 0\<rparr>"

definition mgr_now :: "'s Manager \<Rightarrow> int" where
  "mgr_now m = mg_now m (mg_ticks m)"

definition mgr_tick :: "'s Manager \<Rightarrow> 's Manager" where
  "mgr_tick m = m\<lparr>mg_ticks := Suc (mg_ticks m)\<rparr>"

definition registerRunner :: "'s Manager \<Rightarrow> BackgroundTaskKind \<Rightarrow> nat \<Rightarrow> 's Manager \<times> (thrown + unit)" where
  "registerRunner m k r =
     (if map_of (mg_runners m) k \<noteq> None
      then (m, Inl (ThrownTaskError (TaskRunnerAlreadyRegisteredError k)))
      else (m\<lparr>mg_runners := AList.update k r (mg_runners m)\<rparr>, Inr ()))"

fun registerRunners :: "'s Manager \<Rightarrow> (BackgroundTaskKind \<times> nat) list \<Rightarrow> 's Manager \<times> (thrown + unit)" where
  "registerRunners m [] = (m, Inr ())"
| "registerRunners m ((k, r) # rs) =
     (case registerRunner m k r of
        (m', Inl e) \<Rightarrow> (m', Inl e)
      | (m', Inr _) \<Rightarrow> registerRunners m' rs)"

definition getRunner :: "'s Manager \<Rightarrow> BackgroundTaskKind \<Rightarrow> thrown + nat" where
  "getRunner m k =
     (case map_of (mg_runners m) k of
        None \<Rightarrow> Inl (ThrownTaskError (TaskRunnerNotFoundError k))
      | Some r \<Rightarrow> Inr r)"

definition requireTask :: "'s TaskStoreOps \<Rightarrow> 's Manager \<Rightarrow> string \<Rightarrow> thrown + BackgroundTask" where
  "requireTask S m i =
     (case ts_get S (mg_store m) i of
        None \<Rightarrow> Inl (ThrownTaskError (TaskNotFoundError i))
      | Some t \<Rightarrow> Inr t)"

definition emit ::
  "'s TaskStoreOps \<Rightarrow> 's Manager \<Rightarrow> BackgroundTask \<Rightarrow> TaskLifecycleEventType \<Rightarrow> js_record \<Rightarrow> 's Manager" where
  "emit S m task ty payload =
     (let event = \<lparr>ev_eventId = mg_eventIdGenerator m (mg_eventIds m), ev_taskId = taskId task,
            ev_ownerSessionId = ownerSessionId task, ev_type = ty, ev_timestamp = mgr_now m,
            ev_sequence = Some (Suc (mg_sequence m)), ev_payload = Some payload\<rparr>
      in m\<lparr>mg_eventIds := Suc (mg_eventIds m), mg_ticks := Suc (mg_ticks m),
           mg_sequence := Suc (mg_sequence m),
           mg_store := ts_appendEvent S (mg_store m) event\<rparr>)"

text \<open>One \<^verbatim>\<open>await this.store.patch(...)\<close> followed by \<^verbatim>\<open>await this.emit(...)\<close>.\<close>

definition patch_and_emit ::
  "'s TaskStoreOps \<Rightarrow> 's Manager \<Rightarrow> string \<Rightarrow> BackgroundTaskPatch \<Rightarrow> TaskLifecycleEventType \<Rightarrow>
   (BackgroundTask \<Rightarrow> js_record) \<Rightarrow> 's Manager \<times> (thrown + BackgroundTask)" where
  "patch_and_emit S m i p ty payload =
     (case ts_patch S (mg_store m) i p of
        (s, Inl e) \<Rightarrow> (m\<lparr>mg_store := s\<rparr>, Inl e)
      | (s, Inr t) \<Rightarrow> (emit S (m\<lparr>mg_store := s\<rparr>) t ty (payload t), Inr t))"

definition started_patch :: "TaskRuntimeHandle \<Rightarrow> int \<Rightarrow> BackgroundTaskPatch" where
  "started_patch handle now =
     (let p = empty_patch\<lparr>p_status := Some Running, p_startedAt := Some (Some now)\<rparr>
      in if th_outputRef handle \<noteq> None then p\<lparr>p_outputRef := Some (th_outputRef handle)\<rparr> else p)"

definition ended_patch :: "BackgroundTaskStatus \<Rightarrow> int \<Rightarrow> TaskError option \<Rightarrow> BackgroundTaskPatch" where
  "ended_patch st now err =
     (let p = empty_patch\<lparr>p_status := Some st, p_endedAt := Some (Some now)\<rparr>
      in if err \<noteq> None then p\<lparr>p_lastError := Some err\<rparr> else p)"

definition start_catch ::
  "'s TaskStoreOps \<Rightarrow> 's Manager \<Rightarrow> string \<Rightarrow> thrown \<Rightarrow> 's Manager \<times> (thrown + BackgroundTask)" where
  "start_catch S m i e =
     patch_and_emit S (mgr_tick m) i
       (ended_patch Failed (mgr_now m) (Some (normalizeTaskError e ''TASK_START_FAILED'')))
       EvCompleted (\<lambda>_. [(''status'', JStr ''failed'')])"

definition start_settled ::
  "'s TaskStoreOps \<Rightarrow> 's Manager \<Rightarrow> string \<Rightarrow> thrown + TaskRuntimeHandle \<Rightarrow> 's Manager \<times> (thrown + BackgroundTask)" where
  "start_settled S m i outcome =
     (case outcome of
        Inl e \<Rightarrow> start_catch S m i e
      | Inr handle \<Rightarrow>
          (case patch_and_emit S (mgr_tick m) i (started_patch handle (mgr_now m)) EvStarted
                  (\<lambda>_. [(''hasOutputRef'', JBool (th_outputRef handle \<noteq> None))]) of
             (m', Inl e) \<Rightarrow> start_catch S m' i e
           | (m', Inr t) \<Rightarrow> (m', Inr t)))"

definition new_task :: "StartTaskRequest \<Rightarrow> string \<Rightarrow> int \<Rightarrow> BackgroundTask" where
  "new_task rq i now =
     \<lparr>taskId = i, kind = rq_kind rq, status = Queued, ownerSessionId = rq_ownerSessionId rq,
      description = rq_description rq, toolCallId = rq_toolCallId rq,
      parentMessageId = rq_parentMessageId rq, parentTaskId = rq_parentTaskId rq,
      createdAt = now, updatedAt = now, startedAt = None, endedAt = None, deliveredAt = None,
      outputRef = None, lastError = None, usage = None, metadata = rq_metadata rq\<rparr>"

definition mgr_get :: "'s TaskStoreOps \<Rightarrow> 's Manager \<Rightarrow> string \<Rightarrow> BackgroundTask option" where
  "mgr_get S m i = ts_get S (mg_store m) i"

definition mgr_list :: "'s TaskStoreOps \<Rightarrow> 's Manager \<Rightarrow> TaskQuery \<Rightarrow> TaskListResult" where
  "mgr_list S m q = ts_list S (mg_store m) q"

definition mgr_readOutput :: "'s Manager \<Rightarrow> string \<Rightarrow> TaskOutputReadOptions option \<Rightarrow> TaskOutputReadResult" where
  "mgr_readOutput m i options =
     out_read (mg_output m) i (nullish options \<lparr>ro_offset = None, ro_limitBytes = None, ro_stream = None\<rparr>)"

definition stop_settled ::
  "'s TaskStoreOps \<Rightarrow> 's Manager \<Rightarrow> string \<Rightarrow> string option \<Rightarrow> thrown + unit \<Rightarrow> 's Manager \<times> (thrown + BackgroundTask)" where
  "stop_settled S m i reason outcome =
     (let caught = (\<lambda>m' e. patch_and_emit S (mgr_tick m') i
             (ended_patch Canceled (mgr_now m') (Some (normalizeTaskError e ''TASK_STOP_FAILED'')))
             EvCompleted (\<lambda>_. [(''status'', JStr ''canceled''), (''stopFailed'', JBool True)]))
      in case outcome of
           Inl e \<Rightarrow> caught m e
         | Inr _ \<Rightarrow>
             (let err = (if truthy_str reason
                         then Some \<lparr>te_message = the reason, te_code = Some ''TASK_CANCELED'', te_details = None\<rparr>
                         else None)
              in case patch_and_emit S (mgr_tick m) i (ended_patch Canceled (mgr_now m) err) EvCompleted
                        (\<lambda>_. [(''status'', JStr ''canceled'')]) of
                   (m', Inl e) \<Rightarrow> caught m' e
                 | (m', Inr t) \<Rightarrow> (m', Inr t)))"

definition completed_patch :: "CompleteTaskOptions \<Rightarrow> int \<Rightarrow> BackgroundTaskPatch" where
  "completed_patch opt now =
     (let p = empty_patch\<lparr>p_status := Some (completed_status (nullish (co_status opt) CompletedSucceeded)),
                          p_endedAt := Some (Some now)\<rparr>;
          p1 = (if co_outputRef opt \<noteq> None then p\<lparr>p_outputRef := Some (co_outputRef opt)\<rparr> else p);
          p2 = (if co_usage opt \<noteq> None then p1\<lparr>p_usage := Some (co_usage opt)\<rparr> else p1)
      in if co_metadata opt \<noteq> None then p2\<lparr>p_metadata := co_metadata opt\<rparr> else p2)"

definition mgr_complete ::
  "'s TaskStoreOps \<Rightarrow> 's Manager \<Rightarrow> string \<Rightarrow> CompleteTaskOptions \<Rightarrow> 's Manager \<times> (thrown + BackgroundTask)" where
  "mgr_complete S m i opt =
     (case requireTask S m i of
        Inl e \<Rightarrow> (m, Inl e)
      | Inr task \<Rightarrow>
          if isTerminalTaskStatus (status task) then (m, Inr task)
          else
            let m1 = (if co_summary opt \<noteq> None
                      then m\<lparr>mg_output := out_finalize (mg_output m) i (co_summary opt)\<rparr> else m)
            in patch_and_emit S (mgr_tick m1) i (completed_patch opt (mgr_now m1)) EvCompleted
                 (\<lambda>t. [(''status'', JStr (status_string (status t)))]))"

definition mgr_fail ::
  "'s TaskStoreOps \<Rightarrow> 's Manager \<Rightarrow> string \<Rightarrow> thrown \<Rightarrow> 's Manager \<times> (thrown + BackgroundTask)" where
  "mgr_fail S m i e =
     (case requireTask S m i of
        Inl e' \<Rightarrow> (m, Inl e')
      | Inr task \<Rightarrow>
          if isTerminalTaskStatus (status task) then (m, Inr task)
          else patch_and_emit S (mgr_tick m) i
                 (ended_patch Failed (mgr_now m) (Some (normalizeTaskError e ''TASK_ERROR'')))
                 EvCompleted (\<lambda>_. [(''status'', JStr ''failed'')]))"

section \<open>Calls in progress\<close>

text \<open>What a call waits for, with what it remembers: the new task whose event is to be written; a runner; a rejection
  that the \<^verbatim>\<open>catch\<close> block handles; the task found by \<^verbatim>\<open>get\<close>; a patched task whose event is to be written.\<close>

datatype PendingCall =
    CreatedTask BackgroundTask
  | RunnerStarts string
  | StartThrew string thrown
  | StopGot string "string option" "BackgroundTask option"
  | StopRequested BackgroundTask BackgroundTaskKind "string option"
  | StopEmitted BackgroundTaskKind string "string option"
  | RunnerStops string "string option"
  | StopThrew string thrown
  | CompleteGot string CompleteTaskOptions "BackgroundTask option"
  | CompleteFinal string CompleteTaskOptions
  | FailGot string thrown "BackgroundTask option"
  | EmitLast BackgroundTask TaskLifecycleEventType js_record

datatype Next = Waits PendingCall | Returns "thrown + BackgroundTask"

fun waits :: "Next \<Rightarrow> PendingCall list" where
  "waits (Waits c) = [c]"
| "waits (Returns _) = []"

definition call_start :: "'s TaskStoreOps \<Rightarrow> 's Manager \<Rightarrow> StartTaskRequest \<Rightarrow> 's Manager \<times> Next" where
  "call_start S m rq =
     (case getRunner m (rq_kind rq) of
        Inl e \<Rightarrow> (m, Returns (Inl e))
      | Inr _ \<Rightarrow>
          let task = new_task rq (mg_taskIdGenerator m (mg_taskIds m)) (mgr_now m);
              m1 = (mgr_tick m)\<lparr>mg_taskIds := Suc (mg_taskIds m)\<rparr>
          in (case ts_create S (mg_store m1) task of
                (s, Inl e) \<Rightarrow> (m1\<lparr>mg_store := s\<rparr>, Returns (Inl e))
              | (s, Inr created) \<Rightarrow> (m1\<lparr>mg_store := s\<rparr>, Waits (CreatedTask created))))"

definition call_stop :: "'s TaskStoreOps \<Rightarrow> 's Manager \<Rightarrow> string \<Rightarrow> string option \<Rightarrow> 's Manager \<times> Next" where
  "call_stop S m i reason = (m, Waits (StopGot i reason (ts_get S (mg_store m) i)))"

definition call_complete :: "'s TaskStoreOps \<Rightarrow> 's Manager \<Rightarrow> string \<Rightarrow> CompleteTaskOptions \<Rightarrow> 's Manager \<times> Next" where
  "call_complete S m i opt = (m, Waits (CompleteGot i opt (ts_get S (mg_store m) i)))"

definition call_fail :: "'s TaskStoreOps \<Rightarrow> 's Manager \<Rightarrow> string \<Rightarrow> thrown \<Rightarrow> 's Manager \<times> Next" where
  "call_fail S m i e = (m, Waits (FailGot i e (ts_get S (mg_store m) i)))"

definition patch_then ::
  "'s TaskStoreOps \<Rightarrow> 's Manager \<Rightarrow> string \<Rightarrow> BackgroundTaskPatch \<Rightarrow> (BackgroundTask \<Rightarrow> Next) \<Rightarrow> (thrown \<Rightarrow> Next) \<Rightarrow>
   's Manager \<times> Next" where
  "patch_then S m i p ok err =
     (case ts_patch S (mg_store m) i p of
        (s, Inl e) \<Rightarrow> (m\<lparr>mg_store := s\<rparr>, err e)
      | (s, Inr t) \<Rightarrow> (m\<lparr>mg_store := s\<rparr>, ok t))"

text \<open>The bodies of the two \<^verbatim>\<open>catch\<close> blocks.\<close>

definition start_threw :: "'s TaskStoreOps \<Rightarrow> 's Manager \<Rightarrow> string \<Rightarrow> thrown \<Rightarrow> 's Manager \<times> Next" where
  "start_threw S m i e =
     patch_then S (mgr_tick m) i (ended_patch Failed (mgr_now m) (Some (normalizeTaskError e ''TASK_START_FAILED'')))
       (\<lambda>t. Waits (EmitLast t EvCompleted [(''status'', JStr ''failed'')])) (\<lambda>e. Returns (Inl e))"

definition stop_threw :: "'s TaskStoreOps \<Rightarrow> 's Manager \<Rightarrow> string \<Rightarrow> thrown \<Rightarrow> 's Manager \<times> Next" where
  "stop_threw S m i e =
     patch_then S (mgr_tick m) i (ended_patch Canceled (mgr_now m) (Some (normalizeTaskError e ''TASK_STOP_FAILED'')))
       (\<lambda>t. Waits (EmitLast t EvCompleted [(''status'', JStr ''canceled''), (''stopFailed'', JBool True)])) (\<lambda>e. Returns (Inl e))"

text \<open>The runner's promise settles.\<close>

definition runner_started ::
  "'s TaskStoreOps \<Rightarrow> 's Manager \<Rightarrow> string \<Rightarrow> thrown + TaskRuntimeHandle \<Rightarrow> 's Manager \<times> Next" where
  "runner_started S m i outcome =
     (case outcome of
        Inl e \<Rightarrow> start_threw S m i e
      | Inr handle \<Rightarrow>
          patch_then S (mgr_tick m) i (started_patch handle (mgr_now m))
            (\<lambda>t. Waits (EmitLast t EvStarted [(''hasOutputRef'', JBool (th_outputRef handle \<noteq> None))]))
            (\<lambda>e. Waits (StartThrew i e)))"

definition runner_stopped ::
  "'s TaskStoreOps \<Rightarrow> 's Manager \<Rightarrow> string \<Rightarrow> string option \<Rightarrow> thrown + unit \<Rightarrow> 's Manager \<times> Next" where
  "runner_stopped S m i reason outcome =
     (case outcome of
        Inl e \<Rightarrow> stop_threw S m i e
      | Inr _ \<Rightarrow>
          patch_then S (mgr_tick m) i
            (ended_patch Canceled (mgr_now m)
               (if truthy_str reason then Some \<lparr>te_message = the reason, te_code = Some ''TASK_CANCELED'', te_details = None\<rparr> else None))
            (\<lambda>t. Waits (EmitLast t EvCompleted [(''status'', JStr ''canceled'')])) (\<lambda>e. Waits (StopThrew i e)))"

text \<open>What follows \<^verbatim>\<open>requireTask\<close>: a missing task is an error, an ended one is returned as it is.\<close>

definition with_task :: "'s Manager \<Rightarrow> string \<Rightarrow> BackgroundTask option \<Rightarrow> (BackgroundTask \<Rightarrow> 's Manager \<times> Next) \<Rightarrow> 's Manager \<times> Next" where
  "with_task m i got go =
     (case got of
        None \<Rightarrow> (m, Returns (Inl (ThrownTaskError (TaskNotFoundError i))))
      | Some task \<Rightarrow> if isTerminalTaskStatus (status task) then (m, Returns (Inr task)) else go task)"

definition complete_patches :: "'s TaskStoreOps \<Rightarrow> 's Manager \<Rightarrow> string \<Rightarrow> CompleteTaskOptions \<Rightarrow> 's Manager \<times> Next" where
  "complete_patches S m i opt =
     patch_then S (mgr_tick m) i (completed_patch opt (mgr_now m))
       (\<lambda>t. Waits (EmitLast t EvCompleted [(''status'', JStr (status_string (status t)))])) (\<lambda>e. Returns (Inl e))"

text \<open>A call runs from one \<^verbatim>\<open>await\<close> to the next; a runner is waited for until it settles.\<close>

fun run_on :: "'s TaskStoreOps \<Rightarrow> 's Manager \<Rightarrow> PendingCall \<Rightarrow> 's Manager \<times> Next" where
  "run_on S m (CreatedTask t) =
     (emit S m t EvCreated [(''inputKind'', JStr (kind_string (kind t)))], Waits (RunnerStarts (taskId t)))"
| "run_on S m (RunnerStarts i) = (m, Waits (RunnerStarts i))"
| "run_on S m (StartThrew i e) = start_threw S m i e"
| "run_on S m (StopGot i reason got) =
     with_task m i got (\<lambda>task.
       if status task = Stopping then (m, Returns (Inr task))
       else patch_then S m i (empty_patch\<lparr>p_status := Some Stopping\<rparr>)
              (\<lambda>t. Waits (StopRequested t (kind task) reason)) (\<lambda>e. Returns (Inl e)))"
| "run_on S m (StopRequested t k reason) =
     (emit S m t EvStopRequested [(''reason'', case reason of None \<Rightarrow> JUndefined | Some r \<Rightarrow> JStr r)],
      Waits (StopEmitted k (taskId t) reason))"
| "run_on S m (StopEmitted k i reason) =
     (case getRunner m k of
        Inl e \<Rightarrow> stop_threw S m i e
      | Inr _ \<Rightarrow> (m, Waits (RunnerStops i reason)))"
| "run_on S m (RunnerStops i reason) = (m, Waits (RunnerStops i reason))"
| "run_on S m (StopThrew i e) = stop_threw S m i e"
| "run_on S m (CompleteGot i opt got) =
     with_task m i got (\<lambda>task.
       if co_summary opt \<noteq> None
       then (m\<lparr>mg_output := out_finalize (mg_output m) i (co_summary opt)\<rparr>, Waits (CompleteFinal i opt))
       else complete_patches S m i opt)"
| "run_on S m (CompleteFinal i opt) = complete_patches S m i opt"
| "run_on S m (FailGot i e got) =
     with_task m i got (\<lambda>task.
       patch_then S (mgr_tick m) i (ended_patch Failed (mgr_now m) (Some (normalizeTaskError e ''TASK_ERROR'')))
         (\<lambda>t. Waits (EmitLast t EvCompleted [(''status'', JStr ''failed'')])) (\<lambda>e. Returns (Inl e)))"
| "run_on S m (EmitLast t ty payload) = (emit S m t ty payload, Returns (Inr t))"

text \<open>A call that is not interrupted.\<close>

fun finish :: "'s TaskStoreOps \<Rightarrow> nat \<Rightarrow> 's Manager \<times> Next \<Rightarrow> 's Manager \<times> (thrown + BackgroundTask) option" where
  "finish S n (m, Returns r) = (m, Some r)"
| "finish S 0 (m, Waits c) = (m, None)"
| "finish S (Suc n) (m, Waits c) = finish S n (run_on S m c)"

lemma finish_patch:
  "finish S (Suc n) (patch_then S m i p (\<lambda>t. Waits (EmitLast t ty (payload t))) (\<lambda>e. Returns (Inl e))) =
     map_prod id Some (patch_and_emit S m i p ty payload)"
  by (simp add: patch_then_def patch_and_emit_def split: prod.split sum.split)

text \<open>Nothing in between, the calls are the whole operations above.\<close>

lemma uninterrupted_calls:
  "finish S 3 (runner_started S m i oc) = map_prod id Some (start_settled S m i oc)"
  "finish S 3 (runner_stopped S m i reason sc) = map_prod id Some (stop_settled S m i reason sc)"
  "finish S 3 (call_fail S m i e) = map_prod id Some (mgr_fail S m i e)"
  "finish S 4 (call_complete S m i opt) = map_prod id Some (mgr_complete S m i opt)"
proof -
  note simps = eval_nat_numeral
  note d = patch_then_def patch_and_emit_def
  show "finish S 3 (runner_started S m i oc) = map_prod id Some (start_settled S m i oc)"
    by (simp add: simps runner_started_def start_settled_def start_threw_def start_catch_def d split: prod.split sum.split)
  show "finish S 3 (runner_stopped S m i reason sc) = map_prod id Some (stop_settled S m i reason sc)"
    by (simp add: simps runner_stopped_def stop_settled_def stop_threw_def Let_def d split: prod.split sum.split)
  show "finish S 3 (call_fail S m i e) = map_prod id Some (mgr_fail S m i e)"
    by (simp add: simps call_fail_def mgr_fail_def requireTask_def with_task_def d split: prod.split sum.split option.split)
  show "finish S 4 (call_complete S m i opt) = map_prod id Some (mgr_complete S m i opt)"
    by (cases "co_summary opt") (simp_all add: simps call_complete_def mgr_complete_def requireTask_def with_task_def complete_patches_def Let_def
      mgr_now_def mgr_tick_def d split: prod.split sum.split option.split)
qed

section \<open>The manager over a lawful store\<close>

text \<open>
  The events the manager has appended are numbered 1, 2, 3 and so on without a gap; \<open>mgr_le\<close> is
  what every operation guarantees: tasks are kept and only move along the status machine, the
  event log only grows.
\<close>

definition mgr_inv :: "('s \<Rightarrow> TaskLifecycleEvent list) \<Rightarrow> ('s \<Rightarrow> bool) \<Rightarrow> 's Manager \<Rightarrow> bool" where
  "mgr_inv evlog invar m \<longleftrightarrow> invar (mg_store m) \<and>
     map ev_sequence (evlog (mg_store m)) = map Some [1..<Suc (mg_sequence m)]"

definition mgr_le ::
  "'s TaskStoreOps \<Rightarrow> ('s \<Rightarrow> TaskLifecycleEvent list) \<Rightarrow> ('s \<Rightarrow> bool) \<Rightarrow> 's Manager \<Rightarrow> 's Manager \<Rightarrow> bool" where
  "mgr_le S evlog invar m m' \<longleftrightarrow> mgr_inv evlog invar m' \<and> prefix (evlog (mg_store m)) (evlog (mg_store m')) \<and>
     (\<forall>i t. ts_get S (mg_store m) i = Some t \<longrightarrow>
        (\<exists>t'. ts_get S (mg_store m') i = Some t' \<and> task_le t t'))"

lemma mgr_tick_sel [simp]:
  "mg_store (mgr_tick m) = mg_store m" "mg_sequence (mgr_tick m) = mg_sequence m"
  "mg_runners (mgr_tick m) = mg_runners m" "mg_output (mgr_tick m) = mg_output m"
  by (simp_all add: mgr_tick_def)

lemma emit_sel [simp]:
  "mg_sequence (emit S m t ty pl) = Suc (mg_sequence m)" "mg_runners (emit S m t ty pl) = mg_runners m"
  "mg_output (emit S m t ty pl) = mg_output m"
  by (simp_all add: emit_def Let_def)

lemma emit_store:
  "\<exists>e. mg_store (emit S m t ty pl) = ts_appendEvent S (mg_store m) e \<and> ev_taskId e = taskId t \<and>
     ev_type e = ty \<and> ev_sequence e = Some (Suc (mg_sequence m)) \<and> ev_payload e = Some pl"
  by (simp add: emit_def Let_def) (rule exI, rule conjI, rule refl, simp)

lemma mgr_inv_sel_cong:
  "mg_store m' = mg_store m \<Longrightarrow> mg_sequence m' = mg_sequence m \<Longrightarrow> mgr_inv evlog invar m' = mgr_inv evlog invar m"
  by (simp add: mgr_inv_def)

lemma mgr_le_sel_cong:
  "mg_store n = mg_store m \<Longrightarrow> mgr_le S evlog invar n m' = mgr_le S evlog invar m m'"
  "mg_store n' = mg_store m' \<Longrightarrow> mg_sequence n' = mg_sequence m' \<Longrightarrow> mgr_le S evlog invar m n' = mgr_le S evlog invar m m'"
  by (simp_all add: mgr_le_def mgr_inv_def)

lemma mgr_inv_tick [simp]: "mgr_inv evlog invar (mgr_tick m) = mgr_inv evlog invar m"
  by (rule mgr_inv_sel_cong) simp_all

lemma mgr_le_tick [simp]: "mgr_le S evlog invar (mgr_tick m) m' = mgr_le S evlog invar m m'"
  by (rule mgr_le_sel_cong) simp

lemma mgr_le_refl: "mgr_inv evlog invar m \<Longrightarrow> mgr_le S evlog invar m m"
  by (auto simp: mgr_le_def)

lemma mgr_le_trans: "mgr_le S evlog invar a b \<Longrightarrow> mgr_le S evlog invar b c \<Longrightarrow> mgr_le S evlog invar a c"
  unfolding mgr_le_def by (meson prefix_order.trans task_le_trans)

lemma mgr_leD: "mgr_le S evlog invar m m' \<Longrightarrow> mgr_inv evlog invar m'"
  by (simp add: mgr_le_def)

lemma apply_patch_sel [simp]:
  "startedAt (apply_patch c p n) = nullish (p_startedAt p) (startedAt c)"
  "endedAt (apply_patch c p n) = nullish (p_endedAt p) (endedAt c)"
  "lastError (apply_patch c p n) = nullish (p_lastError p) (lastError c)"
  by (simp_all add: apply_patch_def)

lemma patch_legal_ended [simp]:
  "patch_legal c (ended_patch st now err) = canTransitionTaskStatus (status c) st"
  by (simp add: patch_legal_def ended_patch_def empty_patch_def Let_def)

lemma patch_legal_started [simp]:
  "patch_legal c (started_patch h now) = canTransitionTaskStatus (status c) Running"
  by (simp add: patch_legal_def started_patch_def empty_patch_def Let_def)

lemma patch_legal_completed [simp]:
  "patch_legal c (completed_patch opt now) =
     canTransitionTaskStatus (status c) (completed_status (nullish (co_status opt) CompletedSucceeded))"
  by (simp add: patch_legal_def completed_patch_def empty_patch_def Let_def)

lemma ended_patch_sel [simp]:
  "p_status (ended_patch st now err) = Some st" "p_endedAt (ended_patch st now err) = Some (Some now)"
  "p_lastError (ended_patch st now err) = (if err = None then None else Some err)"
  by (simp_all add: ended_patch_def empty_patch_def Let_def)

lemma started_patch_sel [simp]:
  "p_status (started_patch h now) = Some Running" "p_startedAt (started_patch h now) = Some (Some now)"
  by (simp_all add: started_patch_def empty_patch_def Let_def)

lemma canTransition_active [simp]:
  "\<not> isTerminalTaskStatus a \<Longrightarrow> status_phase st = 3 \<Longrightarrow> canTransitionTaskStatus a st"
  using status_phase_le [of a] by (auto simp: canTransition_iff_phase terminal_iff_phase)

context task_store
begin

lemma emit_spec:
  assumes "mgr_inv evlog invar m"
  shows "mgr_inv evlog invar (emit S m t ty pl)"
    and "ts_get S (mg_store (emit S m t ty pl)) = ts_get S (mg_store m)"
    and "\<exists>e. evlog (mg_store (emit S m t ty pl)) = evlog (mg_store m) @ [e] \<and> ev_taskId e = taskId t \<and>
      ev_type e = ty \<and> ev_payload e = Some pl"
proof -
  obtain e where e: "mg_store (emit S m t ty pl) = ts_appendEvent S (mg_store m) e"
    "ev_taskId e = taskId t" "ev_type e = ty" "ev_sequence e = Some (Suc (mg_sequence m))" "ev_payload e = Some pl"
    using emit_store by metis
  from assms have i: "invar (mg_store m)" by (simp add: mgr_inv_def)
  from assms i e show "mgr_inv evlog invar (emit S m t ty pl)"
    by (simp add: mgr_inv_def)
  show "ts_get S (mg_store (emit S m t ty pl)) = ts_get S (mg_store m)" using i e(1) by simp
  show "\<exists>e. evlog (mg_store (emit S m t ty pl)) = evlog (mg_store m) @ [e] \<and> ev_taskId e = taskId t \<and>
      ev_type e = ty \<and> ev_payload e = Some pl"
    using i e by auto
qed

lemma emit_le: "mgr_inv evlog invar m \<Longrightarrow> mgr_le S evlog invar m (emit S m t ty pl)"
  using emit_spec(3) [of m t ty pl] by (auto simp: mgr_le_def emit_spec(1,2))

lemma patch_emit_ok:
  assumes m: "mgr_inv evlog invar m" and c: "ts_get S (mg_store m) i = Some c" and p: "patch_legal c p"
  shows "\<exists>m' now e. patch_and_emit S m i p ty pl = (m', Inr (apply_patch c p now)) \<and>
    mgr_le S evlog invar m m' \<and>
    ts_get S (mg_store m') = (ts_get S (mg_store m))(i \<mapsto> apply_patch c p now) \<and>
    evlog (mg_store m') = evlog (mg_store m) @ [e] \<and> ev_taskId e = i \<and> ev_type e = ty \<and>
    ev_payload e = Some (pl (apply_patch c p now))"
proof -
  have inv: "invar (mg_store m)" using m by (simp add: mgr_inv_def)
  obtain s now where s: "ts_patch S (mg_store m) i p = (s, Inr (apply_patch c p now))" "invar s"
    "ts_get S s = (ts_get S (mg_store m))(i \<mapsto> apply_patch c p now)" "evlog s = evlog (mg_store m)"
    using patch_ok [OF inv c p] by blast
  let ?t = "apply_patch c p now" and ?m = "m\<lparr>mg_store := s\<rparr>"
  have "mgr_inv evlog invar ?m" using m s by (simp add: mgr_inv_def)
  note e = emit_spec [OF this, of ?t ty "pl ?t"]
  have "taskId ?t = i" using get_taskId [OF inv c] by simp
  moreover have "mgr_le S evlog invar m (emit S ?m ?t ty (pl ?t))"
    using e s c p by (auto simp: mgr_le_def task_le_patch)
  ultimately show ?thesis
    using e s by (auto simp: patch_and_emit_def)
qed

lemma patch_emit_illegal:
  assumes "ts_get S (mg_store m) i = Some c" "\<not> patch_legal c p"
  shows "patch_and_emit S m i p ty pl =
    (m, Inl (ThrownTaskError (InvalidTaskStatusTransitionError i (status c) (the (p_status p)))))"
  using patch_illegal [OF assms] by (simp add: patch_and_emit_def)

lemma patch_emit_missing:
  "ts_get S (mg_store m) i = None \<Longrightarrow>
    patch_and_emit S m i p ty pl = (m, Inl (ThrownTaskError (TaskNotFoundError i)))"
  using patch_missing [of "mg_store m" i p] by (simp add: patch_and_emit_def)

lemma patch_emit_le:
  assumes "mgr_inv evlog invar m"
  shows "mgr_le S evlog invar m (fst (patch_and_emit S m i p ty pl))"
proof (cases "ts_get S (mg_store m) i")
  case None
  then show ?thesis using assms by (simp add: patch_emit_missing mgr_le_refl)
next
  case (Some c)
  then show ?thesis
    using assms patch_emit_ok [OF assms Some, of p ty pl] patch_emit_illegal [OF Some, of p ty pl]
    by (cases "patch_legal c p") (auto simp: mgr_le_refl)
qed

lemma patch_emit_ended:
  assumes "mgr_inv evlog invar m" "ts_get S (mg_store m) i = Some c" "canTransitionTaskStatus (status c) st"
  shows "\<exists>m' t. patch_and_emit S m i (ended_patch st now err) ty pl = (m', Inr t) \<and>
    mgr_le S evlog invar m m' \<and> ts_get S (mg_store m') i = Some t \<and> status t = st \<and>
    endedAt t = Some now \<and> lastError t = (if err = None then lastError c else err)"
proof -
  obtain m' n where "patch_and_emit S m i (ended_patch st now err) ty pl =
      (m', Inr (apply_patch c (ended_patch st now err) n))" "mgr_le S evlog invar m m'"
    "ts_get S (mg_store m') = (ts_get S (mg_store m))(i \<mapsto> apply_patch c (ended_patch st now err) n)"
    using patch_emit_ok [OF assms(1,2), of "ended_patch st now err" ty pl] assms(3) by auto
  then show ?thesis by (simp add: nullish_def)
qed

lemma patch_emit_completes:
  assumes "mgr_inv evlog invar m" "ts_get S (mg_store m) i = Some c"
    and "p_status p = Some st" "canTransitionTaskStatus (status c) st" "p_endedAt p = Some (Some now)"
  shows "\<exists>m' t v. patch_and_emit S m i p ty pl = (m', Inr t) \<and> ts_get S (mg_store m') i = Some t \<and>
    status t = st \<and> endedAt t = Some now \<and> evlog (mg_store m') = evlog (mg_store m) @ [v] \<and>
    ev_type v = ty \<and> ev_taskId v = i"
proof -
  have "patch_legal c p" using assms(3,4) by (simp add: patch_legal_def)
  from patch_emit_ok [OF assms(1,2) this, of ty pl] obtain m' n v where
    "patch_and_emit S m i p ty pl = (m', Inr (apply_patch c p n))"
    "ts_get S (mg_store m') = (ts_get S (mg_store m))(i \<mapsto> apply_patch c p n)"
    "evlog (mg_store m') = evlog (mg_store m) @ [v]" "ev_taskId v = i" "ev_type v = ty"
    by blast
  then show ?thesis using assms(3,5) by (simp add: nullish_def)
qed

text \<open>Every piece of a call between two waits keeps the invariant and only moves forward, whatever the pieces before it found.\<close>

lemma patch_then_le:
  assumes "mgr_inv evlog invar m"
  shows "mgr_le S evlog invar m (fst (patch_then S m i p ok err))"
proof (cases "ts_get S (mg_store m) i")
  case None
  then show ?thesis using assms patch_missing [OF None, of p] by (simp add: patch_then_def mgr_le_refl)
next
  case (Some c)
  have inv: "invar (mg_store m)" using assms by (simp add: mgr_inv_def)
  show ?thesis
  proof (cases "patch_legal c p")
    case True
    from patch_ok [OF inv Some this] obtain s now where s: "ts_patch S (mg_store m) i p = (s, Inr (apply_patch c p now))" "invar s"
      "ts_get S s = (ts_get S (mg_store m))(i \<mapsto> apply_patch c p now)" "evlog s = evlog (mg_store m)" by blast
    then show ?thesis using assms Some True by (auto simp: patch_then_def mgr_le_def mgr_inv_def task_le_patch)
  qed (use assms patch_illegal [OF Some, of p] in \<open>simp add: patch_then_def mgr_le_refl\<close>)
qed

lemma patch_then_tick_le: "mgr_inv evlog invar m \<Longrightarrow> mgr_le S evlog invar m (fst (patch_then S (mgr_tick m) i p ok err))"
  using patch_then_le [of "mgr_tick m" i p ok err] by simp

lemma call_start_le:
  assumes m: "mgr_inv evlog invar m"
  shows "mgr_le S evlog invar m (fst (call_start S m rq))"
proof (cases "getRunner m (rq_kind rq)")
  case (Inl e)
  then show ?thesis using m by (simp add: call_start_def mgr_le_refl)
next
  case (Inr r)
  let ?task = "new_task rq (mg_taskIdGenerator m (mg_taskIds m)) (mgr_now m)"
  have inv: "invar (mg_store m)" using m by (simp add: mgr_inv_def)
  then show ?thesis
  proof (cases rule: create_cases [of _ ?task])
    case (1 u)
    then show ?thesis using Inr m by (simp add: call_start_def Let_def mgr_le_def mgr_inv_def)
  next
    case (2 s)
    then show ?thesis using Inr m by (auto simp: call_start_def Let_def mgr_le_def mgr_inv_def)
  qed
qed

lemma threw_le:
  assumes "mgr_inv evlog invar m"
  shows "mgr_le S evlog invar m (fst (start_threw S m i e))" "mgr_le S evlog invar m (fst (stop_threw S m i e))"
  using patch_then_tick_le [OF assms] by (simp_all add: start_threw_def stop_threw_def)

lemma settled_le:
  assumes "mgr_inv evlog invar m"
  shows "mgr_le S evlog invar m (fst (runner_started S m i sc))" "mgr_le S evlog invar m (fst (runner_stopped S m i reason oc))"
  using patch_then_tick_le [OF assms] threw_le [OF assms] by (simp_all add: runner_started_def runner_stopped_def split: sum.split)

lemma with_task_le:
  assumes "mgr_inv evlog invar m" "\<And>t. mgr_le S evlog invar m (fst (go t))"
  shows "mgr_le S evlog invar m (fst (with_task m i got go))"
  using assms by (simp add: with_task_def mgr_le_refl split: option.split)

lemma run_on_le:
  assumes m: "mgr_inv evlog invar m"
  shows "mgr_le S evlog invar m (fst (run_on S m c))"
proof (cases c)
  case (StopGot i reason got)
  then show ?thesis using m by (auto intro!: with_task_le patch_then_le simp: mgr_le_refl)
next
  case (StopEmitted k i reason)
  then show ?thesis using m threw_le by (simp add: mgr_le_refl split: sum.split)
next
  case (CompleteGot i opt got)
  have "mgr_le S evlog invar m (m\<lparr>mg_output := z\<rparr>)" for z using mgr_le_refl [OF m] mgr_le_sel_cong(2) [of "m\<lparr>mg_output := z\<rparr>" m] by simp
  then show ?thesis using m CompleteGot by (auto intro!: with_task_le simp: complete_patches_def patch_then_tick_le)
next
  case (FailGot i e got)
  then show ?thesis using m by (auto intro!: with_task_le simp: patch_then_tick_le)
qed (use m in \<open>simp_all add: emit_le mgr_le_refl threw_le complete_patches_def patch_then_tick_le\<close>)

text \<open>Other code patches the store directly.\<close>

lemma direct_patch_le:
  assumes "mgr_inv evlog invar m"
  shows "mgr_le S evlog invar m (m\<lparr>mg_store := fst (ts_patch S (mg_store m) i p)\<rparr>)"
  using patch_then_le [OF assms, of i p "\<lambda>_. Returns r" "\<lambda>_. Returns r" for r]
  by (cases "ts_patch S (mg_store m) i p") (simp add: patch_then_def split: sum.splits)

text \<open>What \<^verbatim>\<open>start\<close> answers once the runner's promise has settled, by the status found then.\<close>

lemma start_catch_result:
  assumes "mgr_inv evlog invar m" "ts_get S (mg_store m) i = Some c"
  shows "if status c = Failed \<or> \<not> isTerminalTaskStatus (status c)
    then \<exists>m' t. start_catch S m i e = (m', Inr t) \<and> ts_get S (mg_store m') i = Some t \<and> status t = Failed \<and>
      endedAt t = Some (mgr_now m) \<and> lastError t = Some (normalizeTaskError e ''TASK_START_FAILED'')
    else start_catch S m i e =
      (mgr_tick m, Inl (ThrownTaskError (InvalidTaskStatusTransitionError i (status c) Failed)))"
proof (cases "status c = Failed \<or> \<not> isTerminalTaskStatus (status c)")
  case True
  then have "canTransitionTaskStatus (status c) Failed" by auto
  with assms True show ?thesis
    using patch_emit_ended [of "mgr_tick m" i c Failed] by (fastforce simp: start_catch_def)
next
  case False
  then have "\<not> canTransitionTaskStatus (status c) Failed" by (auto simp: canTransition_from_terminal)
  then show ?thesis
    using False assms patch_emit_illegal [of "mgr_tick m" i c] by (simp add: start_catch_def)
qed

lemma start_settled_running:
  assumes "mgr_inv evlog invar m" "ts_get S (mg_store m) i = Some c" "status c = Queued \<or> status c = Running"
  shows "\<exists>m' t. start_settled S m i (Inr h) = (m', Inr t) \<and> ts_get S (mg_store m') i = Some t \<and>
    status t = Running \<and> startedAt t = Some (mgr_now m)"
proof -
  let ?p = "started_patch h (mgr_now m)"
  have "patch_legal c ?p" using assms(3) by (auto simp: canTransition_iff_phase)
  then obtain m' n where "patch_and_emit S (mgr_tick m) i ?p EvStarted
      (\<lambda>_. [(''hasOutputRef'', JBool (th_outputRef h \<noteq> None))]) = (m', Inr (apply_patch c ?p n))"
    "ts_get S (mg_store m') = (ts_get S (mg_store m))(i \<mapsto> apply_patch c ?p n)"
    using patch_emit_ok [of "mgr_tick m" i c ?p EvStarted
        "\<lambda>_. [(''hasOutputRef'', JBool (th_outputRef h \<noteq> None))]"] assms(1,2) by auto
  then show ?thesis by (simp add: start_settled_def nullish_def)
qed

lemma start_settled_late:
  assumes "mgr_inv evlog invar m" "ts_get S (mg_store m) i = Some c" "\<not> canTransitionTaskStatus (status c) Running"
  shows "start_settled S m i (Inr h) = start_catch S (mgr_tick m) i
    (ThrownTaskError (InvalidTaskStatusTransitionError i (status c) Running))"
  using assms patch_emit_illegal [of "mgr_tick m" i c "started_patch h (mgr_now m)"]
  by (simp add: start_settled_def)

lemma mgr_fail_active:
  assumes "mgr_inv evlog invar m" "ts_get S (mg_store m) i = Some c" "\<not> isTerminalTaskStatus (status c)"
  shows "\<exists>m' t. mgr_fail S m i e = (m', Inr t) \<and> ts_get S (mg_store m') i = Some t \<and> status t = Failed \<and>
    endedAt t = Some (mgr_now m) \<and> lastError t = Some (normalizeTaskError e ''TASK_ERROR'')"
  using assms patch_emit_ended [of "mgr_tick m" i c Failed]
  by (fastforce simp: mgr_fail_def requireTask_def)

lemma stop_settled_result:
  assumes "mgr_inv evlog invar m" "ts_get S (mg_store m) i = Some c"
  shows "if status c = Canceled \<or> \<not> isTerminalTaskStatus (status c)
    then \<exists>m' t. stop_settled S m i reason oc = (m', Inr t) \<and> mgr_le S evlog invar m m' \<and>
      ts_get S (mg_store m') i = Some t \<and> status t = Canceled \<and> endedAt t = Some (mgr_now m)
    else snd (stop_settled S m i reason oc) =
      Inl (ThrownTaskError (InvalidTaskStatusTransitionError i (status c) Canceled))"
proof (cases "status c = Canceled \<or> \<not> isTerminalTaskStatus (status c)")
  case True
  then have "canTransitionTaskStatus (status c) Canceled" by auto
  from patch_emit_ended [of "mgr_tick m" i c Canceled "mgr_now m", OF _ _ this] assms
  have ok: "\<exists>m' t. patch_and_emit S (mgr_tick m) i (ended_patch Canceled (mgr_now m) err) ty pl = (m', Inr t) \<and>
    mgr_le S evlog invar m m' \<and> ts_get S (mg_store m') i = Some t \<and> status t = Canceled \<and>
    endedAt t = Some (mgr_now m)" for err ty pl
    by (simp, blast)
  show ?thesis
  proof (cases oc)
    case (Inl e)
    with ok show ?thesis using True by (simp add: stop_settled_def Let_def)
  next
    case (Inr u)
    define err where "err = (if truthy_str reason
      then Some \<lparr>te_message = the reason, te_code = Some ''TASK_CANCELED'', te_details = None\<rparr> else None)"
    obtain m' t where "patch_and_emit S (mgr_tick m) i (ended_patch Canceled (mgr_now m) err) EvCompleted
        (\<lambda>_. [(''status'', JStr ''canceled'')]) = (m', Inr t)" "mgr_le S evlog invar m m'"
      "ts_get S (mg_store m') i = Some t" "status t = Canceled" "endedAt t = Some (mgr_now m)"
      using ok by blast
    then show ?thesis
      using True Inr unfolding stop_settled_def Let_def err_def [symmetric] by simp
  qed
next
  case False
  then have "\<not> canTransitionTaskStatus (status c) Canceled" by (auto simp: canTransition_from_terminal)
  then have "patch_and_emit S n i (ended_patch Canceled now err) ty pl =
      (n, Inl (ThrownTaskError (InvalidTaskStatusTransitionError i (status c) Canceled)))"
    if "mg_store n = mg_store m" for n now err ty pl
    using assms that patch_emit_illegal [of n i c] by simp
  then show ?thesis using False by (auto simp: stop_settled_def Let_def split: sum.splits)
qed

end

section \<open>Runs of the manager over the in-memory store\<close>

text \<open>
  A configuration is the manager with the calls in progress.  A step begins a call, runs one of them on to its next wait, settles the promise
  of a runner with any outcome, registers a runner, or is a write of other code to one of the two stores.
\<close>

type_synonym mgr_config = "InMemoryTaskStore Manager \<times> PendingCall list"

definition next_config :: "PendingCall list \<Rightarrow> InMemoryTaskStore Manager \<times> Next \<Rightarrow> mgr_config" where
  "next_config cs r = (fst r, waits (snd r) @ cs)"

inductive mgr_step :: "mgr_config \<Rightarrow> mgr_config \<Rightarrow> bool" where
  step_start: "mgr_step (m, cs) (next_config cs (call_start in_memory_ops m rq))"
| step_stop: "mgr_step (m, cs) (next_config cs (call_stop in_memory_ops m i reason))"
| step_complete: "mgr_step (m, cs) (next_config cs (call_complete in_memory_ops m i opt))"
| step_fail: "mgr_step (m, cs) (next_config cs (call_fail in_memory_ops m i e))"
| step_run: "c \<in> set cs \<Longrightarrow> mgr_step (m, cs) (next_config (remove1 c cs) (run_on in_memory_ops m c))"
| step_started: "RunnerStarts i \<in> set cs \<Longrightarrow>
    mgr_step (m, cs) (next_config (remove1 (RunnerStarts i) cs) (runner_started in_memory_ops m i outcome))"
| step_stopped: "RunnerStops i reason \<in> set cs \<Longrightarrow>
    mgr_step (m, cs) (next_config (remove1 (RunnerStops i reason) cs) (runner_stopped in_memory_ops m i reason outcome'))"
| step_register: "mgr_step (m, cs) (fst (registerRunner m k r), cs)"
| step_patch: "mgr_step (m, cs) (m\<lparr>mg_store := fst (store_patch (mg_store m) i p)\<rparr>, cs)"
| step_output: "mgr_step (m, cs) (m\<lparr>mg_output := out\<rparr>, cs)"

lemma registerRunner_le:
  assumes "mgr_inv evlog invar m"
  shows "mgr_le S evlog invar m (fst (registerRunner m k r))"
  using mgr_le_refl [OF assms]
  by (auto simp: registerRunner_def mgr_le_sel_cong(2) [of "m\<lparr>mg_runners := x\<rparr>" m for x])

lemma mgr_step_le:
  assumes "mgr_step c c'" "mgr_inv events store_inv (fst c)"
  shows "mgr_le in_memory_ops events store_inv (fst c) (fst c')"
  using assms
proof (cases rule: mgr_step.cases)
  case (step_patch m cs i p)
  then show ?thesis using mem.direct_patch_le [of m i p] assms(2) by (simp add: in_memory_ops_def)
next
  case (step_output m cs out)
  then show ?thesis using mgr_le_refl assms(2) mgr_le_sel_cong(2) [of "m\<lparr>mg_output := out\<rparr>" m] by simp
qed (simp_all add: next_config_def mem.call_start_le mem.run_on_le mem.settled_le registerRunner_le mgr_le_refl
  call_stop_def call_complete_def call_fail_def)

lemma mgr_run_le:
  assumes "mgr_step\<^sup>*\<^sup>* c c'" "mgr_inv events store_inv (fst c)"
  shows "mgr_le in_memory_ops events store_inv (fst c) (fst c')"
  using assms
proof (induction rule: rtranclp_induct)
  case base
  then show ?case by (simp add: mgr_le_refl)
next
  case (step u v)
  then show ?case by (meson mgr_leD mgr_le_trans mgr_step_le)
qed

lemma mgr_inv_new: "mgr_inv events store_inv (new_manager (new_store c) out c' ids evs)"
  by (simp add: mgr_inv_def new_manager_def new_store_def store_inv_def)

section \<open>Properties\<close>

definition sample_manager :: "InMemoryTaskStore Manager" where
  "sample_manager = (new_manager sample_store (new_output_store (\<lambda>n. int n) None None)
     (\<lambda>n. int n) (\<lambda>n. ''task-'' @ show_nat n) (\<lambda>n. ''ev-'' @ show_nat n))\<lparr>mg_runners := [(KBash, 0)]\<rparr>"

lemma sample_manager_inv: "mgr_inv events store_inv sample_manager"
  using sample_store_inv
  by (simp add: mgr_inv_def sample_manager_def new_manager_def sample_store_def new_store_def)

lemma sample_manager_get:
  "store_get (mg_store sample_manager) ''b'' = Some (sample_task ''b'' Running 2)"
  "store_get (mg_store sample_manager) ''a'' = Some (sample_task ''a'' Succeeded 1)"
  by (simp_all add: sample_manager_def new_manager_def store_get_def sample_store_def)

text \<open>C5: in every run of a manager from an empty store, however its calls, the runners and direct patches of the store interleave at the waits
  of the code, the lifecycle events are numbered 1, 2, 3 and so on in log order, the log only grows, and every
  task the manager knows stays known with a status that only moves forward.\<close>

theorem manager_runs_are_orderly:
  assumes "mgr_step\<^sup>*\<^sup>* (new_manager (new_store clock) out clock' ids evs, []) (m, cs)" "mgr_step\<^sup>*\<^sup>* (m, cs) (m', cs')"
  shows "map ev_sequence (events (mg_store m)) = map Some [1..<Suc (mg_sequence m)] \<and>
    prefix (events (mg_store m)) (events (mg_store m')) \<and>
    (\<forall>i t. mgr_get in_memory_ops m i = Some t \<longrightarrow>
       (\<exists>t'. mgr_get in_memory_ops m' i = Some t' \<and> canTransitionTaskStatus (status t) (status t')))"
proof -
  have m: "mgr_inv events store_inv m" using mgr_run_le [OF assms(1)] mgr_inv_new mgr_leD by auto
  have "mgr_le in_memory_ops events store_inv m m'" using mgr_run_le [OF assms(2)] m by simp
  with m show ?thesis by (auto simp: mgr_le_def mgr_inv_def mgr_get_def task_le_def)
qed

text \<open>Two tasks are started and the first one is stopped while its runner is still starting it.\<close>

definition sample_request :: StartTaskRequest where
  "sample_request = \<lparr>rq_kind = KBash, rq_ownerSessionId = ''s'', rq_description = None, rq_toolCallId = None, rq_parentMessageId = None,
     rq_parentTaskId = Undefined, rq_input = JUndefined, rq_metadata = None\<rparr>"

text \<open>The configuration after a step that runs the call at position \<open>k\<close> on.\<close>

definition run_at :: "nat \<Rightarrow> mgr_config \<Rightarrow> mgr_config" where
  "run_at k x = next_config (remove1 (snd x ! k) (snd x)) (run_on in_memory_ops (fst x) (snd x ! k))"

lemma run_at_step: "k < length (snd x) \<Longrightarrow> mgr_step x (run_at k x)"
  unfolding run_at_def using step_run [OF nth_mem, of k "snd x" "fst x"] by simp

definition sample_runs1 :: mgr_config where
  "sample_runs1 = (fst (registerRunner (new_manager (new_store int) (new_output_store int None None) int show_nat show_nat) KBash 0), [])"

definition sample_runs2 :: mgr_config where
  "sample_runs2 = next_config [] (call_start in_memory_ops (fst sample_runs1) sample_request)"

definition sample_runs3 :: mgr_config where
  "sample_runs3 = run_at 1 (next_config (snd sample_runs2) (call_start in_memory_ops (fst sample_runs2) sample_request))"

definition sample_runs4 :: mgr_config where
  "sample_runs4 = run_at 0 (run_at 0 (next_config (snd sample_runs3) (call_stop in_memory_ops (fst sample_runs3) ''0'' None)))"

lemma sample_runs:
  "mgr_step\<^sup>*\<^sup>* (new_manager (new_store int) (new_output_store int None None) int show_nat show_nat, []) sample_runs2"
  "mgr_step\<^sup>*\<^sup>* sample_runs2 sample_runs4"
proof -
  have "mgr_step (new_manager (new_store int) (new_output_store int None None) int show_nat show_nat, []) sample_runs1"
    unfolding sample_runs1_def by (rule step_register)
  moreover have "mgr_step sample_runs1 sample_runs2"
    unfolding sample_runs2_def using step_start [of "fst sample_runs1" "[]"] by (simp add: sample_runs1_def)
  ultimately show "mgr_step\<^sup>*\<^sup>* (new_manager (new_store int) (new_output_store int None None) int show_nat show_nat, []) sample_runs2" by simp
  let ?a = "next_config (snd sample_runs2) (call_start in_memory_ops (fst sample_runs2) sample_request)"
  let ?b = "next_config (snd sample_runs3) (call_stop in_memory_ops (fst sample_runs3) ''0'' None)"
  have n: "1 < length (snd ?a)" "0 < length (snd ?b)" "0 < length (snd (run_at 0 ?b))" by code_simp+
  have "mgr_step sample_runs2 ?a" using step_start [of "fst sample_runs2" "snd sample_runs2"] by simp
  moreover have "mgr_step ?a sample_runs3" unfolding sample_runs3_def using n(1) by (rule run_at_step)
  moreover have "mgr_step sample_runs3 ?b" using step_stop [of "fst sample_runs3" "snd sample_runs3"] by simp
  moreover have "mgr_step ?b (run_at 0 ?b)" using n(2) by (rule run_at_step)
  moreover have "mgr_step (run_at 0 ?b) sample_runs4" unfolding sample_runs4_def using n(3) by (rule run_at_step)
  ultimately show "mgr_step\<^sup>*\<^sup>* sample_runs2 sample_runs4" by simp
qed

theorem manager_runs_are_orderly_witness:
  "map ev_type (events (mg_store (fst sample_runs4))) = [EvCreated, EvStopRequested] \<and>
     map ev_sequence (events (mg_store (fst sample_runs4))) = map Some [1..<3] \<and>
     map status (map snd (tasks (mg_store (fst sample_runs4)))) = [Stopping, Queued]"
proof -
  have n: "mg_sequence (fst sample_runs4) = 2" by code_simp
  have r: "mgr_step\<^sup>*\<^sup>* (new_manager (new_store int) (new_output_store int None None) int show_nat show_nat, []) (fst sample_runs4, snd sample_runs4)"
    using rtranclp_trans [OF sample_runs] by simp
  have "map ev_sequence (events (mg_store (fst sample_runs4))) = map Some [1..<3]"
    using manager_runs_are_orderly [OF r rtranclp.rtrancl_refl] unfolding n by (simp add: eval_nat_numeral)
  moreover have "map ev_type (events (mg_store (fst sample_runs4))) = [EvCreated, EvStopRequested]"
    "map status (map snd (tasks (mg_store (fst sample_runs4)))) = [Stopping, Queued]" by code_simp+
  ultimately show ?thesis by blast
qed

text \<open>what \<^verbatim>\<open>start\<close> answers when the runner's promise settles depends on the status the task has by then.  The
  task becomes running if it is still queued or running and the runner started it; it becomes failed if the
  runner threw, and also if somebody asked to stop it meanwhile; and \<^verbatim>\<open>start\<close> itself rejects, with an error
  about a transition the caller never asked for, if the task has already succeeded, been canceled or got lost.\<close>

theorem start_outcomes:
  assumes "mgr_inv events store_inv m" "store_get (mg_store m) i = Some c"
  shows "case start_settled in_memory_ops m i oc of (m', res) \<Rightarrow>
    if status c \<in> {Succeeded, Canceled, Lost}
    then res = Inl (ThrownTaskError (InvalidTaskStatusTransitionError i (status c) Failed))
    else \<exists>t. res = Inr t \<and> store_get (mg_store m') i = Some t \<and>
      status t = (if isl oc \<or> status c \<in> {Stopping, Failed} then Failed else Running)"
proof -
  have g: "ts_get in_memory_ops (mg_store m) i = Some c" using assms(2) by (simp add: in_memory_ops_def)
  have catch: "if status c \<in> {Succeeded, Canceled, Lost}
      then snd (start_catch in_memory_ops n i e) = Inl (ThrownTaskError (InvalidTaskStatusTransitionError i (status c) Failed))
      else \<exists>n' t. start_catch in_memory_ops n i e = (n', Inr t) \<and> store_get (mg_store n') i = Some t \<and> status t = Failed"
    if "mgr_inv events store_inv n" "ts_get in_memory_ops (mg_store n) i = Some c" for n e
    using mem.start_catch_result [OF that, of e]
    by (cases "status c") (auto simp: status_defs in_memory_ops_def)
  show ?thesis
  proof (cases oc)
    case (Inl e)
    then show ?thesis
      using catch [OF assms(1) g, of e] by (auto simp: start_settled_def split: if_splits)
  next
    case (Inr h)
    show ?thesis
    proof (cases "status c = Queued \<or> status c = Running")
      case True
      then show ?thesis
        using mem.start_settled_running [OF assms(1) g True, of h] Inr by (auto simp: in_memory_ops_def)
    next
      case False
      then have "\<not> canTransitionTaskStatus (status c) Running"
        by (cases "status c") (simp_all add: canTransition_iff_phase)
      from mem.start_settled_late [OF assms(1) g this, of h] False Inr
        catch [of "mgr_tick m" "ThrownTaskError (InvalidTaskStatusTransitionError i (status c) Running)"] assms(1) g
      show ?thesis by (cases "status c") (auto split: if_splits)
    qed
  qed
qed

theorem start_outcomes_witness:
  "snd (start_settled in_memory_ops sample_manager ''a'' (Inl (ThrownOther ''boom''))) =
     Inl (ThrownTaskError (InvalidTaskStatusTransitionError ''a'' Succeeded Failed))"
  using start_outcomes [OF sample_manager_inv sample_manager_get(2), of "Inl (ThrownOther ''boom'')"]
  by (simp add: sample_task_def split: prod.splits)

text \<open>once the runner's \<^verbatim>\<open>stop\<close> has settled, \<^verbatim>\<open>stop\<close> answers with the canceled task as long as the task has
  not ended in another way; but when the task succeeded, failed or got lost while the runner was stopping
  it, \<^verbatim>\<open>stop\<close> rejects instead of returning the ended task as it does for a task that had ended before.\<close>

theorem stop_outcomes:
  assumes "mgr_inv events store_inv m" "store_get (mg_store m) i = Some c"
  shows "case stop_settled in_memory_ops m i reason oc of (m', res) \<Rightarrow>
    if status c \<in> {Succeeded, Failed, Lost}
    then res = Inl (ThrownTaskError (InvalidTaskStatusTransitionError i (status c) Canceled))
    else \<exists>t. res = Inr t \<and> store_get (mg_store m') i = Some t \<and> status t = Canceled \<and>
      endedAt t = Some (mgr_now m)"
proof -
  have g: "ts_get in_memory_ops (mg_store m) i = Some c" using assms(2) by (simp add: in_memory_ops_def)
  show ?thesis
    using mem.stop_settled_result [OF assms(1) g, of reason oc]
    by (cases "status c") (auto simp: status_defs in_memory_ops_def split: prod.splits)
qed

theorem stop_outcomes_witness:
  "\<exists>t. snd (stop_settled in_memory_ops sample_manager ''b'' None (Inr ())) = Inr t \<and> status t = Canceled"
  using stop_outcomes [OF sample_manager_inv sample_manager_get(1), of None "Inr ()"]
  by (auto simp: sample_task_def split: prod.splits)

text \<open>\<^verbatim>\<open>complete\<close> and \<^verbatim>\<open>fail\<close> change nothing on a task that has ended and report a missing task; otherwise they end
  it with the status asked for, record the end, and append exactly one \<^verbatim>\<open>completed\<close> event.\<close>

theorem complete_and_fail_end_a_task_once:
  assumes "mgr_inv events store_inv m"
  shows "case store_get (mg_store m) i of
      None \<Rightarrow> mgr_fail in_memory_ops m i e = (m, Inl (ThrownTaskError (TaskNotFoundError i))) \<and>
        mgr_complete in_memory_ops m i opt = (m, Inl (ThrownTaskError (TaskNotFoundError i)))
    | Some c \<Rightarrow>
        if isTerminalTaskStatus (status c)
        then mgr_fail in_memory_ops m i e = (m, Inr c) \<and> mgr_complete in_memory_ops m i opt = (m, Inr c)
        else (\<exists>m' t v. mgr_fail in_memory_ops m i e = (m', Inr t) \<and> store_get (mg_store m') i = Some t \<and>
               status t = Failed \<and> endedAt t = Some (mgr_now m) \<and>
               events (mg_store m') = events (mg_store m) @ [v] \<and> ev_type v = EvCompleted \<and> ev_taskId v = i) \<and>
             (\<exists>m' t v. mgr_complete in_memory_ops m i opt = (m', Inr t) \<and> store_get (mg_store m') i = Some t \<and>
               status t = completed_status (nullish (co_status opt) CompletedSucceeded) \<and>
               endedAt t = Some (mgr_now m) \<and>
               events (mg_store m') = events (mg_store m) @ [v] \<and> ev_type v = EvCompleted \<and> ev_taskId v = i)"
proof (cases "store_get (mg_store m) i")
  case None
  then show ?thesis by (simp add: mgr_fail_def mgr_complete_def requireTask_def in_memory_ops_def)
next
  case (Some c)
  then have g: "ts_get in_memory_ops (mg_store m) i = Some c" by (simp add: in_memory_ops_def)
  show ?thesis
  proof (cases "isTerminalTaskStatus (status c)")
    case True
    then show ?thesis
      using Some by (simp add: mgr_fail_def mgr_complete_def requireTask_def in_memory_ops_def)
  next
    case False
    define m1 where "m1 = (if co_summary opt \<noteq> None
      then m\<lparr>mg_output := out_finalize (mg_output m) i (co_summary opt)\<rparr> else m)"
    have sel: "mg_store m1 = mg_store m" "mg_sequence m1 = mg_sequence m" "mgr_now m1 = mgr_now m"
      by (simp_all add: m1_def mgr_now_def)
    then have m1: "mgr_inv events store_inv (mgr_tick m1)"
      using assms mgr_inv_sel_cong [OF sel(1,2)] by simp
    have g1: "ts_get in_memory_ops (mg_store (mgr_tick m1)) i = Some c" using g sel by simp
    have p: "p_status (completed_patch opt (mgr_now m1)) =
        Some (completed_status (nullish (co_status opt) CompletedSucceeded))"
      "p_endedAt (completed_patch opt (mgr_now m1)) = Some (Some (mgr_now m))"
      using sel by (simp_all add: completed_patch_def empty_patch_def Let_def)
    have st: "status_phase (completed_status x) = 3" for x by (cases x) simp_all
    have "mgr_fail in_memory_ops m i e = patch_and_emit in_memory_ops (mgr_tick m) i
       (ended_patch Failed (mgr_now m) (Some (normalizeTaskError e ''TASK_ERROR''))) EvCompleted
       (\<lambda>_. [(''status'', JStr ''failed'')])"
      using g False by (simp add: mgr_fail_def requireTask_def)
    moreover have "mgr_complete in_memory_ops m i opt = patch_and_emit in_memory_ops (mgr_tick m1) i
       (completed_patch opt (mgr_now m1)) EvCompleted (\<lambda>t. [(''status'', JStr (status_string (status t)))])"
      using g False unfolding mgr_complete_def requireTask_def Let_def m1_def [symmetric] by simp
    ultimately show ?thesis
      using mem.patch_emit_completes [of "mgr_tick m" i c
          "ended_patch Failed (mgr_now m) (Some (normalizeTaskError e ''TASK_ERROR''))" Failed "mgr_now m"
          EvCompleted "\<lambda>_. [(''status'', JStr ''failed'')]"]
        mem.patch_emit_completes [OF m1 g1 p(1) _ p(2), of EvCompleted
          "\<lambda>t. [(''status'', JStr (status_string (status t)))]"]
        assms g False st sel(1) Some
      by (simp add: in_memory_ops_def)
  qed
qed

theorem complete_and_fail_end_a_task_once_witness:
  "\<exists>m' t. mgr_fail in_memory_ops sample_manager ''b'' (ThrownOther ''boom'') = (m', Inr t) \<and> status t = Failed"
proof -
  have "\<not> isTerminalTaskStatus (status (sample_task ''b'' Running 2))" by (simp add: sample_task_def status_defs)
  with complete_and_fail_end_a_task_once [OF sample_manager_inv, of "''b''" "ThrownOther ''boom''"
      "\<lparr>co_status = None, co_outputRef = None, co_summary = None, co_usage = None, co_metadata = None\<rparr>"]
    sample_manager_get(1) show ?thesis by (simp, blast)
qed

end
