(* ===== verification/Permission_Context.thy ===== *)
theory Permission_Context
  imports Bari_Prelude
begin

text \<open>
  The permission data model of \<^verbatim>\<open>packages/agent-modules/permission/src\<close>: the types (\<^verbatim>\<open>types.ts\<close>), the
  immutable permission context with its updates and queries (\<^verbatim>\<open>context.ts\<close>), the matching of MCP
  runtime names (\<^verbatim>\<open>mcp-runtime-name.ts\<close>) and the ask policy of a mode (\<^verbatim>\<open>ask-policy.ts\<close>).
  Logging and freezing have no counterpart: values of the model are immutable.
\<close>

section \<open>Types\<close>

datatype PermissionBehavior = Allow | Deny | Ask

text \<open>Strictness: allowing is the least strict behaviour and denying the strictest.\<close>

instantiation PermissionBehavior :: linorder
begin

fun strictness :: "PermissionBehavior \<Rightarrow> nat" where
  "strictness Allow = 0"
| "strictness Ask = 1"
| "strictness Deny = 2"

definition less_eq_PermissionBehavior :: "PermissionBehavior \<Rightarrow> PermissionBehavior \<Rightarrow> bool" where
  "a \<le> b \<longleftrightarrow> strictness a \<le> strictness b"

definition less_PermissionBehavior :: "PermissionBehavior \<Rightarrow> PermissionBehavior \<Rightarrow> bool" where
  "a < b \<longleftrightarrow> strictness a < strictness b"

instance
proof
  fix x y :: PermissionBehavior
  show "x \<le> y \<Longrightarrow> y \<le> x \<Longrightarrow> x = y"
    by (cases x; cases y) (simp_all add: less_eq_PermissionBehavior_def)
qed (auto simp: less_eq_PermissionBehavior_def less_PermissionBehavior_def)

end

datatype PermissionMode =
  ModeDefault | ModeAcceptEdits | ModeBypassPermissions | ModeAuto | ModeDontAsk | ModeOff

datatype PermissionRuleAction = ActRead | ActWrite | ActDelete | ActExecute | ActNetwork

datatype PermissionRuleMatcher =
    MatchTool
  | MatchCommand string
  | MatchPath string "PermissionRuleAction list option"

record PermissionRuleValue =
  rv_toolName :: string
  rv_ruleContent :: "string option"
  rv_matcher :: "PermissionRuleMatcher option"

datatype PermissionRuleSource = SrcGlobal | SrcAgent | SrcSession

record PermissionRule =
  r_source :: PermissionRuleSource
  r_ruleBehavior :: PermissionBehavior
  r_ruleValue :: PermissionRuleValue

datatype DecisionReason =
    ReasonRule PermissionRule
  | ReasonSafetyCheck string "bool option" "string option"
  | ReasonWorkingDirectory string
  | ReasonInternalWhitelist string
  | ReasonTrustedExactWrite string
  | ReasonTempDirectory string
  | ReasonSandbox
  | ReasonMode PermissionMode
  | ReasonPathValidation string
  | ReasonDangerousRemoval string
  | ReasonSubcommandResults "(string \<times> SubcommandResult) list"
  | ReasonRmRewrite string
  | ReasonRecoverableDeleteRewrite "string list"
and SubcommandResult = SubcommandResult PermissionBehavior DecisionReason

text \<open>The discriminator \<^verbatim>\<open>reason.type\<close>.\<close>

fun reason_type :: "DecisionReason \<Rightarrow> string" where
  "reason_type (ReasonRule _) = ''rule''"
| "reason_type (ReasonSafetyCheck _ _ _) = ''safetyCheck''"
| "reason_type (ReasonWorkingDirectory _) = ''workingDirectory''"
| "reason_type (ReasonInternalWhitelist _) = ''internalWhitelist''"
| "reason_type (ReasonTrustedExactWrite _) = ''trustedExactWrite''"
| "reason_type (ReasonTempDirectory _) = ''tempDirectory''"
| "reason_type ReasonSandbox = ''sandbox''"
| "reason_type (ReasonMode _) = ''mode''"
| "reason_type (ReasonPathValidation _) = ''pathValidation''"
| "reason_type (ReasonDangerousRemoval _) = ''dangerousRemoval''"
| "reason_type (ReasonSubcommandResults _) = ''subcommandResults''"
| "reason_type (ReasonRmRewrite _) = ''rmRewrite''"
| "reason_type (ReasonRecoverableDeleteRewrite _) = ''recoverableDeleteRewrite''"

datatype CandidateScopeKind = Narrow | ByFirstWord | ByArgvPrefix2 | ByDomain | WholeTool

record CandidateScope =
  cs_kind :: CandidateScopeKind
  cs_ruleContent :: string
  cs_labelKey :: string
  cs_labelParams :: "(string \<times> string) list option"

record CandidateScopeGroup =
  cg_subjectDisplay :: string
  cg_candidates :: "CandidateScope list"

record PermissionDecision =
  d_behavior :: PermissionBehavior
  d_reason :: DecisionReason
  d_ruleContents :: "string list option"
  d_ruleMatchers :: "PermissionRuleMatcher list option"
  d_candidateScopes :: "CandidateScopeGroup list option"
  d_rewrittenInput :: "js_record option"
  d_bypassImmune :: "bool option"
  d_skipAutoClassifier :: "bool option"

text \<open>The behaviour of a checker result: a verdict, or \<^verbatim>\<open>passthrough\<close>.\<close>

datatype CheckBehavior = Verdict PermissionBehavior | Passthrough

record ToolCheckResult =
  t_behavior :: CheckBehavior
  t_reason :: DecisionReason
  t_bypassImmune :: "bool option"
  t_skipAutoClassifier :: "bool option"
  t_ruleContents :: "string list option"
  t_ruleMatchers :: "PermissionRuleMatcher list option"
  t_candidateScopes :: "CandidateScopeGroup list option"
  t_rewrittenInput :: "js_record option"

datatype PermissionUpdate =
    AddRules PermissionRuleSource string "PermissionRuleValue list" PermissionBehavior
  | ReplaceRules PermissionRuleSource string "PermissionRuleValue list" PermissionBehavior
  | RemoveRules PermissionRuleSource string "PermissionRuleValue list" PermissionBehavior

section \<open>The context\<close>

datatype ShellFamily = ShPosix | ShCmd | ShPowershell | ShUnknown

record ToolPermissionContext =
  c_mode :: PermissionMode
  c_rules :: "PermissionRule list"
  c_sandboxEnabled :: bool
  c_autoAllowBashIfSandboxed :: bool
  c_platform :: string
  c_shellFamily :: ShellFamily
  c_workingDirectory :: string
  c_allowedWorkingPaths :: "string list"
  c_sandboxAllowPaths :: "string list"
  c_trustedExactWritePaths :: "string list"
  c_dataDir :: string
  c_homeDir :: string
  c_isFile :: "(string \<Rightarrow> bool) option"
  c_agentName :: "string option"
  c_sessionId :: "string option"
  c_allowManagedPermissionRulesOnly :: bool
  c_interactiveTools :: "string list"

record ToolPermissionContextConfig =
  cc_mode :: "PermissionMode option"
  cc_rules :: "PermissionRule list option"
  cc_sandboxEnabled :: "bool option"
  cc_autoAllowBashIfSandboxed :: "bool option"
  cc_platform :: "string option"
  cc_shellFamily :: "ShellFamily option"
  cc_workingDirectory :: string
  cc_allowedWorkingPaths :: "string list option"
  cc_sandboxAllowPaths :: "string list option"
  cc_trustedExactWritePaths :: "string list option"
  cc_dataDir :: string
  cc_homeDir :: string
  cc_isFile :: "(string \<Rightarrow> bool) option"
  cc_agentName :: "string option"
  cc_sessionId :: "string option"
  cc_allowManagedPermissionRulesOnly :: "bool option"
  cc_interactiveTools :: "string list option"

text \<open>The argument \<open>host\<close> is \<^verbatim>\<open>process.platform\<close>.\<close>

definition createToolPermissionContext :: "string \<Rightarrow> ToolPermissionContextConfig \<Rightarrow> ToolPermissionContext" where
  "createToolPermissionContext host config =
     \<lparr>c_mode = nullish (cc_mode config) ModeDefault,
      c_rules = nullish (cc_rules config) [],
      c_sandboxEnabled = nullish (cc_sandboxEnabled config) False,
      c_autoAllowBashIfSandboxed = nullish (cc_autoAllowBashIfSandboxed config) False,
      c_platform = nullish (cc_platform config) host,
      c_shellFamily = nullish (cc_shellFamily config) ShUnknown,
      c_workingDirectory = cc_workingDirectory config,
      c_allowedWorkingPaths = nullish (cc_allowedWorkingPaths config) [],
      c_sandboxAllowPaths = nullish (cc_sandboxAllowPaths config) [],
      c_trustedExactWritePaths = nullish (cc_trustedExactWritePaths config) [],
      c_dataDir = cc_dataDir config,
      c_homeDir = cc_homeDir config,
      c_isFile = cc_isFile config,
      c_agentName = cc_agentName config,
      c_sessionId = cc_sessionId config,
      c_allowManagedPermissionRulesOnly = nullish (cc_allowManagedPermissionRulesOnly config) False,
      c_interactiveTools = remdups (nullish (cc_interactiveTools config) [''question''])\<rparr>"

definition cloneContextWith ::
  "ToolPermissionContext \<Rightarrow> PermissionMode option \<Rightarrow> PermissionRule list option \<Rightarrow> ToolPermissionContext" where
  "cloneContextWith ctx m rs = ctx\<lparr>c_mode := nullish m (c_mode ctx), c_rules := nullish rs (c_rules ctx)\<rparr>"

definition matcher_equals :: "PermissionRuleMatcher \<Rightarrow> PermissionRuleMatcher \<Rightarrow> bool" where
  "matcher_equals a b =
     (case (a, b) of
        (MatchTool, MatchTool) \<Rightarrow> True
      | (MatchCommand p, MatchCommand q) \<Rightarrow> p = q
      | (MatchPath p xs, MatchPath q ys) \<Rightarrow>
          if p \<noteq> q then False
          else (case (xs, ys) of
                  (Some as, Some bs) \<Rightarrow> length as = length bs \<and> list_all (\<lambda>x. x \<in> set bs) as
                | (None, None) \<Rightarrow> True
                | _ \<Rightarrow> False)
      | _ \<Rightarrow> False)"

definition ruleValueEquals :: "PermissionRuleValue \<Rightarrow> PermissionRuleValue \<Rightarrow> bool" where
  "ruleValueEquals a b =
     (if rv_toolName a \<noteq> rv_toolName b \<or> nullish (rv_ruleContent a) [] \<noteq> nullish (rv_ruleContent b) [] then False
      else case (rv_matcher a, rv_matcher b) of
        (Some m, Some n) \<Rightarrow> matcher_equals m n
      | (None, None) \<Rightarrow> True
      | _ \<Rightarrow> False)"

definition is_duplicate :: "PermissionRuleSource \<Rightarrow> PermissionBehavior \<Rightarrow> PermissionRuleValue \<Rightarrow> PermissionRule \<Rightarrow> bool" where
  "is_duplicate source behavior v r =
     (r_source r = source \<and> r_ruleBehavior r = behavior \<and> ruleValueEquals (r_ruleValue r) v)"

fun push_rules ::
  "PermissionRuleSource \<Rightarrow> PermissionBehavior \<Rightarrow> PermissionRule list \<Rightarrow> PermissionRuleValue list \<Rightarrow> PermissionRule list" where
  "push_rules source behavior existing [] = existing"
| "push_rules source behavior existing (v # vs) =
     (if list_ex (is_duplicate source behavior v) existing
      then push_rules source behavior existing vs
      else push_rules source behavior
             (existing @ [\<lparr>r_source = source, r_ruleBehavior = behavior, r_ruleValue = v\<rparr>]) vs)"

definition addRules ::
  "ToolPermissionContext \<Rightarrow> PermissionRuleSource \<Rightarrow> PermissionRuleValue list \<Rightarrow> PermissionBehavior \<Rightarrow> ToolPermissionContext" where
  "addRules ctx source values behavior =
     cloneContextWith ctx None (Some (push_rules source behavior (c_rules ctx) values))"

definition replaceRules ::
  "ToolPermissionContext \<Rightarrow> PermissionRuleSource \<Rightarrow> PermissionRuleValue list \<Rightarrow> PermissionBehavior \<Rightarrow> ToolPermissionContext" where
  "replaceRules ctx source values behavior =
     (let kept = filter (\<lambda>r. \<not> (r_source r = source \<and> r_ruleBehavior r = behavior)) (c_rules ctx);
          newRules = map (\<lambda>v. \<lparr>r_source = source, r_ruleBehavior = behavior, r_ruleValue = v\<rparr>) values
      in cloneContextWith ctx None (Some (kept @ newRules)))"

definition removeRules ::
  "ToolPermissionContext \<Rightarrow> PermissionRuleSource \<Rightarrow> PermissionRuleValue list \<Rightarrow> PermissionBehavior \<Rightarrow> ToolPermissionContext" where
  "removeRules ctx source values behavior =
     cloneContextWith ctx None (Some (filter (\<lambda>r.
       if r_source r \<noteq> source \<or> r_ruleBehavior r \<noteq> behavior then True
       else \<not> list_ex (\<lambda>v. ruleValueEquals (r_ruleValue r) v) values) (c_rules ctx)))"

fun applyPermissionUpdate :: "ToolPermissionContext \<Rightarrow> PermissionUpdate \<Rightarrow> ToolPermissionContext" where
  "applyPermissionUpdate ctx (AddRules source destination values behavior) = addRules ctx source values behavior"
| "applyPermissionUpdate ctx (ReplaceRules source destination values behavior) = replaceRules ctx source values behavior"
| "applyPermissionUpdate ctx (RemoveRules source destination values behavior) = removeRules ctx source values behavior"

definition hasWholeToolRule :: "ToolPermissionContext \<Rightarrow> string \<Rightarrow> PermissionBehavior \<Rightarrow> PermissionRule option" where
  "hasWholeToolRule ctx toolName behavior =
     find (\<lambda>r. rv_toolName (r_ruleValue r) = toolName \<and> r_ruleBehavior r = behavior \<and>
               \<not> truthy_str (rv_ruleContent (r_ruleValue r))) (c_rules ctx)"

definition getContentRulesForTool :: "ToolPermissionContext \<Rightarrow> string \<Rightarrow> PermissionBehavior \<Rightarrow> PermissionRule list" where
  "getContentRulesForTool ctx toolName behavior =
     filter (\<lambda>r. rv_toolName (r_ruleValue r) = toolName \<and> r_ruleBehavior r = behavior \<and>
                 rv_ruleContent (r_ruleValue r) \<noteq> None) (c_rules ctx)"

definition isBypassMode :: "ToolPermissionContext \<Rightarrow> bool" where
  "isBypassMode ctx = (c_mode ctx = ModeBypassPermissions)"

definition isInteractiveTool :: "ToolPermissionContext \<Rightarrow> string \<Rightarrow> bool" where
  "isInteractiveTool ctx toolName = (toolName \<in> set (c_interactiveTools ctx))"

section \<open>MCP runtime names\<close>

definition MCP_SEGMENT_SEPARATOR :: string where
  "MCP_SEGMENT_SEPARATOR = ''__''"

definition matchesMcpServerRuntimeName :: "string \<Rightarrow> string \<Rightarrow> bool" where
  "matchesMcpServerRuntimeName toolRuntimeName serverRuntimeName =
     (let toolParts = js_split MCP_SEGMENT_SEPARATOR toolRuntimeName;
          serverParts = js_split MCP_SEGMENT_SEPARATOR serverRuntimeName
      in length toolParts = 3 \<and> length serverParts = 2 \<and>
         toolParts ! 0 = ''mcp'' \<and> serverParts ! 0 = ''mcp'' \<and>
         toolParts ! 1 \<noteq> [] \<and> toolParts ! 2 \<noteq> [] \<and> toolParts ! 1 = serverParts ! 1)"

section \<open>Ask policy\<close>

datatype AskForApproval = OnRequest | OnRequestLlm | Never | DenyPolicy

fun modeToAskPolicy :: "PermissionMode \<Rightarrow> AskForApproval" where
  "modeToAskPolicy ModeBypassPermissions = Never"
| "modeToAskPolicy ModeOff = Never"
| "modeToAskPolicy ModeAuto = OnRequestLlm"
| "modeToAskPolicy ModeDontAsk = DenyPolicy"
| "modeToAskPolicy ModeDefault = OnRequest"
| "modeToAskPolicy ModeAcceptEdits = OnRequest"

section \<open>Lemmas\<close>

subsection \<open>Equality of rule values\<close>

text \<open>A rule value whose actions, if it has any, are listed once each.\<close>

definition wf_matcher :: "PermissionRuleMatcher \<Rightarrow> bool" where
  "wf_matcher m = (case m of MatchPath _ (Some as) \<Rightarrow> distinct as | _ \<Rightarrow> True)"

definition wf_value :: "PermissionRuleValue \<Rightarrow> bool" where
  "wf_value v = (case rv_matcher v of Some m \<Rightarrow> wf_matcher m | None \<Rightarrow> True)"

text \<open>What a rule value means: its actions are a set, an absent content is the empty one.\<close>

fun matcher_meaning :: "PermissionRuleMatcher \<Rightarrow> nat \<times> string \<times> PermissionRuleAction set option" where
  "matcher_meaning MatchTool = (0, [], None)"
| "matcher_meaning (MatchCommand p) = (1, p, None)"
| "matcher_meaning (MatchPath p as) = (2, p, map_option set as)"

definition value_meaning where
  "value_meaning v = (rv_toolName v, nullish (rv_ruleContent v) [], map_option matcher_meaning (rv_matcher v))"

lemma same_length_subset:
  assumes "distinct as" "distinct bs"
  shows "length as = length bs \<and> list_all (\<lambda>x. x \<in> set bs) as \<longleftrightarrow> set as = set bs"
proof
  assume h: "length as = length bs \<and> list_all (\<lambda>x. x \<in> set bs) as"
  then have "set as \<subseteq> set bs" by (auto simp: list_all_iff)
  moreover have "card (set as) = card (set bs)" using h assms by (simp add: distinct_card)
  ultimately show "set as = set bs" by (simp add: card_subset_eq)
next
  assume "set as = set bs"
  then show "length as = length bs \<and> list_all (\<lambda>x. x \<in> set bs) as"
    using assms by (metis distinct_card list_all_iff)
qed

lemma matcher_equals_meaning:
  "wf_matcher m \<Longrightarrow> wf_matcher n \<Longrightarrow> matcher_equals m n \<longleftrightarrow> matcher_meaning m = matcher_meaning n"
  by (cases m; cases n)
    (auto simp: matcher_equals_def wf_matcher_def same_length_subset split: option.splits)

lemma matcher_equals_refl [simp]: "matcher_equals m m"
  by (auto simp: matcher_equals_def list_all_iff split: PermissionRuleMatcher.splits option.splits)

lemma ruleValueEquals_refl [simp]: "ruleValueEquals v v"
  by (auto simp: ruleValueEquals_def split: option.splits)

lemma ruleValueEquals_meaning:
  "wf_value a \<Longrightarrow> wf_value b \<Longrightarrow> ruleValueEquals a b \<longleftrightarrow> value_meaning a = value_meaning b"
  by (auto simp: ruleValueEquals_def value_meaning_def wf_value_def matcher_equals_meaning split: option.splits)

subsection \<open>Updates\<close>

lemma cloneContextWith_sel [simp]:
  "c_rules (cloneContextWith ctx m rs) = nullish rs (c_rules ctx)"
  "c_mode (cloneContextWith ctx m rs) = nullish m (c_mode ctx)"
  "c_interactiveTools (cloneContextWith ctx m rs) = c_interactiveTools ctx"
  "c_sandboxEnabled (cloneContextWith ctx m rs) = c_sandboxEnabled ctx"
  "c_autoAllowBashIfSandboxed (cloneContextWith ctx m rs) = c_autoAllowBashIfSandboxed ctx"
  by (simp_all add: cloneContextWith_def)

lemma cloneContextWith_rules_only: "cloneContextWith ctx None (Some rs) = ctx\<lparr>c_rules := rs\<rparr>"
  by (simp add: cloneContextWith_def nullish_def)

abbreviation in_layer :: "PermissionRuleSource \<Rightarrow> PermissionBehavior \<Rightarrow> PermissionRule \<Rightarrow> bool" where
  "in_layer source behavior r \<equiv> r_source r = source \<and> r_ruleBehavior r = behavior"

lemma push_rules_extends:
  "\<exists>new. push_rules s b ex vs = ex @ new \<and> list_all (in_layer s b) new \<and> r_ruleValue ` set new \<subseteq> set vs"
proof (induction vs arbitrary: ex)
  case (Cons v vs)
  show ?case
  proof (cases "list_ex (is_duplicate s b v) ex")
    case True
    then show ?thesis using Cons [of ex] by auto
  next
    case False
    let ?r = "\<lparr>r_source = s, r_ruleBehavior = b, r_ruleValue = v\<rparr>"
    obtain new where "push_rules s b (ex @ [?r]) vs = (ex @ [?r]) @ new" "list_all (in_layer s b) new"
      "r_ruleValue ` set new \<subseteq> set vs"
      using Cons [of "ex @ [?r]"] by blast
    with False show ?thesis by (intro exI [of _ "?r # new"]) auto
  qed
qed simp

lemma push_rules_covers:
  "v \<in> set vs \<Longrightarrow> list_ex (is_duplicate s b v) (push_rules s b ex vs)"
proof (induction vs arbitrary: ex)
  case (Cons w vs)
  let ?ex = "if list_ex (is_duplicate s b w) ex then ex
    else ex @ [\<lparr>r_source = s, r_ruleBehavior = b, r_ruleValue = w\<rparr>]"
  have "list_ex (is_duplicate s b w) ?ex" by (simp add: is_duplicate_def)
  moreover obtain new where "push_rules s b ?ex vs = ?ex @ new" using push_rules_extends by blast
  ultimately have "list_ex (is_duplicate s b w) (push_rules s b ?ex vs)" by simp
  moreover have "push_rules s b ex (w # vs) = push_rules s b ?ex vs" by simp
  ultimately show ?case using Cons by auto
qed simp

lemma push_rules_covered:
  "list_all (\<lambda>v. list_ex (is_duplicate s b v) ex) vs \<Longrightarrow> push_rules s b ex vs = ex"
  by (induction vs) auto

lemma filter_push_rules:
  "(\<And>r. in_layer s b r \<Longrightarrow> r_ruleValue r \<in> set vs \<Longrightarrow> \<not> P r) \<Longrightarrow> filter P (push_rules s b ex vs) = filter P ex"
proof -
  assume P: "\<And>r. in_layer s b r \<Longrightarrow> r_ruleValue r \<in> set vs \<Longrightarrow> \<not> P r"
  obtain new where new: "push_rules s b ex vs = ex @ new" "list_all (in_layer s b) new" "r_ruleValue ` set new \<subseteq> set vs"
    using push_rules_extends by blast
  then have "\<not> P r" if "r \<in> set new" for r
    using that P [of r] by (auto simp: list_all_iff)
  with new(1) show ?thesis by (simp add: filter_empty_conv)
qed

fun update_source :: "PermissionUpdate \<Rightarrow> PermissionRuleSource" where
  "update_source (AddRules s _ _ _) = s"
| "update_source (ReplaceRules s _ _ _) = s"
| "update_source (RemoveRules s _ _ _) = s"

fun update_behavior :: "PermissionUpdate \<Rightarrow> PermissionBehavior" where
  "update_behavior (AddRules _ _ _ b) = b"
| "update_behavior (ReplaceRules _ _ _ b) = b"
| "update_behavior (RemoveRules _ _ _ b) = b"

subsection \<open>MCP names\<close>

lemma matchesMcp_parts:
  assumes "matchesMcpServerRuntimeName t s"
  obtains S T where "js_split ''__'' t = [''mcp'', S, T]" "js_split ''__'' s = [''mcp'', S]" "S \<noteq> []" "T \<noteq> []"
proof -
  obtain a b c where t: "js_split ''__'' t = [a, b, c]"
    using assms by (auto simp: matchesMcpServerRuntimeName_def MCP_SEGMENT_SEPARATOR_def Let_def
        length_Suc_conv numeral_3_eq_3)
  obtain d e where s: "js_split ''__'' s = [d, e]"
    using assms by (auto simp: matchesMcpServerRuntimeName_def MCP_SEGMENT_SEPARATOR_def Let_def
        length_Suc_conv numeral_2_eq_2)
  from assms t s have "a = ''mcp'' \<and> d = ''mcp'' \<and> b \<noteq> [] \<and> c \<noteq> [] \<and> b = e"
    by (auto simp: matchesMcpServerRuntimeName_def MCP_SEGMENT_SEPARATOR_def Let_def)
  with t s show ?thesis by (intro that [of b c]) auto
qed

lemma matchesMcp_names:
  assumes "matchesMcpServerRuntimeName t s"
  obtains S T where "s = ''mcp__'' @ S" "t = ''mcp__'' @ S @ ''__'' @ T" "S \<noteq> []" "T \<noteq> []"
    "js_split ''__'' t = [''mcp'', S, T]"
proof -
  from matchesMcp_parts [OF assms] obtain S T where
    p: "js_split ''__'' t = [''mcp'', S, T]" "js_split ''__'' s = [''mcp'', S]" "S \<noteq> []" "T \<noteq> []" by metis
  from p(1) js_join_split [of "''__''" t] have "t = ''mcp__'' @ S @ ''__'' @ T" by (simp add: js_join_def)
  moreover from p(2) js_join_split [of "''__''" s] have "s = ''mcp__'' @ S" by (simp add: js_join_def)
  ultimately show ?thesis using p that by blast
qed

section \<open>Properties\<close>

definition sample_value :: "string \<Rightarrow> string option \<Rightarrow> PermissionRuleValue" where
  "sample_value n c = \<lparr>rv_toolName = n, rv_ruleContent = c, rv_matcher = None\<rparr>"

definition sample_context :: "PermissionMode \<Rightarrow> PermissionRule list \<Rightarrow> ToolPermissionContext" where
  "sample_context m rs = createToolPermissionContext ''linux''
     \<lparr>cc_mode = Some m, cc_rules = Some rs, cc_sandboxEnabled = None, cc_autoAllowBashIfSandboxed = None,
      cc_platform = None, cc_shellFamily = None, cc_workingDirectory = ''/w'', cc_allowedWorkingPaths = None,
      cc_sandboxAllowPaths = None, cc_trustedExactWritePaths = None, cc_dataDir = ''/d'', cc_homeDir = ''/h'',
      cc_isFile = None, cc_agentName = None, cc_sessionId = None, cc_allowManagedPermissionRulesOnly = None,
      cc_interactiveTools = None\<rparr>"

text \<open>an update touches only the rules of its own source and behaviour: every other rule stays, in order, and
  nothing else of the context changes.\<close>

theorem update_stays_in_its_layer:
  "filter (\<lambda>r. \<not> in_layer (update_source u) (update_behavior u) r) (c_rules (applyPermissionUpdate ctx u)) =
     filter (\<lambda>r. \<not> in_layer (update_source u) (update_behavior u) r) (c_rules ctx) \<and>
   applyPermissionUpdate ctx u = ctx\<lparr>c_rules := c_rules (applyPermissionUpdate ctx u)\<rparr>"
proof (cases u)
  case (AddRules s d vs b)
  then show ?thesis
    using filter_push_rules [of s b vs "\<lambda>r. \<not> in_layer s b r" "c_rules ctx"]
    by (simp add: addRules_def cloneContextWith_rules_only)
next
  case (ReplaceRules s d vs b)
  then show ?thesis by (simp add: replaceRules_def cloneContextWith_rules_only Let_def filter_empty_conv)
next
  case (RemoveRules s d vs b)
  have "filter (\<lambda>r. \<not> in_layer s b r) (filter (\<lambda>r. if \<not> in_layer s b r then True
      else \<not> list_ex (\<lambda>v. ruleValueEquals (r_ruleValue r) v) vs) rs) = filter (\<lambda>r. \<not> in_layer s b r) rs" for rs
    unfolding filter_filter by (rule filter_cong) auto
  with RemoveRules show ?thesis by (simp add: removeRules_def cloneContextWith_rules_only)
qed

text \<open>adding rules makes each of them present, adding them again changes nothing, and removing them removes
  every rule equal to one of them: adding and then removing leaves what removing alone leaves.\<close>

theorem add_and_remove_rules:
  "(\<forall>v \<in> set vs. list_ex (is_duplicate s b v) (c_rules (addRules ctx s vs b))) \<and>
   addRules (addRules ctx s vs b) s vs b = addRules ctx s vs b \<and>
   (\<forall>v \<in> set vs. \<not> list_ex (is_duplicate s b v) (c_rules (removeRules ctx s vs b))) \<and>
   removeRules (addRules ctx s vs b) s vs b = removeRules ctx s vs b"
proof (intro conjI)
  show "\<forall>v \<in> set vs. list_ex (is_duplicate s b v) (c_rules (addRules ctx s vs b))"
    by (simp add: addRules_def nullish_def push_rules_covers)
  show "addRules (addRules ctx s vs b) s vs b = addRules ctx s vs b"
    by (simp add: addRules_def cloneContextWith_rules_only push_rules_covers push_rules_covered list_all_iff)
  show "\<forall>v \<in> set vs. \<not> list_ex (is_duplicate s b v) (c_rules (removeRules ctx s vs b))"
    by (auto simp: removeRules_def nullish_def list_ex_iff is_duplicate_def)
  let ?P = "\<lambda>r. if r_source r \<noteq> s \<or> r_ruleBehavior r \<noteq> b then True
    else \<not> list_ex (\<lambda>v. ruleValueEquals (r_ruleValue r) v) vs"
  have "filter ?P (push_rules s b (c_rules ctx) vs) = filter ?P (c_rules ctx)"
    by (rule filter_push_rules) (auto simp: list_ex_iff intro: ruleValueEquals_refl)
  then show "removeRules (addRules ctx s vs b) s vs b = removeRules ctx s vs b"
    by (simp add: removeRules_def addRules_def cloneContextWith_rules_only)
qed

theorem add_and_remove_rules_witness:
  "list_ex (is_duplicate SrcGlobal Deny (sample_value ''bash'' None))
     (c_rules (addRules (sample_context ModeDefault []) SrcGlobal [sample_value ''bash'' None] Deny))"
  using add_and_remove_rules [of "[sample_value ''bash'' None]" SrcGlobal Deny "sample_context ModeDefault []"]
  by simp

text \<open>on rule values whose action lists have no repetition, \<^verbatim>\<open>ruleValueEquals\<close> is equality of meaning: same tool,
  same content with an absent content read as empty, same matcher with its actions read as a set.\<close>

theorem ruleValueEquals_is_equality_of_meaning:
  assumes "wf_value a" "wf_value b"
  shows "ruleValueEquals a b \<longleftrightarrow> value_meaning a = value_meaning b"
  by (rule ruleValueEquals_meaning [OF assms])

theorem ruleValueEquals_is_equality_of_meaning_witness:
  "ruleValueEquals (sample_value ''edit'' None\<lparr>rv_matcher := Some (MatchPath ''/a'' (Some [ActRead, ActWrite]))\<rparr>)
     (sample_value ''edit'' (Some [])\<lparr>rv_matcher := Some (MatchPath ''/a'' (Some [ActWrite, ActRead]))\<rparr>)"
  by (subst ruleValueEquals_is_equality_of_meaning)
    (auto simp: wf_value_def wf_matcher_def sample_value_def value_meaning_def nullish_def)

text \<open>with a repeated action the comparison is not symmetric: \<^verbatim>\<open>[read, read]\<close> equals \<^verbatim>\<open>[read, write]\<close> but not
  the other way round, so whether a rule counts as a duplicate depends on the order of insertion.\<close>

theorem ruleValueEquals_is_not_symmetric:
  "\<exists>a b. ruleValueEquals a b \<and> \<not> ruleValueEquals b a"
proof (intro exI conjI)
  let ?v = "\<lambda>as. sample_value ''edit'' None\<lparr>rv_matcher := Some (MatchPath ''/a'' (Some as))\<rparr>"
  show "ruleValueEquals (?v [ActRead, ActRead]) (?v [ActRead, ActWrite])"
    by (simp add: ruleValueEquals_def matcher_equals_def sample_value_def)
  show "\<not> ruleValueEquals (?v [ActRead, ActWrite]) (?v [ActRead, ActRead])"
    by (simp add: ruleValueEquals_def matcher_equals_def sample_value_def)
qed

text \<open>a rule whose content is the empty string is both a whole-tool rule and a content rule of its tool.\<close>

theorem empty_content_is_whole_tool_and_content:
  assumes "r \<in> set (c_rules ctx)" "rv_ruleContent (r_ruleValue r) = Some []"
  shows "hasWholeToolRule ctx (rv_toolName (r_ruleValue r)) (r_ruleBehavior r) \<noteq> None \<and>
    r \<in> set (getContentRulesForTool ctx (rv_toolName (r_ruleValue r)) (r_ruleBehavior r))"
  using assms by (auto simp: hasWholeToolRule_def getContentRulesForTool_def find_None_iff truthy_str_def)

theorem empty_content_is_whole_tool_and_content_witness:
  "hasWholeToolRule (sample_context ModeDefault
     [\<lparr>r_source = SrcGlobal, r_ruleBehavior = Deny, r_ruleValue = sample_value ''bash'' (Some [])\<rparr>]) ''bash'' Deny \<noteq> None"
  using empty_content_is_whole_tool_and_content
    [of "\<lparr>r_source = SrcGlobal, r_ruleBehavior = Deny, r_ruleValue = sample_value ''bash'' (Some [])\<rparr>"
      "sample_context ModeDefault [\<lparr>r_source = SrcGlobal, r_ruleBehavior = Deny,
         r_ruleValue = sample_value ''bash'' (Some [])\<rparr>]"]
  by (simp add: sample_context_def createToolPermissionContext_def sample_value_def nullish_def)

text \<open>a server-level rule name matches a tool's runtime name only if the tool's name is that name, two
  underscores and a non-empty tool part, and at most one server name matches a given tool.\<close>

theorem mcp_match_is_unambiguous:
  assumes "matchesMcpServerRuntimeName t s"
  shows "(\<exists>T. T \<noteq> [] \<and> t = s @ ''__'' @ T) \<and> (\<forall>s'. matchesMcpServerRuntimeName t s' \<longrightarrow> s' = s)"
proof -
  obtain S T where st: "s = ''mcp__'' @ S" "t = ''mcp__'' @ S @ ''__'' @ T" "T \<noteq> []"
    "js_split ''__'' t = [''mcp'', S, T]"
    using matchesMcp_names [OF assms] by blast
  have "s' = s" if s': "matchesMcpServerRuntimeName t s'" for s'
  proof -
    obtain S' T' where "s' = ''mcp__'' @ S'" "js_split ''__'' t = [''mcp'', S', T']"
      using matchesMcp_names [OF s'] by blast
    with st show ?thesis by simp
  qed
  with st show ?thesis by auto
qed

theorem mcp_match_is_unambiguous_witness:
  "\<exists>T. T \<noteq> [] \<and> ''mcp__docs__search'' = ''mcp__docs'' @ ''__'' @ T"
  by (rule mcp_match_is_unambiguous [THEN conjunct1])
    (simp add: matchesMcpServerRuntimeName_def MCP_SEGMENT_SEPARATOR_def js_split.simps [of _ "_ # _"])

end
