(* ===== verification/Permission_Core.thy ===== *)
theory Permission_Core
  imports Permission_Context
begin

text \<open>
  The policy reducers of \<^verbatim>\<open>permission/src/permission-core.ts\<close>: \<open>reducePermissionDecision\<close>, which owns the
  precedence of rules, modes, interactive tools and checker results when Core decides;
  \<open>reducePermissionClassifierDecision\<close>, which folds a classifier's recommendation back in; and
  \<open>reducePermissionEvaluation\<close> over a list of evidence.  The first one is later shown to implement
  the abstract verdict of \<open>Permission_Engine\<close>.
\<close>

section \<open>The decision reducer\<close>

record PermissionCoreDecisionInput =
  pi_toolName :: string
  pi_input :: js_record
  pi_context :: ToolPermissionContext
  pi_checkerRegistered :: bool
  pi_checkerResult :: "ToolCheckResult option"
  pi_checkerError :: "string option"

text \<open>\<^verbatim>\<open>{ behavior, reason }\<close> with every optional key absent.\<close>

definition decision :: "PermissionBehavior \<Rightarrow> DecisionReason \<Rightarrow> PermissionDecision" where
  "decision b r = \<lparr>d_behavior = b, d_reason = r, d_ruleContents = None, d_ruleMatchers = None,
     d_candidateScopes = None, d_rewrittenInput = None, d_bypassImmune = None, d_skipAutoClassifier = None\<rparr>"

text \<open>\<^verbatim>\<open>checkerResult?.behavior === b\<close> and the optional reads \<^verbatim>\<open>checkerResult?.ruleContents?.length\<close>,
  \<^verbatim>\<open>checkerResult?.rewrittenInput\<close>.\<close>

definition checker_says :: "ToolCheckResult option \<Rightarrow> PermissionBehavior \<Rightarrow> bool" where
  "checker_says res b = (case res of Some r \<Rightarrow> t_behavior r = Verdict b | None \<Rightarrow> False)"

definition checker_contents :: "ToolCheckResult option \<Rightarrow> string list" where
  "checker_contents res = (case res of Some r \<Rightarrow> nullish (t_ruleContents r) [] | None \<Rightarrow> [])"

definition checker_rewrite :: "ToolCheckResult option \<Rightarrow> js_record option" where
  "checker_rewrite res = (case res of Some r \<Rightarrow> t_rewrittenInput r | None \<Rightarrow> None)"

definition core_findMcpServerRule :: "string \<Rightarrow> ToolPermissionContext \<Rightarrow> PermissionBehavior \<Rightarrow> PermissionRule option" where
  "core_findMcpServerRule toolName ctx behavior =
     (if \<not> js_starts_with toolName ''mcp__'' then None
      else find (\<lambda>r. r_ruleBehavior r = behavior \<and> \<not> truthy_str (rv_ruleContent (r_ruleValue r)) \<and>
             matchesMcpServerRuntimeName toolName (rv_toolName (r_ruleValue r))) (c_rules ctx))"

definition core_extractToolInputContent :: "string \<Rightarrow> js_record \<Rightarrow> string option" where
  "core_extractToolInputContent toolName input =
     (if toolName = ''bash'' then js_as_string (js_prop input ''command'')
      else if toolName \<in> set [''edit'', ''write'', ''read'', ''glob''] then
        or_else (js_as_string (js_prop input ''filePath''))
          (or_else (js_as_string (js_prop input ''path'')) (js_as_string (js_prop input ''pattern'')))
      else or_else (js_as_string (js_prop input ''command'')) (js_as_string (js_prop input ''url'')))"

definition core_matchesContentAskRule :: "string \<Rightarrow> js_record \<Rightarrow> ToolPermissionContext \<Rightarrow> PermissionRule option" where
  "core_matchesContentAskRule toolName input ctx =
     (case core_extractToolInputContent toolName input of
        None \<Rightarrow> None
      | Some inputContent \<Rightarrow>
          if inputContent = [] then None
          else find (\<lambda>r. truthy_str (rv_ruleContent (r_ruleValue r)) \<and>
                        js_includes inputContent (the (rv_ruleContent (r_ruleValue r))))
                 (getContentRulesForTool ctx toolName Ask))"

definition core_resolveRuleContents :: "string \<Rightarrow> js_record \<Rightarrow> ToolCheckResult option \<Rightarrow> string list option" where
  "core_resolveRuleContents toolName input res =
     (if checker_contents res \<noteq> [] then Some (checker_contents res)
      else (let content = core_extractToolInputContent toolName input
            in if truthy_str content then Some [the content] else None))"

definition core_resolveCandidateScopes :: "ToolCheckResult option \<Rightarrow> CandidateScopeGroup list option" where
  "core_resolveCandidateScopes res =
     (if checker_contents res = [] then None
      else case t_candidateScopes (the res) of
        Some gs \<Rightarrow> if gs \<noteq> [] then Some gs else None
      | None \<Rightarrow> None)"

definition core_resolveRuleMatchers :: "ToolCheckResult option \<Rightarrow> PermissionRuleMatcher list option" where
  "core_resolveRuleMatchers res =
     (if checker_contents res = [] then None
      else case t_ruleMatchers (the res) of
        Some ms \<Rightarrow> if length ms = length (checker_contents res) then Some ms else None
      | None \<Rightarrow> None)"

text \<open>An ask with the contents, matchers and scopes resolved from the checker's result.\<close>

definition core_ask :: "PermissionCoreDecisionInput \<Rightarrow> DecisionReason \<Rightarrow> PermissionDecision" where
  "core_ask input reason =
     (decision Ask reason)
       \<lparr>d_ruleContents := core_resolveRuleContents (pi_toolName input) (pi_input input) (pi_checkerResult input),
        d_ruleMatchers := core_resolveRuleMatchers (pi_checkerResult input),
        d_candidateScopes := core_resolveCandidateScopes (pi_checkerResult input)\<rparr>"

text \<open>From the bypass test to the end of the function.\<close>

definition core_allow_phase :: "PermissionCoreDecisionInput \<Rightarrow> PermissionDecision" where
  "core_allow_phase input =
     (let toolName = pi_toolName input; ctx = pi_context input; res = pi_checkerResult input in
      if isBypassMode ctx
      then (decision Allow (ReasonMode ModeBypassPermissions))\<lparr>d_rewrittenInput := checker_rewrite res\<rparr>
      else case or_else (hasWholeToolRule ctx toolName Allow) (core_findMcpServerRule toolName ctx Allow) of
        Some allowRule \<Rightarrow> (decision Allow (ReasonRule allowRule))\<lparr>d_rewrittenInput := checker_rewrite res\<rparr>
      | None \<Rightarrow>
          if checker_says res Allow
          then (decision Allow (t_reason (the res)))\<lparr>d_rewrittenInput := t_rewrittenInput (the res)\<rparr>
          else if \<not> pi_checkerRegistered input
          then decision Allow (ReasonSafetyCheck
                 (''No permission checker registered for tool '' @ dquoted toolName @ '', allowing by default'') None None)
          else (core_ask input (ReasonSafetyCheck (''No permission rule matched for tool '' @ dquoted toolName) None None))
                 \<lparr>d_rewrittenInput := checker_rewrite res\<rparr>)"

text \<open>From the checker error to the checker's own ask.\<close>

definition core_ask_phase :: "PermissionCoreDecisionInput \<Rightarrow> PermissionDecision" where
  "core_ask_phase input =
     (let toolName = pi_toolName input; ctx = pi_context input; res = pi_checkerResult input in
      if truthy_str (pi_checkerError input)
      then (decision Ask (ReasonSafetyCheck (''Tool checker error: '' @ the (pi_checkerError input)) None None))
             \<lparr>d_ruleContents := core_resolveRuleContents toolName (pi_input input) None\<rparr>
      else if isInteractiveTool ctx toolName
      then core_ask input (ReasonSafetyCheck (''Tool '' @ dquoted toolName @ '' requires user interaction'') None None)
      else if checker_says res Ask \<and> t_bypassImmune (the res) = Some True
      then (core_ask input (t_reason (the res)))
             \<lparr>d_bypassImmune := Some True, d_skipAutoClassifier := t_skipAutoClassifier (the res)\<rparr>
      else case core_matchesContentAskRule toolName (pi_input input) ctx of
        Some contentAskRule \<Rightarrow>
          (core_ask input (ReasonRule contentAskRule))\<lparr>d_rewrittenInput := checker_rewrite res\<rparr>
      | None \<Rightarrow>
          if checker_says res Ask \<and> \<not> isBypassMode ctx
          then (core_ask input (t_reason (the res)))
                 \<lparr>d_rewrittenInput := t_rewrittenInput (the res),
                  d_skipAutoClassifier := t_skipAutoClassifier (the res)\<rparr>
          else core_allow_phase input)"

definition reducePermissionDecision :: "PermissionCoreDecisionInput \<Rightarrow> PermissionDecision" where
  "reducePermissionDecision input =
     (let toolName = pi_toolName input; ctx = pi_context input; res = pi_checkerResult input in
      case or_else (hasWholeToolRule ctx toolName Deny) (core_findMcpServerRule toolName ctx Deny) of
        Some denyRule \<Rightarrow> decision Deny (ReasonRule denyRule)
      | None \<Rightarrow>
          if checker_says res Deny then decision Deny (t_reason (the res))
          else
            (let askRule = hasWholeToolRule ctx toolName Ask;
                 sandboxBypassesAsk = (toolName = ''bash'' \<and> c_sandboxEnabled ctx \<and> c_autoAllowBashIfSandboxed ctx)
             in if askRule \<noteq> None \<and> \<not> sandboxBypassesAsk
                then (core_ask input (ReasonRule (the askRule)))\<lparr>d_rewrittenInput := checker_rewrite res\<rparr>
                else case core_findMcpServerRule toolName ctx Ask of
                  Some mcpAskRule \<Rightarrow>
                    (decision Ask (ReasonRule mcpAskRule))
                      \<lparr>d_ruleContents := core_resolveRuleContents toolName (pi_input input) None\<rparr>
                | None \<Rightarrow> core_ask_phase input))"

definition reducePermissionClassifierDecision ::
  "PermissionDecision \<Rightarrow> PermissionBehavior \<Rightarrow> DecisionReason \<Rightarrow> PermissionDecision" where
  "reducePermissionClassifierDecision d behavior reason =
     (if d_behavior d \<noteq> Ask then d
      else if behavior = Deny then decision Deny reason
      else if behavior = Allow then (decision Allow reason)\<lparr>d_rewrittenInput := d_rewrittenInput d\<rparr>
      else d\<lparr>d_reason := reason\<rparr>)"

section \<open>Evaluation of evidence\<close>

datatype PathResolution = ResAbsolute | ResRelative | ResHome | ResEnvironment | ResGlob | ResUnknown

record PathValue =
  pv_raw :: string
  pv_resolved :: "string option"
  pv_dynamic :: bool
  pv_resolution :: "PathResolution option"

datatype CommandIntent =
    FilesystemIntent PermissionRuleAction "PathValue list" "bool option" "bool option" ShellFamily
  | ExecuteIntent "string option" "string list" ShellFamily bool
  | NetworkIntent "string list" "string option" ShellFamily bool
  | ScriptIntent "string option" "PathValue option" ShellFamily bool
  | OpaqueIntent ShellFamily string string

datatype PermissionEvidence =
    HostDeny string
  | UserRule PermissionBehavior "string option"
  | PathCapability PermissionRuleAction string bool
  | BuiltInAllow string
  | ClassifierEligible string
  | ClassifierIneligible string
  | ClassifierResult PermissionBehavior string
  | LegacyReason jsval
  | LegacyDeny string

datatype ExecutionTransform = RecoverableDelete "string list"

record ExecutionPlan =
  ep_originalInput :: js_record
  ep_effectiveInput :: js_record
  ep_intents :: "CommandIntent list"
  ep_transforms :: "ExecutionTransform list"

datatype Interaction = InteractionAsk | NeverAsk | HeadlessFailClosed

datatype ClassifierUse = ClassifierAllowed | ClassifierForbidden

datatype Enforcement = EnforcementStrict | EnforcementOff

datatype BypassUse = BypassAllowed | BypassForbidden

record PermissionModeProfile =
  mp_interaction :: Interaction
  mp_classifier :: ClassifierUse
  mp_enforcement :: Enforcement
  mp_bypass :: BypassUse

record PermissionEvaluationInput =
  ei_toolName :: string
  ei_input :: js_record
  ei_evidence :: "PermissionEvidence list"
  ei_executionPlan :: "ExecutionPlan option"
  ei_mode :: PermissionModeProfile
  ei_workingDirectory :: string
  ei_homeDir :: string
  ei_dataDir :: string
  ei_sessionId :: "string option"
  ei_agentName :: "string option"

record PermissionApprovalRequest =
  ar_requestId :: string
  ar_sessionId :: string
  ar_agentName :: "string option"
  ar_toolName :: string
  ar_toolInput :: "string option"
  ar_reason :: string
  ar_ruleContents :: "string list"
  ar_allowAlwaysSupported :: bool

datatype PermissionEvaluation =
    EvalAllow string "ExecutionPlan option"
  | EvalAsk PermissionApprovalRequest "ExecutionPlan option"
  | EvalDeny string

fun is_allow_evidence :: "PermissionEvidence \<Rightarrow> bool" where
  "is_allow_evidence (UserRule Allow _) = True"
| "is_allow_evidence (BuiltInAllow _) = True"
| "is_allow_evidence (ClassifierResult Allow _) = True"
| "is_allow_evidence _ = False"

definition hasAllow :: "PermissionEvidence list \<Rightarrow> bool" where
  "hasAllow evidence = list_ex is_allow_evidence evidence"

definition formatToolInput :: "js_record \<Rightarrow> string option" where
  "formatToolInput input =
     or_else (js_as_string (js_prop input ''command''))
       (or_else (js_as_string (js_prop input ''filePath''))
         (or_else (js_as_string (js_prop input ''file_path'')) (js_as_string (js_prop input ''path''))))"

fun user_rule_content :: "PermissionEvidence \<Rightarrow> string list" where
  "user_rule_content (UserRule _ (Some c)) = (if c \<noteq> [] then [c] else [])"
| "user_rule_content _ = []"

definition buildApprovalRequest :: "PermissionEvaluationInput \<Rightarrow> string option \<Rightarrow> PermissionApprovalRequest" where
  "buildApprovalRequest input preferred =
     (let contents = concat (map user_rule_content (ei_evidence input));
          ruleContents = (if truthy_str preferred \<and> the preferred \<notin> set contents
                          then the preferred # contents else contents)
      in \<lparr>ar_requestId = nullish (ei_sessionId input) ''session'' @ '':'' @ ei_toolName input,
          ar_sessionId = nullish (ei_sessionId input) ''unknown'',
          ar_agentName = (if truthy_str (ei_agentName input) then ei_agentName input else None),
          ar_toolName = ei_toolName input,
          ar_toolInput = formatToolInput (ei_input input),
          ar_reason = ''permission requires approval'',
          ar_ruleContents = ruleContents,
          ar_allowAlwaysSupported = True\<rparr>)"

fun is_host_deny :: "PermissionEvidence \<Rightarrow> bool" where
  "is_host_deny (HostDeny _) = True"
| "is_host_deny _ = False"

fun is_user_rule :: "PermissionBehavior \<Rightarrow> PermissionEvidence \<Rightarrow> bool" where
  "is_user_rule b (UserRule b' _) = (b' = b)"
| "is_user_rule b _ = False"

fun is_legacy_deny :: "PermissionEvidence \<Rightarrow> bool" where
  "is_legacy_deny (LegacyDeny _) = True"
| "is_legacy_deny _ = False"

fun is_classifier_result :: "PermissionBehavior \<Rightarrow> PermissionEvidence \<Rightarrow> bool" where
  "is_classifier_result b (ClassifierResult b' _) = (b' = b)"
| "is_classifier_result b _ = False"

fun is_classifier_ineligible :: "PermissionEvidence \<Rightarrow> bool" where
  "is_classifier_ineligible (ClassifierIneligible _) = True"
| "is_classifier_ineligible _ = False"

fun deny_reason :: "PermissionEvidence \<Rightarrow> string" where
  "deny_reason (HostDeny r) = r"
| "deny_reason (UserRule _ c) = nullish c ''explicit user deny''"
| "deny_reason (LegacyDeny r) = r"
| "deny_reason (ClassifierResult _ r) = r"
| "deny_reason _ = []"

fun allow_reason :: "PermissionEvidence \<Rightarrow> string" where
  "allow_reason (UserRule _ c) = nullish c ''explicit user allow''"
| "allow_reason (BuiltInAllow r) = r"
| "allow_reason (ClassifierResult _ r) = r"
| "allow_reason _ = ''permission allowed''"

text \<open>The first deny in the order of the four searches.\<close>

definition find_deny :: "PermissionEvidence list \<Rightarrow> PermissionEvidence option" where
  "find_deny evidence =
     or_else (find is_host_deny evidence)
       (or_else (find (is_user_rule Deny) evidence)
         (or_else (find is_legacy_deny evidence) (find (is_classifier_result Deny) evidence)))"

definition reducePermissionEvaluation :: "PermissionEvaluationInput \<Rightarrow> PermissionEvaluation" where
  "reducePermissionEvaluation input =
     (let evidence = ei_evidence input; interaction = mp_interaction (ei_mode input) in
      case find_deny evidence of
        Some d \<Rightarrow> EvalDeny (deny_reason d)
      | None \<Rightarrow>
          (let classifierIneligible = find is_classifier_ineligible evidence;
               immuneAsk = find (is_user_rule Ask) evidence;
               classifierAsk = find (is_classifier_result Ask) evidence;
               explicitAsk = or_else immuneAsk classifierAsk;
               classifierAllow = list_ex (is_classifier_result Allow) evidence
           in if interaction = HeadlessFailClosed \<and>
                 (explicitAsk \<noteq> None \<or> classifierIneligible \<noteq> None \<or> (\<not> classifierAllow \<and> \<not> hasAllow evidence))
              then EvalDeny ''permission requires user confirmation but no approval channel is available''
              else if explicitAsk \<noteq> None \<or> classifierIneligible \<noteq> None \<or>
                 (interaction \<noteq> NeverAsk \<and> \<not> classifierAllow \<and> \<not> hasAllow evidence)
              then EvalAsk (buildApprovalRequest input
                     (case explicitAsk of Some (UserRule _ c) \<Rightarrow> c | _ \<Rightarrow> None)) (ei_executionPlan input)
              else case find is_allow_evidence evidence of
                Some a \<Rightarrow> EvalAllow (allow_reason a) (ei_executionPlan input)
              | None \<Rightarrow>
                  if interaction = NeverAsk \<and> mp_enforcement (ei_mode input) = EnforcementStrict
                  then EvalDeny ''permission interaction is disabled''
                  else EvalAsk (buildApprovalRequest input None) (ei_executionPlan input)))"

fun permissionModeToProfile :: "PermissionMode \<Rightarrow> PermissionModeProfile" where
  "permissionModeToProfile ModeBypassPermissions =
     \<lparr>mp_interaction = NeverAsk, mp_classifier = ClassifierForbidden, mp_enforcement = EnforcementStrict,
      mp_bypass = BypassAllowed\<rparr>"
| "permissionModeToProfile ModeOff =
     \<lparr>mp_interaction = NeverAsk, mp_classifier = ClassifierForbidden, mp_enforcement = EnforcementOff,
      mp_bypass = BypassAllowed\<rparr>"
| "permissionModeToProfile ModeAuto =
     \<lparr>mp_interaction = InteractionAsk, mp_classifier = ClassifierAllowed, mp_enforcement = EnforcementStrict,
      mp_bypass = BypassAllowed\<rparr>"
| "permissionModeToProfile _ =
     \<lparr>mp_interaction = InteractionAsk, mp_classifier = ClassifierForbidden, mp_enforcement = EnforcementStrict,
      mp_bypass = BypassForbidden\<rparr>"

section \<open>Lemmas\<close>

lemma or_else_None: "or_else a b = None \<longleftrightarrow> a = None \<and> b = None"
  by (simp add: or_else_def split: option.splits)

lemma find_Some_P: "find P xs = Some x \<Longrightarrow> P x \<and> x \<in> set xs"
  by (auto simp: find_Some_iff)

lemma find_None_list_ex: "find P xs = None \<longleftrightarrow> \<not> list_ex P xs"
  by (auto simp: find_None_iff list_ex_iff)

fun is_deny_evidence :: "PermissionEvidence \<Rightarrow> bool" where
  "is_deny_evidence (HostDeny _) = True"
| "is_deny_evidence (UserRule b _) = (b = Deny)"
| "is_deny_evidence (LegacyDeny _) = True"
| "is_deny_evidence (ClassifierResult b _) = (b = Deny)"
| "is_deny_evidence _ = False"

lemma is_deny_evidence_cases:
  "is_deny_evidence e \<longleftrightarrow> is_host_deny e \<or> is_user_rule Deny e \<or> is_legacy_deny e \<or> is_classifier_result Deny e"
  by (cases e) auto

lemma find_deny_None: "find_deny ev = None \<longleftrightarrow> \<not> list_ex is_deny_evidence ev"
  by (auto simp: find_deny_def or_else_None find_None_list_ex list_ex_iff is_deny_evidence_cases)

text \<open>Evidence that calls for the user: an ask rule, an asking classifier, or an ineligible classifier.\<close>

definition is_ask_evidence :: "PermissionEvidence \<Rightarrow> bool" where
  "is_ask_evidence e = (is_user_rule Ask e \<or> is_classifier_result Ask e \<or> is_classifier_ineligible e)"

lemma classifier_allow_hasAllow: "list_ex (is_classifier_result Allow) ev \<Longrightarrow> hasAllow ev"
  unfolding hasAllow_def list_ex_iff
  by (erule bexE) (metis (full_types) is_allow_evidence.simps(3) is_classifier_result.elims(2))

fun outcome :: "PermissionEvaluation \<Rightarrow> PermissionBehavior" where
  "outcome (EvalAllow _ _) = Allow"
| "outcome (EvalAsk _ _) = Ask"
| "outcome (EvalDeny _) = Deny"

text \<open>The outcome as a specification: deny evidence wins, then whatever needs the user, then the mode decides
  only what happens when nothing allows the call.\<close>

definition evaluation_spec :: "PermissionModeProfile \<Rightarrow> PermissionEvidence list \<Rightarrow> PermissionBehavior" where
  "evaluation_spec m ev =
     (if list_ex is_deny_evidence ev then Deny
      else if list_ex is_ask_evidence ev then (if mp_interaction m = HeadlessFailClosed then Deny else Ask)
      else if hasAllow ev then Allow
      else case mp_interaction m of
        HeadlessFailClosed \<Rightarrow> Deny
      | InteractionAsk \<Rightarrow> Ask
      | NeverAsk \<Rightarrow> if mp_enforcement m = EnforcementStrict then Deny else Ask)"

lemma ask_evidence_parts:
  "list_ex is_ask_evidence ev \<longleftrightarrow> or_else (find (is_user_rule Ask) ev) (find (is_classifier_result Ask) ev) \<noteq> None \<or>
     find is_classifier_ineligible ev \<noteq> None"
  by (auto simp: or_else_None find_None_list_ex list_ex_iff is_ask_evidence_def)

lemma evaluation_outcome: "outcome (reducePermissionEvaluation input) = evaluation_spec (ei_mode input) (ei_evidence input)"
proof (cases "find_deny (ei_evidence input)")
  case (Some d)
  then have "list_ex is_deny_evidence (ei_evidence input)" by (metis find_deny_None option.distinct(1))
  with Some show ?thesis by (simp add: reducePermissionEvaluation_def evaluation_spec_def)
next
  case None
  let ?ev = "ei_evidence input"
  have d: "\<not> list_ex is_deny_evidence ?ev" using None by (simp add: find_deny_None)
  have a: "find is_allow_evidence ?ev = None \<longleftrightarrow> \<not> hasAllow ?ev" by (simp add: hasAllow_def find_None_list_ex)
  show ?thesis
  proof (cases "list_ex is_ask_evidence ?ev")
    case True
    then have "or_else (find (is_user_rule Ask) ?ev) (find (is_classifier_result Ask) ?ev) \<noteq> None \<or>
        find is_classifier_ineligible ?ev \<noteq> None" by (simp add: ask_evidence_parts)
    then show ?thesis
      using None d True
      by (cases "or_else (find (is_user_rule Ask) ?ev) (find (is_classifier_result Ask) ?ev)")
        (simp_all add: reducePermissionEvaluation_def evaluation_spec_def Let_def)
  next
    case False
    then have "or_else (find (is_user_rule Ask) ?ev) (find (is_classifier_result Ask) ?ev) = None"
      "find is_classifier_ineligible ?ev = None" by (auto simp: ask_evidence_parts)
    then show ?thesis
      using None d False a classifier_allow_hasAllow [of ?ev]
      by (cases "hasAllow ?ev"; cases "mp_interaction (ei_mode input)")
        (auto simp: reducePermissionEvaluation_def evaluation_spec_def Let_def split: option.split)
  qed
qed

section \<open>Properties\<close>

text \<open>the outcome of an evaluation is exactly this: any deny evidence denies; otherwise evidence that calls for
  the user asks, or denies when there is no approval channel; otherwise allow evidence allows; otherwise
  the mode decides.  In particular no mode allows a call without allow evidence, and a headless
  evaluation never asks.\<close>

theorem evaluation_follows_the_evidence:
  "outcome (reducePermissionEvaluation input) = evaluation_spec (ei_mode input) (ei_evidence input) \<and>
   (outcome (reducePermissionEvaluation input) = Allow \<longrightarrow> hasAllow (ei_evidence input)) \<and>
   (mp_interaction (ei_mode input) = HeadlessFailClosed \<longrightarrow> outcome (reducePermissionEvaluation input) \<noteq> Ask)"
  by (auto simp: evaluation_outcome evaluation_spec_def split: if_splits Interaction.splits)

definition sample_evaluation :: "PermissionMode \<Rightarrow> PermissionEvidence list \<Rightarrow> PermissionEvaluationInput" where
  "sample_evaluation m ev = \<lparr>ei_toolName = ''bash'', ei_input = [(''command'', JStr ''ls'')], ei_evidence = ev,
     ei_executionPlan = None, ei_mode = permissionModeToProfile m, ei_workingDirectory = ''/w'', ei_homeDir = ''/h'',
     ei_dataDir = ''/d'', ei_sessionId = None, ei_agentName = None\<rparr>"

theorem evaluation_follows_the_evidence_witness:
  "outcome (reducePermissionEvaluation (sample_evaluation ModeAuto [BuiltInAllow ''ro'', UserRule Deny None])) = Deny"
  using evaluation_follows_the_evidence [of "sample_evaluation ModeAuto [BuiltInAllow ''ro'', UserRule Deny None]"]
  by (simp add: sample_evaluation_def evaluation_spec_def)

text \<open>with enforcement off and no evidence at all the evaluation still asks, although the mode never asks and
  the profile's comment says the layer does not block execution; and the mode \<^verbatim>\<open>dontAsk\<close> is profiled as one
  that asks.\<close>

theorem off_mode_still_asks:
  "outcome (reducePermissionEvaluation (sample_evaluation ModeOff [])) = Ask \<and>
   outcome (reducePermissionEvaluation (sample_evaluation ModeBypassPermissions [])) = Deny \<and>
   mp_interaction (permissionModeToProfile ModeDontAsk) = InteractionAsk \<and> modeToAskPolicy ModeDontAsk = DenyPolicy"
  by (simp add: evaluation_outcome evaluation_spec_def sample_evaluation_def hasAllow_def)

text \<open>a classifier only refines an ask: a decision that is already allow or deny is returned as it is, an ask
  takes the classifier's verdict, and an allowed call keeps the input the checker rewrote.\<close>

theorem classifier_only_refines_asks:
  "(d_behavior d \<noteq> Ask \<longrightarrow> reducePermissionClassifierDecision d b r = d) \<and>
   (d_behavior d = Ask \<longrightarrow>
      d_behavior (reducePermissionClassifierDecision d b r) = b \<and>
      d_reason (reducePermissionClassifierDecision d b r) = r \<and>
      (b \<noteq> Deny \<longrightarrow> d_rewrittenInput (reducePermissionClassifierDecision d b r) = d_rewrittenInput d))"
  by (cases b) (simp_all add: reducePermissionClassifierDecision_def decision_def)

theorem classifier_only_refines_asks_witness:
  "reducePermissionClassifierDecision (decision Deny ReasonSandbox) Allow ReasonSandbox = decision Deny ReasonSandbox"
  by (rule classifier_only_refines_asks [THEN conjunct1, rule_format]) (simp add: decision_def)

end
