(* ===== verification/Permission_Engine.thy ===== *)
theory Permission_Engine
  imports Permission_Core
begin

text \<open>
  The permission engine (\<^verbatim>\<open>permission/src/engine.ts\<close>): the registry of tool checkers, the dispatch on the
  policy owner, and the legacy three-step reducer.  \<open>verdict\<close> is the abstract policy both reducers
  promise; the locale \<open>permission_policy\<close> states what a caller may rely on and is interpreted by the
  Core reducer and by the engine's own.

  A checker is a function of the tool name, the input and the context; \<open>Inl m\<close> is an \<^verbatim>\<open>Error\<close> thrown with
  message \<open>m\<close>.  The fallback for tools without a checker, \<^verbatim>\<open>decideUnknownToolPathCapabilities\<close> of
  \<^verbatim>\<open>tools/path-capability.ts\<close>, is an argument of the same type.  The observability callback cannot change a
  verdict, so a check returns what the callback is given next to the decision.
\<close>

section \<open>The engine\<close>

type_synonym Checker = "string \<Rightarrow> js_record \<Rightarrow> ToolPermissionContext \<Rightarrow> string + ToolCheckResult option"

record PermissionEngine =
  pe_checkers :: "(string \<times> Checker) list"

definition new_engine :: PermissionEngine where
  "new_engine = \<lparr>pe_checkers = []\<rparr>"

definition registerToolPermissionChecker :: "PermissionEngine \<Rightarrow> string \<Rightarrow> Checker \<Rightarrow> PermissionEngine" where
  "registerToolPermissionChecker e toolName checker =
     e\<lparr>pe_checkers := AList.update toolName checker (pe_checkers e)\<rparr>"

definition unregisterToolPermissionChecker :: "PermissionEngine \<Rightarrow> string \<Rightarrow> PermissionEngine" where
  "unregisterToolPermissionChecker e toolName = e\<lparr>pe_checkers := AList.delete toolName (pe_checkers e)\<rparr>"

datatype TraceBehavior = TraceChecker CheckBehavior | TraceNone | TraceError

record PermissionCheckerDecisionTrace =
  tr_checkerRegistered :: bool
  tr_checkerBehavior :: TraceBehavior
  tr_reasonType :: "string option"
  tr_reason :: "DecisionReason option"
  tr_rewriteApplied :: bool
  tr_ruleCount :: nat
  tr_skipAutoClassifier :: bool

definition notifyCheckerDecision :: "bool \<Rightarrow> ToolCheckResult option \<Rightarrow> bool \<Rightarrow> PermissionCheckerDecisionTrace" where
  "notifyCheckerDecision checkerRegistered result checkerFailed =
     \<lparr>tr_checkerRegistered = checkerRegistered,
      tr_checkerBehavior = (if checkerFailed then TraceError
                            else case result of Some r \<Rightarrow> TraceChecker (t_behavior r) | None \<Rightarrow> TraceNone),
      tr_reasonType = map_option (\<lambda>r. reason_type (t_reason r)) result,
      tr_reason = map_option t_reason result,
      tr_rewriteApplied = (checker_rewrite result \<noteq> None),
      tr_ruleCount = length (checker_contents result),
      tr_skipAutoClassifier = (case result of Some r \<Rightarrow> t_skipAutoClassifier r = Some True | None \<Rightarrow> False)\<rparr>"

text \<open>The \<^verbatim>\<open>try\<close> block around the checker: its result and, when it threw, the message.\<close>

definition run_checker ::
  "PermissionEngine \<Rightarrow> Checker \<Rightarrow> string \<Rightarrow> js_record \<Rightarrow> ToolPermissionContext \<Rightarrow> ToolCheckResult option \<times> string option" where
  "run_checker e unknownTool toolName input ctx =
     (case (case map_of (pe_checkers e) toolName of
              Some checker \<Rightarrow> checker toolName input ctx
            | None \<Rightarrow> unknownTool toolName input ctx) of
        Inl msg \<Rightarrow> (None, Some msg)
      | Inr res \<Rightarrow> (res, None))"

subsection \<open>Helpers of the engine's reducer\<close>

definition matchesMcpServerRule :: "string \<Rightarrow> PermissionRule \<Rightarrow> bool" where
  "matchesMcpServerRule toolName r =
     (\<not> truthy_str (rv_ruleContent (r_ruleValue r)) \<and>
      matchesMcpServerRuntimeName toolName (rv_toolName (r_ruleValue r)))"

definition engine_extractToolInputContent :: "string \<Rightarrow> js_record \<Rightarrow> string option" where
  "engine_extractToolInputContent toolName input =
     (if toolName = ''bash'' then
        (case js_prop input ''command'' of JStr s \<Rightarrow> Some s | _ \<Rightarrow> None)
      else if toolName = ''edit'' \<or> toolName = ''write'' \<or> toolName = ''read'' \<or> toolName = ''glob'' then
        (case js_prop input ''filePath'' of JStr s \<Rightarrow> Some s
         | _ \<Rightarrow> (case js_prop input ''path'' of JStr s \<Rightarrow> Some s
         | _ \<Rightarrow> (case js_prop input ''pattern'' of JStr s \<Rightarrow> Some s | _ \<Rightarrow> None)))
      else
        (case js_prop input ''command'' of JStr s \<Rightarrow> Some s
         | _ \<Rightarrow> (case js_prop input ''url'' of JStr s \<Rightarrow> Some s | _ \<Rightarrow> None)))"

fun content_ask_loop :: "string \<Rightarrow> js_record \<Rightarrow> PermissionRule list \<Rightarrow> PermissionRule option" where
  "content_ask_loop toolName input [] = None"
| "content_ask_loop toolName input (r # rs) =
     (if \<not> truthy_str (rv_ruleContent (r_ruleValue r)) then content_ask_loop toolName input rs
      else (let inputContent = engine_extractToolInputContent toolName input
            in if truthy_str inputContent \<and> js_includes (the inputContent) (the (rv_ruleContent (r_ruleValue r)))
               then Some r else content_ask_loop toolName input rs))"

definition engine_matchesContentAskRule :: "string \<Rightarrow> js_record \<Rightarrow> ToolPermissionContext \<Rightarrow> PermissionRule option" where
  "engine_matchesContentAskRule toolName input ctx =
     content_ask_loop toolName input (getContentRulesForTool ctx toolName Ask)"

definition engine_findMcpServerRule :: "string \<Rightarrow> ToolPermissionContext \<Rightarrow> PermissionBehavior \<Rightarrow> PermissionRule option" where
  "engine_findMcpServerRule toolName ctx behavior =
     (if \<not> js_starts_with toolName ''mcp__'' then None
      else find (\<lambda>r. r_ruleBehavior r = behavior \<and> \<not> truthy_str (rv_ruleContent (r_ruleValue r)) \<and>
             matchesMcpServerRule toolName r) (c_rules ctx))"

definition engine_resolveRuleContents :: "string \<Rightarrow> js_record \<Rightarrow> ToolCheckResult option \<Rightarrow> string list option" where
  "engine_resolveRuleContents toolName input res =
     (if checker_contents res \<noteq> [] then Some (checker_contents res)
      else case engine_extractToolInputContent toolName input of
        Some content \<Rightarrow> if content \<noteq> [] then Some [content] else None
      | None \<Rightarrow> None)"

definition engine_resolveCandidateScopes :: "ToolCheckResult option \<Rightarrow> CandidateScopeGroup list option" where
  "engine_resolveCandidateScopes res =
     (if checker_contents res = [] then None
      else if t_candidateScopes (the res) = None \<or> t_candidateScopes (the res) = Some [] then None
      else t_candidateScopes (the res))"

definition engine_resolveRuleMatchers :: "ToolCheckResult option \<Rightarrow> PermissionRuleMatcher list option" where
  "engine_resolveRuleMatchers res =
     (if checker_contents res = [] then None
      else if map_option length (t_ruleMatchers (the res)) = Some (length (checker_contents res))
      then t_ruleMatchers (the res) else None)"

subsection \<open>The three steps\<close>

definition engine_ask :: "string \<Rightarrow> js_record \<Rightarrow> ToolCheckResult option \<Rightarrow> DecisionReason \<Rightarrow> PermissionDecision" where
  "engine_ask toolName input res reason =
     (decision Ask reason)
       \<lparr>d_ruleContents := engine_resolveRuleContents toolName input res,
        d_ruleMatchers := engine_resolveRuleMatchers res,
        d_candidateScopes := engine_resolveCandidateScopes res\<rparr>"

definition engine_step1a :: "string \<Rightarrow> ToolPermissionContext \<Rightarrow> PermissionDecision option" where
  "engine_step1a toolName ctx =
     (case hasWholeToolRule ctx toolName Deny of
        Some denyRule \<Rightarrow> Some (decision Deny (ReasonRule denyRule))
      | None \<Rightarrow> map_option (\<lambda>r. decision Deny (ReasonRule r)) (engine_findMcpServerRule toolName ctx Deny))"

text \<open>Step 1b: whole-tool and MCP ask rules.\<close>

definition engine_step1b ::
  "string \<Rightarrow> js_record \<Rightarrow> ToolPermissionContext \<Rightarrow> ToolCheckResult option \<Rightarrow> PermissionDecision option" where
  "engine_step1b toolName input ctx res =
     (case (case hasWholeToolRule ctx toolName Ask of
              Some askRule \<Rightarrow>
                if toolName = ''bash'' \<and> c_sandboxEnabled ctx \<and> c_autoAllowBashIfSandboxed ctx then None
                else Some ((engine_ask toolName input res (ReasonRule askRule))\<lparr>d_rewrittenInput := checker_rewrite res\<rparr>)
            | None \<Rightarrow> None) of
        Some d \<Rightarrow> Some d
      | None \<Rightarrow>
          map_option (\<lambda>r. (decision Ask (ReasonRule r))
            \<lparr>d_ruleContents := engine_resolveRuleContents toolName input None,
             d_candidateScopes := engine_resolveCandidateScopes None\<rparr>) (engine_findMcpServerRule toolName ctx Ask))"

text \<open>Steps 1e to 1h: checker error, interactive tools, bypass-immune and content asks, checker asks.\<close>

definition engine_step1e ::
  "string \<Rightarrow> js_record \<Rightarrow> ToolPermissionContext \<Rightarrow> ToolCheckResult option \<Rightarrow> string option \<Rightarrow> PermissionDecision option" where
  "engine_step1e toolName input ctx res err =
     (if truthy_str err then
        Some ((decision Ask (ReasonSafetyCheck (''Tool checker error: '' @ the err) None None))
                \<lparr>d_ruleContents := engine_resolveRuleContents toolName input None\<rparr>)
      else if isInteractiveTool ctx toolName then
        Some (engine_ask toolName input res
                (ReasonSafetyCheck (''Tool '' @ dquoted toolName @ '' requires user interaction'') None None))
      else if res \<noteq> None \<and> checker_says res Ask \<and> t_bypassImmune (the res) = Some True then
        Some ((engine_ask toolName input res (t_reason (the res)))
                \<lparr>d_bypassImmune := Some True, d_skipAutoClassifier := t_skipAutoClassifier (the res)\<rparr>)
      else case engine_matchesContentAskRule toolName input ctx of
        Some contentAskMatch \<Rightarrow>
          Some ((engine_ask toolName input res (ReasonRule contentAskMatch))\<lparr>d_rewrittenInput := checker_rewrite res\<rparr>)
      | None \<Rightarrow>
          if res \<noteq> None \<and> checker_says res Ask \<and> reason_type (t_reason (the res)) = ''safetyCheck'' \<and> \<not> isBypassMode ctx then
            Some ((engine_ask toolName input res (t_reason (the res)))
                    \<lparr>d_rewrittenInput := checker_rewrite res, d_skipAutoClassifier := t_skipAutoClassifier (the res)\<rparr>)
          else if res \<noteq> None \<and> checker_says res Ask \<and> \<not> isBypassMode ctx then
            Some ((engine_ask toolName input res (t_reason (the res)))
                    \<lparr>d_rewrittenInput := checker_rewrite res, d_skipAutoClassifier := t_skipAutoClassifier (the res)\<rparr>)
          else None)"

definition engine_step2 ::
  "string \<Rightarrow> ToolPermissionContext \<Rightarrow> ToolCheckResult option \<Rightarrow> PermissionDecision option" where
  "engine_step2 toolName ctx res =
     (if isBypassMode ctx then
        Some ((decision Allow (ReasonMode ModeBypassPermissions))\<lparr>d_rewrittenInput := checker_rewrite res\<rparr>)
      else case hasWholeToolRule ctx toolName Allow of
        Some allowRule \<Rightarrow> Some ((decision Allow (ReasonRule allowRule))\<lparr>d_rewrittenInput := checker_rewrite res\<rparr>)
      | None \<Rightarrow>
          (case engine_findMcpServerRule toolName ctx Allow of
             Some mcpAllowRule \<Rightarrow>
               Some ((decision Allow (ReasonRule mcpAllowRule))\<lparr>d_rewrittenInput := checker_rewrite res\<rparr>)
           | None \<Rightarrow>
               if res \<noteq> None \<and> checker_says res Allow
               then Some ((decision Allow (t_reason (the res)))\<lparr>d_rewrittenInput := t_rewrittenInput (the res)\<rparr>)
               else None))"

definition engine_step3 :: "string \<Rightarrow> js_record \<Rightarrow> bool \<Rightarrow> ToolCheckResult option \<Rightarrow> PermissionDecision" where
  "engine_step3 toolName input registered res =
     (if \<not> registered
      then decision Allow (ReasonSafetyCheck
             (''No permission checker registered for tool '' @ dquoted toolName @ '', allowing by default'') None None)
      else (engine_ask toolName input res
              (ReasonSafetyCheck (''No permission rule matched for tool '' @ dquoted toolName) None
                 (Some ''noMatchingPermissionRule'')))\<lparr>d_rewrittenInput := checker_rewrite res\<rparr>)"

text \<open>Everything after the checker has been called.\<close>

definition engine_after_checker ::
  "string \<Rightarrow> js_record \<Rightarrow> ToolPermissionContext \<Rightarrow> bool \<Rightarrow> ToolCheckResult option \<Rightarrow> string option \<Rightarrow> PermissionDecision" where
  "engine_after_checker toolName input ctx registered res err =
     (if checker_says res Deny then decision Deny (t_reason (the res))
      else case engine_step1b toolName input ctx res of
        Some d \<Rightarrow> d
      | None \<Rightarrow>
          (case engine_step1e toolName input ctx res err of
             Some d \<Rightarrow> d
           | None \<Rightarrow>
               (case engine_step2 toolName ctx res of
                  Some d \<Rightarrow> d
                | None \<Rightarrow> engine_step3 toolName input registered res)))"

type_synonym CheckOutcome = "PermissionCheckerDecisionTrace option \<times> PermissionDecision"

definition checkPermissionWithEngine ::
  "PermissionEngine \<Rightarrow> Checker \<Rightarrow> string \<Rightarrow> js_record \<Rightarrow> ToolPermissionContext \<Rightarrow> CheckOutcome" where
  "checkPermissionWithEngine e unknownTool toolName input ctx =
     (case engine_step1a toolName ctx of
        Some d \<Rightarrow> (None, d)
      | None \<Rightarrow>
          (let registered = (map_of (pe_checkers e) toolName \<noteq> None);
               (res, err) = run_checker e unknownTool toolName input ctx
           in (Some (notifyCheckerDecision registered res (truthy_str err)),
               engine_after_checker toolName input ctx registered res err)))"

definition checkPermissionWithCore ::
  "PermissionEngine \<Rightarrow> Checker \<Rightarrow> string \<Rightarrow> js_record \<Rightarrow> ToolPermissionContext \<Rightarrow> CheckOutcome" where
  "checkPermissionWithCore e unknownTool toolName input ctx =
     (let registered = (map_of (pe_checkers e) toolName \<noteq> None);
          (res, err) = run_checker e unknownTool toolName input ctx
      in (Some (notifyCheckerDecision registered res (truthy_str err)),
          reducePermissionDecision
            \<lparr>pi_toolName = toolName, pi_input = input, pi_context = ctx, pi_checkerRegistered = registered,
             pi_checkerResult = res, pi_checkerError = (if truthy_str err then err else None)\<rparr>))"

text \<open>\<open>Inl\<close> is the error thrown for an unknown policy owner.\<close>

definition checkPermission ::
  "PermissionEngine \<Rightarrow> Checker \<Rightarrow> string \<Rightarrow> js_record \<Rightarrow> ToolPermissionContext \<Rightarrow> string option \<Rightarrow> string + CheckOutcome" where
  "checkPermission e unknownTool toolName input ctx policyOwner =
     (let owner = nullish policyOwner ''engine'' in
      if owner \<noteq> ''engine'' \<and> owner \<noteq> ''core'' then Inl (''Unknown permission policy owner: '' @ owner)
      else if owner = ''core'' then Inr (checkPermissionWithCore e unknownTool toolName input ctx)
      else Inr (checkPermissionWithEngine e unknownTool toolName input ctx))"

section \<open>The abstract policy\<close>

definition whole_rule :: "ToolPermissionContext \<Rightarrow> string \<Rightarrow> PermissionBehavior \<Rightarrow> bool" where
  "whole_rule ctx toolName b =
     list_ex (\<lambda>r. rv_toolName (r_ruleValue r) = toolName \<and> r_ruleBehavior r = b \<and>
                  \<not> truthy_str (rv_ruleContent (r_ruleValue r))) (c_rules ctx)"

definition mcp_rule :: "ToolPermissionContext \<Rightarrow> string \<Rightarrow> PermissionBehavior \<Rightarrow> bool" where
  "mcp_rule ctx toolName b =
     (js_starts_with toolName ''mcp__'' \<and>
      list_ex (\<lambda>r. r_ruleBehavior r = b \<and> \<not> truthy_str (rv_ruleContent (r_ruleValue r)) \<and>
                   matchesMcpServerRuntimeName toolName (rv_toolName (r_ruleValue r))) (c_rules ctx))"

definition content_ask :: "ToolPermissionContext \<Rightarrow> string \<Rightarrow> js_record \<Rightarrow> bool" where
  "content_ask ctx toolName input =
     (case core_extractToolInputContent toolName input of
        None \<Rightarrow> False
      | Some content \<Rightarrow> content \<noteq> [] \<and>
          list_ex (\<lambda>r. rv_toolName (r_ruleValue r) = toolName \<and> r_ruleBehavior r = Ask \<and>
                       truthy_str (rv_ruleContent (r_ruleValue r)) \<and>
                       js_includes content (the (rv_ruleContent (r_ruleValue r)))) (c_rules ctx))"

record Facts =
  f_deny :: bool
  f_ask :: bool
  f_checkerAsk :: bool
  f_bypass :: bool
  f_allow :: bool

definition facts ::
  "string \<Rightarrow> js_record \<Rightarrow> ToolPermissionContext \<Rightarrow> bool \<Rightarrow> ToolCheckResult option \<Rightarrow> string option \<Rightarrow> Facts" where
  "facts toolName input ctx registered res err =
     \<lparr>f_deny = (whole_rule ctx toolName Deny \<or> mcp_rule ctx toolName Deny \<or> checker_says res Deny),
      f_ask = (whole_rule ctx toolName Ask \<and>
                 \<not> (toolName = ''bash'' \<and> c_sandboxEnabled ctx \<and> c_autoAllowBashIfSandboxed ctx) \<or>
               mcp_rule ctx toolName Ask \<or> truthy_str err \<or> isInteractiveTool ctx toolName \<or>
               checker_says res Ask \<and> t_bypassImmune (the res) = Some True \<or> content_ask ctx toolName input),
      f_checkerAsk = checker_says res Ask,
      f_bypass = isBypassMode ctx,
      f_allow = (whole_rule ctx toolName Allow \<or> mcp_rule ctx toolName Allow \<or> checker_says res Allow \<or> \<not> registered)\<rparr>"

text \<open>Denials win; then whatever must ask; then bypass mode and allowances; everything else asks.\<close>

definition verdict :: "Facts \<Rightarrow> PermissionBehavior" where
  "verdict f =
     (if f_deny f then Deny
      else if f_ask f \<or> f_checkerAsk f \<and> \<not> f_bypass f then Ask
      else if f_bypass f \<or> f_allow f then Allow
      else Ask)"

section \<open>The engine's reducer and Core's\<close>

lemma engine_extract_eq: "engine_extractToolInputContent = core_extractToolInputContent"
  by (intro ext)
    (simp add: engine_extractToolInputContent_def core_extractToolInputContent_def js_as_string_def or_else_def
      split: jsval.split)

lemma engine_findMcp_eq: "engine_findMcpServerRule = core_findMcpServerRule"
  by (intro ext)
    (auto simp: engine_findMcpServerRule_def core_findMcpServerRule_def matchesMcpServerRule_def intro!: find_cong)

lemma content_ask_loop_eq:
  "content_ask_loop t i rs =
     (if truthy_str (core_extractToolInputContent t i)
      then find (\<lambda>r. truthy_str (rv_ruleContent (r_ruleValue r)) \<and>
             js_includes (the (core_extractToolInputContent t i)) (the (rv_ruleContent (r_ruleValue r)))) rs
      else None)"
  by (induction rs) (auto simp: engine_extract_eq Let_def)

lemma engine_content_eq: "engine_matchesContentAskRule = core_matchesContentAskRule"
  by (intro ext)
    (simp add: engine_matchesContentAskRule_def core_matchesContentAskRule_def content_ask_loop_eq truthy_str_def
      split: option.split)

lemma engine_contents_eq: "engine_resolveRuleContents = core_resolveRuleContents"
  by (intro ext)
    (simp add: engine_resolveRuleContents_def core_resolveRuleContents_def engine_extract_eq truthy_str_def Let_def
      split: option.split)

lemma engine_scopes_eq: "engine_resolveCandidateScopes = core_resolveCandidateScopes"
  by (intro ext)
    (auto simp: engine_resolveCandidateScopes_def core_resolveCandidateScopes_def split: option.split)

lemma engine_matchers_eq: "engine_resolveRuleMatchers = core_resolveRuleMatchers"
  by (intro ext)
    (auto simp: engine_resolveRuleMatchers_def core_resolveRuleMatchers_def split: option.split)

lemmas engine_helpers_eq =
  engine_extract_eq engine_findMcp_eq engine_content_eq engine_contents_eq engine_scopes_eq engine_matchers_eq

definition core_decide ::
  "string \<Rightarrow> js_record \<Rightarrow> ToolPermissionContext \<Rightarrow> bool \<Rightarrow> ToolCheckResult option \<Rightarrow> string option \<Rightarrow> PermissionDecision" where
  "core_decide t i ctx registered res err = reducePermissionDecision
     \<lparr>pi_toolName = t, pi_input = i, pi_context = ctx, pi_checkerRegistered = registered,
      pi_checkerResult = res, pi_checkerError = (if truthy_str err then err else None)\<rparr>"

definition engine_decide ::
  "string \<Rightarrow> js_record \<Rightarrow> ToolPermissionContext \<Rightarrow> bool \<Rightarrow> ToolCheckResult option \<Rightarrow> string option \<Rightarrow> PermissionDecision" where
  "engine_decide t i ctx registered res err =
     (case engine_step1a t ctx of Some d \<Rightarrow> d | None \<Rightarrow> engine_after_checker t i ctx registered res err)"

lemma check_decisions:
  "snd (checkPermissionWithEngine e u t i ctx) = (case run_checker e u t i ctx of
     (res, err) \<Rightarrow> engine_decide t i ctx (map_of (pe_checkers e) t \<noteq> None) res err)"
  "snd (checkPermissionWithCore e u t i ctx) = (case run_checker e u t i ctx of
     (res, err) \<Rightarrow> core_decide t i ctx (map_of (pe_checkers e) t \<noteq> None) res err)"
  by (simp_all add: checkPermissionWithEngine_def checkPermissionWithCore_def engine_decide_def core_decide_def Let_def
      split: prod.split option.split)

text \<open>Core's function cut at the engine's steps.\<close>

abbreviation core_input where
  "core_input t i ctx registered res err \<equiv>
     \<lparr>pi_toolName = t, pi_input = i, pi_context = ctx, pi_checkerRegistered = registered,
      pi_checkerResult = res, pi_checkerError = err\<rparr>"

lemma engine_ask_eq: "engine_ask t i res r = core_ask (core_input t i ctx registered res err) r"
  by (simp add: engine_ask_def core_ask_def engine_helpers_eq)

definition core_step3 :: "string \<Rightarrow> js_record \<Rightarrow> bool \<Rightarrow> ToolCheckResult option \<Rightarrow> PermissionDecision" where
  "core_step3 t i registered res =
     (if \<not> registered then engine_step3 t i registered res
      else (engine_step3 t i registered res)
             \<lparr>d_reason := ReasonSafetyCheck (''No permission rule matched for tool '' @ dquoted t) None None\<rparr>)"

lemma checker_says_None [simp]: "\<not> checker_says None b"
  by (simp add: checker_says_def)

lemma checker_says_Some: "res \<noteq> None \<and> checker_says res b \<longleftrightarrow> checker_says res b"
  "res \<noteq> None \<and> checker_says res b \<and> Q \<longleftrightarrow> checker_says res b \<and> Q"
  by (cases res; simp)+

lemma checker_rewrite_the: "checker_says res b \<Longrightarrow> checker_rewrite res = t_rewrittenInput (the res)"
  by (auto simp: checker_says_def checker_rewrite_def split: option.splits)

lemma core_allow_phase_steps:
  "core_allow_phase (core_input t i ctx registered res err) =
     (case engine_step2 t ctx res of Some d \<Rightarrow> d | None \<Rightarrow> core_step3 t i registered res)"
  unfolding core_allow_phase_def engine_step2_def core_step3_def engine_step3_def engine_helpers_eq checker_says_Some
    engine_ask_def core_ask_def or_else_def Let_def
  by (cases "hasWholeToolRule ctx t Allow"; cases "core_findMcpServerRule t ctx Allow")
    (simp_all add: decision_def)

lemma core_ask_phase_steps:
  "core_ask_phase (core_input t i ctx registered res err) =
     (case engine_step1e t i ctx res err of
        Some d \<Rightarrow> d
      | None \<Rightarrow> core_allow_phase (core_input t i ctx registered res err))"
  unfolding core_ask_phase_def engine_step1e_def engine_helpers_eq checker_says_Some engine_ask_def core_ask_def Let_def
  by (cases "core_matchesContentAskRule t i ctx"; cases "checker_says res Ask")
    (simp_all add: checker_rewrite_the [of res Ask])

lemma case_or_else:
  "(case or_else a b of None \<Rightarrow> z | Some r \<Rightarrow> f r) =
     (case (case a of None \<Rightarrow> map_option f b | Some r \<Rightarrow> Some (f r)) of None \<Rightarrow> z | Some d \<Rightarrow> d)"
  by (cases a; cases b) (simp_all add: or_else_def)

lemma case_ask_rules:
  "(if a \<noteq> None \<and> \<not> s then f (the a) else case b of None \<Rightarrow> z | Some r \<Rightarrow> g r) =
     (case (case (case a of None \<Rightarrow> None | Some r \<Rightarrow> if s then None else Some (f r)) of
              None \<Rightarrow> map_option g b | Some d \<Rightarrow> Some d) of None \<Rightarrow> z | Some d \<Rightarrow> d)"
  by (cases a; cases b; cases s) simp_all

lemma reduce_steps:
  "reducePermissionDecision (core_input t i ctx registered res err) =
     (case engine_step1a t ctx of
        Some d \<Rightarrow> d
      | None \<Rightarrow>
          if checker_says res Deny then decision Deny (t_reason (the res))
          else case engine_step1b t i ctx res of
            Some d \<Rightarrow> d
          | None \<Rightarrow> core_ask_phase (core_input t i ctx registered res err))"
proof -
  have scopes: "(decision Ask r)\<lparr>d_ruleContents := c, d_candidateScopes := core_resolveCandidateScopes None\<rparr> =
      (decision Ask r)\<lparr>d_ruleContents := c\<rparr>" for r c
    by (simp add: core_resolveCandidateScopes_def checker_contents_def decision_def)
  note asks = case_ask_rules [of "hasWholeToolRule ctx t Ask" _ "\<lambda>r. (decision Ask (ReasonRule r))
    \<lparr>d_ruleContents := core_resolveRuleContents t i res, d_ruleMatchers := core_resolveRuleMatchers res,
     d_candidateScopes := core_resolveCandidateScopes res, d_rewrittenInput := checker_rewrite res\<rparr>"]
  show ?thesis
    unfolding reducePermissionDecision_def engine_step1a_def engine_step1b_def engine_helpers_eq Let_def
      engine_ask_def core_ask_def PermissionCoreDecisionInput.simps case_or_else asks scopes ..
qed

lemma engine_step1e_err: "engine_step1e t i ctx res (if truthy_str err then err else None) = engine_step1e t i ctx res err"
  by (simp add: engine_step1e_def truthy_str_def)

lemma core_decide_steps:
  "core_decide t i ctx registered res err =
     (case engine_step1a t ctx of
        Some d \<Rightarrow> d
      | None \<Rightarrow>
          if checker_says res Deny then decision Deny (t_reason (the res))
          else case engine_step1b t i ctx res of
            Some d \<Rightarrow> d
          | None \<Rightarrow>
              (case engine_step1e t i ctx res err of
                 Some d \<Rightarrow> d
               | None \<Rightarrow>
                   (case engine_step2 t ctx res of Some d \<Rightarrow> d | None \<Rightarrow> core_step3 t i registered res)))"
  unfolding core_decide_def reduce_steps core_ask_phase_steps core_allow_phase_steps engine_step1e_err ..

lemma engine_decide_steps:
  "engine_decide t i ctx registered res err =
     (case engine_step1a t ctx of
        Some d \<Rightarrow> d
      | None \<Rightarrow>
          if checker_says res Deny then decision Deny (t_reason (the res))
          else case engine_step1b t i ctx res of
            Some d \<Rightarrow> d
          | None \<Rightarrow>
              (case engine_step1e t i ctx res err of
                 Some d \<Rightarrow> d
               | None \<Rightarrow>
                   (case engine_step2 t ctx res of Some d \<Rightarrow> d | None \<Rightarrow> engine_step3 t i registered res)))"
  unfolding engine_decide_def engine_after_checker_def ..

subsection \<open>Steps and facts\<close>

lemma hasWholeToolRule_None: "hasWholeToolRule ctx t b = None \<longleftrightarrow> \<not> whole_rule ctx t b"
  by (simp add: hasWholeToolRule_def whole_rule_def find_None_list_ex)

lemma findMcp_None: "core_findMcpServerRule t ctx b = None \<longleftrightarrow> \<not> mcp_rule ctx t b"
  by (simp add: core_findMcpServerRule_def mcp_rule_def find_None_list_ex)

lemma content_None: "core_matchesContentAskRule t i ctx = None \<longleftrightarrow> \<not> content_ask ctx t i"
  by (auto simp: core_matchesContentAskRule_def content_ask_def find_None_list_ex getContentRulesForTool_def
      list_ex_iff truthy_str_def split: option.splits)

lemma engine_step1a_facts:
  "engine_step1a t ctx = None \<longleftrightarrow> \<not> whole_rule ctx t Deny \<and> \<not> mcp_rule ctx t Deny"
  "engine_step1a t ctx = Some d \<Longrightarrow> d_behavior d = Deny"
  by (auto simp: engine_step1a_def engine_helpers_eq hasWholeToolRule_None findMcp_None decision_def
      simp flip: hasWholeToolRule_None findMcp_None split: option.splits)

lemma engine_step1b_facts:
  "engine_step1b t i ctx res = None \<longleftrightarrow>
     \<not> (whole_rule ctx t Ask \<and> \<not> (t = ''bash'' \<and> c_sandboxEnabled ctx \<and> c_autoAllowBashIfSandboxed ctx)) \<and>
     \<not> mcp_rule ctx t Ask"
  "engine_step1b t i ctx res = Some d \<Longrightarrow> d_behavior d = Ask"
  by (auto simp: engine_step1b_def engine_helpers_eq engine_ask_def decision_def
      simp flip: hasWholeToolRule_None findMcp_None split: option.splits if_splits)

lemma engine_step1e_facts:
  "engine_step1e t i ctx res err = None \<longleftrightarrow>
     \<not> truthy_str err \<and> \<not> isInteractiveTool ctx t \<and> \<not> (checker_says res Ask \<and> t_bypassImmune (the res) = Some True) \<and>
     \<not> content_ask ctx t i \<and> \<not> (checker_says res Ask \<and> \<not> isBypassMode ctx)"
  "engine_step1e t i ctx res err = Some d \<Longrightarrow> d_behavior d = Ask"
  by (auto simp: engine_step1e_def engine_helpers_eq engine_ask_def decision_def checker_says_Some
      simp flip: content_None split: option.splits if_splits)

lemma engine_step2_facts:
  "engine_step2 t ctx res = None \<longleftrightarrow>
     \<not> isBypassMode ctx \<and> \<not> whole_rule ctx t Allow \<and> \<not> mcp_rule ctx t Allow \<and> \<not> checker_says res Allow"
  "engine_step2 t ctx res = Some d \<Longrightarrow> d_behavior d = Allow"
  by (auto simp: engine_step2_def engine_helpers_eq decision_def checker_says_Some
      simp flip: hasWholeToolRule_None findMcp_None split: option.splits if_splits)

lemma step3_behavior:
  "d_behavior (engine_step3 t i registered res) = (if registered then Ask else Allow)"
  "d_behavior (core_step3 t i registered res) = (if registered then Ask else Allow)"
  by (simp_all add: engine_step3_def core_step3_def engine_ask_def decision_def)

text \<open>A chain of optional steps, each with its own behaviour.\<close>

lemma steps_verdict:
  "pred_option (\<lambda>d. d_behavior d = Deny) a \<Longrightarrow> pred_option (\<lambda>d. d_behavior d = Ask) b \<Longrightarrow>
   pred_option (\<lambda>d. d_behavior d = Ask) c \<Longrightarrow> pred_option (\<lambda>d. d_behavior d = Allow) e \<Longrightarrow> d_behavior D = Deny \<Longrightarrow>
   d_behavior (case a of Some d \<Rightarrow> d | None \<Rightarrow> if p then D else case b of Some d \<Rightarrow> d | None \<Rightarrow>
      (case c of Some d \<Rightarrow> d | None \<Rightarrow> (case e of Some d \<Rightarrow> d | None \<Rightarrow> z))) =
    (if a \<noteq> None \<or> p then Deny else if b \<noteq> None \<or> c \<noteq> None then Ask else if e \<noteq> None then Allow else d_behavior z)"
  by (cases a; cases b; cases c; cases e) simp_all

lemma steps_facts:
  "(if engine_step1a t ctx \<noteq> None \<or> checker_says res Deny then Deny
    else if engine_step1b t i ctx res \<noteq> None \<or> engine_step1e t i ctx res err \<noteq> None then Ask
    else if engine_step2 t ctx res \<noteq> None then Allow
    else if registered then Ask else Allow) = verdict (facts t i ctx registered res err)"
  unfolding engine_step1a_facts(1) engine_step1b_facts(1) engine_step1e_facts(1) engine_step2_facts(1)
    verdict_def facts_def Facts.simps
  by (auto split del: if_split split: if_split_asm if_splits)

lemma decide_verdict:
  "d_behavior (engine_decide t i ctx registered res err) = verdict (facts t i ctx registered res err)"
  "d_behavior (core_decide t i ctx registered res err) = verdict (facts t i ctx registered res err)"
proof -
  have D: "d_behavior (decision Deny r) = Deny" for r by (simp add: decision_def)
  note steps = steps_verdict [OF _ _ _ _ D, of "engine_step1a t ctx" "engine_step1b t i ctx res"
      "engine_step1e t i ctx res err" "engine_step2 t ctx res"]
  have "pred_option (\<lambda>d. d_behavior d = Deny) (engine_step1a t ctx)"
    "pred_option (\<lambda>d. d_behavior d = Ask) (engine_step1b t i ctx res)"
    "pred_option (\<lambda>d. d_behavior d = Ask) (engine_step1e t i ctx res err)"
    "pred_option (\<lambda>d. d_behavior d = Allow) (engine_step2 t ctx res)"
    using engine_step1a_facts(2) [of t ctx] engine_step1b_facts(2) [of t i ctx res]
      engine_step1e_facts(2) [of t i ctx res err] engine_step2_facts(2) [of t ctx res]
    by (simp_all add: option.pred_set)
  note steps = steps [OF this]
  show "d_behavior (engine_decide t i ctx registered res err) = verdict (facts t i ctx registered res err)"
    unfolding engine_decide_steps steps step3_behavior by (rule steps_facts)
  show "d_behavior (core_decide t i ctx registered res err) = verdict (facts t i ctx registered res err)"
    unfolding core_decide_steps steps step3_behavior by (rule steps_facts)
qed

section \<open>What a caller of a reducer may rely on\<close>

lemma more_rules:
  assumes "list_all (\<lambda>r. r_ruleBehavior r = b) new" "ctx' = ctx\<lparr>c_rules := c_rules ctx @ new\<rparr>"
  shows "whole_rule ctx t b' \<Longrightarrow> whole_rule ctx' t b'" "mcp_rule ctx t b' \<Longrightarrow> mcp_rule ctx' t b'"
    "content_ask ctx t i \<Longrightarrow> content_ask ctx' t i"
    and "b' \<noteq> b \<Longrightarrow> whole_rule ctx' t b' = whole_rule ctx t b'" "b' \<noteq> b \<Longrightarrow> mcp_rule ctx' t b' = mcp_rule ctx t b'"
    "b \<noteq> Ask \<Longrightarrow> content_ask ctx' t i = content_ask ctx t i"
    and "isInteractiveTool ctx' t = isInteractiveTool ctx t" "isBypassMode ctx' = isBypassMode ctx"
    "c_sandboxEnabled ctx' = c_sandboxEnabled ctx" "c_autoAllowBashIfSandboxed ctx' = c_autoAllowBashIfSandboxed ctx"
proof -
  show "whole_rule ctx t b' \<Longrightarrow> whole_rule ctx' t b'" "mcp_rule ctx t b' \<Longrightarrow> mcp_rule ctx' t b'"
    by (auto simp: whole_rule_def mcp_rule_def assms(2))
  show "content_ask ctx t i \<Longrightarrow> content_ask ctx' t i"
    by (auto simp: content_ask_def assms(2) split: option.splits)
  show "whole_rule ctx' t b' = whole_rule ctx t b'" "mcp_rule ctx' t b' = mcp_rule ctx t b'" if "b' \<noteq> b"
    using that assms(1) by (auto simp: whole_rule_def mcp_rule_def assms(2) list_ex_iff list_all_iff)
  show "content_ask ctx' t i = content_ask ctx t i" if "b \<noteq> Ask"
    using that assms(1) by (auto simp: content_ask_def assms(2) list_ex_iff list_all_iff split: option.splits)
qed (simp_all add: isInteractiveTool_def isBypassMode_def assms(2))

lemma verdict_tighter:
  assumes "f_deny f \<Longrightarrow> f_deny g" "f_ask f \<Longrightarrow> f_ask g" "f_checkerAsk g = f_checkerAsk f" "f_bypass g = f_bypass f"
    "f_allow g = f_allow f"
  shows "verdict f \<le> verdict g"
  using assms unfolding verdict_def less_eq_PermissionBehavior_def
  by (cases "f_deny f"; cases "f_ask f"; cases "f_bypass f"; cases "f_checkerAsk f"; cases "f_allow f") simp_all

lemma verdict_looser:
  assumes "f_deny g = f_deny f" "f_ask g = f_ask f" "f_checkerAsk g = f_checkerAsk f" "f_bypass g = f_bypass f"
    "f_allow f \<Longrightarrow> f_allow g"
  shows "verdict g \<le> verdict f \<and> (f_deny f \<or> f_ask f \<longrightarrow> verdict g = verdict f)"
  using assms unfolding verdict_def less_eq_PermissionBehavior_def
  by (cases "f_deny f"; cases "f_ask f"; cases "f_bypass f"; cases "f_checkerAsk f"; cases "f_allow f") simp_all

lemma facts_tighter:
  assumes "list_all (\<lambda>r. r_ruleBehavior r = b) new" "b \<noteq> Allow"
  shows "verdict (facts t i ctx registered res err) \<le>
    verdict (facts t i (ctx\<lparr>c_rules := c_rules ctx @ new\<rparr>) registered res err)"
proof -
  define ctx' where "ctx' = ctx\<lparr>c_rules := c_rules ctx @ new\<rparr>"
  note more = more_rules [OF assms(1) ctx'_def]
  have "whole_rule ctx' t Allow = whole_rule ctx t Allow" "mcp_rule ctx' t Allow = mcp_rule ctx t Allow"
    using more(4,5) assms(2) by auto
  then show ?thesis
    unfolding ctx'_def [symmetric]
    by (intro verdict_tighter) (use more(1-3) more(7-10) in \<open>auto simp: facts_def\<close>)
qed

lemma facts_looser:
  fixes t i ctx registered res err
  defines "f \<equiv> facts t i ctx registered res err"
  assumes "list_all (\<lambda>r. r_ruleBehavior r = Allow) new"
  shows "verdict (facts t i (ctx\<lparr>c_rules := c_rules ctx @ new\<rparr>) registered res err) \<le> verdict f \<and>
    (f_deny f \<or> f_ask f \<longrightarrow> verdict (facts t i (ctx\<lparr>c_rules := c_rules ctx @ new\<rparr>) registered res err) = verdict f)"
proof -
  define ctx' where "ctx' = ctx\<lparr>c_rules := c_rules ctx @ new\<rparr>"
  note more = more_rules [OF assms(2) ctx'_def]
  have "whole_rule ctx' t Deny = whole_rule ctx t Deny" "mcp_rule ctx' t Deny = mcp_rule ctx t Deny"
    "whole_rule ctx' t Ask = whole_rule ctx t Ask" "mcp_rule ctx' t Ask = mcp_rule ctx t Ask"
    "content_ask ctx' t i = content_ask ctx t i"
    using more(4-6) by auto
  then show ?thesis
    unfolding ctx'_def [symmetric]
    by (intro verdict_looser) (use more(1,2) more(7-10) in \<open>auto simp: facts_def f_def\<close>)
qed

locale permission_policy =
  fixes decide :: "string \<Rightarrow> js_record \<Rightarrow> ToolPermissionContext \<Rightarrow> bool \<Rightarrow> ToolCheckResult option \<Rightarrow> string option \<Rightarrow>
    PermissionDecision"
  assumes verdict_law: "d_behavior (decide t i ctx registered res err) = verdict (facts t i ctx registered res err)"
    and rewrite_law: "d_behavior (decide t i ctx registered res err) = Allow \<Longrightarrow> res = Some r \<Longrightarrow>
      t_behavior r \<noteq> Passthrough \<Longrightarrow> d_rewrittenInput (decide t i ctx registered res err) = t_rewrittenInput r"
begin

lemma tighter_rules:
  assumes "list_all (\<lambda>r. r_ruleBehavior r = b) new" "b \<noteq> Allow"
  shows "d_behavior (decide t i ctx registered res err) \<le>
    d_behavior (decide t i (ctx\<lparr>c_rules := c_rules ctx @ new\<rparr>) registered res err)"
  unfolding verdict_law by (rule facts_tighter [OF assms])

lemma looser_rules:
  assumes "list_all (\<lambda>r. r_ruleBehavior r = Allow) new"
  shows "d_behavior (decide t i (ctx\<lparr>c_rules := c_rules ctx @ new\<rparr>) registered res err) \<le>
      d_behavior (decide t i ctx registered res err) \<and>
    (f_deny (facts t i ctx registered res err) \<or> f_ask (facts t i ctx registered res err) \<longrightarrow>
      d_behavior (decide t i (ctx\<lparr>c_rules := c_rules ctx @ new\<rparr>) registered res err) =
      d_behavior (decide t i ctx registered res err))"
  unfolding verdict_law by (rule facts_looser [OF assms])

lemma checker_error_never_allows: "truthy_str err \<Longrightarrow> d_behavior (decide t i ctx registered res err) \<noteq> Allow"
  unfolding verdict_law by (simp add: verdict_def facts_def)

end

lemma engine_step2_rewrite:
  "engine_step2 t ctx (Some r) = Some d \<Longrightarrow> d_rewrittenInput d = t_rewrittenInput r"
  by (auto simp: engine_step2_def decision_def checker_rewrite_def split: if_splits option.splits)

text \<open>Both reducers allow through step 2, or through step 3 when neither a checker nor a rule has an opinion.\<close>

lemma steps_rewrite:
  assumes "pred_option (\<lambda>d. d_behavior d = Deny) a" "pred_option (\<lambda>d. d_behavior d = Ask) b"
    "pred_option (\<lambda>d. d_behavior d = Ask) c" "d_behavior D = Deny"
    and "d_behavior (case a of Some d \<Rightarrow> d | None \<Rightarrow> if p then D else case b of Some d \<Rightarrow> d | None \<Rightarrow>
      (case c of Some d \<Rightarrow> d | None \<Rightarrow> (case e of Some d \<Rightarrow> d | None \<Rightarrow> z))) = Allow"
  shows "\<not> p \<and> b = None \<and> c = None \<and> (case a of Some d \<Rightarrow> d | None \<Rightarrow> if p then D else case b of Some d \<Rightarrow> d | None \<Rightarrow>
      (case c of Some d \<Rightarrow> d | None \<Rightarrow> (case e of Some d \<Rightarrow> d | None \<Rightarrow> z))) = (case e of Some d \<Rightarrow> d | None \<Rightarrow> z)"
  using assms by (cases a; cases b; cases c; cases p) simp_all

lemma step_preds:
  "pred_option (\<lambda>d. d_behavior d = Deny) (engine_step1a t ctx)"
  "pred_option (\<lambda>d. d_behavior d = Ask) (engine_step1b t i ctx res)"
  "pred_option (\<lambda>d. d_behavior d = Ask) (engine_step1e t i ctx res err)"
  "d_behavior (decision Deny r) = Deny"
  using engine_step1a_facts(2) [of t ctx] engine_step1b_facts(2) [of t i ctx res]
    engine_step1e_facts(2) [of t i ctx res err]
  by (simp_all add: option.pred_set decision_def)

lemma verdict_result_step2:
  assumes "t_behavior r \<noteq> Passthrough" "\<not> checker_says (Some r) Deny" "engine_step1e t i ctx (Some r) err = None"
  shows "engine_step2 t ctx (Some r) \<noteq> None"
proof -
  obtain b where "t_behavior r = Verdict b" using assms(1) by (cases "t_behavior r") auto
  then show ?thesis
    using assms(2,3) by (cases b) (auto simp: engine_step1e_facts(1) engine_step2_facts(1) checker_says_def)
qed

interpretation core_policy: permission_policy core_decide
proof (unfold_locales, goal_cases)
  case (1 t i ctx registered res err)
  show ?case by (rule decide_verdict)
next
  case (2 t i ctx registered res err r)
  note allow = steps_rewrite [OF step_preds 2(1) [unfolded core_decide_steps]]
  then obtain d where d: "engine_step2 t ctx res = Some d"
    using verdict_result_step2 [OF 2(3), of t i ctx err] 2(2) by auto
  then have "core_decide t i ctx registered res err = d" unfolding core_decide_steps using allow by simp
  with d 2(2) engine_step2_rewrite show ?case by simp
qed

interpretation engine_policy: permission_policy engine_decide
proof (unfold_locales, goal_cases)
  case (1 t i ctx registered res err)
  show ?case by (rule decide_verdict)
next
  case (2 t i ctx registered res err r)
  note allow = steps_rewrite [OF step_preds 2(1) [unfolded engine_decide_steps]]
  then obtain d where d: "engine_step2 t ctx res = Some d"
    using verdict_result_step2 [OF 2(3), of t i ctx err] 2(2) by auto
  then have "engine_decide t i ctx registered res err = d" unfolding engine_decide_steps using allow by simp
  with d 2(2) engine_step2_rewrite show ?case by simp
qed

section \<open>Properties\<close>

text \<open>Nothing decides the call: no rule, no checker verdict, not bypassed, and a checker is registered.\<close>

definition undecided :: "Facts \<Rightarrow> bool" where
  "undecided f = (\<not> f_deny f \<and> \<not> f_ask f \<and> \<not> f_checkerAsk f \<and> \<not> f_bypass f \<and> \<not> f_allow f)"

lemma undecided_steps:
  "undecided (facts t i ctx registered res err) \<longleftrightarrow>
     engine_step1a t ctx = None \<and> \<not> checker_says res Deny \<and> engine_step1b t i ctx res = None \<and>
     engine_step1e t i ctx res err = None \<and> engine_step2 t ctx res = None \<and> registered"
  unfolding undecided_def facts_def Facts.simps engine_step1a_facts(1) engine_step1b_facts(1) engine_step1e_facts(1)
    engine_step2_facts(1)
  by blast

lemma core_from_engine:
  "core_decide t i ctx registered res err =
     (if undecided (facts t i ctx registered res err)
      then (engine_decide t i ctx registered res err)
             \<lparr>d_reason := ReasonSafetyCheck (''No permission rule matched for tool '' @ dquoted t) None None\<rparr>
      else engine_decide t i ctx registered res err)"
  unfolding core_decide_steps engine_decide_steps undecided_steps core_step3_def
  by (cases "engine_step1a t ctx"; cases "engine_step1b t i ctx res"; cases "engine_step1e t i ctx res err";
      cases "engine_step2 t ctx res"; cases registered) simp_all

definition sample_result :: "CheckBehavior \<Rightarrow> js_record option \<Rightarrow> ToolCheckResult" where
  "sample_result b rewrite = \<lparr>t_behavior = b, t_reason = ReasonSandbox, t_bypassImmune = None, t_skipAutoClassifier = None,
     t_ruleContents = None, t_ruleMatchers = None, t_candidateScopes = None, t_rewrittenInput = rewrite\<rparr>"

definition sample_engine :: PermissionEngine where
  "sample_engine = registerToolPermissionChecker new_engine ''bash''
     (\<lambda>t i ctx. Inr (Some (sample_result (Verdict Allow) (Some [(''command'', JStr ''trash x'')]))))"

text \<open>C9: both reducers implement one policy: a deny rule or a denying checker denies; otherwise an ask rule, a failed
  checker, an interactive tool, a bypass-immune ask or a matching content rule asks; otherwise the checker's
  ask asks outside bypass mode; otherwise bypass mode, an allow rule, an allowing checker or the absence of
  a checker allows; everything else asks.\<close>

theorem both_reducers_implement_the_policy:
  "case run_checker e u t i ctx of (res, err) \<Rightarrow>
     d_behavior (snd (checkPermissionWithEngine e u t i ctx)) =
       verdict (facts t i ctx (map_of (pe_checkers e) t \<noteq> None) res err) \<and>
     d_behavior (snd (checkPermissionWithCore e u t i ctx)) =
       verdict (facts t i ctx (map_of (pe_checkers e) t \<noteq> None) res err)"
  by (simp add: check_decisions decide_verdict split: prod.split)

text \<open>C28: the two policy owners return the same decision in every field, except that the engine tags the reason of
  an undecided call with a category and Core does not; and they report the same checker trace, except that
  the engine does not consult the checker when a deny rule matches.\<close>

theorem engine_and_core_agree:
  "case run_checker e u t i ctx of (res, err) \<Rightarrow>
     snd (checkPermissionWithCore e u t i ctx) =
       (if undecided (facts t i ctx (map_of (pe_checkers e) t \<noteq> None) res err)
        then (snd (checkPermissionWithEngine e u t i ctx))
               \<lparr>d_reason := ReasonSafetyCheck (''No permission rule matched for tool '' @ dquoted t) None None\<rparr>
        else snd (checkPermissionWithEngine e u t i ctx)) \<and>
     fst (checkPermissionWithEngine e u t i ctx) =
       (if whole_rule ctx t Deny \<or> mcp_rule ctx t Deny then None else fst (checkPermissionWithCore e u t i ctx))"
proof -
  obtain res err where r: "run_checker e u t i ctx = (res, err)" by fastforce
  have "fst (checkPermissionWithEngine e u t i ctx) =
      (if engine_step1a t ctx \<noteq> None then None else fst (checkPermissionWithCore e u t i ctx))"
    by (simp add: checkPermissionWithEngine_def checkPermissionWithCore_def Let_def split: option.split prod.split)
  then show ?thesis
    unfolding check_decisions r prod.case engine_step1a_facts(1) using core_from_engine by simp
qed

text \<open>How strict the outcome of a checker is: an allowance, no opinion, a question, a question that bypass mode does not skip
  (or a failed checker, which must ask), a denial.\<close>

definition checker_strictness :: "ToolCheckResult option \<times> string option \<Rightarrow> nat" where
  "checker_strictness r =
     (case r of (res, err) \<Rightarrow>
        if checker_says res Deny then 4
        else if truthy_str err \<or> checker_says res Ask \<and> t_bypassImmune (the res) = Some True then 3
        else if checker_says res Ask then 2
        else if checker_says res Allow then 0 else 1)"

lemma checker_says_one: "checker_says res b \<Longrightarrow> checker_says res b' \<longleftrightarrow> b' = b"
  by (auto simp: checker_says_def split: option.splits)

text \<open>The verdict as a function of the rules and of the checker's strictness.\<close>

definition ranked_verdict :: "bool \<Rightarrow> bool \<Rightarrow> bool \<Rightarrow> bool \<Rightarrow> nat \<Rightarrow> PermissionBehavior" where
  "ranked_verdict deny ask bypass allow n =
     (if deny \<or> n = 4 then Deny
      else if ask \<or> n = 3 \<or> n = 2 \<and> \<not> bypass then Ask
      else if bypass \<or> allow \<or> n = 0 then Allow
      else Ask)"

lemma ranked_verdict_mono: "n \<le> m \<Longrightarrow> m \<le> 4 \<Longrightarrow> ranked_verdict deny ask bypass allow n \<le> ranked_verdict deny ask bypass allow m"
  by (auto simp: ranked_verdict_def less_eq_PermissionBehavior_def)

lemma checker_strictness_le: "checker_strictness r \<le> 4"
  by (simp add: checker_strictness_def split: prod.split)

lemma verdict_ranked:
  "verdict (facts t i ctx registered res err) =
     ranked_verdict (whole_rule ctx t Deny \<or> mcp_rule ctx t Deny)
       (whole_rule ctx t Ask \<and> \<not> (t = ''bash'' \<and> c_sandboxEnabled ctx \<and> c_autoAllowBashIfSandboxed ctx) \<or>
        mcp_rule ctx t Ask \<or> isInteractiveTool ctx t \<or> content_ask ctx t i)
       (isBypassMode ctx) (whole_rule ctx t Allow \<or> mcp_rule ctx t Allow \<or> \<not> registered) (checker_strictness (res, err))"
proof -
  consider "checker_says res Deny" | "checker_says res Ask" | "checker_says res Allow"
    | "\<not> checker_says res Deny" "\<not> checker_says res Ask" "\<not> checker_says res Allow" by blast
  then show ?thesis
  proof cases
    case 1
    then show ?thesis by (simp add: verdict_def facts_def ranked_verdict_def checker_strictness_def)
  next
    case 2
    note no = checker_says_one [OF 2]
    show ?thesis
      by (cases "truthy_str err"; cases "t_bypassImmune (the res) = Some True"; cases "isBypassMode ctx")
        (auto simp: verdict_def facts_def ranked_verdict_def checker_strictness_def no)
  next
    case 3
    note no = checker_says_one [OF 3]
    show ?thesis
      by (cases "truthy_str err") (auto simp: verdict_def facts_def ranked_verdict_def checker_strictness_def no)
  next
    case 4
    then show ?thesis
      by (cases "truthy_str err") (auto simp: verdict_def facts_def ranked_verdict_def checker_strictness_def)
  qed
qed

lemma stricter_checker:
  "checker_strictness (res, err) \<le> checker_strictness (res', err') \<Longrightarrow>
   verdict (facts t i ctx registered res err) \<le> verdict (facts t i ctx registered res' err')"
  unfolding verdict_ranked by (intro ranked_verdict_mono checker_strictness_le)

lemma added_rules:
  "\<exists>new. list_all (\<lambda>r. r_ruleBehavior r = b) new \<and> applyPermissionUpdate ctx (AddRules s dest vs b) = ctx\<lparr>c_rules := c_rules ctx @ new\<rparr>"
proof -
  obtain new where new: "push_rules s b (c_rules ctx) vs = c_rules ctx @ new" "list_all (in_layer s b) new"
    using push_rules_extends by blast
  then have "list_all (\<lambda>r. r_ruleBehavior r = b) new" by (simp add: list_all_iff)
  then show ?thesis using new(1) by (auto simp: addRules_def cloneContextWith_rules_only)
qed

text \<open>C25: under every policy owner, adding deny or ask rules never makes the decision on a call more permissive, provided that the tool's own
  checker, which is called with the context and may read its rules, does not answer more permissively because of them.\<close>

theorem deny_and_ask_rules_only_tighten:
  assumes "b \<noteq> Allow" "ctx' = applyPermissionUpdate ctx (AddRules s dest vs b)"
    and "checker_strictness (run_checker e u t i ctx) \<le> checker_strictness (run_checker e u t i ctx')"
  shows "case (checkPermission e u t i ctx owner, checkPermission e u t i ctx' owner) of
      (Inl x, Inl y) \<Rightarrow> x = y
    | (Inr x, Inr y) \<Rightarrow> d_behavior (snd x) \<le> d_behavior (snd y)
    | _ \<Rightarrow> False"
proof -
  obtain res err res' err' where r: "run_checker e u t i ctx = (res, err)" "run_checker e u t i ctx' = (res', err')" by fastforce
  obtain new where new: "list_all (\<lambda>r. r_ruleBehavior r = b) new" "ctx' = ctx\<lparr>c_rules := c_rules ctx @ new\<rparr>"
    using added_rules assms(2) by blast
  let ?reg = "map_of (pe_checkers e) t \<noteq> None"
  have "verdict (facts t i ctx ?reg res err) \<le> verdict (facts t i ctx ?reg res' err')"
    using assms(3) unfolding r by (rule stricter_checker)
  also have "\<dots> \<le> verdict (facts t i ctx' ?reg res' err')" unfolding new(2) by (rule facts_tighter [OF new(1) assms(1)])
  finally have v: "verdict (facts t i ctx ?reg res err) \<le> verdict (facts t i ctx' ?reg res' err')" .
  then show ?thesis by (simp add: checkPermission_def Let_def check_decisions r decide_verdict)
qed

text \<open>A checker that asks unless the context holds a rule; the added rule denies the tool.\<close>

definition rule_reading_engine :: PermissionEngine where
  "rule_reading_engine = registerToolPermissionChecker new_engine ''bash''
     (\<lambda>t i c. Inr (if c_rules c = [] then Some (sample_result (Verdict Allow) None) else None))"

theorem deny_and_ask_rules_only_tighten_witness:
  "case (checkPermission rule_reading_engine (\<lambda>_ _ _. Inr None) ''bash'' [] (sample_context ModeDefault []) (Some ''core''),
         checkPermission rule_reading_engine (\<lambda>_ _ _. Inr None) ''bash'' [] (applyPermissionUpdate (sample_context ModeDefault [])
           (AddRules SrcGlobal [] [sample_value ''bash'' None] Deny)) (Some ''core'')) of
     (Inr x, Inr y) \<Rightarrow> d_behavior (snd x) = Allow \<and> d_behavior (snd y) = Deny \<and> d_behavior (snd x) \<le> d_behavior (snd y)
   | _ \<Rightarrow> False"
proof -
  let ?u = "\<lambda>_ _ _. Inr None" and ?c = "sample_context ModeDefault []"
  let ?c' = "applyPermissionUpdate ?c (AddRules SrcGlobal [] [sample_value ''bash'' None] Deny)"
  have "checker_strictness (run_checker rule_reading_engine ?u ''bash'' [] ?c) \<le>
      checker_strictness (run_checker rule_reading_engine ?u ''bash'' [] ?c')" by code_simp
  from deny_and_ask_rules_only_tighten [OF _ refl this, of "Some ''core''"]
  have "case (checkPermission rule_reading_engine ?u ''bash'' [] ?c (Some ''core''), checkPermission rule_reading_engine ?u ''bash'' [] ?c' (Some ''core'')) of
      (Inl x, Inl y) \<Rightarrow> x = y | (Inr x, Inr y) \<Rightarrow> d_behavior (snd x) \<le> d_behavior (snd y) | _ \<Rightarrow> False" by simp
  moreover have "case checkPermission rule_reading_engine ?u ''bash'' [] ?c (Some ''core'') of Inr x \<Rightarrow> d_behavior (snd x) = Allow | _ \<Rightarrow> False"
    "case checkPermission rule_reading_engine ?u ''bash'' [] ?c' (Some ''core'') of Inr x \<Rightarrow> d_behavior (snd x) = Deny | _ \<Rightarrow> False"
    by code_simp+
  ultimately show ?thesis by (auto split: sum.splits)
qed

text \<open>adding allow rules never makes a decision stricter, and never changes a decision that a deny, an ask rule
  or another mandatory ask has made.\<close>

theorem allow_rules_never_override:
  "d_behavior (core_decide t i (applyPermissionUpdate ctx (AddRules s dest vs Allow)) registered res err) \<le>
     d_behavior (core_decide t i ctx registered res err) \<and>
   (f_deny (facts t i ctx registered res err) \<or> f_ask (facts t i ctx registered res err) \<longrightarrow>
     d_behavior (core_decide t i (applyPermissionUpdate ctx (AddRules s dest vs Allow)) registered res err) =
       d_behavior (core_decide t i ctx registered res err) \<and>
     d_behavior (engine_decide t i (applyPermissionUpdate ctx (AddRules s dest vs Allow)) registered res err) =
       d_behavior (engine_decide t i ctx registered res err))"
proof -
  obtain new where new: "push_rules s Allow (c_rules ctx) vs = c_rules ctx @ new" "list_all (in_layer s Allow) new"
    using push_rules_extends by blast
  then have "list_all (\<lambda>r. r_ruleBehavior r = Allow) new" by (simp add: list_all_iff)
  note core_policy.looser_rules [OF this, of t i ctx registered res err]
    engine_policy.looser_rules [OF this, of t i ctx registered res err]
  with new(1) show ?thesis by (simp add: addRules_def cloneContextWith_rules_only)
qed

theorem allow_rules_never_override_witness:
  "d_behavior (core_decide ''bash'' [] (applyPermissionUpdate (sample_context ModeDefault
       [\<lparr>r_source = SrcGlobal, r_ruleBehavior = Deny, r_ruleValue = sample_value ''bash'' None\<rparr>])
     (AddRules SrcSession [] [sample_value ''bash'' None] Allow)) True None None) = Deny"
proof -
  let ?ctx = "sample_context ModeDefault
    [\<lparr>r_source = SrcGlobal, r_ruleBehavior = Deny, r_ruleValue = sample_value ''bash'' None\<rparr>]"
  have w: "whole_rule ?ctx ''bash'' Deny"
    by (simp add: whole_rule_def sample_context_def createToolPermissionContext_def sample_value_def nullish_def truthy_str_def)
  then have "f_deny (facts ''bash'' [] ?ctx True None None)" "d_behavior (core_decide ''bash'' [] ?ctx True None None) = Deny"
    by (simp_all add: decide_verdict verdict_def facts_def)
  with allow_rules_never_override [of "''bash''" "[]" ?ctx SrcSession "[]" "[sample_value ''bash'' None]" True None None]
  show ?thesis by simp
qed

text \<open>a call that is allowed although its checker gave a verdict runs with the input the checker rewrote: no
  allow path drops a safety rewrite.\<close>

theorem allowed_calls_keep_the_rewrite:
  assumes "run_checker e u t i ctx = (Some r, err)" "t_behavior r \<noteq> Passthrough"
  shows "(d_behavior (snd (checkPermissionWithEngine e u t i ctx)) = Allow \<longrightarrow>
      d_rewrittenInput (snd (checkPermissionWithEngine e u t i ctx)) = t_rewrittenInput r) \<and>
    (d_behavior (snd (checkPermissionWithCore e u t i ctx)) = Allow \<longrightarrow>
      d_rewrittenInput (snd (checkPermissionWithCore e u t i ctx)) = t_rewrittenInput r)"
  unfolding check_decisions assms(1) prod.case
  using core_policy.rewrite_law [OF _ refl assms(2)] engine_policy.rewrite_law [OF _ refl assms(2)] by blast

theorem allowed_calls_keep_the_rewrite_witness:
  "d_rewrittenInput (snd (checkPermissionWithCore sample_engine (\<lambda>t i c. Inr None) ''bash'' []
     (sample_context ModeBypassPermissions []))) = Some [(''command'', JStr ''trash x'')]"
proof -
  let ?ctx = "sample_context ModeBypassPermissions []"
  let ?r = "sample_result (Verdict Allow) (Some [(''command'', JStr ''trash x'')])"
  have run: "run_checker sample_engine (\<lambda>t i c. Inr None) ''bash'' [] ?ctx = (Some ?r, None)"
    by (simp add: run_checker_def sample_engine_def registerToolPermissionChecker_def new_engine_def)
  have "d_behavior (snd (checkPermissionWithCore sample_engine (\<lambda>t i c. Inr None) ''bash'' [] ?ctx)) = Allow"
    unfolding check_decisions run prod.case decide_verdict
    by (simp add: verdict_def facts_def sample_context_def createToolPermissionContext_def whole_rule_def mcp_rule_def
        content_ask_def isInteractiveTool_def isBypassMode_def checker_says_def sample_result_def nullish_def
        truthy_str_def split: option.split)
  with allowed_calls_keep_the_rewrite [OF run] show ?thesis by (simp add: sample_result_def)
qed

text \<open>a checker that throws an error with a non-empty message never leads to an allow, in any mode; but an error
  whose message is empty is taken for no error, and for a tool without a registered checker the call is then
  allowed by default.\<close>

theorem failed_checker_never_allows_if_it_has_a_message:
  "(snd (run_checker e u t i ctx) = Some msg \<and> msg \<noteq> [] \<longrightarrow>
     d_behavior (snd (checkPermissionWithEngine e u t i ctx)) \<noteq> Allow \<and>
     d_behavior (snd (checkPermissionWithCore e u t i ctx)) \<noteq> Allow) \<and>
   d_behavior (snd (checkPermissionWithCore new_engine (\<lambda>t i c. Inl []) ''web'' [] (sample_context ModeDefault []))) = Allow"
proof (intro conjI impI)
  assume "snd (run_checker e u t i ctx) = Some msg \<and> msg \<noteq> []"
  then obtain res where run: "run_checker e u t i ctx = (res, Some msg)" "truthy_str (Some msg)"
    by (cases "run_checker e u t i ctx") (simp add: truthy_str_def)
  then show "d_behavior (snd (checkPermissionWithEngine e u t i ctx)) \<noteq> Allow"
    "d_behavior (snd (checkPermissionWithCore e u t i ctx)) \<noteq> Allow"
    unfolding check_decisions run(1) prod.case
    by (simp_all add: core_policy.checker_error_never_allows engine_policy.checker_error_never_allows)
next
  have run: "run_checker new_engine (\<lambda>t i c. Inl []) ''web'' [] (sample_context ModeDefault []) = (None, Some [])"
    by (simp add: run_checker_def new_engine_def)
  show "d_behavior (snd (checkPermissionWithCore new_engine (\<lambda>t i c. Inl []) ''web'' [] (sample_context ModeDefault []))) = Allow"
    unfolding check_decisions run prod.case decide_verdict
    by (simp add: verdict_def facts_def sample_context_def createToolPermissionContext_def whole_rule_def mcp_rule_def
        content_ask_def isInteractiveTool_def isBypassMode_def new_engine_def nullish_def truthy_str_def
        split: option.split)
qed

theorem failed_checker_never_allows_if_it_has_a_message_witness:
  "d_behavior (snd (checkPermissionWithCore new_engine (\<lambda>t i c. Inl ''boom'') ''web'' []
     (sample_context ModeBypassPermissions []))) \<noteq> Allow"
  using failed_checker_never_allows_if_it_has_a_message [of new_engine "\<lambda>t i c. Inl ''boom''" "''web''" "[]"
      "sample_context ModeBypassPermissions []" "''boom''"]
  by (simp add: run_checker_def new_engine_def)

end
