(* ===== verification/Runaway_Fingerprint.thy ===== *)
theory Runaway_Fingerprint
  imports Bari_Prelude "HOL-Library.Multiset"
begin

text \<open>
  The bounded stable serialisation of \<^verbatim>\<open>packages/agent-modules/runaway-guard/src/fingerprint.ts\<close>.  The
  keyed hash (\<^verbatim>\<open>createHmac('sha256', secret)\<close> of Node's crypto module) is an argument \<open>hmac\<close> of the
  definitions that use it.  A string of the model has code units below 256, so its UTF-8 length is one
  byte per code unit below 128 and two per other.
\<close>

section \<open>JSON text of scalars\<close>

definition hex_lower :: "nat \<Rightarrow> char" where
  "hex_lower d = ''0123456789abcdef'' ! d"

definition json_escape_char :: "char \<Rightarrow> string" where
  "json_escape_char c =
     (let n = (of_char c :: nat) in
      if n = 34 then [CHR 0x5C, CHR 0x22]
      else if n = 92 then [CHR 0x5C, CHR 0x5C]
      else if n = 8 then [CHR 0x5C, CHR ''b'']
      else if n = 9 then [CHR 0x5C, CHR ''t'']
      else if n = 10 then [CHR 0x5C, CHR ''n'']
      else if n = 12 then [CHR 0x5C, CHR ''f'']
      else if n = 13 then [CHR 0x5C, CHR ''r'']
      else if n < 32 then [CHR 0x5C, CHR ''u'', CHR ''0'', CHR ''0'', hex_lower (n div 16), hex_lower (n mod 16)]
      else [c])"

definition json_string :: "string \<Rightarrow> string" where
  "json_string s = dquoted (concat (map json_escape_char s))"

definition json_bool :: "bool \<Rightarrow> string" where
  "json_bool b = (if b then ''true'' else ''false'')"

definition char_bytes :: "char \<Rightarrow> nat" where
  "char_bytes c = (if (of_char c :: nat) < 128 then 1 else 2)"

definition byte_length :: "string \<Rightarrow> nat" where
  "byte_length s = sum_list (map char_bytes s)"

section \<open>The bounded writer\<close>

definition DEFAULT_MAX_FINGERPRINT_BYTES :: nat where
  "DEFAULT_MAX_FINGERPRINT_BYTES = 16 * 1024"

definition MAX_SERIALIZE_DEPTH :: nat where
  "MAX_SERIALIZE_DEPTH = 32"

record BoundedWriter =
  w_bytes :: nat
  w_parts :: "string list"
  w_maxBytes :: nat

definition new_writer :: "nat \<Rightarrow> BoundedWriter" where
  "new_writer maxBytes = \<lparr>w_bytes = 0, w_parts = [], w_maxBytes = maxBytes\<rparr>"

definition writer_append :: "string \<Rightarrow> BoundedWriter \<Rightarrow> BoundedWriter \<times> bool" where
  "writer_append part w =
     (let bytes = w_bytes w + byte_length part;
          w' = w\<lparr>w_bytes := bytes\<rparr>
      in if bytes > w_maxBytes w then (w', False) else (w'\<lparr>w_parts := w_parts w @ [part]\<rparr>, True))"

definition writer_finish :: "BoundedWriter \<Rightarrow> string option" where
  "writer_finish w = (if w_bytes w \<le> w_maxBytes w then Some (concat (w_parts w)) else None)"

text \<open>\<^verbatim>\<open>if (ok) ok = ...\<close>: the next write happens only if the previous one succeeded.\<close>

definition and_then :: "BoundedWriter \<times> bool \<Rightarrow> (BoundedWriter \<Rightarrow> BoundedWriter \<times> bool) \<Rightarrow> BoundedWriter \<times> bool" where
  "and_then r f = (case r of (w, ok) \<Rightarrow> if ok then f w else (w, False))"

lemma and_then_cong [fundef_cong]:
  "r = r' \<Longrightarrow> (\<And>w. r' = (w, True) \<Longrightarrow> f w = g w) \<Longrightarrow> and_then r f = and_then r' g"
  by (auto simp: and_then_def split: prod.splits)

definition seen_has :: "nat option \<Rightarrow> nat set \<Rightarrow> bool" where
  "seen_has i seen = (case i of Some k \<Rightarrow> k \<in> seen | None \<Rightarrow> False)"

definition seen_add :: "nat option \<Rightarrow> nat set \<Rightarrow> nat set" where
  "seen_add i seen = (case i of Some k \<Rightarrow> insert k seen | None \<Rightarrow> seen)"

text \<open>The loop that collects the own keys: at most 1024 of them, none too long.\<close>

definition keys_ok :: "js_record \<Rightarrow> bool" where
  "keys_ok fs = (length fs \<le> 1024 \<and> list_all (\<lambda>k. length k \<le> DEFAULT_MAX_FINGERPRINT_BYTES) (keys fs))"

text \<open>\<^verbatim>\<open>keys.sort()\<close> and the reads \<^verbatim>\<open>value[key]\<close>: the fields in the order of their keys.\<close>

definition sorted_fields :: "js_record \<Rightarrow> js_record" where
  "sorted_fields fs = sort_key fst fs"

lemma size_sorted_fields: "size_list g (sorted_fields fs) = size_list g fs"
  by (simp add: sorted_fields_def size_list_conv_sum_list flip: sum_mset_sum_list)

lemma size_fields_le: "size_list (\<lambda>(k, v). size v) fs \<le> size_list (size_prod (\<lambda>x. 0) size) fs"
  by (induction fs) (auto split: prod.splits)

function (sequential)
  writeStableValue :: "jsval \<Rightarrow> nat set \<Rightarrow> nat \<Rightarrow> BoundedWriter \<Rightarrow> BoundedWriter \<times> bool" and
  writeStableArray :: "jsval list \<Rightarrow> bool \<Rightarrow> nat set \<Rightarrow> nat \<Rightarrow> BoundedWriter \<Rightarrow> BoundedWriter \<times> bool" and
  writeStableRecord :: "js_record \<Rightarrow> bool \<Rightarrow> nat set \<Rightarrow> nat \<Rightarrow> BoundedWriter \<Rightarrow> BoundedWriter \<times> bool" where
  "writeStableValue v seen depth w =
     (if depth > MAX_SERIALIZE_DEPTH then (w, False)
      else case v of
        JNull \<Rightarrow> writer_append ''null'' w
      | JBool b \<Rightarrow> writer_append (json_bool b) w
      | JNum n \<Rightarrow> (case n of NInt i \<Rightarrow> writer_append (show_int i) w | _ \<Rightarrow> (w, False))
      | JStr s \<Rightarrow> if length s > DEFAULT_MAX_FINGERPRINT_BYTES then (w, False) else writer_append (json_string s) w
      | JArr i vs \<Rightarrow>
          if seen_has i seen then (w, False)
          else and_then (and_then (writer_append ''['' w) (writeStableArray vs True (seen_add i seen) depth))
                 (writer_append '']'')
      | JObj i plain fs \<Rightarrow>
          if \<not> plain then (w, False)
          else if seen_has i seen then (w, False)
          else if \<not> keys_ok fs then (w, False)
          else and_then (and_then (writer_append ''{'' w)
                 (writeStableRecord (sorted_fields fs) True (seen_add i seen) depth)) (writer_append ''}'')
      | JUndefined \<Rightarrow> (w, False)
      | JOther \<Rightarrow> (w, False))"
| "writeStableArray [] fst_elem seen depth w = (w, True)"
| "writeStableArray (v # vs) fst_elem seen depth w =
     and_then (and_then (if fst_elem then (w, True) else writer_append '','' w) (writeStableValue v seen (depth + 1)))
       (writeStableArray vs False seen depth)"
| "writeStableRecord [] fst_elem seen depth w = (w, True)"
| "writeStableRecord ((k, v) # fs) fst_elem seen depth w =
     and_then (and_then (and_then (and_then (if fst_elem then (w, True) else writer_append '','' w)
       (writer_append (json_string k))) (writer_append '':'')) (writeStableValue v seen (depth + 1)))
       (writeStableRecord fs False seen depth)"
  by pat_completeness auto

termination
proof (relation "measure (\<lambda>x. case x of
     Inl (v, _) \<Rightarrow> size v
   | Inr (Inl (vs, _)) \<Rightarrow> size_list size vs
   | Inr (Inr (fs, _)) \<Rightarrow> size_list (\<lambda>(k, v). size v) fs)", goal_cases)
  case 1
  show ?case by simp
next
  case (3 v seen depth w i plain fs)
  then show ?case using size_fields_le [of fs] by (simp add: size_sorted_fields)
qed auto

declare writeStableValue.simps [simp del]

definition stableSerializeWithinBudget :: "jsval \<Rightarrow> nat \<Rightarrow> string option" where
  "stableSerializeWithinBudget v maxBytes =
     (case writeStableValue v {} 0 (new_writer maxBytes) of
        (w, ok) \<Rightarrow> if ok then writer_finish w else None)"

type_synonym Hmac = "string \<Rightarrow> string \<Rightarrow> string"

definition fingerprint :: "Hmac \<Rightarrow> string \<Rightarrow> string \<Rightarrow> string" where
  "fingerprint hmac secret v = hmac secret v"

definition fingerprintWithinBudget :: "Hmac \<Rightarrow> string \<Rightarrow> jsval \<Rightarrow> nat \<Rightarrow> string option" where
  "fingerprintWithinBudget hmac secret v maxBytes =
     map_option (fingerprint hmac secret) (stableSerializeWithinBudget v maxBytes)"

definition isRecord :: "jsval \<Rightarrow> bool" where
  "isRecord v = (case v of JObj _ _ _ \<Rightarrow> True | _ \<Rightarrow> False)"

text \<open>The numeric options: \<open>Inl\<close> is the thrown error's message.\<close>

definition positiveInteger :: "jsnum \<Rightarrow> string \<Rightarrow> string + nat" where
  "positiveInteger v field =
     (case v of
        NInt i \<Rightarrow> if i \<le> 0 then Inl (''runawayGuardShadowExtension: '' @ field @ '' must be a positive integer'')
                  else Inr (nat i)
      | _ \<Rightarrow> Inl (''runawayGuardShadowExtension: '' @ field @ '' must be a positive integer''))"

section \<open>What is written\<close>

text \<open>The canonical text of a value, and the values that have one.\<close>

lemma set_sorted_fields [simp]: "set (sorted_fields fs) = set fs"
  by (simp add: sorted_fields_def)

lemma size_field: "p \<in> set fs \<Longrightarrow> size (snd p) < Suc (size_list (size_prod (\<lambda>x. 0) size) fs)"
  by (induction fs) (auto simp: size_prod_def split: prod.splits)

lemma size_elem: "v \<in> set vs \<Longrightarrow> size v < Suc (size_list size vs)"
  by (induction vs) auto

function enc :: "jsval \<Rightarrow> string" where
  "enc JNull = ''null''"
| "enc (JBool b) = json_bool b"
| "enc (JNum n) = (case n of NInt i \<Rightarrow> show_int i | _ \<Rightarrow> [])"
| "enc (JStr s) = json_string s"
| "enc (JArr i vs) = ''['' @ js_join '','' (map enc vs) @ '']''"
| "enc (JObj i plain fs) =
     ''{'' @ js_join '','' (map (\<lambda>p. json_string (fst p) @ '':'' @ enc (snd p)) (sorted_fields fs)) @ ''}''"
| "enc JUndefined = []"
| "enc JOther = []"
  by pat_completeness auto
termination by (relation "measure size") (auto simp: size_field size_elem)

function ser_ok :: "jsval \<Rightarrow> bool" where
  "ser_ok JNull = True"
| "ser_ok (JBool b) = True"
| "ser_ok (JNum n) = (case n of NInt i \<Rightarrow> True | _ \<Rightarrow> False)"
| "ser_ok (JStr s) = True"
| "ser_ok (JArr i vs) = list_all ser_ok vs"
| "ser_ok (JObj i plain fs) = (plain \<and> list_all (\<lambda>p. ser_ok (snd p)) fs)"
| "ser_ok JUndefined = False"
| "ser_ok JOther = False"
  by pat_completeness auto
termination by (relation "measure size") (auto simp: size_field size_elem)

definition wrote :: "BoundedWriter \<Rightarrow> string \<Rightarrow> BoundedWriter \<Rightarrow> bool" where
  "wrote w s w' \<longleftrightarrow> w_bytes w' = w_bytes w + byte_length s \<and> concat (w_parts w') = concat (w_parts w) @ s \<and>
     w_maxBytes w' = w_maxBytes w \<and> (s \<noteq> [] \<longrightarrow> w_bytes w' \<le> w_maxBytes w')"

lemma byte_length_append [simp]: "byte_length (a @ b) = byte_length a + byte_length b" "byte_length [] = 0"
  by (simp_all add: byte_length_def)

lemma wrote_refl [simp]: "wrote w [] w"
  by (simp add: wrote_def)

lemma wrote_trans: "wrote a s b \<Longrightarrow> wrote b t c \<Longrightarrow> wrote a (s @ t) c"
  by (auto simp: wrote_def)

lemma append_wrote: "writer_append s w = (w', True) \<Longrightarrow> wrote w s w'"
  by (auto simp: writer_append_def wrote_def Let_def split: if_splits)

lemma and_then_True: "and_then r f = (w', True) \<Longrightarrow> \<exists>w. r = (w, True) \<and> f w = (w', True)"
  by (auto simp: and_then_def split: prod.splits if_splits)

lemma sep_wrote:
  "(if b then (w, True) else writer_append '','' w) = (w', True) \<Longrightarrow> wrote w (if b then [] else '','') w'"
  by (auto split: if_splits dest: append_wrote)

definition sep_join :: "bool \<Rightarrow> string list \<Rightarrow> string" where
  "sep_join b xs = (if b then js_join '','' xs else concat (map (\<lambda>x. '','' @ x) xs))"

lemma sep_join_Cons: "sep_join b (x # xs) = (if b then [] else '','') @ x @ sep_join False xs" "sep_join b [] = []"
proof -
  have "((@) '','') = (#) CHR '',''" by (simp add: fun_eq_iff)
  then show "sep_join b (x # xs) = (if b then [] else '','') @ x @ sep_join False xs" "sep_join b [] = []"
    by (simp_all add: sep_join_def js_join_def)
qed

lemma write_spec:
  "writeStableValue v seen depth w = (w', True) \<Longrightarrow> wrote w (enc v) w' \<and> ser_ok v"
  "writeStableArray vs b seen depth w = (w', True) \<Longrightarrow> wrote w (sep_join b (map enc vs)) w' \<and> list_all ser_ok vs"
  "writeStableRecord fs b seen depth w = (w', True) \<Longrightarrow>
     wrote w (sep_join b (map (\<lambda>p. json_string (fst p) @ '':'' @ enc (snd p)) fs)) w' \<and> list_all (\<lambda>p. ser_ok (snd p)) fs"
proof (induction v seen depth w and vs b seen depth w and fs b seen depth w arbitrary: w' and w' and w'
    rule: writeStableValue_writeStableArray_writeStableRecord.induct)
  case (1 v seen depth w)
  note eq = "1.prems" [unfolded writeStableValue.simps [of v]]
  then have d: "\<not> MAX_SERIALIZE_DEPTH < depth" by (auto split: if_splits)
  show ?case
  proof (cases v)
    case (JArr i vs)
    with eq d have ns: "\<not> seen_has i seen" by (auto split: if_splits)
    with eq d JArr obtain w1 w2 where "writer_append ''['' w = (w1, True)"
      "writeStableArray vs True (seen_add i seen) depth w1 = (w2, True)" "writer_append '']'' w2 = (w', True)"
      by (auto dest!: and_then_True)
    moreover from this have "wrote w1 (sep_join True (map enc vs)) w2 \<and> list_all ser_ok vs"
      using "1.IH"(1) [OF d JArr ns] by blast
    ultimately show ?thesis
      using wrote_trans [OF append_wrote [of "''[''" w w1], of "sep_join True (map enc vs)" w2] append_wrote [of "'']''" w2 w']
        wrote_trans [of w "''['' @ sep_join True (map enc vs)" w2 "'']''" w'] JArr by (simp add: sep_join_def)
  next
    case (JObj i plain fs)
    with eq d have ns: "plain" "\<not> seen_has i seen" "keys_ok fs" by (auto split: if_splits)
    let ?fs = "sorted_fields fs"
    let ?t = "sep_join True (map (\<lambda>p. json_string (fst p) @ '':'' @ enc (snd p)) ?fs)"
    from eq d JObj ns obtain w1 w2 where "writer_append ''{'' w = (w1, True)"
      "writeStableRecord ?fs True (seen_add i seen) depth w1 = (w2, True)" "writer_append ''}'' w2 = (w', True)"
      by (auto dest!: and_then_True)
    moreover from this have "wrote w1 ?t w2 \<and> list_all (\<lambda>p. ser_ok (snd p)) ?fs"
      using "1.IH"(2) [OF d JObj] ns by blast
    ultimately show ?thesis
      using wrote_trans [OF append_wrote [of "''{''" w w1], of ?t w2] append_wrote [of "''}''" w2 w']
        wrote_trans [of w "''{'' @ ?t" w2 "''}''" w'] JObj ns by (simp add: sep_join_def list_all_iff)
  qed (use eq d in \<open>auto split: if_splits jsnum.splits dest: append_wrote\<close>)
next
  case (2 b seen depth w)
  then show ?case by (simp add: sep_join_Cons)
next
  case (3 v vs b seen depth w)
  from "3.prems" obtain w1 w2 where w: "(if b then (w, True) else writer_append '','' w) = (w1, True)"
    "writeStableValue v seen (depth + 1) w1 = (w2, True)" "writeStableArray vs False seen depth w2 = (w', True)"
    by (auto dest!: and_then_True)
  from sep_wrote [OF w(1)] "3.IH"(1) [OF w(1,2)] "3.IH"(2) [of w2, OF _ w(3)] w show ?case
    using wrote_trans by (fastforce simp: sep_join_Cons and_then_def)
next
  case (4 b seen depth w)
  then show ?case by (simp add: sep_join_Cons)
next
  case (5 k v fs b seen depth w)
  from "5.prems" obtain w1 w2 w3 w4 where w: "(if b then (w, True) else writer_append '','' w) = (w1, True)"
    "writer_append (json_string k) w1 = (w2, True)" "writer_append '':'' w2 = (w3, True)"
    "writeStableValue v seen (depth + 1) w3 = (w4, True)" "writeStableRecord fs False seen depth w4 = (w', True)"
    by (auto dest!: and_then_True)
  have v: "wrote w3 (enc v) w4 \<and> ser_ok v" "wrote w4 (sep_join False (map (\<lambda>p. json_string (fst p) @ '':'' @ enc (snd p)) fs)) w' \<and>
      list_all (\<lambda>p. ser_ok (snd p)) fs"
    using "5.IH" w by (simp_all add: and_then_def)
  from wrote_trans [OF sep_wrote [OF w(1)] wrote_trans [OF append_wrote [OF w(2)] wrote_trans [OF append_wrote [OF w(3)]
      wrote_trans [OF v(1) [THEN conjunct1] v(2) [THEN conjunct1]]]]] v
  show ?case by (simp add: sep_join_Cons)
qed

section \<open>The text determines the value\<close>

text \<open>A value up to object identity and the order of keys.\<close>

function canon :: "jsval \<Rightarrow> jsval" where
  "canon (JArr i vs) = JArr None (map canon vs)"
| "canon (JObj i plain fs) = JObj None plain (map (\<lambda>p. (fst p, canon (snd p))) (sorted_fields fs))"
| "canon JUndefined = JUndefined"
| "canon JNull = JNull"
| "canon (JBool b) = JBool b"
| "canon (JNum n) = JNum n"
| "canon (JStr s) = JStr s"
| "canon JOther = JOther"
  by pat_completeness auto
termination by (relation "measure size") (auto simp: size_field size_elem)

subsection \<open>Strings\<close>

definition hex_value :: "char \<Rightarrow> nat" where
  "hex_value c = (let n = of_char c in if n < 58 then n - 48 else n - 87)"

lemma hex_value_lower: "d < 16 \<Longrightarrow> hex_value (hex_lower d) = d"
proof -
  assume "d < 16"
  then have "d \<in> set [0..<16]" by simp
  then show ?thesis by (auto simp: hex_value_def hex_lower_def upt_rec numeral_eq_Suc Let_def)
qed

definition unescape :: "string \<Rightarrow> char \<times> string" where
  "unescape s =
     (case s of
        a # r \<Rightarrow>
          if a \<noteq> CHR 0x5C then (a, r)
          else (case r of
            b # r' \<Rightarrow>
              if b = CHR ''b'' then (char_of (8 :: nat), r') else if b = CHR ''t'' then (char_of (9 :: nat), r')
              else if b = CHR ''n'' then (char_of (10 :: nat), r') else if b = CHR ''f'' then (char_of (12 :: nat), r')
              else if b = CHR ''r'' then (char_of (13 :: nat), r')
              else if b = CHR ''u'' then (char_of (16 * hex_value (r' ! 2) + hex_value (r' ! 3)), drop 4 r')
              else (b, r')
          | [] \<Rightarrow> (a, r))
      | [] \<Rightarrow> (CHR 0x22, []))"

lemma unescape_escape: "unescape (json_escape_char c @ s) = (c, s)"
proof -
  let ?n = "of_char c :: nat"
  have c: "c = char_of ?n" by simp
  have h: "hex_value (hex_lower (?n div 16)) = ?n div 16" "hex_value (hex_lower (?n mod 16)) = ?n mod 16" if "?n < 32"
    using that by (auto intro: hex_value_lower)
  consider "?n = 34" | "?n = 92" | "?n = 8" | "?n = 9" | "?n = 10" | "?n = 12" | "?n = 13"
    | "?n < 32" "?n \<noteq> 8" "?n \<noteq> 9" "?n \<noteq> 10" "?n \<noteq> 12" "?n \<noteq> 13" | "?n \<ge> 32" "?n \<noteq> 34" "?n \<noteq> 92"
    by linarith
  then show ?thesis
  proof cases
    case 1
    then have "c = CHR 0x22" using of_char_eq_iff [of c "CHR 0x22", where 'a = nat] by simp
    then show ?thesis by (simp add: json_escape_char_def unescape_def)
  next
    case 2
    then have "c = CHR 0x5C" using of_char_eq_iff [of c "CHR 0x5C", where 'a = nat] by simp
    then show ?thesis by (simp add: json_escape_char_def unescape_def)
  next
    case 8
    then show ?thesis
      using h by (simp add: json_escape_char_def unescape_def Let_def numeral_2_eq_2 numeral_3_eq_3)
  next
    case 9
    then have "c \<noteq> CHR 0x5C" by auto
    with 9 show ?thesis by (simp add: json_escape_char_def unescape_def Let_def)
  qed (subst (2) c, simp add: json_escape_char_def unescape_def Let_def)+
qed

lemma escape_no_quote: "json_escape_char c @ s \<noteq> CHR 0x22 # t"
  by (auto simp: json_escape_char_def Let_def)

lemma escaped_inj:
  "concat (map json_escape_char a) @ CHR 0x22 # r = concat (map json_escape_char b) @ CHR 0x22 # r' \<Longrightarrow> a = b \<and> r = r'"
proof (induction a arbitrary: b)
  case Nil
  show ?case
  proof (cases b)
    case Nil
    with Nil.prems show ?thesis by simp
  next
    case (Cons y b')
    with Nil.prems have "json_escape_char y @ concat (map json_escape_char b') @ CHR 0x22 # r' = CHR 0x22 # r" by simp
    with escape_no_quote show ?thesis by blast
  qed
next
  case (Cons x a)
  show ?case
  proof (cases b)
    case Nil
    with Cons.prems have "json_escape_char x @ concat (map json_escape_char a) @ CHR 0x22 # r = CHR 0x22 # r'" by simp
    with escape_no_quote show ?thesis by blast
  next
    case (Cons y b')
    let ?A = "concat (map json_escape_char a) @ CHR 0x22 # r" and ?B = "concat (map json_escape_char b') @ CHR 0x22 # r'"
    have "json_escape_char x @ ?A = json_escape_char y @ ?B" using Cons.prems Cons by simp
    then have "(x, ?A) = (y, ?B)" by (metis unescape_escape)
    with Cons.IH [of b'] Cons show ?thesis by simp
  qed
qed

lemma json_string_inj: "json_string a @ r = json_string b @ r' \<Longrightarrow> a = b \<and> r = r'"
  using escaped_inj [of a r b r'] by (simp add: json_string_def dquoted_def)

subsection \<open>Numbers\<close>

lemma digits_inj:
  assumes "list_all is_digit a" "list_all is_digit b" "a @ r = b @ r'"
    and "r = [] \<or> \<not> is_digit (hd r)" "r' = [] \<or> \<not> is_digit (hd r')"
  shows "a = b \<and> r = r'"
proof -
  have "takeWhile is_digit (x @ y) = x" if "list_all is_digit x" "y = [] \<or> \<not> is_digit (hd y)" for x y
    using that by (cases y) (auto simp: list_all_iff takeWhile_append)
  with assms have "a = b" by metis
  with assms(3) show ?thesis by simp
qed

lemma show_nat_hd: "\<exists>c t. show_nat n = c # t \<and> is_digit c"
  using show_nat_digits [of n] show_nat_nonempty [of n] by (cases "show_nat n") auto

lemma show_int_inj:
  assumes "show_int i @ r = show_int j @ r'" "r = [] \<or> \<not> is_digit (hd r)" "r' = [] \<or> \<not> is_digit (hd r')"
  shows "i = j \<and> r = r'"
proof -
  have minus: "\<not> is_digit (CHR ''-'')" by (simp add: is_digit_def)
  have sign: "(i < 0) = (j < 0)"
    using assms(1) show_nat_hd [of "nat i"] show_nat_hd [of "nat j"] minus
    by (cases "i < 0"; cases "j < 0") (auto simp: show_int_def)
  show ?thesis
  proof (cases "i < 0")
    case True
    with sign assms have "show_nat (nat (- i)) @ r = show_nat (nat (- j)) @ r'" by (simp add: show_int_def)
    with digits_inj [OF show_nat_digits show_nat_digits this assms(2,3)] show_nat_inj True sign show ?thesis
      by (metis neg_less_0_iff_less nat_eq_iff2 neg_equal_iff_equal order_less_imp_le neg_0_le_iff_le)
  next
    case False
    with sign assms have "show_nat (nat i) @ r = show_nat (nat j) @ r'" by (simp add: show_int_def)
    with digits_inj [OF show_nat_digits show_nat_digits this assms(2,3)] show_nat_inj False sign show ?thesis
      by (metis eq_nat_nat_iff not_less)
  qed
qed

subsection \<open>Values\<close>

definition delim_char :: "char \<Rightarrow> bool" where
  "delim_char c = (c = CHR '','' \<or> c = CHR '']'' \<or> c = CHR ''}'')"

definition delim :: "string \<Rightarrow> bool" where
  "delim r = (case r of [] \<Rightarrow> True | c # _ \<Rightarrow> delim_char c)"

lemma delim_not_digit: "delim r \<Longrightarrow> r = [] \<or> \<not> is_digit (hd r)"
  by (auto simp: delim_def delim_char_def is_digit_def split: list.splits)

text \<open>The first character tells the kind of value.\<close>

definition char_class :: "char \<Rightarrow> nat" where
  "char_class c =
     (if c = CHR ''n'' then 1 else if c = CHR ''t'' \<or> c = CHR ''f'' then 2 else if c = CHR ''-'' \<or> is_digit c then 3
      else if c = CHR 0x22 then 4 else if c = CHR ''['' then 5 else if c = CHR ''{'' then 6 else 0)"

fun value_class :: "jsval \<Rightarrow> nat" where
  "value_class JNull = 1"
| "value_class (JBool _) = 2"
| "value_class (JNum _) = 3"
| "value_class (JStr _) = 4"
| "value_class (JArr _ _) = 5"
| "value_class (JObj _ _ _) = 6"
| "value_class _ = 0"

lemma show_int_class: "\<exists>c t. show_int i = c # t \<and> char_class c = 3"
proof (cases "i < 0")
  case True
  then show ?thesis by (simp add: show_int_def char_class_def)
next
  case False
  obtain c t where "show_nat (nat i) = c # t" "is_digit c" using show_nat_hd by blast
  with False show ?thesis by (auto simp: show_int_def char_class_def is_digit_def)
qed

lemma enc_class: "ser_ok v \<Longrightarrow> \<exists>c t. enc v = c # t \<and> char_class c = value_class v \<and> value_class v \<noteq> 0"
proof (cases v)
  case (JNum n)
  moreover assume "ser_ok v"
  ultimately obtain i where "v = JNum (NInt i)" by (cases n) auto
  with show_int_class [of i] show ?thesis by auto
next
  case (JBool b)
  then show ?thesis by (cases b) (simp_all add: json_bool_def char_class_def)
qed (simp_all add: json_string_def dquoted_def char_class_def is_digit_def)

lemma same_class: "ser_ok v \<Longrightarrow> ser_ok v' \<Longrightarrow> enc v @ r = enc v' @ r' \<Longrightarrow> value_class v' = value_class v"
  using enc_class [of v] enc_class [of v'] by auto

lemma class_not_delim: "char_class c \<noteq> 0 \<Longrightarrow> \<not> delim_char c"
  by (auto simp: char_class_def delim_char_def is_digit_def split: if_splits)

lemma items_inj:
  assumes "\<And>x y s s'. x \<in> set xs \<Longrightarrow> y \<in> set ys \<Longrightarrow> delim s \<Longrightarrow> delim s' \<Longrightarrow> f x @ s = f y @ s' \<Longrightarrow> g x = g y \<and> s = s'"
    and "\<And>x. x \<in> set xs \<union> set ys \<Longrightarrow> \<exists>c t. f x = c # t \<and> \<not> delim_char c"
    and "delim_char q" "q \<noteq> CHR '',''"
    and "sep_join b (map f xs) @ q # r = sep_join b (map f ys) @ q # r'"
  shows "map g xs = map g ys \<and> r = r'"
  using assms
proof (induction xs arbitrary: ys b)
  case Nil
  show ?case
  proof (cases ys)
    case (Cons y ys')
    with Nil.prems(2) [of y] Nil.prems(3,4,5) show ?thesis by (auto simp: sep_join_Cons split: if_splits)
  qed (use Nil.prems(5) in \<open>simp add: sep_join_Cons\<close>)
next
  case (Cons x xs)
  obtain c t where c: "f x = c # t" "\<not> delim_char c" using Cons.prems(2) [of x] by auto
  show ?case
  proof (cases ys)
    case Nil
    with c Cons.prems(3,4,5) show ?thesis by (auto simp: sep_join_Cons split: if_splits)
  next
    case ys: (Cons y ys')
    let ?s = "sep_join False (map f xs) @ q # r" and ?s' = "sep_join False (map f ys') @ q # r'"
    have "delim (sep_join False (map f zs) @ q # u)" for zs u
      using Cons.prems(3) by (cases zs) (simp_all add: sep_join_Cons delim_def delim_char_def)
    moreover have "f x @ ?s = f y @ ?s'" using Cons.prems(5) ys by (simp add: sep_join_Cons split: if_splits)
    ultimately have "g x = g y \<and> ?s = ?s'" using Cons.prems(1) [of x y ?s ?s'] ys by simp
    moreover have "map g xs = map g ys' \<and> r = r'"
    proof (rule Cons.IH [of ys' False])
      show "g u = g z \<and> s = s'" if "u \<in> set xs" "z \<in> set ys'" "delim s" "delim s'" "f u @ s = f z @ s'" for u z s s'
        using that Cons.prems(1) [of u z s s'] ys by simp
    qed (use calculation Cons.prems(2,3,4) ys in auto)
    ultimately show ?thesis using ys by simp
  qed
qed

lemma enc_inj:
  "ser_ok v \<Longrightarrow> ser_ok v' \<Longrightarrow> delim r \<Longrightarrow> delim r' \<Longrightarrow> enc v @ r = enc v' @ r' \<Longrightarrow> canon v = canon v' \<and> r = r'"
proof (induction v arbitrary: v' r r')
  case (JArr i vs)
  have "value_class v' = 5"
    by (rule same_class [OF JArr.prems(1,2,5), simplified])
  then obtain i' vs' where v': "v' = JArr i' vs'" by (cases v') auto
  have "map canon vs = map canon vs' \<and> r = r'"
  proof (rule items_inj [where q = "CHR '']''" and b = True and f = enc])
    show "sep_join True (map enc vs) @ CHR '']'' # r = sep_join True (map enc vs') @ CHR '']'' # r'"
      using JArr.prems(5) v' by (simp add: sep_join_def)
    show "\<exists>c t. enc x = c # t \<and> \<not> delim_char c" if "x \<in> set vs \<union> set vs'" for x
      using that JArr.prems(1,2) v' enc_class [of x] class_not_delim by (fastforce simp: list_all_iff)
  qed (use JArr v' in \<open>auto simp: list_all_iff delim_char_def\<close>)
  with v' show ?case by simp
next
  case (JObj i plain fs)
  have "value_class v' = 6"
    by (rule same_class [OF JObj.prems(1,2,5), simplified])
  then obtain i' plain' fs' where v': "v' = JObj i' plain' fs'" by (cases v') auto
  let ?f = "\<lambda>p. json_string (fst p) @ '':'' @ enc (snd p)" and ?g = "\<lambda>p. (fst p, canon (snd p))"
  have "map ?g (sorted_fields fs) = map ?g (sorted_fields fs') \<and> r = r'"
  proof (rule items_inj [where q = "CHR ''}''" and b = True and f = ?f])
    show "sep_join True (map ?f (sorted_fields fs)) @ CHR ''}'' # r = sep_join True (map ?f (sorted_fields fs')) @ CHR ''}'' # r'"
      using JObj.prems(5) v' by (simp add: sep_join_def)
    show "\<exists>c t. ?f x = c # t \<and> \<not> delim_char c" for x
      by (simp add: json_string_def dquoted_def delim_char_def)
    fix x y s s'
    assume xy: "x \<in> set (sorted_fields fs)" "y \<in> set (sorted_fields fs')" "delim s" "delim s'" "?f x @ s = ?f y @ s'"
    then have "fst x = fst y \<and> enc (snd x) @ s = enc (snd y) @ s'"
      using json_string_inj [of "fst x" "'':'' @ enc (snd x) @ s" "fst y" "'':'' @ enc (snd y) @ s'"] by simp
    moreover have "ser_ok (snd x)" "ser_ok (snd y)" using xy JObj.prems(1,2) v' by (auto simp: list_all_iff)
    ultimately show "?g x = ?g y \<and> s = s'"
      using JObj.IH [of x "snd x" "snd y" s s'] xy by (simp add: prod_set_simps snds.simps)
  qed (auto simp: delim_char_def)
  with v' JObj.prems(1,2) show ?case by simp
next
  case (JNum n)
  have "value_class v' = 3"
    by (rule same_class [OF JNum.prems(1,2,5), simplified])
  then obtain n' where v': "v' = JNum n'" by (cases v') auto
  obtain i j where "n = NInt i" "n' = NInt j" using JNum.prems(1,2) v' by (cases n; cases n') auto
  with JNum v' show ?case
    using show_int_inj [of i r j r', OF _ delim_not_digit delim_not_digit] by simp
next
  case (JStr s)
  have "value_class v' = 4"
    by (rule same_class [OF JStr.prems(1,2,5), simplified])
  then obtain s' where "v' = JStr s'" by (cases v') auto
  with JStr.prems json_string_inj [of s r s' r'] show ?case by simp
next
  case (JBool b)
  have "value_class v' = 2"
    by (rule same_class [OF JBool.prems(1,2,5), simplified])
  then obtain b' where "v' = JBool b'" by (cases v') auto
  with JBool show ?case by (cases b; cases b') (auto simp: json_bool_def)
next
  case JNull
  have "value_class v' = 1"
    using same_class [OF JNull.prems(1,2,5)] by simp
  with JNull show ?case by (cases v') auto
qed simp_all

lemma sort_key_map_sorted: "sorted (map f xs) \<Longrightarrow> sort_key f xs = xs"
  by (induction xs) (auto simp: insort_is_Cons)

lemma sorted_fields_map: "sorted_fields (map (\<lambda>p. (fst p, g (snd p))) (sorted_fields fs)) =
    map (\<lambda>p. (fst p, g (snd p))) (sorted_fields fs)"
  unfolding sorted_fields_def by (rule sort_key_map_sorted) (simp add: comp_def)

lemma enc_canon: "enc (canon v) = enc v"
proof (induction v)
  case (JArr i vs)
  then have "map (\<lambda>x. enc (canon x)) vs = map enc vs" by simp
  then have "map (enc \<circ> canon) vs = map enc vs" by (simp add: comp_def)
  then show ?case by (simp only: canon.simps enc.simps map_map)
next
  case (JObj i plain fs)
  have "map (\<lambda>p. json_string (fst p) @ '':'' @ enc (canon (snd p))) (sorted_fields fs) =
      map (\<lambda>p. json_string (fst p) @ '':'' @ enc (snd p)) (sorted_fields fs)"
    using JObj by (intro map_cong) (auto simp: prod_set_simps snds.simps)
  then show ?case by (simp only: canon.simps enc.simps sorted_fields_map map_map comp_def fst_conv snd_conv)
qed simp_all

lemma serialize_spec:
  assumes "stableSerializeWithinBudget v n = Some t"
  shows "t = enc v" "ser_ok v" "byte_length t \<le> n"
proof -
  obtain w where w: "writeStableValue v {} 0 (new_writer n) = (w, True)" "writer_finish w = Some t"
    using assms by (auto simp: stableSerializeWithinBudget_def split: prod.splits if_splits)
  from write_spec(1) [OF w(1)] have s: "wrote (new_writer n) (enc v) w" "ser_ok v" by blast+
  from s w(2) show "t = enc v" "byte_length t \<le> n"
    by (auto simp: wrote_def new_writer_def writer_finish_def split: if_splits)
  show "ser_ok v" by (rule s(2))
qed

section \<open>Properties\<close>

text \<open>two values are serialised to the same text exactly when they are the same value up to object identity and
  the order of keys, and the text never exceeds the byte budget: the guard takes two calls for the same only
  if they are the same, up to a collision of the keyed hash.\<close>

theorem serialisation_identifies_values:
  assumes "stableSerializeWithinBudget v n = Some t" "stableSerializeWithinBudget v' n' = Some t'"
  shows "(t = t' \<longleftrightarrow> canon v = canon v') \<and> byte_length t \<le> n"
  using serialize_spec [OF assms(1)] serialize_spec [OF assms(2)] enc_inj [of v v' "[]" "[]"] enc_canon [of v] enc_canon [of v']
  by (auto simp: delim_def)

theorem serialisation_identifies_values_witness:
  "canon (JObj (Some 1) True [(''b'', JNull), (''a'', JNum (NInt 7))]) =
   canon (JObj (Some 2) True [(''a'', JNum (NInt 7)), (''b'', JNull)])"
proof -
  have "stableSerializeWithinBudget (JObj (Some 1) True [(''b'', JNull), (''a'', JNum (NInt 7))]) 30 =
      Some (concat [[CHR ''{'', CHR 0x22], ''a'', [CHR 0x22], '':7,'', [CHR 0x22], ''b'', [CHR 0x22], '':null}''])"
    "stableSerializeWithinBudget (JObj (Some 2) True [(''a'', JNum (NInt 7)), (''b'', JNull)]) 30 =
      Some (concat [[CHR ''{'', CHR 0x22], ''a'', [CHR 0x22], '':7,'', [CHR 0x22], ''b'', [CHR 0x22], '':null}''])"
    by code_simp+
  from serialisation_identifies_values [OF this] show ?thesis by simp
qed

end
