(* ===== verification/Runaway_Detector.thy ===== *)
theory Runaway_Detector
  imports Runaway_Fingerprint
begin

text \<open>
  The deterministic detector of the runaway guard: the contracts (\<^verbatim>\<open>runaway-guard/src/contracts.ts\<close>), the state
  of one turn (\<^verbatim>\<open>state.ts\<close>), the signals (\<^verbatim>\<open>signals.ts\<close>) and the reminder policy (\<^verbatim>\<open>reminder.ts\<close>).  The code
  mutates one state object and calls an observer; the model threads a \<open>Detection\<close>: the state, the
  observations handed to the observer so far, and the reminder candidates of the step.  An observer cannot
  influence the detector (its errors are swallowed), so it has no other counterpart.
\<close>

section \<open>Contracts and state\<close>

datatype RunawayGuardSignalKind =
    ExactActionRepeat
  | ExactResultRepeat
  | SameErrorFamily
  | AbabActionCycle
  | PollingRepeat
  | UnchangedProgressRepeat

datatype RunawayGuardToolPolicyKind = PolicyDetect | PolicyPolling | PolicyExempt

record RunawayGuardRunIdentity =
  ri_sessionId :: string
  ri_turnId :: string
  ri_agentName :: string

record RunawayGuardObservation =
  ob_schemaVersion :: nat
  ob_sessionId :: string
  ob_turnId :: string
  ob_agentName :: string
  ob_signalKind :: RunawayGuardSignalKind
  ob_stepIndex :: nat
  ob_occurrences :: nat

record MutableSignalStats =
  ss_episodeCount :: nat
  ss_maxOccurrences :: nat
  ss_firstStepIndex :: "nat option"
  ss_lastStepIndex :: "nat option"

record ProgressStreak =
  ps_progressKey :: string
  ps_occurrences :: nat
  ps_continuousPolling :: bool
  ps_reminderEligible :: bool

record ShadowState =
  sh_secret :: string
  sh_stepIndex :: nat
  sh_fingerprintSkippedCount :: nat
  sh_reminderAttempted :: bool
  sh_reminderInjected :: bool
  sh_signalStats :: "RunawayGuardSignalKind \<Rightarrow> MutableSignalStats"
  sh_detectActionStreaks :: "(string \<times> nat) list"
  sh_pollingActionStreaks :: "(string \<times> nat) list"
  sh_detectResultStreaks :: "(string \<times> nat) list"
  sh_errorFamilyStreaks :: "(string \<times> nat) list"
  sh_progressStreaks :: "(string \<times> ProgressStreak) list"
  sh_recentActionBatches :: "string list"
  sh_activeAbabKey :: "string option"

record RunawayGuardTurnSummary =
  ts_schemaVersion :: nat
  ts_sessionId :: string
  ts_turnId :: string
  ts_agentName :: string
  ts_stepCount :: nat
  ts_projectionSkippedCount :: nat
  ts_reminderInjected :: bool
  ts_signals :: "RunawayGuardSignalKind \<Rightarrow> MutableSignalStats"

text \<open>The secret is drawn by \<^verbatim>\<open>randomBytes(32)\<close>; it is an argument.\<close>

definition emptySignalStats :: MutableSignalStats where
  "emptySignalStats = \<lparr>ss_episodeCount = 0, ss_maxOccurrences = 0, ss_firstStepIndex = None, ss_lastStepIndex = None\<rparr>"

definition createSignalStats :: "RunawayGuardSignalKind \<Rightarrow> MutableSignalStats" where
  "createSignalStats kind = emptySignalStats"

definition newShadowState :: "string \<Rightarrow> ShadowState" where
  "newShadowState secret =
     \<lparr>sh_secret = secret, sh_stepIndex = 0, sh_fingerprintSkippedCount = 0, sh_reminderAttempted = False,
      sh_reminderInjected = False, sh_signalStats = createSignalStats, sh_detectActionStreaks = [],
      sh_pollingActionStreaks = [], sh_detectResultStreaks = [], sh_errorFamilyStreaks = [],
      sh_progressStreaks = [], sh_recentActionBatches = [], sh_activeAbabKey = None\<rparr>"

definition clearDetectionStreaks :: "ShadowState \<Rightarrow> ShadowState" where
  "clearDetectionStreaks st =
     st\<lparr>sh_detectActionStreaks := [], sh_pollingActionStreaks := [], sh_detectResultStreaks := [],
        sh_errorFamilyStreaks := [], sh_progressStreaks := [], sh_recentActionBatches := [], sh_activeAbabKey := None\<rparr>"

definition recordMaxOccurrences :: "ShadowState \<Rightarrow> RunawayGuardSignalKind \<Rightarrow> nat \<Rightarrow> ShadowState" where
  "recordMaxOccurrences st kind occurrences =
     (let stats = sh_signalStats st kind
      in st\<lparr>sh_signalStats := (sh_signalStats st)
              (kind := stats\<lparr>ss_maxOccurrences := max (ss_maxOccurrences stats) occurrences\<rparr>)\<rparr>)"

definition snapshotTurnSummary :: "RunawayGuardRunIdentity \<Rightarrow> ShadowState \<Rightarrow> RunawayGuardTurnSummary" where
  "snapshotTurnSummary ctx st =
     \<lparr>ts_schemaVersion = 1, ts_sessionId = ri_sessionId ctx, ts_turnId = ri_turnId ctx, ts_agentName = ri_agentName ctx,
      ts_stepCount = sh_stepIndex st, ts_projectionSkippedCount = sh_fingerprintSkippedCount st,
      ts_reminderInjected = sh_reminderInjected st, ts_signals = sh_signalStats st\<rparr>"

definition runKey :: "RunawayGuardRunIdentity \<Rightarrow> string" where
  "runKey ctx = ri_sessionId ctx @ [CHR 0x00] @ ri_turnId ctx"

section \<open>The view of a step\<close>

datatype ProgressView =
    ProgressObservation RunawayGuardToolPolicyKind string string bool bool bool
    \<comment> \<open>kind, loopKey, progressKey, verifiedProgress, continuousPolling, reminderEligible\<close>
  | ProgressReset string
  | ProgressInterrupt

record StepView =
  sv_detectActionKeys :: "string list"
  sv_pollingActionKeys :: "string list"
  sv_detectResultKeys :: "string list"
  sv_errorFamilyKeys :: "string list"
  sv_remindableErrorFamilyKeys :: "string list"
  sv_progress :: "ProgressView list"
  sv_detectActionBatchKey :: "string option"

section \<open>Signals\<close>

record Detection =
  dt_state :: ShadowState
  dt_observations :: "RunawayGuardObservation list"
  dt_candidates :: "RunawayGuardSignalKind set"

definition emitObservation :: "RunawayGuardRunIdentity \<Rightarrow> RunawayGuardSignalKind \<Rightarrow> nat \<Rightarrow> Detection \<Rightarrow> Detection" where
  "emitObservation ctx kind occurrences d =
     (let st = dt_state d;
          stats = sh_signalStats st kind;
          stats' = stats\<lparr>ss_episodeCount := ss_episodeCount stats + 1,
                         ss_firstStepIndex := Some (nullish (ss_firstStepIndex stats) (sh_stepIndex st)),
                         ss_lastStepIndex := Some (sh_stepIndex st)\<rparr>;
          st' = recordMaxOccurrences (st\<lparr>sh_signalStats := (sh_signalStats st)(kind := stats')\<rparr>) kind occurrences;
          observation = \<lparr>ob_schemaVersion = 1, ob_sessionId = ri_sessionId ctx, ob_turnId = ri_turnId ctx,
            ob_agentName = ri_agentName ctx, ob_signalKind = kind, ob_stepIndex = sh_stepIndex st,
            ob_occurrences = occurrences\<rparr>
      in d\<lparr>dt_state := st', dt_observations := dt_observations d @ [observation]\<rparr>)"

definition addReminderCandidate :: "RunawayGuardSignalKind \<Rightarrow> Detection \<Rightarrow> Detection" where
  "addReminderCandidate kind d = d\<lparr>dt_candidates := insert kind (dt_candidates d)\<rparr>"

definition REMINDER_CANDIDATE_PRIORITY :: "RunawayGuardSignalKind list" where
  "REMINDER_CANDIDATE_PRIORITY = [UnchangedProgressRepeat, SameErrorFamily, ExactActionRepeat, PollingRepeat]"

definition isReminderSignalKind :: "RunawayGuardSignalKind \<Rightarrow> bool" where
  "isReminderSignalKind kind = (kind \<in> set REMINDER_CANDIDATE_PRIORITY)"

fun occurrence_loop :: "(string \<times> nat) list \<Rightarrow> string list \<Rightarrow> (string \<times> nat) list" where
  "occurrence_loop counts [] = counts"
| "occurrence_loop counts (v # vs) = occurrence_loop (AList.update v (nullish (map_of counts v) 0 + 1) counts) vs"

definition occurrenceCounts :: "string list \<Rightarrow> (string \<times> nat) list" where
  "occurrenceCounts values = occurrence_loop [] values"

text \<open>\<^verbatim>\<open>boolean | ReadonlySet<string>\<close>.\<close>

datatype Eligibility = EligibleBool bool | EligibleKeys "string list"

fun eligible :: "Eligibility \<Rightarrow> string \<Rightarrow> bool" where
  "eligible (EligibleBool b) k = b"
| "eligible (EligibleKeys ks) k = (k \<in> set ks)"

definition observe_key ::
  "(string \<times> nat) list \<Rightarrow> RunawayGuardSignalKind \<Rightarrow> RunawayGuardRunIdentity \<Rightarrow> nat option \<Rightarrow> Eligibility \<Rightarrow>
   string \<times> nat \<Rightarrow> (string \<times> nat) list \<times> Detection \<Rightarrow> (string \<times> nat) list \<times> Detection" where
  "observe_key previous kind ctx remindAfter eligibility kc acc =
     (case (kc, acc) of ((key, cnt), (nxt, d)) \<Rightarrow>
        let prior = nullish (map_of previous key) 0;
            occurrences = prior + cnt;
            d1 = d\<lparr>dt_state := recordMaxOccurrences (dt_state d) kind occurrences\<rparr>;
            d2 = (if prior < 2 \<and> occurrences \<ge> 2 then emitObservation ctx kind 2 d1 else d1);
            d3 = (case remindAfter of
                    None \<Rightarrow> d2
                  | Some n \<Rightarrow>
                      if eligible eligibility key \<and> prior < n \<and> occurrences \<ge> n \<and> isReminderSignalKind kind
                      then addReminderCandidate kind d2 else d2)
        in (AList.update key occurrences nxt, d3))"

definition observeRepeatedKeys ::
  "(string \<times> nat) list \<Rightarrow> string list \<Rightarrow> RunawayGuardSignalKind \<Rightarrow> RunawayGuardRunIdentity \<Rightarrow> nat option \<Rightarrow> Eligibility \<Rightarrow>
   Detection \<Rightarrow> (string \<times> nat) list \<times> Detection" where
  "observeRepeatedKeys previous current kind ctx remindAfter eligibility d =
     fold (observe_key previous kind ctx remindAfter eligibility) (occurrenceCounts current) ([], d)"

text \<open>The loop state of \<^verbatim>\<open>observeProgress\<close>: the next streaks and the polling candidates.\<close>

record ProgressLoop =
  pl_next :: "(string \<times> ProgressStreak) list"
  pl_pollingCandidates :: "string list"
  pl_detection :: Detection

text \<open>What one unchanged observation records, emits and proposes.\<close>

definition progress_signals ::
  "RunawayGuardRunIdentity \<Rightarrow> nat option \<Rightarrow> RunawayGuardToolPolicyKind \<Rightarrow> nat \<Rightarrow> nat \<Rightarrow> Detection \<Rightarrow> Detection" where
  "progress_signals ctx remindAfter kind priorOccurrences occurrences d =
     (let signalKind = (if kind = PolicyPolling then PollingRepeat else UnchangedProgressRepeat);
          d1 = d\<lparr>dt_state := recordMaxOccurrences (dt_state d) signalKind occurrences\<rparr>;
          d2 = (if priorOccurrences < 2 \<and> occurrences \<ge> 2 then emitObservation ctx signalKind 2 d1 else d1)
      in case remindAfter of
           Some n \<Rightarrow> if kind = PolicyDetect \<and> priorOccurrences < n \<and> occurrences \<ge> n
                     then addReminderCandidate UnchangedProgressRepeat d2 else d2
         | None \<Rightarrow> d2)"

definition observe_progress_view ::
  "(string \<times> ProgressStreak) list \<Rightarrow> RunawayGuardRunIdentity \<Rightarrow> nat option \<Rightarrow> ProgressView \<Rightarrow> ProgressLoop \<Rightarrow> ProgressLoop" where
  "observe_progress_view previous ctx remindAfter view l =
     (case view of
        ProgressInterrupt \<Rightarrow>
          l\<lparr>pl_next := filter (\<lambda>(k, s). \<not> ps_continuousPolling s) (pl_next l), pl_pollingCandidates := []\<rparr>
      | ProgressReset loopKey \<Rightarrow>
          l\<lparr>pl_next := AList.delete loopKey (pl_next l),
            pl_pollingCandidates := removeAll loopKey (pl_pollingCandidates l)\<rparr>
      | ProgressObservation kind loopKey progressKey verifiedProgress continuousPolling reminderEligible \<Rightarrow>
          (let prior = (if continuousPolling
                        then (case map_of (pl_next l) loopKey of
                                Some s \<Rightarrow> if ps_continuousPolling s then Some s else None
                              | None \<Rightarrow> None)
                        else map_of previous loopKey)
           in if verifiedProgress
              then l\<lparr>pl_next := AList.update loopKey
                       \<lparr>ps_progressKey = progressKey, ps_occurrences = 0, ps_continuousPolling = continuousPolling,
                        ps_reminderEligible = reminderEligible\<rparr> (pl_next l),
                     pl_pollingCandidates := removeAll loopKey (pl_pollingCandidates l)\<rparr>
              else
                (let same = (map_option ps_progressKey prior = Some progressKey);
                     priorOccurrences = (case prior of Some s \<Rightarrow> ps_occurrences s | None \<Rightarrow> 0);
                     occurrences = (if same then priorOccurrences + 1 else 1);
                     crossed = (\<lambda>n. priorOccurrences < n \<and> occurrences \<ge> n);
                     candidates = (if same then pl_pollingCandidates l else removeAll loopKey (pl_pollingCandidates l));
                     candidates' = (case remindAfter of
                             Some n \<Rightarrow> if continuousPolling \<and> reminderEligible \<and> crossed n
                                       then List.insert loopKey candidates else candidates
                           | None \<Rightarrow> candidates)
                 in \<lparr>pl_next = AList.update loopKey
                       \<lparr>ps_progressKey = progressKey, ps_occurrences = occurrences, ps_continuousPolling = continuousPolling,
                        ps_reminderEligible = reminderEligible\<rparr> (pl_next l),
                     pl_pollingCandidates = candidates',
                     pl_detection = progress_signals ctx remindAfter kind priorOccurrences occurrences (pl_detection l)\<rparr>)))"

definition observeProgress ::
  "ProgressView list \<Rightarrow> RunawayGuardRunIdentity \<Rightarrow> nat option \<Rightarrow> Detection \<Rightarrow> (string \<times> ProgressStreak) list \<times> Detection" where
  "observeProgress current ctx remindAfter d =
     (let previous = sh_progressStreaks (dt_state d);
          l = fold (observe_progress_view previous ctx remindAfter) current
                \<lparr>pl_next = filter (\<lambda>(k, s). ps_continuousPolling s) previous, pl_pollingCandidates = [], pl_detection = d\<rparr>;
          due = (case remindAfter of
                   None \<Rightarrow> False
                 | Some n \<Rightarrow> list_ex (\<lambda>k. case map_of (pl_next l) k of
                       Some s \<Rightarrow> ps_continuousPolling s \<and> ps_reminderEligible s \<and> ps_occurrences s \<ge> n
                     | None \<Rightarrow> False) (pl_pollingCandidates l))
      in (pl_next l, if due then addReminderCandidate PollingRepeat (pl_detection l) else pl_detection l))"

text \<open>The last four action batches.\<close>

definition abab_recent :: "string \<Rightarrow> string list \<Rightarrow> string list" where
  "abab_recent current batches = (let pushed = batches @ [current] in if length pushed > 4 then tl pushed else pushed)"

definition observeAbab :: "string option \<Rightarrow> RunawayGuardRunIdentity \<Rightarrow> Detection \<Rightarrow> Detection" where
  "observeAbab current ctx d =
     (let st = dt_state d in
      if \<not> truthy_str current then d\<lparr>dt_state := st\<lparr>sh_recentActionBatches := [], sh_activeAbabKey := None\<rparr>\<rparr>
      else
        (let recent = abab_recent (the current) (sh_recentActionBatches st);
             d1 = d\<lparr>dt_state := st\<lparr>sh_recentActionBatches := recent\<rparr>\<rparr>
         in case recent of
              [a, b, c, e] \<Rightarrow>
                if a = [] \<or> b = [] \<or> a = b \<or> a \<noteq> c \<or> b \<noteq> e
                then d1\<lparr>dt_state := (dt_state d1)\<lparr>sh_activeAbabKey := None\<rparr>\<rparr>
                else
                  (let episode = a @ [CHR 0x00] @ b in
                   if sh_activeAbabKey st = Some episode then d1
                   else emitObservation ctx AbabActionCycle 2
                          (d1\<lparr>dt_state := (dt_state d1)\<lparr>sh_activeAbabKey := Some episode\<rparr>\<rparr>))
            | _ \<Rightarrow> d1))"

text \<open>\<^verbatim>\<open>state.streaks = observeRepeatedKeys(state.streaks, ...)\<close> for one of the four streak maps.\<close>

definition observe_streak ::
  "(ShadowState \<Rightarrow> (string \<times> nat) list) \<Rightarrow> ((string \<times> nat) list \<Rightarrow> ShadowState \<Rightarrow> ShadowState) \<Rightarrow> string list \<Rightarrow>
   RunawayGuardSignalKind \<Rightarrow> RunawayGuardRunIdentity \<Rightarrow> nat option \<Rightarrow> Eligibility \<Rightarrow> Detection \<Rightarrow> Detection" where
  "observe_streak get put current kind ctx remindAfter eligibility d =
     (let (nxt, d1) = observeRepeatedKeys (get (dt_state d)) current kind ctx remindAfter eligibility d
      in d1\<lparr>dt_state := put nxt (dt_state d1)\<rparr>)"

definition observe_progress_streaks :: "ProgressView list \<Rightarrow> RunawayGuardRunIdentity \<Rightarrow> nat option \<Rightarrow> Detection \<Rightarrow> Detection" where
  "observe_progress_streaks current ctx remindAfter d =
     (let (nxt, d1) = observeProgress current ctx remindAfter d
      in d1\<lparr>dt_state := (dt_state d1)\<lparr>sh_progressStreaks := nxt\<rparr>\<rparr>)"

definition observeStep :: "StepView \<Rightarrow> RunawayGuardRunIdentity \<Rightarrow> nat option \<Rightarrow> Detection \<Rightarrow> Detection" where
  "observeStep view ctx remindAfter d0 =
     (let d1 = observe_streak sh_detectActionStreaks (\<lambda>s st. st\<lparr>sh_detectActionStreaks := s\<rparr>)
            (sv_detectActionKeys view) ExactActionRepeat ctx remindAfter (EligibleBool True) d0;
          d2 = observe_streak sh_pollingActionStreaks (\<lambda>s st. st\<lparr>sh_pollingActionStreaks := s\<rparr>)
            (sv_pollingActionKeys view) PollingRepeat ctx remindAfter (EligibleBool False) d1;
          d3 = observe_streak sh_detectResultStreaks (\<lambda>s st. st\<lparr>sh_detectResultStreaks := s\<rparr>)
            (sv_detectResultKeys view) ExactResultRepeat ctx remindAfter (EligibleBool False) d2;
          d4 = observe_streak sh_errorFamilyStreaks (\<lambda>s st. st\<lparr>sh_errorFamilyStreaks := s\<rparr>)
            (sv_errorFamilyKeys view) SameErrorFamily ctx remindAfter
            (EligibleKeys (sv_remindableErrorFamilyKeys view)) d3;
          d5 = observe_progress_streaks (sv_progress view) ctx remindAfter d4
      in observeAbab (sv_detectActionBatchKey view) ctx d5)"

section \<open>Reminders\<close>

record RunawayGuardReminderObservation = RunawayGuardObservation +
  ro_action :: string

record RunawayGuardReminder =
  rm_content :: string
  rm_observation :: RunawayGuardReminderObservation

definition newline :: string where
  "newline = [CHR 0x0A]"

definition pollingReminderContent :: "nat option \<Rightarrow> string option" where
  "pollingReminderContent occurrences =
     (case occurrences of
        None \<Rightarrow> None
      | Some n \<Rightarrow>
          if n = 0 then None
          else Some (''<system-reminder>'' @ newline @
            (if n = 3 then ''Three'' else show_nat n) @
            '' task_output reads for the same task have returned an unchanged status and output cursor. Avoid repeated polling; you will be notified automatically and this conversation will resume when the background task completes.'' @ newline @
            ''This reminder applies only to the current Turn. Do not save or generalize it into Memory, Skills, or other persistent instructions.'' @ newline @
            ''</system-reminder>''))"

definition reminderGuidance :: "RunawayGuardSignalKind \<Rightarrow> nat option \<Rightarrow> string option" where
  "reminderGuidance kind occurrences =
     (case occurrences of
        None \<Rightarrow> None
      | Some n \<Rightarrow>
          if n = 0 then None
          else case kind of
            ExactActionRepeat \<Rightarrow> Some (''[runaway guard] The immediately repeated tool action has now occurred '' @ show_nat n @ '' '' @
              ''times with the same arguments. Do not repeat it unchanged. Inspect the results already '' @
              ''available, then either change strategy with a concrete expected state change, or report the '' @
              ''blocker. Repetition alone does not establish that the task is complete or impossible.'')
          | SameErrorFamily \<Rightarrow> Some (''[runaway guard] The same tool error family has now occurred '' @ show_nat n @ '' times in '' @
              ''a row. Do not retry the same route unchanged. Diagnose the cause, change one controlled '' @
              ''variable or switch route. Do not infer that the entire task has failed from this signal.'')
          | UnchangedProgressRepeat \<Rightarrow> Some (''[runaway guard] Verified progress for the same work target has remained unchanged across '' @
              show_nat n @ '' attempts. Do not continue the same route without a concrete expected state '' @
              ''change. Inspect the current artifact or state, change strategy, or explain the blocker. '' @
              ''Unchanged observed state is not proof that the entire task has failed.'')
          | _ \<Rightarrow> None)"

definition reminderContent :: "RunawayGuardSignalKind \<Rightarrow> nat option \<Rightarrow> string option" where
  "reminderContent kind occurrences =
     (if kind = PollingRepeat then pollingReminderContent occurrences
      else (let guidance = reminderGuidance kind occurrences in
            if truthy_str guidance
            then Some (the guidance @ '' This is a temporary runtime reminder for the current Turn only, not a user preference or a durable rule; do not save this reminder or generalize it into Memory, Skills, or other persistent instruction files for future Turns or sessions.'')
            else None))"

fun reminder_loop ::
  "RunawayGuardSignalKind list \<Rightarrow> RunawayGuardSignalKind set \<Rightarrow> RunawayGuardRunIdentity \<Rightarrow> ShadowState \<Rightarrow> nat \<Rightarrow>
   ShadowState \<times> RunawayGuardReminder option" where
  "reminder_loop [] candidates ctx st afterOccurrences = (st, None)"
| "reminder_loop (kind # kinds) candidates ctx st afterOccurrences =
     (if kind \<notin> candidates then reminder_loop kinds candidates ctx st afterOccurrences
      else (let content = reminderContent kind (Some afterOccurrences) in
            if \<not> truthy_str content \<or> sh_reminderAttempted st then (st, None)
            else (st\<lparr>sh_reminderAttempted := True\<rparr>,
                  Some \<lparr>rm_content = the content,
                    rm_observation = \<lparr>ob_schemaVersion = 1, ob_sessionId = ri_sessionId ctx, ob_turnId = ri_turnId ctx,
                      ob_agentName = ri_agentName ctx, ob_signalKind = kind, ob_stepIndex = sh_stepIndex st,
                      ob_occurrences = afterOccurrences, ro_action = ''steer''\<rparr>\<rparr>)))"

definition takePreferredReminder ::
  "RunawayGuardSignalKind set \<Rightarrow> RunawayGuardRunIdentity \<Rightarrow> ShadowState \<Rightarrow> nat \<Rightarrow> ShadowState \<times> RunawayGuardReminder option" where
  "takePreferredReminder candidates ctx st afterOccurrences =
     reminder_loop REMINDER_CANDIDATE_PRIORITY candidates ctx st afterOccurrences"

section \<open>Invariants of the detector\<close>

text \<open>Two states that differ only in the detection streaks.\<close>

definition same_core :: "ShadowState \<Rightarrow> ShadowState \<Rightarrow> bool" where
  "same_core st st' \<longleftrightarrow> sh_secret st' = sh_secret st \<and> sh_stepIndex st' = sh_stepIndex st \<and>
     sh_fingerprintSkippedCount st' = sh_fingerprintSkippedCount st \<and> sh_reminderAttempted st' = sh_reminderAttempted st \<and>
     sh_reminderInjected st' = sh_reminderInjected st \<and> sh_signalStats st' = sh_signalStats st"

text \<open>A property of a detection that the three primitive steps and a change of the streaks preserve is preserved by
  the whole detector.\<close>

locale detection_invariant =
  fixes I :: "Detection \<Rightarrow> bool"
  assumes max_law: "I d \<Longrightarrow> I (d\<lparr>dt_state := recordMaxOccurrences (dt_state d) k n\<rparr>)"
    and emit_law: "I d \<Longrightarrow> I (emitObservation ctx k 2 d)"
    and candidate_law: "I d \<Longrightarrow> I (addReminderCandidate k d)"
    and streaks_law: "I d \<Longrightarrow> same_core (dt_state d) st \<Longrightarrow> I (d\<lparr>dt_state := st\<rparr>)"
begin

lemma observe_key_I: "I d \<Longrightarrow> I (snd (observe_key previous kind ctx remindAfter eligibility kc (nxt, d)))"
  by (cases kc) (simp add: observe_key_def Let_def max_law emit_law candidate_law split: option.split)

lemma fold_observe_key_I:
  "I (snd acc) \<Longrightarrow> I (snd (fold (observe_key previous kind ctx remindAfter eligibility) kcs acc))"
proof (induction kcs arbitrary: acc)
  case (Cons kc kcs)
  then show ?case using observe_key_I [of "snd acc" previous kind ctx remindAfter eligibility kc "fst acc"] by simp
qed simp

lemma observeRepeatedKeys_I:
  "I d \<Longrightarrow> I (snd (observeRepeatedKeys previous current kind ctx remindAfter eligibility d))"
  unfolding observeRepeatedKeys_def by (rule fold_observe_key_I) simp

lemma progress_signals_I: "I d \<Longrightarrow> I (progress_signals ctx remindAfter kind p n d)"
  by (simp add: progress_signals_def Let_def max_law emit_law candidate_law split: option.split)

lemma observe_progress_view_I:
  "I (pl_detection l) \<Longrightarrow> I (pl_detection (observe_progress_view previous ctx remindAfter view l))"
  by (cases view) (simp_all add: observe_progress_view_def Let_def progress_signals_I)

lemma fold_progress_I:
  "I (pl_detection l) \<Longrightarrow> I (pl_detection (fold (observe_progress_view previous ctx remindAfter) views l))"
  by (induction views arbitrary: l) (simp_all add: observe_progress_view_I)

lemma observeProgress_I: "I d \<Longrightarrow> I (snd (observeProgress current ctx remindAfter d))"
  using fold_progress_I [of "\<lparr>pl_next = filter (\<lambda>(k, s). ps_continuousPolling s) (sh_progressStreaks (dt_state d)),
      pl_pollingCandidates = [], pl_detection = d\<rparr>"]
  by (simp add: observeProgress_def Let_def candidate_law)

lemma observeAbab_I:
  assumes "I d"
  shows "I (observeAbab current ctx d)"
proof -
  have st: "I (d\<lparr>dt_state := (dt_state d)\<lparr>sh_recentActionBatches := x, sh_activeAbabKey := y\<rparr>\<rparr>)"
    "I (d\<lparr>dt_state := (dt_state d)\<lparr>sh_recentActionBatches := x\<rparr>\<rparr>)" for x y
    by (rule streaks_law [OF assms], simp add: same_core_def)+
  then show ?thesis by (simp add: observeAbab_def Let_def emit_law split: list.split)
qed

lemma observeStep_I: "I d \<Longrightarrow> I (observeStep view ctx remindAfter d)"
  unfolding observeStep_def Let_def observe_progress_streaks_def observe_streak_def case_prod_beta
  by (intro observeAbab_I streaks_law observeProgress_I observeRepeatedKeys_I) (simp_all add: same_core_def)

end

text \<open>The detector leaves everything of the state but the statistics and the streaks alone.\<close>

definition turn_frame :: "ShadowState \<Rightarrow> Detection \<Rightarrow> bool" where
  "turn_frame st d \<longleftrightarrow> sh_secret (dt_state d) = sh_secret st \<and> sh_stepIndex (dt_state d) = sh_stepIndex st \<and>
     sh_fingerprintSkippedCount (dt_state d) = sh_fingerprintSkippedCount st \<and>
     sh_reminderAttempted (dt_state d) = sh_reminderAttempted st \<and> sh_reminderInjected (dt_state d) = sh_reminderInjected st"

interpretation frame: detection_invariant "turn_frame st" for st
  by unfold_locales
    (simp_all add: turn_frame_def same_core_def recordMaxOccurrences_def emitObservation_def addReminderCandidate_def Let_def)

text \<open>The statistics are those of the observations made so far.\<close>

definition stats_of :: "RunawayGuardObservation list \<Rightarrow> (RunawayGuardSignalKind \<Rightarrow> MutableSignalStats) \<Rightarrow> bool" where
  "stats_of obs stats \<longleftrightarrow> (\<forall>k. let os = filter (\<lambda>ob. ob_signalKind ob = k) obs in
     ss_episodeCount (stats k) = length os \<and>
     ss_firstStepIndex (stats k) = (if os = [] then None else Some (ob_stepIndex (hd os))) \<and>
     ss_lastStepIndex (stats k) = (if os = [] then None else Some (ob_stepIndex (last os))) \<and>
     (os \<noteq> [] \<longrightarrow> 2 \<le> ss_maxOccurrences (stats k)))"

definition turn_log :: "RunawayGuardObservation list \<Rightarrow> Detection \<Rightarrow> bool" where
  "turn_log obs0 d \<longleftrightarrow> stats_of (obs0 @ dt_observations d) (sh_signalStats (dt_state d))"

lemma stats_of_append:
  "stats_of obs stats \<Longrightarrow> ob_signalKind ob = k \<Longrightarrow> s' = (stats k)\<lparr>ss_episodeCount := ss_episodeCount (stats k) + 1,
     ss_firstStepIndex := Some (nullish (ss_firstStepIndex (stats k)) (ob_stepIndex ob)),
     ss_lastStepIndex := Some (ob_stepIndex ob), ss_maxOccurrences := max (ss_maxOccurrences (stats k)) 2\<rparr> \<Longrightarrow>
   stats_of (obs @ [ob]) (stats(k := s'))"
  by (simp add: stats_of_def Let_def nullish_def)

lemma stats_of_max:
  "stats_of obs stats \<Longrightarrow> stats_of obs (stats(k := (stats k)\<lparr>ss_maxOccurrences := max (ss_maxOccurrences (stats k)) n\<rparr>))"
  by (simp add: stats_of_def Let_def le_max_iff_disj)

interpretation logged: detection_invariant "turn_log obs0" for obs0
proof (unfold_locales, goal_cases)
  case (1 d k n)
  then show ?case by (simp add: turn_log_def recordMaxOccurrences_def Let_def stats_of_max)
next
  case (2 d ctx k)
  define ob where "ob = \<lparr>ob_schemaVersion = 1, ob_sessionId = ri_sessionId ctx, ob_turnId = ri_turnId ctx,
    ob_agentName = ri_agentName ctx, ob_signalKind = k, ob_stepIndex = sh_stepIndex (dt_state d), ob_occurrences = 2\<rparr>"
  from stats_of_append [OF 2 [unfolded turn_log_def], of ob k _, OF _ refl]
  show ?case
    by (simp add: turn_log_def emitObservation_def recordMaxOccurrences_def Let_def ob_def)
next
  case (3 d k)
  then show ?case by (simp add: turn_log_def addReminderCandidate_def)
next
  case (4 d st)
  then show ?case by (simp add: turn_log_def same_core_def)
qed

section \<open>Detection does not depend on reminding\<close>

text \<open>What the reminder policy adds to a detection: the candidates and the flags.\<close>

definition unremind :: "Detection \<Rightarrow> Detection" where
  "unremind d = d\<lparr>dt_state := (dt_state d)\<lparr>sh_reminderAttempted := False, sh_reminderInjected := False\<rparr>, dt_candidates := {}\<rparr>"

lemma unremind_sel [simp]:
  "sh_signalStats (dt_state (unremind d)) = sh_signalStats (dt_state d)"
  "sh_progressStreaks (dt_state (unremind d)) = sh_progressStreaks (dt_state d)"
  "sh_detectActionStreaks (dt_state (unremind d)) = sh_detectActionStreaks (dt_state d)"
  "sh_pollingActionStreaks (dt_state (unremind d)) = sh_pollingActionStreaks (dt_state d)"
  "sh_detectResultStreaks (dt_state (unremind d)) = sh_detectResultStreaks (dt_state d)"
  "sh_errorFamilyStreaks (dt_state (unremind d)) = sh_errorFamilyStreaks (dt_state d)"
  "sh_recentActionBatches (dt_state (unremind d)) = sh_recentActionBatches (dt_state d)"
  "sh_activeAbabKey (dt_state (unremind d)) = sh_activeAbabKey (dt_state d)"
  "sh_stepIndex (dt_state (unremind d)) = sh_stepIndex (dt_state d)"
  by (simp_all add: unremind_def)

lemma unremind_max [simp]:
  "unremind (d\<lparr>dt_state := recordMaxOccurrences (dt_state d) k n\<rparr>) =
     (unremind d)\<lparr>dt_state := recordMaxOccurrences (dt_state (unremind d)) k n\<rparr>"
  by (simp add: unremind_def recordMaxOccurrences_def Let_def)

lemma unremind_emit [simp]: "unremind (emitObservation ctx k n d) = emitObservation ctx k n (unremind d)"
  by (simp add: unremind_def emitObservation_def recordMaxOccurrences_def Let_def)

lemma unremind_candidate [simp]: "unremind (addReminderCandidate k d) = unremind d"
  by (simp add: unremind_def addReminderCandidate_def)

lemma observe_key_unremind:
  "apsnd unremind (observe_key previous kind ctx remindAfter eligibility kc (nxt, d)) =
     observe_key previous kind ctx None eligibility kc (nxt, unremind d)"
  by (cases kc) (simp add: observe_key_def Let_def if_distrib [of unremind] cong: if_cong split: option.split)

lemma observeRepeatedKeys_unremind:
  "apsnd unremind (observeRepeatedKeys previous current kind ctx remindAfter eligibility d) =
     observeRepeatedKeys previous current kind ctx None eligibility (unremind d)"
proof -
  have "apsnd unremind (fold (observe_key previous kind ctx remindAfter eligibility) kcs acc) =
      fold (observe_key previous kind ctx None eligibility) kcs (apsnd unremind acc)" for kcs acc
  proof (induction kcs arbitrary: acc)
    case (Cons kc kcs)
    then show ?case
      using observe_key_unremind [of previous kind ctx remindAfter eligibility kc "fst acc" "snd acc"] by (cases acc) simp
  qed simp
  then show ?thesis by (simp add: observeRepeatedKeys_def)
qed

lemma progress_signals_unremind:
  "unremind (progress_signals ctx remindAfter kind p n d) = progress_signals ctx None kind p n (unremind d)"
  by (simp add: progress_signals_def Let_def if_distrib [of unremind] cong: if_cong split: option.split)

text \<open>The loop over the progress views, up to the polling candidates.\<close>

definition loop_unremind :: "ProgressLoop \<Rightarrow> (string \<times> ProgressStreak) list \<times> Detection" where
  "loop_unremind l = (pl_next l, unremind (pl_detection l))"

lemma observe_progress_view_unremind:
  "loop_unremind l = loop_unremind l' \<Longrightarrow>
   loop_unremind (observe_progress_view previous ctx remindAfter view l) =
   loop_unremind (observe_progress_view previous ctx None view l')"
proof (cases view)
  case (ProgressObservation kind loopKey progressKey verified continuous eligible)
  moreover assume "loop_unremind l = loop_unremind l'"
  ultimately show ?thesis
    by (cases verified)
      (simp_all add: loop_unremind_def observe_progress_view_def Let_def progress_signals_unremind
        cong: if_cong option.case_cong split del: if_split)
qed (simp_all add: loop_unremind_def observe_progress_view_def)

lemma fold_progress_unremind:
  "loop_unremind l = loop_unremind l' \<Longrightarrow>
   loop_unremind (fold (observe_progress_view previous ctx remindAfter) views l) =
   loop_unremind (fold (observe_progress_view previous ctx None) views l')"
proof (induction views arbitrary: l l')
  case (Cons v views)
  from Cons.IH [OF observe_progress_view_unremind [OF Cons.prems]] show ?case by simp
qed simp

lemma unremind_idem [simp]: "unremind (unremind d) = unremind d"
  by (simp add: unremind_def)

lemma observeProgress_unremind:
  "apsnd unremind (observeProgress current ctx remindAfter d) = apsnd unremind (observeProgress current ctx None (unremind d))"
proof -
  let ?l = "\<lambda>d. \<lparr>pl_next = filter (\<lambda>(k, s). ps_continuousPolling s) (sh_progressStreaks (dt_state d)),
      pl_pollingCandidates = [], pl_detection = d\<rparr>"
  have "loop_unremind (fold (observe_progress_view (sh_progressStreaks (dt_state d)) ctx remindAfter) current (?l d)) =
      loop_unremind (fold (observe_progress_view (sh_progressStreaks (dt_state d)) ctx None) current (?l (unremind d)))"
    by (rule fold_progress_unremind) (simp add: loop_unremind_def)
  then show ?thesis by (simp add: observeProgress_def Let_def loop_unremind_def)
qed

lemma unremind_eqD:
  assumes "unremind d = unremind d'"
  shows "dt_observations d = dt_observations d'"
    "(dt_state d)\<lparr>sh_reminderAttempted := False, sh_reminderInjected := False\<rparr> =
     (dt_state d')\<lparr>sh_reminderAttempted := False, sh_reminderInjected := False\<rparr>"
proof -
  have "dt_observations (unremind d) = dt_observations (unremind d')" "dt_state (unremind d) = dt_state (unremind d')"
    using assms by simp_all
  then show "dt_observations d = dt_observations d'"
    "(dt_state d)\<lparr>sh_reminderAttempted := False, sh_reminderInjected := False\<rparr> =
     (dt_state d')\<lparr>sh_reminderAttempted := False, sh_reminderInjected := False\<rparr>"
    by (simp_all add: unremind_def)
qed

lemma unremind_eqI:
  "dt_observations d = dt_observations d' \<Longrightarrow>
   (dt_state d)\<lparr>sh_reminderAttempted := False, sh_reminderInjected := False\<rparr> = (dt_state d')\<lparr>sh_reminderAttempted := False, sh_reminderInjected := False\<rparr> \<Longrightarrow> unremind d = unremind d'"
  by (simp add: unremind_def)

lemma unremind_put:
  assumes "unremind d = unremind d'"
    and "\<And>st a b. put (st\<lparr>sh_reminderAttempted := a, sh_reminderInjected := b\<rparr>) = (put st)\<lparr>sh_reminderAttempted := a, sh_reminderInjected := b\<rparr>"
  shows "unremind (d\<lparr>dt_state := put (dt_state d)\<rparr>) = unremind (d'\<lparr>dt_state := put (dt_state d')\<rparr>)"
  by (rule unremind_eqI) (use unremind_eqD [OF assms(1)] in \<open>simp_all flip: assms(2)\<close>)

lemma observe_streak_unremind:
  assumes "unremind d = unremind d'" "\<And>st a b. get (st\<lparr>sh_reminderAttempted := a, sh_reminderInjected := b\<rparr>) = get st"
    and "\<And>x st a b. put x (st\<lparr>sh_reminderAttempted := a, sh_reminderInjected := b\<rparr>) = (put x st)\<lparr>sh_reminderAttempted := a, sh_reminderInjected := b\<rparr>"
  shows "unremind (observe_streak get put current kind ctx remindAfter eligibility d) =
    unremind (observe_streak get put current kind ctx None eligibility d')"
proof -
  have "get (dt_state d) = get (dt_state d')" using unremind_eqD(2) [OF assms(1)] assms(2) by metis
  moreover have "apsnd unremind (observeRepeatedKeys p current kind ctx remindAfter eligibility d) =
      apsnd unremind (observeRepeatedKeys p current kind ctx None eligibility d')" for p
    unfolding observeRepeatedKeys_unremind assms(1) ..
  ultimately have r: "fst (observeRepeatedKeys (get (dt_state d)) current kind ctx remindAfter eligibility d) =
      fst (observeRepeatedKeys (get (dt_state d')) current kind ctx None eligibility d')"
    "unremind (snd (observeRepeatedKeys (get (dt_state d)) current kind ctx remindAfter eligibility d)) =
      unremind (snd (observeRepeatedKeys (get (dt_state d')) current kind ctx None eligibility d'))"
    by (metis fst_apsnd, metis snd_apsnd)
  show ?thesis unfolding observe_streak_def case_prod_beta Let_def r(1) by (rule unremind_put [OF r(2) assms(3)])
qed

lemma observe_progress_streaks_unremind:
  assumes "unremind d = unremind d'"
  shows "unremind (observe_progress_streaks current ctx remindAfter d) = unremind (observe_progress_streaks current ctx None d')"
proof -
  have "apsnd unremind (observeProgress current ctx remindAfter d) = apsnd unremind (observeProgress current ctx None d')"
    using observeProgress_unremind [of current ctx remindAfter d] observeProgress_unremind [of current ctx None d'] assms by simp
  then have r: "fst (observeProgress current ctx remindAfter d) = fst (observeProgress current ctx None d')"
    "unremind (snd (observeProgress current ctx remindAfter d)) = unremind (snd (observeProgress current ctx None d'))"
    by (metis fst_apsnd, metis snd_apsnd)
  show ?thesis
    unfolding observe_progress_streaks_def case_prod_beta Let_def r(1) by (rule unremind_put [OF r(2)]) simp
qed

definition is_abab :: "string list \<Rightarrow> bool" where
  "is_abab recent = (length recent = 4 \<and> recent ! 0 \<noteq> [] \<and> recent ! 1 \<noteq> [] \<and> recent ! 0 \<noteq> recent ! 1 \<and>
     recent ! 2 = recent ! 0 \<and> recent ! 3 = recent ! 1)"

lemma observeAbab_eq:
  "observeAbab (Some current) ctx d =
     (if current = [] then d\<lparr>dt_state := (dt_state d)\<lparr>sh_recentActionBatches := [], sh_activeAbabKey := None\<rparr>\<rparr>
      else
        (let recent = abab_recent current (sh_recentActionBatches (dt_state d));
             episode = recent ! 0 @ [CHR 0x00] @ recent ! 1;
             d1 = d\<lparr>dt_state := (dt_state d)\<lparr>sh_recentActionBatches := recent\<rparr>\<rparr>
         in if length recent \<noteq> 4 \<or> is_abab recent \<and> sh_activeAbabKey (dt_state d) = Some episode then d1
            else if is_abab recent
            then emitObservation ctx AbabActionCycle 2
                   (d\<lparr>dt_state := (dt_state d)\<lparr>sh_recentActionBatches := recent, sh_activeAbabKey := Some episode\<rparr>\<rparr>)
            else d\<lparr>dt_state := (dt_state d)\<lparr>sh_recentActionBatches := recent, sh_activeAbabKey := None\<rparr>\<rparr>))"
proof -
  define recent where "recent = abab_recent current (sh_recentActionBatches (dt_state d))"
  have four: "length recent = 4 \<longleftrightarrow> (\<exists>a b c e. recent = [a, b, c, e])"
    by (auto simp: length_Suc_conv eval_nat_numeral)
  have other: "(case recent of [a, b, c, e] \<Rightarrow> f a b c e | _ \<Rightarrow> y) = y" if "length recent \<noteq> 4" for f and y :: Detection
    using that unfolding four by (auto split: list.split)
  have unfold: "observeAbab (Some current) ctx d = (if current = []
      then d\<lparr>dt_state := (dt_state d)\<lparr>sh_recentActionBatches := [], sh_activeAbabKey := None\<rparr>\<rparr>
      else (let d1 = d\<lparr>dt_state := (dt_state d)\<lparr>sh_recentActionBatches := recent\<rparr>\<rparr>
         in case recent of
              [a, b, c, e] \<Rightarrow>
                if a = [] \<or> b = [] \<or> a = b \<or> a \<noteq> c \<or> b \<noteq> e
                then d1\<lparr>dt_state := (dt_state d1)\<lparr>sh_activeAbabKey := None\<rparr>\<rparr>
                else
                  (let episode = a @ [CHR 0x00] @ b in
                   if sh_activeAbabKey (dt_state d) = Some episode then d1
                   else emitObservation ctx AbabActionCycle 2
                          (d1\<lparr>dt_state := (dt_state d1)\<lparr>sh_activeAbabKey := Some episode\<rparr>\<rparr>))
            | _ \<Rightarrow> d1))"
    unfolding observeAbab_def truthy_str_def Let_def recent_def option.case option.sel not_not ..
  show ?thesis
  proof (cases "length recent = 4")
    case True
    then obtain a b c e where r: "recent = [a, b, c, e]" unfolding four by blast
    have "(a = [] \<or> b = [] \<or> a = b \<or> a \<noteq> c \<or> b \<noteq> e) = (\<not> is_abab recent)"
      by (auto simp: is_abab_def r numeral_2_eq_2 numeral_3_eq_3)
    moreover have "recent ! 0 = a" "recent ! 1 = b" by (simp_all add: r)
    ultimately show ?thesis
      unfolding unfold recent_def [symmetric] r list.case
      by (cases "is_abab [a, b, c, e]") (simp_all only: Let_def simp_thms if_True if_False, simp_all add: True [unfolded r])
  next
    case False
    then show ?thesis unfolding unfold recent_def [symmetric] by (simp add: other Let_def)
  qed
qed

lemma observeAbab_unremind: "unremind (observeAbab current ctx d) = observeAbab current ctx (unremind d)"
proof (cases current)
  case None
  then show ?thesis by (simp add: observeAbab_def truthy_str_def unremind_def)
next
  case (Some c)
  have put: "unremind (d\<lparr>dt_state := (dt_state d)\<lparr>sh_recentActionBatches := x, sh_activeAbabKey := y\<rparr>\<rparr>) =
      (unremind d)\<lparr>dt_state := (dt_state (unremind d))\<lparr>sh_recentActionBatches := x, sh_activeAbabKey := y\<rparr>\<rparr>"
    "unremind (d\<lparr>dt_state := (dt_state d)\<lparr>sh_recentActionBatches := x\<rparr>\<rparr>) =
      (unremind d)\<lparr>dt_state := (dt_state (unremind d))\<lparr>sh_recentActionBatches := x\<rparr>\<rparr>" for x y
    by (simp_all add: unremind_def)
  show ?thesis
    unfolding Some observeAbab_eq Let_def
    by (simp add: put if_distrib [of unremind] cong: if_cong split del: if_split)
qed

lemma observeStep_unremind:
  assumes "unremind d = unremind d'"
  shows "unremind (observeStep view ctx remindAfter d) = unremind (observeStep view ctx None d')"
  unfolding observeStep_def Let_def observeAbab_unremind
  by (intro arg_cong [where f = "observeAbab _ _"] observe_progress_streaks_unremind observe_streak_unremind assms) simp_all

section \<open>Counting repeated keys\<close>

lemma occurrence_loop_spec:
  "map_of (occurrence_loop cs vs) k =
     (if k \<in> set vs then Some (nullish (map_of cs k) 0 + count_list vs k) else map_of cs k)"
proof (induction cs vs rule: occurrence_loop.induct)
  case (2 cs v vs)
  then show ?case by (auto simp: nullish_def)
qed simp

lemma occurrenceCounts_spec: "map_of (occurrenceCounts vs) k = (if k \<in> set vs then Some (count_list vs k) else None)"
  by (simp add: occurrenceCounts_def occurrence_loop_spec nullish_def)

lemma distinct_occurrenceCounts: "distinct (keys (occurrenceCounts vs))"
proof -
  have "distinct (keys cs) \<Longrightarrow> distinct (keys (occurrence_loop cs vs))" for cs
    by (induction cs vs rule: occurrence_loop.induct) (simp_all add: distinct_update)
  then show ?thesis by (simp add: occurrenceCounts_def)
qed

text \<open>The number of times a key has occurred before and whether a count crosses a threshold now.\<close>

definition prior_count :: "(string \<times> nat) list \<Rightarrow> string \<Rightarrow> nat" where
  "prior_count previous key = nullish (map_of previous key) 0"

definition crosses :: "(string \<times> nat) list \<Rightarrow> nat \<Rightarrow> string \<times> nat \<Rightarrow> bool" where
  "crosses previous n kc = (prior_count previous (fst kc) < n \<and> n \<le> prior_count previous (fst kc) + snd kc)"

lemma max_sel [simp]:
  "dt_observations (d\<lparr>dt_state := st\<rparr>) = dt_observations d" "dt_candidates (d\<lparr>dt_state := st\<rparr>) = dt_candidates d"
  by simp_all

lemma emitObservation_sel:
  "dt_candidates (emitObservation ctx k n d) = dt_candidates d"
  "\<exists>ob. dt_observations (emitObservation ctx k n d) = dt_observations d @ [ob] \<and> ob_signalKind ob = k \<and> ob_occurrences ob = n"
  by (simp_all add: emitObservation_def Let_def)

lemma observe_key_alt:
  "observe_key previous kind ctx remindAfter eligibility kc (nxt, d) =
     (let occurrences = prior_count previous (fst kc) + snd kc;
          d1 = d\<lparr>dt_state := recordMaxOccurrences (dt_state d) kind occurrences\<rparr>;
          d2 = (if crosses previous 2 kc then emitObservation ctx kind 2 d1 else d1);
          d3 = (case remindAfter of
                  None \<Rightarrow> d2
                | Some n \<Rightarrow>
                    if eligible eligibility (fst kc) \<and> crosses previous n kc \<and> isReminderSignalKind kind
                    then addReminderCandidate kind d2 else d2)
      in (AList.update (fst kc) occurrences nxt, d3))"
  by (cases kc) (simp only: observe_key_def crosses_def prior_count_def prod.case fst_conv snd_conv conj_assoc Let_def)

lemma observe_key_spec:
  fixes previous kind ctx remindAfter eligibility kc nxt d
  defines "r \<equiv> observe_key previous kind ctx remindAfter eligibility kc (nxt, d)"
  shows "fst r = AList.update (fst kc) (prior_count previous (fst kc) + snd kc) nxt"
    and "\<exists>os. dt_observations (snd r) = dt_observations d @ os \<and> length os = (if crosses previous 2 kc then 1 else 0) \<and>
      list_all (\<lambda>ob. ob_signalKind ob = kind) os"
    and "dt_candidates (snd r) = dt_candidates d \<union>
      (if (\<exists>n. remindAfter = Some n \<and> eligible eligibility (fst kc) \<and> crosses previous n kc) \<and> isReminderSignalKind kind
       then {kind} else {})"
proof -
  let ?d1 = "d\<lparr>dt_state := recordMaxOccurrences (dt_state d) kind (prior_count previous (fst kc) + snd kc)\<rparr>"
  let ?d2 = "if crosses previous 2 kc then emitObservation ctx kind 2 ?d1 else ?d1"
  show "fst r = AList.update (fst kc) (prior_count previous (fst kc) + snd kc) nxt"
    by (simp add: r_def observe_key_alt Let_def)
  have "dt_observations (snd r) = dt_observations ?d2"
    by (simp add: r_def observe_key_alt Let_def addReminderCandidate_def split: option.split)
  moreover have "\<exists>os. dt_observations ?d2 = dt_observations d @ os \<and> length os = (if crosses previous 2 kc then 1 else 0) \<and>
      list_all (\<lambda>ob. ob_signalKind ob = kind) os"
  proof (cases "crosses previous 2 kc")
    case True
    obtain ob where "dt_observations ?d2 = dt_observations d @ [ob]" "ob_signalKind ob = kind"
      using emitObservation_sel(2) [of ctx kind 2 ?d1] True by auto
    with True show ?thesis by (intro exI [of _ "[ob]"]) simp
  qed simp
  ultimately show "\<exists>os. dt_observations (snd r) = dt_observations d @ os \<and>
      length os = (if crosses previous 2 kc then 1 else 0) \<and> list_all (\<lambda>ob. ob_signalKind ob = kind) os" by simp
  have "dt_candidates ?d2 = dt_candidates d" by (simp add: emitObservation_sel(1))
  moreover have "dt_candidates (addReminderCandidate kind x) = insert kind (dt_candidates x)" for x
    by (simp add: addReminderCandidate_def)
  ultimately show "dt_candidates (snd r) = dt_candidates d \<union>
      (if (\<exists>n. remindAfter = Some n \<and> eligible eligibility (fst kc) \<and> crosses previous n kc) \<and> isReminderSignalKind kind
       then {kind} else {})"
    unfolding r_def observe_key_alt Let_def snd_conv
    by (cases remindAfter; cases "crosses previous 2 kc") simp_all
qed

lemma fold_observe_key_spec:
  fixes previous kind ctx remindAfter eligibility kcs nxt d
  defines "r \<equiv> fold (observe_key previous kind ctx remindAfter eligibility) kcs (nxt, d)"
  assumes "distinct (keys kcs)"
  shows "(\<forall>k. map_of (fst r) k = (case map_of kcs k of Some c \<Rightarrow> Some (prior_count previous k + c) | None \<Rightarrow> map_of nxt k)) \<and>
    (\<exists>os. dt_observations (snd r) = dt_observations d @ os \<and> length os = length (filter (crosses previous 2) kcs) \<and>
      list_all (\<lambda>ob. ob_signalKind ob = kind) os) \<and>
    dt_candidates (snd r) = dt_candidates d \<union>
      (if (\<exists>n kc. remindAfter = Some n \<and> kc \<in> set kcs \<and> eligible eligibility (fst kc) \<and> crosses previous n kc) \<and>
          isReminderSignalKind kind then {kind} else {})"
  using assms(2) unfolding r_def
proof (induction kcs arbitrary: nxt d)
  case (Cons kc kcs)
  let ?r1 = "observe_key previous kind ctx remindAfter eligibility kc (nxt, d)"
  let ?r = "fold (observe_key previous kind ctx remindAfter eligibility) kcs ?r1"
  note step = observe_key_spec [of previous kind ctx remindAfter eligibility kc nxt d]
  have dist: "distinct (keys kcs)" "fst kc \<notin> set (keys kcs)" using Cons.prems by simp_all
  note IH = Cons.IH [OF dist(1), of "fst ?r1" "snd ?r1", unfolded prod.collapse]
  have 0: "map_of (fst ?r) k = (case map_of kcs k of Some c \<Rightarrow> Some (prior_count previous k + c) | None \<Rightarrow> map_of (fst ?r1) k)" for k
    using IH by blast
  have 1: "map_of (fst ?r) k = (case map_of (kc # kcs) k of Some c \<Rightarrow> Some (prior_count previous k + c) | None \<Rightarrow> map_of nxt k)" for k
    unfolding 0 step(1) using dist(2) map_of_None_iff [of kcs "fst kc"]
    by (cases kc; cases "k = fst kc") (simp_all split: option.split)
  obtain os1 os2 where "dt_observations (snd ?r1) = dt_observations d @ os1" "length os1 = (if crosses previous 2 kc then 1 else 0)"
    "list_all (\<lambda>ob. ob_signalKind ob = kind) os1" "dt_observations (snd ?r) = dt_observations (snd ?r1) @ os2"
    "length os2 = length (filter (crosses previous 2) kcs)" "list_all (\<lambda>ob. ob_signalKind ob = kind) os2"
    using step(2) IH by blast
  then have 2: "\<exists>os. dt_observations (snd ?r) = dt_observations d @ os \<and>
      length os = length (filter (crosses previous 2) (kc # kcs)) \<and> list_all (\<lambda>ob. ob_signalKind ob = kind) os"
    by (intro exI [of _ "os1 @ os2"]) simp
  have c: "dt_candidates (snd ?r) = dt_candidates (snd ?r1) \<union>
      (if (\<exists>n c. remindAfter = Some n \<and> c \<in> set kcs \<and> eligible eligibility (fst c) \<and> crosses previous n c) \<and>
          isReminderSignalKind kind then {kind} else {})"
    using IH by blast
  have "dt_candidates (snd ?r) = dt_candidates d \<union>
      (if (\<exists>n c. remindAfter = Some n \<and> c \<in> set (kc # kcs) \<and> eligible eligibility (fst c) \<and> crosses previous n c) \<and>
          isReminderSignalKind kind then {kind} else {})"
    unfolding c step(3) by (cases kc; cases "isReminderSignalKind kind"; cases remindAfter) auto
  with 1 2 show ?case by simp
qed simp

lemma observeRepeatedKeys_spec:
  fixes previous current kind ctx remindAfter eligibility d
  defines "r \<equiv> observeRepeatedKeys previous current kind ctx remindAfter eligibility d"
  shows "map_of (fst r) k = (if k \<in> set current then Some (prior_count previous k + count_list current k) else None)"
    and "\<exists>os. dt_observations (snd r) = dt_observations d @ os \<and>
      length os = length (filter (crosses previous 2) (occurrenceCounts current)) \<and> list_all (\<lambda>ob. ob_signalKind ob = kind) os"
    and "dt_candidates (snd r) = dt_candidates d \<union>
      (if (\<exists>n kc. remindAfter = Some n \<and> kc \<in> set (occurrenceCounts current) \<and> eligible eligibility (fst kc) \<and>
          crosses previous n kc) \<and> isReminderSignalKind kind then {kind} else {})"
  using fold_observe_key_spec [OF distinct_occurrenceCounts [of current], of previous kind ctx remindAfter eligibility "[]" d]
  unfolding r_def observeRepeatedKeys_def by (simp add: occurrenceCounts_spec, blast, blast)

text \<open>The streaks after a sequence of steps, and the count of a key over the last steps that all contain it.\<close>

definition streaks_after :: "RunawayGuardSignalKind \<Rightarrow> RunawayGuardRunIdentity \<Rightarrow> Detection \<Rightarrow> string list list \<Rightarrow> (string \<times> nat) list" where
  "streaks_after kind ctx d steps =
     foldl (\<lambda>m ks. fst (observeRepeatedKeys m ks kind ctx None (EligibleBool False) d)) [] steps"

definition run_length :: "string \<Rightarrow> string list list \<Rightarrow> nat" where
  "run_length k steps = sum_list (map (\<lambda>ks. count_list ks k) (takeWhile (\<lambda>ks. k \<in> set ks) (rev steps)))"

lemma streaks_after_spec:
  "map_of (streaks_after kind ctx d steps) k = (if run_length k steps = 0 then None else Some (run_length k steps))"
proof (induction steps rule: rev_induct)
  case Nil
  show ?case by (simp add: streaks_after_def run_length_def)
next
  case (snoc ks steps)
  then have "prior_count (streaks_after kind ctx d steps) k = run_length k steps"
    by (simp add: prior_count_def nullish_def)
  moreover have "streaks_after kind ctx d (steps @ [ks]) =
      fst (observeRepeatedKeys (streaks_after kind ctx d steps) ks kind ctx None (EligibleBool False) d)"
    by (simp add: streaks_after_def)
  moreover have "run_length k (steps @ [ks]) = (if k \<in> set ks then run_length k steps + count_list ks k else 0)"
    by (simp add: run_length_def)
  ultimately show ?case
    using observeRepeatedKeys_spec(1) [of "streaks_after kind ctx d steps" ks kind ctx None "EligibleBool False" d k]
    by (simp add: count_list_0_iff)
qed

section \<open>Reminders are reserved once\<close>

lemma reminder_loop_result:
  "reminder_loop kinds c ctx st n = (st', r) \<Longrightarrow>
     (case r of
        None \<Rightarrow> st' = st
      | Some x \<Rightarrow> \<not> sh_reminderAttempted st \<and> st' = st\<lparr>sh_reminderAttempted := True\<rparr> \<and>
          ob_signalKind (rm_observation x) \<in> c \<and> ob_occurrences (rm_observation x) = n)"
  by (induction kinds) (auto simp: Let_def split: if_splits)

section \<open>Properties\<close>

text \<open>the streak of a key is the number of times it occurred in the unbroken run of steps, ending with the last
  one, that contain it; one step without the key ends its streak.\<close>

theorem streak_counts_the_unbroken_run:
  "map_of (streaks_after kind ctx d steps) k = (if run_length k steps = 0 then None else Some (run_length k steps))"
  by (rule streaks_after_spec)

text \<open>one step reports a repeat once for every key whose streak reaches two in that step, and proposes a reminder
  exactly when an eligible key's streak reaches the threshold in that step.\<close>

theorem repeats_are_reported_once:
  "case observeRepeatedKeys previous current kind ctx remindAfter eligibility d of (nxt, d') \<Rightarrow>
     (\<exists>os. dt_observations d' = dt_observations d @ os \<and> list_all (\<lambda>ob. ob_signalKind ob = kind) os \<and>
        length os = length (filter (crosses previous 2) (occurrenceCounts current))) \<and>
     dt_candidates d' = dt_candidates d \<union>
       (if (\<exists>n kc. remindAfter = Some n \<and> kc \<in> set (occurrenceCounts current) \<and> eligible eligibility (fst kc) \<and>
            crosses previous n kc) \<and> isReminderSignalKind kind then {kind} else {})"
  using observeRepeatedKeys_spec(2,3) [where d = d and previous = previous and current = current and kind = kind
      and ctx = ctx and remindAfter = remindAfter and eligibility = eligibility]
  by (simp add: case_prod_beta) blast

end
