(* ===== verification/Runaway_Guard.thy ===== *)
theory Runaway_Guard
  imports Runaway_Detector
begin

text \<open>
  The projection of a step (\<^verbatim>\<open>runaway-guard/src/step-view.ts\<close>), the guard (\<^verbatim>\<open>guard.ts\<close>) and the replay of a captured
  trajectory (\<^verbatim>\<open>replay.ts\<close>).  Messages and tool results are those of the agent runner; only the fields the
  guard reads are modelled.  A policy callback is a function; one that throws is one that returns the
  value the code falls back to; nothing the model's values do makes \<^verbatim>\<open>verifiedProgressMap\<close> or
  \<^verbatim>\<open>trustedToolProvenanceMap\<close> throw, so the best-effort variants the guard calls are those functions.  The keyed hash is the argument \<open>hmac\<close>, the random secrets are the field
  \<open>g_secrets\<close> of the guard.
\<close>

section \<open>Inputs\<close>

datatype ContentBlock = ToolCallBlock string string jsval | OtherBlock

record StepMessage =
  m_role :: string
  m_content :: "ContentBlock list"
  m_totalTokens :: jsval

record ToolResultMessage =
  x_toolCallId :: string
  x_toolName :: string
  x_content :: jsval
  x_details :: jsval
  x_isError :: bool

record BlockedToolCall =
  b_toolCallId :: string
  b_blockedBy :: string

record RunawayGuardProgressProjection =
  pp_loopKey :: jsval
  pp_progressKey :: jsval
  pp_newFacts :: jsval
  pp_stateChanged :: jsval
  pp_artifactChanged :: jsval
  pp_polling :: jsval

record RunawayGuardVerifiedToolProgress =
  vp_toolCallId :: string
  vp_projection :: RunawayGuardProgressProjection

record RunawayGuardTrustedToolProvenance =
  tp_toolCallId :: string
  tp_toolName :: string
  tp_source :: string

record ToolStepResult =
  sr_toolName :: string
  sr_content :: jsval
  sr_details :: jsval
  sr_isError :: bool

record RunawayGuardToolStep =
  tl_toolCallId :: string
  tl_toolName :: string
  tl_arguments :: jsval
  tl_result :: "ToolStepResult option"
  tl_verifiedProgress :: "RunawayGuardVerifiedToolProgress option"
  tl_trustedToolProvenance :: "RunawayGuardTrustedToolProvenance option"

text \<open>Callbacks: \<open>None\<close> is an absent callback; \<open>projectActionKey\<close> and \<open>projectProgress\<close> give \<open>None\<close> when they
  throw, \<open>isExpectedResult\<close> gives \<open>False\<close>.\<close>

record RunawayGuardToolPolicy =
  po_kind :: RunawayGuardToolPolicyKind
  po_projectActionKey :: "(jsval \<Rightarrow> jsval option) option"
  po_isExpectedResult :: "(RunawayGuardToolStep \<Rightarrow> bool) option"
  po_projectProgress :: "(RunawayGuardToolStep \<Rightarrow> RunawayGuardProgressProjection option) option"

record RunawayGuardReplayStep =
  rs_message :: StepMessage
  rs_toolResults :: "ToolResultMessage list"
  rs_blockedToolCalls :: "BlockedToolCall list option"
  rs_verifiedProgress :: "RunawayGuardVerifiedToolProgress list option"
  rs_trustedToolProvenance :: "RunawayGuardTrustedToolProvenance list option"

section \<open>Projection of a step\<close>

fun js_is_bool_or_undefined :: "jsval \<Rightarrow> bool" where
  "js_is_bool_or_undefined JUndefined = True"
| "js_is_bool_or_undefined (JBool _) = True"
| "js_is_bool_or_undefined _ = False"

definition record_fields :: "jsval \<Rightarrow> js_record" where
  "record_fields v = (case v of JObj _ _ fs \<Rightarrow> fs | _ \<Rightarrow> [])"

definition validPollingControl :: "jsval \<Rightarrow> bool" where
  "validPollingControl v =
     (v = JUndefined \<or>
      isRecord v \<and>
      (js_prop (record_fields v) ''mode'' = JStr ''continuous'' \<or> js_prop (record_fields v) ''mode'' = JStr ''reset'') \<and>
      js_is_bool_or_undefined (js_prop (record_fields v) ''reminderEligible''))"

text \<open>\<^verbatim>\<open>Number.isSafeInteger(n) && n >= 0\<close>.\<close>

definition safe_natural :: "jsval \<Rightarrow> bool" where
  "safe_natural v = (case v of JNum (NInt i) \<Rightarrow> 0 \<le> i \<and> i \<le> 9007199254740991 | _ \<Rightarrow> False)"

definition validProgressProjection :: "RunawayGuardProgressProjection \<Rightarrow> bool" where
  "validProgressProjection p =
     (pp_loopKey p \<noteq> JUndefined \<and> pp_loopKey p \<noteq> JNull \<and> pp_progressKey p \<noteq> JUndefined \<and> pp_progressKey p \<noteq> JNull \<and>
      (pp_newFacts p = JUndefined \<or> safe_natural (pp_newFacts p)) \<and>
      js_is_bool_or_undefined (pp_stateChanged p) \<and> js_is_bool_or_undefined (pp_artifactChanged p) \<and>
      validPollingControl (pp_polling p))"

fun toolCallIds :: "ContentBlock list \<Rightarrow> string list" where
  "toolCallIds [] = []"
| "toolCallIds (ToolCallBlock i n a # bs) = i # toolCallIds bs"
| "toolCallIds (OtherBlock # bs) = toolCallIds bs"

definition toolCallIdsFromMessage :: "StepMessage \<Rightarrow> string list" where
  "toolCallIdsFromMessage m = (if m_role m \<noteq> ''assistant'' then [] else toolCallIds (m_content m))"

text \<open>\<^verbatim>\<open>new Map(entries)\<close>: a later entry overwrites an earlier one.\<close>

definition new_map :: "('k \<times> 'v) list \<Rightarrow> ('k \<times> 'v) list" where
  "new_map entries = fold (\<lambda>(k, v) m. AList.update k v m) entries []"

definition verifiedProgressMap ::
  "RunawayGuardVerifiedToolProgress list \<Rightarrow> string list \<Rightarrow> (string \<times> RunawayGuardVerifiedToolProgress) list" where
  "verifiedProgressMap values expected =
     new_map (map (\<lambda>v. (vp_toolCallId v, v))
       (filter (\<lambda>v. vp_toolCallId v \<in> set expected \<and> validProgressProjection (vp_projection v)) values))"

definition trustedToolProvenanceMap ::
  "RunawayGuardTrustedToolProvenance list \<Rightarrow> string list \<Rightarrow> (string \<times> RunawayGuardTrustedToolProvenance) list" where
  "trustedToolProvenanceMap values expected =
     new_map (map (\<lambda>v. (tp_toolCallId v, v))
       (filter (\<lambda>v. tp_toolCallId v \<in> set expected \<and> tp_toolName v \<noteq> [] \<and>
          (tp_source v = ''builtin'' \<or> tp_source v = ''captured-compatibility'')) values))"

definition projectActionKeyBestEffort :: "RunawayGuardToolPolicy option \<Rightarrow> jsval \<Rightarrow> jsval" where
  "projectActionKeyBestEffort policy args =
     (case policy of
        None \<Rightarrow> args
      | Some p \<Rightarrow>
          (case po_projectActionKey p of
             None \<Rightarrow> args
           | Some f \<Rightarrow> (case f args of
               None \<Rightarrow> args
             | Some v \<Rightarrow> if v = JUndefined \<or> v = JNull then args else v)))"

definition projectProgressBestEffort ::
  "RunawayGuardToolPolicy option \<Rightarrow> RunawayGuardToolStep \<Rightarrow> RunawayGuardProgressProjection option" where
  "projectProgressBestEffort policy step =
     (let own = (case policy of
                   None \<Rightarrow> None
                 | Some p \<Rightarrow>
                     (case po_projectProgress p of
                        None \<Rightarrow> None
                      | Some f \<Rightarrow> (case f step of
                          None \<Rightarrow> None
                        | Some pr \<Rightarrow> if validProgressProjection pr then Some pr else None)))
      in case own of
           Some pr \<Rightarrow> Some pr
         | None \<Rightarrow>
             (case tl_verifiedProgress step of
                None \<Rightarrow> None
              | Some vp \<Rightarrow>
                  if validProgressProjection (vp_projection vp)
                  then Some ((vp_projection vp)\<lparr>pp_polling := JUndefined\<rparr>) else None))"

definition isExpectedResultBestEffort :: "RunawayGuardToolPolicy option \<Rightarrow> RunawayGuardToolStep \<Rightarrow> bool" where
  "isExpectedResultBestEffort policy step =
     (case policy of
        None \<Rightarrow> False
      | Some p \<Rightarrow> (case po_isExpectedResult p of None \<Rightarrow> False | Some f \<Rightarrow> f step))"

definition hasPositiveProgress :: "RunawayGuardProgressProjection option \<Rightarrow> bool" where
  "hasPositiveProgress projection =
     (case projection of
        None \<Rightarrow> False
      | Some p \<Rightarrow> pp_stateChanged p = JBool True \<or> pp_artifactChanged p = JBool True \<or>
          (case pp_newFacts p of JNum (NInt i) \<Rightarrow> i > 0 | _ \<Rightarrow> False))"

subsection \<open>Error families\<close>

definition word_char :: "char \<Rightarrow> bool" where
  "word_char c = (let n = (of_char c :: nat) in
     48 \<le> n \<and> n \<le> 57 \<or> 65 \<le> n \<and> n \<le> 90 \<or> 97 \<le> n \<and> n \<le> 122 \<or> n = 95)"

text \<open>\<^verbatim>\<open>\\bW\\b\<close> for a word \<open>W\<close> of word characters; the flag says whether the previous character is one.\<close>

fun word_match :: "string \<Rightarrow> bool \<Rightarrow> string \<Rightarrow> bool" where
  "word_match w prev [] = False"
| "word_match w prev (c # s) =
     (\<not> prev \<and> prefix w (c # s) \<and> (case drop (length w) (c # s) of [] \<Rightarrow> True | e # _ \<Rightarrow> \<not> word_char e) \<or>
      word_match w (word_char c) s)"

text \<open>\<^verbatim>\<open>rate.?limit\<close>: the dot matches anything but a line terminator.\<close>

fun rate_limit_match :: "string \<Rightarrow> bool" where
  "rate_limit_match [] = False"
| "rate_limit_match (c # s) =
     (prefix ''ratelimit'' (c # s) \<or>
      prefix ''rate'' (c # s) \<and> (case drop 4 (c # s) of
         e # r \<Rightarrow> e \<noteq> CHR 0x0A \<and> e \<noteq> CHR 0x0D \<and> prefix ''limit'' r
       | [] \<Rightarrow> False) \<or>
      rate_limit_match s)"

definition has_any :: "string list \<Rightarrow> string \<Rightarrow> bool" where
  "has_any ws s = list_ex (js_includes s) ws"

definition ERROR_CATEGORIES :: "(string \<times> (string \<Rightarrow> bool)) list" where
  "ERROR_CATEGORIES =
    [(''timeout'', has_any [''timeout'', ''timed out'', ''deadline exceeded'']),
     (''rate_limit'', \<lambda>s. rate_limit_match s \<or> has_any [''too many requests''] s \<or> word_match ''429'' False s),
     (''network'', has_any [''network'', ''econn'', ''socket'', ''dns'', ''connection reset'']),
     (''auth'', \<lambda>s. has_any [''unauth'', ''invalid api key''] s \<or> word_match ''401'' False s),
     (''permission'', \<lambda>s. has_any [''permission'', ''forbidden'', ''access denied''] s \<or> word_match ''403'' False s),
     (''not_found'', \<lambda>s. has_any [''not found'', ''enoent''] s \<or> word_match ''404'' False s),
     (''invalid_argument'', \<lambda>s. has_any [''invalid argument'', ''validation failed'', ''bad request''] s \<or> word_match ''400'' False s),
     (''process_exit'', has_any [''exit code'', ''non-zero'', ''process failed''])]"

fun structured_code_loop :: "js_record \<Rightarrow> string list \<Rightarrow> string option" where
  "structured_code_loop fs [] = None"
| "structured_code_loop fs (k # ks) =
     (case js_prop fs k of
        JStr s \<Rightarrow> if s \<noteq> [] \<and> length s \<le> 128 then Some s else structured_code_loop fs ks
      | JNum (NInt i) \<Rightarrow> Some (show_int i)
      | _ \<Rightarrow> structured_code_loop fs ks)"

definition structuredErrorCode :: "jsval \<Rightarrow> string option" where
  "structuredErrorCode details =
     (if \<not> isRecord details then None
      else structured_code_loop (record_fields details) [''error_code'', ''errorCode'', ''code'', ''status''])"

fun first_text_loop :: "jsval list \<Rightarrow> string option" where
  "first_text_loop [] = None"
| "first_text_loop (b # bs) =
     (if \<not> isRecord b \<or> js_prop (record_fields b) ''type'' \<noteq> JStr ''text'' then first_text_loop bs
      else case js_prop (record_fields b) ''text'' of
        JStr s \<Rightarrow> if s \<noteq> [] \<and> length s \<le> 4096 then Some s else first_text_loop bs
      | _ \<Rightarrow> first_text_loop bs)"

definition firstText :: "jsval \<Rightarrow> string option" where
  "firstText content = (case content of JArr _ bs \<Rightarrow> first_text_loop bs | _ \<Rightarrow> None)"

text \<open>\<^verbatim>\<open>s.replace(/\\s+/g, ' ')\<close>; the flag says whether the previous character was white space.\<close>

fun collapse_space :: "bool \<Rightarrow> string \<Rightarrow> string" where
  "collapse_space prev [] = []"
| "collapse_space prev (c # s) =
     (if js_space c then (if prev then collapse_space True s else CHR '' '' # collapse_space True s)
      else c # collapse_space False s)"

definition errorFamily :: "string \<Rightarrow> jsval \<Rightarrow> jsval \<Rightarrow> string option" where
  "errorFamily toolName details content =
     (case structuredErrorCode details of
        Some code \<Rightarrow> Some (toolName @ [CHR 0x00] @ ''code:'' @ code)
      | None \<Rightarrow>
          (case firstText content of
             None \<Rightarrow> None
           | Some txt \<Rightarrow>
               (let normalized = map to_lower txt in
                case find (\<lambda>(name, test). test normalized) ERROR_CATEGORIES of
                  Some (name, _) \<Rightarrow> Some (toolName @ [CHR 0x00] @ ''category:'' @ name)
                | None \<Rightarrow>
                    (let bounded = take 1024 (js_trim (collapse_space False normalized))
                     in if bounded \<noteq> [] then Some (toolName @ [CHR 0x00] @ ''text:'' @ bounded) else None))))"

subsection \<open>The loops of the projection\<close>

record Projection =
  pj_detectActionKeys :: "string list"
  pj_pollingActionKeys :: "string list"
  pj_detectResultKeys :: "string list"
  pj_errorFamilyKeys :: "string list"
  pj_remindableErrorFamilyKeys :: "string list"
  pj_progress :: "ProgressView list"
  pj_actionKeysByCallId :: "(string \<times> string) list"
  pj_expectedResultCallIds :: "string list"
  pj_skipped :: nat

definition literal :: "js_record \<Rightarrow> jsval" where
  "literal fs = JObj None True fs"

definition polling_mode :: "jsval \<Rightarrow> jsval" where
  "polling_mode control = js_prop (record_fields control) ''mode''"

definition appendPollingControl ::
  "(jsval \<Rightarrow> string option) \<Rightarrow> jsval \<Rightarrow> RunawayGuardProgressProjection option \<Rightarrow> string \<Rightarrow> Projection \<Rightarrow> Projection" where
  "appendPollingControl fp control projection toolName pj =
     (case projection of
        None \<Rightarrow> pj
      | Some p \<Rightarrow>
          if polling_mode control \<noteq> JStr ''reset'' then pj
          else (let loopKey = fp (literal [(''toolName'', JStr toolName), (''loopKey'', pp_loopKey p)]) in
                if \<not> truthy_str loopKey
                then pj\<lparr>pj_skipped := pj_skipped pj + 1, pj_progress := pj_progress pj @ [ProgressInterrupt]\<rparr>
                else pj\<lparr>pj_progress := pj_progress pj @ [ProgressReset (the loopKey)]\<rparr>))"

text \<open>The observation of progress inside the call loop: the new projection and \<^verbatim>\<open>observedChange\<close>.\<close>

definition project_progress ::
  "(jsval \<Rightarrow> string option) \<Rightarrow> RunawayGuardToolPolicyKind \<Rightarrow> jsval \<Rightarrow> RunawayGuardProgressProjection option \<Rightarrow>
   RunawayGuardVerifiedToolProgress option \<Rightarrow> string \<Rightarrow> Projection \<Rightarrow> Projection \<times> bool" where
  "project_progress fp policy control projection verified toolName pj =
     (case projection of
        None \<Rightarrow> (pj, False)
      | Some p \<Rightarrow>
          if polling_mode control = JStr ''reset'' then (pj, False)
          else
            (let continuous = (polling_mode control = JStr ''continuous'');
                 loopKey = fp (literal [(''toolName'', JStr toolName), (''loopKey'', pp_loopKey p)]);
                 progressKey = fp (literal [(''toolName'', JStr toolName), (''progressKey'', pp_progressKey p)])
             in if truthy_str loopKey \<and> truthy_str progressKey
                then (let observedChange = (hasPositiveProgress projection \<or>
                            continuous \<and> hasPositiveProgress (map_option vp_projection verified))
                      in (pj\<lparr>pj_progress := pj_progress pj @ [ProgressObservation policy (the loopKey) (the progressKey)
                               observedChange continuous
                               (continuous \<and> js_prop (record_fields control) ''reminderEligible'' = JBool True)]\<rparr>,
                          observedChange))
                else (pj\<lparr>pj_skipped := pj_skipped pj + (if truthy_str loopKey then 0 else 1) + (if truthy_str progressKey then 0 else 1),
                         pj_progress := pj_progress pj @ (if continuous then [ProgressInterrupt] else [])\<rparr>, False)))"

text \<open>The rest of the call loop's body, for a call that is neither excluded nor exempt.\<close>

definition project_action ::
  "(jsval \<Rightarrow> string option) \<Rightarrow> RunawayGuardToolPolicyKind \<Rightarrow> RunawayGuardToolPolicy option \<Rightarrow> string \<Rightarrow> string \<Rightarrow> jsval \<Rightarrow> jsval \<Rightarrow>
   RunawayGuardProgressProjection option \<Rightarrow> RunawayGuardVerifiedToolProgress option \<Rightarrow> bool \<Rightarrow> Projection \<Rightarrow> Projection" where
  "project_action fp policy configured callId name args control projection verified expectedError pj2 =
     (let pj3 = (if expectedError then pj2\<lparr>pj_expectedResultCallIds := callId # pj_expectedResultCallIds pj2\<rparr> else pj2);
          (pj4, observedChange) = project_progress fp policy control projection verified name pj3;
          actionKey = fp (literal [(''toolName'', JStr name), (''actionKey'', projectActionKeyBestEffort configured args)])
      in if \<not> truthy_str actionKey then pj4\<lparr>pj_skipped := pj_skipped pj4 + 1\<rparr>
         else
           (let pj5 = pj4\<lparr>pj_actionKeysByCallId := AList.update callId (the actionKey) (pj_actionKeysByCallId pj4)\<rparr>
            in if observedChange
               then pj5\<lparr>pj_expectedResultCallIds := callId # pj_expectedResultCallIds pj5\<rparr>
               else if policy = PolicyPolling
               then (if projection = None
                     then pj5\<lparr>pj_pollingActionKeys := pj_pollingActionKeys pj5 @ [the actionKey]\<rparr> else pj5)
               else pj5\<lparr>pj_detectActionKeys := pj_detectActionKeys pj5 @ [the actionKey]\<rparr>))"

definition project_call ::
  "(jsval \<Rightarrow> string option) \<Rightarrow> (string \<times> RunawayGuardToolPolicy) list \<Rightarrow> string list \<Rightarrow> (string \<times> ToolResultMessage) list \<Rightarrow>
   (string \<times> RunawayGuardVerifiedToolProgress) list \<Rightarrow> (string \<times> RunawayGuardTrustedToolProvenance) list \<Rightarrow>
   ContentBlock \<Rightarrow> Projection \<Rightarrow> Projection" where
  "project_call fp policies excludedIds resultsByCallId verifiedMap provenanceMap block pj =
     (case block of
        OtherBlock \<Rightarrow> pj
      | ToolCallBlock callId name args \<Rightarrow>
          (let excluded = (callId \<in> set excludedIds);
               configured = map_of policies name;
               policy = (case configured of Some p \<Rightarrow> po_kind p | None \<Rightarrow> PolicyDetect);
               result = map_of resultsByCallId callId;
               projectedResult = (if excluded then None else result);
               verified = (if excluded then None else map_of verifiedMap callId);
               toolStep = \<lparr>tl_toolCallId = callId, tl_toolName = name, tl_arguments = args,
                 tl_result = map_option (\<lambda>r. \<lparr>sr_toolName = x_toolName r, sr_content = x_content r,
                   sr_details = x_details r, sr_isError = x_isError r\<rparr>) projectedResult,
                 tl_verifiedProgress = verified, tl_trustedToolProvenance = map_of provenanceMap callId\<rparr>;
               projection = projectProgressBestEffort configured toolStep;
               control = (if policy = PolicyPolling then (case projection of Some p \<Rightarrow> pp_polling p | None \<Rightarrow> JUndefined)
                          else JUndefined);
               pj1 = appendPollingControl fp control projection name pj;
               pj2 = (if js_truthy control then pj1 else pj1\<lparr>pj_progress := pj_progress pj1 @ [ProgressInterrupt]\<rparr>)
           in if excluded \<or> policy = PolicyExempt then pj2
              else project_action fp policy configured callId name args control projection verified
                     ((case result of Some r \<Rightarrow> x_isError r | None \<Rightarrow> False) \<and>
                      isExpectedResultBestEffort configured toolStep) pj2))"

definition project_result ::
  "(jsval \<Rightarrow> string option) \<Rightarrow> (string \<times> RunawayGuardToolPolicy) list \<Rightarrow> string list \<Rightarrow> ToolResultMessage \<Rightarrow> Projection \<Rightarrow> Projection" where
  "project_result fp policies excludedIds r pj =
     (if x_toolCallId r \<in> set excludedIds then pj
      else
        (let policy = (case map_of policies (x_toolName r) of Some p \<Rightarrow> po_kind p | None \<Rightarrow> PolicyDetect);
             projected = literal ([(''toolName'', JStr (x_toolName r)), (''content'', x_content r), (''isError'', JBool (x_isError r))] @
               (if x_details r = JUndefined then [] else [(''details'', x_details r)]));
             pj1 = (if policy = PolicyDetect
                    then (let resultKey = fp projected in
                          if truthy_str resultKey then pj\<lparr>pj_detectResultKeys := pj_detectResultKeys pj @ [the resultKey]\<rparr>
                          else pj\<lparr>pj_skipped := pj_skipped pj + 1\<rparr>)
                    else pj)
         in if x_isError r \<and> policy \<noteq> PolicyExempt \<and> x_toolCallId r \<notin> set (pj_expectedResultCallIds pj1)
            then (case errorFamily (x_toolName r) (x_details r) (x_content r) of
                    None \<Rightarrow> pj1
                  | Some family \<Rightarrow>
                      (let actionKey = map_of (pj_actionKeysByCallId pj1) (x_toolCallId r);
                           key = fp (literal [(''family'', JStr family),
                             (''actionKey'', case actionKey of Some k \<Rightarrow> JStr k | None \<Rightarrow> JNull)])
                       in if \<not> truthy_str key then pj1\<lparr>pj_skipped := pj_skipped pj1 + 1\<rparr>
                          else pj1\<lparr>pj_errorFamilyKeys := pj_errorFamilyKeys pj1 @ [the key],
                                   pj_remindableErrorFamilyKeys :=
                                     (if policy = PolicyDetect \<and> truthy_str actionKey
                                      then List.insert (the key) (pj_remindableErrorFamilyKeys pj1)
                                      else pj_remindableErrorFamilyKeys pj1)\<rparr>))
            else pj1))"

definition empty_projection :: Projection where
  "empty_projection = \<lparr>pj_detectActionKeys = [], pj_pollingActionKeys = [], pj_detectResultKeys = [], pj_errorFamilyKeys = [],
     pj_remindableErrorFamilyKeys = [], pj_progress = [], pj_actionKeysByCallId = [], pj_expectedResultCallIds = [],
     pj_skipped = 0\<rparr>"

definition excluded_ids :: "BlockedToolCall list \<Rightarrow> string list" where
  "excluded_ids blocked = map b_toolCallId (filter (\<lambda>c. b_blockedBy c = ''permission'') blocked)"

text \<open>The projection never reads a streak: of the state it uses the secret and counts skipped fingerprints.\<close>

definition projectStep ::
  "Hmac \<Rightarrow> StepMessage \<Rightarrow> ToolResultMessage list \<Rightarrow> ShadowState \<Rightarrow> (string \<times> RunawayGuardToolPolicy) list \<Rightarrow> nat \<Rightarrow>
   (string \<times> RunawayGuardVerifiedToolProgress) list \<Rightarrow> (string \<times> RunawayGuardTrustedToolProvenance) list \<Rightarrow>
   BlockedToolCall list \<Rightarrow> ShadowState \<times> StepView" where
  "projectStep hmac message toolResults st policies maxBytes verifiedMap provenanceMap blocked =
     (let excludedIds = excluded_ids blocked;
          fp = (\<lambda>v. fingerprintWithinBudget hmac (sh_secret st) v maxBytes);
          resultsByCallId = new_map (map (\<lambda>r. (x_toolCallId r, r)) toolResults);
          pj1 = (if m_role message = ''assistant''
                 then fold (project_call fp policies excludedIds resultsByCallId verifiedMap provenanceMap)
                        (m_content message) empty_projection
                 else empty_projection);
          pj2 = fold (project_result fp policies excludedIds) toolResults pj1;
          actionKeys = sort (pj_detectActionKeys pj2)
      in (st\<lparr>sh_fingerprintSkippedCount := sh_fingerprintSkippedCount st + pj_skipped pj2\<rparr>,
          \<lparr>sv_detectActionKeys = actionKeys, sv_pollingActionKeys = sort (pj_pollingActionKeys pj2),
           sv_detectResultKeys = sort (pj_detectResultKeys pj2), sv_errorFamilyKeys = sort (pj_errorFamilyKeys pj2),
           sv_remindableErrorFamilyKeys = pj_remindableErrorFamilyKeys pj2, sv_progress = pj_progress pj2,
           sv_detectActionBatchKey =
             (if actionKeys \<noteq> []
              then Some (fingerprint hmac (sh_secret st) (''action-batch'' @ [CHR 0x00] @ js_join [CHR 0x00] actionKeys))
              else None)\<rparr>))"

section \<open>The guard\<close>

record RunawayGuardOptions =
  op_toolPolicies :: "(string \<times> RunawayGuardToolPolicy) list option"
  op_maxFingerprintBytes :: "jsnum option"
  op_remindAfterOccurrences :: "jsnum option"

record RunawayGuard =
  g_maxFingerprintBytes :: nat
  g_afterOccurrences :: "nat option"
  g_policies :: "(string \<times> RunawayGuardToolPolicy) list"
  g_states :: "(string \<times> ShadowState) list"
  g_secrets :: "nat \<Rightarrow> string"
  g_secretCount :: nat

definition integerAtLeast :: "jsnum \<Rightarrow> int \<Rightarrow> string \<Rightarrow> string + nat" where
  "integerAtLeast v minimum field =
     (case v of
        NInt i \<Rightarrow> if i < minimum
          then Inl (''runawayGuardExtension: '' @ field @ '' must be an integer >= '' @ show_int minimum) else Inr (nat i)
      | _ \<Rightarrow> Inl (''runawayGuardExtension: '' @ field @ '' must be an integer >= '' @ show_int minimum))"

definition createRunawayGuard :: "(nat \<Rightarrow> string) \<Rightarrow> RunawayGuardOptions \<Rightarrow> string + RunawayGuard" where
  "createRunawayGuard secrets options =
     (case positiveInteger (nullish (op_maxFingerprintBytes options) (NInt (int DEFAULT_MAX_FINGERPRINT_BYTES)))
             ''maxFingerprintBytes'' of
        Inl e \<Rightarrow> Inl e
      | Inr maxBytes \<Rightarrow>
          (case (case op_remindAfterOccurrences options of
                   None \<Rightarrow> Inr None
                 | Some n \<Rightarrow> (case integerAtLeast n 3 ''remindAfterOccurrences'' of Inl e \<Rightarrow> Inl e | Inr k \<Rightarrow> Inr (Some k))) of
             Inl e \<Rightarrow> Inl e
           | Inr after \<Rightarrow>
               Inr \<lparr>g_maxFingerprintBytes = maxBytes, g_afterOccurrences = after,
                    g_policies = nullish (op_toolPolicies options) [], g_states = [], g_secrets = secrets,
                    g_secretCount = 0\<rparr>))"

definition stateFor :: "RunawayGuard \<Rightarrow> RunawayGuardRunIdentity \<Rightarrow> RunawayGuard \<times> ShadowState" where
  "stateFor g ctx =
     (case map_of (g_states g) (runKey ctx) of
        Some st \<Rightarrow> (g, st)
      | None \<Rightarrow>
          (let st = newShadowState (g_secrets g (g_secretCount g))
           in (g\<lparr>g_states := AList.update (runKey ctx) st (g_states g), g_secretCount := Suc (g_secretCount g)\<rparr>, st)))"

text \<open>The part of \<^verbatim>\<open>observe\<close> and of the replay loop up to the detector: count the step, project it, detect.\<close>

definition detect_step ::
  "Hmac \<Rightarrow> (string \<times> RunawayGuardToolPolicy) list \<Rightarrow> nat \<Rightarrow> RunawayGuardRunIdentity \<Rightarrow> nat option \<Rightarrow> ShadowState \<Rightarrow>
   RunawayGuardReplayStep \<Rightarrow> Detection" where
  "detect_step hmac policies maxBytes ctx threshold st step =
     (let st1 = st\<lparr>sh_stepIndex := sh_stepIndex st + 1\<rparr>;
          ids = toolCallIdsFromMessage (rs_message step);
          (st2, view) = projectStep hmac (rs_message step) (rs_toolResults step) st1 policies maxBytes
            (verifiedProgressMap (nullish (rs_verifiedProgress step) []) ids)
            (trustedToolProvenanceMap (nullish (rs_trustedToolProvenance step) []) ids)
            (nullish (rs_blockedToolCalls step) [])
      in observeStep view ctx threshold \<lparr>dt_state = st2, dt_observations = [], dt_candidates = {}\<rparr>)"

definition guard_observe ::
  "Hmac \<Rightarrow> RunawayGuard \<Rightarrow> RunawayGuardRunIdentity \<Rightarrow> RunawayGuardReplayStep \<Rightarrow> bool \<Rightarrow>
   RunawayGuard \<times> RunawayGuardReminder option \<times> RunawayGuardObservation list" where
  "guard_observe hmac g ctx step shouldRemind =
     (let (g1, st) = stateFor g ctx;
          threshold = (if shouldRemind then g_afterOccurrences g else None);
          d = detect_step hmac (g_policies g) (g_maxFingerprintBytes g) ctx threshold st step;
          (st', reminder) = (case threshold of
              None \<Rightarrow> (dt_state d, None)
            | Some n \<Rightarrow> takePreferredReminder (dt_candidates d) ctx (dt_state d) n)
      in (g1\<lparr>g_states := AList.update (runKey ctx) st' (g_states g1)\<rparr>, reminder, dt_observations d))"

definition guard_clearDetectionStreaks :: "RunawayGuard \<Rightarrow> RunawayGuardRunIdentity \<Rightarrow> RunawayGuard" where
  "guard_clearDetectionStreaks g ctx =
     (case map_of (g_states g) (runKey ctx) of
        None \<Rightarrow> g
      | Some st \<Rightarrow> g\<lparr>g_states := AList.update (runKey ctx) (clearDetectionStreaks st) (g_states g)\<rparr>)"

definition guard_markReminderInjected :: "RunawayGuard \<Rightarrow> RunawayGuardRunIdentity \<Rightarrow> RunawayGuard" where
  "guard_markReminderInjected g ctx =
     (case map_of (g_states g) (runKey ctx) of
        None \<Rightarrow> g
      | Some st \<Rightarrow> g\<lparr>g_states := AList.update (runKey ctx) (st\<lparr>sh_reminderInjected := True\<rparr>) (g_states g)\<rparr>)"

definition guard_finishTurn :: "RunawayGuard \<Rightarrow> RunawayGuardRunIdentity \<Rightarrow> RunawayGuard \<times> RunawayGuardTurnSummary option" where
  "guard_finishTurn g ctx =
     (case map_of (g_states g) (runKey ctx) of
        None \<Rightarrow> (g, None)
      | Some st \<Rightarrow> (g\<lparr>g_states := AList.delete (runKey ctx) (g_states g)\<rparr>, Some (snapshotTurnSummary ctx st)))"

section \<open>Replay\<close>

record RunawayGuardReplayInput =
  rp_sessionId :: string
  rp_turnId :: string
  rp_agentName :: string
  rp_steps :: "RunawayGuardReplayStep list"
  rp_toolPolicies :: "(string \<times> RunawayGuardToolPolicy) list option"
  rp_maxFingerprintBytes :: "jsnum option"

record ReplayMetrics =
  mt_toolCallCount :: nat
  mt_providerTokens :: nat
  mt_firstSignalStepIndex :: "nat option"
  mt_postSignalStepCount :: nat
  mt_postSignalToolCallCount :: nat
  mt_postSignalProviderTokens :: nat

record RunawayGuardReplayResult =
  re_observations :: "RunawayGuardObservation list"
  re_summary :: RunawayGuardTurnSummary
  re_metrics :: ReplayMetrics

definition assistantMessageTokens :: "StepMessage \<Rightarrow> nat" where
  "assistantMessageTokens m =
     (if m_role m \<noteq> ''assistant'' then 0
      else case m_totalTokens m of JNum (NInt i) \<Rightarrow> if 0 \<le> i then nat i else 0 | _ \<Rightarrow> 0)"

definition first_signal :: "RunawayGuardObservation list \<Rightarrow> nat option" where
  "first_signal obs =
     fold (\<lambda>ob m. case m of None \<Rightarrow> Some (ob_stepIndex ob) | Some k \<Rightarrow> Some (min k (ob_stepIndex ob))) obs None"

fun metrics_loop :: "nat option \<Rightarrow> nat \<Rightarrow> RunawayGuardReplayStep list \<Rightarrow> ReplayMetrics \<Rightarrow> ReplayMetrics" where
  "metrics_loop first index [] m = m"
| "metrics_loop first index (step # steps) m =
     (let stepIndex = index + 1;
          calls = length (toolCallIdsFromMessage (rs_message step));
          tokens = assistantMessageTokens (rs_message step);
          m1 = m\<lparr>mt_toolCallCount := mt_toolCallCount m + calls, mt_providerTokens := mt_providerTokens m + tokens\<rparr>;
          m2 = (if (case first of Some f \<Rightarrow> stepIndex > f | None \<Rightarrow> False)
                then m1\<lparr>mt_postSignalToolCallCount := mt_postSignalToolCallCount m1 + calls,
                        mt_postSignalProviderTokens := mt_postSignalProviderTokens m1 + tokens\<rparr> else m1)
      in metrics_loop first (index + 1) steps m2)"

definition replayMetrics :: "RunawayGuardReplayStep list \<Rightarrow> RunawayGuardObservation list \<Rightarrow> ReplayMetrics" where
  "replayMetrics steps obs =
     (let first = first_signal obs in
      metrics_loop first 0 steps
        \<lparr>mt_toolCallCount = 0, mt_providerTokens = 0, mt_firstSignalStepIndex = first,
         mt_postSignalStepCount = (case first of None \<Rightarrow> 0 | Some f \<Rightarrow> length steps - f),
         mt_postSignalToolCallCount = 0, mt_postSignalProviderTokens = 0\<rparr>)"

fun replay_loop ::
  "Hmac \<Rightarrow> (string \<times> RunawayGuardToolPolicy) list \<Rightarrow> nat \<Rightarrow> RunawayGuardRunIdentity \<Rightarrow> ShadowState \<Rightarrow>
   RunawayGuardReplayStep list \<Rightarrow> ShadowState \<times> RunawayGuardObservation list" where
  "replay_loop hmac policies maxBytes ctx st [] = (st, [])"
| "replay_loop hmac policies maxBytes ctx st (step # steps) =
     (let d = detect_step hmac policies maxBytes ctx None st step;
          (st', obs) = replay_loop hmac policies maxBytes ctx (dt_state d) steps
      in (st', dt_observations d @ obs))"

definition replayRunawayGuardTrajectory :: "Hmac \<Rightarrow> string \<Rightarrow> RunawayGuardReplayInput \<Rightarrow> string + RunawayGuardReplayResult" where
  "replayRunawayGuardTrajectory hmac secret input =
     (case positiveInteger (nullish (rp_maxFingerprintBytes input) (NInt (int DEFAULT_MAX_FINGERPRINT_BYTES)))
             ''maxFingerprintBytes'' of
        Inl e \<Rightarrow> Inl e
      | Inr maxBytes \<Rightarrow>
          (let ctx = \<lparr>ri_sessionId = rp_sessionId input, ri_turnId = rp_turnId input, ri_agentName = rp_agentName input\<rparr>;
               (st, obs) = replay_loop hmac (nullish (rp_toolPolicies input) []) maxBytes ctx (newShadowState secret) (rp_steps input)
           in Inr \<lparr>re_observations = obs, re_summary = snapshotTurnSummary ctx st,
                   re_metrics = replayMetrics (rp_steps input) obs\<rparr>))"

section \<open>One step of a turn\<close>

lemma projectStep_state:
  "fst (projectStep hmac m rs st policies maxBytes vm pm blocked) =
     st\<lparr>sh_fingerprintSkippedCount := sh_fingerprintSkippedCount (fst (projectStep hmac m rs st policies maxBytes vm pm blocked))\<rparr>"
  by (simp add: projectStep_def Let_def)

lemma detect_step_turn:
  fixes hmac policies maxBytes ctx threshold st step
  defines "d \<equiv> detect_step hmac policies maxBytes ctx threshold st step"
  shows "sh_stepIndex (dt_state d) = Suc (sh_stepIndex st)"
    "sh_reminderAttempted (dt_state d) = sh_reminderAttempted st"
    "sh_reminderInjected (dt_state d) = sh_reminderInjected st"
    "sh_secret (dt_state d) = sh_secret st"
    "stats_of obs0 (sh_signalStats st) \<Longrightarrow> stats_of (obs0 @ dt_observations d) (sh_signalStats (dt_state d))"
proof -
  obtain st2 view where v: "st2 = (st\<lparr>sh_stepIndex := sh_stepIndex st + 1\<rparr>)\<lparr>sh_fingerprintSkippedCount := sh_fingerprintSkippedCount st2\<rparr>"
    and d: "d = observeStep view ctx threshold \<lparr>dt_state = st2, dt_observations = [], dt_candidates = {}\<rparr>"
    unfolding d_def detect_step_def Let_def by (subst (asm) case_prod_beta) (metis projectStep_state)
  have f: "sh_stepIndex st2 = Suc (sh_stepIndex st)" "sh_reminderAttempted st2 = sh_reminderAttempted st"
    "sh_reminderInjected st2 = sh_reminderInjected st" "sh_secret st2 = sh_secret st" "sh_signalStats st2 = sh_signalStats st"
    using arg_cong [OF v, of sh_stepIndex] arg_cong [OF v, of sh_reminderAttempted] arg_cong [OF v, of sh_reminderInjected]
      arg_cong [OF v, of sh_secret] arg_cong [OF v, of sh_signalStats] by simp_all
  have "turn_frame st2 d" unfolding d by (rule frame.observeStep_I) (simp add: turn_frame_def)
  then show "sh_stepIndex (dt_state d) = Suc (sh_stepIndex st)"
    "sh_reminderAttempted (dt_state d) = sh_reminderAttempted st"
    "sh_reminderInjected (dt_state d) = sh_reminderInjected st"
    "sh_secret (dt_state d) = sh_secret st"
    by (simp_all add: turn_frame_def f)
  assume "stats_of obs0 (sh_signalStats st)"
  then have "turn_log obs0 d"
    unfolding d by (intro logged.observeStep_I) (simp add: turn_log_def f)
  then show "stats_of (obs0 @ dt_observations d) (sh_signalStats (dt_state d))" by (simp add: turn_log_def)
qed

text \<open>The state after a step, whether or not a reminder was reserved.\<close>

definition after_step :: "RunawayGuardRunIdentity \<Rightarrow> nat option \<Rightarrow> Detection \<Rightarrow> ShadowState \<times> RunawayGuardReminder option" where
  "after_step ctx threshold d =
     (case threshold of None \<Rightarrow> (dt_state d, None) | Some n \<Rightarrow> takePreferredReminder (dt_candidates d) ctx (dt_state d) n)"

lemma after_step_result:
  "after_step ctx threshold d = (st', r) \<Longrightarrow>
     (case r of
        None \<Rightarrow> st' = dt_state d
      | Some x \<Rightarrow> \<not> sh_reminderAttempted (dt_state d) \<and> st' = (dt_state d)\<lparr>sh_reminderAttempted := True\<rparr> \<and>
          Some (ob_occurrences (rm_observation x)) = threshold)"
  using reminder_loop_result [of REMINDER_CANDIDATE_PRIORITY "dt_candidates d" ctx "dt_state d" "the threshold" st' r]
  by (cases threshold; cases r) (simp_all add: after_step_def takePreferredReminder_def)

lemma guard_observe_eq:
  "guard_observe hmac g ctx step remind =
     (let st = snd (stateFor g ctx);
          threshold = (if remind then g_afterOccurrences g else None);
          d = detect_step hmac (g_policies g) (g_maxFingerprintBytes g) ctx threshold st step;
          (st', r) = after_step ctx threshold d
      in ((fst (stateFor g ctx))\<lparr>g_states := AList.update (runKey ctx) st' (g_states (fst (stateFor g ctx)))\<rparr>, r, dt_observations d))"
  by (simp add: guard_observe_def after_step_def Let_def case_prod_beta)

lemma stateFor_snd:
  "snd (stateFor g ctx) = nullish (map_of (g_states g) (runKey ctx)) (newShadowState (g_secrets g (g_secretCount g)))"
  by (simp add: stateFor_def Let_def nullish_def split: option.split)

lemma stateFor_config:
  "g_policies (fst (stateFor g ctx)) = g_policies g" "g_maxFingerprintBytes (fst (stateFor g ctx)) = g_maxFingerprintBytes g"
  "g_afterOccurrences (fst (stateFor g ctx)) = g_afterOccurrences g"
  "k \<noteq> runKey ctx \<Longrightarrow> map_of (g_states (fst (stateFor g ctx))) k = map_of (g_states g) k"
  by (simp_all add: stateFor_def Let_def split: option.split)

section \<open>The guard over a sequence of operations\<close>

datatype GuardOp =
    OpObserve RunawayGuardRunIdentity RunawayGuardReplayStep bool
  | OpClear RunawayGuardRunIdentity
  | OpMark RunawayGuardRunIdentity
  | OpFinish RunawayGuardRunIdentity

text \<open>What the caller of the guard sees of one turn since it started.\<close>

record TurnLog =
  lg_steps :: nat
  lg_observations :: "RunawayGuardObservation list"
  lg_reminders :: "RunawayGuardReminder list"
  lg_marked :: bool

definition empty_log :: TurnLog where
  "empty_log = \<lparr>lg_steps = 0, lg_observations = [], lg_reminders = [], lg_marked = False\<rparr>"

fun guard_exec :: "Hmac \<Rightarrow> GuardOp \<Rightarrow> RunawayGuard \<times> (string \<Rightarrow> TurnLog) \<Rightarrow> RunawayGuard \<times> (string \<Rightarrow> TurnLog)" where
  "guard_exec hmac (OpObserve ctx step remind) (g, lg) =
     (let (g', r, obs) = guard_observe hmac g ctx step remind;
          l = lg (runKey ctx)
      in (g', lg(runKey ctx := l\<lparr>lg_steps := Suc (lg_steps l), lg_observations := lg_observations l @ obs,
                                lg_reminders := lg_reminders l @ (case r of None \<Rightarrow> [] | Some x \<Rightarrow> [x])\<rparr>)))"
| "guard_exec hmac (OpClear ctx) (g, lg) = (guard_clearDetectionStreaks g ctx, lg)"
| "guard_exec hmac (OpMark ctx) (g, lg) =
     (guard_markReminderInjected g ctx,
      if lg_steps (lg (runKey ctx)) = 0 then lg else lg(runKey ctx := (lg (runKey ctx))\<lparr>lg_marked := True\<rparr>))"
| "guard_exec hmac (OpFinish ctx) (g, lg) = (fst (guard_finishTurn g ctx), lg(runKey ctx := empty_log))"

definition guard_run :: "Hmac \<Rightarrow> RunawayGuard \<Rightarrow> GuardOp list \<Rightarrow> RunawayGuard \<times> (string \<Rightarrow> TurnLog)" where
  "guard_run hmac g ops = fold (guard_exec hmac) ops (g, \<lambda>k. empty_log)"

text \<open>The state kept for a turn agrees with what its caller saw.\<close>

fun turn_inv :: "nat option \<Rightarrow> ShadowState option \<Rightarrow> TurnLog \<Rightarrow> bool" where
  "turn_inv n None l = (l = empty_log)"
| "turn_inv n (Some st) l =
     (sh_stepIndex st = lg_steps l \<and> 0 < lg_steps l \<and> stats_of (lg_observations l) (sh_signalStats st) \<and>
      length (lg_reminders l) = (if sh_reminderAttempted st then 1 else 0) \<and>
      list_all (\<lambda>r. Some (ob_occurrences (rm_observation r)) = n) (lg_reminders l) \<and>
      sh_reminderInjected st = lg_marked l)"

definition guard_inv :: "nat option \<Rightarrow> RunawayGuard \<times> (string \<Rightarrow> TurnLog) \<Rightarrow> bool" where
  "guard_inv n = (\<lambda>(g, lg). g_afterOccurrences g = n \<and> (\<forall>k. turn_inv n (map_of (g_states g) k) (lg k)))"

lemma stats_of_empty: "stats_of [] (sh_signalStats (newShadowState s))"
  by (simp add: stats_of_def newShadowState_def createSignalStats_def emptySignalStats_def)

lemma turn_inv_observe:
  assumes "turn_inv n s l" "r \<noteq> None \<longrightarrow> threshold = n"
    and "after_step ctx threshold (detect_step hmac policies maxBytes ctx threshold (nullish s (newShadowState sec)) step) = (st', r)"
  shows "turn_inv n (Some st') (l\<lparr>lg_steps := Suc (lg_steps l), lg_observations := lg_observations l @
      dt_observations (detect_step hmac policies maxBytes ctx threshold (nullish s (newShadowState sec)) step),
      lg_reminders := lg_reminders l @ (case r of None \<Rightarrow> [] | Some x \<Rightarrow> [x])\<rparr>)"
proof -
  let ?st = "nullish s (newShadowState sec)"
  let ?d = "detect_step hmac policies maxBytes ctx threshold ?st step"
  have st: "sh_stepIndex ?st = lg_steps l" "stats_of (lg_observations l) (sh_signalStats ?st)"
    "length (lg_reminders l) = (if sh_reminderAttempted ?st then 1 else 0)"
    "list_all (\<lambda>r. Some (ob_occurrences (rm_observation r)) = n) (lg_reminders l)" "sh_reminderInjected ?st = lg_marked l"
    using assms(1) stats_of_empty by (cases s; simp add: nullish_def empty_log_def newShadowState_def)+
  note d = detect_step_turn [where hmac = hmac and policies = policies and maxBytes = maxBytes and ctx = ctx
    and threshold = threshold and st = ?st and step = step]
  show ?thesis
    using after_step_result [OF assms(3)] st d(1-3) d(5) [OF st(2)] assms(2) by (cases r) auto
qed

lemma guard_inv_observe:
  assumes "guard_inv n (g, lg)"
  shows "guard_inv n (guard_exec hmac (OpObserve ctx step remind) (g, lg))"
proof -
  let ?t = "if remind then g_afterOccurrences g else None"
  let ?k = "runKey ctx"
  let ?d = "detect_step hmac (g_policies g) (g_maxFingerprintBytes g) ctx ?t (snd (stateFor g ctx)) step"
  obtain st' r where r: "after_step ctx ?t ?d = (st', r)" by fastforce
  have n: "g_afterOccurrences g = n" "turn_inv n (map_of (g_states g) k) (lg k)" for k
    using assms by (simp_all add: guard_inv_def)
  have "r \<noteq> None \<longrightarrow> ?t = n" using after_step_result [OF r] n(1) by (auto split: if_splits)
  from turn_inv_observe [OF n(2) [of ?k] this r [unfolded stateFor_snd], folded stateFor_snd]
  show ?thesis
    using r n by (cases remind) (simp_all add: guard_inv_def guard_observe_eq Let_def stateFor_config)
qed

lemma guard_inv_exec: "guard_inv n s \<Longrightarrow> guard_inv n (guard_exec hmac op s)"
proof (cases s)
  case (Pair g lg)
  moreover assume inv: "guard_inv n s"
  then have k: "turn_inv n (map_of (g_states g) k) (lg k)" for k by (simp add: guard_inv_def Pair)
  ultimately show ?thesis
  proof (cases op)
    case (OpObserve ctx step remind)
    then show ?thesis using guard_inv_observe inv Pair by simp
  next
    case (OpClear ctx)
    then show ?thesis
      using inv k [of "runKey ctx"] Pair
      by (cases "map_of (g_states g) (runKey ctx)")
        (simp_all add: guard_inv_def guard_clearDetectionStreaks_def clearDetectionStreaks_def)
  next
    case (OpMark ctx)
    then show ?thesis
      using inv k [of "runKey ctx"] Pair
      by (cases "map_of (g_states g) (runKey ctx)")
        (simp_all add: guard_inv_def guard_markReminderInjected_def empty_log_def)
  next
    case (OpFinish ctx)
    then show ?thesis
      using inv k [of "runKey ctx"] Pair
      by (cases "map_of (g_states g) (runKey ctx)") (simp_all add: guard_inv_def guard_finishTurn_def delete_conv')
  qed
qed

lemma createRunawayGuard_ok:
  "createRunawayGuard secrets options = Inr g \<Longrightarrow>
     g_states g = [] \<and> g_secretCount g = 0 \<and> g_secrets g = secrets \<and> g_policies g = nullish (op_toolPolicies options) [] \<and>
     (\<forall>n. g_afterOccurrences g = Some n \<longrightarrow> op_remindAfterOccurrences options = Some (NInt (int n)) \<and> 3 \<le> n) \<and>
     positiveInteger (nullish (op_maxFingerprintBytes options) (NInt (int DEFAULT_MAX_FINGERPRINT_BYTES)))
       ''maxFingerprintBytes'' = Inr (g_maxFingerprintBytes g)"
  by (auto simp: createRunawayGuard_def integerAtLeast_def split: sum.splits option.splits jsnum.splits if_splits)

lemma guard_inv_run:
  assumes "createRunawayGuard secrets options = Inr g"
  shows "guard_inv (g_afterOccurrences g) (guard_run hmac g ops)"
  unfolding guard_run_def
proof (rule fold_invariant [where Q = "\<lambda>_. True"])
  show "guard_inv (g_afterOccurrences g) (g, \<lambda>k. empty_log)"
    using createRunawayGuard_ok [OF assms] by (simp add: guard_inv_def)
qed (simp_all add: guard_inv_exec)

section \<open>A turn does not depend on reminding or on other turns\<close>

definition forget_reminder :: "ShadowState \<Rightarrow> ShadowState" where
  "forget_reminder st = st\<lparr>sh_reminderAttempted := False, sh_reminderInjected := False\<rparr>"

lemma projectStep_forget:
  "snd (projectStep hmac m rs (st\<lparr>sh_reminderAttempted := a, sh_reminderInjected := b\<rparr>) policies maxBytes vm pm blocked) =
     snd (projectStep hmac m rs st policies maxBytes vm pm blocked)"
  "fst (projectStep hmac m rs (st\<lparr>sh_reminderAttempted := a, sh_reminderInjected := b\<rparr>) policies maxBytes vm pm blocked) =
     (fst (projectStep hmac m rs st policies maxBytes vm pm blocked))\<lparr>sh_reminderAttempted := a, sh_reminderInjected := b\<rparr>"
  by (simp_all add: projectStep_def Let_def)

lemma detect_step_forget:
  "unremind (detect_step hmac policies maxBytes ctx threshold st step) =
     unremind (detect_step hmac policies maxBytes ctx None (forget_reminder st) step)"
  unfolding detect_step_def Let_def case_prod_beta forget_reminder_def
proof -
  let ?ids = "toolCallIdsFromMessage (rs_message step)"
  let ?p = "\<lambda>st. projectStep hmac (rs_message step) (rs_toolResults step) st policies maxBytes
    (verifiedProgressMap (nullish (rs_verifiedProgress step) []) ?ids)
    (trustedToolProvenanceMap (nullish (rs_trustedToolProvenance step) []) ?ids) (nullish (rs_blockedToolCalls step) [])"
  let ?st = "st\<lparr>sh_stepIndex := sh_stepIndex st + 1\<rparr>"
  have eq: "(st\<lparr>sh_reminderAttempted := False, sh_reminderInjected := False\<rparr>)\<lparr>sh_stepIndex := sh_stepIndex (st\<lparr>sh_reminderAttempted := False, sh_reminderInjected := False\<rparr>) + 1\<rparr> =
      ?st\<lparr>sh_reminderAttempted := False, sh_reminderInjected := False\<rparr>" by simp
  show "unremind (observeStep (snd (?p ?st)) ctx threshold \<lparr>dt_state = fst (?p ?st), dt_observations = [], dt_candidates = {}\<rparr>) =
      unremind (observeStep (snd (?p ((st\<lparr>sh_reminderAttempted := False, sh_reminderInjected := False\<rparr>)\<lparr>sh_stepIndex := sh_stepIndex (st\<lparr>sh_reminderAttempted := False, sh_reminderInjected := False\<rparr>) + 1\<rparr>)))
        ctx None \<lparr>dt_state = fst (?p ((st\<lparr>sh_reminderAttempted := False, sh_reminderInjected := False\<rparr>)\<lparr>sh_stepIndex := sh_stepIndex (st\<lparr>sh_reminderAttempted := False, sh_reminderInjected := False\<rparr>) + 1\<rparr>)),
          dt_observations = [], dt_candidates = {}\<rparr>)"
    unfolding eq projectStep_forget by (rule observeStep_unremind) (simp add: unremind_def)
qed

text \<open>One step of a turn: the observations and the next state, up to the reminder flags, are those of a silent
  detector.\<close>

lemma guard_observe_silent:
  fixes hmac g ctx step remind
  defines "r \<equiv> guard_observe hmac g ctx step remind"
    and "d \<equiv> detect_step hmac (g_policies g) (g_maxFingerprintBytes g) ctx None (forget_reminder (snd (stateFor g ctx))) step"
  shows "snd (snd r) = dt_observations d"
    and "map_option forget_reminder (map_of (g_states (fst r)) (runKey ctx)) = Some (forget_reminder (dt_state d))"
proof -
  let ?t = "if remind then g_afterOccurrences g else None"
  let ?d = "detect_step hmac (g_policies g) (g_maxFingerprintBytes g) ctx ?t (snd (stateFor g ctx)) step"
  obtain st' x where x: "after_step ctx ?t ?d = (st', x)" by fastforce
  have e: "unremind ?d = unremind d" unfolding d_def by (rule detect_step_forget)
  have "forget_reminder st' = forget_reminder (dt_state ?d)"
    using after_step_result [OF x] by (cases x) (simp_all add: forget_reminder_def)
  then show "map_option forget_reminder (map_of (g_states (fst r)) (runKey ctx)) = Some (forget_reminder (dt_state d))"
    using unremind_eqD(2) [OF e] x by (simp add: r_def guard_observe_eq Let_def forget_reminder_def)
  show "snd (snd r) = dt_observations d"
    using unremind_eqD(1) [OF e] x by (simp add: r_def guard_observe_eq Let_def)
qed

lemma guard_observe_config:
  fixes hmac g ctx step remind
  defines "g' \<equiv> fst (guard_observe hmac g ctx step remind)"
  shows "g_policies g' = g_policies g" "g_maxFingerprintBytes g' = g_maxFingerprintBytes g"
    "k \<noteq> runKey ctx \<Longrightarrow> map_of (g_states g') k = map_of (g_states g) k"
  by (simp_all add: g'_def guard_observe_eq Let_def case_prod_beta stateFor_config)

lemma guard_clear_other: "k \<noteq> runKey ctx \<Longrightarrow> map_of (g_states (guard_clearDetectionStreaks g ctx)) k = map_of (g_states g) k"
  by (simp add: guard_clearDetectionStreaks_def split: option.split)

lemma guard_mark_other: "k \<noteq> runKey ctx \<Longrightarrow> map_of (g_states (guard_markReminderInjected g ctx)) k = map_of (g_states g) k"
  by (simp add: guard_markReminderInjected_def split: option.split)

lemma guard_finish_other: "k \<noteq> runKey ctx \<Longrightarrow> map_of (g_states (fst (guard_finishTurn g ctx))) k = map_of (g_states g) k"
  by (simp add: guard_finishTurn_def delete_conv' split: option.split)

lemma guard_clear_config:
  "g_policies (guard_clearDetectionStreaks g ctx) = g_policies g"
  "g_maxFingerprintBytes (guard_clearDetectionStreaks g ctx) = g_maxFingerprintBytes g"
  by (simp_all add: guard_clearDetectionStreaks_def split: option.split)

lemma guard_mark_config:
  "g_policies (guard_markReminderInjected g ctx) = g_policies g"
  "g_maxFingerprintBytes (guard_markReminderInjected g ctx) = g_maxFingerprintBytes g"
  by (simp_all add: guard_markReminderInjected_def split: option.split)

lemma guard_finish_config:
  "g_policies (fst (guard_finishTurn g ctx)) = g_policies g"
  "g_maxFingerprintBytes (fst (guard_finishTurn g ctx)) = g_maxFingerprintBytes g"
  by (simp_all add: guard_finishTurn_def split: option.split)

lemma runKey_inj:
  assumes "runKey c = runKey c'" "CHR 0x00 \<notin> set (ri_sessionId c)" "CHR 0x00 \<notin> set (ri_sessionId c')"
  shows "ri_sessionId c = ri_sessionId c' \<and> ri_turnId c = ri_turnId c'"
proof -
  have "takeWhile (\<lambda>x. x \<noteq> CHR 0x00) (runKey c) = ri_sessionId c" "takeWhile (\<lambda>x. x \<noteq> CHR 0x00) (runKey c') = ri_sessionId c'"
    unfolding runKey_def using assms(2,3) by (subst takeWhile_append2; auto)+
  then show ?thesis using assms(1) by (simp add: runKey_def)
qed

section \<open>Replay and the live guard\<close>

lemma replay_loop_snoc:
  "replay_loop hmac policies maxBytes ctx st (steps @ [x]) =
     (let (st1, obs) = replay_loop hmac policies maxBytes ctx st steps;
          d = detect_step hmac policies maxBytes ctx None st1 x
      in (dt_state d, obs @ dt_observations d))"
  by (induction steps arbitrary: st) (simp_all add: Let_def case_prod_beta)

lemma replay_loop_forget:
  "forget_reminder st = st \<Longrightarrow>
   forget_reminder (fst (replay_loop hmac policies maxBytes ctx st steps)) = fst (replay_loop hmac policies maxBytes ctx st steps)"
proof (induction steps arbitrary: st)
  case (Cons x steps)
  let ?d = "detect_step hmac policies maxBytes ctx None st x"
  have "sh_reminderAttempted st = False" "sh_reminderInjected st = False"
    using arg_cong [OF Cons.prems, of sh_reminderAttempted] arg_cong [OF Cons.prems, of sh_reminderInjected] by (simp_all add: forget_reminder_def)
  then have "sh_reminderAttempted (dt_state ?d) = False" "sh_reminderInjected (dt_state ?d) = False" by (simp_all add: detect_step_turn(2,3))
  then have "forget_reminder (dt_state ?d) = dt_state ?d" by (cases "dt_state ?d") (simp add: forget_reminder_def)
  then show ?case using Cons.IH by (simp add: Let_def case_prod_beta)
qed simp

text \<open>The identity an operation names.\<close>

fun op_ctx :: "GuardOp \<Rightarrow> RunawayGuardRunIdentity" where
  "op_ctx (OpObserve ctx step remind) = ctx"
| "op_ctx (OpClear ctx) = ctx"
| "op_ctx (OpMark ctx) = ctx"
| "op_ctx (OpFinish ctx) = ctx"

definition observe_op :: "RunawayGuardRunIdentity \<Rightarrow> RunawayGuardReplayStep \<times> bool \<Rightarrow> GuardOp" where
  "observe_op ctx x = OpObserve ctx (fst x) (snd x)"

definition turn_matches ::
  "Hmac \<Rightarrow> (string \<times> RunawayGuardToolPolicy) list \<Rightarrow> nat \<Rightarrow> RunawayGuardRunIdentity \<Rightarrow> RunawayGuardReplayStep list \<Rightarrow>
   ShadowState option \<Rightarrow> RunawayGuardObservation list \<Rightarrow> bool" where
  "turn_matches hmac policies maxBytes ctx steps s obs \<longleftrightarrow>
     (\<exists>secret. (if steps = [] then s = None else
        map_option forget_reminder s = Some (fst (replay_loop hmac policies maxBytes ctx (newShadowState secret) steps))) \<and>
      obs = snd (replay_loop hmac policies maxBytes ctx (newShadowState secret) steps))"

lemma turn_matches_observe:
  assumes "turn_matches hmac (g_policies g) (g_maxFingerprintBytes g) ctx steps (map_of (g_states g) (runKey ctx)) obs"
  shows "turn_matches hmac (g_policies g) (g_maxFingerprintBytes g) ctx (steps @ [x])
    (map_of (g_states (fst (guard_observe hmac g ctx x remind))) (runKey ctx))
    (obs @ snd (snd (guard_observe hmac g ctx x remind)))"
proof -
  let ?replay = "\<lambda>secret. replay_loop hmac (g_policies g) (g_maxFingerprintBytes g) ctx (newShadowState secret)"
  have fresh: "forget_reminder (newShadowState secret) = newShadowState secret" for secret
    by (simp add: forget_reminder_def newShadowState_def)
  obtain secret where s: "forget_reminder (snd (stateFor g ctx)) = fst (?replay secret steps)" "obs = snd (?replay secret steps)"
  proof (cases "steps = []")
    case True
    then show ?thesis
      using assms that [of "g_secrets g (g_secretCount g)"] by (simp add: turn_matches_def stateFor_snd nullish_def fresh)
  next
    case False
    then obtain secret where "map_option forget_reminder (map_of (g_states g) (runKey ctx)) = Some (fst (?replay secret steps))"
      "obs = snd (?replay secret steps)"
      using assms by (auto simp: turn_matches_def)
    then show ?thesis using that [of secret] by (cases "map_of (g_states g) (runKey ctx)") (simp_all add: stateFor_snd nullish_def)
  qed
  note silent = guard_observe_silent [where hmac = hmac and g = g and ctx = ctx and step = x and remind = remind]
  have "forget_reminder (fst (?replay secret (steps @ [x]))) = fst (?replay secret (steps @ [x]))"
    by (rule replay_loop_forget [OF fresh])
  then show ?thesis
    unfolding turn_matches_def
    by (intro exI [of _ secret]) (simp add: silent s replay_loop_snoc Let_def case_prod_beta)
qed

lemma guard_run_snoc: "guard_run hmac g (ops @ [op]) = guard_exec hmac op (guard_run hmac g ops)"
  by (simp add: guard_run_def)

lemma guard_exec_other:
  assumes "runKey (op_ctx op) \<noteq> k"
  shows "map_of (g_states (fst (guard_exec hmac op (g, lg)))) k = map_of (g_states g) k"
    "snd (guard_exec hmac op (g, lg)) k = lg k"
  using assms
  by (cases op; simp add: Let_def case_prod_beta guard_observe_config guard_clear_other guard_mark_other guard_finish_other)+

lemma guard_exec_config:
  "g_policies (fst (guard_exec hmac op (g, lg))) = g_policies g"
  "g_maxFingerprintBytes (fst (guard_exec hmac op (g, lg))) = g_maxFingerprintBytes g"
  by (cases op; simp add: Let_def case_prod_beta guard_observe_config guard_clear_config guard_mark_config guard_finish_config)+

lemma guard_mark_forgotten:
  "runKey c = runKey ctx \<Longrightarrow> map_option forget_reminder (map_of (g_states (guard_markReminderInjected g c)) (runKey ctx)) =
     map_option forget_reminder (map_of (g_states g) (runKey ctx))"
  by (simp add: guard_markReminderInjected_def forget_reminder_def split: option.split)

lemma turn_matches_cong:
  "map_option forget_reminder s = map_option forget_reminder s' \<Longrightarrow>
   turn_matches hmac policies maxBytes ctx steps s obs = turn_matches hmac policies maxBytes ctx steps s' obs"
  by (cases s; cases s') (simp_all add: turn_matches_def)

text \<open>The operations of a turn other than the mark of a delivered reminder.\<close>

fun is_mark :: "GuardOp \<Rightarrow> bool" where
  "is_mark (OpMark _) = True"
| "is_mark _ = False"

definition turn_ops :: "RunawayGuardRunIdentity \<Rightarrow> GuardOp list \<Rightarrow> GuardOp list" where
  "turn_ops ctx ops = filter (\<lambda>op. runKey (op_ctx op) = runKey ctx \<and> \<not> is_mark op) ops"

lemma guard_run_matches:
  assumes "g_states g = []" "turn_ops ctx ops = map (observe_op ctx) live"
  shows "g_policies (fst (guard_run hmac g ops)) = g_policies g \<and>
    g_maxFingerprintBytes (fst (guard_run hmac g ops)) = g_maxFingerprintBytes g \<and>
    turn_matches hmac (g_policies g) (g_maxFingerprintBytes g) ctx (map fst live)
      (map_of (g_states (fst (guard_run hmac g ops))) (runKey ctx)) (lg_observations (snd (guard_run hmac g ops) (runKey ctx)))"
  using assms(2)
proof (induction ops arbitrary: live rule: rev_induct)
  case Nil
  then show ?case by (simp add: guard_run_def turn_matches_def assms(1) empty_log_def turn_ops_def)
next
  case (snoc op ops)
  obtain g1 lg1 where r: "guard_run hmac g ops = (g1, lg1)" by fastforce
  consider "runKey (op_ctx op) \<noteq> runKey ctx" | c where "op = OpMark c" "runKey c = runKey ctx"
    | "runKey (op_ctx op) = runKey ctx" "\<not> is_mark op" by (cases op) auto
  then show ?case
  proof cases
    case 1
    then show ?thesis
      using snoc by (simp add: guard_run_snoc r guard_exec_other guard_exec_config turn_ops_def)
  next
    case (2 c)
    then have "turn_ops ctx ops = map (observe_op ctx) live" using snoc.prems by (simp add: turn_ops_def)
    note IH = snoc.IH [OF this, unfolded r fst_conv snd_conv]
    have o: "lg_observations ((if lg_steps (lg1 (runKey c)) = 0 then lg1 else lg1(runKey c := lg1 (runKey c)\<lparr>lg_marked := True\<rparr>)) (runKey ctx)) =
      lg_observations (lg1 (runKey ctx))" using 2(2) by simp
    show ?thesis
      using IH turn_matches_cong [OF guard_mark_forgotten [OF 2(2)]] by (simp add: guard_run_snoc r 2(1) guard_mark_config o)
  next
    case 3
    then obtain live' x where l: "live = live' @ [x]" "op = observe_op ctx x" "turn_ops ctx ops = map (observe_op ctx) live'"
      using snoc.prems by (cases live rule: rev_cases) (auto simp: turn_ops_def)
    note IH = snoc.IH [OF l(3), unfolded r fst_conv snd_conv]
    then have m: "turn_matches hmac (g_policies g1) (g_maxFingerprintBytes g1) ctx (map fst live')
      (map_of (g_states g1) (runKey ctx)) (lg_observations (lg1 (runKey ctx)))" by simp
    show ?thesis
      using IH turn_matches_observe [OF m, of "fst x" "snd x"]
      by (simp add: guard_run_snoc r l observe_op_def Let_def case_prod_beta guard_observe_config)
  qed
qed

section \<open>Blocked calls\<close>

text \<open>Everything of a projection but the progress views and the skip counter.\<close>

definition key_view ::
  "Projection \<Rightarrow> (string list \<times> string list \<times> string list) \<times> (string list \<times> string list) \<times> (string \<times> string) list \<times> string list" where
  "key_view pj = ((pj_detectActionKeys pj, pj_pollingActionKeys pj, pj_detectResultKeys pj),
     (pj_errorFamilyKeys pj, pj_remindableErrorFamilyKeys pj), pj_actionKeysByCallId pj, pj_expectedResultCallIds pj)"

definition blocked_block :: "string list \<Rightarrow> ContentBlock \<Rightarrow> bool" where
  "blocked_block ids b = (case b of ToolCallBlock i n a \<Rightarrow> i \<in> set ids | OtherBlock \<Rightarrow> False)"

lemma appendPollingControl_keys: "key_view (appendPollingControl fp control projection name pj) = key_view pj"
  by (simp add: appendPollingControl_def key_view_def Let_def split: option.split)

text \<open>Whether a call shows a change does not depend on the projection so far.\<close>

definition observed_change ::
  "(jsval \<Rightarrow> string option) \<Rightarrow> RunawayGuardToolPolicyKind \<Rightarrow> jsval \<Rightarrow> RunawayGuardProgressProjection option \<Rightarrow>
   RunawayGuardVerifiedToolProgress option \<Rightarrow> string \<Rightarrow> bool" where
  "observed_change fp policy control projection verified name =
     snd (project_progress fp policy control projection verified name empty_projection)"

lemma project_progress_keys:
  "key_view (fst (project_progress fp policy control projection verified name pj)) = key_view pj"
  "snd (project_progress fp policy control projection verified name pj) =
   observed_change fp policy control projection verified name"
  by (simp_all add: project_progress_def observed_change_def key_view_def Let_def split: option.split)

lemmas append_fields = appendPollingControl_keys [unfolded key_view_def prod.inject]

lemmas progress_fields = project_progress_keys(1) [unfolded key_view_def prod.inject]

lemma project_call_blocked:
  "blocked_block ids b \<Longrightarrow> key_view (project_call fp policies ids rs vm pm b pj) = key_view pj"
proof (cases b)
  case (ToolCallBlock i n a)
  moreover have "key_view (pj\<lparr>pj_progress := x\<rparr>) = key_view pj" for pj x by (simp add: key_view_def)
  moreover assume "blocked_block ids b"
  ultimately show ?thesis by (simp add: project_call_def blocked_block_def Let_def appendPollingControl_keys)
qed (simp add: blocked_block_def)

lemma key_viewE:
  assumes "key_view pj = key_view pj'"
  obtains p n where "pj' = pj\<lparr>pj_progress := p, pj_skipped := n\<rparr>"
  using assms by (cases pj; cases pj') (simp add: key_view_def)

lemma project_action_keys:
  assumes "key_view pj = key_view pj'"
  shows "key_view (project_action fp policy configured callId name args control projection verified e pj) =
    key_view (project_action fp policy configured callId name args control projection verified e pj')"
proof -
  define key where "key = fp (literal [(''toolName'', JStr name), (''actionKey'', projectActionKeyBestEffort configured args)])"
  define change where "change = observed_change fp policy control projection verified name"
  let ?note = "\<lambda>x. if e then x\<lparr>pj_expectedResultCallIds := callId # pj_expectedResultCallIds x\<rparr> else x"
  let ?rest = "\<lambda>x. if \<not> truthy_str key then x\<lparr>pj_skipped := pj_skipped x + 1\<rparr>
    else (let x' = x\<lparr>pj_actionKeysByCallId := AList.update callId (the key) (pj_actionKeysByCallId x)\<rparr>
      in if change then x'\<lparr>pj_expectedResultCallIds := callId # pj_expectedResultCallIds x'\<rparr>
         else if policy = PolicyPolling
         then (if projection = None then x'\<lparr>pj_pollingActionKeys := pj_pollingActionKeys x' @ [the key]\<rparr> else x')
         else x'\<lparr>pj_detectActionKeys := pj_detectActionKeys x' @ [the key]\<rparr>)"
  have note_keys: "key_view (?note x) = key_view (?note y)" and rest_keys: "key_view (?rest x) = key_view (?rest y)"
    if xy: "key_view x = key_view y" for x y
  proof -
    obtain p k where "y = x\<lparr>pj_progress := p, pj_skipped := k\<rparr>" using key_viewE [OF xy] .
    then show "key_view (?note x) = key_view (?note y)" "key_view (?rest x) = key_view (?rest y)"
      by (simp_all add: key_view_def Let_def)
  qed
  show ?thesis
    unfolding project_action_def Let_def case_prod_beta project_progress_keys(2) key_def [symmetric] change_def [symmetric]
    by (rule rest_keys [unfolded Let_def]) (simp only: project_progress_keys(1) note_keys [OF assms])
qed

lemma project_if_keys:
  "key_view pj = key_view pj' \<Longrightarrow>
   key_view (if c then pj else project_action fp policy configured callId name args control projection verified e pj) =
   key_view (if c then pj' else project_action fp policy configured callId name args control projection verified e pj')"
  using project_action_keys [of pj pj' fp policy configured callId name args control projection verified e] by (cases c) simp_all

lemma interrupt_keys: "key_view (if c then pj else pj\<lparr>pj_progress := p\<rparr>) = key_view pj"
  by (simp add: key_view_def)

lemma project_call_keys:
  assumes "\<not> blocked_block ids b" "\<And>i. i \<notin> set ids \<Longrightarrow> map_of rs i = map_of rs' i" "key_view pj = key_view pj'"
  shows "key_view (project_call fp policies ids rs vm pm b pj) = key_view (project_call fp policies ids rs' vm pm b pj')"
proof (cases b)
  case (ToolCallBlock i n a)
  have i: "map_of rs i = map_of rs' i" "i \<notin> set ids" using assms(1,2) ToolCallBlock by (simp_all add: blocked_block_def)
  show ?thesis
    unfolding ToolCallBlock project_call_def Let_def ContentBlock.case i(1)
    by (rule project_if_keys) (simp only: interrupt_keys appendPollingControl_keys assms(3))
qed (simp add: project_call_def assms)

lemma project_result_keys:
  assumes "key_view pj = key_view pj'"
  shows "key_view (project_result fp policies ids r pj) = key_view (project_result fp policies ids r pj')"
proof -
  obtain p k where pj: "pj' = pj\<lparr>pj_progress := p, pj_skipped := k\<rparr>" using key_viewE [OF assms] .
  define policy where "policy = (case map_of policies (x_toolName r) of Some p \<Rightarrow> po_kind p | None \<Rightarrow> PolicyDetect)"
  define key where "key = fp (literal ([(''toolName'', JStr (x_toolName r)), (''content'', x_content r), (''isError'', JBool (x_isError r))] @
               (if x_details r = JUndefined then [] else [(''details'', x_details r)])))"
  define family where "family = errorFamily (x_toolName r) (x_details r) (x_content r)"
  show ?thesis
    unfolding pj project_result_def Let_def policy_def [symmetric] key_def [symmetric] family_def [symmetric]
    by (cases "policy = PolicyDetect"; cases "truthy_str key"; cases family) (simp_all add: key_view_def)
qed

lemma project_result_blocked: "x_toolCallId r \<in> set ids \<Longrightarrow> project_result fp policies ids r pj = pj"
  by (simp add: project_result_def)

lemma fold_call_keys:
  assumes "\<And>i. i \<notin> set ids \<Longrightarrow> map_of rs i = map_of rs' i"
  shows "key_view pj = key_view pj' \<Longrightarrow>
    key_view (fold (project_call fp policies ids rs vm pm) bs pj) =
    key_view (fold (project_call fp policies ids rs' vm pm) (filter (\<lambda>b. \<not> blocked_block ids b) bs) pj')"
proof (induction bs arbitrary: pj pj')
  case (Cons b bs)
  show ?case
  proof (cases "blocked_block ids b")
    case True
    then show ?thesis using Cons project_call_blocked by simp
  next
    case False
    from Cons.IH [OF project_call_keys [OF False assms Cons.prems]] False show ?thesis by simp
  qed
qed simp

lemma fold_result_keys:
  "key_view pj = key_view pj' \<Longrightarrow>
   key_view (fold (project_result fp policies ids) rs pj) =
   key_view (fold (project_result fp policies ids) (filter (\<lambda>r. x_toolCallId r \<notin> set ids) rs) pj')"
proof (induction rs arbitrary: pj pj')
  case (Cons r rs)
  then show ?case
    using project_result_keys [OF Cons.prems, of fp policies ids r]
    by (cases "x_toolCallId r \<in> set ids") (simp_all add: project_result_blocked)
qed simp

lemma map_of_fold_update_cong:
  "map_of m k = map_of m' k \<Longrightarrow>
   map_of (fold (\<lambda>(k, v) m. AList.update k v m) es m) k = map_of (fold (\<lambda>(k, v) m. AList.update k v m) es m') k"
proof (induction es arbitrary: m m')
  case (Cons e es)
  from Cons.IH [of "AList.update (fst e) (snd e) m" "AList.update (fst e) (snd e) m'"] Cons.prems show ?case
    by (cases e) simp
qed simp

lemma map_of_new_map_filter:
  assumes "P k"
  shows "map_of (new_map (map (\<lambda>r. (f r, r)) (filter (\<lambda>r. P (f r)) rs))) k = map_of (new_map (map (\<lambda>r. (f r, r)) rs)) k"
proof -
  let ?fold = "\<lambda>rs. fold (\<lambda>(k, v) m. AList.update k v m) (map (\<lambda>r. (f r, r)) rs)"
  have "map_of (?fold (filter (\<lambda>r. P (f r)) rs) m) k = map_of (?fold rs m) k" for m
  proof (induction rs arbitrary: m)
    case (Cons r rs)
    have "map_of (?fold rs (AList.update (f r) r m)) k = map_of (?fold rs m) k" if "\<not> P (f r)"
      by (rule map_of_fold_update_cong) (use that assms in auto)
    then show ?case using Cons.IH by simp
  qed simp
  then show ?thesis by (simp add: new_map_def)
qed

text \<open>The keys of a view: everything but the progress views.\<close>

definition view_keys :: "StepView \<Rightarrow> string list list \<times> string option" where
  "view_keys v = ([sv_detectActionKeys v, sv_pollingActionKeys v, sv_detectResultKeys v, sv_errorFamilyKeys v,
     sv_remindableErrorFamilyKeys v], sv_detectActionBatchKey v)"

section \<open>Properties\<close>

text \<open>A guard that reminds at three occurrences, and a turn that makes the same call three times while another turn
  comes and goes.\<close>

definition example_options :: RunawayGuardOptions where
  "example_options = \<lparr>op_toolPolicies = None, op_maxFingerprintBytes = None, op_remindAfterOccurrences = Some (NInt 3)\<rparr>"

definition example_guard :: RunawayGuard where
  "example_guard = \<lparr>g_maxFingerprintBytes = DEFAULT_MAX_FINGERPRINT_BYTES, g_afterOccurrences = Some 3, g_policies = [],
     g_states = [], g_secrets = (\<lambda>n. replicate n CHR ''s''), g_secretCount = 0\<rparr>"

definition example_step :: RunawayGuardReplayStep where
  "example_step = \<lparr>rs_message = \<lparr>m_role = ''assistant'', m_content = [ToolCallBlock ''c1'' ''read'' (JStr ''a.ts'')],
       m_totalTokens = JUndefined\<rparr>, rs_toolResults = [], rs_blockedToolCalls = None, rs_verifiedProgress = None,
     rs_trustedToolProvenance = None\<rparr>"

definition example_turn :: "string \<Rightarrow> RunawayGuardRunIdentity" where
  "example_turn t = \<lparr>ri_sessionId = ''s'', ri_turnId = t, ri_agentName = ''main''\<rparr>"

definition example_ops :: "GuardOp list" where
  "example_ops = [OpObserve (example_turn ''t'') example_step True, OpObserve (example_turn ''u'') example_step False,
     OpObserve (example_turn ''t'') example_step True, OpClear (example_turn ''u''), OpFinish (example_turn ''u''),
     OpObserve (example_turn ''t'') example_step True]"

lemma example_created: "createRunawayGuard (\<lambda>n. replicate n CHR ''s'') example_options = Inr example_guard"
  by (simp add: createRunawayGuard_def example_options_def example_guard_def integerAtLeast_def positiveInteger_def nullish_def
      DEFAULT_MAX_FINGERPRINT_BYTES_def)

lemma example_steps: "lg_steps (snd (guard_run (\<lambda>k v. v) example_guard example_ops) (runKey (example_turn ''t''))) = 3"
  by (simp add: guard_run_def example_ops_def Let_def case_prod_beta runKey_def example_turn_def empty_log_def)

text \<open>whatever operations are interleaved on whatever turns, a turn gets at most one reminder, and only at the
  configured threshold, which is at least three.\<close>

theorem at_most_one_reminder_per_turn:
  assumes "createRunawayGuard secrets options = Inr g"
  shows "length (lg_reminders (snd (guard_run hmac g ops) k)) \<le> 1 \<and>
    (\<forall>r\<in>set (lg_reminders (snd (guard_run hmac g ops) k)).
      op_remindAfterOccurrences options = Some (NInt (int (ob_occurrences (rm_observation r)))) \<and>
      3 \<le> ob_occurrences (rm_observation r))"
proof -
  obtain g' lg where r: "guard_run hmac g ops = (g', lg)" by fastforce
  have "turn_inv (g_afterOccurrences g) (map_of (g_states g') k) (lg k)"
    using guard_inv_run [OF assms, of hmac ops] by (simp add: r guard_inv_def)
  then have "length (lg_reminders (lg k)) \<le> 1"
    "list_all (\<lambda>r. Some (ob_occurrences (rm_observation r)) = g_afterOccurrences g) (lg_reminders (lg k))"
    by (cases "map_of (g_states g') k"; simp add: empty_log_def)+
  with createRunawayGuard_ok [OF assms] show ?thesis
    by (auto simp: r list_all_iff)
qed

theorem at_most_one_reminder_per_turn_witness:
  "length (lg_reminders (snd (guard_run (\<lambda>k v. v) example_guard example_ops) (runKey (example_turn ''t'')))) \<le> 1"
  using at_most_one_reminder_per_turn [OF example_created, of "\<lambda>k v. v" example_ops "runKey (example_turn ''t'')"] by blast

text \<open>finishing a turn forgets it and reports it faithfully: the number of steps observed since it started, whether
  a reminder was marked as injected, and per signal the number, the first and the last step of the observations that
  were made; a turn without a step has no summary.\<close>

theorem finishTurn_reports_the_turn:
  assumes "createRunawayGuard secrets options = Inr g" "guard_run hmac g ops = (g', lg)"
  shows "case guard_finishTurn g' ctx of (g'', s) \<Rightarrow>
    map_of (g_states g'') (runKey ctx) = None \<and>
    (case s of
       None \<Rightarrow> lg (runKey ctx) = empty_log
     | Some summary \<Rightarrow> ts_stepCount summary = lg_steps (lg (runKey ctx)) \<and>
         ts_reminderInjected summary = lg_marked (lg (runKey ctx)) \<and>
         ts_sessionId summary = ri_sessionId ctx \<and> ts_turnId summary = ri_turnId ctx \<and>
         stats_of (lg_observations (lg (runKey ctx))) (ts_signals summary))"
proof -
  have "turn_inv (g_afterOccurrences g) (map_of (g_states g') (runKey ctx)) (lg (runKey ctx))"
    using guard_inv_run [OF assms(1), of hmac ops] by (simp add: assms(2) guard_inv_def)
  then show ?thesis
    by (cases "map_of (g_states g') (runKey ctx)") (simp_all add: guard_finishTurn_def delete_conv' snapshotTurnSummary_def)
qed

theorem finishTurn_reports_the_turn_witness:
  "case guard_finishTurn (fst (guard_run (\<lambda>k v. v) example_guard example_ops)) (example_turn ''t'') of (g'', s) \<Rightarrow>
     map_of (g_states g'') (runKey (example_turn ''t'')) = None \<and> map_option ts_stepCount s = Some 3"
  using finishTurn_reports_the_turn [OF example_created surjective_pairing [of "guard_run (\<lambda>k v. v) example_guard example_ops"],
      of "example_turn ''t''"] example_steps
  by (auto simp: empty_log_def split: option.splits)

text \<open>C24: replaying the recorded steps of a turn, with the secret that the live turn drew for its fingerprints, gives exactly the
  observations of the live guard and its summary, except that the summary of the live turn also says whether a reminder was delivered in it.
  This holds whatever other turns were interleaved, whether reminders were asked for in a step or not, and wherever a delivered
  reminder was marked; the turn must not have had its streaks cleared by being aborted or disabled between two steps.\<close>

theorem replay_equals_the_live_turn:
  assumes "createRunawayGuard secrets options = Inr g" "live \<noteq> []" "turn_ops ctx ops = map (observe_op ctx) live"
  shows "\<exists>secret result.
    replayRunawayGuardTrajectory hmac secret
      \<lparr>rp_sessionId = ri_sessionId ctx, rp_turnId = ri_turnId ctx, rp_agentName = ri_agentName ctx, rp_steps = map fst live,
       rp_toolPolicies = op_toolPolicies options, rp_maxFingerprintBytes = op_maxFingerprintBytes options\<rparr> = Inr result \<and>
    re_observations result = lg_observations (snd (guard_run hmac g ops) (runKey ctx)) \<and>
    snd (guard_finishTurn (fst (guard_run hmac g ops)) ctx) =
      Some ((re_summary result)\<lparr>ts_reminderInjected := lg_marked (snd (guard_run hmac g ops) (runKey ctx))\<rparr>)"
proof -
  note g = createRunawayGuard_ok [OF assms(1)]
  have id: "\<lparr>ri_sessionId = ri_sessionId ctx, ri_turnId = ri_turnId ctx, ri_agentName = ri_agentName ctx\<rparr> = ctx" by simp
  have "turn_matches hmac (g_policies g) (g_maxFingerprintBytes g) ctx (map fst live)
      (map_of (g_states (fst (guard_run hmac g ops))) (runKey ctx)) (lg_observations (snd (guard_run hmac g ops) (runKey ctx)))"
    using guard_run_matches [OF _ assms(3), of g hmac] g by simp
  then obtain secret st where s: "map_of (g_states (fst (guard_run hmac g ops))) (runKey ctx) = Some st"
      "forget_reminder st = fst (replay_loop hmac (g_policies g) (g_maxFingerprintBytes g) ctx (newShadowState secret) (map fst live))"
      "lg_observations (snd (guard_run hmac g ops) (runKey ctx)) =
        snd (replay_loop hmac (g_policies g) (g_maxFingerprintBytes g) ctx (newShadowState secret) (map fst live))"
    using assms(2) unfolding turn_matches_def by auto
  have "sh_reminderInjected st = lg_marked (snd (guard_run hmac g ops) (runKey ctx))"
    using guard_inv_run [OF assms(1), of hmac ops] s(1) by (auto simp: guard_inv_def split: prod.splits dest: spec [of _ "runKey ctx"])
  then have "snapshotTurnSummary ctx st =
      (snapshotTurnSummary ctx (forget_reminder st))\<lparr>ts_reminderInjected := lg_marked (snd (guard_run hmac g ops) (runKey ctx))\<rparr>"
    by (simp add: snapshotTurnSummary_def forget_reminder_def)
  then show ?thesis
    using s g by (intro exI [of _ secret]) (simp add: replayRunawayGuardTrajectory_def guard_finishTurn_def case_prod_beta Let_def id)
qed

definition marked_ops :: "GuardOp list" where
  "marked_ops = example_ops @ [OpMark (example_turn ''t'')]"

theorem replay_equals_the_live_turn_witness:
  "\<exists>secret result.
    replayRunawayGuardTrajectory (\<lambda>k v. v) secret
      \<lparr>rp_sessionId = ''s'', rp_turnId = ''t'', rp_agentName = ''main'', rp_steps = replicate 3 example_step,
       rp_toolPolicies = None, rp_maxFingerprintBytes = None\<rparr> = Inr result \<and>
    re_observations result = lg_observations (snd (guard_run (\<lambda>k v. v) example_guard marked_ops) (runKey (example_turn ''t''))) \<and>
    snd (guard_finishTurn (fst (guard_run (\<lambda>k v. v) example_guard marked_ops)) (example_turn ''t'')) =
      Some ((re_summary result)\<lparr>ts_reminderInjected := lg_marked (snd (guard_run (\<lambda>k v. v) example_guard marked_ops) (runKey (example_turn ''t'')))\<rparr>)"
proof -
  have "turn_ops (example_turn ''t'') marked_ops = map (observe_op (example_turn ''t'')) (replicate 3 (example_step, True))"
    by (simp add: turn_ops_def marked_ops_def example_ops_def example_turn_def runKey_def observe_op_def numeral_3_eq_3)
  from replay_equals_the_live_turn [OF example_created _ this, of "\<lambda>k v. v"] show ?thesis
    by (simp add: example_turn_def example_options_def numeral_3_eq_3)
qed

text \<open>a tool call that the permission system blocked, and its result, leave no key in the view of a step: the keys
  are those of the step without the call.\<close>

theorem blocked_calls_leave_no_keys:
  "view_keys (snd (projectStep hmac message results st policies maxBytes vm pm blocked)) =
   view_keys (snd (projectStep hmac
     (message\<lparr>m_content := filter (\<lambda>b. \<not> blocked_block (excluded_ids blocked) b) (m_content message)\<rparr>)
     (filter (\<lambda>r. x_toolCallId r \<notin> set (excluded_ids blocked)) results) st policies maxBytes vm pm blocked))"
proof -
  let ?ids = "excluded_ids blocked"
  let ?fp = "\<lambda>v. fingerprintWithinBudget hmac (sh_secret st) v maxBytes"
  let ?results = "filter (\<lambda>r. x_toolCallId r \<notin> set ?ids) results"
  let ?map = "\<lambda>rs. new_map (map (\<lambda>r. (x_toolCallId r, r)) rs)"
  let ?calls = "\<lambda>rs bs. if m_role message = ''assistant''
    then fold (project_call ?fp policies ?ids (?map rs) vm pm) bs empty_projection else empty_projection"
  have "map_of (?map results) i = map_of (?map ?results) i" if "i \<notin> set ?ids" for i
    by (rule map_of_new_map_filter [symmetric]) (rule that)
  then have "key_view (?calls results (m_content message)) =
      key_view (?calls ?results (filter (\<lambda>b. \<not> blocked_block ?ids b) (m_content message)))"
    using fold_call_keys [of ?ids "?map results" "?map ?results" empty_projection empty_projection] by simp
  note keys = fold_result_keys [OF this, of ?fp policies ?ids results]
  define P where "P = fold (project_result ?fp policies ?ids) results (?calls results (m_content message))"
  define Q where "Q = fold (project_result ?fp policies ?ids) ?results
    (?calls ?results (filter (\<lambda>b. \<not> blocked_block ?ids b) (m_content message)))"
  have "pj_detectActionKeys P = pj_detectActionKeys Q" "pj_pollingActionKeys P = pj_pollingActionKeys Q"
    "pj_detectResultKeys P = pj_detectResultKeys Q" "pj_errorFamilyKeys P = pj_errorFamilyKeys Q"
    "pj_remindableErrorFamilyKeys P = pj_remindableErrorFamilyKeys Q"
    using keys [folded P_def Q_def] by (simp_all add: key_view_def)
  moreover have "m_role (message\<lparr>m_content := c\<rparr>) = m_role message" "m_content (message\<lparr>m_content := c\<rparr>) = c" for c by simp_all
  note fields = this
  ultimately show ?thesis
    unfolding projectStep_def Let_def fields P_def [symmetric] Q_def [symmetric]
    by (simp add: view_keys_def)
qed

end
