(* ===== verification/Extension_Registry.thy ===== *)
theory Extension_Registry
  imports Bari_Prelude
begin

text \<open>
  The extension registry of the agent runtime (\<^verbatim>\<open>agent-runtime/src/registry.ts\<close> and the types it
  shares in \<^verbatim>\<open>types.ts\<close>): loading extensions, the control plane and the assembly of a turn.

  Extensions are host code and therefore arguments.  The \<^verbatim>\<open>init\<close> of an extension is a tree of calls
  on \<^verbatim>\<open>ExtensionAPI\<close> facades, its own or one it got hold of otherwise; each call either succeeds or
  throws into the extension, which goes on as it likes, and in the end returns or throws.  A facade
  is the id of its owner: ids are unique in a registry.  Contributors, tool factories, reminder
  providers and handlers are functions that return or throw.  Tools are a name and a payload.
\<close>

section \<open>Types\<close>

datatype HookName =
    TurnStart | TurnEnd | OnHistoryChanged | BeforeLlmCall | OnLlmCallPrepared | AfterLlmCall
  | BeforeToolCall | AfterToolCall | OnStepEnd

definition HOOK_NAMES :: "HookName list" where
  "HOOK_NAMES = [TurnStart, TurnEnd, OnHistoryChanged, BeforeLlmCall, OnLlmCallPrepared, AfterLlmCall,
     BeforeToolCall, AfterToolCall, OnStepEnd]"

fun hook_string :: "HookName \<Rightarrow> string" where
  "hook_string TurnStart = ''turn_start''"
| "hook_string TurnEnd = ''turn_end''"
| "hook_string OnHistoryChanged = ''on_history_changed''"
| "hook_string BeforeLlmCall = ''before_llm_call''"
| "hook_string OnLlmCallPrepared = ''on_llm_call_prepared''"
| "hook_string AfterLlmCall = ''after_llm_call''"
| "hook_string BeforeToolCall = ''before_tool_call''"
| "hook_string AfterToolCall = ''after_tool_call''"
| "hook_string OnStepEnd = ''on_step_end''"

text \<open>Of a context the registry itself reads only the session; the rest is for the contributors.\<close>

record TurnAssemblyCtx =
  tc_sessionId :: string
  tc_rest :: js_record

record RuntimeTool =
  rt_name :: string
  rt_def :: jsval

datatype ToolFactoryResult = NoTool | OneTool RuntimeTool | ToolCatalog "RuntimeTool list"

datatype RuntimeToolContribution =
    StaticTool RuntimeTool
  | ToolFactory "TurnAssemblyCtx \<Rightarrow> string + ToolFactoryResult"

type_synonym PromptContributor = "TurnAssemblyCtx \<Rightarrow> string + string option"

record Reminder =
  re_content :: string
  re_priority :: "int option"
  re_cooldownKey :: "string option"

record ReminderProvider =
  rp_name :: string
  rp_compute :: "TurnAssemblyCtx \<Rightarrow> string + Reminder option"

record ReminderEmission =
  em_providerName :: string
  em_reminder :: Reminder

text \<open>A handler gets the event, the abort signal (\<^verbatim>\<open>undefined\<close> unless the hook is a tool hook) and the context.\<close>

type_synonym Handler = "jsval \<Rightarrow> jsval \<Rightarrow> TurnAssemblyCtx \<Rightarrow> string + jsval"

type_synonym WrappedHook = "jsval \<Rightarrow> jsval \<Rightarrow> string + jsval"

record LoadedExtension =
  le_id :: string
  le_description :: "string option"
  le_enabledGlobal :: bool
  le_tools :: "RuntimeToolContribution list"
  le_systemPromptContributors :: "PromptContributor list"
  le_userPromptContributors :: "PromptContributor list"
  le_reminderProviders :: "ReminderProvider list"
  le_hookHandlers :: "HookName \<Rightarrow> Handler list"

datatype ApiCall =
    CallRegisterTool RuntimeToolContribution
  | CallContributeSystemPrompt PromptContributor
  | CallContributeUserPromptPrefix PromptContributor
  | CallRegisterReminderProvider ReminderProvider
  | CallOn HookName Handler

text \<open>A run of \<^verbatim>\<open>init\<close>: a call names the facade's owner; what follows may depend on the error it threw, if any.\<close>

datatype Init =
    InitDone
  | InitThrow string
  | InitCall string ApiCall "string option \<Rightarrow> Init"

record AgentExtension =
  ae_id :: string
  ae_description :: "string option"
  ae_init :: "js_record \<Rightarrow> Init"

datatype RegistryLifecycleState = StateNew | StateInitializing | StateReady | StateFailed

fun lifecycle_string :: "RegistryLifecycleState \<Rightarrow> string" where
  "lifecycle_string StateNew = ''new''"
| "lifecycle_string StateInitializing = ''initializing''"
| "lifecycle_string StateReady = ''ready''"
| "lifecycle_string StateFailed = ''failed''"

record Registry =
  rg_extensions :: "(string \<times> LoadedExtension) list"
  rg_activeLoaded :: "string option"
  rg_lifecycleState :: RegistryLifecycleState
  rg_sessionOverrides :: "(string \<times> (string \<times> bool) list) list"
  rg_params :: js_record

record ExtensionContributionStats =
  cs_tools :: nat
  cs_promptContributors :: nat
  cs_reminderProviders :: nat
  cs_hooks :: "(HookName \<times> nat) list"

record ExtensionState =
  es_id :: string
  es_description :: "string option"
  es_enabled :: bool
  es_contributions :: ExtensionContributionStats

record AssemblyDiagnostic =
  ad_loadedExtensions :: "string list"
  ad_enabledExtensions :: "string list"
  ad_disabledExtensions :: "string list"
  ad_toolCount :: nat
  ad_reminderCount :: nat

type_synonym PiTurnHooks = "(string \<times> WrappedHook list) list"

record AssemblyResult =
  ar_systemPromptPrefix :: string
  ar_userPromptPrefix :: string
  ar_tools :: "RuntimeTool list"
  ar_hooks :: PiTurnHooks
  ar_reminders :: "ReminderEmission list"
  ar_turnStartHandlers :: "Handler list"
  ar_turnEndHandlers :: "Handler list"
  ar_diagnostic :: AssemblyDiagnostic

record TurnAssemblySeed =
  sd_tools :: "RuntimeTool list"
  sd_userPromptPrefix :: string

section \<open>Loading\<close>

definition createEmptyHookStorage :: "HookName \<Rightarrow> Handler list" where
  "createEmptyHookStorage = (\<lambda>name. [])"

definition createEmptyLoaded :: "AgentExtension \<Rightarrow> LoadedExtension" where
  "createEmptyLoaded ext =
     \<lparr>le_id = ae_id ext, le_description = ae_description ext, le_enabledGlobal = True, le_tools = [],
      le_systemPromptContributors = [], le_userPromptContributors = [], le_reminderProviders = [],
      le_hookHandlers = createEmptyHookStorage\<rparr>"

definition contributionStats :: "LoadedExtension \<Rightarrow> ExtensionContributionStats" where
  "contributionStats loaded =
     \<lparr>cs_tools = length (le_tools loaded),
      cs_promptContributors = length (le_systemPromptContributors loaded) + length (le_userPromptContributors loaded),
      cs_reminderProviders = length (le_reminderProviders loaded),
      cs_hooks = map (\<lambda>name. (name, length (le_hookHandlers loaded name))) HOOK_NAMES\<rparr>"

definition new_registry :: "js_record \<Rightarrow> Registry" where
  "new_registry params =
     \<lparr>rg_extensions = [], rg_activeLoaded = None, rg_lifecycleState = StateNew, rg_sessionOverrides = [],
      rg_params = params\<rparr>"

fun call_method :: "ApiCall \<Rightarrow> string" where
  "call_method (CallRegisterTool _) = ''registerTool''"
| "call_method (CallContributeSystemPrompt _) = ''contributeSystemPrompt''"
| "call_method (CallContributeUserPromptPrefix _) = ''contributeUserPromptPrefix''"
| "call_method (CallRegisterReminderProvider _) = ''registerReminderProvider''"
| "call_method (CallOn event _) = ''on('' @ hook_string event @ '')''"

definition assertActiveOwner :: "Registry \<Rightarrow> string \<Rightarrow> string \<Rightarrow> string option" where
  "assertActiveOwner r owner method =
     (if rg_lifecycleState r \<noteq> StateInitializing
      then Some (''Registry.'' @ method @ '' can only be called during extension init(). Current registry state is '' @
        CHR 0x27 # lifecycle_string (rg_lifecycleState r) @
        CHR 0x27 # ''. Storing the pi reference for later use is forbidden.'')
      else if rg_activeLoaded r \<noteq> Some owner
      then Some (''Registry.'' @ method @ '': ExtensionAPI owner '' @ CHR 0x27 # owner @
        CHR 0x27 # '' is outside its init window'' @
        (if truthy_str (rg_activeLoaded r)
         then ''; active owner is '' @ CHR 0x27 # the (rg_activeLoaded r) @ CHR 0x27 # ''.'' else ''.''))
      else None)"

fun push_contribution :: "ApiCall \<Rightarrow> LoadedExtension \<Rightarrow> LoadedExtension" where
  "push_contribution (CallRegisterTool t) l = l\<lparr>le_tools := le_tools l @ [t]\<rparr>"
| "push_contribution (CallContributeSystemPrompt f) l =
     l\<lparr>le_systemPromptContributors := le_systemPromptContributors l @ [f]\<rparr>"
| "push_contribution (CallContributeUserPromptPrefix f) l =
     l\<lparr>le_userPromptContributors := le_userPromptContributors l @ [f]\<rparr>"
| "push_contribution (CallRegisterReminderProvider p) l = l\<lparr>le_reminderProviders := le_reminderProviders l @ [p]\<rparr>"
| "push_contribution (CallOn event h) l =
     l\<lparr>le_hookHandlers := (le_hookHandlers l)(event := le_hookHandlers l event @ [h])\<rparr>"

text \<open>A call on the facade of \<open>owner\<close>: the error it throws, or the owner's lists extended.\<close>

definition api_call :: "Registry \<Rightarrow> string \<Rightarrow> ApiCall \<Rightarrow> Registry \<times> string option" where
  "api_call r owner call =
     (case assertActiveOwner r owner (call_method call) of
        Some e \<Rightarrow> (r, Some e)
      | None \<Rightarrow>
          (r\<lparr>rg_extensions := map (\<lambda>(i, l). (i, if i = owner then push_contribution call l else l)) (rg_extensions r)\<rparr>, None))"

primrec run_init :: "Init \<Rightarrow> Registry \<Rightarrow> Registry \<times> (string + unit)" where
  "run_init InitDone r = (r, Inr ())"
| "run_init (InitThrow e) r = (r, Inl e)"
| "run_init (InitCall owner call k) r = (case api_call r owner call of (r', e) \<Rightarrow> run_init (k e) r')"

text \<open>The loop of \<^verbatim>\<open>initExtensions\<close>: load the next extension with its own facade as the only active one.\<close>

fun init_loop :: "AgentExtension list \<Rightarrow> Registry \<Rightarrow> Registry \<times> (string + unit)" where
  "init_loop [] r = (r, Inr ())"
| "init_loop (ext # exts) r =
     (if ae_id ext \<in> set (keys (rg_extensions r)) then (r, Inl (''Duplicate extension id during init: '' @ ae_id ext))
      else
        (let r1 = r\<lparr>rg_extensions := rg_extensions r @ [(ae_id ext, createEmptyLoaded ext)],
                    rg_activeLoaded := Some (ae_id ext)\<rparr>
         in case run_init (ae_init ext (rg_params r)) r1 of
              (r2, Inl e) \<Rightarrow> (r2\<lparr>rg_activeLoaded := None\<rparr>, Inl e)
            | (r2, Inr _) \<Rightarrow> init_loop exts (r2\<lparr>rg_activeLoaded := None\<rparr>)))"

definition initExtensions :: "Registry \<Rightarrow> AgentExtension list \<Rightarrow> Registry \<times> (string + unit)" where
  "initExtensions r exts =
     (if rg_lifecycleState r \<noteq> StateNew
      then (r, Inl (''Registry.initExtensions requires registry state '' @ CHR 0x27 # ''new'' @ CHR 0x27 #
        ''; current state is '' @ CHR 0x27 # lifecycle_string (rg_lifecycleState r) @ CHR 0x27 #
        (if rg_lifecycleState r = StateReady then ''; cannot be called twice'' else '''')))
      else
        (case init_loop exts (r\<lparr>rg_lifecycleState := StateInitializing\<rparr>) of
           (r', Inl e) \<Rightarrow> (r'\<lparr>rg_lifecycleState := StateFailed, rg_extensions := [], rg_sessionOverrides := []\<rparr>, Inl e)
         | (r', Inr _) \<Rightarrow> (r'\<lparr>rg_lifecycleState := StateReady\<rparr>, Inr ())))"

section \<open>Control plane\<close>

definition assertReady :: "Registry \<Rightarrow> string \<Rightarrow> string option" where
  "assertReady r method =
     (if rg_lifecycleState r \<noteq> StateReady
      then Some (''Registry.'' @ method @ '' requires registry state '' @ CHR 0x27 # ''ready'' @ CHR 0x27 #
        ''; current state is '' @ CHR 0x27 # lifecycle_string (rg_lifecycleState r) @ [CHR 0x27])
      else None)"

definition setEnabled :: "Registry \<Rightarrow> string \<Rightarrow> bool \<Rightarrow> string option \<Rightarrow> Registry \<times> (string + unit)" where
  "setEnabled r extensionId enabled sessionId =
     (case assertReady r ''setEnabled'' of
        Some e \<Rightarrow> (r, Inl e)
      | None \<Rightarrow>
          if extensionId \<notin> set (keys (rg_extensions r))
          then (r, Inl (''Registry.setEnabled: unknown extension id: '' @ extensionId))
          else if truthy_str sessionId
          then
            (let s = the sessionId;
                 sessionMap = nullish (map_of (rg_sessionOverrides r) s) []
             in (r\<lparr>rg_sessionOverrides := AList.update s (AList.update extensionId enabled sessionMap) (rg_sessionOverrides r)\<rparr>,
                 Inr ()))
          else
            (r\<lparr>rg_extensions := map (\<lambda>(i, l). (i, if i = extensionId then l\<lparr>le_enabledGlobal := enabled\<rparr> else l))
                 (rg_extensions r)\<rparr>, Inr ()))"

definition listExtensions :: "Registry \<Rightarrow> string option \<Rightarrow> string + ExtensionState list" where
  "listExtensions r sessionId =
     (case assertReady r ''listExtensions'' of
        Some e \<Rightarrow> Inl e
      | None \<Rightarrow>
          (let sessionMap = (if truthy_str sessionId then map_of (rg_sessionOverrides r) (the sessionId) else None)
           in Inr (map (\<lambda>(i, l).
                \<lparr>es_id = le_id l, es_description = le_description l,
                 es_enabled = nullish (case sessionMap of None \<Rightarrow> None | Some m \<Rightarrow> map_of m (le_id l)) (le_enabledGlobal l),
                 es_contributions = contributionStats l\<rparr>) (rg_extensions r))))"

definition disposeSession :: "Registry \<Rightarrow> string \<Rightarrow> Registry \<times> (string + unit)" where
  "disposeSession r sessionId =
     (case assertReady r ''disposeSession'' of
        Some e \<Rightarrow> (r, Inl e)
      | None \<Rightarrow> (r\<lparr>rg_sessionOverrides := AList.delete sessionId (rg_sessionOverrides r)\<rparr>, Inr ()))"

definition isEnabled :: "Registry \<Rightarrow> LoadedExtension \<Rightarrow> string option \<Rightarrow> bool" where
  "isEnabled r loaded sessionId =
     (case sessionId of
        None \<Rightarrow> le_enabledGlobal loaded
      | Some s \<Rightarrow>
          (case map_of (rg_sessionOverrides r) s of
             None \<Rightarrow> le_enabledGlobal loaded
           | Some m \<Rightarrow> nullish (map_of m (le_id loaded)) (le_enabledGlobal loaded)))"

section \<open>Assembly\<close>

datatype HookAdapter = AdapterContext | AdapterToolContext

definition HOOK_MAPPINGS :: "(string \<times> HookName \<times> HookAdapter) list" where
  "HOOK_MAPPINGS =
     [(''onLlmCallPreparedHook'', OnLlmCallPrepared, AdapterContext),
      (''beforeLlmCallHook'', BeforeLlmCall, AdapterContext),
      (''afterLlmCallHook'', AfterLlmCall, AdapterContext),
      (''beforeToolCallHook'', BeforeToolCall, AdapterToolContext),
      (''afterToolCallHook'', AfterToolCall, AdapterToolContext),
      (''onHistoryChangedHook'', OnHistoryChanged, AdapterContext),
      (''onStepEndHook'', OnStepEnd, AdapterContext)]"

definition undefined_if_null :: "jsval \<Rightarrow> jsval" where
  "undefined_if_null v = (if v = JNull then JUndefined else v)"

definition wrapWithCtx :: "Handler \<Rightarrow> TurnAssemblyCtx \<Rightarrow> WrappedHook" where
  "wrapWithCtx handler ctx = (\<lambda>event signal. map_sum id undefined_if_null (handler event JUndefined ctx))"

definition wrapToolWithCtx :: "Handler \<Rightarrow> TurnAssemblyCtx \<Rightarrow> WrappedHook" where
  "wrapToolWithCtx handler ctx = (\<lambda>event signal. map_sum id undefined_if_null (handler event signal ctx))"

definition appendHooks :: "string \<Rightarrow> WrappedHook list \<Rightarrow> PiTurnHooks \<Rightarrow> PiTurnHooks" where
  "appendHooks key values hooks = AList.update key (nullish (map_of hooks key) [] @ values) hooks"

definition snapshotExtensions :: "Registry \<Rightarrow> TurnAssemblyCtx \<Rightarrow> (LoadedExtension \<times> bool) list" where
  "snapshotExtensions r ctx = map (\<lambda>(i, l). (l, isEnabled r l (Some (tc_sessionId ctx)))) (rg_extensions r)"

text \<open>The lists that an assembly builds up.\<close>

record Assembly =
  as_tools :: "RuntimeTool list"
  as_systemPrefixes :: "string list"
  as_userPrefixes :: "string list"
  as_reminders :: "ReminderEmission list"
  as_hooks :: PiTurnHooks
  as_turnStartHandlers :: "Handler list"
  as_turnEndHandlers :: "Handler list"
  as_enabledIds :: "string list"
  as_disabledIds :: "string list"
  as_toolNames :: "string list"

definition collect_name :: "RuntimeTool \<Rightarrow> string list \<Rightarrow> string + string list" where
  "collect_name tool names =
     (if rt_name tool \<in> set names
      then Inl (''Duplicate tool name '' @ CHR 0x27 # rt_name tool @ CHR 0x27 # '' in assembly seed.'')
      else Inr (names @ [rt_name tool]))"

definition collectSeedToolNames :: "RuntimeTool list \<Rightarrow> string + string list" where
  "collectSeedToolNames tools = fold_err collect_name tools []"

definition append_tool :: "string \<Rightarrow> RuntimeTool \<Rightarrow> Assembly \<Rightarrow> string + Assembly" where
  "append_tool extensionId tool a =
     (if rt_name tool \<in> set (as_toolNames a)
      then Inl (''Duplicate tool name '' @ CHR 0x27 # rt_name tool @ CHR 0x27 # '' contributed by extension '' @
        CHR 0x27 # extensionId @ CHR 0x27 # '' (already registered by an earlier extension).'')
      else Inr (a\<lparr>as_toolNames := as_toolNames a @ [rt_name tool], as_tools := as_tools a @ [tool]\<rparr>))"

definition resolve_contribution :: "TurnAssemblyCtx \<Rightarrow> RuntimeToolContribution \<Rightarrow> string + RuntimeTool list" where
  "resolve_contribution ctx c =
     (case c of
        StaticTool t \<Rightarrow> Inr [t]
      | ToolFactory f \<Rightarrow>
          bind_err (f ctx) (\<lambda>res. Inr (case res of NoTool \<Rightarrow> [] | OneTool t \<Rightarrow> [t] | ToolCatalog ts \<Rightarrow> ts)))"

definition append_contribution :: "string \<Rightarrow> TurnAssemblyCtx \<Rightarrow> RuntimeToolContribution \<Rightarrow> Assembly \<Rightarrow> string + Assembly" where
  "append_contribution extensionId ctx c a =
     bind_err (resolve_contribution ctx c) (\<lambda>catalog. fold_err (append_tool extensionId) catalog a)"

definition append_system_prefix :: "TurnAssemblyCtx \<Rightarrow> PromptContributor \<Rightarrow> Assembly \<Rightarrow> string + Assembly" where
  "append_system_prefix ctx f a =
     bind_err (f ctx) (\<lambda>p. Inr (if truthy_str p then a\<lparr>as_systemPrefixes := as_systemPrefixes a @ [the p]\<rparr> else a))"

definition appendModelContextContributions :: "LoadedExtension \<Rightarrow> TurnAssemblyCtx \<Rightarrow> Assembly \<Rightarrow> string + Assembly" where
  "appendModelContextContributions loaded ctx a =
     bind_err (fold_err (append_contribution (le_id loaded) ctx) (le_tools loaded) a)
       (fold_err (append_system_prefix ctx) (le_systemPromptContributors loaded))"

definition append_model_context :: "LoadedExtension \<Rightarrow> TurnAssemblyCtx \<Rightarrow> Assembly \<Rightarrow> string + Assembly" where
  "append_model_context loaded ctx a =
     (if length (le_tools loaded) > 0 \<or> length (le_systemPromptContributors loaded) > 0
      then appendModelContextContributions loaded ctx a else Inr a)"

definition append_user_prefix :: "TurnAssemblyCtx \<Rightarrow> PromptContributor \<Rightarrow> Assembly \<Rightarrow> string + Assembly" where
  "append_user_prefix ctx f a =
     bind_err (f ctx) (\<lambda>p. Inr (if truthy_str p then a\<lparr>as_userPrefixes := as_userPrefixes a @ [the p]\<rparr> else a))"

definition append_reminder :: "TurnAssemblyCtx \<Rightarrow> ReminderProvider \<Rightarrow> Assembly \<Rightarrow> string + Assembly" where
  "append_reminder ctx provider a =
     bind_err (rp_compute provider ctx) (\<lambda>emission. Inr (case emission of
        None \<Rightarrow> a
      | Some e \<Rightarrow> a\<lparr>as_reminders := as_reminders a @ [\<lparr>em_providerName = rp_name provider, em_reminder = e\<rparr>]\<rparr>))"

definition append_hook_mapping :: "LoadedExtension \<Rightarrow> TurnAssemblyCtx \<Rightarrow> string \<times> HookName \<times> HookAdapter \<Rightarrow> PiTurnHooks \<Rightarrow> PiTurnHooks" where
  "append_hook_mapping loaded ctx mapping hooks =
     (case mapping of (field, event, adapter) \<Rightarrow>
        let source = le_hookHandlers loaded event in
        if length source = 0 then hooks
        else appendHooks field (map (\<lambda>h. if adapter = AdapterToolContext then wrapToolWithCtx h ctx else wrapWithCtx h ctx) source) hooks)"

text \<open>The body of the loop of \<^verbatim>\<open>assembleTurn\<close> for one extension of the snapshot.\<close>

definition assemble_extension :: "TurnAssemblyCtx \<Rightarrow> LoadedExtension \<times> bool \<Rightarrow> Assembly \<Rightarrow> string + Assembly" where
  "assemble_extension ctx snapshot a =
     (case snapshot of (loaded, enabled) \<Rightarrow>
        if \<not> enabled then Inr (a\<lparr>as_disabledIds := as_disabledIds a @ [le_id loaded]\<rparr>)
        else
          bind_err (append_model_context loaded ctx (a\<lparr>as_enabledIds := as_enabledIds a @ [le_id loaded]\<rparr>)) (\<lambda>a1.
          bind_err (fold_err (append_user_prefix ctx) (le_userPromptContributors loaded) a1) (\<lambda>a2.
          bind_err (fold_err (append_reminder ctx) (le_reminderProviders loaded) a2) (\<lambda>a3.
          Inr (a3\<lparr>as_hooks := fold (append_hook_mapping loaded ctx) HOOK_MAPPINGS (as_hooks a3),
                  as_turnStartHandlers := as_turnStartHandlers a3 @ le_hookHandlers loaded TurnStart,
                  as_turnEndHandlers := as_turnEndHandlers a3 @ le_hookHandlers loaded TurnEnd\<rparr>)))))"

definition empty_hooks :: PiTurnHooks where
  "empty_hooks = [(''beforeLlmCallHook'', []), (''afterLlmCallHook'', []), (''beforeToolCallHook'', []),
     (''afterToolCallHook'', []), (''onHistoryChangedHook'', []), (''onStepEndHook'', [])]"

definition new_assembly :: "TurnAssemblySeed option \<Rightarrow> string list \<Rightarrow> Assembly" where
  "new_assembly seed names =
     \<lparr>as_tools = (case seed of None \<Rightarrow> [] | Some s \<Rightarrow> sd_tools s), as_systemPrefixes = [],
      as_userPrefixes = (case seed of None \<Rightarrow> [] | Some s \<Rightarrow> if sd_userPromptPrefix s \<noteq> [] then [sd_userPromptPrefix s] else []),
      as_reminders = [], as_hooks = empty_hooks, as_turnStartHandlers = [], as_turnEndHandlers = [], as_enabledIds = [],
      as_disabledIds = [], as_toolNames = names\<rparr>"

definition blank_line :: string where
  "blank_line = [CHR 0x0A, CHR 0x0A]"

text \<open>\<^verbatim>\<open>Array.prototype.sort\<close> is stable; the comparator orders by descending priority.\<close>

definition sort_reminders :: "ReminderEmission list \<Rightarrow> ReminderEmission list" where
  "sort_reminders = sort_key (\<lambda>e. - nullish (re_priority (em_reminder e)) 0)"

definition finish_assembly :: "(LoadedExtension \<times> bool) list \<Rightarrow> Assembly \<Rightarrow> AssemblyResult" where
  "finish_assembly snapshots a =
     (let reminders = sort_reminders (as_reminders a) in
      \<lparr>ar_systemPromptPrefix = js_join blank_line (as_systemPrefixes a),
       ar_userPromptPrefix = js_join blank_line (as_userPrefixes a), ar_tools = as_tools a, ar_hooks = as_hooks a,
       ar_reminders = reminders, ar_turnStartHandlers = as_turnStartHandlers a, ar_turnEndHandlers = as_turnEndHandlers a,
       ar_diagnostic = \<lparr>ad_loadedExtensions = map (\<lambda>(l, e). le_id l) snapshots, ad_enabledExtensions = as_enabledIds a,
         ad_disabledExtensions = as_disabledIds a, ad_toolCount = length (as_tools a),
         ad_reminderCount = length reminders\<rparr>\<rparr>)"

definition assembleTurn :: "Registry \<Rightarrow> TurnAssemblyCtx \<Rightarrow> TurnAssemblySeed option \<Rightarrow> string + AssemblyResult" where
  "assembleTurn r ctx seed =
     (case assertReady r ''assembleTurn'' of
        Some e \<Rightarrow> Inl e
      | None \<Rightarrow>
          (let snapshots = snapshotExtensions r ctx in
           bind_err (collectSeedToolNames (case seed of None \<Rightarrow> [] | Some s \<Rightarrow> sd_tools s)) (\<lambda>names.
           bind_err (fold_err (assemble_extension ctx) snapshots (new_assembly seed names)) (\<lambda>a.
           Inr (finish_assembly snapshots a)))))"

definition assemble_model_extension :: "TurnAssemblyCtx \<Rightarrow> LoadedExtension \<times> bool \<Rightarrow> Assembly \<Rightarrow> string + Assembly" where
  "assemble_model_extension ctx snapshot a =
     (case snapshot of (loaded, enabled) \<Rightarrow> if \<not> enabled then Inr a else append_model_context loaded ctx a)"

text \<open>The system prefix and the tools.\<close>

definition assembleModelContext ::
  "Registry \<Rightarrow> TurnAssemblyCtx \<Rightarrow> RuntimeTool list option \<Rightarrow> string + string \<times> RuntimeTool list" where
  "assembleModelContext r ctx seed =
     (case assertReady r ''assembleModelContext'' of
        Some e \<Rightarrow> Inl e
      | None \<Rightarrow>
          (let tools = nullish seed [] in
           bind_err (collectSeedToolNames tools) (\<lambda>names.
           bind_err (fold_err (assemble_model_extension ctx) (snapshotExtensions r ctx)
               ((new_assembly None names)\<lparr>as_tools := tools\<rparr>)) (\<lambda>a.
           Inr (js_join blank_line (as_systemPrefixes a), as_tools a)))))"

section \<open>What loading collects\<close>

text \<open>The error of a call on the facade of \<open>owner\<close> while \<open>active\<close> is the extension being loaded.\<close>

definition foreign_error :: "string \<Rightarrow> string \<Rightarrow> ApiCall \<Rightarrow> string" where
  "foreign_error active owner call =
     ''Registry.'' @ call_method call @ '': ExtensionAPI owner '' @ CHR 0x27 # owner @ CHR 0x27 # '' is outside its init window'' @
     (if active \<noteq> [] then ''; active owner is '' @ CHR 0x27 # active @ CHR 0x27 # ''.'' else ''.'')"

text \<open>The calls of an \<^verbatim>\<open>init\<close> on its own facade, in order; every other call fails.\<close>

primrec init_calls :: "Init \<Rightarrow> string \<Rightarrow> string + ApiCall list" where
  "init_calls InitDone i = Inr []"
| "init_calls (InitThrow e) i = Inl e"
| "init_calls (InitCall owner call k) i =
     (if owner = i then map_sum id (Cons call) (init_calls (k None) i)
      else init_calls (k (Some (foreign_error i owner call))) i)"

fun load_spec :: "js_record \<Rightarrow> string list \<Rightarrow> AgentExtension list \<Rightarrow> string + LoadedExtension list" where
  "load_spec params seen [] = Inr []"
| "load_spec params seen (ext # exts) =
     (if ae_id ext \<in> set seen then Inl (''Duplicate extension id during init: '' @ ae_id ext)
      else bind_err (init_calls (ae_init ext params) (ae_id ext)) (\<lambda>calls.
        map_sum id (Cons (fold push_contribution calls (createEmptyLoaded ext))) (load_spec params (seen @ [ae_id ext]) exts)))"

lemma push_contribution_id [simp]: "le_id (push_contribution c l) = le_id l"
  by (cases c) simp_all

lemma fold_push_id [simp]: "le_id (fold push_contribution cs l) = le_id l"
  by (induction cs arbitrary: l) simp_all

lemma api_call_active:
  assumes "rg_lifecycleState r = StateInitializing" "rg_activeLoaded r = Some i"
    and "rg_extensions r = pre @ [(i, l)]" "i \<notin> set (keys pre)"
  shows "api_call r owner call =
    (if owner = i then (r\<lparr>rg_extensions := pre @ [(i, push_contribution call l)]\<rparr>, None)
     else (r, Some (foreign_error i owner call)))"
proof -
  have "map (\<lambda>(j, l). (j, if j = i then push_contribution call l else l)) pre = pre"
    using assms(4) by (intro map_idI) force
  with assms show ?thesis by (simp add: api_call_def assertActiveOwner_def foreign_error_def truthy_str_def)
qed

lemma run_init_spec:
  assumes "rg_lifecycleState r = StateInitializing" "rg_activeLoaded r = Some i"
    and "rg_extensions r = pre @ [(i, l)]" "i \<notin> set (keys pre)"
  shows "\<exists>l'. run_init t r = (r\<lparr>rg_extensions := pre @ [(i, l')]\<rparr>, map_sum id (\<lambda>_. ()) (init_calls t i)) \<and>
    (\<forall>cs. init_calls t i = Inr cs \<longrightarrow> l' = fold push_contribution cs l)"
  using assms
proof (induction t arbitrary: r l)
  case InitDone
  then show ?case by (intro exI [of _ l]) simp
next
  case (InitThrow e)
  then show ?case by (intro exI [of _ l]) simp
next
  case (InitCall owner call k)
  note api = api_call_active [OF InitCall.prems, of owner call]
  show ?case
  proof (cases "owner = i")
    case True
    let ?r = "r\<lparr>rg_extensions := pre @ [(i, push_contribution call l)]\<rparr>"
    have "\<exists>l'. run_init (k None) ?r = (?r\<lparr>rg_extensions := pre @ [(i, l')]\<rparr>, map_sum id (\<lambda>_. ()) (init_calls (k None) i)) \<and>
      (\<forall>cs. init_calls (k None) i = Inr cs \<longrightarrow> l' = fold push_contribution cs (push_contribution call l))"
      by (rule InitCall.IH) (use InitCall.prems in simp_all)
    then obtain l' where "run_init (k None) ?r = (?r\<lparr>rg_extensions := pre @ [(i, l')]\<rparr>, map_sum id (\<lambda>_. ()) (init_calls (k None) i))"
      "\<forall>cs. init_calls (k None) i = Inr cs \<longrightarrow> l' = fold push_contribution cs (push_contribution call l)" by blast
    with True api show ?thesis
      by (intro exI [of _ l'], cases "init_calls (k None) i") simp_all
  next
    case False
    with api InitCall.IH [of "k (Some (foreign_error i owner call))" r l] InitCall.prems show ?thesis by simp
  qed
qed

definition loaded_entries :: "LoadedExtension list \<Rightarrow> (string \<times> LoadedExtension) list" where
  "loaded_entries ls = map (\<lambda>l. (le_id l, l)) ls"

lemma keys_loaded_entries [simp]: "keys (loaded_entries ls) = map le_id ls"
  by (simp add: loaded_entries_def)

lemma init_loop_spec:
  assumes "rg_lifecycleState r = StateInitializing" "rg_activeLoaded r = None" "rg_extensions r = loaded_entries ls"
  shows "case load_spec (rg_params r) (map le_id ls) exts of
      Inl e \<Rightarrow> \<exists>es. init_loop exts r = (r\<lparr>rg_extensions := es\<rparr>, Inl e)
    | Inr ls' \<Rightarrow> init_loop exts r = (r\<lparr>rg_extensions := loaded_entries (ls @ ls')\<rparr>, Inr ())"
  using assms
proof (induction exts arbitrary: r ls)
  case Nil
  then show ?case by simp
next
  case (Cons ext exts)
  show ?case
  proof (cases "ae_id ext \<in> set (map le_id ls)")
    case True
    then have "load_spec (rg_params r) (map le_id ls) (ext # exts) = Inl (''Duplicate extension id during init: '' @ ae_id ext)" by simp
    then show ?thesis using True Cons.prems by (simp del: append_Cons append_Nil, intro exI [of _ "rg_extensions r"]) simp
  next
    case False
    let ?i = "ae_id ext"
    let ?t = "ae_init ext (rg_params r)"
    let ?r1 = "r\<lparr>rg_extensions := loaded_entries ls @ [(?i, createEmptyLoaded ext)], rg_activeLoaded := Some ?i\<rparr>"
    have id: "le_id (createEmptyLoaded ext) = ?i" by (simp add: createEmptyLoaded_def)
    obtain l' where run: "run_init ?t ?r1 = (?r1\<lparr>rg_extensions := loaded_entries ls @ [(?i, l')]\<rparr>, map_sum id (\<lambda>_. ()) (init_calls ?t ?i))"
      and l': "\<And>cs. init_calls ?t ?i = Inr cs \<Longrightarrow> l' = fold push_contribution cs (createEmptyLoaded ext)"
      using run_init_spec [of ?r1 ?i "loaded_entries ls" "createEmptyLoaded ext" ?t] False Cons.prems(1) by auto
    let ?r2 = "r\<lparr>rg_extensions := loaded_entries ls @ [(?i, l')]\<rparr>"
    have inactive: "r\<lparr>rg_extensions := x, rg_activeLoaded := None\<rparr> = r\<lparr>rg_extensions := x\<rparr>" for x
      using Cons.prems(2) by (cases r) simp
    have step: "init_loop (ext # exts) r = (case init_calls ?t ?i of Inl e \<Rightarrow> (?r2, Inl e) | Inr cs \<Rightarrow> init_loop exts ?r2)"
      using False Cons.prems run by (cases "init_calls ?t ?i") (simp_all add: inactive)
    show ?thesis
    proof (cases "init_calls ?t ?i")
      case (Inl e)
      then show ?thesis using False step by auto
    next
      case (Inr cs)
      then have li: "le_id l' = ?i" using l' id by simp
      then have "rg_extensions ?r2 = loaded_entries (ls @ [l'])" by (simp add: loaded_entries_def)
      from Cons.IH [OF _ _ this] Cons.prems(1,2) li
      have "case load_spec (rg_params r) (map le_id ls @ [?i]) exts of
          Inl e \<Rightarrow> \<exists>es. init_loop exts ?r2 = (r\<lparr>rg_extensions := es\<rparr>, Inl e)
        | Inr ls' \<Rightarrow> init_loop exts ?r2 = (r\<lparr>rg_extensions := loaded_entries ((ls @ [l']) @ ls')\<rparr>, Inr ())"
        by (simp cong: sum.case_cong)
      then show ?thesis
        using False step Inr l' [OF Inr] by (cases "load_spec (rg_params r) (map le_id ls @ [?i]) exts") auto
    qed
  qed
qed

lemma initExtensions_spec:
  "initExtensions (new_registry params) exts =
     (case load_spec params [] exts of
        Inl e \<Rightarrow> ((new_registry params)\<lparr>rg_lifecycleState := StateFailed\<rparr>, Inl e)
      | Inr ls \<Rightarrow> ((new_registry params)\<lparr>rg_lifecycleState := StateReady, rg_extensions := loaded_entries ls\<rparr>, Inr ()))"
  using init_loop_spec [of "(new_registry params)\<lparr>rg_lifecycleState := StateInitializing\<rparr>" "[]" exts]
  by (cases "load_spec params [] exts") (auto simp: initExtensions_def new_registry_def loaded_entries_def)

lemma load_spec_ids:
  "load_spec params seen exts = Inr ls \<Longrightarrow> map le_id ls = map ae_id exts \<and> distinct (map ae_id exts) \<and>
     set (map ae_id exts) \<inter> set seen = {}"
proof (induction params seen exts arbitrary: ls rule: load_spec.induct)
  case (2 params seen ext exts)
  then obtain cs ls' where h: "ae_id ext \<notin> set seen" "init_calls (ae_init ext params) (ae_id ext) = Inr cs"
    "load_spec params (seen @ [ae_id ext]) exts = Inr ls'"
    "ls = fold push_contribution cs (createEmptyLoaded ext) # ls'"
    by (auto simp: bind_err_Inr_iff map_sum_Inr_iff split: if_splits)
  with "2.IH" [OF h(1,3)] show ?case by (auto simp: createEmptyLoaded_def)
qed simp

section \<open>The life of a registry\<close>

datatype RegistryOp =
    RInit "AgentExtension list"
  | RSetEnabled string bool "string option"
  | RDispose string
  | RCall string ApiCall

fun registry_step :: "RegistryOp \<Rightarrow> Registry \<Rightarrow> Registry" where
  "registry_step (RInit exts) r = fst (initExtensions r exts)"
| "registry_step (RSetEnabled i b s) r = fst (setEnabled r i b s)"
| "registry_step (RDispose s) r = fst (disposeSession r s)"
| "registry_step (RCall owner call) r = fst (api_call r owner call)"

text \<open>What an extension contributes: everything but whether it is enabled.\<close>

definition contributions :: "LoadedExtension \<Rightarrow> LoadedExtension" where
  "contributions l = l\<lparr>le_enabledGlobal := True\<rparr>"

definition registry_contributions :: "Registry \<Rightarrow> (string \<times> LoadedExtension) list" where
  "registry_contributions r = map (apsnd contributions) (rg_extensions r)"

definition registry_inv :: "Registry \<Rightarrow> bool" where
  "registry_inv r \<longleftrightarrow> rg_lifecycleState r \<noteq> StateInitializing \<and> rg_activeLoaded r = None \<and>
     distinct (keys (rg_extensions r)) \<and> list_all (\<lambda>(i, l). le_id l = i) (rg_extensions r) \<and>
     (rg_lifecycleState r = StateReady \<or> rg_extensions r = [] \<and> rg_sessionOverrides r = [])"

lemma registry_inv_new: "registry_inv (new_registry params)"
  by (simp add: registry_inv_def new_registry_def)

lemma registry_inv_StateNew: "registry_inv r \<Longrightarrow> rg_lifecycleState r = StateNew \<Longrightarrow> r = new_registry (rg_params r)"
  by (cases r) (simp add: registry_inv_def new_registry_def)

lemma registry_inv_init:
  assumes "registry_inv r"
  shows "registry_inv (fst (initExtensions r exts))"
proof (cases "rg_lifecycleState r = StateNew")
  case True
  show ?thesis
    using initExtensions_spec [of "rg_params r" exts] load_spec_ids [of "rg_params r" "[]" exts]
    by (subst registry_inv_StateNew [OF assms True])
      (auto simp: registry_inv_def new_registry_def loaded_entries_def list_all_iff comp_def split: sum.split)
next
  case False
  then show ?thesis using assms by (simp add: initExtensions_def)
qed

text \<open>Once it is not being loaded, a registry has no active owner: every facade is dead.\<close>

lemma api_call_dead: "registry_inv r \<Longrightarrow> fst (api_call r owner call) = r \<and> snd (api_call r owner call) \<noteq> None"
  by (simp add: api_call_def assertActiveOwner_def registry_inv_def)

lemma setEnabled_cases:
  "fst (setEnabled r i b s) = r \<or>
   (\<exists>m. rg_lifecycleState r = StateReady \<and> fst (setEnabled r i b s) = r\<lparr>rg_sessionOverrides := m\<rparr>) \<or>
   (rg_lifecycleState r = StateReady \<and> fst (setEnabled r i b s) =
     r\<lparr>rg_extensions := map (\<lambda>(j, l). (j, if j = i then l\<lparr>le_enabledGlobal := b\<rparr> else l)) (rg_extensions r)\<rparr>)"
  by (auto simp: setEnabled_def assertReady_def Let_def)

lemma fst_comp_entry [simp]: "fst \<circ> (\<lambda>(j, l). (j, f j l)) = fst"
  by auto

lemma registry_step_inv:
  assumes "registry_inv r"
  shows "registry_inv (registry_step op r)"
    "rg_lifecycleState r \<noteq> StateNew \<Longrightarrow> rg_lifecycleState (registry_step op r) = rg_lifecycleState r"
    "rg_lifecycleState r = StateReady \<Longrightarrow> registry_contributions (registry_step op r) = registry_contributions r"
proof -
  have set: "registry_inv (fst (setEnabled r i b s)) \<and> rg_lifecycleState (fst (setEnabled r i b s)) = rg_lifecycleState r \<and>
      registry_contributions (fst (setEnabled r i b s)) = registry_contributions r" for i b s
    using setEnabled_cases [of r i b s] assms
    by (elim disjE exE conjE) (auto simp: registry_inv_def registry_contributions_def contributions_def list_all_iff)
  have dispose: "registry_inv (fst (disposeSession r s)) \<and> rg_lifecycleState (fst (disposeSession r s)) = rg_lifecycleState r \<and>
      registry_contributions (fst (disposeSession r s)) = registry_contributions r" for s
    using assms by (auto simp: disposeSession_def assertReady_def registry_inv_def registry_contributions_def)
  show "registry_inv (registry_step op r)"
    by (cases op) (simp_all add: registry_inv_init assms set dispose api_call_dead)
  show "rg_lifecycleState (registry_step op r) = rg_lifecycleState r" if "rg_lifecycleState r \<noteq> StateNew"
    using that by (cases op) (simp_all add: initExtensions_def set dispose api_call_dead assms)
  show "registry_contributions (registry_step op r) = registry_contributions r" if "rg_lifecycleState r = StateReady"
    using that by (cases op) (simp_all add: initExtensions_def set dispose api_call_dead assms)
qed

lemma registry_run_inv:
  assumes "registry_inv r"
  shows "registry_inv (fold registry_step ops r) \<and>
    (rg_lifecycleState r \<noteq> StateNew \<longrightarrow> rg_lifecycleState (fold registry_step ops r) = rg_lifecycleState r) \<and>
    (rg_lifecycleState r = StateReady \<longrightarrow> registry_contributions (fold registry_step ops r) = registry_contributions r)"
  using assms
proof (induction ops arbitrary: r)
  case (Cons op ops)
  note step = registry_step_inv [OF Cons.prems, of op]
  from Cons.IH [OF step(1)] step(2,3) show ?case by auto
qed simp

section \<open>What an assembly collects\<close>

lemma assertReady_None [simp]: "assertReady r m = None \<longleftrightarrow> rg_lifecycleState r = StateReady"
  by (simp add: assertReady_def)

text \<open>The tools an extension offers in a context.\<close>

definition gather_tools :: "TurnAssemblyCtx \<Rightarrow> RuntimeToolContribution \<Rightarrow> RuntimeTool list \<Rightarrow> string + RuntimeTool list" where
  "gather_tools ctx c ts = bind_err (resolve_contribution ctx c) (\<lambda>catalog. Inr (ts @ catalog))"

definition extension_tools :: "TurnAssemblyCtx \<Rightarrow> LoadedExtension \<Rightarrow> string + RuntimeTool list" where
  "extension_tools ctx l = fold_err (gather_tools ctx) (le_tools l) []"

definition tool_inv :: "Assembly \<Rightarrow> bool" where
  "tool_inv a \<longleftrightarrow> as_toolNames a = map rt_name (as_tools a) \<and> distinct (map rt_name (as_tools a))"

text \<open>Everything of an assembly but the tools and their names.\<close>

definition without_tools :: "Assembly \<Rightarrow> Assembly" where
  "without_tools a = a\<lparr>as_tools := [], as_toolNames := []\<rparr>"

lemma append_tools_ok:
  "fold_err (append_tool i) ts a = Inr a' \<Longrightarrow> tool_inv a \<Longrightarrow>
     tool_inv a' \<and> as_tools a' = as_tools a @ ts \<and> without_tools a' = without_tools a"
proof (induction ts arbitrary: a)
  case (Cons t ts)
  let ?a = "a\<lparr>as_toolNames := as_toolNames a @ [rt_name t], as_tools := as_tools a @ [t]\<rparr>"
  obtain s1 where s1: "append_tool i t a = Inr s1" "fold_err (append_tool i) ts s1 = Inr a'"
    using Cons.prems(1) by (rule fold_err_ConsE)
  from s1(1) have "rt_name t \<notin> set (as_toolNames a)" "s1 = ?a" by (auto simp: append_tool_def split: if_splits)
  with s1(2) have "rt_name t \<notin> set (as_toolNames a)" "fold_err (append_tool i) ts ?a = Inr a'" by simp_all
  moreover from this(1) Cons.prems(2) have "tool_inv ?a" by (simp add: tool_inv_def)
  ultimately show ?case using Cons.IH [of ?a] by (simp add: without_tools_def)
qed simp

lemma gather_tools_eq:
  "gather_tools ctx c ts = (case resolve_contribution ctx c of Inl e \<Rightarrow> Inl e | Inr catalog \<Rightarrow> Inr (ts @ catalog))"
  by (simp add: gather_tools_def bind_err_def)

lemma gather_tools_Inr: "resolve_contribution ctx c = Inr catalog \<Longrightarrow> gather_tools ctx c ts = Inr (ts @ catalog)"
  by (simp add: gather_tools_eq)

lemma gather_shift:
  "fold_err (gather_tools ctx) cs ts = map_sum id (\<lambda>us. ts @ us) (fold_err (gather_tools ctx) cs [])"
proof (induction cs arbitrary: ts)
  case (Cons c cs)
  show ?case
  proof (cases "resolve_contribution ctx c")
    case (Inr catalog)
    then have "fold_err (gather_tools ctx) (c # cs) us = fold_err (gather_tools ctx) cs (us @ catalog)" for us
      by (simp add: gather_tools_eq)
    then show ?thesis using Cons.IH [of "ts @ catalog"] Cons.IH [of catalog]
      by (cases "fold_err (gather_tools ctx) cs []") simp_all
  qed (simp add: gather_tools_eq)
qed simp

lemma append_contributions_ok:
  "fold_err (append_contribution i ctx) cs a = Inr a' \<Longrightarrow> tool_inv a \<Longrightarrow>
     tool_inv a' \<and> without_tools a' = without_tools a \<and>
     (\<exists>ts. fold_err (gather_tools ctx) cs [] = Inr ts \<and> as_tools a' = as_tools a @ ts)"
proof (induction cs arbitrary: a)
  case (Cons c cs)
  obtain a1 where a1: "append_contribution i ctx c a = Inr a1" "fold_err (append_contribution i ctx) cs a1 = Inr a'"
    using Cons.prems(1) by (rule fold_err_ConsE)
  then obtain catalog where h: "resolve_contribution ctx c = Inr catalog" "fold_err (append_tool i) catalog a = Inr a1"
      "fold_err (append_contribution i ctx) cs a1 = Inr a'"
    by (auto simp: append_contribution_def bind_err_Inr_iff)
  from append_tools_ok [OF h(2) Cons.prems(2)] Cons.IH [OF h(3)] show ?case
    using gather_shift [of ctx cs catalog] by (auto simp: gather_tools_Inr [OF h(1)])
qed simp

text \<open>The parts that leave the tools alone.\<close>

definition same_tools :: "Assembly \<Rightarrow> Assembly \<Rightarrow> bool" where
  "same_tools a a' \<longleftrightarrow> as_tools a' = as_tools a \<and> as_toolNames a' = as_toolNames a \<and>
     as_enabledIds a' = as_enabledIds a \<and> as_disabledIds a' = as_disabledIds a"

lemma same_tools_fold:
  assumes "fold_err f xs a = Inr a'" "\<And>x a a'. f x a = Inr a' \<Longrightarrow> same_tools a a'"
  shows "same_tools a a'"
  by (rule fold_err_invariant [OF assms(1), of "same_tools a"]) (use assms(2) in \<open>auto simp: same_tools_def\<close>)

lemma prefix_same_tools:
  "append_system_prefix ctx f a = Inr a' \<Longrightarrow> same_tools a a'"
  "append_user_prefix ctx f a = Inr a' \<Longrightarrow> same_tools a a'"
  "append_reminder ctx p a = Inr a' \<Longrightarrow> same_tools a a'"
  by (auto simp: append_system_prefix_def append_user_prefix_def append_reminder_def bind_err_Inr_iff same_tools_def split: option.splits)

lemma append_model_context_ok:
  assumes "append_model_context l ctx a = Inr a'" "tool_inv a"
  shows "tool_inv a' \<and> as_enabledIds a' = as_enabledIds a \<and> as_disabledIds a' = as_disabledIds a \<and>
    (\<exists>ts. extension_tools ctx l = Inr ts \<and> as_tools a' = as_tools a @ ts)"
proof (cases "length (le_tools l) > 0 \<or> length (le_systemPromptContributors l) > 0")
  case True
  then obtain a1 where h: "fold_err (append_contribution (le_id l) ctx) (le_tools l) a = Inr a1"
      "fold_err (append_system_prefix ctx) (le_systemPromptContributors l) a1 = Inr a'"
    using assms(1) by (auto simp: append_model_context_def appendModelContextContributions_def bind_err_Inr_iff)
  have "same_tools a1 a'" by (rule same_tools_fold [OF h(2) prefix_same_tools(1)])
  with append_contributions_ok [OF h(1) assms(2)] show ?thesis
    by (auto simp: same_tools_def tool_inv_def extension_tools_def without_tools_def dest: arg_cong [of _ _ as_enabledIds] arg_cong [of _ _ as_disabledIds])
next
  case False
  then show ?thesis using assms by (simp add: append_model_context_def extension_tools_def)
qed

text \<open>The tools of the enabled extensions of a snapshot.\<close>

definition enabled_tools :: "TurnAssemblyCtx \<Rightarrow> (LoadedExtension \<times> bool) list \<Rightarrow> RuntimeTool list" where
  "enabled_tools ctx snapshots = concat (map (\<lambda>(l, e). if e then projr (extension_tools ctx l) else []) snapshots)"

lemma assemble_extension_ok:
  assumes "assemble_extension ctx (l, e) a = Inr a'" "tool_inv a"
  shows "tool_inv a' \<and> as_tools a' = as_tools a @ (if e then projr (extension_tools ctx l) else []) \<and>
    as_enabledIds a' = as_enabledIds a @ (if e then [le_id l] else []) \<and>
    as_disabledIds a' = as_disabledIds a @ (if e then [] else [le_id l])"
proof (cases e)
  case True
  let ?a = "a\<lparr>as_enabledIds := as_enabledIds a @ [le_id l]\<rparr>"
  from assms(1) True obtain a1 a2 a3 where h: "append_model_context l ctx ?a = Inr a1"
    "fold_err (append_user_prefix ctx) (le_userPromptContributors l) a1 = Inr a2"
    "fold_err (append_reminder ctx) (le_reminderProviders l) a2 = Inr a3"
    "as_tools a' = as_tools a3" "as_toolNames a' = as_toolNames a3" "as_enabledIds a' = as_enabledIds a3" "as_disabledIds a' = as_disabledIds a3"
    by (auto simp: assemble_extension_def bind_err_Inr_iff)
  have "tool_inv ?a" using assms(2) by (simp add: tool_inv_def)
  from append_model_context_ok [OF h(1) this] same_tools_fold [OF h(2) prefix_same_tools(2)]
    same_tools_fold [OF h(3) prefix_same_tools(3)] h(4-7) True show ?thesis
    by (auto simp: same_tools_def tool_inv_def)
next
  case False
  then show ?thesis using assms by (auto simp: assemble_extension_def tool_inv_def)
qed

lemma fold_assemble_ok:
  "fold_err (assemble_extension ctx) snapshots a = Inr a' \<Longrightarrow> tool_inv a \<Longrightarrow>
     tool_inv a' \<and> as_tools a' = as_tools a @ enabled_tools ctx snapshots \<and>
     as_enabledIds a' = as_enabledIds a @ map (le_id \<circ> fst) (filter snd snapshots) \<and>
     as_disabledIds a' = as_disabledIds a @ map (le_id \<circ> fst) (filter (Not \<circ> snd) snapshots)"
proof (induction snapshots arbitrary: a)
  case (Cons s snapshots)
  obtain a1 where a1: "assemble_extension ctx s a = Inr a1" "fold_err (assemble_extension ctx) snapshots a1 = Inr a'"
    using Cons.prems(1) by (rule fold_err_ConsE)
  obtain l e where s: "s = (l, e)" by fastforce
  from assemble_extension_ok [OF a1(1) [unfolded s] Cons.prems(2)] Cons.IH [OF a1(2)] show ?case
    by (simp add: s enabled_tools_def)
qed (simp add: enabled_tools_def)

lemma collectSeedToolNames_ok:
  "collectSeedToolNames ts = Inr names \<Longrightarrow> names = map rt_name ts \<and> distinct names"
proof -
  have "fold_err collect_name ts acc = Inr names \<Longrightarrow> distinct acc \<Longrightarrow> names = acc @ map rt_name ts \<and> distinct names" for acc
  proof (induction ts arbitrary: acc)
    case (Cons t ts)
    obtain s1 where s1: "collect_name t acc = Inr s1" "fold_err collect_name ts s1 = Inr names"
      using Cons.prems(1) by (rule fold_err_ConsE)
    then have "s1 = acc @ [rt_name t]" "rt_name t \<notin> set acc" by (auto simp: collect_name_def split: if_splits)
    moreover from this have "distinct s1" using Cons.prems(2) by simp
    then have "names = s1 @ map rt_name ts \<and> distinct names" by (rule Cons.IH [OF s1(2)])
    ultimately show ?case by (metis append.assoc append_Cons append_Nil list.map(2))
  qed simp
  from this [of "[]"] show "collectSeedToolNames ts = Inr names \<Longrightarrow> names = map rt_name ts \<and> distinct names"
    by (auto simp: collectSeedToolNames_def)
qed

lemma assembleTurn_cases:
  assumes "assembleTurn r ctx seed = Inr res"
  obtains names a where "rg_lifecycleState r = StateReady"
    "collectSeedToolNames (case seed of None \<Rightarrow> [] | Some s \<Rightarrow> sd_tools s) = Inr names"
    "fold_err (assemble_extension ctx) (snapshotExtensions r ctx) (new_assembly seed names) = Inr a"
    "res = finish_assembly (snapshotExtensions r ctx) a"
  using assms by (auto simp: assembleTurn_def bind_err_Inr_iff Let_def split: option.splits)

lemma tool_inv_new:
  "collectSeedToolNames (case seed of None \<Rightarrow> [] | Some s \<Rightarrow> sd_tools s) = Inr names \<Longrightarrow> tool_inv (new_assembly seed names)"
  by (auto simp: tool_inv_def new_assembly_def dest!: collectSeedToolNames_ok)

section \<open>Assembly under interleaving\<close>

text \<open>
  \<^verbatim>\<open>assembleTurn\<close> awaits its contributors, and the host may call the registry meanwhile.  The loop below holds the
  ids and the enablement of the snapshot, runs a batch of operations before each extension and reads the
  extension from the registry as it is then.
\<close>

fun assemble_interleaved ::
  "TurnAssemblyCtx \<Rightarrow> (string \<times> bool) list \<Rightarrow> RegistryOp list list \<Rightarrow> Registry \<Rightarrow> Assembly \<Rightarrow> string + Assembly" where
  "assemble_interleaved ctx [] batches r a = Inr a"
| "assemble_interleaved ctx ((i, e) # rest) batches r a =
     (let r' = (case batches of [] \<Rightarrow> r | ops # _ \<Rightarrow> fold registry_step ops r)
      in case map_of (rg_extensions r') i of
           None \<Rightarrow> Inl ''extension vanished''
         | Some l \<Rightarrow> bind_err (assemble_extension ctx (l, e) a) (assemble_interleaved ctx rest (drop 1 batches) r'))"

lemma assemble_extension_contributions:
  "contributions l = contributions l' \<Longrightarrow> assemble_extension ctx (l, e) a = assemble_extension ctx (l', e) a"
proof -
  assume "contributions l = contributions l'"
  then obtain b where "l' = l\<lparr>le_enabledGlobal := b\<rparr>" by (cases l; cases l') (simp add: contributions_def)
  then show ?thesis
    by (simp add: assemble_extension_def append_model_context_def appendModelContextContributions_def append_hook_mapping_def [abs_def])
qed

lemma map_of_contributions:
  "map_of (map (apsnd f) m) i = map_option f (map_of m i)"
  by (induction m) auto

lemma assemble_interleaved_eq:
  assumes "registry_inv r" "rg_lifecycleState r = StateReady" "registry_contributions r = map (apsnd contributions) es"
    and "\<forall>(l, e)\<in>set snaps. map_of es (le_id l) = Some l"
  shows "assemble_interleaved ctx (map (\<lambda>(l, e). (le_id l, e)) snaps) batches r a = fold_err (assemble_extension ctx) snaps a"
  using assms
proof (induction snaps arbitrary: batches r a)
  case (Cons s snaps)
  obtain l e where s: "s = (l, e)" by fastforce
  define r' where "r' = (case batches of [] \<Rightarrow> r | ops # _ \<Rightarrow> fold registry_step ops r)"
  have r': "registry_inv r'" "rg_lifecycleState r' = StateReady" "registry_contributions r' = map (apsnd contributions) es"
    using Cons.prems registry_run_inv [OF Cons.prems(1)] by (simp_all add: r'_def split: list.split)
  have "map_option contributions (map_of (rg_extensions r') (le_id l)) = Some (contributions l)"
    using arg_cong [OF r'(3), of "\<lambda>m. map_of m (le_id l)"] Cons.prems(4)
    by (simp add: registry_contributions_def map_of_contributions s)
  then obtain l' where l': "map_of (rg_extensions r') (le_id l) = Some l'" "contributions l' = contributions l" by auto
  have "assemble_interleaved ctx (map (\<lambda>(l, e). (le_id l, e)) (s # snaps)) batches r a =
      bind_err (assemble_extension ctx (l', e) a) (assemble_interleaved ctx (map (\<lambda>(l, e). (le_id l, e)) snaps) (drop 1 batches) r')"
    by (simp add: s l' r'_def [symmetric])
  also have "\<dots> = bind_err (assemble_extension ctx (l, e) a) (fold_err (assemble_extension ctx) snaps)"
    unfolding assemble_extension_contributions [OF l'(2)]
    by (rule arg_cong [of _ _ "bind_err _"], rule ext, rule Cons.IH [OF r']) (use Cons.prems(4) in simp)
  also have "\<dots> = fold_err (assemble_extension ctx) (s # snaps) a" by (simp only: s fold_err_Cons)
  finally show ?case .
qed simp

section \<open>Properties\<close>

text \<open>The priority that orders reminders.\<close>

definition emission_priority :: "ReminderEmission \<Rightarrow> int" where
  "emission_priority e = nullish (re_priority (em_reminder e)) 0"

text \<open>Whether an extension is enabled for a session.\<close>

definition enabled_in :: "Registry \<Rightarrow> string \<Rightarrow> string \<Rightarrow> bool option" where
  "enabled_in r i session = map_option (\<lambda>l. isEnabled r l (Some session)) (map_of (rg_extensions r) i)"

definition has_override :: "Registry \<Rightarrow> string \<Rightarrow> string \<Rightarrow> bool" where
  "has_override r i session = (case map_of (rg_sessionOverrides r) session of None \<Rightarrow> False | Some m \<Rightarrow> map_of m i \<noteq> None)"

lemma registry_inv_id: "registry_inv r \<Longrightarrow> map_of (rg_extensions r) k = Some l \<Longrightarrow> le_id l = k"
  by (auto simp: registry_inv_def list_all_iff dest!: map_of_SomeD)

lemma setEnabled_session:
  assumes "registry_inv r" "rg_lifecycleState r = StateReady" "i \<in> set (keys (rg_extensions r))" "s \<noteq> []"
  shows "enabled_in (fst (setEnabled r i b (Some s))) j t = (if j = i \<and> t = s then Some b else enabled_in r j t)"
proof -
  let ?r = "r\<lparr>rg_sessionOverrides := AList.update s (AList.update i b (nullish (map_of (rg_sessionOverrides r) s) [])) (rg_sessionOverrides r)\<rparr>"
  have r: "fst (setEnabled r i b (Some s)) = ?r" using assms by (simp add: setEnabled_def assertReady_def truthy_str_def Let_def)
  have "isEnabled ?r l (Some t) = (if le_id l = i \<and> t = s then b else isEnabled r l (Some t))" for l
    by (simp add: isEnabled_def nullish_def split: option.split)
  moreover obtain l where "map_of (rg_extensions r) i = Some l" using assms(3) by (metis map_of_None_iff not_Some_eq)
  ultimately show ?thesis
    unfolding r enabled_in_def by (cases "map_of (rg_extensions r) j") (auto simp: registry_inv_id [OF assms(1)])
qed

lemma setEnabled_global:
  assumes "registry_inv r" "rg_lifecycleState r = StateReady" "i \<in> set (keys (rg_extensions r))"
  shows "enabled_in (fst (setEnabled r i b None)) j t = (if j = i \<and> \<not> has_override r i t then Some b else enabled_in r j t)"
proof -
  let ?upd = "\<lambda>m. map (\<lambda>(j, l). (j, if j = i then l\<lparr>le_enabledGlobal := b\<rparr> else l)) m"
  have r: "fst (setEnabled r i b None) = r\<lparr>rg_extensions := ?upd (rg_extensions r)\<rparr>"
    using assms by (simp add: setEnabled_def assertReady_def truthy_str_def)
  have entry: "map_of (?upd m) k = map_option (\<lambda>l. if k = i then l\<lparr>le_enabledGlobal := b\<rparr> else l) (map_of m k)" for m k
    by (induction m) auto
  have own: "isEnabled r (l\<lparr>le_enabledGlobal := b\<rparr>) (Some t) = (if has_override r i t then isEnabled r l (Some t) else b)"
    if "le_id l = i" for l
    using that by (auto simp: isEnabled_def has_override_def nullish_def split: option.split)
  have other: "isEnabled (r\<lparr>rg_extensions := x\<rparr>) l (Some t) = isEnabled r l (Some t)" for x l
    by (simp add: isEnabled_def)
  obtain l where "map_of (rg_extensions r) i = Some l" using assms(3) by (metis map_of_None_iff not_Some_eq)
  then show ?thesis
    unfolding r enabled_in_def
    by (cases "map_of (rg_extensions r) j") (auto simp: entry own other registry_inv_id [OF assms(1)])
qed

lemma disposeSession_effect:
  assumes "registry_inv r" "rg_lifecycleState r = StateReady"
  shows "enabled_in (fst (disposeSession r s)) j t =
    (if t = s then map_option le_enabledGlobal (map_of (rg_extensions r) j) else enabled_in r j t)"
  using assms(2) by (cases "map_of (rg_extensions r) j") (simp_all add: disposeSession_def assertReady_def enabled_in_def isEnabled_def)

text \<open>Two extensions: one registers a tool, the other uses its own facade and one that is not its own.\<close>

definition sample_tool :: RuntimeTool where
  "sample_tool = \<lparr>rt_name = ''grep'', rt_def = JUndefined\<rparr>"

definition sample_extensions :: "AgentExtension list" where
  "sample_extensions =
     [\<lparr>ae_id = ''tools'', ae_description = None,
       ae_init = (\<lambda>params. InitCall ''tools'' (CallRegisterTool (StaticTool sample_tool)) (\<lambda>e. InitDone))\<rparr>,
      \<lparr>ae_id = ''spy'', ae_description = None,
       ae_init = (\<lambda>params. InitCall ''tools'' (CallContributeSystemPrompt (\<lambda>c. Inr (Some ''x''))) (\<lambda>e.
         if e = None then InitThrow ''accepted'' else InitDone))\<rparr>]"

definition sample_registry :: Registry where
  "sample_registry = fst (initExtensions (new_registry []) sample_extensions)"

definition sample_ctx :: TurnAssemblyCtx where
  "sample_ctx = \<lparr>tc_sessionId = ''s1'', tc_rest = []\<rparr>"

lemma sample_registry_eq:
  "sample_registry = (new_registry [])\<lparr>rg_lifecycleState := StateReady, rg_extensions := loaded_entries
     [(createEmptyLoaded (sample_extensions ! 0))\<lparr>le_tools := [StaticTool sample_tool]\<rparr>, createEmptyLoaded (sample_extensions ! 1)]\<rparr>"
  unfolding sample_registry_def initExtensions_spec by (simp add: sample_extensions_def createEmptyLoaded_def)

lemma sample_registry_ready: "registry_inv sample_registry" "rg_lifecycleState sample_registry = StateReady"
  "''spy'' \<in> set (keys (rg_extensions sample_registry))"
proof -
  show "registry_inv sample_registry" unfolding sample_registry_def by (rule registry_inv_init [OF registry_inv_new])
qed (simp_all add: sample_registry_eq loaded_entries_def createEmptyLoaded_def sample_extensions_def)

text \<open>C23: loading succeeds exactly when the ids are distinct and every \<^verbatim>\<open>init\<close> returns; then the registry holds, in
  order, what each extension registered through its own facade and nothing else; any failure leaves a
  registry without extensions.\<close>

theorem loading_collects_own_contributions:
  "initExtensions (new_registry params) exts =
     (case load_spec params [] exts of
        Inl e \<Rightarrow> ((new_registry params)\<lparr>rg_lifecycleState := StateFailed\<rparr>, Inl e)
      | Inr ls \<Rightarrow> ((new_registry params)\<lparr>rg_lifecycleState := StateReady, rg_extensions := loaded_entries ls\<rparr>, Inr ()))"
  by (rule initExtensions_spec)

text \<open>whatever sequence of loads, control calls and late facade calls a registry goes through, it keeps its
  invariant (unique ids, no active owner, nothing loaded unless ready); ready and failed are final, and a
  ready registry's contributions never change.\<close>

theorem registry_is_frozen_once_loaded:
  fixes params ops ops'
  defines "r \<equiv> fold registry_step ops (new_registry params)"
  shows "registry_inv r \<and>
    (rg_lifecycleState r \<noteq> StateNew \<longrightarrow> rg_lifecycleState (fold registry_step ops' r) = rg_lifecycleState r) \<and>
    (rg_lifecycleState r = StateReady \<longrightarrow> registry_contributions (fold registry_step ops' r) = registry_contributions r)"
  using registry_run_inv [OF registry_inv_new, of ops params] registry_run_inv [of r ops'] unfolding r_def by blast

theorem registry_is_frozen_once_loaded_witness:
  "registry_contributions (fold registry_step [RSetEnabled ''spy'' False None, RCall ''spy'' (CallRegisterTool (StaticTool sample_tool))]
     sample_registry) = registry_contributions sample_registry"
  using registry_is_frozen_once_loaded [of "[RInit sample_extensions]" "[]"
      "[RSetEnabled ''spy'' False None, RCall ''spy'' (CallRegisterTool (StaticTool sample_tool))]"] sample_registry_ready(2)
  by (simp add: sample_registry_def)

text \<open>in a ready registry \<^verbatim>\<open>setEnabled\<close> with a session changes that extension in that session only; without a
  session it changes the extension in every session without an override of its own; disposing of a
  session returns it to the global settings.\<close>

theorem enabling_is_scoped:
  assumes "registry_inv r" "rg_lifecycleState r = StateReady" "i \<in> set (keys (rg_extensions r))" "s \<noteq> []"
  shows "enabled_in (fst (setEnabled r i b (Some s))) j t = (if j = i \<and> t = s then Some b else enabled_in r j t) \<and>
    enabled_in (fst (setEnabled r i b None)) j t = (if j = i \<and> \<not> has_override r i t then Some b else enabled_in r j t) \<and>
    enabled_in (fst (disposeSession r s)) j t = (if t = s then map_option le_enabledGlobal (map_of (rg_extensions r) j) else enabled_in r j t)"
  using setEnabled_session [OF assms] setEnabled_global [OF assms(1-3)] disposeSession_effect [OF assms(1,2)] by simp

theorem enabling_is_scoped_witness:
  "enabled_in (fst (setEnabled sample_registry ''spy'' False (Some ''s1''))) ''spy'' ''s1'' = Some False \<and>
   enabled_in (fst (setEnabled sample_registry ''spy'' False (Some ''s1''))) ''spy'' ''s2'' = enabled_in sample_registry ''spy'' ''s2''"
  using enabling_is_scoped [OF sample_registry_ready, of "''s1''" False "''spy''"] by auto

text \<open>a successful assembly has no two tools of one name; its tools are the seed's followed by those of the
  enabled extensions in load order; every loaded extension is reported as enabled or disabled, in load
  order; and the reminders are in descending order of priority, equal priorities in order of emission.\<close>

theorem assembled_turn_is_consistent:
  assumes "assembleTurn r ctx seed = Inr res"
  shows "distinct (map rt_name (ar_tools res)) \<and>
    ar_tools res = (case seed of None \<Rightarrow> [] | Some s \<Rightarrow> sd_tools s) @ enabled_tools ctx (snapshotExtensions r ctx) \<and>
    ad_enabledExtensions (ar_diagnostic res) = map (le_id \<circ> fst) (filter snd (snapshotExtensions r ctx)) \<and>
    ad_disabledExtensions (ar_diagnostic res) = map (le_id \<circ> fst) (filter (Not \<circ> snd) (snapshotExtensions r ctx)) \<and>
    sorted_wrt (\<lambda>x y. emission_priority y \<le> emission_priority x) (ar_reminders res) \<and>
    ad_toolCount (ar_diagnostic res) = length (ar_tools res) \<and> ad_reminderCount (ar_diagnostic res) = length (ar_reminders res)"
proof -
  obtain names a where h: "collectSeedToolNames (case seed of None \<Rightarrow> [] | Some s \<Rightarrow> sd_tools s) = Inr names"
    "fold_err (assemble_extension ctx) (snapshotExtensions r ctx) (new_assembly seed names) = Inr a"
    "res = finish_assembly (snapshotExtensions r ctx) a"
    using assms by (rule assembleTurn_cases)
  have "sorted (map (\<lambda>e. - emission_priority e) (sort_reminders (as_reminders a)))"
    unfolding sort_reminders_def emission_priority_def by (rule sorted_sort_key)
  then have "sorted_wrt (\<lambda>x y. emission_priority y \<le> emission_priority x) (sort_reminders (as_reminders a))"
    by (simp add: sorted_map)
  moreover note ok = fold_assemble_ok [OF h(2) tool_inv_new [OF h(1)]]
  then have "distinct (map rt_name (as_tools a))" unfolding tool_inv_def by blast
  then have "distinct (map rt_name (ar_tools res))" by (simp add: h(3) finish_assembly_def Let_def)
  ultimately show ?thesis
    using ok by (auto simp: h(3) finish_assembly_def Let_def new_assembly_def simp del: map_append distinct_append)
qed

theorem assembled_turn_is_consistent_witness:
  "\<exists>res. assembleTurn sample_registry sample_ctx None = Inr res \<and> distinct (map rt_name (ar_tools res)) \<and>
     ad_enabledExtensions (ar_diagnostic res) = [''tools'', ''spy'']"
proof -
  have snap: "snapshotExtensions sample_registry sample_ctx =
      [((createEmptyLoaded (sample_extensions ! 0))\<lparr>le_tools := [StaticTool sample_tool]\<rparr>, True), (createEmptyLoaded (sample_extensions ! 1), True)]"
    by (simp add: snapshotExtensions_def sample_registry_eq loaded_entries_def isEnabled_def sample_ctx_def new_registry_def createEmptyLoaded_def)
  have "\<exists>res. assembleTurn sample_registry sample_ctx None = Inr res"
    by (simp add: assembleTurn_def sample_registry_ready assertReady_def snap collectSeedToolNames_def assemble_extension_def
        append_model_context_def appendModelContextContributions_def append_contribution_def resolve_contribution_def append_tool_def
        new_assembly_def createEmptyLoaded_def)
  then obtain res where res: "assembleTurn sample_registry sample_ctx None = Inr res" ..
  note ok = assembled_turn_is_consistent [OF res]
  then have "ad_enabledExtensions (ar_diagnostic res) = [''tools'', ''spy'']"
    by (simp add: snap createEmptyLoaded_def sample_extensions_def)
  with ok res show ?thesis by blast
qed

text \<open>an assembly never mixes old and new enablement: whatever calls the host makes on the registry while the
  contributors are awaited, the outcome is that of an assembly nobody interrupts.\<close>

theorem assembly_ignores_concurrent_changes:
  assumes "registry_inv r" "rg_lifecycleState r = StateReady"
  shows "assemble_interleaved ctx (map (\<lambda>(l, e). (le_id l, e)) (snapshotExtensions r ctx)) batches r a =
    fold_err (assemble_extension ctx) (snapshotExtensions r ctx) a"
proof (rule assemble_interleaved_eq [OF assms, of "rg_extensions r"])
  have "map_of (rg_extensions r) i = Some l" if "(i, l) \<in> set (rg_extensions r)" for i l
    using that assms(1) by (simp add: registry_inv_def)
  then show "\<forall>(l, e)\<in>set (snapshotExtensions r ctx). map_of (rg_extensions r) (le_id l) = Some l"
    using assms(1) by (auto simp: snapshotExtensions_def registry_inv_def list_all_iff)
qed (simp add: registry_contributions_def)

theorem assembly_ignores_concurrent_changes_witness:
  "assemble_interleaved sample_ctx (map (\<lambda>(l, e). (le_id l, e)) (snapshotExtensions sample_registry sample_ctx))
     [[RSetEnabled ''spy'' False None], [RSetEnabled ''tools'' False (Some ''s1''), RDispose ''s1'']] sample_registry (new_assembly None []) =
   fold_err (assemble_extension sample_ctx) (snapshotExtensions sample_registry sample_ctx) (new_assembly None [])"
  by (rule assembly_ignores_concurrent_changes [OF sample_registry_ready(1,2)])

end
