(* ===== verification/Extension_Runtime.thy ===== *)
theory Extension_Runtime
  imports Extension_Registry
begin

text \<open>
  The construction of an agent runtime: the load list of a profile (\<^verbatim>\<open>agent-runtime/src/resolve.ts\<close>), the
  extension factories (\<^verbatim>\<open>factories.ts\<close>) and \<^verbatim>\<open>createAgentRuntime\<close> (\<^verbatim>\<open>api.ts\<close>).  The order in which
  \<^verbatim>\<open>Object.entries\<close> lists the replacements only decides which of several errors is thrown first; the model
  takes them in the order given.
\<close>

section \<open>The load list of a profile\<close>

record ProfileOverlay =
  ov_enable :: "string list option"
  ov_disable :: "string list option"
  ov_replace :: "(string \<times> string) list option"
  ov_param :: "js_record option"

record RuntimeOptions =
  ro_base :: "AgentExtension list"
  ro_additions :: "AgentExtension list option"
  ro_overlays :: "(string \<times> ProfileOverlay) list option"
  ro_profile :: "string option"

text \<open>\<^verbatim>\<open>new Set(xs)\<close> in insertion order.\<close>

definition js_set :: "'a list \<Rightarrow> 'a list" where
  "js_set xs = rev (remdups (rev xs))"

definition resolve_error :: "string \<Rightarrow> string \<Rightarrow> string \<Rightarrow> string" where
  "resolve_error profile what i =
     ''resolveExtensions: overlay '' @ CHR 0x27 # profile @ CHR 0x27 # what @ CHR 0x27 # i @ [CHR 0x27]"

definition pool_add :: "AgentExtension \<Rightarrow> (string \<times> AgentExtension) list \<Rightarrow> string + (string \<times> AgentExtension) list" where
  "pool_add ext pool =
     (if map_of pool (ae_id ext) \<noteq> None
      then Inl (''resolveExtensions: duplicate extension id in base+additions pool: '' @ CHR 0x27 # ae_id ext @ [CHR 0x27])
      else Inr (AList.update (ae_id ext) ext pool))"

definition apply_disable :: "string \<Rightarrow> AgentExtension list \<Rightarrow> string \<Rightarrow> AgentExtension list \<Rightarrow> string + AgentExtension list" where
  "apply_disable profile base i result =
     (if \<not> list_ex (\<lambda>e. ae_id e = i) base then Inl (resolve_error profile '' disables id not in base: '' i)
      else Inr (filter (\<lambda>e. ae_id e \<noteq> i) result))"

definition check_enable :: "string \<Rightarrow> AgentExtension list \<Rightarrow> string list \<Rightarrow> string \<Rightarrow> unit \<Rightarrow> string + unit" where
  "check_enable profile additions disableIds i u =
     (if i \<in> set disableIds then Inl (resolve_error profile '' both enables and disables '' i)
      else if \<not> list_ex (\<lambda>e. ae_id e = i) additions then Inl (resolve_error profile '' enables id not in additions: '' i)
      else Inr ())"

definition add_replacement ::
  "string \<Rightarrow> (string \<times> AgentExtension) list \<Rightarrow> AgentExtension list \<Rightarrow> string \<times> string \<Rightarrow> (string \<times> AgentExtension) list \<Rightarrow>
   string + (string \<times> AgentExtension) list" where
  "add_replacement profile pool result entry replacements =
     (case entry of (targetId, replaceId) \<Rightarrow>
        if \<not> list_ex (\<lambda>e. ae_id e = targetId) result
        then Inl (resolve_error profile '' replaces non-existent target: '' targetId)
        else case map_of pool replaceId of
          None \<Rightarrow> Inl (resolve_error profile '' replace source not in pool: '' replaceId)
        | Some ext \<Rightarrow> Inr (AList.update targetId ext replacements))"

definition check_final :: "AgentExtension \<Rightarrow> string list \<Rightarrow> string + string list" where
  "check_final ext finalIds =
     (if ae_id ext \<in> set finalIds
      then Inl (''resolveExtensions: duplicate extension id in final load list: '' @ CHR 0x27 # ae_id ext @ [CHR 0x27])
      else Inr (finalIds @ [ae_id ext]))"

definition overlay_of :: "(string \<times> ProfileOverlay) list \<Rightarrow> string option \<Rightarrow> ProfileOverlay option" where
  "overlay_of overlays profile = (if truthy_str profile then map_of overlays (the profile) else None)"

definition resolveExtensions ::
  "AgentExtension list \<Rightarrow> AgentExtension list \<Rightarrow> (string \<times> ProfileOverlay) list \<Rightarrow> string option \<Rightarrow> string + AgentExtension list" where
  "resolveExtensions base additions overlays profile =
     bind_err (fold_err pool_add (base @ additions) []) (\<lambda>pool.
       case overlay_of overlays profile of
         None \<Rightarrow> Inr base
       | Some overlay \<Rightarrow>
           (let p = the profile;
                disableIds = js_set (nullish (ov_disable overlay) []);
                enableSet = js_set (nullish (ov_enable overlay) [])
            in bind_err (fold_err (apply_disable p base) disableIds base) (\<lambda>kept.
               bind_err (fold_err (check_enable p additions disableIds) enableSet ()) (\<lambda>_.
                 let result = kept @ filter (\<lambda>e. ae_id e \<in> set enableSet) additions in
                 bind_err (fold_err (add_replacement p pool result) (nullish (ov_replace overlay) []) []) (\<lambda>replacements.
                   let final = map (\<lambda>e. nullish (map_of replacements (ae_id e)) e) result in
                   bind_err (fold_err check_final final []) (\<lambda>_. Inr final))))))"

section \<open>Runtime\<close>

definition createAgentRuntime :: "RuntimeOptions \<Rightarrow> string + Registry" where
  "createAgentRuntime opts =
     bind_err (resolveExtensions (ro_base opts) (nullish (ro_additions opts) []) (nullish (ro_overlays opts) []) (ro_profile opts))
       (\<lambda>extensions.
         let overlay = overlay_of (nullish (ro_overlays opts) []) (ro_profile opts);
             params = (case overlay of None \<Rightarrow> [] | Some ov \<Rightarrow> nullish (ov_param ov) [])
         in case initExtensions (new_registry params) extensions of
              (r, Inl e) \<Rightarrow> Inl e
            | (r, Inr _) \<Rightarrow> Inr r)"

section \<open>Extension factories\<close>

text \<open>Calls made one after the other; the first that throws ends the \<^verbatim>\<open>init\<close>.\<close>

fun call_all :: "string \<Rightarrow> ApiCall list \<Rightarrow> Init" where
  "call_all i [] = InitDone"
| "call_all i (c # cs) = InitCall i c (\<lambda>e. case e of Some m \<Rightarrow> InitThrow m | None \<Rightarrow> call_all i cs)"

primrec init_then :: "Init \<Rightarrow> Init \<Rightarrow> Init" where
  "init_then InitDone k = k"
| "init_then (InitThrow e) k = InitThrow e"
| "init_then (InitCall owner call f) k = InitCall owner call (\<lambda>e. init_then (f e) k)"

text \<open>A handler bucket is one handler or an array of handlers.\<close>

datatype HandlerBucket = OneHandler Handler | ManyHandlers "Handler list"

type_synonym HookHandlers = "HookName \<Rightarrow> HandlerBucket option"

definition bucket_list :: "HandlerBucket \<Rightarrow> Handler list" where
  "bucket_list b = (case b of OneHandler h \<Rightarrow> [h] | ManyHandlers hs \<Rightarrow> hs)"

definition wireHandlers :: "HookHandlers \<Rightarrow> ApiCall list" where
  "wireHandlers handlers =
     concat (map (\<lambda>name. case handlers name of None \<Rightarrow> [] | Some b \<Rightarrow> map (CallOn name) (bucket_list b)) HOOK_NAMES)"

datatype PromptSource = PromptText string | PromptFn PromptContributor

definition toContributor :: "PromptSource option \<Rightarrow> PromptContributor option" where
  "toContributor v = map_option (\<lambda>s. case s of PromptText t \<Rightarrow> (\<lambda>ctx. Inr (Some t)) | PromptFn f \<Rightarrow> f) v"

definition system_calls :: "PromptSource option \<Rightarrow> ApiCall list" where
  "system_calls v = (case toContributor v of None \<Rightarrow> [] | Some f \<Rightarrow> [CallContributeSystemPrompt f])"

definition user_calls :: "PromptSource option \<Rightarrow> ApiCall list" where
  "user_calls v = (case toContributor v of None \<Rightarrow> [] | Some f \<Rightarrow> [CallContributeUserPromptPrefix f])"

definition createToolExtension ::
  "string \<Rightarrow> string option \<Rightarrow> RuntimeToolContribution list \<Rightarrow> (js_record \<Rightarrow> Init) option \<Rightarrow> AgentExtension" where
  "createToolExtension i description tools onInit =
     \<lparr>ae_id = i, ae_description = description,
      ae_init = (\<lambda>params. init_then (case onInit of None \<Rightarrow> InitDone | Some f \<Rightarrow> f params) (call_all i (map CallRegisterTool tools)))\<rparr>"

definition createHookExtension :: "string \<Rightarrow> string option \<Rightarrow> HookHandlers option \<Rightarrow> AgentExtension" where
  "createHookExtension i description handlers =
     \<lparr>ae_id = i, ae_description = description,
      ae_init = (\<lambda>params. call_all i (case handlers of None \<Rightarrow> [] | Some h \<Rightarrow> wireHandlers h))\<rparr>"

definition createPromptExtension :: "string \<Rightarrow> string option \<Rightarrow> PromptSource option \<Rightarrow> PromptSource option \<Rightarrow> AgentExtension" where
  "createPromptExtension i description systemPrompt userPromptPrefix =
     \<lparr>ae_id = i, ae_description = description,
      ae_init = (\<lambda>params. call_all i (system_calls systemPrompt @ user_calls userPromptPrefix))\<rparr>"

definition createReminderExtension :: "string \<Rightarrow> string option \<Rightarrow> ReminderProvider list \<Rightarrow> AgentExtension" where
  "createReminderExtension i description providers =
     \<lparr>ae_id = i, ae_description = description, ae_init = (\<lambda>params. call_all i (map CallRegisterReminderProvider providers))\<rparr>"

record CreateExtensionOptions =
  co_id :: string
  co_description :: "string option"
  co_tools :: "RuntimeToolContribution list option"
  co_systemPrompt :: "PromptSource option"
  co_userPromptPrefix :: "PromptSource option"
  co_reminderProviders :: "ReminderProvider list option"
  co_handlers :: "HookHandlers option"
  co_onInit :: "(js_record \<Rightarrow> Init) option"

definition declared_calls :: "CreateExtensionOptions \<Rightarrow> ApiCall list" where
  "declared_calls o1 =
     map CallRegisterTool (nullish (co_tools o1) []) @ system_calls (co_systemPrompt o1) @ user_calls (co_userPromptPrefix o1) @
     map CallRegisterReminderProvider (nullish (co_reminderProviders o1) []) @
     (case co_handlers o1 of None \<Rightarrow> [] | Some h \<Rightarrow> wireHandlers h)"

definition createExtension :: "CreateExtensionOptions \<Rightarrow> AgentExtension" where
  "createExtension o1 =
     \<lparr>ae_id = co_id o1, ae_description = co_description o1,
      ae_init = (\<lambda>params. init_then (case co_onInit o1 of None \<Rightarrow> InitDone | Some f \<Rightarrow> f params) (call_all (co_id o1) (declared_calls o1)))\<rparr>"

section \<open>Resolution\<close>

lemma set_js_set [simp]: "set (js_set xs) = set xs"
  by (simp add: js_set_def)

lemma list_ex_id: "list_ex (\<lambda>e. ae_id e = i) xs \<longleftrightarrow> i \<in> set (map ae_id xs)"
  by (induction xs) auto

lemma fold_pool_add:
  "fold_err pool_add exts pool = Inr pool' \<longleftrightarrow>
     distinct (map ae_id exts) \<and> set (map ae_id exts) \<inter> set (keys pool) = {} \<and> pool' = pool @ map (\<lambda>e. (ae_id e, e)) exts"
proof (induction exts arbitrary: pool)
  case (Cons e exts)
  have upd: "AList.update (ae_id e) e pool = pool @ [(ae_id e, e)]" if "ae_id e \<notin> set (keys pool)"
    using that by (induction pool) auto
  show ?case
  proof (cases "ae_id e \<in> set (keys pool)")
    case True
    then have "map_of pool (ae_id e) \<noteq> None" by (simp add: map_of_None_iff)
    then show ?thesis using True by (auto simp: pool_add_def)
  next
    case False
    then have "pool_add e pool = Inr (pool @ [(ae_id e, e)])" using upd by (simp add: pool_add_def map_of_None_iff)
    then show ?thesis using Cons.IH [of "pool @ [(ae_id e, e)]"] False by auto
  qed
qed auto

lemma fold_apply_disable:
  "fold_err (apply_disable p base) ids xs = Inr ys \<longleftrightarrow> set ids \<subseteq> set (map ae_id base) \<and> ys = filter (\<lambda>e. ae_id e \<notin> set ids) xs"
proof (induction ids arbitrary: xs)
  case (Cons i ids)
  have "filter (\<lambda>e. ae_id e \<notin> set ids) (filter (\<lambda>e. ae_id e \<noteq> i) xs) = filter (\<lambda>e. ae_id e \<notin> set (i # ids)) xs"
    by (auto intro: filter_cong)
  then show ?case using Cons.IH [of "filter (\<lambda>e. ae_id e \<noteq> i) xs"] by (simp add: apply_disable_def list_ex_id del: filter_filter)
qed auto

lemma fold_check_enable:
  "fold_err (check_enable p additions disabled) ids u = Inr v \<longleftrightarrow>
     set ids \<inter> set disabled = {} \<and> set ids \<subseteq> set (map ae_id additions)"
proof (induction ids arbitrary: u)
  case (Cons i ids)
  then show ?case by (simp add: check_enable_def list_ex_id)
qed simp

lemma fold_add_replacement:
  "fold_err (add_replacement p pool result) entries rs = Inr rs' \<longleftrightarrow>
     (\<forall>(t, s)\<in>set entries. t \<in> set (map ae_id result) \<and> s \<in> set (keys pool)) \<and>
     rs' = fold (\<lambda>(t, s). AList.update t (the (map_of pool s))) entries rs"
proof (induction entries arbitrary: rs)
  case (Cons entry entries)
  obtain t s where e: "entry = (t, s)" by fastforce
  show ?case
  proof (cases "t \<in> set (map ae_id result) \<and> s \<in> set (keys pool)")
    case True
    then obtain x where "map_of pool s = Some x" by (metis map_of_None_iff not_Some_eq)
    then show ?thesis using True Cons.IH [of "AList.update t x rs"] by (simp add: e add_replacement_def list_ex_id)
  next
    case False
    then have "map_of pool s = None \<or> t \<notin> set (map ae_id result)" using map_of_None_iff [of pool s] by blast
    then show ?thesis using False by (auto simp: e add_replacement_def list_ex_id)
  qed
qed auto

lemma fold_check_final:
  "fold_err check_final xs ids = Inr ids' \<longleftrightarrow>
     distinct (map ae_id xs) \<and> set (map ae_id xs) \<inter> set ids = {} \<and> ids' = ids @ map ae_id xs"
proof (induction xs arbitrary: ids)
  case (Cons x xs)
  then show ?case by (cases "ae_id x \<in> set ids") (auto simp: check_final_def)
qed auto

text \<open>What an overlay makes of a load list.\<close>

definition kept_extensions :: "AgentExtension list \<Rightarrow> AgentExtension list \<Rightarrow> ProfileOverlay \<Rightarrow> AgentExtension list" where
  "kept_extensions base additions overlay =
     filter (\<lambda>e. ae_id e \<notin> set (nullish (ov_disable overlay) [])) base @
     filter (\<lambda>e. ae_id e \<in> set (nullish (ov_enable overlay) [])) additions"

definition replaced :: "AgentExtension list \<Rightarrow> (string \<times> string) list \<Rightarrow> AgentExtension \<Rightarrow> AgentExtension" where
  "replaced pool replace e =
     (case map_of replace (ae_id e) of
        None \<Rightarrow> e
      | Some i \<Rightarrow> the (map_of (map (\<lambda>x. (ae_id x, x)) pool) i))"

lemma map_of_fold_replacement:
  "distinct (keys entries) \<Longrightarrow> map_of (fold (\<lambda>(t, s). AList.update t (f s)) entries rs) i =
     (case map_of entries i of None \<Rightarrow> map_of rs i | Some s \<Rightarrow> Some (f s))"
proof (induction entries arbitrary: rs)
  case (Cons entry entries)
  obtain t s where e: "entry = (t, s)" by fastforce
  with Cons.prems have "map_of entries t = None" by (simp add: map_of_None_iff)
  then show ?case using Cons.IH [of "AList.update t (f s) rs"] Cons.prems e by (cases "i = t") (simp_all cong: option.case_cong)
qed simp

lemma resolveExtensions_Inr:
  assumes "\<forall>overlay. overlay_of overlays profile = Some overlay \<longrightarrow> distinct (keys (nullish (ov_replace overlay) []))"
  shows "resolveExtensions base additions overlays profile = Inr res \<longleftrightarrow>
    distinct (map ae_id (base @ additions)) \<and>
    (case overlay_of overlays profile of
       None \<Rightarrow> res = base
     | Some overlay \<Rightarrow>
         set (nullish (ov_disable overlay) []) \<subseteq> set (map ae_id base) \<and>
         set (nullish (ov_enable overlay) []) \<inter> set (nullish (ov_disable overlay) []) = {} \<and>
         set (nullish (ov_enable overlay) []) \<subseteq> set (map ae_id additions) \<and>
         (\<forall>(t, s)\<in>set (nullish (ov_replace overlay) []).
            t \<in> set (map ae_id (kept_extensions base additions overlay)) \<and> s \<in> set (map ae_id (base @ additions))) \<and>
         res = map (replaced (base @ additions) (nullish (ov_replace overlay) [])) (kept_extensions base additions overlay) \<and>
         distinct (map ae_id res))"
proof (cases "overlay_of overlays profile")
  case None
  then show ?thesis by (auto simp: resolveExtensions_def bind_err_Inr_iff fold_pool_add)
next
  case (Some overlay)
  let ?pool = "map (\<lambda>e. (ae_id e, e)) (base @ additions)"
  have "nullish (map_of (fold (\<lambda>(t, s). AList.update t (the (map_of ?pool s))) (nullish (ov_replace overlay) []) []) (ae_id e)) e =
      replaced (base @ additions) (nullish (ov_replace overlay) []) e" for e
    using map_of_fold_replacement [of "nullish (ov_replace overlay) []" "\<lambda>s. the (map_of ?pool s)" "[]" "ae_id e"] assms Some
    by (simp add: replaced_def nullish_def split: option.split)
  moreover have "keys ?pool = map ae_id (base @ additions)" by simp
  ultimately show ?thesis
    using Some
    unfolding resolveExtensions_def Let_def bind_err_Inr_iff fold_pool_add
    by (auto simp: Let_def bind_err_Inr_iff fold_apply_disable fold_check_enable fold_add_replacement fold_check_final kept_extensions_def image_image
        simp del: map_append)
qed

section \<open>Factories\<close>

lemma init_calls_all [simp]: "init_calls (call_all i cs) i = Inr cs"
  by (induction cs) simp_all

lemma fold_push_tools [simp]:
  "fold push_contribution (map CallRegisterTool ts) l = l\<lparr>le_tools := le_tools l @ ts\<rparr>"
  by (induction ts arbitrary: l) simp_all

lemma fold_push_providers [simp]:
  "fold push_contribution (map CallRegisterReminderProvider ps) l = l\<lparr>le_reminderProviders := le_reminderProviders l @ ps\<rparr>"
  by (induction ps arbitrary: l) simp_all

lemma fold_push_handlers [simp]:
  "fold push_contribution (map (CallOn name) hs) l =
     l\<lparr>le_hookHandlers := (le_hookHandlers l)(name := le_hookHandlers l name @ hs)\<rparr>"
  by (induction hs arbitrary: l) simp_all

lemma fold_push_prompts [simp]:
  "fold push_contribution (system_calls v) l =
     l\<lparr>le_systemPromptContributors := le_systemPromptContributors l @ (case toContributor v of None \<Rightarrow> [] | Some f \<Rightarrow> [f])\<rparr>"
  "fold push_contribution (user_calls v) l =
     l\<lparr>le_userPromptContributors := le_userPromptContributors l @ (case toContributor v of None \<Rightarrow> [] | Some f \<Rightarrow> [f])\<rparr>"
  by (simp_all add: system_calls_def user_calls_def split: option.split)

text \<open>The handlers that an option bag declares for a hook.\<close>

definition declared_handlers :: "HookHandlers option \<Rightarrow> HookName \<Rightarrow> Handler list" where
  "declared_handlers handlers name =
     (case handlers of None \<Rightarrow> [] | Some h \<Rightarrow> (case h name of None \<Rightarrow> [] | Some b \<Rightarrow> bucket_list b))"

lemma fold_wire:
  "distinct names \<Longrightarrow>
   fold push_contribution (concat (map (\<lambda>name. case h name of None \<Rightarrow> [] | Some b \<Rightarrow> map (CallOn name) (bucket_list b)) names)) l =
     l\<lparr>le_hookHandlers := (\<lambda>name. le_hookHandlers l name @ (if name \<in> set names then declared_handlers (Some h) name else []))\<rparr>"
proof (induction names arbitrary: l)
  case (Cons name names)
  have step: "fold push_contribution (case h name of None \<Rightarrow> [] | Some b \<Rightarrow> map (CallOn name) (bucket_list b)) l =
      l\<lparr>le_hookHandlers := (le_hookHandlers l)(name := le_hookHandlers l name @ declared_handlers (Some h) name)\<rparr>"
    by (simp add: declared_handlers_def split: option.split)
  have "(\<lambda>n. ((le_hookHandlers l)(name := le_hookHandlers l name @ declared_handlers (Some h) name)) n @
        (if n \<in> set names then declared_handlers (Some h) n else [])) =
      (\<lambda>n. le_hookHandlers l n @ (if n \<in> set (name # names) then declared_handlers (Some h) n else []))"
    using Cons.prems by auto
  then show ?case using Cons.IH Cons.prems by (simp add: step)
qed simp

lemma all_hooks: "distinct HOOK_NAMES" "name \<in> set HOOK_NAMES"
  by (simp add: HOOK_NAMES_def, cases name) (simp_all add: HOOK_NAMES_def)

lemma fold_push_wired:
  "fold push_contribution (case handlers of None \<Rightarrow> [] | Some h \<Rightarrow> wireHandlers h) l =
     l\<lparr>le_hookHandlers := (\<lambda>name. le_hookHandlers l name @ declared_handlers handlers name)\<rparr>"
proof (cases handlers)
  case (Some h)
  then show ?thesis using fold_wire [OF all_hooks(1), of h l] by (simp add: wireHandlers_def all_hooks(2))
qed (simp add: declared_handlers_def)

text \<open>The extension that an option bag describes.\<close>

definition declared_extension :: "CreateExtensionOptions \<Rightarrow> LoadedExtension" where
  "declared_extension o1 =
     \<lparr>le_id = co_id o1, le_description = co_description o1, le_enabledGlobal = True, le_tools = nullish (co_tools o1) [],
      le_systemPromptContributors = (case toContributor (co_systemPrompt o1) of None \<Rightarrow> [] | Some f \<Rightarrow> [f]),
      le_userPromptContributors = (case toContributor (co_userPromptPrefix o1) of None \<Rightarrow> [] | Some f \<Rightarrow> [f]),
      le_reminderProviders = nullish (co_reminderProviders o1) [], le_hookHandlers = declared_handlers (co_handlers o1)\<rparr>"

lemma load_declared:
  "fold push_contribution (declared_calls o1) (createEmptyLoaded (createExtension o1)) = declared_extension o1"
  by (simp add: declared_calls_def fold_push_wired createEmptyLoaded_def createExtension_def declared_extension_def createEmptyHookStorage_def)

lemma load_created:
  assumes "list_all (\<lambda>o1. co_onInit o1 = None) os"
  shows "load_spec params seen (map createExtension os) =
    (if distinct (map co_id os) \<and> set (map co_id os) \<inter> set seen = {} then Inr (map declared_extension os)
     else load_spec params seen (map createExtension os))"
  using assms
proof (induction os arbitrary: seen)
  case (Cons o1 os)
  have "init_calls (ae_init (createExtension o1) params) (co_id o1) = Inr (declared_calls o1)"
    using Cons.prems by (simp add: createExtension_def)
  moreover have "ae_id (createExtension o1) = co_id o1" by (simp add: createExtension_def)
  ultimately show ?case using Cons.IH [of "seen @ [co_id o1]"] Cons.prems load_declared [of o1] by auto
qed simp

lemma createAgentRuntime_Inr:
  "createAgentRuntime opts = Inr r \<longleftrightarrow>
     (\<exists>exts ls. resolveExtensions (ro_base opts) (nullish (ro_additions opts) []) (nullish (ro_overlays opts) []) (ro_profile opts) = Inr exts \<and>
        load_spec (rg_params r) [] exts = Inr ls \<and>
        rg_params r = (case overlay_of (nullish (ro_overlays opts) []) (ro_profile opts) of None \<Rightarrow> [] | Some ov \<Rightarrow> nullish (ov_param ov) []) \<and>
        r = (new_registry (rg_params r))\<lparr>rg_lifecycleState := StateReady, rg_extensions := loaded_entries ls\<rparr>)"
proof -
  have "(case initExtensions (new_registry params) exts of (r', Inl e) \<Rightarrow> Inl e | (r', Inr _) \<Rightarrow> Inr r') = Inr r \<longleftrightarrow>
      (\<exists>ls. load_spec params [] exts = Inr ls \<and> rg_params r = params \<and>
         r = (new_registry params)\<lparr>rg_lifecycleState := StateReady, rg_extensions := loaded_entries ls\<rparr>)" for params exts
    unfolding initExtensions_spec by (cases "load_spec params [] exts") (auto simp: new_registry_def)
  then show ?thesis unfolding createAgentRuntime_def bind_err_Inr_iff Let_def by auto
qed

section \<open>Properties\<close>

definition sample_options :: "string \<Rightarrow> CreateExtensionOptions" where
  "sample_options i = \<lparr>co_id = i, co_description = None, co_tools = Some [StaticTool \<lparr>rt_name = i, rt_def = JNull\<rparr>],
     co_systemPrompt = Some (PromptText ''hello''), co_userPromptPrefix = None, co_reminderProviders = None,
     co_handlers = None, co_onInit = None\<rparr>"

definition sample_extension :: "string \<Rightarrow> AgentExtension" where
  "sample_extension i = createExtension (sample_options i)"

definition sample_overlay :: ProfileOverlay where
  "sample_overlay = \<lparr>ov_enable = Some [''c''], ov_disable = Some [''a''], ov_replace = Some [(''b'', ''a'')], ov_param = None\<rparr>"

definition sample_runtime :: RuntimeOptions where
  "sample_runtime = \<lparr>ro_base = [sample_extension ''a'', sample_extension ''b''], ro_additions = Some [sample_extension ''c''],
     ro_overlays = Some [(''lean'', sample_overlay)], ro_profile = Some ''lean''\<rparr>"

lemma sample_extension_id [simp]: "ae_id (sample_extension i) = i"
  by (simp add: sample_extension_def createExtension_def sample_options_def)

text \<open>C32: an overlay resolves exactly when no id occurs twice among the base and the additions, only base ids are
  disabled, only addition ids that are not disabled are enabled, every replacement has a target in the
  list and a source among all extensions, and no id is left twice; the result is then the base without
  the disabled ones, followed by the enabled additions in their order, with replacements made in place
  and all at once.\<close>

theorem resolution_is_as_documented:
  assumes "\<forall>overlay. overlay_of overlays profile = Some overlay \<longrightarrow> distinct (keys (nullish (ov_replace overlay) []))"
  shows "resolveExtensions base additions overlays profile = Inr res \<longleftrightarrow>
    distinct (map ae_id (base @ additions)) \<and>
    (case overlay_of overlays profile of
       None \<Rightarrow> res = base
     | Some overlay \<Rightarrow>
         set (nullish (ov_disable overlay) []) \<subseteq> set (map ae_id base) \<and>
         set (nullish (ov_enable overlay) []) \<inter> set (nullish (ov_disable overlay) []) = {} \<and>
         set (nullish (ov_enable overlay) []) \<subseteq> set (map ae_id additions) \<and>
         (\<forall>(t, s)\<in>set (nullish (ov_replace overlay) []).
            t \<in> set (map ae_id (kept_extensions base additions overlay)) \<and> s \<in> set (map ae_id (base @ additions))) \<and>
         res = map (replaced (base @ additions) (nullish (ov_replace overlay) [])) (kept_extensions base additions overlay) \<and>
         distinct (map ae_id res))"
  by (rule resolveExtensions_Inr [OF assms])

theorem resolution_is_as_documented_witness:
  "resolveExtensions [sample_extension ''a'', sample_extension ''b''] [sample_extension ''c''] [(''lean'', sample_overlay)] (Some ''lean'') =
     Inr [sample_extension ''a'', sample_extension ''c'']"
  by (subst resolution_is_as_documented)
    (simp_all add: overlay_of_def truthy_str_def sample_overlay_def nullish_def kept_extensions_def replaced_def)

text \<open>extensions made by \<^verbatim>\<open>createExtension\<close> with distinct ids load into exactly what their option bags declare,
  every hook included; and the four special factories make the extension that \<^verbatim>\<open>createExtension\<close> makes of the
  same options.\<close>

theorem factories_load_what_they_declare:
  "(list_all (\<lambda>o1. co_onInit o1 = None) os \<and> distinct (map co_id os) \<longrightarrow>
      initExtensions (new_registry params) (map createExtension os) =
        ((new_registry params)\<lparr>rg_lifecycleState := StateReady, rg_extensions := loaded_entries (map declared_extension os)\<rparr>, Inr ())) \<and>
   createToolExtension i d tools onInit = createExtension \<lparr>co_id = i, co_description = d, co_tools = Some tools, co_systemPrompt = None,
     co_userPromptPrefix = None, co_reminderProviders = None, co_handlers = None, co_onInit = onInit\<rparr> \<and>
   createHookExtension i d handlers = createExtension \<lparr>co_id = i, co_description = d, co_tools = None, co_systemPrompt = None,
     co_userPromptPrefix = None, co_reminderProviders = None, co_handlers = handlers, co_onInit = None\<rparr> \<and>
   createPromptExtension i d sys usr = createExtension \<lparr>co_id = i, co_description = d, co_tools = None, co_systemPrompt = sys,
     co_userPromptPrefix = usr, co_reminderProviders = None, co_handlers = None, co_onInit = None\<rparr> \<and>
   createReminderExtension i d providers = createExtension \<lparr>co_id = i, co_description = d, co_tools = None, co_systemPrompt = None,
     co_userPromptPrefix = None, co_reminderProviders = Some providers, co_handlers = None, co_onInit = None\<rparr>"
proof -
  have "initExtensions (new_registry params) (map createExtension os) =
      ((new_registry params)\<lparr>rg_lifecycleState := StateReady, rg_extensions := loaded_entries (map declared_extension os)\<rparr>, Inr ())"
    if "list_all (\<lambda>o1. co_onInit o1 = None) os" "distinct (map co_id os)"
  proof -
    have "load_spec params [] (map createExtension os) = Inr (map declared_extension os)"
      using load_created [OF that(1), of params "[]"] that(2) by simp
    then show ?thesis unfolding initExtensions_spec by simp
  qed
  then show ?thesis
    by (simp add: createToolExtension_def createHookExtension_def createPromptExtension_def createReminderExtension_def createExtension_def
        declared_calls_def nullish_def system_calls_def user_calls_def toContributor_def)
qed

theorem factories_load_what_they_declare_witness:
  "initExtensions (new_registry []) [sample_extension ''a'', sample_extension ''b''] =
     ((new_registry [])\<lparr>rg_lifecycleState := StateReady,
        rg_extensions := loaded_entries [declared_extension (sample_options ''a''), declared_extension (sample_options ''b'')]\<rparr>, Inr ())"
  using factories_load_what_they_declare [of "[sample_options ''a'', sample_options ''b'']" "[]"]
  by (simp add: sample_extension_def sample_options_def)

text \<open>a runtime that was created is ready, holds the resolved extensions in the resolved order, and every turn it
  assembles reports them in that order.\<close>

theorem runtime_follows_the_load_list:
  assumes "createAgentRuntime opts = Inr r"
  shows "\<exists>exts. resolveExtensions (ro_base opts) (nullish (ro_additions opts) []) (nullish (ro_overlays opts) []) (ro_profile opts) = Inr exts \<and>
    registry_inv r \<and> rg_lifecycleState r = StateReady \<and> keys (rg_extensions r) = map ae_id exts \<and>
    (\<forall>ctx seed res. assembleTurn r ctx seed = Inr res \<longrightarrow> ad_loadedExtensions (ar_diagnostic res) = map ae_id exts)"
proof -
  obtain exts ls where h: "resolveExtensions (ro_base opts) (nullish (ro_additions opts) []) (nullish (ro_overlays opts) []) (ro_profile opts) = Inr exts"
    "load_spec (rg_params r) [] exts = Inr ls"
    "r = (new_registry (rg_params r))\<lparr>rg_lifecycleState := StateReady, rg_extensions := loaded_entries ls\<rparr>"
    using assms unfolding createAgentRuntime_Inr by blast
  have "fst (initExtensions (new_registry (rg_params r)) exts) = r" unfolding initExtensions_spec h(2) sum.case using h(3) by simp
  then have inv: "registry_inv r" using registry_inv_init [OF registry_inv_new, of "rg_params r" exts] by simp
  have ids: "map le_id ls = map ae_id exts" using load_spec_ids [OF h(2)] by blast
  have ext: "rg_extensions r = loaded_entries ls" "rg_lifecycleState r = StateReady"
    using arg_cong [OF h(3), of rg_extensions] arg_cong [OF h(3), of rg_lifecycleState] by simp_all
  have "ad_loadedExtensions (ar_diagnostic res) = map ae_id exts" if "assembleTurn r ctx seed = Inr res" for ctx seed res
    using that by (rule assembleTurn_cases)
      (simp add: finish_assembly_def Let_def snapshotExtensions_def ext loaded_entries_def comp_def ids [symmetric])
  then show ?thesis using h(1) inv ext ids by auto
qed

theorem runtime_follows_the_load_list_witness:
  "\<exists>r. createAgentRuntime sample_runtime = Inr r \<and> keys (rg_extensions r) = [''a'', ''c'']"
proof -
  have res: "resolveExtensions (ro_base sample_runtime) (nullish (ro_additions sample_runtime) []) (nullish (ro_overlays sample_runtime) [])
      (ro_profile sample_runtime) = Inr [sample_extension ''a'', sample_extension ''c'']"
    by (subst resolveExtensions_Inr)
      (simp_all add: sample_runtime_def overlay_of_def truthy_str_def sample_overlay_def nullish_def kept_extensions_def replaced_def)
  have "load_spec [] [] [sample_extension ''a'', sample_extension ''c''] =
      Inr [declared_extension (sample_options ''a''), declared_extension (sample_options ''c'')]"
    using load_created [of "[sample_options ''a'', sample_options ''c'']" "[]" "[]"] by (simp add: sample_extension_def sample_options_def)
  then have "\<exists>r. createAgentRuntime sample_runtime = Inr r"
    unfolding createAgentRuntime_def res
    by (simp add: initExtensions_spec sample_runtime_def overlay_of_def truthy_str_def sample_overlay_def nullish_def)
  then obtain r where r: "createAgentRuntime sample_runtime = Inr r" ..
  from runtime_follows_the_load_list [OF r] r res show ?thesis by auto
qed

end
