(* ===== verification/Shell_Words.thy ===== *)
theory Shell_Words
  imports Bari_Prelude
begin

text \<open>
  The words of a shell command as the permission gate sees them: the tokeniser
  (\<^verbatim>\<open>permission/src/tools/shell-tokenize.ts\<close>) and the scanner for scripts made of plain commands
  (\<^verbatim>\<open>permission/src/tools/bash-ast.ts\<close>).

  The source scans strings by index with the same four tests at the head of every loop: an escaped
  character, a backslash, a single quote, a double quote.  Here the tests are \<open>quote_class\<close> and their
  effect on the state is \<open>quote_next\<close>; each loop is a recursion over the rest of the input, with the
  character before it or its index where the code looks at them.
\<close>

section \<open>Characters\<close>

abbreviation squote :: char where "squote \<equiv> CHR 0x27"
abbreviation dquote :: char where "dquote \<equiv> CHR 0x22"
abbreviation bslash :: char where "bslash \<equiv> CHR 0x5C"
abbreviation lf :: char where "lf \<equiv> CHR 0x0A"
abbreviation cr :: char where "cr \<equiv> CHR 0x0D"
abbreviation backtick :: char where "backtick \<equiv> CHR 0x60"

definition head_is :: "char \<Rightarrow> string \<Rightarrow> bool" where
  "head_is c s = (case s of [] \<Rightarrow> False | d # _ \<Rightarrow> d = c)"

definition isShellWhitespace :: "char \<Rightarrow> bool" where
  "isShellWhitespace ch = (let code = (of_char ch :: nat) in code = 32 \<or> 9 \<le> code \<and> code \<le> 13)"

definition letter_char :: "char \<Rightarrow> bool" where
  "letter_char c = (let n = (of_char c :: nat) in 65 \<le> n \<and> n \<le> 90 \<or> 97 \<le> n \<and> n \<le> 122)"

definition ident_start :: "char \<Rightarrow> bool" where
  "ident_start c = (letter_char c \<or> c = CHR ''_'')"

definition ident_char :: "char \<Rightarrow> bool" where
  "ident_char c = (ident_start c \<or> is_digit c)"

text \<open>\<^verbatim>\<open>/^[A-Za-z_][A-Za-z0-9_]*=/.test(word)\<close>.\<close>

definition isAssignmentPrefix :: "string \<Rightarrow> bool" where
  "isAssignmentPrefix word =
     (case word of [] \<Rightarrow> False | c # rest \<Rightarrow> ident_start c \<and> head_is (CHR ''='') (dropWhile ident_char rest))"

section \<open>Quoting\<close>

record QuoteState =
  inSingle :: bool
  inDouble :: bool
  escaped :: bool

datatype QuoteClass = QEscaped | QBackslash | QSingle | QDouble | QOther

definition unquoted :: QuoteState where
  "unquoted = \<lparr>inSingle = False, inDouble = False, escaped = False\<rparr>"

definition quote_class :: "QuoteState \<Rightarrow> char \<Rightarrow> QuoteClass" where
  "quote_class q ch =
     (if escaped q then QEscaped
      else if ch = bslash \<and> \<not> inSingle q then QBackslash
      else if ch = squote \<and> \<not> inDouble q then QSingle
      else if ch = dquote \<and> \<not> inSingle q then QDouble
      else QOther)"

definition quote_next :: "QuoteState \<Rightarrow> char \<Rightarrow> QuoteState" where
  "quote_next q ch =
     (case quote_class q ch of
        QEscaped \<Rightarrow> q\<lparr>escaped := False\<rparr>
      | QBackslash \<Rightarrow> q\<lparr>escaped := True\<rparr>
      | QSingle \<Rightarrow> q\<lparr>inSingle := \<not> inSingle q\<rparr>
      | QDouble \<Rightarrow> q\<lparr>inDouble := \<not> inDouble q\<rparr>
      | QOther \<Rightarrow> q)"

section \<open>The tokeniser\<close>

record ShellToken =
  st_value :: string
  st_start :: nat
  st_end :: nat
  st_quoted :: bool

record Tokenizer =
  tk_tokens :: "ShellToken list"
  tk_current :: string
  tk_start :: "nat option"
  tk_quoted :: bool
  tk_quote :: QuoteState

definition startCurrent :: "nat \<Rightarrow> Tokenizer \<Rightarrow> Tokenizer" where
  "startCurrent i t = t\<lparr>tk_start := Some (nullish (tk_start t) i)\<rparr>"

definition flushCurrent :: "nat \<Rightarrow> Tokenizer \<Rightarrow> Tokenizer" where
  "flushCurrent e t =
     t\<lparr>tk_tokens := (if length (tk_current t) > 0
          then tk_tokens t @ [\<lparr>st_value = tk_current t, st_start = nullish (tk_start t) e, st_end = e, st_quoted = tk_quoted t\<rparr>]
          else tk_tokens t),
       tk_current := [], tk_start := None, tk_quoted := False\<rparr>"

function tokenize_loop :: "nat \<Rightarrow> string \<Rightarrow> Tokenizer \<Rightarrow> Tokenizer" where
  "tokenize_loop i [] t = flushCurrent i t"
| "tokenize_loop i (ch # rest) t =
     (case quote_class (tk_quote t) ch of
        QEscaped \<Rightarrow>
          tokenize_loop (i + 1) rest
            ((startCurrent (i - 1) t)\<lparr>tk_current := tk_current t @ [ch], tk_quoted := True, tk_quote := quote_next (tk_quote t) ch\<rparr>)
      | QBackslash \<Rightarrow>
          if head_is lf rest then tokenize_loop (i + 2) (drop 1 rest) t
          else if head_is cr rest \<and> head_is lf (drop 1 rest) then tokenize_loop (i + 3) (drop 2 rest) t
          else tokenize_loop (i + 1) rest ((startCurrent i t)\<lparr>tk_quoted := True, tk_quote := quote_next (tk_quote t) ch\<rparr>)
      | QSingle \<Rightarrow> tokenize_loop (i + 1) rest ((startCurrent i t)\<lparr>tk_quoted := True, tk_quote := quote_next (tk_quote t) ch\<rparr>)
      | QDouble \<Rightarrow> tokenize_loop (i + 1) rest ((startCurrent i t)\<lparr>tk_quoted := True, tk_quote := quote_next (tk_quote t) ch\<rparr>)
      | QOther \<Rightarrow>
          if isShellWhitespace ch \<and> \<not> inSingle (tk_quote t) \<and> \<not> inDouble (tk_quote t)
          then tokenize_loop (i + 1) rest (flushCurrent i t)
          else tokenize_loop (i + 1) rest ((startCurrent i t)\<lparr>tk_current := tk_current t @ [ch]\<rparr>))"
  by pat_completeness auto
termination by (relation "measure (\<lambda>(i, s, t). length s)") auto

definition new_tokenizer :: Tokenizer where
  "new_tokenizer = \<lparr>tk_tokens = [], tk_current = [], tk_start = None, tk_quoted = False, tk_quote = unquoted\<rparr>"

definition shellTokenizeWithMetadata :: "string \<Rightarrow> ShellToken list" where
  "shellTokenizeWithMetadata input = tk_tokens (tokenize_loop 0 input new_tokenizer)"

definition shellTokenize :: "string \<Rightarrow> string list" where
  "shellTokenize input = map st_value (shellTokenizeWithMetadata input)"

section \<open>Scripts of plain commands\<close>

fun forbidden_loop :: "char option \<Rightarrow> QuoteState \<Rightarrow> string \<Rightarrow> bool" where
  "forbidden_loop prev q [] = (inSingle q \<or> inDouble q \<or> escaped q)"
| "forbidden_loop prev q (ch # rest) =
     (if quote_class q ch \<noteq> QOther \<or> inSingle q then forbidden_loop (Some ch) (quote_next q ch) rest
      else if ch = CHR ''$'' \<or> ch = backtick then True
      else if inDouble q then forbidden_loop (Some ch) q rest
      else if ch = CHR ''>'' \<or> ch = CHR ''<'' then True
      else if ch = CHR ''('' \<or> ch = CHR '')'' \<or> ch = CHR ''{'' \<or> ch = CHR ''}'' then True
      else if ch = CHR ''&'' \<and> \<not> head_is (CHR ''&'') rest \<and> prev \<noteq> Some (CHR ''&'') then True
      else forbidden_loop (Some ch) q rest)"

definition containsForbiddenConstruct :: "string \<Rightarrow> bool" where
  "containsForbiddenConstruct script = forbidden_loop None unquoted script"

definition blank :: "string \<Rightarrow> bool" where
  "blank s = (length (js_trim s) = 0)"

text \<open>\<open>None\<close>: an empty command position.\<close>

function segments_loop :: "QuoteState \<Rightarrow> string list \<Rightarrow> string \<Rightarrow> string \<Rightarrow> string list option" where
  "segments_loop q segments current [] =
     (if blank current then (if length segments > 0 then None else Some []) else Some (segments @ [current]))"
| "segments_loop q segments current (ch # rest) =
     (if quote_class q ch \<noteq> QOther \<or> inSingle q \<or> inDouble q
      then segments_loop (quote_next q ch) segments (current @ [ch]) rest
      else if ch = CHR ''&'' \<and> head_is (CHR ''&'') rest \<or> ch = CHR ''|'' \<and> head_is (CHR ''|'') rest
      then (if blank current then None else segments_loop q (segments @ [current]) [] (drop 1 rest))
      else if ch = CHR ''|'' \<or> ch = CHR '';''
      then (if blank current then None else segments_loop q (segments @ [current]) [] rest)
      else segments_loop q segments (current @ [ch]) rest)"
  by pat_completeness auto
termination by (relation "measure (\<lambda>(q, segs, cur, s). length s)") auto

definition splitTopLevelSegments :: "string \<Rightarrow> string list option" where
  "splitTopLevelSegments script = segments_loop unquoted [] [] script"

text \<open>\<open>hasToken\<close> is \<open>None\<close>/\<open>Some\<close> of the current word: empty quotes still make a word.\<close>

fun words_loop :: "QuoteState \<Rightarrow> string list \<Rightarrow> string option \<Rightarrow> string \<Rightarrow> string list option" where
  "words_loop q words current [] =
     (if inSingle q \<or> inDouble q \<or> escaped q then None
      else Some (words @ (case current of None \<Rightarrow> [] | Some w \<Rightarrow> [w])))"
| "words_loop q words current (ch # rest) =
     (case quote_class q ch of
        QEscaped \<Rightarrow> words_loop (quote_next q ch) words (Some (nullish current [] @ [ch])) rest
      | QBackslash \<Rightarrow> words_loop (quote_next q ch) words (Some (nullish current [])) rest
      | QSingle \<Rightarrow> words_loop (quote_next q ch) words (Some (nullish current [])) rest
      | QDouble \<Rightarrow> words_loop (quote_next q ch) words (Some (nullish current [])) rest
      | QOther \<Rightarrow>
          if \<not> inSingle q \<and> \<not> inDouble q \<and> isShellWhitespace ch
          then words_loop q (words @ (case current of None \<Rightarrow> [] | Some w \<Rightarrow> [w])) None rest
          else words_loop q words (Some (nullish current [] @ [ch])) rest)"

definition parsePlainCommandWords :: "string \<Rightarrow> string list option" where
  "parsePlainCommandWords command = words_loop unquoted [] None command"

text \<open>The loop of \<^verbatim>\<open>parseScriptPlainCommands\<close> over the segments.\<close>

fun plain_commands :: "string list \<Rightarrow> string list list option" where
  "plain_commands [] = Some []"
| "plain_commands (segment # segments) =
     (let trimmed = js_trim segment in
      if length trimmed = 0 then None
      else case parsePlainCommandWords trimmed of
        None \<Rightarrow> None
      | Some words \<Rightarrow>
          if length words = 0 \<or> isAssignmentPrefix (hd words) then None
          else map_option (Cons words) (plain_commands segments))"

definition parseScriptPlainCommands :: "string \<Rightarrow> string list list option" where
  "parseScriptPlainCommands script =
     (if containsForbiddenConstruct script then None
      else case splitTopLevelSegments script of
        None \<Rightarrow> None
      | Some segments \<Rightarrow> if length segments = 0 then None else plain_commands segments)"

definition replace_char :: "char \<Rightarrow> char \<Rightarrow> string \<Rightarrow> string" where
  "replace_char c d s = map (\<lambda>x. if x = c then d else x) s"

definition after_last :: "char \<Rightarrow> string \<Rightarrow> string" where
  "after_last c s = rev (takeWhile (\<lambda>x. x \<noteq> c) (rev s))"

definition basename :: "string \<Rightarrow> string" where
  "basename p = after_last (CHR ''/'') (replace_char bslash (CHR ''/'') p)"

definition KNOWN_SHELLS :: "string list" where
  "KNOWN_SHELLS = [''bash'', ''zsh'', ''sh'']"

definition extractBashCommand :: "string list \<Rightarrow> (string \<times> string) option" where
  "extractBashCommand command =
     (case command of
        [shell, flag, script] \<Rightarrow>
          if flag \<noteq> ''-lc'' \<and> flag \<noteq> ''-c'' then None
          else if basename shell \<notin> set KNOWN_SHELLS then None
          else Some (shell, script)
      | _ \<Rightarrow> None)"

definition parseShellLcPlainCommands :: "string list \<Rightarrow> string list list option" where
  "parseShellLcPlainCommands command =
     (case extractBashCommand command of None \<Rightarrow> None | Some (shell, script) \<Rightarrow> parseScriptPlainCommands script)"

section \<open>Heredocs with one command\<close>

definition hasHeredoc :: "string \<Rightarrow> bool" where
  "hasHeredoc script = js_includes script ''<<''"

text \<open>The text after a heredoc operator and its optional \<^verbatim>\<open>-\<close> or \<^verbatim>\<open>~\<close>.\<close>

definition heredoc_operator :: "string \<Rightarrow> string option" where
  "heredoc_operator s =
     (if js_starts_with s ''<<''
      then (let t = drop 2 s in Some (if head_is (CHR ''-'') t \<or> head_is (CHR ''~'') t then drop 1 t else t))
      else None)"

text \<open>A match of the operator with its delimiter, quoted or not, at the start of the text: the delimiter and the rest.  The
  expression has no other way to match: a quote must be closed right after the identifier.\<close>

definition heredoc_at :: "string \<Rightarrow> (string \<times> string) option" where
  "heredoc_at s =
     (case heredoc_operator s of
        None \<Rightarrow> None
      | Some t \<Rightarrow>
          (let u = dropWhile js_space t;
               quoted = (head_is squote u \<or> head_is dquote u);
               v = (if quoted then drop 1 u else u);
               name = takeWhile ident_char v;
               rest = dropWhile ident_char v
           in if name = [] \<or> \<not> ident_start (hd name) then None
              else if quoted then (if head_is (hd u) rest then Some (name, drop 1 rest) else None)
              else Some (name, rest)))"

fun first_heredoc :: "string \<Rightarrow> (string \<times> string) option" where
  "first_heredoc [] = None"
| "first_heredoc (c # s) = (case heredoc_at (c # s) of Some m \<Rightarrow> Some m | None \<Rightarrow> first_heredoc s)"

fun split_lines :: "string \<Rightarrow> string list" where
  "split_lines [] = [[]]"
| "split_lines (c # s) =
     (if c = lf then [] # split_lines s
      else case split_lines s of [] \<Rightarrow> [[c]] | l # ls \<Rightarrow> (c # l) # ls)"

definition stripHeredocBodies :: "string \<Rightarrow> string" where
  "stripHeredocBodies script =
     (case first_heredoc script of
        None \<Rightarrow> script
      | Some (delimiter, _) \<Rightarrow>
          if lf \<notin> set script then script
          else
            (let header = takeWhile (\<lambda>c. c \<noteq> lf) script;
                 body_lines = split_lines (drop 1 (dropWhile (\<lambda>c. c \<noteq> lf) script));
                 after = drop 1 (dropWhile (\<lambda>line. js_trim line \<noteq> delimiter) body_lines);
                 tail = js_join [lf] after
             in if list_all (\<lambda>line. js_trim line \<noteq> delimiter) body_lines then header
                else if length tail > 0 then header @ [lf] @ tail else header))"

text \<open>\<^verbatim>\<open>replace(/<<[-~]?/g, '')\<close> and the same for the operator with its delimiter.\<close>

function remove_operators :: "string \<Rightarrow> string" where
  "remove_operators [] = []"
| "remove_operators (c # s) =
     (case heredoc_operator (c # s) of Some t \<Rightarrow> remove_operators t | None \<Rightarrow> c # remove_operators s)"
  by pat_completeness auto
termination
  by (relation "measure length") (auto simp: heredoc_operator_def js_starts_with_def Let_def split: if_splits)

lemma heredoc_at_shorter: "heredoc_at s = Some (name, rest) \<Longrightarrow> length rest < length s"
proof -
  assume h: "heredoc_at s = Some (name, rest)"
  then obtain t where t: "heredoc_operator s = Some t" by (auto simp: heredoc_at_def split: option.splits)
  then have "length t < length s"
    by (auto simp: heredoc_operator_def js_starts_with_def Let_def prefix_def split: if_splits)
  moreover have "length (drop 1 (dropWhile ident_char (drop k (dropWhile js_space t)))) \<le> length t"
    "length (dropWhile ident_char (drop k (dropWhile js_space t))) \<le> length t" for k
    using length_dropWhile_le [of ident_char "drop k (dropWhile js_space t)"] length_dropWhile_le [of js_space t] by auto
  then have "length rest \<le> length t"
    using h t by (auto simp: heredoc_at_def Let_def split: if_splits)
      (metis drop0 length_dropWhile_le le_trans)+
  ultimately show ?thesis by simp
qed

function remove_heredocs :: "string \<Rightarrow> string" where
  "remove_heredocs [] = []"
| "remove_heredocs (c # s) =
     (case heredoc_at (c # s) of Some (name, rest) \<Rightarrow> remove_heredocs rest | None \<Rightarrow> c # remove_heredocs s)"
  by pat_completeness auto
termination by (relation "measure length") (use heredoc_at_shorter in fastforce)+

fun redirect_loop :: "QuoteState \<Rightarrow> string \<Rightarrow> bool" where
  "redirect_loop q [] = False"
| "redirect_loop q (ch # rest) =
     (if quote_class q ch \<noteq> QOther \<or> inSingle q \<or> inDouble q then redirect_loop (quote_next q ch) rest
      else if ch = CHR ''>'' \<or> ch = CHR ''<'' then True
      else redirect_loop q rest)"

definition hasFileRedirect :: "string \<Rightarrow> bool" where
  "hasFileRedirect script = redirect_loop unquoted (remove_operators (stripHeredocBodies script))"

fun expansion_loop :: "QuoteState \<Rightarrow> string \<Rightarrow> bool" where
  "expansion_loop q [] = False"
| "expansion_loop q (ch # rest) =
     (if quote_class q ch \<noteq> QOther \<or> inSingle q then expansion_loop (quote_next q ch) rest
      else if ch = CHR ''$'' \<or> ch = backtick then True
      else expansion_loop q rest)"

definition containsExpansionOrSubstitution :: "string \<Rightarrow> bool" where
  "containsExpansionOrSubstitution txt = expansion_loop unquoted txt"

fun newlines_to_semicolons :: "string \<Rightarrow> string" where
  "newlines_to_semicolons [] = []"
| "newlines_to_semicolons (c # s) =
     (if c = lf then CHR '';'' # newlines_to_semicolons s
      else if c = cr \<and> head_is lf s then newlines_to_semicolons s
      else c # newlines_to_semicolons s)"

definition countTopLevelCommands :: "string \<Rightarrow> int" where
  "countTopLevelCommands script =
     (case splitTopLevelSegments (newlines_to_semicolons script) of
        None \<Rightarrow> - 1
      | Some segments \<Rightarrow> int (length (filter (\<lambda>s. \<not> blank s) segments)))"

definition before_heredoc :: "string \<Rightarrow> string" where
  "before_heredoc script = (case split_at_prefix ''<<'' [] script of Some (a, b) \<Rightarrow> a | None \<Rightarrow> script)"

definition parseShellLcSingleCommandPrefix :: "string list \<Rightarrow> string list option" where
  "parseShellLcSingleCommandPrefix command =
     (case extractBashCommand command of
        None \<Rightarrow> None
      | Some (shell, script) \<Rightarrow>
          if \<not> hasHeredoc script then None
          else if hasFileRedirect script then None
          else
            (let withoutBodies = stripHeredocBodies script in
             if containsExpansionOrSubstitution withoutBodies then None
             else if countTopLevelCommands (remove_heredocs withoutBodies) \<noteq> 1 then None
             else
               (let header = js_trim (before_heredoc script) in
                if length header = 0 then None
                else if map_option length (splitTopLevelSegments header) \<noteq> Some 1 then None
                else case parsePlainCommandWords header of
                  None \<Rightarrow> None
                | Some words \<Rightarrow> if length words = 0 \<or> isAssignmentPrefix (hd words) then None else Some words)))"

section \<open>Quoting words\<close>

text \<open>The standard quotation of a word: single quotes around it, each single quote inside closed, escaped and reopened.\<close>

definition quote_chars :: "string \<Rightarrow> string" where
  "quote_chars w = concat (map (\<lambda>c. if c = squote then [squote, bslash, squote, squote] else [c]) w)"

definition shell_quote :: "string \<Rightarrow> string" where
  "shell_quote w = squote # quote_chars w @ [squote]"

definition command_text :: "string list \<Rightarrow> string" where
  "command_text ws = js_join '' '' (map shell_quote ws)"

abbreviation quoted_state :: QuoteState where
  "quoted_state \<equiv> \<lparr>inSingle = True, inDouble = False, escaped = False\<rparr>"

abbreviation escaped_state :: QuoteState where
  "escaped_state \<equiv> \<lparr>inSingle = False, inDouble = False, escaped = True\<rparr>"

lemma quote_chars_simps [simp]:
  "quote_chars [] = []"
  "quote_chars (c # w) = (if c = squote then [squote, bslash, squote, squote] else [c]) @ quote_chars w"
  by (simp_all add: quote_chars_def)

lemma quote_steps [simp]:
  "quote_class unquoted squote = QSingle" "quote_next unquoted squote = quoted_state"
  "quote_class unquoted bslash = QBackslash" "quote_next unquoted bslash = escaped_state"
  "quote_class unquoted (CHR '' '') = QOther" "quote_next unquoted (CHR '' '') = unquoted"
  "quote_class quoted_state squote = QSingle" "quote_next quoted_state squote = unquoted"
  "c \<noteq> squote \<Longrightarrow> quote_class quoted_state c = QOther" "c \<noteq> squote \<Longrightarrow> quote_next quoted_state c = quoted_state"
  "quote_class escaped_state c = QEscaped" "quote_next escaped_state c = unquoted"
  by (simp_all add: quote_class_def quote_next_def unquoted_def)

lemma unquoted_sel [simp]: "inSingle unquoted = False" "inDouble unquoted = False" "escaped unquoted = False"
  by (simp_all add: unquoted_def)

lemma space_is_whitespace [simp]: "isShellWhitespace (CHR '' '')"
  by (simp add: isShellWhitespace_def)

subsection \<open>Plain words\<close>

lemma words_quote_chars:
  "words_loop quoted_state ws (Some cur) (quote_chars w @ squote # rest) = words_loop unquoted ws (Some (cur @ w)) rest"
  by (induction w arbitrary: cur) (simp_all add: nullish_def)

lemma words_shell_quote:
  "words_loop unquoted ws cur (shell_quote w @ rest) = words_loop unquoted ws (Some (nullish cur [] @ w)) rest"
  by (simp add: shell_quote_def words_quote_chars)

lemma words_command_text:
  "words \<noteq> [] \<Longrightarrow> words_loop unquoted ws None (command_text words) = Some (ws @ words)"
proof (induction words arbitrary: ws)
  case (Cons w words)
  show ?case
  proof (cases "words = []")
    case True
    then show ?thesis using words_shell_quote [of ws None w "[]"] by (simp add: command_text_def js_join_def nullish_def)
  next
    case False
    then have "command_text (w # words) = shell_quote w @ CHR '' '' # command_text words"
      by (simp add: command_text_def js_join_Cons)
    then show ?thesis using Cons.IH [OF False, of "ws @ [w]"] by (simp add: words_shell_quote nullish_def)
  qed
qed simp

lemma parse_command_text: "words \<noteq> [] \<Longrightarrow> parsePlainCommandWords (command_text words) = Some words"
  by (simp add: parsePlainCommandWords_def words_command_text)

subsection \<open>Tokens\<close>

lemma tokenize_quote_chars:
  "tk_quote t = quoted_state \<Longrightarrow> tk_start t \<noteq> None \<Longrightarrow> tk_quoted t \<Longrightarrow>
   tokenize_loop i (quote_chars w @ squote # rest) t =
     tokenize_loop (i + length (quote_chars w) + 1) rest (t\<lparr>tk_current := tk_current t @ w, tk_quote := unquoted\<rparr>)"
proof (induction w arbitrary: i t)
  case Nil
  then show ?case by (cases t) (auto simp: startCurrent_def nullish_def)
next
  case (Cons c w)
  let ?t = "t\<lparr>tk_current := tk_current t @ [c]\<rparr>"
  have IH: "tokenize_loop j (quote_chars w @ squote # rest) ?t =
      tokenize_loop (j + length (quote_chars w) + 1) rest (?t\<lparr>tk_current := tk_current ?t @ w, tk_quote := unquoted\<rparr>)" for j
    using Cons.prems by (intro Cons.IH) simp_all
  obtain k where k: "tk_start t = Some k" using Cons.prems(2) by blast
  have same: "t\<lparr>tk_current := x, tk_start := Some k, tk_quoted := True, tk_quote := quoted_state\<rparr> = t\<lparr>tk_current := x\<rparr>"
    "t\<lparr>tk_start := Some k, tk_current := x\<rparr> = t\<lparr>tk_current := x\<rparr>" for x
    using Cons.prems k by (cases t, simp)+
  show ?case using Cons.prems IH k
    by (cases "c = squote") (simp_all add: same startCurrent_def nullish_def head_is_def add.commute)
qed

lemma tokenize_shell_quote:
  assumes "tk_quote t = unquoted"
  shows "tokenize_loop i (shell_quote w @ rest) t =
    tokenize_loop (i + length (shell_quote w)) rest
      (t\<lparr>tk_current := tk_current t @ w, tk_start := Some (nullish (tk_start t) i), tk_quoted := True\<rparr>)"
proof -
  let ?t = "(startCurrent i t)\<lparr>tk_quoted := True, tk_quote := quoted_state\<rparr>"
  have "tokenize_loop i (shell_quote w @ rest) t = tokenize_loop (i + 1) (quote_chars w @ squote # rest) ?t"
    using assms by (simp add: shell_quote_def)
  also have "\<dots> = tokenize_loop (i + 1 + length (quote_chars w) + 1) rest (?t\<lparr>tk_current := tk_current ?t @ w, tk_quote := unquoted\<rparr>)"
    by (rule tokenize_quote_chars) (simp_all add: startCurrent_def)
  also have "?t\<lparr>tk_current := tk_current ?t @ w, tk_quote := unquoted\<rparr> =
      t\<lparr>tk_current := tk_current t @ w, tk_start := Some (nullish (tk_start t) i), tk_quoted := True\<rparr>"
    using assms by (cases t) (simp add: startCurrent_def)
  finally show ?thesis by (simp add: shell_quote_def)
qed

abbreviation nonempty_words :: "string list \<Rightarrow> string list" where
  "nonempty_words \<equiv> filter (\<lambda>w. w \<noteq> [])"

lemma tokenize_command_text:
  "words \<noteq> [] \<Longrightarrow> tk_quote t = unquoted \<Longrightarrow> tk_current t = [] \<Longrightarrow>
   map st_value (tk_tokens (tokenize_loop i (command_text words) t)) = map st_value (tk_tokens t) @ nonempty_words words"
proof (induction words arbitrary: i t)
  case (Cons w words)
  show ?case
  proof (cases "words = []")
    case True
    then show ?thesis
      using tokenize_shell_quote [OF Cons.prems(2), of i w "[]"] Cons.prems(3)
      by (auto simp: command_text_def js_join_def flushCurrent_def)
  next
    case False
    let ?j = "i + length (shell_quote w)"
    let ?t = "flushCurrent ?j (t\<lparr>tk_current := tk_current t @ w, tk_start := Some (nullish (tk_start t) i), tk_quoted := True\<rparr>)"
    have "command_text (w # words) = shell_quote w @ CHR '' '' # command_text words"
      using False by (simp add: command_text_def js_join_Cons)
    then have "tokenize_loop i (command_text (w # words)) t = tokenize_loop (?j + 1) (command_text words) ?t"
      using tokenize_shell_quote [OF Cons.prems(2), of i w "CHR '' '' # command_text words"] Cons.prems(2) by simp
    moreover have "map st_value (tk_tokens (tokenize_loop (?j + 1) (command_text words) ?t)) =
        map st_value (tk_tokens ?t) @ nonempty_words words"
      using Cons.prems False by (intro Cons.IH) (simp_all add: flushCurrent_def)
    ultimately show ?thesis using Cons.prems by (auto simp: flushCurrent_def)
  qed
qed simp

lemma shellTokenize_command_text: "words \<noteq> [] \<Longrightarrow> shellTokenize (command_text words) = nonempty_words words"
  using tokenize_command_text [of words new_tokenizer 0]
  by (simp add: shellTokenize_def shellTokenizeWithMetadata_def new_tokenizer_def)

subsection \<open>The two word readers agree\<close>

definition has_continuation :: "string \<Rightarrow> bool" where
  "has_continuation s = (js_includes s [bslash, lf] \<or> js_includes s [bslash, cr, lf])"

lemma has_continuation_Cons:
  "\<not> has_continuation (c # s) \<Longrightarrow> \<not> has_continuation s"
  "\<not> has_continuation (bslash # s) \<Longrightarrow> \<not> head_is lf s \<and> \<not> (head_is cr s \<and> head_is lf (drop 1 s))"
  by (auto simp: has_continuation_def head_is_def prefix_def split: list.splits)

lemma quote_class_bslash: "quote_class q c = QBackslash \<Longrightarrow> c = bslash"
  by (simp add: quote_class_def split: if_splits)

lemma flush_values:
  "map st_value (tk_tokens (flushCurrent e t)) =
     map st_value (tk_tokens t) @ (if tk_current t = [] then [] else [tk_current t])"
  by (simp add: flushCurrent_def)

lemma flush_sel [simp]:
  "tk_current (flushCurrent e t) = []" "tk_start (flushCurrent e t) = None"
  "tk_quoted (flushCurrent e t) = False" "tk_quote (flushCurrent e t) = tk_quote t"
  by (simp_all add: flushCurrent_def)

lemma start_sel [simp]:
  "tk_tokens (startCurrent i t) = tk_tokens t" "tk_current (startCurrent i t) = tk_current t"
  "tk_quoted (startCurrent i t) = tk_quoted t" "tk_quote (startCurrent i t) = tk_quote t"
  "tk_start (startCurrent i t) = Some (nullish (tk_start t) i)"
  by (simp_all add: startCurrent_def)

lemma tokenize_follows_words:
  "words_loop q ws cur s = Some r \<Longrightarrow> \<not> has_continuation s \<Longrightarrow> tk_quote t = q \<Longrightarrow>
   map st_value (tk_tokens t) = nonempty_words ws \<Longrightarrow> tk_current t = nullish cur [] \<Longrightarrow>
   map st_value (tk_tokens (tokenize_loop i s t)) = nonempty_words r"
proof (induction s arbitrary: q ws cur t i)
  case Nil
  then show ?case by (auto simp: flush_values nullish_def split: if_splits option.splits)
next
  case (Cons ch rest)
  note IH = Cons.IH [OF _ has_continuation_Cons(1) [OF Cons.prems(2)]]
  show ?case
  proof (cases "quote_class q ch")
    case QEscaped
    then show ?thesis using Cons.prems
      by (simp, intro IH [of "quote_next q ch" ws "Some (nullish cur [] @ [ch])"]) (simp_all add: nullish_def)
  next
    case QBackslash
    then have "\<not> head_is lf rest" "\<not> (head_is cr rest \<and> head_is lf (drop 1 rest))"
      using Cons.prems(2) has_continuation_Cons(2) by (auto dest: quote_class_bslash)
    then have "tokenize_loop i (ch # rest) t =
        tokenize_loop (i + 1) rest ((startCurrent i t)\<lparr>tk_quoted := True, tk_quote := quote_next (tk_quote t) ch\<rparr>)"
      using QBackslash Cons.prems(3) by auto
    then show ?thesis using Cons.prems QBackslash
      by (simp, intro IH [of "quote_next q ch" ws "Some (nullish cur [])"]) (simp_all add: nullish_def)
  next
    case QSingle
    then show ?thesis using Cons.prems
      by (simp, intro IH [of "quote_next q ch" ws "Some (nullish cur [])"]) (simp_all add: nullish_def)
  next
    case QDouble
    then show ?thesis using Cons.prems
      by (simp, intro IH [of "quote_next q ch" ws "Some (nullish cur [])"]) (simp_all add: nullish_def)
  next
    case QOther
    show ?thesis
    proof (cases "\<not> inSingle q \<and> \<not> inDouble q \<and> isShellWhitespace ch")
      case True
      then show ?thesis using Cons.prems QOther
        by (simp, intro IH [of q "ws @ (case cur of None \<Rightarrow> [] | Some w \<Rightarrow> [w])" None])
          (simp_all add: flush_values nullish_def split: option.splits)
    next
      case False
      then show ?thesis using Cons.prems QOther
        by (auto intro!: IH [of q ws "Some (nullish cur [] @ [ch])"] simp: nullish_def)
    qed
  qed
qed

text \<open>
  On a command without line continuations the two word readers of the gate agree: whatever the script scanner accepts, the
  tokeniser reads as the same words, except that it drops the empty ones (\<^verbatim>\<open>''\<close>).
\<close>
theorem word_readers_agree:
  assumes "parsePlainCommandWords command = Some words" "\<not> has_continuation command"
  shows "shellTokenize command = nonempty_words words"
  using assms tokenize_follows_words [of unquoted "[]" None command words new_tokenizer 0]
  by (simp add: parsePlainCommandWords_def shellTokenize_def shellTokenizeWithMetadata_def new_tokenizer_def nullish_def)

text \<open>The hypotheses hold on a command with quotes, an escape and an empty argument, which the tokeniser drops.\<close>
theorem word_readers_agree_witness:
  "shellTokenize (''grep -e '' @ [squote] @ ''a b'' @ [squote, CHR '' '', dquote, dquote] @ '' x'' @ [bslash] @ '' y'') =
     [''grep'', ''-e'', ''a b'', ''x y'']"
proof -
  let ?c = "''grep -e '' @ [squote] @ ''a b'' @ [squote, CHR '' '', dquote, dquote] @ '' x'' @ [bslash] @ '' y''"
  have "parsePlainCommandWords ?c = Some [''grep'', ''-e'', ''a b'', [], ''x y'']"
    by code_simp
  moreover have "\<not> has_continuation ?c" by (simp add: has_continuation_def)
  ultimately have "shellTokenize ?c = nonempty_words [''grep'', ''-e'', ''a b'', [], ''x y'']"
    by (rule word_readers_agree)
  then show ?thesis by simp
qed

subsection \<open>Positions of tokens\<close>

fun tokens_between :: "nat \<Rightarrow> nat \<Rightarrow> ShellToken list \<Rightarrow> bool" where
  "tokens_between lo hi [] = (lo \<le> hi)"
| "tokens_between lo hi (t # ts) =
     (lo \<le> st_start t \<and> st_value t \<noteq> [] \<and> st_start t + length (st_value t) \<le> st_end t \<and> tokens_between (st_end t) hi ts)"

lemma tokens_between_snoc:
  "tokens_between lo hi (ts @ [t]) \<longleftrightarrow>
     tokens_between lo (st_start t) ts \<and> st_value t \<noteq> [] \<and> st_start t + length (st_value t) \<le> st_end t \<and> st_end t \<le> hi"
  by (induction ts arbitrary: lo) auto

lemma tokens_between_mono: "tokens_between lo hi ts \<Longrightarrow> hi \<le> hi' \<Longrightarrow> tokens_between lo hi' ts"
  by (induction ts arbitrary: lo) auto

definition tokenizer_ok :: "nat \<Rightarrow> Tokenizer \<Rightarrow> bool" where
  "tokenizer_ok i t =
     (tokens_between 0 (nullish (tk_start t) i) (tk_tokens t) \<and>
      (tk_start t = None \<longrightarrow> tk_current t = [] \<and> \<not> escaped (tk_quote t)) \<and>
      nullish (tk_start t) i + length (tk_current t) + (if escaped (tk_quote t) then 1 else 0) \<le> i)"

lemma tokenizer_ok_flush: "tokenizer_ok i t \<Longrightarrow> \<not> escaped (tk_quote t) \<Longrightarrow> i \<le> j \<Longrightarrow> tokenizer_ok j (flushCurrent i t)"
  by (auto simp: tokenizer_ok_def flushCurrent_def nullish_def tokens_between_snoc split: option.splits intro: tokens_between_mono)

lemma tokenizer_ok_skip: "tokenizer_ok i t \<Longrightarrow> i \<le> j \<Longrightarrow> tokenizer_ok j t"
  by (auto simp: tokenizer_ok_def nullish_def split: option.splits intro: tokens_between_mono)

lemma tokenizer_ok_add:
  "tokenizer_ok i t \<Longrightarrow> \<not> escaped (tk_quote t) \<Longrightarrow> tokenizer_ok (i + 1) ((startCurrent i t)\<lparr>tk_current := tk_current t @ [ch]\<rparr>)"
  by (auto simp: tokenizer_ok_def nullish_def split: option.splits)

lemma tokenizer_ok_quote:
  "tokenizer_ok i t \<Longrightarrow> \<not> escaped (tk_quote t) \<Longrightarrow>
   tokenizer_ok (i + 1) ((startCurrent i t)\<lparr>tk_quoted := True, tk_quote := q\<rparr>)"
  by (auto simp: tokenizer_ok_def nullish_def split: option.splits)

lemma tokenizer_ok_escaped:
  "tokenizer_ok i t \<Longrightarrow> escaped (tk_quote t) \<Longrightarrow> \<not> escaped q \<Longrightarrow>
   tokenizer_ok (i + 1) ((startCurrent (i - 1) t)\<lparr>tk_current := tk_current t @ [ch], tk_quoted := True, tk_quote := q\<rparr>)"
  by (auto simp: tokenizer_ok_def nullish_def split: option.splits)

lemma quote_class_escaped: "quote_class q ch = QEscaped \<longleftrightarrow> escaped q"
  by (simp add: quote_class_def)

lemma quote_class_unescaped: "quote_class q ch = k \<Longrightarrow> k \<noteq> QEscaped \<Longrightarrow> \<not> escaped q"
  using quote_class_escaped by blast

lemma quote_next_escaped: "escaped q \<Longrightarrow> \<not> escaped (quote_next q ch)"
  by (simp add: quote_next_def quote_class_def)

text \<open>The final flush of an input that ends in a backslash still has its token started.\<close>

lemma tokenize_positions:
  "tokenizer_ok i t \<Longrightarrow> tokens_between 0 (i + length s) (tk_tokens (tokenize_loop i s t))"
proof (induction i s t rule: tokenize_loop.induct)
  case (1 i t)
  then show ?case
    by (auto simp: tokenizer_ok_def flushCurrent_def nullish_def tokens_between_snoc split: option.splits intro: tokens_between_mono)
next
  case (2 i ch rest t)
  note ok = 2(9)
  show ?case
  proof (cases "quote_class (tk_quote t) ch")
    case QEscaped
    then have e: "escaped (tk_quote t)" by (simp add: quote_class_escaped)
    show ?thesis using 2(1) [OF QEscaped tokenizer_ok_escaped [OF ok e quote_next_escaped [OF e]]] QEscaped by simp
  next
    case QBackslash
    then have e: "\<not> escaped (tk_quote t)" by (rule quote_class_unescaped) simp
    consider "head_is lf rest" | "\<not> head_is lf rest" "head_is cr rest \<and> head_is lf (drop 1 rest)"
      | "\<not> head_is lf rest" "\<not> (head_is cr rest \<and> head_is lf (drop 1 rest))" by blast
    then show ?thesis
    proof cases
      case 1
      then show ?thesis using 2(2) [OF QBackslash 1 tokenizer_ok_skip [OF ok]] QBackslash
        by (cases rest) (simp_all add: head_is_def)
    next
      case c: 2
      then show ?thesis using 2(3) [OF QBackslash c tokenizer_ok_skip [OF ok]] QBackslash
        by (cases rest; cases "tl rest") (simp_all add: head_is_def eval_nat_numeral)
    next
      case 3
      then show ?thesis using 2(4) [OF QBackslash 3 tokenizer_ok_quote [OF ok e]] QBackslash by auto
    qed
  next
    case QSingle
    then have e: "\<not> escaped (tk_quote t)" by (rule quote_class_unescaped) simp
    show ?thesis using 2(5) [OF QSingle tokenizer_ok_quote [OF ok e]] QSingle by simp
  next
    case QDouble
    then have e: "\<not> escaped (tk_quote t)" by (rule quote_class_unescaped) simp
    show ?thesis using 2(6) [OF QDouble tokenizer_ok_quote [OF ok e]] QDouble by simp
  next
    case QOther
    then have e: "\<not> escaped (tk_quote t)" by (rule quote_class_unescaped) simp
    show ?thesis
      using 2(7) [OF QOther _ tokenizer_ok_flush [OF ok e]] 2(8) [OF QOther _ tokenizer_ok_add [OF ok e]] QOther by auto
  qed
qed

text \<open>
  The positions the tokeniser reports are those of disjoint, ordered stretches of the input: every token starts at or after
  the end of the one before it, is not empty, is no longer than its stretch, and ends within the input.
\<close>
theorem token_positions_are_ordered:
  "tokens_between 0 (length input) (shellTokenizeWithMetadata input)"
  using tokenize_positions [of 0 new_tokenizer input]
  by (simp add: shellTokenizeWithMetadata_def tokenizer_ok_def new_tokenizer_def nullish_def)

section \<open>Scripts of quoted commands\<close>

definition operators :: "string list" where
  "operators = [''&&'', ''||'', '';'', ''|'']"

fun script_text :: "string list \<Rightarrow> (string \<times> string list) list \<Rightarrow> string" where
  "script_text ws [] = command_text ws"
| "script_text ws ((op, ws') # others) = command_text ws @ '' '' @ op @ '' '' @ script_text ws' others"

definition plain_command :: "string list \<Rightarrow> bool" where
  "plain_command ws = (ws \<noteq> [] \<and> \<not> isAssignmentPrefix (hd ws))"

subsection \<open>Scanning over a quoted command\<close>

lemma forbidden_quote_chars:
  "forbidden_loop prev quoted_state (quote_chars w @ squote # rest) = forbidden_loop (Some squote) unquoted rest"
  by (induction w arbitrary: prev) simp_all

lemma forbidden_shell_quote:
  "forbidden_loop prev unquoted (shell_quote w @ rest) = forbidden_loop (Some squote) unquoted rest"
  by (simp add: shell_quote_def forbidden_quote_chars)

lemma segments_quote_chars:
  "segments_loop quoted_state segs cur (quote_chars w @ squote # rest) =
     segments_loop unquoted segs (cur @ quote_chars w @ [squote]) rest"
  by (induction w arbitrary: cur) simp_all

lemma segments_shell_quote:
  "segments_loop unquoted segs cur (shell_quote w @ rest) = segments_loop unquoted segs (cur @ shell_quote w) rest"
  by (simp add: shell_quote_def segments_quote_chars)

lemma command_text_Cons:
  "command_text [w] = shell_quote w"
  "ws \<noteq> [] \<Longrightarrow> command_text (w # ws) = shell_quote w @ CHR '' '' # command_text ws"
  by (simp_all add: command_text_def js_join_Cons) (simp add: js_join_def)

text \<open>A scan that passes over a quoted word, and over a blank after it, passes over a quoted command.\<close>

lemma command_text_induct [consumes 1, case_names single more]:
  assumes "ws \<noteq> []" "\<And>w. P [w]" "\<And>w ws. ws \<noteq> [] \<Longrightarrow> P ws \<Longrightarrow> P (w # ws)"
  shows "P ws"
  using assms(1)
proof (induction ws)
  case (Cons w ws)
  then show ?case using assms(2,3) by (cases "ws = []") auto
qed simp

lemma forbidden_blank: "forbidden_loop prev unquoted (CHR '' '' # rest) = forbidden_loop (Some (CHR '' '')) unquoted rest"
  by simp

lemma forbidden_command_text:
  "ws \<noteq> [] \<Longrightarrow> forbidden_loop prev unquoted (command_text ws @ rest) = forbidden_loop (Some squote) unquoted rest"
proof (induction ws arbitrary: prev rule: command_text_induct)
  case (more w ws)
  then show ?case by (simp add: command_text_Cons forbidden_shell_quote del: forbidden_loop.simps) (simp add: forbidden_blank del: forbidden_loop.simps)
qed (simp add: command_text_Cons forbidden_shell_quote)

lemma segments_blank: "segments_loop unquoted segs cur (CHR '' '' # rest) = segments_loop unquoted segs (cur @ '' '') rest"
  by simp

lemma segments_command_text:
  "ws \<noteq> [] \<Longrightarrow> segments_loop unquoted segs cur (command_text ws @ rest) = segments_loop unquoted segs (cur @ command_text ws) rest"
proof (induction ws arbitrary: cur rule: command_text_induct)
  case (more w ws)
  then show ?case by (simp add: command_text_Cons segments_shell_quote segments_blank del: segments_loop.simps)
qed (simp add: command_text_Cons segments_shell_quote)

subsection \<open>The script scanner on quoted commands\<close>

lemma command_text_ends:
  "ws \<noteq> [] \<Longrightarrow> \<exists>mid. command_text ws = squote # mid @ [squote]"
proof (induction ws rule: command_text_induct)
  case (more w ws)
  then show ?case by (auto simp: command_text_Cons shell_quote_def)
qed (simp add: command_text_Cons shell_quote_def)

lemma js_space_squote [simp]: "\<not> js_space squote" "js_space (CHR '' '')"
  by (simp_all add: js_space_def)

lemma trim_command_text:
  assumes "ws \<noteq> []" "a \<in> {[], '' ''}" "b \<in> {[], '' ''}"
  shows "js_trim (a @ command_text ws @ b) = command_text ws"
  using command_text_ends [OF assms(1)] assms(2,3) by (auto simp: js_trim_def)

lemma not_blank_command_text:
  assumes "ws \<noteq> []" "a \<in> {[], '' ''}" "b \<in> {[], '' ''}"
  shows "\<not> blank (a @ command_text ws @ b)"
  using trim_command_text [OF assms] command_text_ends [OF assms(1)] by (auto simp: blank_def)

fun segments_of :: "string \<Rightarrow> string list \<Rightarrow> (string \<times> string list) list \<Rightarrow> string list" where
  "segments_of a ws [] = [a @ command_text ws]"
| "segments_of a ws ((op, ws') # others) = (a @ command_text ws @ '' '') # segments_of '' '' ws' others"

lemma blank_iff: "blank s \<longleftrightarrow> (\<forall>c \<in> set s. js_space c)"
proof -
  have "blank s \<longleftrightarrow> (\<forall>c \<in> set (dropWhile js_space s). js_space c)"
    by (simp add: blank_def js_trim_def)
  also have "\<dots> \<longleftrightarrow> dropWhile js_space s = []" by (metis empty_iff empty_set hd_dropWhile hd_in_set)
  finally show ?thesis by simp
qed

lemma segments_operator:
  "op \<in> set operators \<Longrightarrow> \<not> blank cur \<Longrightarrow>
   segments_loop unquoted segs cur ('' '' @ op @ '' '' @ rest) = segments_loop unquoted (segs @ [cur @ '' '']) '' '' rest"
  by (auto simp: operators_def quote_class_def head_is_def blank_iff)

lemma forbidden_operator:
  "op \<in> set operators \<Longrightarrow> forbidden_loop prev unquoted ('' '' @ op @ '' '' @ rest) = forbidden_loop (Some (CHR '' '')) unquoted rest"
  by (auto simp: operators_def quote_class_def quote_next_def head_is_def)

lemma forbidden_script_text:
  "ws \<noteq> [] \<Longrightarrow> \<forall>(op, c) \<in> set others. op \<in> set operators \<and> c \<noteq> [] \<Longrightarrow>
   \<not> forbidden_loop prev unquoted (script_text ws others)"
proof (induction ws others arbitrary: prev rule: script_text.induct)
  case (1 ws)
  then show ?case using forbidden_command_text [of ws prev "[]"] by simp
next
  case (2 ws op ws' others)
  then show ?case
    using forbidden_command_text [of ws prev] forbidden_operator [of op "Some squote"]
    by (simp del: forbidden_loop.simps append_Cons)
qed

lemma segments_script_text:
  "ws \<noteq> [] \<Longrightarrow> a \<in> {[], '' ''} \<Longrightarrow> \<forall>(op, c) \<in> set others. op \<in> set operators \<and> c \<noteq> [] \<Longrightarrow>
   segments_loop unquoted segs a (script_text ws others) = Some (segs @ segments_of a ws others)"
proof (induction ws others arbitrary: segs a rule: script_text.induct)
  case (1 ws)
  then have "segments_loop unquoted segs a (command_text ws) = segments_loop unquoted segs (a @ command_text ws) []"
    using segments_command_text [of ws segs a "[]"] by (simp del: segments_loop.simps)
  moreover have "\<not> blank (a @ command_text ws)" using 1 not_blank_command_text [of ws a "[]"] by simp
  ultimately show ?case by simp
next
  case (2 ws op ws' others)
  have "segments_loop unquoted segs a (script_text ws ((op, ws') # others)) =
      segments_loop unquoted segs (a @ command_text ws) ('' '' @ op @ '' '' @ script_text ws' others)"
    using 2 segments_command_text [of ws segs a] by (simp del: segments_loop.simps append_Cons)
  also have "\<dots> = segments_loop unquoted (segs @ [(a @ command_text ws) @ '' '']) '' '' (script_text ws' others)"
    using 2 not_blank_command_text [of ws a "[]"] by (intro segments_operator) simp_all
  finally show ?case using 2 by (simp del: segments_loop.simps)
qed

lemma plain_commands_segments_of:
  "plain_command ws \<Longrightarrow> a \<in> {[], '' ''} \<Longrightarrow> \<forall>(op, c) \<in> set others. plain_command c \<Longrightarrow>
   plain_commands (segments_of a ws others) = Some (ws # map snd others)"
proof (induction a ws others rule: segments_of.induct)
  case (1 a ws)
  then have "js_trim (a @ command_text ws) = command_text ws" "command_text ws \<noteq> []"
    using trim_command_text [of ws a "[]"] command_text_ends [of ws] by (auto simp: plain_command_def)
  then show ?case using 1 by (simp add: parse_command_text plain_command_def)
next
  case (2 a ws op ws' others)
  then have "js_trim (a @ command_text ws @ '' '') = command_text ws" "command_text ws \<noteq> []"
    using trim_command_text [of ws a "'' ''"] command_text_ends [of ws] by (auto simp: plain_command_def)
  then show ?case using 2 by (simp add: parse_command_text plain_command_def)
qed

lemma parse_script_text:
  assumes "plain_command ws" "\<forall>(op, c) \<in> set others. op \<in> set operators \<and> plain_command c"
  shows "parseScriptPlainCommands (script_text ws others) = Some (ws # map snd others)"
proof -
  have ne: "ws \<noteq> []" "\<forall>(op, c) \<in> set others. op \<in> set operators \<and> c \<noteq> []"
    using assms by (auto simp: plain_command_def)
  have "splitTopLevelSegments (script_text ws others) = Some (segments_of [] ws others)"
    using segments_script_text [OF ne(1) _ ne(2), of "[]" "[]"] by (simp add: splitTopLevelSegments_def)
  moreover have "segments_of [] ws others \<noteq> []" by (cases others) auto
  moreover have "\<not> containsForbiddenConstruct (script_text ws others)"
    using forbidden_script_text [OF ne] by (simp add: containsForbiddenConstruct_def)
  moreover have "plain_commands (segments_of [] ws others) = Some (ws # map snd others)"
    using assms by (intro plain_commands_segments_of) auto
  ultimately show ?thesis by (simp add: parseScriptPlainCommands_def)
qed

text \<open>
  Round trip of the script scanner: a script of any number of quoted commands, whatever characters their words hold, joined
  by the operators \<^verbatim>\<open>&&\<close>, \<^verbatim>\<open>||\<close>, \<^verbatim>\<open>;\<close> and \<^verbatim>\<open>|\<close>, is read back as exactly those commands in their order.
\<close>
theorem quoted_scripts_are_read_back:
  assumes "plain_command ws" "\<forall>(op, c) \<in> set others. op \<in> set operators \<and> plain_command c"
  shows "parseScriptPlainCommands (script_text ws others) = Some (ws # map snd others)"
  using assms by (rule parse_script_text)

text \<open>A pipeline and a conditional with words full of shell syntax.\<close>
theorem quoted_scripts_are_read_back_witness:
  "parseScriptPlainCommands (script_text [''echo'', ''$(rm -rf x); y > z''] [(''|'', [''cat'', ''-'']), (''&&'', [''ls''])]) =
     Some [[''echo'', ''$(rm -rf x); y > z''], [''cat'', ''-''], [''ls'']]"
  using quoted_scripts_are_read_back [of "[''echo'', ''$(rm -rf x); y > z'']" "[(''|'', [''cat'', ''-'']), (''&&'', [''ls''])]"]
  by (simp add: plain_command_def operators_def isAssignmentPrefix_def ident_start_def ident_char_def letter_char_def is_digit_def head_is_def)

section \<open>What an accepted script is free of\<close>

text \<open>The characters of a script that a shell interprets: neither escaped nor inside single quotes, nor themselves
  quotation; with each, whether it stands inside double quotes.\<close>

fun active :: "QuoteState \<Rightarrow> string \<Rightarrow> (bool \<times> char) list" where
  "active q [] = []"
| "active q (c # s) =
     (if quote_class q c \<noteq> QOther \<or> inSingle q then active (quote_next q c) s else (inDouble q, c) # active q s)"

definition inert :: "bool \<times> char \<Rightarrow> bool" where
  "inert = (\<lambda>(dq, c). c \<notin> {CHR ''$'', backtick} \<and> (dq \<or> c \<notin> {CHR ''<'', CHR ''>'', CHR ''('', CHR '')'', CHR ''{'', CHR ''}''}))"

fun quote_end :: "QuoteState \<Rightarrow> string \<Rightarrow> QuoteState" where
  "quote_end q [] = q"
| "quote_end q (c # s) = quote_end (quote_next q c) s"

lemma quote_next_other [simp]: "quote_class q c = QOther \<Longrightarrow> quote_next q c = q"
  by (simp add: quote_next_def)

lemma not_forbidden:
  "\<not> forbidden_loop prev q s \<Longrightarrow> list_all inert (active q s) \<and> quote_end q s = unquoted"
proof (induction s arbitrary: prev q)
  case Nil
  then show ?case by (cases q) (simp add: unquoted_def)
next
  case (Cons c s)
  show ?case
  proof (cases "quote_class q c \<noteq> QOther \<or> inSingle q")
    case True
    then show ?thesis using Cons.IH [of "Some c" "quote_next q c"] Cons.prems by (simp only: active.simps forbidden_loop.simps quote_end.simps if_True not_False_eq_True)
  next
    case False
    then have "inert (inDouble q, c)" "\<not> forbidden_loop (Some c) q s"
      using Cons.prems by (auto simp: inert_def split: if_splits)
    then show ?thesis using Cons.IH [of "Some c" q] False by simp
  qed
qed

lemma plain_commands_plain: "plain_commands segs = Some cmds \<Longrightarrow> length cmds = length segs \<and> list_all plain_command cmds"
  by (induction segs arbitrary: cmds) (auto simp: Let_def plain_command_def split: if_splits option.splits)

lemma parse_script_inert:
  assumes "parseScriptPlainCommands script = Some commands"
  shows "commands \<noteq> [] \<and> list_all plain_command commands \<and> quote_end unquoted script = unquoted \<and>
         list_all inert (active unquoted script)"
proof -
  obtain segs where segs: "segs \<noteq> []" "plain_commands segs = Some commands"
    and ok: "\<not> forbidden_loop None unquoted script"
    using assms by (auto simp: parseScriptPlainCommands_def containsForbiddenConstruct_def split: if_splits option.splits)
  then show ?thesis using plain_commands_plain [OF segs(2)] not_forbidden [OF ok] by auto
qed

text \<open>
  A script that the scanner accepts is made of plain commands only: at least one, none of them empty and none starting with
  an assignment; its quotes are balanced; and outside single quotes and escapes it holds no expansion character, and outside
  double quotes no redirection, subshell or group.
\<close>
theorem accepted_scripts_are_inert:
  assumes "parseScriptPlainCommands script = Some commands"
  shows "commands \<noteq> [] \<and> list_all plain_command commands \<and> quote_end unquoted script = unquoted \<and>
         list_all inert (active unquoted script)"
  using assms by (rule parse_script_inert)

text \<open>A script with an expansion character inside single quotes.\<close>
theorem accepted_scripts_are_inert_witness:
  "list_all inert (active unquoted (''echo '' @ [squote] @ ''$x'' @ [squote] @ '' | wc''))"
proof -
  have "parseScriptPlainCommands (''echo '' @ [squote] @ ''$x'' @ [squote] @ '' | wc'') = Some [[''echo'', ''$x''], [''wc'']]"
    by code_simp
  from accepted_scripts_are_inert [OF this] show ?thesis by blast
qed

text \<open>
  A newline separates commands in a shell, but for the scanner it is white space between words: a script of two commands on
  two lines is read as one command whose arguments include the second line's words.
\<close>
theorem newline_does_not_separate_commands:
  "parseScriptPlainCommands (''ls'' @ [lf] @ ''rm -rf x'') = Some [[''ls'', ''rm'', ''-rf'', ''x'']]"
  by code_simp

end
