(* ===== verification/Shell_Safe.thy ===== *)
theory Shell_Safe
  imports Shell_Words
begin

text \<open>
  The whitelist of read-only commands (\<^verbatim>\<open>permission/src/tools/safe-command.ts\<close>): what a tokenised command, a script for
  a shell and a PowerShell command line must look like to be run without asking.
\<close>

section \<open>Single commands\<close>

definition executableNameLookupKey :: "string \<Rightarrow> string option" where
  "executableNameLookupKey raw = (let name = after_last (CHR ''/'') (replace_char bslash (CHR ''/'') raw) in
     if length name > 0 then Some name else None)"

definition ALWAYS_SAFE_COMMANDS :: "string list" where
  "ALWAYS_SAFE_COMMANDS =
     [''cat'', ''cd'', ''cut'', ''echo'', ''expr'', ''false'', ''grep'', ''head'', ''id'', ''ls'', ''nl'', ''paste'', ''pwd'',
      ''rev'', ''seq'', ''stat'', ''tail'', ''tr'', ''true'', ''uname'', ''uniq'', ''wc'', ''which'', ''whoami'']"

definition isSafeBase64 :: "string list \<Rightarrow> bool" where
  "isSafeBase64 command =
     (\<not> list_ex (\<lambda>arg. arg \<in> set [''-o'', ''--output''] \<or> js_starts_with arg ''--output='' \<or>
          js_starts_with arg ''-o'' \<and> arg \<noteq> ''-o'') (drop 1 command))"

definition UNSAFE_FIND_OPTIONS :: "string list" where
  "UNSAFE_FIND_OPTIONS =
     [''-exec'', ''-execdir'', ''-ok'', ''-okdir'', ''-delete'', ''-fls'', ''-fprint'', ''-fprint0'', ''-fprintf'']"

definition isSafeFind :: "string list \<Rightarrow> bool" where
  "isSafeFind command = (\<not> list_ex (\<lambda>arg. arg \<in> set UNSAFE_FIND_OPTIONS) command)"

definition isSafeRipgrep :: "string list \<Rightarrow> bool" where
  "isSafeRipgrep command =
     (\<not> list_ex (\<lambda>arg. arg \<in> set [''--search-zip'', ''-z''] \<or>
          list_ex (\<lambda>opt. arg = opt \<or> js_starts_with arg (opt @ ''='')) [''--pre'', ''--hostname-bin'']) command)"

definition all_digits :: "string \<Rightarrow> bool" where
  "all_digits s = (length s > 0 \<and> list_all is_digit s)"

definition isValidSedNArg :: "string option \<Rightarrow> bool" where
  "isValidSedNArg arg =
     (case arg of
        None \<Rightarrow> False
      | Some a \<Rightarrow>
          if \<not> js_ends_with a ''p'' then False
          else (case js_split '','' (butlast a) of
              [x] \<Rightarrow> all_digits x
            | [x, y] \<Rightarrow> all_digits x \<and> all_digits y
            | _ \<Rightarrow> False))"

definition isSafeSed :: "string list \<Rightarrow> bool" where
  "isSafeSed command = (length command \<le> 4 \<and> nth_opt command 1 = Some ''-n'' \<and> isValidSedNArg (nth_opt command 2))"

section \<open>git\<close>

definition GIT_READ_ONLY_SUBCOMMANDS :: "string list" where
  "GIT_READ_ONLY_SUBCOMMANDS = [''status'', ''log'', ''diff'', ''show'', ''branch'']"

datatype GitOptionPattern = Exact string | ShortInline string | Prefix string

definition UNSAFE_GIT_GLOBAL_OPTIONS :: "GitOptionPattern list" where
  "UNSAFE_GIT_GLOBAL_OPTIONS =
     [Exact ''-C'', ShortInline ''-C'', Exact ''-c'', ShortInline ''-c'', Exact ''-p'',
      Exact ''--config-env'', Prefix ''--config-env='', Exact ''--exec-path'', Prefix ''--exec-path='',
      Exact ''--git-dir'', Prefix ''--git-dir='', Exact ''--namespace'', Prefix ''--namespace='', Exact ''--paginate'',
      Exact ''--super-prefix'', Prefix ''--super-prefix='', Exact ''--work-tree'', Prefix ''--work-tree='']"

definition UNSAFE_GIT_SUBCOMMAND_OPTIONS :: "GitOptionPattern list" where
  "UNSAFE_GIT_SUBCOMMAND_OPTIONS =
     [Exact ''--output'', Prefix ''--output='', Exact ''--ext-diff'', Exact ''--textconv'', Exact ''--exec'', Prefix ''--exec='']"

fun gitOptionMatches :: "string \<Rightarrow> GitOptionPattern \<Rightarrow> bool" where
  "gitOptionMatches arg (Exact option) = (arg = option)"
| "gitOptionMatches arg (ShortInline option) = (js_starts_with arg option \<and> length arg > length option)"
| "gitOptionMatches arg (Prefix p) = js_starts_with arg p"

definition gitMatchesAny :: "string \<Rightarrow> GitOptionPattern list \<Rightarrow> bool" where
  "gitMatchesAny arg patterns = list_ex (gitOptionMatches arg) patterns"

definition isGitGlobalOptionWithValue :: "string \<Rightarrow> bool" where
  "isGitGlobalOptionWithValue arg =
     (arg \<in> set [''-C'', ''-c'', ''--config-env'', ''--exec-path'', ''--git-dir'', ''--namespace'', ''--super-prefix'', ''--work-tree''])"

definition isGitGlobalOptionWithInlineValue :: "string \<Rightarrow> bool" where
  "isGitGlobalOptionWithInlineValue arg =
     (js_starts_with arg ''--config-env='' \<or> js_starts_with arg ''--exec-path='' \<or> js_starts_with arg ''--git-dir='' \<or>
      js_starts_with arg ''--namespace='' \<or> js_starts_with arg ''--super-prefix='' \<or> js_starts_with arg ''--work-tree='' \<or>
      (js_starts_with arg ''-C'' \<or> js_starts_with arg ''-c'') \<and> length arg > 2)"

text \<open>The loop of \<^verbatim>\<open>findGitSubcommand\<close> from an index on.\<close>

fun git_subcommand_loop :: "string list \<Rightarrow> nat \<Rightarrow> bool \<Rightarrow> string list \<Rightarrow> (nat \<times> string) option" where
  "git_subcommand_loop subcommands idx skipNext [] = None"
| "git_subcommand_loop subcommands idx skipNext (arg # args) =
     (if skipNext then git_subcommand_loop subcommands (idx + 1) False args
      else if isGitGlobalOptionWithInlineValue arg then git_subcommand_loop subcommands (idx + 1) False args
      else if isGitGlobalOptionWithValue arg then git_subcommand_loop subcommands (idx + 1) True args
      else if arg = ''--'' \<or> js_starts_with arg ''-'' then git_subcommand_loop subcommands (idx + 1) False args
      else if arg \<in> set subcommands then Some (idx, arg)
      else None)"

definition findGitSubcommand :: "string list \<Rightarrow> string list \<Rightarrow> (nat \<times> string) option" where
  "findGitSubcommand command subcommands =
     (case command of
        [] \<Rightarrow> None
      | cmd0 # args \<Rightarrow>
          if executableNameLookupKey cmd0 \<noteq> Some ''git'' then None
          else git_subcommand_loop subcommands 1 False args)"

definition gitSubcommandArgsAreReadOnly :: "string list \<Rightarrow> bool" where
  "gitSubcommandArgsAreReadOnly args = (\<not> list_ex (\<lambda>arg. gitMatchesAny arg UNSAFE_GIT_SUBCOMMAND_OPTIONS) args)"

definition BRANCH_FLAGS :: "string list" where
  "BRANCH_FLAGS =
     [''--list'', ''-l'', ''--show-current'', ''-a'', ''--all'', ''-r'', ''--remotes'', ''-v'', ''-vv'', ''--verbose'']"

fun branch_loop :: "bool \<Rightarrow> string list \<Rightarrow> bool" where
  "branch_loop sawReadOnlyFlag [] = sawReadOnlyFlag"
| "branch_loop sawReadOnlyFlag (arg # args) =
     (if arg \<in> set BRANCH_FLAGS then branch_loop True args
      else if js_starts_with arg ''--format='' then branch_loop True args
      else False)"

definition gitBranchIsReadOnly :: "string list \<Rightarrow> bool" where
  "gitBranchIsReadOnly branchArgs = (if length branchArgs = 0 then True else branch_loop False branchArgs)"

definition isSafeGitCommand :: "string list \<Rightarrow> bool" where
  "isSafeGitCommand command =
     (case findGitSubcommand command GIT_READ_ONLY_SUBCOMMANDS of
        None \<Rightarrow> False
      | Some (index, subcommand) \<Rightarrow>
          (let globalArgs = drop 1 (take index command);
               subArgs = drop (index + 1) command
           in if list_ex (\<lambda>arg. gitMatchesAny arg UNSAFE_GIT_GLOBAL_OPTIONS) globalArgs then False
              else if subcommand \<in> set [''status'', ''log'', ''diff'', ''show''] then gitSubcommandArgsAreReadOnly subArgs
              else if subcommand = ''branch'' then gitSubcommandArgsAreReadOnly subArgs \<and> gitBranchIsReadOnly subArgs
              else False))"

section \<open>Entry points\<close>

definition isSafeToCallWithExec :: "string list \<Rightarrow> bool" where
  "isSafeToCallWithExec command =
     (case command of
        [] \<Rightarrow> False
      | cmd0 # _ \<Rightarrow>
          (case executableNameLookupKey cmd0 of
             None \<Rightarrow> False
           | Some key \<Rightarrow>
               if key \<in> set ALWAYS_SAFE_COMMANDS then True
               else if key = ''base64'' then isSafeBase64 command
               else if key = ''find'' then isSafeFind command
               else if key = ''rg'' then isSafeRipgrep command
               else if key = ''git'' then isSafeGitCommand command
               else if key = ''sed'' then isSafeSed command
               else False))"

definition isKnownSafeCommand :: "string list \<Rightarrow> bool" where
  "isKnownSafeCommand command =
     (let normalized = map (\<lambda>token. if token = ''zsh'' then ''bash'' else token) command in
      if isSafeToCallWithExec normalized then True
      else case parseShellLcPlainCommands normalized of
          None \<Rightarrow> False
        | Some allCommands \<Rightarrow> length allCommands > 0 \<and> list_all isSafeToCallWithExec allCommands)"

section \<open>PowerShell\<close>

definition POWERSHELL_READ_ONLY_COMMANDS :: "string list" where
  "POWERSHELL_READ_ONLY_COMMANDS =
     [''get-childitem'', ''get-command'', ''get-content'', ''get-help'', ''get-item'', ''get-location'', ''get-member'',
      ''get-variable'', ''measure-object'', ''resolve-path'', ''select-string'', ''test-path'']"

definition powershell_operators :: string where
  "powershell_operators = '';|><&{}()='' @ [backtick] @ ''$''"

fun powershell_loop :: "string list \<Rightarrow> string \<Rightarrow> char option \<Rightarrow> string \<Rightarrow> string list option" where
  "powershell_loop tokens token quote [] =
     (if quote \<noteq> None then None else Some (if token \<noteq> [] then tokens @ [token] else tokens))"
| "powershell_loop tokens token quote (character # rest) =
     (if character = cr \<or> character = lf then None
      else case quote of
        Some q \<Rightarrow>
          if character = q then powershell_loop tokens token None rest
          else if q = dquote \<and> (character = CHR ''$'' \<or> character = backtick) then None
          else powershell_loop tokens (token @ [character]) quote rest
      | None \<Rightarrow>
          if character = squote \<or> character = dquote then powershell_loop tokens token (Some character) rest
          else if js_space character then
            (if token \<noteq> [] then powershell_loop (tokens @ [token]) [] None rest
             else powershell_loop tokens token None rest)
          else if character \<in> set powershell_operators then None
          else powershell_loop tokens (token @ [character]) None rest)"

definition tokenizeSimplePowerShell :: "string \<Rightarrow> string list option" where
  "tokenizeSimplePowerShell command = powershell_loop [] [] None command"

definition isKnownSafePowerShellCommand :: "string \<Rightarrow> bool" where
  "isKnownSafePowerShellCommand command =
     (case tokenizeSimplePowerShell command of
        None \<Rightarrow> False
      | Some tokens \<Rightarrow>
          (case tokens of
             [] \<Rightarrow> False
           | token # args \<Rightarrow>
               (let executable = map to_lower token in
                if executable \<in> set POWERSHELL_READ_ONLY_COMMANDS then True
                else
                  (let nativeExecutable =
                     (if js_ends_with executable ''.exe'' then take (length executable - 4) executable else executable)
                   in if nativeExecutable \<noteq> ''git'' \<and> nativeExecutable \<noteq> ''rg'' then False
                      else isSafeToCallWithExec (nativeExecutable # args)))))"

section \<open>The whitelist as a grammar\<close>

text \<open>What the comments of the source promise, without the loops: the options that disqualify a command, and the shape of a
  read-only \<^verbatim>\<open>git\<close> and \<^verbatim>\<open>sed\<close> command.\<close>

definition output_option :: "string \<Rightarrow> bool" where
  "output_option arg = (prefix ''-o'' arg \<or> arg = ''--output'' \<or> prefix ''--output='' arg)"

definition branch_listing :: "string \<Rightarrow> bool" where
  "branch_listing arg = (arg \<in> set BRANCH_FLAGS \<or> prefix ''--format='' arg)"

definition read_only_git :: "string list \<Rightarrow> bool" where
  "read_only_git args \<longleftrightarrow>
     (\<exists>globals sub rest. args = globals @ sub # rest \<and> sub \<in> set GIT_READ_ONLY_SUBCOMMANDS \<and>
        (\<forall>g \<in> set globals. prefix ''-'' g \<and> \<not> gitMatchesAny g UNSAFE_GIT_GLOBAL_OPTIONS) \<and>
        (\<forall>a \<in> set rest. \<not> gitMatchesAny a UNSAFE_GIT_SUBCOMMAND_OPTIONS) \<and>
        (sub = ''branch'' \<longrightarrow> (\<forall>a \<in> set rest. branch_listing a)))"

definition line_range :: "string \<Rightarrow> bool" where
  "line_range arg \<longleftrightarrow>
     (\<exists>n. all_digits n \<and> arg = n @ ''p'') \<or> (\<exists>m n. all_digits m \<and> all_digits n \<and> arg = m @ '','' @ n @ ''p'')"

definition read_only_sed :: "string list \<Rightarrow> bool" where
  "read_only_sed args \<longleftrightarrow> (\<exists>range file. args = [''-n'', range] @ file \<and> line_range range \<and> length file \<le> 1)"

definition read_only_command :: "string list \<Rightarrow> bool" where
  "read_only_command command \<longleftrightarrow>
     (\<exists>exe args. command = exe # args \<and>
        (basename exe \<in> set ALWAYS_SAFE_COMMANDS \<or>
         basename exe = ''base64'' \<and> (\<forall>a \<in> set args. \<not> output_option a) \<or>
         basename exe = ''find'' \<and> (\<forall>a \<in> set command. a \<notin> set UNSAFE_FIND_OPTIONS) \<or>
         basename exe = ''rg'' \<and> isSafeRipgrep command \<or>
         basename exe = ''git'' \<and> read_only_git args \<or>
         basename exe = ''sed'' \<and> read_only_sed args))"

subsection \<open>git\<close>

lemma value_options_are_unsafe:
  "isGitGlobalOptionWithValue arg \<or> isGitGlobalOptionWithInlineValue arg \<Longrightarrow> gitMatchesAny arg UNSAFE_GIT_GLOBAL_OPTIONS"
  by (auto simp: isGitGlobalOptionWithValue_def isGitGlobalOptionWithInlineValue_def gitMatchesAny_def UNSAFE_GIT_GLOBAL_OPTIONS_def)

lemma inline_value_dash: "isGitGlobalOptionWithInlineValue arg \<Longrightarrow> prefix ''-'' arg"
  by (auto simp: isGitGlobalOptionWithInlineValue_def js_starts_with_def prefix_def)

lemma value_dash: "isGitGlobalOptionWithValue arg \<Longrightarrow> prefix ''-'' arg"
  by (auto simp: isGitGlobalOptionWithValue_def)

lemma subcommand_no_dash: "sub \<in> set GIT_READ_ONLY_SUBCOMMANDS \<Longrightarrow> \<not> prefix ''-'' sub \<and> sub \<noteq> ''--''"
  by (auto simp: GIT_READ_ONLY_SUBCOMMANDS_def)

lemma git_subcommand_loop_step:
  assumes "git_subcommand_loop subs i skip (arg # args) = Some (j, sub)"
  shows "j = i \<and> sub = arg \<and> arg \<in> set subs \<or>
    (\<exists>skip'. git_subcommand_loop subs (i + 1) skip' args = Some (j, sub) \<and>
       (skip \<or> isGitGlobalOptionWithValue arg \<or> \<not> skip' \<and> prefix ''-'' arg))"
  using assms by (auto simp: js_starts_with_def dest: inline_value_dash split: if_splits)

lemma git_subcommand_loop_sound:
  "git_subcommand_loop subs i skip args = Some (j, sub) \<Longrightarrow>
   \<exists>globals rest. args = globals @ sub # rest \<and> j = i + length globals \<and> sub \<in> set subs \<and>
     (skip \<or> (\<exists>g \<in> set globals. isGitGlobalOptionWithValue g) \<or> (\<forall>g \<in> set globals. prefix ''-'' g))"
proof (induction args arbitrary: i skip)
  case (Cons arg args)
  from git_subcommand_loop_step [OF Cons.prems] show ?case
  proof
    assume "j = i \<and> sub = arg \<and> arg \<in> set subs"
    then show ?case by (intro exI [of _ "[]"] exI [of _ args]) auto
  next
    assume "\<exists>skip'. git_subcommand_loop subs (i + 1) skip' args = Some (j, sub) \<and>
       (skip \<or> isGitGlobalOptionWithValue arg \<or> \<not> skip' \<and> prefix ''-'' arg)"
    then obtain skip' where s: "git_subcommand_loop subs (i + 1) skip' args = Some (j, sub)"
      "skip \<or> isGitGlobalOptionWithValue arg \<or> \<not> skip' \<and> prefix ''-'' arg" by blast
    from Cons.IH [OF s(1)] obtain globals rest where g: "args = globals @ sub # rest" "j = i + 1 + length globals" "sub \<in> set subs"
      "skip' \<or> (\<exists>g \<in> set globals. isGitGlobalOptionWithValue g) \<or> (\<forall>g \<in> set globals. prefix ''-'' g)" by blast
    then show ?case using s(2) by (intro exI [of _ "arg # globals"] exI [of _ rest]) auto
  qed
qed simp

lemma git_subcommand_loop_complete:
  assumes "\<forall>g \<in> set globals. prefix ''-'' g \<and> \<not> gitMatchesAny g UNSAFE_GIT_GLOBAL_OPTIONS" "sub \<in> set GIT_READ_ONLY_SUBCOMMANDS"
  shows "git_subcommand_loop GIT_READ_ONLY_SUBCOMMANDS i False (globals @ sub # rest) = Some (i + length globals, sub)"
  using assms(1)
proof (induction globals arbitrary: i)
  case Nil
  have "\<not> isGitGlobalOptionWithValue sub" "\<not> isGitGlobalOptionWithInlineValue sub"
    using subcommand_no_dash [OF assms(2)] value_dash inline_value_dash by blast+
  then show ?case using assms(2) subcommand_no_dash [OF assms(2)] by (simp add: js_starts_with_def)
next
  case (Cons g globals)
  then show ?case using value_options_are_unsafe [of g] by (auto simp: js_starts_with_def)
qed

lemma branch_loop_iff: "branch_loop saw args \<longleftrightarrow> (saw \<or> args \<noteq> []) \<and> (\<forall>a \<in> set args. branch_listing a)"
  by (induction args arbitrary: saw) (auto simp: branch_listing_def js_starts_with_def)

lemma isSafeGitCommand_iff:
  assumes "basename exe = ''git''"
  shows "isSafeGitCommand (exe # args) \<longleftrightarrow> read_only_git args"
proof
  have key: "executableNameLookupKey exe = Some ''git''"
    using assms by (simp add: executableNameLookupKey_def basename_def)
  {
    assume l: "isSafeGitCommand (exe # args)"
    then obtain j sub where f: "git_subcommand_loop GIT_READ_ONLY_SUBCOMMANDS 1 False args = Some (j, sub)"
      by (auto simp: isSafeGitCommand_def findGitSubcommand_def key split: option.splits)
    from git_subcommand_loop_sound [OF f] obtain globals rest where g: "args = globals @ sub # rest" "j = 1 + length globals"
      "sub \<in> set GIT_READ_ONLY_SUBCOMMANDS"
      "(\<exists>g \<in> set globals. isGitGlobalOptionWithValue g) \<or> (\<forall>g \<in> set globals. prefix ''-'' g)" by blast
    have un: "\<forall>g \<in> set globals. \<not> gitMatchesAny g UNSAFE_GIT_GLOBAL_OPTIONS"
      and sb: "gitSubcommandArgsAreReadOnly rest" "sub = ''branch'' \<longrightarrow> gitBranchIsReadOnly rest"
      using l f g(1,2) by (auto simp: isSafeGitCommand_def findGitSubcommand_def key list_ex_iff split: if_splits)
    have "\<forall>a \<in> set rest. \<not> gitMatchesAny a UNSAFE_GIT_SUBCOMMAND_OPTIONS" "sub = ''branch'' \<longrightarrow> (\<forall>a \<in> set rest. branch_listing a)"
      using sb by (auto simp: gitSubcommandArgsAreReadOnly_def gitBranchIsReadOnly_def list_ex_iff branch_loop_iff split: if_splits)
    then show "read_only_git args"
      using g un value_options_are_unsafe unfolding read_only_git_def by blast
  next
    assume "read_only_git args"
    then obtain globals sub rest where g: "args = globals @ sub # rest" "sub \<in> set GIT_READ_ONLY_SUBCOMMANDS"
      "\<forall>g \<in> set globals. prefix ''-'' g \<and> \<not> gitMatchesAny g UNSAFE_GIT_GLOBAL_OPTIONS"
      "\<forall>a \<in> set rest. \<not> gitMatchesAny a UNSAFE_GIT_SUBCOMMAND_OPTIONS" "sub = ''branch'' \<longrightarrow> (\<forall>a \<in> set rest. branch_listing a)"
      unfolding read_only_git_def by blast
    have "findGitSubcommand (exe # args) GIT_READ_ONLY_SUBCOMMANDS = Some (1 + length globals, sub)"
      using git_subcommand_loop_complete [OF g(3,2), of 1 rest] by (simp add: findGitSubcommand_def key g(1))
    then show "isSafeGitCommand (exe # args)"
      using g by (auto simp: isSafeGitCommand_def GIT_READ_ONLY_SUBCOMMANDS_def gitSubcommandArgsAreReadOnly_def
        gitBranchIsReadOnly_def list_ex_iff branch_loop_iff)
  }
qed

subsection \<open>sed\<close>

lemma split_at_prefix_char:
  "c \<notin> set x \<Longrightarrow> split_at_prefix [c] acc (x @ c # y) = Some (rev acc @ x, y)"
  "c \<notin> set x \<Longrightarrow> split_at_prefix [c] acc x = None"
  by (induction x arbitrary: acc) auto

lemma js_split_char:
  "c \<notin> set x \<Longrightarrow> js_split [c] (x @ c # y) = x # js_split [c] y"
  "c \<notin> set x \<Longrightarrow> js_split [c] x = [x]"
  by (subst js_split.simps; simp add: split_at_prefix_char)+

lemma js_split_one_two:
  "js_split [c] s = [x] \<Longrightarrow> s = x" "js_split [c] s = [x, y] \<Longrightarrow> s = x @ c # y"
  using js_join_split [of "[c]" s] by (simp_all add: js_join_def)

lemma digits_no_comma: "all_digits n \<Longrightarrow> CHR '','' \<notin> set n"
  by (auto simp: all_digits_def list_all_iff is_digit_def)

text \<open>The test of a line range decides the language of its comment, \<^verbatim>\<open>/^(\d+,)?\d+p$/\<close>.\<close>

lemma isValidSedNArg_iff: "isValidSedNArg (Some arg) \<longleftrightarrow> line_range arg"
proof
  assume v: "isValidSedNArg (Some arg)"
  then obtain core where a: "arg = core @ ''p''"
    by (auto simp: isValidSedNArg_def js_ends_with_def suffix_def split: if_splits)
  with v consider x where "js_split '','' core = [x]" "all_digits x"
    | x y where "js_split '','' core = [x, y]" "all_digits x" "all_digits y"
    by (auto simp: isValidSedNArg_def split: if_splits list.splits)
  then show "line_range arg"
    by cases (auto simp: a line_range_def dest!: js_split_one_two)
next
  assume "line_range arg"
  then consider n where "all_digits n" "arg = n @ ''p''"
    | m n where "all_digits m" "all_digits n" "arg = (m @ CHR '','' # n) @ ''p''"
    by (auto simp: line_range_def)
  moreover have "suffix ''p'' (m @ CHR '','' # n @ ''p'')" for m n
    by (metis append.assoc append_Cons suffixI)
  ultimately show "isValidSedNArg (Some arg)"
    by cases (auto simp: isValidSedNArg_def js_ends_with_def butlast_append js_split_char digits_no_comma)
qed

lemma isSafeSed_iff: "isSafeSed (exe # args) \<longleftrightarrow> read_only_sed args"
proof -
  consider "args = []" | a where "args = [a]" | a b rest where "args = a # b # rest" by (metis list.exhaust)
  then show ?thesis
  proof cases
    case 3
    then show ?thesis
      by (auto simp: isSafeSed_def nth_opt_def read_only_sed_def isValidSedNArg_iff)
  qed (simp_all add: isSafeSed_def nth_opt_def read_only_sed_def isValidSedNArg_def)
qed

subsection \<open>The whole whitelist\<close>

lemma isSafeBase64_iff: "isSafeBase64 (exe # args) \<longleftrightarrow> (\<forall>a \<in> set args. \<not> output_option a)"
  by (auto simp: isSafeBase64_def output_option_def list_ex_iff js_starts_with_def)

lemma lookup_key: "executableNameLookupKey exe = (if basename exe = [] then None else Some (basename exe))"
  by (simp add: executableNameLookupKey_def basename_def)

lemma safe_iff_read_only: "isSafeToCallWithExec command \<longleftrightarrow> read_only_command command"
proof (cases command)
  case (Cons exe args)
  have cond: "''base64'' \<notin> set ALWAYS_SAFE_COMMANDS" "''find'' \<notin> set ALWAYS_SAFE_COMMANDS" "''rg'' \<notin> set ALWAYS_SAFE_COMMANDS"
    "''git'' \<notin> set ALWAYS_SAFE_COMMANDS" "''sed'' \<notin> set ALWAYS_SAFE_COMMANDS" "[] \<notin> set ALWAYS_SAFE_COMMANDS"
    by (simp_all add: ALWAYS_SAFE_COMMANDS_def)
  consider "basename exe \<in> set ALWAYS_SAFE_COMMANDS" | "basename exe = ''base64''" | "basename exe = ''find''" | "basename exe = ''rg''"
    | "basename exe = ''git''" | "basename exe = ''sed''" | "basename exe \<notin> set ALWAYS_SAFE_COMMANDS"
      "basename exe \<notin> {''base64'', ''find'', ''rg'', ''git'', ''sed''}" by blast
  moreover have "basename exe \<in> set ALWAYS_SAFE_COMMANDS \<Longrightarrow> basename exe \<noteq> []" using cond by metis
  ultimately show ?thesis
    unfolding Cons
    by cases (simp_all add: isSafeToCallWithExec_def read_only_command_def lookup_key cond isSafeBase64_iff isSafeFind_def
      list_ex_iff isSafeGitCommand_iff isSafeSed_iff)
qed (simp add: isSafeToCallWithExec_def read_only_command_def)

text \<open>C10: 
  The whitelist accepts a tokenised command exactly when it is one of the documented forms: an unconditionally safe
  executable; \<^verbatim>\<open>base64\<close>, \<^verbatim>\<open>find\<close> and \<^verbatim>\<open>rg\<close> with none of their writing or executing options; \<^verbatim>\<open>git\<close> followed by harmless
  global options, a read-only subcommand and harmless arguments, which for \<^verbatim>\<open>branch\<close> may only list; \<^verbatim>\<open>sed -n\<close> with a line
  range and at most one file.  The loop that skips the values of global options never has a say in an accepted command.
\<close>
theorem whitelist_is_the_documented_one:
  "isSafeToCallWithExec command \<longleftrightarrow> read_only_command command"
  by (rule safe_iff_read_only)

section \<open>Scripts\<close>

lemma shells_are_not_whitelisted: "\<not> isSafeToCallWithExec (''bash'' # args)"
  by (simp add: isSafeToCallWithExec_def executableNameLookupKey_def after_last_def replace_char_def ALWAYS_SAFE_COMMANDS_def)

lemma isKnownSafe_bash:
  assumes "script \<noteq> ''zsh''"
  shows "isKnownSafeCommand [''bash'', ''-lc'', script] \<longleftrightarrow>
    (\<exists>cmds. parseScriptPlainCommands script = Some cmds \<and> cmds \<noteq> [] \<and> list_all isSafeToCallWithExec cmds)"
  using assms
  by (auto simp: isKnownSafeCommand_def shells_are_not_whitelisted parseShellLcPlainCommands_def extractBashCommand_def
    KNOWN_SHELLS_def basename_def after_last_def replace_char_def split: option.splits)

lemma script_text_not_zsh: "ws \<noteq> [] \<Longrightarrow> script_text ws others \<noteq> ''zsh''"
proof -
  assume "ws \<noteq> []"
  then obtain mid where "command_text ws = squote # mid" using command_text_ends by blast
  then have "\<exists>r. script_text ws others = squote # r" by (cases others) auto
  then show ?thesis by auto
qed

text \<open>C29: 
  A script of quoted commands, none of which begins with an assignment, joined by \<open>&&\<close>, \<open>||\<close>, \<open>;\<close> or \<open>|\<close> is run without asking exactly when
  every one of its commands is read-only: no word, however much shell syntax it holds, changes the verdict.  Commands joined by newlines are
  not such a script; \<open>second_line_is_not_checked\<close> shows that only the first of them is checked.
\<close>
theorem script_is_safe_iff_commands_are:
  assumes "plain_command ws" "\<forall>(op, c) \<in> set others. op \<in> set operators \<and> plain_command c"
  shows "isKnownSafeCommand [''bash'', ''-lc'', script_text ws others] \<longleftrightarrow>
    read_only_command ws \<and> (\<forall>(op, c) \<in> set others. read_only_command c)"
proof -
  have "ws \<noteq> []" using assms(1) by (simp add: plain_command_def)
  then show ?thesis
    using parse_script_text [OF assms] isKnownSafe_bash [OF script_text_not_zsh, of ws others]
    by (auto simp: list_all_iff safe_iff_read_only split_beta)
qed

text \<open>A pipeline with shell syntax in its words; both commands are whitelisted.\<close>
theorem script_is_safe_iff_commands_are_witness:
  "isKnownSafeCommand [''bash'', ''-lc'', script_text [''echo'', ''$(rm -rf x); y > z''] [(''|'', [''wc'', ''-l''])]]"
proof -
  have c: "read_only_command [''echo'', ''$(rm -rf x); y > z'']" "read_only_command [''wc'', ''-l'']"
    unfolding safe_iff_read_only [symmetric] by code_simp+
  have "plain_command [''echo'', ''$(rm -rf x); y > z'']"
    "\<forall>(op, c) \<in> set [(''|'', [''wc'', ''-l''])]. op \<in> set operators \<and> plain_command c"
    by code_simp+
  from script_is_safe_iff_commands_are [OF this] show ?thesis using c by simp
qed

text \<open>C38: 
  Whatever script is run without asking is inert: it holds no expansion, redirection, subshell or group outside quotes, and
  every command the scanner found in it is read-only.
\<close>
theorem safe_scripts_are_inert:
  assumes "isKnownSafeCommand [''bash'', ''-lc'', script]" "script \<noteq> ''zsh''"
  shows "\<exists>cmds. parseScriptPlainCommands script = Some cmds \<and> cmds \<noteq> [] \<and> list_all read_only_command cmds \<and>
           list_all inert (active unquoted script)"
proof -
  from assms obtain cmds where c: "parseScriptPlainCommands script = Some cmds" "cmds \<noteq> []" "list_all isSafeToCallWithExec cmds"
    unfolding isKnownSafe_bash [OF assms(2)] by blast
  then show ?thesis using parse_script_inert [OF c(1)] by (auto simp: list_all_iff safe_iff_read_only)
qed

text \<open>A script of two commands.\<close>
theorem safe_scripts_are_inert_witness:
  "list_all inert (active unquoted ''git status && ls'')"
proof -
  have "isKnownSafeCommand [''bash'', ''-lc'', ''git status && ls'']" by code_simp
  from safe_scripts_are_inert [OF this] show ?thesis by blast
qed

text \<open>
  The scanner takes a newline for white space, so the words of a second line count as arguments of the first line's command:
  with a safe first line, any command on the second line is run without asking.
\<close>
theorem second_line_is_not_checked:
  "isKnownSafeCommand [''bash'', ''-lc'', ''ls'' @ [lf] @ ''rm -rf x''] \<and> \<not> isKnownSafeCommand [''bash'', ''-lc'', ''ls; rm -rf x'']"
  by (rule conjI; code_simp)

text \<open>\<^verbatim>\<open>uniq\<close> writes its second operand, yet it is on the list of commands that only read.\<close>
theorem uniq_output_is_whitelisted:
  "isKnownSafeCommand [''uniq'', ''input'', ''output'']"
  by code_simp

section \<open>PowerShell command lines\<close>

text \<open>The characters outside quotes, and those inside double quotes.\<close>

fun powershell_active :: "char option \<Rightarrow> string \<Rightarrow> (bool \<times> char) list" where
  "powershell_active quote [] = []"
| "powershell_active quote (c # s) =
     (case quote of
        Some q \<Rightarrow> if c = q then powershell_active None s
          else if q = dquote then (True, c) # powershell_active quote s else powershell_active quote s
      | None \<Rightarrow> if c = squote \<or> c = dquote then powershell_active (Some c) s else (False, c) # powershell_active None s)"

definition powershell_inert :: "bool \<times> char \<Rightarrow> bool" where
  "powershell_inert = (\<lambda>(dq, c). if dq then c \<notin> {CHR ''$'', backtick} else c \<notin> set powershell_operators)"

lemma powershell_inert_simps [simp]:
  "powershell_inert (True, c) \<longleftrightarrow> c \<noteq> CHR ''$'' \<and> c \<noteq> backtick"
  "powershell_inert (False, c) \<longleftrightarrow> c \<notin> set powershell_operators"
  by (simp_all add: powershell_inert_def)

lemma powershell_space_no_operator: "js_space c \<Longrightarrow> c \<notin> set powershell_operators"
  by (auto simp: powershell_operators_def js_space_def)

lemma powershell_loop_inert:
  "powershell_loop tokens token quote s = Some r \<Longrightarrow>
   list_all powershell_inert (powershell_active quote s) \<and> cr \<notin> set s \<and> lf \<notin> set s \<and>
   ([] \<notin> set tokens \<longrightarrow> [] \<notin> set r)"
proof (induction s arbitrary: tokens token quote)
  case Nil
  then show ?case by (auto split: if_splits)
next
  case (Cons c s)
  from Cons.prems have nl: "c \<noteq> cr" "c \<noteq> lf" by (auto split: if_splits)
  show ?case
  proof (cases quote)
    case None
    with Cons.prems nl consider
        "c = squote \<or> c = dquote" "powershell_loop tokens token (Some c) s = Some r"
      | "\<not> (c = squote \<or> c = dquote)" "js_space c" "token \<noteq> []" "powershell_loop (tokens @ [token]) [] None s = Some r"
      | "\<not> (c = squote \<or> c = dquote)" "js_space c" "powershell_loop tokens token None s = Some r"
      | "\<not> (c = squote \<or> c = dquote)" "c \<notin> set powershell_operators" "powershell_loop tokens (token @ [c]) None s = Some r"
      by (auto split: if_splits)
    then show ?thesis
      using nl None by cases (auto dest!: Cons.IH simp: powershell_space_no_operator)
  next
    case (Some q)
    with Cons.prems nl consider
        "c = q" "powershell_loop tokens token None s = Some r"
      | "c \<noteq> q" "\<not> (q = dquote \<and> (c = CHR ''$'' \<or> c = backtick))" "powershell_loop tokens (token @ [c]) quote s = Some r"
      by (auto split: if_splits)
    then show ?thesis
      using nl Some by cases (auto dest!: Cons.IH)
  qed
qed

text \<open>
  A PowerShell command line that is run without asking is one simple command on one line: outside quotes it holds no
  operator, assignment, block or interpolation character, inside double quotes no interpolation, and it names a read-only
  cmdlet or a \<^verbatim>\<open>git\<close> or \<^verbatim>\<open>rg\<close> command of the whitelist.
\<close>
theorem safe_powershell_is_one_simple_command:
  assumes "isKnownSafePowerShellCommand command"
  shows "list_all powershell_inert (powershell_active None command) \<and> cr \<notin> set command \<and> lf \<notin> set command \<and>
    (\<exists>exe args. tokenizeSimplePowerShell command = Some (exe # args) \<and> [] \<notin> set (exe # args) \<and>
       (map to_lower exe \<in> set POWERSHELL_READ_ONLY_COMMANDS \<or>
        (\<exists>name \<in> {''git'', ''rg''}. map to_lower exe \<in> {name, name @ ''.exe''} \<and> read_only_command (name # args))))"
proof -
  obtain exe args where t: "tokenizeSimplePowerShell command = Some (exe # args)"
    using assms by (auto simp: isKnownSafePowerShellCommand_def split: option.splits list.splits)
  define e where "e = map to_lower exe"
  let ?n = "if js_ends_with e ''.exe'' then take (length e - 4) e else e"
  have n: "e \<in> {?n, ?n @ ''.exe''}"
  proof (cases "suffix ''.exe'' e")
    case True
    then obtain zs where "e = zs @ ''.exe''" by (auto simp: suffix_def)
    then show ?thesis by (simp add: js_ends_with_def suffix_def)
  qed (simp add: js_ends_with_def)
  have "e \<in> set POWERSHELL_READ_ONLY_COMMANDS \<or> ?n \<in> {''git'', ''rg''} \<and> isSafeToCallWithExec (?n # args)"
    using assms t unfolding e_def by (auto simp: isKnownSafePowerShellCommand_def Let_def split: if_splits)
  then have "e \<in> set POWERSHELL_READ_ONLY_COMMANDS \<or>
      (\<exists>name \<in> {''git'', ''rg''}. e \<in> {name, name @ ''.exe''} \<and> read_only_command (name # args))"
    using n unfolding safe_iff_read_only by blast
  then show ?thesis
    using t powershell_loop_inert [of "[]" "[]" None command "exe # args"] by (simp add: tokenizeSimplePowerShell_def e_def)
qed

text \<open>A native executable with its extension, in mixed case.\<close>
theorem safe_powershell_is_one_simple_command_witness:
  "list_all powershell_inert (powershell_active None ''Git.EXE status'')"
proof -
  have "isKnownSafePowerShellCommand ''Git.EXE status''" by code_simp
  from safe_powershell_is_one_simple_command [OF this] show ?thesis by blast
qed

end
