(* ===== verification/Shell_Split.thy ===== *)
theory Shell_Split
  imports Shell_Words
begin

text \<open>
  Splitting a shell command into the subcommands that the permission gate judges one by one
  (\<^verbatim>\<open>permission/src/tools/bash-split.ts\<close>): separators, control-flow keywords, line continuations and heredocs.

  The functions of the source that take an input and a position keep both here; a loop is a recursion on the position, whose
  distance to the end of the input decreases.
\<close>

section \<open>Control-flow keywords\<close>

definition LEADING_SHELL_KEYWORDS :: "string list" where
  "LEADING_SHELL_KEYWORDS = [''if'', ''then'', ''else'', ''elif'', ''while'', ''until'', ''do'', ''!'', ''{'']"

definition STANDALONE_SHELL_KEYWORDS :: "string list" where
  "STANDALONE_SHELL_KEYWORDS = [''fi'', ''done'', ''esac'', ''}'']"

definition SEGMENT_DROP_KEYWORDS :: "string list" where
  "SEGMENT_DROP_KEYWORDS = [''for'', ''case'', ''select'']"

lemma js_trim_length: "length (js_trim s) \<le> length s"
  unfolding js_trim_def by (metis le_trans length_dropWhile_le length_rev)

function strip_brackets :: "string \<Rightarrow> string" where
  "strip_brackets [] = []"
| "strip_brackets (c # s) = (if c \<in> set ''({)}'' then strip_brackets (js_trim s) else c # s)"
  by pat_completeness auto
termination by (relation "measure length") (use js_trim_length in \<open>auto simp: less_Suc_eq_le\<close>)

definition first_word :: "string \<Rightarrow> string" where
  "first_word s = takeWhile (\<lambda>c. \<not> js_space c) s"

definition after_first_word :: "string \<Rightarrow> string" where
  "after_first_word s = js_trim (drop 1 (dropWhile (\<lambda>c. \<not> js_space c) s))"

lemma after_first_word_length: "s \<noteq> [] \<Longrightarrow> length (after_first_word s) < length s"
proof -
  assume "s \<noteq> []"
  have "length (drop 1 (dropWhile (\<lambda>c. \<not> js_space c) s)) < length s"
    using \<open>s \<noteq> []\<close> length_dropWhile_le [of "\<lambda>c. \<not> js_space c" s] by (cases s) auto
  then show ?thesis unfolding after_first_word_def using js_trim_length le_less_trans by blast
qed

function keyword_loop :: "string \<Rightarrow> string option" where
  "keyword_loop cur =
     (if cur = [] then None
      else
        (let head = first_word cur in
         if head \<in> set STANDALONE_SHELL_KEYWORDS
         then (if length (after_first_word cur) = 0 then None else keyword_loop (after_first_word cur))
         else if head \<in> set SEGMENT_DROP_KEYWORDS then None
         else if head \<in> set LEADING_SHELL_KEYWORDS then keyword_loop (after_first_word cur)
         else Some cur))"
  by pat_completeness auto
termination by (relation "measure length") (auto simp: after_first_word_length)

declare keyword_loop.simps [simp del]

definition stripLeadingShellKeyword :: "string \<Rightarrow> string option" where
  "stripLeadingShellKeyword segment =
     (let cur = js_trim segment in
      if length cur = 0 then None
      else (let cur = strip_brackets cur in if length cur = 0 then None else keyword_loop cur))"

section \<open>Line continuations\<close>

text \<open>Each character of the folded text with the range of the input it stands for.\<close>

function fold_loop :: "bool \<Rightarrow> bool \<Rightarrow> nat \<Rightarrow> string \<Rightarrow> (char \<times> nat \<times> nat) list" where
  "fold_loop inS inD i [] = []"
| "fold_loop inS inD i (ch # rest) =
     (if ch = squote \<and> \<not> inD then (ch, i, i + 1) # fold_loop (\<not> inS) inD (i + 1) rest
      else if ch = dquote \<and> \<not> inS then (ch, i, i + 1) # fold_loop inS (\<not> inD) (i + 1) rest
      else if ch = bslash \<and> \<not> inS then
        (if head_is lf rest then (CHR '' '', i, i + 2) # fold_loop inS inD (i + 2) (drop 1 rest)
         else if head_is cr rest \<and> head_is lf (drop 1 rest) then (CHR '' '', i, i + 3) # fold_loop inS inD (i + 3) (drop 2 rest)
         else (ch, i, i + 1) # fold_loop inS inD (i + 1) rest)
      else (ch, i, i + 1) # fold_loop inS inD (i + 1) rest)"
  by pat_completeness auto
termination by (relation "measure (\<lambda>(a, b, i, s). length s)") auto

definition foldLineContinuationsWithSourceMap :: "string \<Rightarrow> string \<times> (nat \<times> nat) list" where
  "foldLineContinuationsWithSourceMap input = (let cs = fold_loop False False 0 input in (map fst cs, map snd cs))"

definition foldLineContinuations :: "string \<Rightarrow> string" where
  "foldLineContinuations input = fst (foldLineContinuationsWithSourceMap input)"

definition isAssignmentOnlySegment :: "string \<Rightarrow> bool" where
  "isAssignmentOnlySegment seg =
     (let tokens = shellTokenize (js_trim seg) in length tokens \<noteq> 0 \<and> list_all isAssignmentPrefix tokens)"

section \<open>Heredoc markers\<close>

record HeredocMarker =
  hm_marker :: string
  hm_stripTabs :: bool

definition findLineBreakStart :: "string \<Rightarrow> nat \<Rightarrow> nat option" where
  "findLineBreakStart input start =
     (case char_index_from lf input start of
        None \<Rightarrow> None
      | Some k \<Rightarrow> Some (if k > 0 \<and> nth_opt input (k - 1) = Some cr then k - 1 else k))"

definition heredocWordIsTerminator :: "char \<Rightarrow> bool" where
  "heredocWordIsTerminator ch = (js_space ch \<or> ch \<in> set '';&|<>'')"

definition heredocMarkerCanMatchLine :: "string \<Rightarrow> bool" where
  "heredocMarkerCanMatchLine marker = (length marker > 0 \<and> list_all (\<lambda>c. c \<noteq> CHR 0x00 \<and> c \<noteq> cr \<and> c \<noteq> lf) marker)"

definition decodeSimpleAnsiCEscape :: "char \<Rightarrow> char option" where
  "decodeSimpleAnsiCEscape ch =
     (if ch = CHR ''a'' then Some (CHR 0x07)
      else if ch = CHR ''b'' then Some (CHR 0x08)
      else if ch = CHR ''e'' \<or> ch = CHR ''E'' then Some (CHR 0x1B)
      else if ch = CHR ''f'' then Some (CHR 0x0C)
      else if ch = CHR ''n'' then Some lf
      else if ch = CHR ''r'' then Some cr
      else if ch = CHR ''t'' then Some (CHR 0x09)
      else if ch = CHR ''v'' then Some (CHR 0x0B)
      else if ch = bslash \<or> ch = squote \<or> ch = dquote \<or> ch = CHR ''?'' then Some ch
      else None)"

function ansi_loop :: "string \<Rightarrow> string \<Rightarrow> nat \<Rightarrow> (string \<times> nat) option" where
  "ansi_loop input marker i =
     (if i < length input then
        (let ch = input ! i in
         if ch = squote then (if heredocMarkerCanMatchLine marker then Some (marker, i + 1) else None)
         else if ch = bslash then
           (case nth_opt input (i + 1) of
              None \<Rightarrow> None
            | Some next \<Rightarrow>
                (case decodeSimpleAnsiCEscape next of
                   None \<Rightarrow> None
                 | Some decoded \<Rightarrow> ansi_loop input (marker @ [decoded]) (i + 2)))
         else ansi_loop input (marker @ [ch]) (i + 1))
      else None)"
  by pat_completeness auto
termination by (relation "measure (\<lambda>(input, m, i). length input - i)") auto

declare ansi_loop.simps [simp del]

definition parseAnsiCHeredocWord :: "string \<Rightarrow> nat \<Rightarrow> (string \<times> nat) option" where
  "parseAnsiCHeredocWord input start = ansi_loop input [] start"

lemma ansi_loop_index: "ansi_loop input m i = Some (m', j) \<Longrightarrow> i < j \<and> j \<le> length input"
proof (induction i arbitrary: m rule: position_induct [where n = "length input"])
  case (1 i)
  from 1(2) show ?case
    by (subst (asm) ansi_loop.simps) (auto simp: Let_def split: if_splits option.splits dest!: 1(1) [rotated 2])
qed

lemmas parseAnsiC_index = ansi_loop_index [where m = "[]", folded parseAnsiCHeredocWord_def]

text \<open>The loop of \<^verbatim>\<open>parseHeredocWord\<close>.\<close>

function heredoc_word_loop :: "string \<Rightarrow> string \<Rightarrow> char option \<Rightarrow> nat \<Rightarrow> (string \<times> nat) option" where
  "heredoc_word_loop input marker quote i =
     (if i < length input then
        (let ch = input ! i; next = nth_opt input (i + 1) in
         case quote of
           Some q \<Rightarrow>
             if ch = q then heredoc_word_loop input marker None (i + 1)
             else if ch = bslash \<and> q = dquote \<and> next \<noteq> None \<and> the next \<in> set ([CHR ''$'', backtick, dquote, bslash, lf])
             then heredoc_word_loop input (marker @ [the next]) quote (i + 2)
             else heredoc_word_loop input (marker @ [ch]) quote (i + 1)
         | None \<Rightarrow>
             if heredocWordIsTerminator ch then (if heredocMarkerCanMatchLine marker then Some (marker, i) else None)
             else if ch = CHR ''$'' \<and> next = Some squote then
               (case parseAnsiCHeredocWord input (i + 2) of
                  None \<Rightarrow> None
                | Some (parsed, nextIndex) \<Rightarrow> heredoc_word_loop input (marker @ parsed) None nextIndex)
             else if ch = CHR ''$'' \<and> next = Some dquote then None
             else if ch = squote \<or> ch = dquote then heredoc_word_loop input marker (Some ch) (i + 1)
             else if ch = bslash then
               (case next of None \<Rightarrow> None | Some c \<Rightarrow> heredoc_word_loop input (marker @ [c]) None (i + 2))
             else heredoc_word_loop input (marker @ [ch]) None (i + 1))
      else if quote = None \<and> heredocMarkerCanMatchLine marker then Some (marker, i) else None)"
  by pat_completeness auto
termination
  by (relation "measure (\<lambda>(input, m, q, i). length input - i)") (auto dest: parseAnsiC_index)

declare heredoc_word_loop.simps [simp del]

definition parseHeredocWord :: "string \<Rightarrow> nat \<Rightarrow> (string \<times> nat) option" where
  "parseHeredocWord input start = heredoc_word_loop input [] None start"

lemma heredoc_word_step:
  assumes "heredoc_word_loop input m q i = Some (m', j)" "i < length input"
  obtains (stop) "j = i" "heredocMarkerCanMatchLine m'"
    | (go) k m1 q1 where "i < k" "k \<le> length input" "heredoc_word_loop input m1 q1 k = Some (m', j)"
proof -
  have steps: "heredoc_word_loop input m1 q1 (Suc i) = Some (m', j) \<Longrightarrow> thesis"
    "Suc i < length input \<Longrightarrow> heredoc_word_loop input m1 q1 (Suc (Suc i)) = Some (m', j) \<Longrightarrow> thesis"
    "parseAnsiCHeredocWord input (Suc (Suc i)) = Some (a, b) \<Longrightarrow> heredoc_word_loop input m1 q1 b = Some (m', j) \<Longrightarrow> thesis"
    for m1 q1 a b
    using go [of "Suc i" m1 q1] go [of "Suc (Suc i)" m1 q1] go [of b m1 q1] assms(2) parseAnsiC_index [of input "Suc (Suc i)" a b]
    by auto
  show ?thesis
    using assms by (cases q; subst (asm) heredoc_word_loop.simps)
      (auto simp: Let_def intro: stop steps split: if_splits option.splits)
qed

lemma heredoc_word_loop_index:
  "heredoc_word_loop input m q i = Some (m', j) \<Longrightarrow> i \<le> length input \<Longrightarrow>
   i \<le> j \<and> j \<le> length input \<and> heredocMarkerCanMatchLine m'"
proof (induction i arbitrary: m q rule: position_induct [where n = "length input"])
  case (1 i)
  show ?case
  proof (cases "i < length input")
    case True
    from 1(2) True show ?thesis
    proof (cases rule: heredoc_word_step)
      case (go k m1 q1)
      then show ?thesis using 1(1) [of k m1 q1] True by auto
    qed (use 1(3) in auto)
  next
    case False
    then show ?thesis using 1(2,3) by (subst (asm) heredoc_word_loop.simps) (auto split: if_splits)
  qed
qed

definition tab_or_space :: "char \<Rightarrow> bool" where
  "tab_or_space c = (c = CHR '' '' \<or> c = CHR 0x09)"

definition parseHeredocMarkerAt :: "string \<Rightarrow> nat \<Rightarrow> (HeredocMarker \<times> nat) option" where
  "parseHeredocMarkerAt input operatorIndex =
     (if nth_opt input operatorIndex \<noteq> Some (CHR ''<'') \<or> nth_opt input (operatorIndex + 1) \<noteq> Some (CHR ''<'') then None
      else if operatorIndex > 0 \<and> nth_opt input (operatorIndex - 1) = Some (CHR ''<'') \<or>
        nth_opt input (operatorIndex + 2) = Some (CHR ''<'') then None
      else
        (let stripTabs = (nth_opt input (operatorIndex + 2) = Some (CHR ''-''));
             start = operatorIndex + 2 + (if stripTabs then 1 else 0);
             i = start + length (takeWhile tab_or_space (drop start input))
         in if length input \<le> i then None
            else case parseHeredocWord input i of
                None \<Rightarrow> None
              | Some (marker, nextIndex) \<Rightarrow> Some (\<lparr>hm_marker = marker, hm_stripTabs = stripTabs\<rparr>, nextIndex)))"

lemma parseHeredocMarkerAt_index:
  "parseHeredocMarkerAt input i = Some (m, j) \<Longrightarrow>
   i < j \<and> j \<le> length input \<and> heredocMarkerCanMatchLine (hm_marker m) \<and> input ! i = CHR ''<''"
  unfolding parseHeredocMarkerAt_def parseHeredocWord_def
  by (auto simp: Let_def split: if_splits option.splits dest!: heredoc_word_loop_index)

definition shellCommentStartsAt :: "string \<Rightarrow> nat \<Rightarrow> bool" where
  "shellCommentStartsAt input index =
     (nth_opt input index = Some (CHR ''#'') \<and>
      (index = 0 \<or> (case nth_opt input (index - 1) of None \<Rightarrow> False | Some c \<Rightarrow> js_space c \<or> c \<in> set '';&|()'')))"

definition findLineEnd :: "string \<Rightarrow> nat \<Rightarrow> nat" where
  "findLineEnd input start = nullish (char_index_from lf input start) (length input)"

function arithmetic_loop :: "string \<Rightarrow> nat \<Rightarrow> nat \<Rightarrow> nat" where
  "arithmetic_loop input depth i =
     (if i < length input then
        (let ch = input ! i in
         if ch = bslash then arithmetic_loop input depth (i + 2)
         else if ch = CHR ''('' then arithmetic_loop input (depth + 1) (i + 1)
         else if ch \<noteq> CHR '')'' then arithmetic_loop input depth (i + 1)
         else if nth_opt input (i + 1) = Some (CHR '')'') \<and> depth = 1 then i + 2
         else arithmetic_loop input (if depth > 1 then depth - 1 else depth) (i + 1))
      else length input)"
  by pat_completeness auto
termination by (relation "measure (\<lambda>(input, d, i). length input - i)") auto

declare arithmetic_loop.simps [simp del]

definition skipArithmeticContext :: "string \<Rightarrow> nat \<Rightarrow> nat option" where
  "skipArithmeticContext input start =
     (let c = nth_opt input in
      if c start = Some (CHR ''$'') \<and> c (start + 1) = Some (CHR ''('') \<and> c (start + 2) = Some (CHR ''('')
      then Some (arithmetic_loop input 1 (start + 3))
      else if c start = Some (CHR ''('') \<and> c (start + 1) = Some (CHR ''('')
      then Some (arithmetic_loop input 1 (start + 2))
      else None)"

lemma arithmetic_loop_index: "i \<le> length input \<Longrightarrow> i \<le> arithmetic_loop input d i \<and> arithmetic_loop input d i \<le> length input"
proof (induction i arbitrary: d rule: position_induct [where n = "length input"])
  case (1 i)
  have IH: "i < j \<Longrightarrow> i < length input \<Longrightarrow> i \<le> arithmetic_loop input d j \<and> arithmetic_loop input d j \<le> length input" for j d
  proof (cases "j \<le> length input")
    case False
    then show ?thesis using 1(2) by (subst arithmetic_loop.simps, subst arithmetic_loop.simps) auto
  qed (use 1(1) [of j d] in auto)
  show ?case using 1(2) IH by (subst (1 2) arithmetic_loop.simps) (auto simp: Let_def)
qed

lemma skipArithmeticContext_index: "skipArithmeticContext input i = Some j \<Longrightarrow> i < j \<and> j \<le> length input \<and> input ! i \<in> {CHR ''$'', CHR ''(''}"
  using arithmetic_loop_index [of "i + 2" input 1] arithmetic_loop_index [of "i + 3" input 1]
  by (auto simp: skipArithmeticContext_def Let_def split: if_splits)

lemma findLineEnd_index: "i \<le> length input \<Longrightarrow> i \<le> findLineEnd input i \<and> findLineEnd input i \<le> length input"
  by (auto simp: findLineEnd_def nullish_def split: option.splits dest: char_index_from_Some)

text \<open>The two steps both heredoc scans take over a comment and over an arithmetic expression: the position to go on from.\<close>

definition scan_skip :: "string \<Rightarrow> nat \<Rightarrow> nat option" where
  "scan_skip input i =
     (if shellCommentStartsAt input i then Some (findLineEnd input i + 1) else skipArithmeticContext input i)"

lemma scan_skip_index: "scan_skip input i = Some j \<Longrightarrow> i < j \<and> input ! i \<in> {CHR ''#'', CHR ''$'', CHR ''(''}"
  using findLineEnd_index [of i input]
  by (auto simp: scan_skip_def shellCommentStartsAt_def dest: skipArithmeticContext_index split: if_splits)

function markers_loop :: "string \<Rightarrow> QuoteState \<Rightarrow> nat \<Rightarrow> HeredocMarker list" where
  "markers_loop header q i =
     (if i < length header then
        (let ch = header ! i in
         if quote_class q ch \<noteq> QOther \<or> inSingle q \<or> inDouble q then markers_loop header (quote_next q ch) (i + 1)
         else case scan_skip header i of
             Some j \<Rightarrow> markers_loop header q j
           | None \<Rightarrow>
               (case parseHeredocMarkerAt header i of
                  Some (marker, nextIndex) \<Rightarrow> marker # markers_loop header q nextIndex
                | None \<Rightarrow> markers_loop header q (i + 1)))
      else [])"
  by pat_completeness auto
termination
  by (relation "measure (\<lambda>(header, q, i). length header - i)")
    (auto dest: scan_skip_index parseHeredocMarkerAt_index)

declare markers_loop.simps [simp del]

definition parseHeredocMarkers :: "string \<Rightarrow> HeredocMarker list" where
  "parseHeredocMarkers header = markers_loop header unquoted 0"

function first_body_loop :: "string \<Rightarrow> QuoteState \<Rightarrow> nat \<Rightarrow> nat option" where
  "first_body_loop input q i =
     (if i < length input then
        (let ch = input ! i in
         if quote_class q ch \<noteq> QOther \<or> inSingle q \<or> inDouble q then first_body_loop input (quote_next q ch) (i + 1)
         else case scan_skip input i of
             Some j \<Rightarrow> first_body_loop input q j
           | None \<Rightarrow>
               if parseHeredocMarkerAt input i \<noteq> None then findLineBreakStart input i else first_body_loop input q (i + 1))
      else None)"
  by pat_completeness auto
termination
  by (relation "measure (\<lambda>(input, q, i). length input - i)") (auto dest: scan_skip_index)

declare first_body_loop.simps [simp del]

definition findFirstHeredocBodyStart :: "string \<Rightarrow> nat option" where
  "findFirstHeredocBodyStart input = first_body_loop input unquoted 0"

section \<open>Heredoc bodies\<close>

definition lineMatchesHeredocMarker :: "string \<Rightarrow> HeredocMarker \<Rightarrow> bool" where
  "lineMatchesHeredocMarker line marker =
     (let candidate = (if hm_stripTabs marker then dropWhile (\<lambda>c. c = CHR 0x09) line else line) in candidate = hm_marker marker)"

definition line_next :: "string \<Rightarrow> nat \<Rightarrow> nat" where
  "line_next input pos = (case char_index_from lf input pos of None \<Rightarrow> length input | Some k \<Rightarrow> k + 1)"

definition line_at :: "string \<Rightarrow> nat \<Rightarrow> string" where
  "line_at input pos =
     (let rawLine = js_slice input pos (nullish (char_index_from lf input pos) (length input)) in
      if js_ends_with rawLine [cr] then butlast rawLine else rawLine)"

lemma line_next_index: "pos < length input \<Longrightarrow> pos < line_next input pos \<and> line_next input pos \<le> length input"
  by (auto simp: line_next_def split: option.splits dest: char_index_from_Some)

function consumeHeredocBody :: "string \<Rightarrow> nat \<Rightarrow> HeredocMarker \<Rightarrow> nat" where
  "consumeHeredocBody input pos marker =
     (if pos < length input then
        (if lineMatchesHeredocMarker (line_at input pos) marker then line_next input pos
         else consumeHeredocBody input (line_next input pos) marker)
      else length input)"
  by pat_completeness auto
termination
  by (relation "measure (\<lambda>(input, pos, m). length input - pos)")
    (simp_all, metis diff_less_mono2 line_next_index)

declare consumeHeredocBody.simps [simp del]

lemma consumeHeredocBody_index:
  "pos \<le> length input \<Longrightarrow> pos \<le> consumeHeredocBody input pos m \<and> consumeHeredocBody input pos m \<le> length input \<and>
   (pos < length input \<longrightarrow> pos < consumeHeredocBody input pos m)"
proof (induction pos rule: position_induct [where n = "length input"])
  case (1 pos)
  show ?case
    using line_next_index [of pos input] 1(1) [of "line_next input pos"] 1(2)
    by (subst (1 2 3) consumeHeredocBody.simps) auto
qed

lemma consumeHeredocBody_end [simp]: "consumeHeredocBody input (length input) m = length input"
  by (simp add: consumeHeredocBody.simps)

section \<open>Subcommands\<close>

definition flush_segment :: "string list \<Rightarrow> string \<Rightarrow> string list" where
  "flush_segment rawSegments current = (let trimmed = js_trim current in if length trimmed > 0 then rawSegments @ [trimmed] else rawSegments)"

function split_loop :: "QuoteState \<Rightarrow> string list \<Rightarrow> string \<Rightarrow> string \<Rightarrow> string list" where
  "split_loop q segs current [] = flush_segment segs current"
| "split_loop q segs current (ch # rest) =
     (if quote_class q ch \<noteq> QOther \<or> inSingle q \<or> inDouble q then split_loop (quote_next q ch) segs (current @ [ch]) rest
      else if ch = CHR ''&'' \<and> head_is (CHR ''&'') rest \<or> ch = CHR ''|'' \<and> head_is (CHR ''|'') rest
      then split_loop q (flush_segment segs current) [] (drop 1 rest)
      else if ch = CHR '';'' then split_loop q (flush_segment segs current) [] rest
      else if ch = CHR ''|'' \<and> \<not> head_is (CHR ''|'') rest then split_loop q (flush_segment segs current) [] rest
      else if ch = lf then split_loop q (flush_segment segs current) [] rest
      else if ch = cr \<and> head_is lf rest then split_loop q (flush_segment segs current) [] (drop 1 rest)
      else split_loop q segs (current @ [ch]) rest)"
  by pat_completeness auto
termination by (relation "measure (\<lambda>(q, segs, cur, s). length s)") auto

definition clean_segment :: "string \<Rightarrow> string option" where
  "clean_segment seg =
     (if head_is (CHR ''#'') (dropWhile js_space seg) then None
      else if isAssignmentOnlySegment seg then None
      else stripLeadingShellKeyword seg)"

definition splitCommandWithoutHeredoc :: "string \<Rightarrow> string list" where
  "splitCommandWithoutHeredoc input =
     (let folded = foldLineContinuations input;
          rawSegments = split_loop unquoted [] [] folded
      in List.map_filter clean_segment rawSegments)"

text \<open>The loop of \<^verbatim>\<open>findHeaderSegmentSources\<close> over the segments.\<close>

fun sources_loop :: "string \<Rightarrow> string \<times> (nat \<times> nat) list \<Rightarrow> nat \<Rightarrow> string list \<Rightarrow> string list" where
  "sources_loop header folded foldedSearchFrom [] = []"
| "sources_loop header folded foldedSearchFrom (segment # segments) =
     (case js_index_of_from (fst folded) segment foldedSearchFrom of
        None \<Rightarrow> segment # sources_loop header folded foldedSearchFrom segments
      | Some start \<Rightarrow>
          if length segment = 0 then segment # sources_loop header folded foldedSearchFrom segments
          else
            (let foldedEnd = start + length segment in
             case (nth_opt (snd folded) start, nth_opt (snd folded) (foldedEnd - 1)) of
               (Some (sourceStart, _), Some (_, sourceEnd)) \<Rightarrow>
                 (let sourceEnd = sourceEnd + length (takeWhile tab_or_space (drop sourceEnd header)) in
                  js_slice header sourceStart sourceEnd # sources_loop header folded foldedEnd segments)
             | _ \<Rightarrow> segment # sources_loop header folded foldedEnd segments))"

definition findHeaderSegmentSources :: "string \<Rightarrow> string list \<Rightarrow> string list" where
  "findHeaderSegmentSources header segments =
     sources_loop header (foldLineContinuationsWithSourceMap header) 0 segments"

text \<open>The markers of the segments with their index, and the loop that gives each its body.\<close>

fun segment_markers :: "nat \<Rightarrow> string list \<Rightarrow> (HeredocMarker \<times> nat) list" where
  "segment_markers k [] = []"
| "segment_markers k (segment # segments) =
     map (\<lambda>marker. (marker, k)) (parseHeredocMarkers segment) @ segment_markers (k + 1) segments"

fun bodies_loop :: "string \<Rightarrow> (HeredocMarker \<times> nat) list \<Rightarrow> nat \<Rightarrow> (nat \<times> string) list \<Rightarrow> nat \<times> (nat \<times> string) list" where
  "bodies_loop input [] cursor bodies = (cursor, bodies)"
| "bodies_loop input ((marker, segmentIndex) # markers) cursor bodies =
     (let next = consumeHeredocBody input cursor marker in
      bodies_loop input markers next
        (AList.update segmentIndex (nullish (map_of bodies segmentIndex) [] @ js_slice input cursor next) bodies))"

fun append_bodies :: "nat \<Rightarrow> (nat \<times> string) list \<Rightarrow> string list \<Rightarrow> string list \<Rightarrow> string list" where
  "append_bodies k bodies sources [] = []"
| "append_bodies k bodies sources (segment # segments) =
     (case map_of bodies k of
        None \<Rightarrow> segment
      | Some body \<Rightarrow> nullish (nth_opt sources k) segment @ body) # append_bodies (k + 1) bodies sources segments"

text \<open>\<^verbatim>\<open>splitCommandWithHeredoc\<close> up to its last line: \<open>None\<close> when no segment has a marker, else the segments with their
  bodies and the position after the last body.\<close>

definition heredoc_segments :: "string \<Rightarrow> nat \<Rightarrow> (string list \<times> nat) option" where
  "heredoc_segments input bodyStart =
     (let header = take bodyStart input;
          segments = splitCommandWithoutHeredoc header;
          segmentSources = findHeaderSegmentSources header segments;
          markers = segment_markers 0 segments
      in if length markers = 0 then None
         else case bodies_loop input markers bodyStart [] of
             (cursor, appendedBodies) \<Rightarrow> Some (append_bodies 0 appendedBodies segmentSources segments, cursor))"

lemma bodies_loop_index:
  "cursor \<le> length input \<Longrightarrow> fst (bodies_loop input ms cursor bodies) \<le> length input \<and> cursor \<le> fst (bodies_loop input ms cursor bodies) \<and>
   (ms \<noteq> [] \<longrightarrow> cursor < length input \<longrightarrow> cursor < fst (bodies_loop input ms cursor bodies))"
proof (induction input ms cursor bodies rule: bodies_loop.induct)
  case (2 input marker k ms cursor bodies)
  then show ?case using consumeHeredocBody_index [of cursor input marker] by (auto simp: Let_def)
qed simp

lemma findLineBreakStart_index: "findLineBreakStart input i = Some k \<Longrightarrow> k < length input"
  by (auto simp: findLineBreakStart_def split: option.splits if_splits dest!: char_index_from_Some)

lemma first_body_index: "first_body_loop input q i = Some k \<Longrightarrow> k < length input"
proof (induction i arbitrary: q rule: position_induct [where n = "length input"])
  case (1 i)
  then show ?case
    by (subst (asm) (2) first_body_loop.simps)
      (auto simp: Let_def split: if_splits option.splits dest: scan_skip_index findLineBreakStart_index)
qed

lemma heredoc_segments_index:
  assumes "findFirstHeredocBodyStart input = Some k" "heredoc_segments input k = Some (segs, cursor)"
  shows "k < cursor \<and> cursor \<le> length input"
proof -
  have "k < length input" using assms(1) first_body_index unfolding findFirstHeredocBodyStart_def by blast
  with assms(2) show ?thesis
    using bodies_loop_index [of k input "segment_markers 0 (splitCommandWithoutHeredoc (take k input))" "[]"]
    by (auto simp: heredoc_segments_def Let_def split: if_splits prod.splits)
qed

function splitCommand :: "string \<Rightarrow> string list" where
  "splitCommand input =
     (case findFirstHeredocBodyStart input of
        None \<Rightarrow> splitCommandWithoutHeredoc input
      | Some bodyStart \<Rightarrow>
          (case heredoc_segments input bodyStart of
             None \<Rightarrow> splitCommandWithoutHeredoc input
           | Some (withBodies, cursor) \<Rightarrow>
               (let rest = drop cursor input in
                if length (js_trim rest) > 0 then withBodies @ splitCommand rest else withBodies)))"
  by pat_completeness auto
termination
  by (relation "measure length") (use heredoc_segments_index in fastforce)+

declare splitCommand.simps [simp del]

fun ranges_loop :: "string \<Rightarrow> HeredocMarker list \<Rightarrow> nat \<Rightarrow> (nat \<times> nat) list \<times> nat" where
  "ranges_loop input [] cursor = ([], cursor)"
| "ranges_loop input (marker # markers) cursor =
     (let next = consumeHeredocBody input cursor marker;
          (ranges, final) = ranges_loop input markers next
      in ((cursor, next) # ranges, final))"

lemma ranges_loop_index:
  "cursor < length input \<Longrightarrow> ms \<noteq> [] \<Longrightarrow> cursor < snd (ranges_loop input ms cursor) \<and> snd (ranges_loop input ms cursor) \<le> length input"
proof (induction ms arbitrary: cursor)
  case (Cons m ms)
  let ?n = "consumeHeredocBody input cursor m"
  have "cursor < ?n" "?n \<le> length input" using consumeHeredocBody_index [of cursor input m] Cons.prems by auto
  moreover have "snd (ranges_loop input ms (length input)) = length input" for ms
    by (induction ms) (simp_all add: Let_def split_beta)
  ultimately show ?case using Cons.IH [of ?n] by (cases "?n = length input"; cases ms) (auto simp: Let_def split_beta)
qed simp

lemma ranges_step:
  assumes "findFirstHeredocBodyStart (drop offset input) = Some k" "ms \<noteq> []" "ranges_loop input ms (offset + k) = (rs, cursor)"
  shows "offset + k < cursor \<and> cursor \<le> length input"
proof -
  have "k < length (drop offset input)"
    using assms(1) first_body_index unfolding findFirstHeredocBodyStart_def by blast
  then show ?thesis using ranges_loop_index [of "offset + k" input ms] assms(2,3) by auto
qed

lemma ranges_decrease:
  assumes "findFirstHeredocBodyStart (drop offset input) = Some k" "length ms \<noteq> 0" "(rs, cursor) = ranges_loop input ms (offset + k)"
  shows "length input - cursor < length input - offset"
  using ranges_step [OF assms(1) _ assms(3) [symmetric]] assms(2) by auto

function collectHeredocBodyRanges :: "string \<Rightarrow> nat \<Rightarrow> (nat \<times> nat) list" where
  "collectHeredocBodyRanges input offset =
     (let rest = drop offset input in
      case findFirstHeredocBodyStart rest of
        None \<Rightarrow> []
      | Some bodyStart \<Rightarrow>
          (let markers = concat (map parseHeredocMarkers (splitCommandWithoutHeredoc (take bodyStart rest))) in
           if length markers = 0 then []
           else case ranges_loop input markers (offset + bodyStart) of
               (ranges, cursor) \<Rightarrow> ranges @ collectHeredocBodyRanges input cursor))"
  by pat_completeness auto
termination
  by (relation "measure (\<lambda>(input, offset). length input - offset)")
    (simp, simp only: in_measure prod.case, rule ranges_decrease, auto)

declare collectHeredocBodyRanges.simps [simp del]

definition findHeredocBodyRanges :: "string \<Rightarrow> (nat \<times> nat) list" where
  "findHeredocBodyRanges input = collectHeredocBodyRanges input 0"

section \<open>Positions of heredoc bodies\<close>

fun ranges_between :: "nat \<Rightarrow> nat \<Rightarrow> (nat \<times> nat) list \<Rightarrow> bool" where
  "ranges_between lo hi [] = (lo \<le> hi)"
| "ranges_between lo hi ((a, b) # rs) = (lo \<le> a \<and> a \<le> b \<and> ranges_between b hi rs)"

lemma ranges_between_append: "ranges_between lo mid rs \<Longrightarrow> ranges_between mid hi rs' \<Longrightarrow> ranges_between lo hi (rs @ rs')"
proof (induction rs arbitrary: lo)
  case Nil
  then show ?case by (cases rs') auto
qed auto

lemma ranges_loop_between:
  "cursor \<le> length input \<Longrightarrow> ranges_loop input ms cursor = (rs, final) \<Longrightarrow>
   ranges_between cursor final rs \<and> final \<le> length input \<and> length rs = length ms"
proof (induction ms arbitrary: cursor rs)
  case (Cons m ms)
  let ?n = "consumeHeredocBody input cursor m"
  have n: "cursor \<le> ?n" "?n \<le> length input" using consumeHeredocBody_index Cons.prems(1) by auto
  obtain rs' where r: "ranges_loop input ms ?n = (rs', final)" "rs = (cursor, ?n) # rs'"
    using Cons.prems(2) by (auto simp: Let_def split: prod.splits)
  then show ?case using Cons.IH [OF n(2) r(1)] n by simp
qed simp

lemma ranges_between_weaken: "ranges_between lo hi rs \<Longrightarrow> lo' \<le> lo \<Longrightarrow> ranges_between lo' hi rs"
  by (cases rs) auto

lemma collect_between: "offset \<le> length input \<Longrightarrow> ranges_between offset (length input) (collectHeredocBodyRanges input offset)"
proof (induction offset rule: position_induct [where n = "length input"])
  case (1 offset)
  show ?case
  proof (cases "findFirstHeredocBodyStart (drop offset input)")
    case None
    then show ?thesis using 1(2) by (subst collectHeredocBodyRanges.simps) simp
  next
    case (Some k)
    let ?ms = "concat (map parseHeredocMarkers (splitCommandWithoutHeredoc (take k (drop offset input))))"
    obtain rs cursor where r: "ranges_loop input ?ms (offset + k) = (rs, cursor)" by fastforce
    show ?thesis
    proof (cases "?ms = []")
      case True
      then show ?thesis using Some 1(2) by (subst collectHeredocBodyRanges.simps) (simp add: Let_def)
    next
      case False
      have c: "offset + k < cursor" "cursor \<le> length input" using ranges_step [OF Some False r] by auto
      have "ranges_between (offset + k) cursor rs" using ranges_loop_between [OF _ r] c by simp
      then have "ranges_between offset cursor rs" by (rule ranges_between_weaken) simp
      moreover have "ranges_between cursor (length input) (collectHeredocBodyRanges input cursor)"
        using 1(1) [of cursor] c by simp
      moreover have "collectHeredocBodyRanges input offset = rs @ collectHeredocBodyRanges input cursor"
        using Some False r by (subst collectHeredocBodyRanges.simps) (auto simp: Let_def)
      ultimately show ?thesis by (simp add: ranges_between_append)
    qed
  qed
qed

text \<open>
  The search for heredoc bodies ends on every input, and the ranges it reports lie within the input, in order and without
  overlap, so that a caller may skip them one after the other.
\<close>
theorem heredoc_ranges_are_disjoint:
  "ranges_between 0 (length input) (findHeredocBodyRanges input)"
  unfolding findHeredocBodyRanges_def by (rule collect_between) simp

section \<open>Quoted commands\<close>

definition separators :: "string list" where
  "separators = operators @ [[lf], [cr, lf]]"

definition kept_command :: "string list \<Rightarrow> bool" where
  "kept_command ws \<longleftrightarrow> ws \<noteq> [] \<and> (nonempty_words ws = [] \<or> (\<exists>w \<in> set ws. w \<noteq> [] \<and> \<not> isAssignmentPrefix w))"

subsection \<open>Line continuations\<close>

lemma fold_no_continuation: "\<not> has_continuation s \<Longrightarrow> map fst (fold_loop inS inD i s) = s"
proof (induction s arbitrary: inS inD i)
  case (Cons c s)
  then have "map fst (fold_loop a b j s) = s" for a b j using has_continuation_Cons(1) by blast
  moreover have "c = bslash \<Longrightarrow> \<not> head_is lf s \<and> \<not> (head_is cr s \<and> head_is lf (drop 1 s))"
    using Cons.prems has_continuation_Cons(2) by blast
  ultimately show ?case by auto
qed simp

lemma foldLineContinuations_id: "\<not> has_continuation s \<Longrightarrow> foldLineContinuations s = s"
  by (simp add: foldLineContinuations_def foldLineContinuationsWithSourceMap_def Let_def fold_no_continuation)

subsection \<open>No heredoc\<close>

definition heredoc_free :: "bool \<times> char \<Rightarrow> bool" where
  "heredoc_free = (\<lambda>(dq, c). dq \<or> c \<notin> {CHR ''#'', CHR ''$'', CHR ''('', CHR ''<''})"

lemma no_heredoc_loop: "list_all heredoc_free (active q (drop i s)) \<Longrightarrow> first_body_loop s q i = None"
proof (induction i arbitrary: q rule: position_induct [where n = "length s"])
  case (1 i)
  show ?case
  proof (cases "i < length s")
    case True
    then have d: "drop i s = s ! i # drop (i + 1) s" by (simp add: Cons_nth_drop_Suc)
    show ?thesis
    proof (cases "quote_class q (s ! i) \<noteq> QOther \<or> inSingle q \<or> inDouble q")
      case q: True
      then have "list_all heredoc_free (active (quote_next q (s ! i)) (drop (i + 1) s))"
        using 1(2) unfolding d by (auto split: if_splits)
      then show ?thesis using 1(1) [of "i + 1"] q True by (subst first_body_loop.simps) (simp add: Let_def)
    next
      case False
      then have "s ! i \<notin> {CHR ''#'', CHR ''$'', CHR ''('', CHR ''<''}" "list_all heredoc_free (active q (drop (i + 1) s))"
        using 1(2) unfolding d by (simp_all add: heredoc_free_def)
      moreover from this(1) have "scan_skip s i = None" using scan_skip_index [of s i] by (cases "scan_skip s i") auto
      moreover from calculation(1) have "parseHeredocMarkerAt s i = None"
        using parseHeredocMarkerAt_index [of s i] by (cases "parseHeredocMarkerAt s i") auto
      ultimately show ?thesis using 1(1) [of "i + 1"] False True by (subst first_body_loop.simps) (simp add: Let_def)
    qed
  qed (simp add: first_body_loop.simps)
qed

lemma active_quote_chars: "active quoted_state (quote_chars w @ squote # rest) = active unquoted rest"
  by (induction w) simp_all

lemma active_shell_quote: "active unquoted (shell_quote w @ rest) = active unquoted rest"
  by (simp add: shell_quote_def active_quote_chars)

lemma active_command_text: "ws \<noteq> [] \<Longrightarrow> list_all heredoc_free (active unquoted (command_text ws @ rest)) = list_all heredoc_free (active unquoted rest)"
proof (induction ws rule: command_text_induct)
  case (more w ws)
  then show ?case by (simp add: command_text_Cons active_shell_quote) (simp add: heredoc_free_def)
qed (simp add: command_text_Cons active_shell_quote)

lemma active_separator:
  "op \<in> set separators \<Longrightarrow>
   list_all heredoc_free (active unquoted ('' '' @ op @ '' '' @ rest)) = list_all heredoc_free (active unquoted rest)"
  by (auto simp: separators_def operators_def quote_class_def heredoc_free_def)

lemma active_script_text:
  "ws \<noteq> [] \<Longrightarrow> \<forall>(op, c) \<in> set others. op \<in> set separators \<and> c \<noteq> [] \<Longrightarrow>
   list_all heredoc_free (active unquoted (script_text ws others))"
proof (induction ws others rule: script_text.induct)
  case (1 ws)
  then show ?case using active_command_text [of ws "[]"] by simp
next
  case (2 ws op ws' others)
  then show ?case
    using active_command_text [of ws] active_separator [of op] by (simp del: active.simps append_Cons)
qed

subsection \<open>Segments\<close>

lemma split_quote_chars:
  "split_loop quoted_state segs cur (quote_chars w @ squote # rest) = split_loop unquoted segs (cur @ quote_chars w @ [squote]) rest"
  by (induction w arbitrary: cur) simp_all

lemma split_shell_quote:
  "split_loop unquoted segs cur (shell_quote w @ rest) = split_loop unquoted segs (cur @ shell_quote w) rest"
  by (simp add: shell_quote_def split_quote_chars)

lemma split_blank: "split_loop unquoted segs cur (CHR '' '' # rest) = split_loop unquoted segs (cur @ '' '') rest"
  by simp

lemma split_command_text:
  "ws \<noteq> [] \<Longrightarrow> split_loop unquoted segs cur (command_text ws @ rest) = split_loop unquoted segs (cur @ command_text ws) rest"
proof (induction ws arbitrary: cur rule: command_text_induct)
  case (more w ws)
  then show ?case by (simp add: command_text_Cons split_shell_quote split_blank del: split_loop.simps)
qed (simp add: command_text_Cons split_shell_quote)

lemma split_separator:
  "op \<in> set separators \<Longrightarrow>
   split_loop unquoted segs cur ('' '' @ op @ '' '' @ rest) = split_loop unquoted (flush_segment segs (cur @ '' '')) '' '' rest"
  by (auto simp: separators_def operators_def quote_class_def head_is_def)

lemma flush_command_text:
  assumes "ws \<noteq> []" "a \<in> {[], '' ''}" "b \<in> {[], '' ''}"
  shows "flush_segment segs (a @ command_text ws @ b) = segs @ [command_text ws]"
  using trim_command_text [OF assms] command_text_ends [OF assms(1)] by (auto simp: flush_segment_def Let_def)

lemma split_script_text:
  "ws \<noteq> [] \<Longrightarrow> a \<in> {[], '' ''} \<Longrightarrow> \<forall>(op, c) \<in> set others. op \<in> set separators \<and> c \<noteq> [] \<Longrightarrow>
   split_loop unquoted segs a (script_text ws others) = segs @ map command_text (ws # map snd others)"
proof (induction ws others arbitrary: segs a rule: script_text.induct)
  case (1 ws)
  then have "split_loop unquoted segs a (command_text ws) = split_loop unquoted segs (a @ command_text ws) []"
    using split_command_text [of ws segs a "[]"] by (simp del: split_loop.simps)
  then show ?case using 1 flush_command_text [of ws a "[]" segs] by simp
next
  case (2 ws op ws' others)
  have "split_loop unquoted segs a (script_text ws ((op, ws') # others)) =
      split_loop unquoted segs (a @ command_text ws) ('' '' @ op @ '' '' @ script_text ws' others)"
    using 2 split_command_text [of ws segs a] by (simp del: split_loop.simps append_Cons)
  also have "\<dots> = split_loop unquoted (flush_segment segs (a @ command_text ws @ '' '')) '' '' (script_text ws' others)"
    using 2 split_separator [of op segs "a @ command_text ws"] by simp
  also have "flush_segment segs (a @ command_text ws @ '' '') = segs @ [command_text ws]"
    using 2 by (intro flush_command_text) auto
  finally show ?case using 2 by (simp del: split_loop.simps)
qed

lemma clean_command_text:
  assumes "kept_command ws"
  shows "clean_segment (command_text ws) = Some (command_text ws)"
proof -
  have ne: "ws \<noteq> []" using assms by (simp add: kept_command_def)
  then obtain mid where m: "command_text ws = squote # mid" using command_text_ends by blast
  have t: "js_trim (command_text ws) = command_text ws" using trim_command_text [OF ne, of "[]" "[]"] by simp
  have "\<not> isAssignmentOnlySegment (command_text ws)"
    using assms ne by (auto simp: isAssignmentOnlySegment_def t shellTokenize_command_text kept_command_def list_all_iff Let_def filter_empty_conv)
  moreover have "keyword_loop (command_text ws) = Some (command_text ws)"
    by (simp add: m keyword_loop.simps first_word_def Let_def STANDALONE_SHELL_KEYWORDS_def SEGMENT_DROP_KEYWORDS_def LEADING_SHELL_KEYWORDS_def)
  then have "stripLeadingShellKeyword (command_text ws) = Some (command_text ws)"
    using t m by (simp add: stripLeadingShellKeyword_def Let_def)
  ultimately show ?thesis by (simp add: clean_segment_def) (simp add: m head_is_def)
qed

lemma map_filter_Some: "\<forall>x \<in> set xs. f x = Some (g x) \<Longrightarrow> List.map_filter f xs = map g xs"
  by (induction xs) (simp_all add: map_filter_simps)

text \<open>C11: 
  A script of quoted commands joined by any of the separators, newlines included, is split into exactly those commands, in
  their order and with their quoting intact, whatever characters their words hold.  The commands must not consist of
  assignments alone, and the script must not hold a backslash at the end of a line.
\<close>
theorem quoted_scripts_split_into_their_commands:
  assumes "kept_command ws" "\<forall>(op, c) \<in> set others. op \<in> set separators \<and> kept_command c"
    "\<not> has_continuation (script_text ws others)"
  shows "splitCommand (script_text ws others) = map command_text (ws # map snd others)"
proof -
  have ne: "ws \<noteq> []" "\<forall>(op, c) \<in> set others. op \<in> set separators \<and> c \<noteq> []"
    using assms by (auto simp: kept_command_def)
  have "findFirstHeredocBodyStart (script_text ws others) = None"
    unfolding findFirstHeredocBodyStart_def by (rule no_heredoc_loop) (simp add: active_script_text [OF ne])
  moreover have "split_loop unquoted [] [] (script_text ws others) = map command_text (ws # map snd others)"
    using split_script_text [OF ne(1) _ ne(2), of "[]" "[]"] by simp
  moreover have "List.map_filter clean_segment (map command_text (ws # map snd others)) = map (\<lambda>c. c) (map command_text (ws # map snd others))"
    by (rule map_filter_Some) (use assms in \<open>auto simp: clean_command_text\<close>)
  ultimately show ?thesis
    using assms(3) by (simp add: splitCommand.simps splitCommandWithoutHeredoc_def foldLineContinuations_id Let_def del: split_loop.simps)
qed

text \<open>Two lines, with a separator and a heredoc operator inside words.\<close>
theorem quoted_scripts_split_into_their_commands_witness:
  "splitCommand (script_text [''echo'', ''a; b << EOF''] [([lf], [''rm'', ''x'' @ [lf] @ ''y''])]) =
     [command_text [''echo'', ''a; b << EOF''], command_text [''rm'', ''x'' @ [lf] @ ''y'']]"
proof -
  have a: "kept_command [''echo'', ''a; b << EOF'']" by code_simp
  have b: "\<forall>(op, c) \<in> set [([lf], [''rm'', ''x'' @ [lf] @ ''y''])]. op \<in> set separators \<and> kept_command c" by code_simp
  have c: "\<not> has_continuation (script_text [''echo'', ''a; b << EOF''] [([lf], [''rm'', ''x'' @ [lf] @ ''y''])])" by code_simp
  show ?thesis using quoted_scripts_split_into_their_commands [OF a b c] by (simp only: list.map snd_conv)
qed

section \<open>Subcommands hold no separator\<close>

text \<open>A character that does not separate commands where it stands.\<close>

definition joined :: "bool \<times> char \<Rightarrow> bool" where
  "joined = (\<lambda>(dq, c). dq \<or> c \<notin> {CHR '';'', CHR ''|'', lf})"

lemma active_append: "active q (s @ t) = active q s @ active (quote_end q s) t"
  by (induction s arbitrary: q) simp_all

lemma quote_end_append: "quote_end q (s @ t) = quote_end (quote_end q s) t"
  by (induction s arbitrary: q) simp_all

text \<open>Text that starts outside quotes and of which only neutral characters were cut off at the front, and anything at the
  back, still starts outside quotes.\<close>

definition neutral :: "char \<Rightarrow> bool" where
  "neutral c \<longleftrightarrow> c \<noteq> squote \<and> c \<noteq> dquote \<and> c \<noteq> bslash"

lemma neutral_step: "neutral c \<Longrightarrow> quote_class unquoted c = QOther"
  by (simp add: neutral_def quote_class_def)

lemma active_neutral:
  "list_all neutral a \<Longrightarrow> active unquoted (a @ s) = map (\<lambda>c. (False, c)) a @ active unquoted s"
  by (induction a) (simp_all add: neutral_step)

lemma quote_end_neutral: "list_all neutral a \<Longrightarrow> quote_end unquoted a = unquoted"
  by (induction a) (simp_all add: neutral_step)

lemma joined_sub:
  "list_all joined (active unquoted (a @ s @ b)) \<Longrightarrow> list_all neutral a \<Longrightarrow> list_all joined (active unquoted s)"
  by (simp add: active_append quote_end_neutral)

lemma space_neutral: "js_space c \<Longrightarrow> neutral c"
  by (auto simp: js_space_def neutral_def)

lemma trim_parts: "\<exists>a b. s = a @ js_trim s @ b \<and> list_all js_space a"
proof -
  let ?d = "dropWhile js_space s"
  have "s = takeWhile js_space s @ ?d" by simp
  moreover have "?d = rev (dropWhile js_space (rev ?d)) @ rev (takeWhile js_space (rev ?d))"
    by (metis rev_append rev_rev_ident takeWhile_dropWhile_id)
  moreover have "list_all js_space (takeWhile js_space s)" by (auto simp: list_all_iff dest: set_takeWhileD)
  ultimately show ?thesis unfolding js_trim_def by metis
qed

abbreviation joined_text :: "string \<Rightarrow> bool" where
  "joined_text s \<equiv> list_all joined (active unquoted s)"

lemma joined_trim: "joined_text s \<Longrightarrow> joined_text (js_trim s)"
proof -
  assume j: "joined_text s"
  obtain a b where p: "s = a @ js_trim s @ b" "list_all js_space a" using trim_parts by blast
  then have "list_all neutral a" by (auto simp: list_all_iff intro: space_neutral)
  with j p(1) show ?thesis using joined_sub by metis
qed

lemma joined_drop_neutral: "joined_text (a @ s) \<Longrightarrow> list_all neutral a \<Longrightarrow> joined_text s"
  by (simp add: active_neutral)

lemma joined_brackets: "joined_text s \<Longrightarrow> joined_text (strip_brackets s)"
proof (induction s rule: strip_brackets.induct)
  case (2 c s)
  then show ?case
    using joined_drop_neutral [of "[c]" s] by (auto simp: neutral_def intro: joined_trim)
qed simp

lemma keyword_neutral:
  "w \<in> set STANDALONE_SHELL_KEYWORDS \<or> w \<in> set LEADING_SHELL_KEYWORDS \<Longrightarrow> list_all neutral w"
  by (auto simp: STANDALONE_SHELL_KEYWORDS_def LEADING_SHELL_KEYWORDS_def neutral_def)

lemma joined_after_first_word:
  assumes "joined_text s" "list_all neutral (first_word s)"
  shows "joined_text (after_first_word s)"
proof -
  let ?r = "dropWhile (\<lambda>c. \<not> js_space c) s"
  have "joined_text ?r" using assms joined_drop_neutral [of "first_word s" ?r] by (simp add: first_word_def)
  moreover have "r = [] \<or> js_space (hd r) \<Longrightarrow> list_all neutral (take 1 r)" for r
    by (cases r) (auto intro: space_neutral)
  then have "list_all neutral (take 1 ?r)" using hd_dropWhile [of "\<lambda>c. \<not> js_space c" s] by blast
  ultimately have "joined_text (drop 1 ?r)" using joined_drop_neutral [of "take 1 ?r" "drop 1 ?r"] by simp
  then show ?thesis unfolding after_first_word_def by (rule joined_trim)
qed

lemma joined_keyword: "keyword_loop s = Some r \<Longrightarrow> joined_text s \<Longrightarrow> joined_text r"
proof (induction s rule: keyword_loop.induct)
  case (1 s)
  from 1(3) show ?case
    by (subst (asm) keyword_loop.simps)
      (use 1(1) [OF _ refl] 1(2) [OF _ refl] 1(4) in
        \<open>auto simp: Let_def split: if_splits intro: joined_after_first_word keyword_neutral\<close>)
qed

lemma joined_clean: "clean_segment s = Some r \<Longrightarrow> joined_text s \<Longrightarrow> joined_text r"
  by (auto simp: clean_segment_def stripLeadingShellKeyword_def Let_def split: if_splits
    intro: joined_keyword joined_brackets joined_trim)

lemma quote_unquoted: "quote_class q ch = QOther \<Longrightarrow> \<not> inSingle q \<Longrightarrow> \<not> inDouble q \<Longrightarrow> q = unquoted"
  by (cases q) (auto simp: unquoted_def quote_class_def split: if_splits)

lemma split_loop_joined:
  "\<forall>s \<in> set segs. joined_text s \<Longrightarrow> joined_text cur \<Longrightarrow> quote_end unquoted cur = q \<Longrightarrow>
   \<forall>s \<in> set (split_loop q segs cur str). joined_text s"
proof (induction q segs cur str rule: split_loop.induct)
  case (1 q segs cur)
  then show ?case by (auto simp: flush_segment_def Let_def joined_trim)
next
  case (2 q segs cur ch rest)
  have fl: "\<forall>s \<in> set (flush_segment segs cur). joined_text s" using 2(8,9) by (auto simp: flush_segment_def Let_def joined_trim)
  have cur: "joined_text (cur @ [ch]) \<longleftrightarrow> list_all joined (active q [ch])" "quote_end unquoted (cur @ [ch]) = quote_next q ch"
    using 2(9,10) by (simp_all add: active_append quote_end_append)
  show ?case
  proof (cases "quote_class q ch \<noteq> QOther \<or> inSingle q \<or> inDouble q")
    case True
    then have "joined_text (cur @ [ch])" unfolding cur(1) by (auto simp: joined_def)
    then show ?thesis using 2(1) [OF True 2(8) _ cur(2)] True by simp
  next
    case False
    then have q: "q = unquoted" using quote_unquoted by blast
    have fresh: "joined_text []" "quote_end unquoted [] = q" by (simp_all add: q)
    have keep: "ch \<notin> {CHR '';'', CHR ''|'', lf} \<Longrightarrow> joined_text (cur @ [ch])" "quote_end unquoted (cur @ [ch]) = q"
      using False unfolding cur by (simp_all add: joined_def)
    show ?thesis
      using 2(2) [OF False _ fl fresh] 2(3) [OF False _ _ fl fresh] 2(4) [OF False _ _ _ fl fresh]
        2(5) [OF False _ _ _ _ fl fresh] 2(6) [OF False _ _ _ _ _ fl fresh]
        2(7) [OF False _ _ _ _ _ 2(8) keep] False
      by (auto simp: split: if_splits)
  qed
qed

lemma splitCommandWithoutHeredoc_joined: "c \<in> set (splitCommandWithoutHeredoc input) \<Longrightarrow> joined_text c"
  using split_loop_joined [of "[]" "[]" unquoted "foldLineContinuations input"]
  by (auto simp: splitCommandWithoutHeredoc_def Let_def map_filter_def intro: joined_clean)

text \<open>C30: 
  No subcommand of a command without heredocs holds a separator: outside quotes and escapes there is no semicolon, pipe or
  newline left in it, so that each is one command of the script and is judged as such.
\<close>
theorem subcommands_hold_no_separator:
  assumes "findFirstHeredocBodyStart input = None" "c \<in> set (splitCommand input)"
  shows "list_all joined (active unquoted c)"
  using assms by (simp add: splitCommand.simps splitCommandWithoutHeredoc_joined)

text \<open>The example of the source, with a separator inside quotes.\<close>
theorem subcommands_hold_no_separator_witness:
  "list_all joined (active unquoted (''echo '' @ [dquote] @ ''a && b; c'' @ [dquote]))"
proof -
  let ?i = "''echo '' @ [dquote] @ ''a && b; c'' @ [dquote] @ ''; ls''"
  have a: "findFirstHeredocBodyStart ?i = None" by code_simp
  have b: "''echo '' @ [dquote] @ ''a && b; c'' @ [dquote] \<in> set (splitCommand ?i)" by code_simp
  show ?thesis by (rule subcommands_hold_no_separator [OF a b])
qed

section \<open>Examples and exceptions\<close>

text \<open>The examples that the comment of \<^verbatim>\<open>splitCommand\<close> gives hold.\<close>
theorem documented_splits:
  "splitCommand ''git add . && npm publish'' = [''git add .'', ''npm publish''] \<and>
   splitCommand (''echo '' @ [dquote] @ ''a && b'' @ [dquote] @ ''; ls'') = [''echo '' @ [dquote] @ ''a && b'' @ [dquote], ''ls''] \<and>
   splitCommand ''if ps -p 1; then kill 1; fi'' = [''ps -p 1'', ''kill 1''] \<and>
   splitCommand (''source /tmp/env'' @ [lf] @ ''kill 1'' @ [lf] @ ''ps -p 1'') = [''source /tmp/env'', ''kill 1'', ''ps -p 1'']"
  by (intro conjI; code_simp)

text \<open>
  A \<^verbatim>\<open>case\<close> header is dropped with everything up to the next separator.  The first arm of a \<^verbatim>\<open>case\<close> on one line stands there,
  so its command is never seen: the split yields no subcommand at all.  The same holds for a command substitution in an
  assignment.
\<close>
theorem case_arm_is_dropped:
  "splitCommand ''case x in x) rm -rf y;; esac'' = [] \<and> splitCommand ''X=$(reboot)'' = []"
  by (intro conjI; code_simp)

text \<open>A single ampersand also ends a command, but it does not split: the second command is part of the first.\<close>
theorem background_is_not_split:
  "splitCommand ''ls & rm -rf y'' = [''ls & rm -rf y'']"
  by code_simp

text \<open>
  Folding is to leave single-quoted text alone, but it takes an escaped quote for a quote: after it, text inside single
  quotes counts as outside, and a backslash and newline in it become a blank.
\<close>
theorem fold_changes_quoted_text:
  "foldLineContinuations (command_text [[squote, bslash, lf]]) = [squote, squote, bslash, squote, squote, CHR '' '', squote] \<and>
   shellTokenize (command_text [[squote, bslash, lf]]) = [[squote, bslash, lf]] \<and>
   shellTokenize (foldLineContinuations (command_text [[squote, bslash, lf]])) = [[squote, CHR '' '']]"
  by (intro conjI; code_simp)

end
