(* ===== verification/Context_Tokens.thy ===== *)
theory Context_Tokens
  imports Js_Text
begin

text \<open>
  Token accounting for the context manager (\<^verbatim>\<open>context-manager/src/token-estimator.ts\<close>, \<^verbatim>\<open>settings.ts\<close>,
  \<^verbatim>\<open>provider-budget.ts\<close>): the estimate of a message, the estimate of a transcript from provider usage, the cache of
  text estimates, the threshold of compaction and the budgets of a provider request.

  Parameters are the exact tokeniser (a package, which may throw), SHA-256 (Node's crypto module) and the Unicode classes of
  letters and numbers.  A tool call's arguments are known to the code only through \<^verbatim>\<open>JSON.stringify\<close>, so the model keeps
  what that returned: text, \<^verbatim>\<open>undefined\<close>, or that it threw.
\<close>

section \<open>Messages\<close>

datatype JsonOutcome = JsonText utext | JsonUndefined | JsonThrew

datatype ContentBlock =
    TextBlock utext
  | ThinkingBlock utext
  | ToolCallBlock string utext JsonOutcome
  | ImageBlock
  | VideoBlock
  | OtherBlock

datatype MessageContent = ContentText utext | ContentBlocks "ContentBlock list" | ContentOther

record AssistantUsageRef =
  au_input :: int
  au_output :: int
  au_cacheRead :: int
  au_cacheWrite :: int
  au_totalTokens :: int

datatype AgentMessage =
    UserMessage MessageContent jsnum
  | AssistantMessage "ContentBlock list" "AssistantUsageRef option" "string option" jsnum
  | ToolResultMessage string MessageContent jsnum
  | CustomMessage MessageContent jsnum
  | BashExecutionMessage "utext option" "utext option" jsnum
  | BranchSummaryMessage "utext option" jsnum
  | CompactionSummaryMessage utext int jsnum "jsnum option"
  | OtherMessage jsnum

fun message_timestamp :: "AgentMessage \<Rightarrow> jsnum" where
  "message_timestamp (UserMessage _ t) = t"
| "message_timestamp (AssistantMessage _ _ _ t) = t"
| "message_timestamp (ToolResultMessage _ _ t) = t"
| "message_timestamp (CustomMessage _ t) = t"
| "message_timestamp (BashExecutionMessage _ _ t) = t"
| "message_timestamp (BranchSummaryMessage _ t) = t"
| "message_timestamp (CompactionSummaryMessage _ _ t _) = t"
| "message_timestamp (OtherMessage t) = t"

section \<open>Text\<close>

definition MESSAGE_STRUCTURAL_OVERHEAD :: int where
  "MESSAGE_STRUCTURAL_OVERHEAD = 4"

definition VISUAL_TOKEN_STAND_IN :: int where
  "VISUAL_TOKEN_STAND_IN = 4800"

definition MAX_EXACT_TOKENIZER_CHARS :: nat where
  "MAX_EXACT_TOKENIZER_CHARS = 4096"

definition MAX_INLINE_CACHE_KEY_UNITS :: nat where
  "MAX_INLINE_CACHE_KEY_UNITS = 256"

definition MAX_CACHED_TEXT_ENTRIES :: nat where
  "MAX_CACHED_TEXT_ENTRIES = 2048"

text \<open>The tokeniser (\<open>None\<close>: it threw), the hash of a text as hexadecimal digits, and the class \<^verbatim>\<open>[\p{L}\p{N}]\<close>.\<close>

record Tokenization =
  tz_count :: "utext \<Rightarrow> jsnum option"
  tz_sha256 :: "utext \<Rightarrow> utext"
  tz_letter_or_number :: "nat \<Rightarrow> bool"

definition isLetterOrNumber :: "Tokenization \<Rightarrow> nat \<Rightarrow> bool" where
  "isLetterOrNumber tz codePoint =
     (if codePoint \<le> 127
      then 48 \<le> codePoint \<and> codePoint \<le> 57 \<or> 65 \<le> codePoint \<and> codePoint \<le> 90 \<or> 97 \<le> codePoint \<and> codePoint \<le> 122
      else tz_letter_or_number tz codePoint)"

fun oversized_loop :: "Tokenization \<Rightarrow> nat \<Rightarrow> nat list \<Rightarrow> bool" where
  "oversized_loop tz runLength [] = False"
| "oversized_loop tz runLength (c # cs) =
     (if \<not> isLetterOrNumber tz c then oversized_loop tz 0 cs
      else if runLength + 1 > MAX_EXACT_TOKENIZER_CHARS then True
      else oversized_loop tz (runLength + 1) cs)"

definition hasOversizedAlphanumericRun :: "Tokenization \<Rightarrow> utext \<Rightarrow> bool" where
  "hasOversizedAlphanumericRun tz t = oversized_loop tz 0 (code_points t)"

definition estimateTextTokensUpperBound :: "utext \<Rightarrow> int" where
  "estimateTextTokensUpperBound t = int (length (utf8_encode t))"

definition safeJsonStringify :: "JsonOutcome \<Rightarrow> utext" where
  "safeJsonStringify v =
     (case v of JsonText t \<Rightarrow> t | JsonUndefined \<Rightarrow> ascii_text ''undefined'' | JsonThrew \<Rightarrow> ascii_text ''[unserializable]'')"

text \<open>The cache, a \<^verbatim>\<open>Map\<close> in insertion order, and the estimate of a text with it.\<close>

type_synonym TextCache = "(utext \<times> int) list"

definition cache_key :: "Tokenization \<Rightarrow> utext \<Rightarrow> utext" where
  "cache_key tz t =
     (if length t \<le> MAX_INLINE_CACHE_KEY_UNITS then ascii_text ''text:'' @ t else ascii_text ''sha256:'' @ tz_sha256 tz t)"

definition make_room :: "TextCache \<Rightarrow> TextCache" where
  "make_room cache =
     (if length cache \<ge> MAX_CACHED_TEXT_ENTRIES
      then (case cache of [] \<Rightarrow> cache | (oldest, _) # _ \<Rightarrow> AList.delete oldest cache) else cache)"

definition estimateTextTokens :: "Tokenization \<Rightarrow> TextCache \<Rightarrow> utext \<Rightarrow> int \<times> TextCache" where
  "estimateTextTokens tz cache t =
     (if t = [] then (0, cache)
      else
        (let key = cache_key tz t in
         case map_of cache key of
           Some cached \<Rightarrow> (cached, AList.update key cached (AList.delete key cache))
         | None \<Rightarrow>
             if length t > MAX_EXACT_TOKENIZER_CHARS \<and> hasOversizedAlphanumericRun tz t
             then (estimateTextTokensUpperBound t, cache)
             else case tz_count tz t of
                 Some (NInt tokens) \<Rightarrow>
                   if tokens < 0 then (estimateTextTokensUpperBound t, cache)
                   else (tokens, AList.update key tokens (make_room cache))
               | _ \<Rightarrow> (estimateTextTokensUpperBound t, cache)))"

section \<open>Messages and transcripts\<close>

datatype MessagePart = PartText utext | PartVisual

definition isVisualContentBlock :: "ContentBlock \<Rightarrow> bool" where
  "isVisualContentBlock b = (b = ImageBlock \<or> b = VideoBlock)"

definition block_parts :: "ContentBlock \<Rightarrow> MessagePart list" where
  "block_parts b = (case b of TextBlock t \<Rightarrow> [PartText t] | _ \<Rightarrow> if isVisualContentBlock b then [PartVisual] else [])"

definition content_parts :: "MessageContent \<Rightarrow> MessagePart list" where
  "content_parts c =
     (case c of ContentText t \<Rightarrow> [PartText t] | ContentBlocks bs \<Rightarrow> concat (map block_parts bs) | ContentOther \<Rightarrow> [])"

fun assistant_parts :: "ContentBlock \<Rightarrow> MessagePart list" where
  "assistant_parts (TextBlock t) = [PartText t]"
| "assistant_parts (ThinkingBlock t) = [PartText t]"
| "assistant_parts (ToolCallBlock _ name arguments) = [PartText name, PartText (safeJsonStringify arguments)]"
| "assistant_parts _ = []"

text \<open>The texts and visual blocks that \<^verbatim>\<open>estimateMessage\<close> adds up, in its order.\<close>

fun message_parts :: "AgentMessage \<Rightarrow> MessagePart list" where
  "message_parts (UserMessage c _) = content_parts c"
| "message_parts (AssistantMessage bs _ _ _) = concat (map assistant_parts bs)"
| "message_parts (ToolResultMessage _ c _) = content_parts c"
| "message_parts (CustomMessage c _) = content_parts c"
| "message_parts (BashExecutionMessage command output _) = [PartText (nullish command []), PartText (nullish output [])]"
| "message_parts (BranchSummaryMessage summary _) = [PartText (nullish summary [])]"
| "message_parts (CompactionSummaryMessage summary _ _ _) = [PartText summary]"
| "message_parts (OtherMessage _) = []"

type_synonym 's text_estimator = "'s \<Rightarrow> utext \<Rightarrow> int \<times> 's"

fun parts_tokens :: "'s text_estimator \<Rightarrow> 's \<Rightarrow> int \<Rightarrow> MessagePart list \<Rightarrow> int \<times> 's" where
  "parts_tokens est s tokens [] = (tokens, s)"
| "parts_tokens est s tokens (PartText t # parts) = (case est s t of (n, s') \<Rightarrow> parts_tokens est s' (tokens + n) parts)"
| "parts_tokens est s tokens (PartVisual # parts) = parts_tokens est s (tokens + VISUAL_TOKEN_STAND_IN) parts"

definition estimateMessage :: "'s text_estimator \<Rightarrow> 's \<Rightarrow> AgentMessage \<Rightarrow> int \<times> 's" where
  "estimateMessage est s message = parts_tokens est s MESSAGE_STRUCTURAL_OVERHEAD (message_parts message)"

fun messages_loop :: "'s text_estimator \<Rightarrow> 's \<Rightarrow> int \<Rightarrow> AgentMessage list \<Rightarrow> int \<times> 's" where
  "messages_loop est s acc [] = (acc, s)"
| "messages_loop est s acc (m # ms) = (case estimateMessage est s m of (n, s') \<Rightarrow> messages_loop est s' (acc + n) ms)"

definition estimateMessages :: "'s text_estimator \<Rightarrow> 's \<Rightarrow> AgentMessage list \<Rightarrow> int \<times> 's" where
  "estimateMessages est s messages = messages_loop est s 0 messages"

definition calculateContextTokens :: "AssistantUsageRef \<Rightarrow> int" where
  "calculateContextTokens usage =
     (if au_totalTokens usage \<noteq> 0 then au_totalTokens usage
      else au_input usage + au_output usage + au_cacheRead usage + au_cacheWrite usage)"

definition getAssistantUsage :: "AgentMessage \<Rightarrow> AssistantUsageRef option" where
  "getAssistantUsage message =
     (case message of
        AssistantMessage _ usage stopReason _ \<Rightarrow>
          if stopReason = Some ''aborted'' \<or> stopReason = Some ''error'' then None else usage
      | _ \<Rightarrow> None)"

definition is_compaction_summary :: "AgentMessage \<Rightarrow> bool" where
  "is_compaction_summary m = (case m of CompactionSummaryMessage _ _ _ _ \<Rightarrow> True | _ \<Rightarrow> False)"

definition safe_integer :: "int \<Rightarrow> bool" where
  "safe_integer i = (\<bar>i\<bar> \<le> 9007199254740991)"

text \<open>Where fresh usage may begin: the first index, and the time after which a legacy transcript's usage counts.  \<open>None\<close>: no
  usage may be trusted.\<close>

definition freshness :: "AgentMessage list \<Rightarrow> (nat \<times> int option) option" where
  "freshness messages =
     (case find_down (\<lambda>i. is_compaction_summary (messages ! i)) 0 (length messages) of
        None \<Rightarrow> Some (0, None)
      | Some i \<Rightarrow>
          (case messages ! i of
             CompactionSummaryMessage _ _ timestamp (Some keptCount) \<Rightarrow>
               (case keptCount of
                  NInt k \<Rightarrow> if \<not> safe_integer k \<or> k < 0 then None else Some (i + 1 + nat k, None)
                | _ \<Rightarrow> None)
           | CompactionSummaryMessage _ _ timestamp None \<Rightarrow>
               (case timestamp of NInt t \<Rightarrow> Some (i + 1, Some t) | _ \<Rightarrow> None)
           | _ \<Rightarrow> Some (0, None)))"

definition fresh_usage :: "int option \<Rightarrow> AgentMessage \<Rightarrow> bool" where
  "fresh_usage compactedAt message =
     ((case compactedAt of
         None \<Rightarrow> True
       | Some t \<Rightarrow> (case message_timestamp message of NInt u \<Rightarrow> u > t | _ \<Rightarrow> False)) \<and>
      getAssistantUsage message \<noteq> None)"

definition getLastAssistantUsageInfo :: "AgentMessage list \<Rightarrow> (AssistantUsageRef \<times> nat) option" where
  "getLastAssistantUsageInfo messages =
     (case freshness messages of
        None \<Rightarrow> None
      | Some (firstFreshIndex, compactedAt) \<Rightarrow>
          map_option (\<lambda>i. (the (getAssistantUsage (messages ! i)), i))
            (find_down (\<lambda>i. fresh_usage compactedAt (messages ! i)) firstFreshIndex (length messages)))"

record ContextTokenEstimate =
  ce_tokens :: int
  ce_usageTokens :: int
  ce_trailingTokens :: int
  ce_lastUsageIndex :: "nat option"

definition estimateContextTokens :: "'s text_estimator \<Rightarrow> 's \<Rightarrow> AgentMessage list \<Rightarrow> ContextTokenEstimate \<times> 's" where
  "estimateContextTokens est s messages =
     (case getLastAssistantUsageInfo messages of
        None \<Rightarrow>
          (case estimateMessages est s messages of (trailing, s') \<Rightarrow>
             (\<lparr>ce_tokens = trailing, ce_usageTokens = 0, ce_trailingTokens = trailing, ce_lastUsageIndex = None\<rparr>, s'))
      | Some (usage, index) \<Rightarrow>
          (let usageTokens = calculateContextTokens usage in
           case messages_loop est s 0 (drop (index + 1) messages) of (trailingTokens, s') \<Rightarrow>
             (\<lparr>ce_tokens = usageTokens + trailingTokens, ce_usageTokens = usageTokens, ce_trailingTokens = trailingTokens,
               ce_lastUsageIndex = Some index\<rparr>, s')))"

section \<open>Thresholds and budgets\<close>

record ContextManagerSettings =
  cs_enabled :: bool
  cs_reserveTokens :: int
  cs_keepRecentTokens :: int
  cs_minMessagesToCompact :: nat
  cs_contextWindowFallback :: int
  cs_safetyMarginTokens :: int
  cs_strategyVersion :: string

definition DEFAULT_CONTEXT_MANAGER_SETTINGS :: ContextManagerSettings where
  "DEFAULT_CONTEXT_MANAGER_SETTINGS =
     \<lparr>cs_enabled = True, cs_reserveTokens = 16384, cs_keepRecentTokens = 20000, cs_minMessagesToCompact = 4,
      cs_contextWindowFallback = 128000, cs_safetyMarginTokens = 2048, cs_strategyVersion = ''agent-modules-context-manager-v1''\<rparr>"

definition positive :: "jsnum \<Rightarrow> int" where
  "positive v = (case v of NInt i \<Rightarrow> if i > 0 then i else 0 | _ \<Rightarrow> 0)"

text \<open>\<^verbatim>\<open>Math.floor(512000 * 0.9)\<close> and \<^verbatim>\<open>Math.floor(1000000 * 0.9)\<close> are exact in floating point.\<close>

definition computeCompactionTriggerAt :: "string option \<Rightarrow> int \<Rightarrow> jsnum \<Rightarrow> int \<Rightarrow> int \<Rightarrow> int" where
  "computeCompactionTriggerAt modelId contextWindow perTurnMaxTokens reserveTokens safetyMarginTokens =
     (if modelId = Some ''MiniMax-M3'' \<and> (contextWindow = 512000 \<or> contextWindow = 1000000)
      then contextWindow * 9 div 10
      else
        (let reserve = max reserveTokens (positive perTurnMaxTokens + safetyMarginTokens)
         in max 1 (contextWindow - reserve)))"

definition outputFloor :: "int \<Rightarrow> int" where
  "outputFloor configuredMaxTokens = min configuredMaxTokens (cs_reserveTokens DEFAULT_CONTEXT_MANAGER_SETTINGS)"

definition resolveDynamicMaxTokens :: "int \<Rightarrow> int \<Rightarrow> int \<Rightarrow> int" where
  "resolveDynamicMaxTokens contextWindow configuredMaxTokens estimatedContextTokens =
     (if \<not> contextWindow > 0 \<or> \<not> configuredMaxTokens > 0 then configuredMaxTokens
      else
        (let remaining = contextWindow - estimatedContextTokens - cs_safetyMarginTokens DEFAULT_CONTEXT_MANAGER_SETTINGS
         in min configuredMaxTokens (max (outputFloor configuredMaxTokens) remaining)))"

definition AUTOMATIC_TRIGGER_PERCENT :: int where
  "AUTOMATIC_TRIGGER_PERCENT = 95"

text \<open>\<open>ratio\<close> is \<^verbatim>\<open>Math.floor(w * 0.95)\<close> in floating point; the result is the input limit and the automatic trigger.\<close>

definition resolveCompactionTokenBudget :: "(int \<Rightarrow> int) \<Rightarrow> int \<Rightarrow> jsnum \<Rightarrow> int \<times> int" where
  "resolveCompactionTokenBudget ratio contextWindow configuredMaxOutputTokens =
     (let configuredOutput = positive configuredMaxOutputTokens;
          reserveTokens = cs_reserveTokens DEFAULT_CONTEXT_MANAGER_SETTINGS;
          safetyMarginTokens = cs_safetyMarginTokens DEFAULT_CONTEXT_MANAGER_SETTINGS;
          effectiveOutput = outputFloor configuredOutput;
          providerInputLimit = max 1 (min (ratio contextWindow)
            (min (contextWindow - reserveTokens) (contextWindow - effectiveOutput - safetyMarginTokens)));
          outputReserve = min configuredOutput (contextWindow div 4);
          outputReservedTrigger = (contextWindow - outputReserve) * AUTOMATIC_TRIGGER_PERCENT div 100
      in (providerInputLimit, min providerInputLimit (max 1 outputReservedTrigger)))"

text \<open>C37: 
  A request that the input limit admits fits the model's window: its input, the output budget it is given and the safety
  margin together stay within the window, the budget is never below the floor nor above the configured output, and the
  automatic trigger lies between 1 and the input limit, whatever the rounding of the ratio.
\<close>
theorem admitted_requests_fit_the_window:
  assumes "configured > 0" "resolveCompactionTokenBudget ratio window (NInt configured) = (limit, trigger)"
    "1 < limit" "estimated \<le> limit"
  shows "estimated + resolveDynamicMaxTokens window configured estimated + 2048 \<le> window \<and>
    min configured 16384 \<le> resolveDynamicMaxTokens window configured estimated \<and>
    resolveDynamicMaxTokens window configured estimated \<le> configured \<and> 1 \<le> trigger \<and> trigger \<le> limit"
proof -
  let ?f = "min configured 16384"
  let ?t = "(window - min configured (window div 4)) * 95 div 100"
  have "resolveCompactionTokenBudget ratio window (NInt configured) =
      (max 1 (min (ratio window) (min (window - 16384) (window - ?f - 2048))),
       min (max 1 (min (ratio window) (min (window - 16384) (window - ?f - 2048)))) (max 1 ?t))"
    by (simp only: resolveCompactionTokenBudget_def outputFloor_def positive_def DEFAULT_CONTEXT_MANAGER_SETTINGS_def Let_def
      ContextManagerSettings.simps jsnum.case assms(1) if_True AUTOMATIC_TRIGGER_PERCENT_def)
  then have l: "limit = max 1 (min (ratio window) (min (window - 16384) (window - ?f - 2048)))" and t: "trigger = min limit (max 1 ?t)"
    using assms(2) by (simp_all only: prod.inject)
  have "limit \<le> window - ?f - 2048" using l assms(3) by linarith
  then have r: "?f \<le> window - estimated - 2048" "0 < window" using assms(1,3,4) by linarith+
  have "resolveDynamicMaxTokens window configured estimated = min configured (window - estimated - 2048)"
    using r assms(1)
    by (simp add: resolveDynamicMaxTokens_def outputFloor_def DEFAULT_CONTEXT_MANAGER_SETTINGS_def Let_def max_absorb2)
  then show ?thesis using r t assms(1,3) by linarith
qed

text \<open>A model with a window of 200000 and 128000 configured output tokens, at its input limit.\<close>
theorem admitted_requests_fit_the_window_witness:
  "181568 + resolveDynamicMaxTokens 200000 128000 181568 + 2048 \<le> 200000"
proof -
  have "resolveCompactionTokenBudget (\<lambda>w. w * 95 div 100) 200000 (NInt 128000) = (181568, 142500)" by code_simp
  from admitted_requests_fit_the_window [OF _ this, of 181568] show ?thesis by simp
qed

section \<open>The cache is transparent\<close>

text \<open>The estimate of a text without a cache.\<close>

definition text_tokens :: "Tokenization \<Rightarrow> utext \<Rightarrow> int" where
  "text_tokens tz t =
     (if t = [] then 0
      else if length t > MAX_EXACT_TOKENIZER_CHARS \<and> hasOversizedAlphanumericRun tz t then estimateTextTokensUpperBound t
      else case tz_count tz t of
          Some (NInt n) \<Rightarrow> if n < 0 then estimateTextTokensUpperBound t else n
        | _ \<Rightarrow> estimateTextTokensUpperBound t)"

definition collision_free :: "Tokenization \<Rightarrow> bool" where
  "collision_free tz \<longleftrightarrow>
     (\<forall>t u. length t > MAX_INLINE_CACHE_KEY_UNITS \<and> length u > MAX_INLINE_CACHE_KEY_UNITS \<and> tz_sha256 tz t = tz_sha256 tz u \<longrightarrow> t = u)"

definition cached_ok :: "Tokenization \<Rightarrow> utext \<times> int \<Rightarrow> bool" where
  "cached_ok tz e \<longleftrightarrow> (\<exists>t. fst e = cache_key tz t \<and> snd e = text_tokens tz t)"

definition cache_ok :: "Tokenization \<Rightarrow> TextCache \<Rightarrow> bool" where
  "cache_ok tz cache \<longleftrightarrow>
     collision_free tz \<and> distinct (keys cache) \<and> length cache \<le> MAX_CACHED_TEXT_ENTRIES \<and> list_all (cached_ok tz) cache"

lemma cache_key_inject: "collision_free tz \<Longrightarrow> cache_key tz t = cache_key tz u \<Longrightarrow> t = u"
proof -
  assume c: "collision_free tz" and k: "cache_key tz t = cache_key tz u"
  have p: "ascii_text ''text:'' = [116, 101, 120, 116, 58]" "ascii_text ''sha256:'' = [115, 104, 97, 50, 53, 54, 58]"
    by (simp_all add: ascii_text_def)
  show "t = u"
  proof (cases "length t \<le> MAX_INLINE_CACHE_KEY_UNITS \<or> length u \<le> MAX_INLINE_CACHE_KEY_UNITS")
    case True
    then show ?thesis using k by (auto simp: cache_key_def p split: if_splits)
  next
    case False
    then have "tz_sha256 tz t = tz_sha256 tz u" using k by (simp add: cache_key_def)
    then show ?thesis using c False unfolding collision_free_def by (meson not_le)
  qed
qed

lemma text_tokens_nonneg: "0 \<le> text_tokens tz t"
  by (simp add: text_tokens_def estimateTextTokensUpperBound_def split: option.split jsnum.split)

lemma set_update_subset: "set (AList.update k v m) \<subseteq> insert (k, v) (set m)"
  by (induction m) auto

lemma set_delete_subset: "set (AList.delete k m) \<subseteq> set m"
  by (auto simp: AList.delete_eq)

lemma length_delete_le: "length (AList.delete k m) \<le> length m"
  by (simp add: AList.delete_eq)

lemma length_delete_less: "k \<in> set (keys m) \<Longrightarrow> length (AList.delete k m) < length m"
  by (auto simp: AList.delete_eq intro: length_filter_less)

lemma length_update_new: "k \<notin> set (keys m) \<Longrightarrow> length (AList.update k v m) = Suc (length m)"
  by (induction m) auto

lemma keys_delete: "keys (AList.delete k m) = filter (\<lambda>x. x \<noteq> k) (keys m)"
  by (induction m) auto

lemma cache_ok_delete: "cache_ok tz c \<Longrightarrow> cache_ok tz (AList.delete k c)"
  using set_delete_subset [of k c] length_delete_le [of k c]
  by (auto simp: cache_ok_def keys_delete list_all_iff)

lemma cache_ok_add:
  assumes "cache_ok tz c" "k \<notin> set (keys c)" "length c < MAX_CACHED_TEXT_ENTRIES" "cached_ok tz (k, n)"
  shows "cache_ok tz (AList.update k n c)"
  using assms set_update_subset [of k n c]
  by (auto simp: cache_ok_def length_update_new list_all_iff)

lemma make_room_ok:
  assumes ok: "cache_ok tz c"
  shows "cache_ok tz (make_room c)" "length (make_room c) < MAX_CACHED_TEXT_ENTRIES" "set (keys (make_room c)) \<subseteq> set (keys c)"
proof -
  have p: "0 < MAX_CACHED_TEXT_ENTRIES" by (simp add: MAX_CACHED_TEXT_ENTRIES_def)
  have le: "length c \<le> MAX_CACHED_TEXT_ENTRIES" using ok by (simp add: cache_ok_def)
  have "make_room c = c \<or> (\<exists>k. make_room c = AList.delete k c)" by (cases c) (auto simp: make_room_def split_beta)
  then show "cache_ok tz (make_room c)" using ok cache_ok_delete by metis
  show "length (make_room c) < MAX_CACHED_TEXT_ENTRIES"
  proof (cases c)
    case (Cons e r)
    then have "length (AList.delete (fst e) c) < length c" by (intro length_delete_less) simp
    then show ?thesis using le Cons by (auto simp: make_room_def split_beta)
  qed (use p in \<open>simp add: make_room_def\<close>)
  show "set (keys (make_room c)) \<subseteq> set (keys c)"
    using \<open>make_room c = c \<or> (\<exists>k. make_room c = AList.delete k c)\<close> set_delete_subset [of _ c] by fastforce
qed

lemma estimateTextTokens_ok:
  assumes ok: "cache_ok tz cache"
  shows "fst (estimateTextTokens tz cache t) = text_tokens tz t \<and> cache_ok tz (snd (estimateTextTokens tz cache t))"
proof (cases "t = []")
  case True
  then show ?thesis using ok by (simp add: estimateTextTokens_def text_tokens_def)
next
  case False
  let ?k = "cache_key tz t"
  show ?thesis
  proof (cases "map_of cache ?k")
    case (Some n)
    then have "cached_ok tz (?k, n)" using ok by (auto simp: cache_ok_def list_all_iff dest: map_of_SomeD)
    then have n: "n = text_tokens tz t" using ok cache_key_inject by (auto simp: cached_ok_def cache_ok_def)
    have "length (AList.delete ?k cache) < MAX_CACHED_TEXT_ENTRIES"
      using ok length_delete_less [OF map_of_Some_in_keys [OF Some]] by (simp add: cache_ok_def)
    then have "cache_ok tz (AList.update ?k n (AList.delete ?k cache))"
      using ok n by (intro cache_ok_add cache_ok_delete) (auto simp: keys_delete cached_ok_def)
    then show ?thesis using Some False n by (simp add: estimateTextTokens_def Let_def)
  next
    case None
    have "cache_ok tz (AList.update ?k (text_tokens tz t) (make_room cache))"
      using make_room_ok [OF ok] None by (intro cache_ok_add) (auto simp: cached_ok_def map_of_None_iff)
    then show ?thesis using None False ok
      by (auto simp: estimateTextTokens_def text_tokens_def Let_def split: option.splits jsnum.splits)
  qed
qed

section \<open>Estimators as an interface\<close>

text \<open>The reference estimates, over an estimate of texts without state.\<close>

definition message_tokens :: "(utext \<Rightarrow> int) \<Rightarrow> AgentMessage \<Rightarrow> int" where
  "message_tokens f m =
     MESSAGE_STRUCTURAL_OVERHEAD +
     sum_list (map (\<lambda>p. case p of PartText t \<Rightarrow> f t | PartVisual \<Rightarrow> VISUAL_TOKEN_STAND_IN) (message_parts m))"

definition transcript_tokens :: "(utext \<Rightarrow> int) \<Rightarrow> AgentMessage list \<Rightarrow> int" where
  "transcript_tokens f ms = sum_list (map (message_tokens f) ms)"

definition context_tokens :: "(utext \<Rightarrow> int) \<Rightarrow> AgentMessage list \<Rightarrow> ContextTokenEstimate" where
  "context_tokens f ms =
     (case getLastAssistantUsageInfo ms of
        None \<Rightarrow> \<lparr>ce_tokens = transcript_tokens f ms, ce_usageTokens = 0, ce_trailingTokens = transcript_tokens f ms,
                 ce_lastUsageIndex = None\<rparr>
      | Some (usage, i) \<Rightarrow>
          \<lparr>ce_tokens = calculateContextTokens usage + transcript_tokens f (drop (i + 1) ms),
           ce_usageTokens = calculateContextTokens usage, ce_trailingTokens = transcript_tokens f (drop (i + 1) ms),
           ce_lastUsageIndex = Some i\<rparr>)"

text \<open>A stateful estimate of texts that always answers as a reference does, as long as its state is in order.\<close>

locale steady_estimator =
  fixes est :: "'s text_estimator" and ok :: "'s \<Rightarrow> bool" and f :: "utext \<Rightarrow> int"
  assumes steady: "ok s \<Longrightarrow> fst (est s t) = f t \<and> ok (snd (est s t))"
begin

lemma parts:
  "ok s \<Longrightarrow> fst (parts_tokens est s acc ps) =
      acc + sum_list (map (\<lambda>p. case p of PartText t \<Rightarrow> f t | PartVisual \<Rightarrow> VISUAL_TOKEN_STAND_IN) ps) \<and>
    ok (snd (parts_tokens est s acc ps))"
proof (induction ps arbitrary: s acc)
  case (Cons p ps)
  then show ?case using steady [of s] by (cases p) (simp_all add: split_beta)
qed simp

lemma message: "ok s \<Longrightarrow> fst (estimateMessage est s m) = message_tokens f m \<and> ok (snd (estimateMessage est s m))"
  using parts [of s] by (simp add: estimateMessage_def message_tokens_def)

lemma messages:
  "ok s \<Longrightarrow> fst (messages_loop est s acc ms) = acc + transcript_tokens f ms \<and> ok (snd (messages_loop est s acc ms))"
proof (induction ms arbitrary: s acc)
  case (Cons m ms)
  then show ?case using message [of s m] by (simp add: split_beta transcript_tokens_def)
qed (simp add: transcript_tokens_def)

lemma context_estimate:
  "ok s \<Longrightarrow> fst (estimateContextTokens est s ms) = context_tokens f ms \<and> ok (snd (estimateContextTokens est s ms))"
  using messages [of s 0]
  by (auto simp: estimateContextTokens_def context_tokens_def estimateMessages_def split_beta Let_def split: option.splits)

end

interpretation bpe: steady_estimator "estimateTextTokens tz" "cache_ok tz" "text_tokens tz" for tz
  by unfold_locales (rule estimateTextTokens_ok)

text \<open>Any number of estimates made one after the other on one cache.\<close>

fun estimate_run :: "Tokenization \<Rightarrow> TextCache \<Rightarrow> AgentMessage list list \<Rightarrow> ContextTokenEstimate list \<times> TextCache" where
  "estimate_run tz cache [] = ([], cache)"
| "estimate_run tz cache (ms # mss) =
     (case estimateContextTokens (estimateTextTokens tz) cache ms of (e, cache') \<Rightarrow>
        case estimate_run tz cache' mss of (es, cache'') \<Rightarrow> (e # es, cache''))"

lemma estimate_run_ok:
  "cache_ok tz cache \<Longrightarrow> fst (estimate_run tz cache mss) = map (context_tokens (text_tokens tz)) mss \<and>
     cache_ok tz (snd (estimate_run tz cache mss))"
proof (induction mss arbitrary: cache)
  case (Cons ms mss)
  then show ?case using bpe.context_estimate [of tz cache ms] by (simp add: split_beta)
qed simp

text \<open>
  The cache of text estimates is transparent and bounded: starting from an empty cache, any sequence of transcript estimates
  gives what the estimates would give without a cache, and the cache never holds more than its maximum of entries.  The hash
  of long texts must not collide.
\<close>
theorem cached_estimates_are_transparent:
  assumes "collision_free tz"
  shows "fst (estimate_run tz [] mss) = map (context_tokens (text_tokens tz)) mss \<and>
    length (snd (estimate_run tz [] mss)) \<le> MAX_CACHED_TEXT_ENTRIES"
proof -
  have "cache_ok tz []" using assms by (simp add: cache_ok_def)
  from estimate_run_ok [OF this] show ?thesis unfolding cache_ok_def by blast
qed

text \<open>A tokeniser that counts code units, with the text as its own hash, asked twice about the same transcript.\<close>
theorem cached_estimates_are_transparent_witness:
  "map ce_tokens (fst (estimate_run
     \<lparr>tz_count = (\<lambda>t. Some (NInt (int (length t)))), tz_sha256 = (\<lambda>t. t), tz_letter_or_number = (\<lambda>_. False)\<rparr> []
     [[UserMessage (ContentText [104, 105]) (NInt 0)], [UserMessage (ContentText [104, 105]) (NInt 0)]])) = [6, 6]"
proof -
  let ?tz = "\<lparr>tz_count = (\<lambda>t. Some (NInt (int (length t)))), tz_sha256 = (\<lambda>t. t), tz_letter_or_number = (\<lambda>_. False)\<rparr> :: Tokenization"
  have "collision_free ?tz" by (simp add: collision_free_def)
  from cached_estimates_are_transparent [OF this,
      of "[[UserMessage (ContentText [104, 105]) (NInt 0)], [UserMessage (ContentText [104, 105]) (NInt 0)]]"]
  have "map ce_tokens (fst (estimate_run ?tz []
      [[UserMessage (ContentText [104, 105]) (NInt 0)], [UserMessage (ContentText [104, 105]) (NInt 0)]])) =
    map ce_tokens (map (context_tokens (text_tokens ?tz))
      [[UserMessage (ContentText [104, 105]) (NInt 0)], [UserMessage (ContentText [104, 105]) (NInt 0)]])" by simp
  also have "\<dots> = [6, 6]" by code_simp
  finally show ?thesis .
qed

end
