(* ===== verification/Context_Manager.thy ===== *)
theory Context_Manager
  imports Context_Tokens
begin

text \<open>
  Compaction of a transcript before a model call (\<^verbatim>\<open>context-manager/src/manager.ts\<close>, \<^verbatim>\<open>types.ts\<close>): when to compact, where
  to cut, and what replaces the compacted messages.

  The manager's estimator is used through its interface, the estimates \<open>message_tokens\<close> and \<open>context_tokens\<close> over an
  estimate of texts.  The remote token counter, the host's summary generator and the package's \<^verbatim>\<open>generateSummary\<close> are
  parameters that may throw.  A checkpoint returns its decision, or the error of the host's \<^verbatim>\<open>beforeCompaction\<close>, together
  with the events it notified; errors of the observer are swallowed by the code and have no effect.
\<close>

section \<open>Data\<close>

datatype SkipReason =
    SkipDisabled
  | SkipNotEnoughMessages
  | SkipBelowThreshold
  | SkipNoSafeCutPoint
  | SkipDeferredByPluginHook
  | SkipTokenCountFailed
  | SkipSummaryFailed
  | SkipSummaryEmpty

fun skip_string :: "SkipReason \<Rightarrow> string" where
  "skip_string SkipDisabled = ''context_manager_disabled''"
| "skip_string SkipNotEnoughMessages = ''context_manager_not_enough_messages''"
| "skip_string SkipBelowThreshold = ''context_manager_below_threshold''"
| "skip_string SkipNoSafeCutPoint = ''context_manager_no_safe_cut_point''"
| "skip_string SkipDeferredByPluginHook = ''context_manager_deferred_by_plugin_hook''"
| "skip_string SkipTokenCountFailed = ''context_manager_token_count_failed''"
| "skip_string SkipSummaryFailed = ''context_manager_summary_failed''"
| "skip_string SkipSummaryEmpty = ''context_manager_summary_empty''"

record TriggerEvaluation =
  te_shouldCompact :: bool
  te_reason :: "SkipReason option"
  te_tokens :: int
  te_source :: string
  te_triggerAt :: int

record ContextCompactionPlan =
  pl_previousSummary :: "utext option"
  pl_compactedMessages :: "AgentMessage list"
  pl_keptMessages :: "AgentMessage list"
  pl_firstKeptIndex :: nat
  pl_boundaryStartIndex :: nat
  pl_tokensBefore :: int

text \<open>The fields of a hook input that the manager reads; the rest is only handed on.\<close>

record HookInput =
  hi_sessionId :: string
  hi_turnId :: string
  hi_phase :: string
  hi_messages :: "AgentMessage list"
  hi_modelId :: string
  hi_contextWindow :: int
  hi_maxTokens :: jsnum
  hi_apiKey :: "string option"
  hi_forwarded :: jsval

record ReplaceMetadata =
  rm_replacementId :: string
  rm_strategyVersion :: string
  rm_summary :: utext
  rm_compactedMessages :: "AgentMessage list"
  rm_keptMessages :: "AgentMessage list"
  rm_firstKeptIndex :: nat
  rm_tokensBefore :: int
  rm_tokensAfter :: int
  rm_messagesBefore :: nat
  rm_messagesAfter :: nat

datatype Decision = Skip SkipReason | ReplaceMessages "AgentMessage list" ReplaceMetadata

datatype ManagerEvent =
    TriggerEvaluated string int int bool
  | CompactionSkipped SkipReason
  | CompactionCommitted string int int nat nat
  | CompactionFailed string

text \<open>The environment: settings, the estimate of texts, the optional token counter (\<open>None\<close>: it threw) and summary generator
  (\<open>Inl\<close>: the message of its error), the package's summary function (it may throw, or return an error code and message),
  and the values the clock and the id generator give.\<close>

record ManagerEnv =
  me_settings :: ContextManagerSettings
  me_textTokens :: "utext \<Rightarrow> int"
  me_tokenCounter :: "(AgentMessage list \<Rightarrow> HookInput \<Rightarrow> (int \<times> string) option) option"
  me_summaryGenerator :: "(AgentMessage list \<Rightarrow> utext option \<Rightarrow> HookInput \<Rightarrow> int \<Rightarrow> string + utext) option"
  me_generateSummary :: "AgentMessage list \<Rightarrow> HookInput \<Rightarrow> int \<Rightarrow> string \<Rightarrow> utext option \<Rightarrow> string + (string \<times> string) + utext"
  me_now :: jsnum
  me_replacementId :: string

section \<open>Tool groups and cut points\<close>

fun tool_result_id :: "AgentMessage \<Rightarrow> string option" where
  "tool_result_id (ToolResultMessage i _ _) = Some i"
| "tool_result_id _ = None"

definition isValidFirstKeptMessage :: "AgentMessage \<Rightarrow> bool" where
  "isValidFirstKeptMessage m = (tool_result_id m = None)"

definition isHardToolGroupBoundary :: "AgentMessage \<Rightarrow> bool" where
  "isHardToolGroupBoundary m =
     (case m of UserMessage _ _ \<Rightarrow> True | BranchSummaryMessage _ _ \<Rightarrow> True | CompactionSummaryMessage _ _ _ _ \<Rightarrow> True | _ \<Rightarrow> False)"

definition is_assistant :: "AgentMessage \<Rightarrow> bool" where
  "is_assistant m = (case m of AssistantMessage _ _ _ _ \<Rightarrow> True | _ \<Rightarrow> False)"

fun block_call_ids :: "ContentBlock \<Rightarrow> string list" where
  "block_call_ids (ToolCallBlock i _ _) = [i]"
| "block_call_ids _ = []"

definition assistantToolCallIds :: "AgentMessage \<Rightarrow> string list" where
  "assistantToolCallIds m = (case m of AssistantMessage bs _ _ _ \<Rightarrow> concat (map block_call_ids bs) | _ \<Rightarrow> [])"

definition assistantHasToolCall :: "AgentMessage \<Rightarrow> string \<Rightarrow> bool" where
  "assistantHasToolCall m toolCallId = (toolCallId \<in> set (assistantToolCallIds m))"

fun group_end_loop :: "string list \<Rightarrow> nat \<Rightarrow> nat \<Rightarrow> AgentMessage list \<Rightarrow> nat" where
  "group_end_loop toolCallIds groupEnd i [] = groupEnd"
| "group_end_loop toolCallIds groupEnd i (m # ms) =
     (if isHardToolGroupBoundary m \<or> is_assistant m then groupEnd
      else case tool_result_id m of
          Some toolCallId \<Rightarrow> group_end_loop toolCallIds (if toolCallId \<in> set toolCallIds then i else groupEnd) (i + 1) ms
        | None \<Rightarrow> group_end_loop toolCallIds groupEnd (i + 1) ms)"

definition findToolGroupEnd :: "AgentMessage list \<Rightarrow> nat \<Rightarrow> string list \<Rightarrow> nat" where
  "findToolGroupEnd messages assistantIndex toolCallIds =
     group_end_loop toolCallIds assistantIndex (assistantIndex + 1) (drop (assistantIndex + 1) messages)"

definition findToolGroupStartForIndex :: "AgentMessage list \<Rightarrow> nat \<Rightarrow> nat \<Rightarrow> nat option" where
  "findToolGroupStartForIndex messages index boundaryStart =
     (case find_down (\<lambda>i. is_assistant (messages ! i) \<or> isHardToolGroupBoundary (messages ! i)) boundaryStart (index + 1) of
        None \<Rightarrow> None
      | Some i \<Rightarrow>
          if is_assistant (messages ! i) then
            (let toolCallIds = assistantToolCallIds (messages ! i) in
             if length toolCallIds = 0 then None
             else if index \<le> findToolGroupEnd messages i toolCallIds then Some i else None)
          else None)"

definition findAssistantForToolResult :: "AgentMessage list \<Rightarrow> nat \<Rightarrow> string \<Rightarrow> nat \<Rightarrow> nat option" where
  "findAssistantForToolResult messages toolResultIndex toolCallId boundaryStart =
     (case find_down (\<lambda>i. is_assistant (messages ! i) \<and> assistantHasToolCall (messages ! i) toolCallId \<or>
             isHardToolGroupBoundary (messages ! i)) boundaryStart toolResultIndex of
        None \<Rightarrow> None
      | Some i \<Rightarrow> if is_assistant (messages ! i) then Some i else None)"

function first_valid_loop :: "AgentMessage list \<Rightarrow> nat \<Rightarrow> nat \<Rightarrow> nat option" where
  "first_valid_loop messages boundaryStart i =
     (if i < length messages then
        (case tool_result_id (messages ! i) of
           Some toolCallId \<Rightarrow>
             (case findAssistantForToolResult messages i toolCallId boundaryStart of
                Some assistantIndex \<Rightarrow> Some assistantIndex
              | None \<Rightarrow> first_valid_loop messages boundaryStart (i + 1))
         | None \<Rightarrow> Some i)
      else None)"
  by pat_completeness auto
termination by (relation "measure (\<lambda>(messages, b, i). length messages - i)") auto

declare first_valid_loop.simps [simp del]

definition firstValidCutAtOrAfter :: "AgentMessage list \<Rightarrow> nat \<Rightarrow> nat \<Rightarrow> nat option" where
  "firstValidCutAtOrAfter messages index boundaryStart = first_valid_loop messages boundaryStart (max index boundaryStart)"

definition safeCutForIndex :: "AgentMessage list \<Rightarrow> nat \<Rightarrow> nat \<Rightarrow> nat option" where
  "safeCutForIndex messages index boundaryStart =
     (if length messages \<le> index then None
      else case findToolGroupStartForIndex messages index boundaryStart of
          Some toolGroupStart \<Rightarrow> Some toolGroupStart
        | None \<Rightarrow>
            (case tool_result_id (messages ! index) of
               Some toolCallId \<Rightarrow> findAssistantForToolResult messages index toolCallId boundaryStart
             | None \<Rightarrow>
                 if isValidFirstKeptMessage (messages ! index) then Some index
                 else firstValidCutAtOrAfter messages index boundaryStart))"

text \<open>The index at which the tokens counted from the end reach the amount to keep.\<close>

fun keep_loop :: "(AgentMessage \<Rightarrow> int) \<Rightarrow> AgentMessage list \<Rightarrow> nat \<Rightarrow> int \<Rightarrow> int \<Rightarrow> nat \<Rightarrow> nat option" where
  "keep_loop estimate messages boundaryStart keepRecentTokens tokens 0 = None"
| "keep_loop estimate messages boundaryStart keepRecentTokens tokens (Suc i) =
     (if i < boundaryStart then None
      else
        (let tokens' = tokens + estimate (messages ! i) in
         if tokens' \<ge> keepRecentTokens then Some i
         else keep_loop estimate messages boundaryStart keepRecentTokens tokens' i))"

definition selectFirstKeptIndex :: "AgentMessage list \<Rightarrow> nat \<Rightarrow> int \<Rightarrow> (AgentMessage \<Rightarrow> int) \<Rightarrow> nat option" where
  "selectFirstKeptIndex messages boundaryStart keepRecentTokens estimate =
     (case firstValidCutAtOrAfter messages boundaryStart boundaryStart of
        None \<Rightarrow> None
      | Some candidate \<Rightarrow>
          (case keep_loop estimate messages boundaryStart keepRecentTokens 0 (length messages) of
             Some i \<Rightarrow> safeCutForIndex messages i boundaryStart
           | None \<Rightarrow> Some candidate))"

fun compactionSummaryText :: "AgentMessage \<Rightarrow> utext option" where
  "compactionSummaryText (CompactionSummaryMessage summary _ _ _) = Some summary"
| "compactionSummaryText _ = None"

definition findLatestCompactionSummaryIndex :: "AgentMessage list \<Rightarrow> nat option" where
  "findLatestCompactionSummaryIndex messages =
     find_down (\<lambda>i. compactionSummaryText (messages ! i) \<noteq> None) 0 (length messages)"

definition selectPlan :: "ManagerEnv \<Rightarrow> AgentMessage list \<Rightarrow> int \<Rightarrow> int \<Rightarrow> ContextCompactionPlan option" where
  "selectPlan env activeMessages tokensBefore triggerAt =
     (let st = me_settings env;
          previousSummaryIndex = findLatestCompactionSummaryIndex activeMessages;
          boundaryStartIndex = (case previousSummaryIndex of Some i \<Rightarrow> i + 1 | None \<Rightarrow> 0);
          compactableCount = length activeMessages - boundaryStartIndex;
          effectiveKeepRecentTokens = min (cs_keepRecentTokens st) (max 1 triggerAt)
      in if compactableCount < cs_minMessagesToCompact st then None
         else case selectFirstKeptIndex activeMessages boundaryStartIndex effectiveKeepRecentTokens
                     (message_tokens (me_textTokens env)) of
             None \<Rightarrow> None
           | Some firstKeptIndex \<Rightarrow>
               if firstKeptIndex \<le> boundaryStartIndex \<or> length activeMessages \<le> firstKeptIndex then None
               else
                 (let compactedMessages = js_slice activeMessages boundaryStartIndex firstKeptIndex;
                      keptMessages = drop firstKeptIndex activeMessages
                  in if length compactedMessages < cs_minMessagesToCompact st \<or> length keptMessages = 0 then None
                     else Some \<lparr>pl_previousSummary =
                                 (case previousSummaryIndex of Some i \<Rightarrow> compactionSummaryText (activeMessages ! i) | None \<Rightarrow> None),
                               pl_compactedMessages = compactedMessages, pl_keptMessages = keptMessages,
                               pl_firstKeptIndex = firstKeptIndex, pl_boundaryStartIndex = boundaryStartIndex,
                               pl_tokensBefore = tokensBefore\<rparr>))"

section \<open>The checkpoint\<close>

definition evaluateTrigger :: "ManagerEnv \<Rightarrow> AgentMessage list \<Rightarrow> HookInput \<Rightarrow> TriggerEvaluation" where
  "evaluateTrigger env messages input =
     (let st = me_settings env;
          contextWindow = (if hi_contextWindow input > 0 then hi_contextWindow input else cs_contextWindowFallback st);
          triggerAt = computeCompactionTriggerAt (Some (hi_modelId input)) contextWindow (hi_maxTokens input)
            (cs_reserveTokens st) (cs_safetyMarginTokens st)
      in if \<not> cs_enabled st
         then \<lparr>te_shouldCompact = False, te_reason = Some SkipDisabled, te_tokens = 0, te_source = ''disabled'', te_triggerAt = triggerAt\<rparr>
         else if length messages \<le> 1 \<or> length messages < cs_minMessagesToCompact st
         then \<lparr>te_shouldCompact = False, te_reason = Some SkipNotEnoughMessages, te_tokens = 0, te_source = ''not_counted'',
               te_triggerAt = triggerAt\<rparr>
         else
           (let counted = (case me_tokenCounter env of
                  Some counter \<Rightarrow> counter messages input
                | None \<Rightarrow> Some (ce_tokens (context_tokens (me_textTokens env) messages), ''local_estimate''))
            in case counted of
                 None \<Rightarrow> \<lparr>te_shouldCompact = False, te_reason = Some SkipTokenCountFailed, te_tokens = 0,
                   te_source = (if me_tokenCounter env \<noteq> None then ''remote_count_tokens'' else ''local_estimate''),
                   te_triggerAt = triggerAt\<rparr>
               | Some (tokens, source) \<Rightarrow>
                   (let shouldCompact = (tokens > triggerAt) in
                    \<lparr>te_shouldCompact = shouldCompact, te_reason = (if shouldCompact then None else Some SkipBelowThreshold),
                     te_tokens = tokens, te_source = source, te_triggerAt = triggerAt\<rparr>)))"

definition generate_summary :: "ManagerEnv \<Rightarrow> HookInput \<Rightarrow> ContextCompactionPlan \<Rightarrow> string + utext" where
  "generate_summary env input plan =
     (case me_summaryGenerator env of
        Some generator \<Rightarrow>
          generator (pl_compactedMessages plan) (pl_previousSummary plan) input (cs_reserveTokens (me_settings env))
      | None \<Rightarrow>
          if \<not> truthy_str (hi_apiKey input)
          then Inl ''context_manager_summary_unavailable: missing apiKey for current model''
          else case me_generateSummary env (pl_compactedMessages plan) input (cs_reserveTokens (me_settings env))
                      (the (hi_apiKey input)) (pl_previousSummary plan) of
              Inl e \<Rightarrow> Inl e
            | Inr (Inl (code, message)) \<Rightarrow> Inl (''context_manager_summary_failed: '' @ code @ '': '' @ message)
            | Inr (Inr value) \<Rightarrow> Inr value)"

definition errorReason :: "string \<Rightarrow> string \<Rightarrow> string" where
  "errorReason p message = (if js_starts_with message (p @ '':'') then message else p @ '': '' @ message)"

definition createCompactionSummary :: "utext \<Rightarrow> int \<Rightarrow> jsnum \<Rightarrow> nat \<Rightarrow> AgentMessage" where
  "createCompactionSummary summary tokensBefore timestamp keptMessageCount =
     CompactionSummaryMessage summary tokensBefore timestamp (Some (NInt (int keptMessageCount)))"

text \<open>\<^verbatim>\<open>!summary.trim()\<close> for the white space of the language.\<close>

definition utext_space :: "nat \<Rightarrow> bool" where
  "utext_space u =
     (let c = int u in
      c \<in> {9, 10, 11, 12, 13, 32, 160, 5760, 8232, 8233, 8239, 8287, 12288, 65279} \<or> 8192 \<le> c \<and> c \<le> 8202)"

definition skip_result :: "ManagerEvent list \<Rightarrow> SkipReason \<Rightarrow> (string + Decision) \<times> ManagerEvent list" where
  "skip_result events reason = (Inr (Skip reason), events @ [CompactionSkipped reason])"

definition commit_result ::
  "ManagerEnv \<Rightarrow> AgentMessage list \<Rightarrow> ContextCompactionPlan \<Rightarrow> utext \<Rightarrow> ManagerEvent list \<Rightarrow> (string + Decision) \<times> ManagerEvent list" where
  "commit_result env activeMessages plan summary events =
     (let replacementMessages =
            createCompactionSummary summary (pl_tokensBefore plan) (me_now env) (length (pl_keptMessages plan)) # pl_keptMessages plan;
          tokensAfter = ce_tokens (context_tokens (me_textTokens env) replacementMessages)
      in (Inr (ReplaceMessages replacementMessages
            \<lparr>rm_replacementId = me_replacementId env, rm_strategyVersion = cs_strategyVersion (me_settings env), rm_summary = summary,
             rm_compactedMessages = pl_compactedMessages plan, rm_keptMessages = pl_keptMessages plan,
             rm_firstKeptIndex = pl_firstKeptIndex plan, rm_tokensBefore = pl_tokensBefore plan, rm_tokensAfter = tokensAfter,
             rm_messagesBefore = length activeMessages, rm_messagesAfter = length replacementMessages\<rparr>),
          events @ [CompactionCommitted (me_replacementId env) (pl_tokensBefore plan) tokensAfter (length activeMessages)
            (length replacementMessages)]))"

text \<open>\<open>beforeCompaction\<close>: absent, or it threw, or the answer it gave.\<close>

definition checkpointLocked ::
  "ManagerEnv \<Rightarrow> HookInput \<Rightarrow> (string + bool) option \<Rightarrow> (string + Decision) \<times> ManagerEvent list" where
  "checkpointLocked env input beforeCompaction =
     (let activeMessages = hi_messages input;
          trigger = evaluateTrigger env activeMessages input;
          events = [TriggerEvaluated (te_source trigger) (te_tokens trigger) (te_triggerAt trigger) (te_shouldCompact trigger)]
      in if \<not> te_shouldCompact trigger then skip_result events (nullish (te_reason trigger) SkipBelowThreshold)
         else case selectPlan env activeMessages (te_tokens trigger) (te_triggerAt trigger) of
             None \<Rightarrow> skip_result events SkipNoSafeCutPoint
           | Some plan \<Rightarrow>
               (case beforeCompaction of
                  Some (Inl e) \<Rightarrow> (Inl e, events)
                | Some (Inr False) \<Rightarrow> skip_result events SkipDeferredByPluginHook
                | _ \<Rightarrow>
                    (case generate_summary env input plan of
                       Inl e \<Rightarrow>
                         skip_result (events @ [CompactionFailed (errorReason ''context_manager_summary_failed'' e)]) SkipSummaryFailed
                     | Inr summary \<Rightarrow>
                         if list_all utext_space summary then skip_result events SkipSummaryEmpty
                         else commit_result env activeMessages plan summary events)))"

section \<open>Cuts respect tool calls\<close>

text \<open>A message at which the search for a tool result's call stops, and the owner of a tool result: the nearest such message
  before it.  In a well-paired transcript the owner is the assistant that made the call.\<close>

definition turn_start :: "AgentMessage \<Rightarrow> bool" where
  "turn_start m \<longleftrightarrow> is_assistant m \<or> isHardToolGroupBoundary m"

definition owner_index :: "AgentMessage list \<Rightarrow> nat \<Rightarrow> nat \<Rightarrow> nat option" where
  "owner_index ms b r = find_down (\<lambda>i. turn_start (ms ! i)) b r"

definition well_paired :: "AgentMessage list \<Rightarrow> nat \<Rightarrow> bool" where
  "well_paired ms b \<longleftrightarrow>
     (\<forall>r \<in> {b..<length ms}. case tool_result_id (ms ! r) of
        None \<Rightarrow> True
      | Some c \<Rightarrow> (case owner_index ms b r of None \<Rightarrow> False | Some a \<Rightarrow> assistantHasToolCall (ms ! a) c))"

lemma tool_result_no_start: "tool_result_id m = Some c \<Longrightarrow> \<not> turn_start m"
  by (cases m) (auto simp: turn_start_def is_assistant_def isHardToolGroupBoundary_def)

lemma call_is_assistant: "assistantHasToolCall m c \<Longrightarrow> is_assistant m \<and> assistantToolCallIds m \<noteq> []"
proof
  assume h: "assistantHasToolCall m c"
  then show "is_assistant m" by (cases m) (simp_all add: assistantHasToolCall_def assistantToolCallIds_def is_assistant_def)
  show "assistantToolCallIds m \<noteq> []" using h by (auto simp: assistantHasToolCall_def)
qed

lemma well_pairedD:
  assumes "well_paired ms b" "b \<le> r" "r < length ms" "tool_result_id (ms ! r) = Some c"
  obtains a where "owner_index ms b r = Some a" "b \<le> a" "a < r" "assistantHasToolCall (ms ! a) c"
    "\<And>j. a < j \<Longrightarrow> j < r \<Longrightarrow> \<not> turn_start (ms ! j)"
proof -
  have "case owner_index ms b r of None \<Rightarrow> False | Some a \<Rightarrow> assistantHasToolCall (ms ! a) c"
    using assms unfolding well_paired_def by (fastforce split: option.splits)
  then obtain a where a: "owner_index ms b r = Some a" "assistantHasToolCall (ms ! a) c" by (auto split: option.splits)
  then show ?thesis using that unfolding owner_index_def find_down_Some_iff by blast
qed

lemma owner_after_start: "b \<le> k \<Longrightarrow> k < r \<Longrightarrow> turn_start (ms ! k) \<Longrightarrow> owner_index ms b r = Some a \<Longrightarrow> k \<le> a"
  unfolding owner_index_def find_down_Some_iff by (metis not_le)

subsection \<open>The end of a tool group\<close>

lemma group_end_mono: "g \<le> i \<Longrightarrow> g \<le> group_end_loop ids g i ms"
proof (induction ids g i ms rule: group_end_loop.induct)
  case (2 ids g i m ms)
  then show ?case by (auto split: option.splits)
qed simp

lemma group_end_reaches:
  "i \<le> r \<Longrightarrow> r < i + length ms \<Longrightarrow> (\<And>j. j \<le> r - i \<Longrightarrow> \<not> turn_start (ms ! j)) \<Longrightarrow>
   tool_result_id (ms ! (r - i)) = Some c \<Longrightarrow> c \<in> set ids \<Longrightarrow> g \<le> i \<Longrightarrow> r \<le> group_end_loop ids g i ms"
proof (induction ids g i ms rule: group_end_loop.induct)
  case (2 ids g i m ms)
  have m: "\<not> turn_start m" using 2(5) [of 0] by simp
  show ?case
  proof (cases "r = i")
    case True
    then have "tool_result_id m = Some c" using 2(6) by simp
    then show ?thesis using m True 2(7) group_end_mono [of i "i + 1" ids ms] by (simp add: turn_start_def)
  next
    case False
    then have "i + 1 \<le> r" using 2(3) by simp
    moreover have "\<not> turn_start (ms ! j)" if "j \<le> r - (i + 1)" for j
      using 2(5) [of "Suc j"] that \<open>i + 1 \<le> r\<close> by simp
    moreover have "tool_result_id (ms ! (r - (i + 1))) = Some c"
      using 2(6) \<open>i + 1 \<le> r\<close> by (metis Suc_diff_Suc Suc_eq_plus1 less_eq_Suc_le nth_Cons_Suc)
    ultimately show ?thesis using 2(1,2,4,7,8) m by (auto simp: turn_start_def split: option.splits)
  qed
qed simp

lemma group_end_covers:
  assumes "a < r" "r < length ms" "\<And>j. a < j \<Longrightarrow> j < r \<Longrightarrow> \<not> turn_start (ms ! j)" "tool_result_id (ms ! r) = Some c" "c \<in> set ids"
  shows "r \<le> findToolGroupEnd ms a ids"
proof -
  have "\<not> turn_start (drop (a + 1) ms ! j)" if "j \<le> r - (a + 1)" for j
    using assms(1-4) that tool_result_no_start [OF assms(4)] by (cases "a + 1 + j = r") auto
  then show ?thesis
    unfolding findToolGroupEnd_def using assms by (intro group_end_reaches [where c = c]) auto
qed

subsection \<open>Safe cuts\<close>

lemma tool_group_start_assistant:
  "findToolGroupStartForIndex ms i b = Some g \<Longrightarrow> b \<le> g \<and> g \<le> i \<and> is_assistant (ms ! g)"
  by (auto simp: findToolGroupStartForIndex_def Let_def find_down_Some_iff split: option.splits if_splits)

lemma assistant_for_result_assistant:
  "findAssistantForToolResult ms i c b = Some g \<Longrightarrow> b \<le> g \<and> g < i \<and> is_assistant (ms ! g)"
  by (auto simp: findAssistantForToolResult_def find_down_Some_iff split: option.splits if_splits)

lemma safe_cut_cases:
  assumes "safeCutForIndex ms i b = Some k" "b \<le> i"
  shows "b \<le> k \<and> k \<le> i \<and> i < length ms \<and>
    (is_assistant (ms ! k) \<or> k = i \<and> tool_result_id (ms ! i) = None \<and> findToolGroupStartForIndex ms i b = None)"
  using assms tool_group_start_assistant [of ms i b] assistant_for_result_assistant [of ms i _ b]
  by (fastforce simp: safeCutForIndex_def isValidFirstKeptMessage_def split: if_splits option.splits)

lemma no_group_owner:
  assumes "well_paired ms b" "b \<le> i" "i < r" "r < length ms" "tool_result_id (ms ! r) = Some c"
    "findToolGroupStartForIndex ms i b = None" "owner_index ms b r = Some a"
  shows "i \<le> a"
proof (rule ccontr)
  assume "\<not> i \<le> a"
  then have ai: "a < i" by simp
  obtain a' where "owner_index ms b r = Some a'" "b \<le> a'" "a' < r" "assistantHasToolCall (ms ! a') c"
    "\<And>j. a' < j \<Longrightarrow> j < r \<Longrightarrow> \<not> turn_start (ms ! j)"
    using well_pairedD [OF assms(1) _ assms(4,5)] assms(2,3) by (metis le_trans less_imp_le)
  then have a: "b \<le> a" "a < r" "assistantHasToolCall (ms ! a) c" "\<And>j. a < j \<Longrightarrow> j < r \<Longrightarrow> \<not> turn_start (ms ! j)"
    using assms(7) by auto
  have "find_down (\<lambda>j. is_assistant (ms ! j) \<or> isHardToolGroupBoundary (ms ! j)) b (i + 1) = Some a"
    using a ai assms(3) call_is_assistant [OF a(3)] by (auto simp: find_down_Some_iff turn_start_def)
  moreover have "i \<le> findToolGroupEnd ms a (assistantToolCallIds (ms ! a))"
    using group_end_covers [OF a(2) assms(4) a(4) assms(5), of "assistantToolCallIds (ms ! a)"] a(3) assms(3)
    by (auto simp: assistantHasToolCall_def)
  ultimately have "findToolGroupStartForIndex ms i b = Some a"
    using call_is_assistant [OF a(3)] by (simp add: findToolGroupStartForIndex_def Let_def)
  with assms(6) show False by simp
qed

lemma safe_cut_keeps_calls:
  assumes "well_paired ms b" "safeCutForIndex ms i b = Some k" "b \<le> i" "k \<le> r" "r < length ms"
    "tool_result_id (ms ! r) = Some c" "owner_index ms b r = Some a"
  shows "k \<le> a"
proof -
  note cut = safe_cut_cases [OF assms(2,3)]
  show ?thesis
  proof (cases "is_assistant (ms ! k)")
    case True
    then have "turn_start (ms ! k)" by (simp add: turn_start_def)
    moreover have "k \<noteq> r" using tool_result_no_start [OF assms(6)] calculation by blast
    ultimately show ?thesis using owner_after_start [of b k r ms a] cut assms(4,7) by simp
  next
    case False
    then have i: "k = i" "tool_result_id (ms ! i) = None" "findToolGroupStartForIndex ms i b = None" using cut by auto
    then have "i < r" using assms(4,6) by (cases "i = r") auto
    then show ?thesis using no_group_owner [OF assms(1,3) _ assms(5,6) i(3) assms(7)] i(1) by simp
  qed
qed

section \<open>Plans\<close>

definition boundary_index :: "AgentMessage list \<Rightarrow> nat" where
  "boundary_index ms = (case findLatestCompactionSummaryIndex ms of Some i \<Rightarrow> i + 1 | None \<Rightarrow> 0)"

definition plan_of :: "AgentMessage list \<Rightarrow> int \<Rightarrow> nat \<Rightarrow> ContextCompactionPlan" where
  "plan_of ms tokensBefore k =
     \<lparr>pl_previousSummary = (case findLatestCompactionSummaryIndex ms of Some i \<Rightarrow> compactionSummaryText (ms ! i) | None \<Rightarrow> None),
      pl_compactedMessages = js_slice ms (boundary_index ms) k, pl_keptMessages = drop k ms, pl_firstKeptIndex = k,
      pl_boundaryStartIndex = boundary_index ms, pl_tokensBefore = tokensBefore\<rparr>"

lemma selectPlan_Some_iff:
  "selectPlan env ms tb trigger = Some plan \<longleftrightarrow>
     (\<exists>k. plan = plan_of ms tb k \<and> boundary_index ms < k \<and> k < length ms \<and>
        cs_minMessagesToCompact (me_settings env) \<le> k - boundary_index ms \<and>
        selectFirstKeptIndex ms (boundary_index ms) (min (cs_keepRecentTokens (me_settings env)) (max 1 trigger))
          (message_tokens (me_textTokens env)) = Some k)"
proof -
  let ?b = "boundary_index ms" and ?min = "cs_minMessagesToCompact (me_settings env)"
  let ?sel = "selectFirstKeptIndex ms ?b (min (cs_keepRecentTokens (me_settings env)) (max 1 trigger)) (message_tokens (me_textTokens env))"
  have "selectPlan env ms tb trigger =
    (if length ms - ?b < ?min then None
     else case ?sel of None \<Rightarrow> None
       | Some k \<Rightarrow> if k \<le> ?b \<or> length ms \<le> k \<or> length (js_slice ms ?b k) < ?min then None else Some (plan_of ms tb k))"
    by (simp add: selectPlan_def boundary_index_def [symmetric] plan_of_def Let_def split: option.split)
  moreover have "length (js_slice ms ?b k) = k - ?b" if "k < length ms" for k using that by (simp add: js_slice_def)
  ultimately show ?thesis by (auto split: option.splits if_splits)
qed

lemma boundary_le: "boundary_index ms \<le> length ms"
  by (auto simp: boundary_index_def findLatestCompactionSummaryIndex_def find_down_Some_iff split: option.split)

lemma no_summary_after_boundary: "boundary_index ms \<le> i \<Longrightarrow> i < length ms \<Longrightarrow> compactionSummaryText (ms ! i) = None"
  by (auto simp: boundary_index_def findLatestCompactionSummaryIndex_def find_down_Some_iff find_down_None_iff split: option.splits)

lemma first_valid_index:
  "first_valid_loop ms b i = Some k \<Longrightarrow> b \<le> i \<Longrightarrow> b \<le> k \<and> k < length ms \<and> tool_result_id (ms ! k) = None"
proof (induction i rule: position_induct [where n = "length ms"])
  case (1 i)
  from 1(2,3) show ?case
    by (subst (asm) first_valid_loop.simps)
      (auto split: if_splits option.splits dest!: 1(1) [rotated 2] assistant_for_result_assistant simp: is_assistant_def
        split: AgentMessage.splits)
qed

lemma keep_loop_index:
  "keep_loop est ms b keep tokens n = Some i \<Longrightarrow> n \<le> length ms \<Longrightarrow>
   b \<le> i \<and> i < n \<and> keep \<le> tokens + sum_list (map est (js_slice ms i n))"
proof (induction n arbitrary: tokens)
  case (Suc n)
  have sl: "js_slice ms i (Suc n) = js_slice ms i n @ [ms ! n]" if "i \<le> n"
    using that Suc.prems(2) by (simp add: js_slice_def take_Suc_conv_app_nth)
  show ?case
  proof (cases "keep \<le> tokens + est (ms ! n)")
    case True
    then have "i = n" "b \<le> n" using Suc.prems(1) by (auto split: if_splits)
    then show ?thesis using True Suc.prems(2) sl by (simp add: js_slice_def)
  next
    case False
    then have k: "keep_loop est ms b keep (tokens + est (ms ! n)) n = Some i" using Suc.prems(1) by (auto simp: Let_def split: if_splits)
    from Suc.IH [OF k] Suc.prems(2) show ?thesis using sl by simp
  qed
qed simp

lemma message_tokens_pos: "(\<And>t. 0 \<le> f t) \<Longrightarrow> 0 < message_tokens f m"
proof -
  assume f: "\<And>t. 0 \<le> f t"
  have "0 \<le> sum_list (map (\<lambda>p. case p of PartText t \<Rightarrow> f t | PartVisual \<Rightarrow> VISUAL_TOKEN_STAND_IN) ps)" for ps
    by (rule sum_list_nonneg) (auto simp: f VISUAL_TOKEN_STAND_IN_def split: MessagePart.splits)
  then show ?thesis by (simp add: message_tokens_def MESSAGE_STRUCTURAL_OVERHEAD_def add_pos_nonneg)
qed

lemma transcript_tokens_drop_mono: "(\<And>t. 0 \<le> f t) \<Longrightarrow> k \<le> i \<Longrightarrow> transcript_tokens f (drop i ms) \<le> transcript_tokens f (drop k ms)"
proof -
  assume f: "\<And>t. 0 \<le> f t" and "k \<le> i"
  then have "drop k ms = js_slice ms k i @ drop i ms" unfolding js_slice_def
    by (metis append_take_drop_id drop_append drop_drop le_add_diff_inverse2 length_take min_def diff_is_0_eq drop_0 drop_all take_all linorder_le_cases)
  moreover have "0 \<le> sum_list (map (message_tokens f) xs)" for xs
    using message_tokens_pos [OF f] by (intro sum_list_nonneg) (auto intro: less_imp_le)
  ultimately show ?thesis by (simp add: transcript_tokens_def)
qed

subsection \<open>Kept messages\<close>

lemma owner_drop:
  assumes "owner_index ms b r = Some a" "k \<le> a" "r < length ms"
  shows "owner_index (drop k ms) 0 (r - k) = Some (a - k)"
proof -
  have a: "a < r" "turn_start (ms ! a)" "\<And>j. a < j \<Longrightarrow> j < r \<Longrightarrow> \<not> turn_start (ms ! j)"
    using assms(1) unfolding owner_index_def find_down_Some_iff by auto
  have "\<not> turn_start (drop k ms ! j)" if "a - k < j" "j < r - k" for j
    using a(3) [of "k + j"] that assms by auto
  then show ?thesis using a(1,2) assms(2,3) by (auto simp: owner_index_def find_down_Some_iff)
qed

lemma well_paired_drop:
  assumes "well_paired ms b" "b \<le> k"
    "\<And>r c a. k \<le> r \<Longrightarrow> r < length ms \<Longrightarrow> tool_result_id (ms ! r) = Some c \<Longrightarrow> owner_index ms b r = Some a \<Longrightarrow> k \<le> a"
  shows "well_paired (drop k ms) 0"
  unfolding well_paired_def
proof
  fix r assume "r \<in> {0..<length (drop k ms)}"
  then have r: "k + r < length ms" by auto
  show "case tool_result_id (drop k ms ! r) of None \<Rightarrow> True
    | Some c \<Rightarrow> (case owner_index (drop k ms) 0 r of None \<Rightarrow> False | Some a \<Rightarrow> assistantHasToolCall (drop k ms ! a) c)"
  proof (cases "tool_result_id (ms ! (k + r))")
    case (Some c)
    obtain a where a: "owner_index ms b (k + r) = Some a" "assistantHasToolCall (ms ! a) c"
      using well_pairedD [OF assms(1) _ r Some] assms(2) by (metis trans_le_add1)
    have "k \<le> a" using assms(3) [OF _ r Some a(1)] by simp
    then show ?thesis using owner_drop [OF a(1) _ r, of k] a(2) Some r by simp
  qed (use r in simp)
qed

lemma well_paired_first: "well_paired ms b \<Longrightarrow> b < length ms \<Longrightarrow> tool_result_id (ms ! b) = None"
proof -
  assume "well_paired ms b" "b < length ms"
  then have "case tool_result_id (ms ! b) of None \<Rightarrow> True
      | Some c \<Rightarrow> (case owner_index ms b b of None \<Rightarrow> False | Some a \<Rightarrow> assistantHasToolCall (ms ! a) c)"
    unfolding well_paired_def by simp
  moreover have "owner_index ms b b = None" by (auto simp: owner_index_def find_down_None_iff)
  ultimately show ?thesis by (cases "tool_result_id (ms ! b)") simp_all
qed

lemma well_paired_Cons: "well_paired ms 0 \<Longrightarrow> well_paired (m # ms) 1"
  unfolding well_paired_def
proof
  fix r assume h: "\<forall>r \<in> {0..<length ms}. case tool_result_id (ms ! r) of None \<Rightarrow> True
        | Some c \<Rightarrow> (case owner_index ms 0 r of None \<Rightarrow> False | Some a \<Rightarrow> assistantHasToolCall (ms ! a) c)"
    and "r \<in> {1..<length (m # ms)}"
  then obtain q where q: "r = Suc q" "q < length ms" by (cases r) auto
  have "owner_index (m # ms) 1 (Suc q) = map_option Suc (owner_index ms 0 q)"
    unfolding owner_index_def One_nat_def find_down_Suc by simp
  then show "case tool_result_id ((m # ms) ! r) of None \<Rightarrow> True
    | Some c \<Rightarrow> (case owner_index (m # ms) 1 r of None \<Rightarrow> False | Some a \<Rightarrow> assistantHasToolCall ((m # ms) ! a) c)"
    using bspec [OF h, of q] q by (cases "owner_index ms 0 q"; cases "tool_result_id (ms ! q)") simp_all
qed

lemma js_slice_partition: "b \<le> k \<Longrightarrow> take b ms @ js_slice ms b k @ drop k ms = ms"
  unfolding js_slice_def by (metis append.assoc append_take_drop_id min.absorb1 take_take)

lemma compaction_plans_safe:
  assumes "selectPlan env ms tokensBefore trigger = Some plan" "well_paired ms (boundary_index ms)"
    "\<forall>t. 0 \<le> me_textTokens env t"
  shows "take (boundary_index ms) ms @ pl_compactedMessages plan @ pl_keptMessages plan = ms \<and>
    cs_minMessagesToCompact (me_settings env) \<le> length (pl_compactedMessages plan) \<and> pl_keptMessages plan \<noteq> [] \<and>
    min (cs_keepRecentTokens (me_settings env)) (max 1 trigger) \<le> transcript_tokens (me_textTokens env) (pl_keptMessages plan) \<and>
    well_paired (pl_keptMessages plan) 0"
proof -
  let ?b = "boundary_index ms" and ?f = "me_textTokens env"
  let ?keep = "min (cs_keepRecentTokens (me_settings env)) (max 1 trigger)"
  from assms(1) obtain k where k: "plan = plan_of ms tokensBefore k" "?b < k" "k < length ms"
    "cs_minMessagesToCompact (me_settings env) \<le> k - ?b" "selectFirstKeptIndex ms ?b ?keep (message_tokens ?f) = Some k"
    unfolding selectPlan_Some_iff by blast
  have "tool_result_id (ms ! ?b) = None" using well_paired_first [OF assms(2)] k(2,3) by simp
  then have first: "firstValidCutAtOrAfter ms ?b ?b = Some ?b"
    using k(2,3) by (simp add: firstValidCutAtOrAfter_def first_valid_loop.simps)
  then obtain i where i: "keep_loop (message_tokens ?f) ms ?b ?keep 0 (length ms) = Some i" "safeCutForIndex ms i ?b = Some k"
    using k(2,5) by (auto simp: selectFirstKeptIndex_def split: option.splits)
  have il: "?b \<le> i" "?keep \<le> transcript_tokens ?f (drop i ms)"
    using keep_loop_index [OF i(1)] by (auto simp: js_slice_def transcript_tokens_def)
  have ki: "k \<le> i" using safe_cut_cases [OF i(2) il(1)] by simp
  have "?keep \<le> transcript_tokens ?f (drop k ms)"
    using il(2) transcript_tokens_drop_mono [of ?f, OF _ ki] assms(3) order_trans by blast
  moreover have "well_paired (drop k ms) 0"
    by (rule well_paired_drop [OF assms(2)]) (use k(2) safe_cut_keeps_calls [OF assms(2) i(2) il(1)] in auto)
  moreover have "length (js_slice ms ?b k) = k - ?b" using k(3) by (simp add: js_slice_def)
  ultimately show ?thesis using k js_slice_partition [of ?b k ms] by (simp add: plan_of_def)
qed

subsection \<open>An example\<close>

definition sample_settings :: ContextManagerSettings where
  "sample_settings = \<lparr>cs_enabled = True, cs_reserveTokens = 10, cs_keepRecentTokens = 6, cs_minMessagesToCompact = 4,
     cs_contextWindowFallback = 20, cs_safetyMarginTokens = 0, cs_strategyVersion = ''v1''\<rparr>"

definition sample_env :: ManagerEnv where
  "sample_env = \<lparr>me_settings = sample_settings, me_textTokens = (\<lambda>t. int (length t)), me_tokenCounter = None,
     me_summaryGenerator = Some (\<lambda>ms prev input reserve. Inr [115]), me_generateSummary = (\<lambda>ms input reserve key prev. Inl ''none''),
     me_now = NInt 7, me_replacementId = ''ctx-1''\<rparr>"

definition sample_messages :: "AgentMessage list" where
  "sample_messages = [UserMessage (ContentText [1]) (NInt 1), AssistantMessage [TextBlock [2]] None None (NInt 2),
     UserMessage (ContentText [3]) (NInt 3), UserMessage (ContentText [4]) (NInt 4),
     AssistantMessage [ToolCallBlock ''c'' [5] JsonUndefined] None None (NInt 5), ToolResultMessage ''c'' (ContentText [6, 6]) (NInt 6)]"

definition sample_input :: HookInput where
  "sample_input = \<lparr>hi_sessionId = ''s'', hi_turnId = ''t'', hi_phase = ''p'', hi_messages = sample_messages, hi_modelId = ''m'',
     hi_contextWindow = 0, hi_maxTokens = NInt 0, hi_apiKey = None, hi_forwarded = JNull\<rparr>"

lemma sample_paired: "well_paired sample_messages (boundary_index sample_messages)"
  by code_simp

lemma sample_nonneg: "\<forall>t. 0 \<le> me_textTokens sample_env t"
  by (simp add: sample_env_def)

text \<open>C2: 
  A compaction plan cuts a transcript in two without loss: what precedes the latest summary, the compacted messages and the
  kept messages are together the transcript.  It compacts at least the configured number of messages and keeps at least the
  configured number of recent tokens.  In a transcript whose tool results follow their calls, no tool result is separated
  from its call: the kept messages are again such a transcript, so they never start with a tool result.
\<close>
theorem compaction_plans_are_safe:
  assumes "selectPlan env ms tokensBefore trigger = Some plan" "well_paired ms (boundary_index ms)"
    "\<forall>t. 0 \<le> me_textTokens env t"
  shows "take (boundary_index ms) ms @ pl_compactedMessages plan @ pl_keptMessages plan = ms \<and>
    cs_minMessagesToCompact (me_settings env) \<le> length (pl_compactedMessages plan) \<and> pl_keptMessages plan \<noteq> [] \<and>
    min (cs_keepRecentTokens (me_settings env)) (max 1 trigger) \<le> transcript_tokens (me_textTokens env) (pl_keptMessages plan) \<and>
    well_paired (pl_keptMessages plan) 0"
  using assms by (rule compaction_plans_safe)

text \<open>The cut that would fall on a tool result is moved before the assistant message with its call.\<close>
theorem compaction_plans_are_safe_witness:
  "well_paired (pl_keptMessages (the (selectPlan sample_env sample_messages 30 10))) 0 \<and>
   length (pl_keptMessages (the (selectPlan sample_env sample_messages 30 10))) = 2"
proof -
  let ?p = "the (selectPlan sample_env sample_messages 30 10)"
  have "map_option (\<lambda>p. length (pl_keptMessages p)) (selectPlan sample_env sample_messages 30 10) = Some 2" by code_simp
  then have p: "selectPlan sample_env sample_messages 30 10 = Some ?p" "length (pl_keptMessages ?p) = 2" by auto
  from compaction_plans_are_safe [OF p(1) sample_paired sample_nonneg] p(2) show ?thesis by blast
qed

section \<open>Checkpoints\<close>

lemma summary_hides_usage: "list_all (\<lambda>m. compactionSummaryText m = None) ms \<Longrightarrow> int (length ms) \<le> 9007199254740991 \<Longrightarrow>
  getLastAssistantUsageInfo (createCompactionSummary summary tb now (length ms) # ms) = None"
proof -
  assume n: "list_all (\<lambda>m. compactionSummaryText m = None) ms" and l: "int (length ms) \<le> 9007199254740991"
  let ?s = "createCompactionSummary summary tb now (length ms)"
  have "\<not> is_compaction_summary (ms ! i)" if "i < length ms" for i
    using n that by (cases "ms ! i") (auto simp: is_compaction_summary_def list_all_length dest: spec [of _ i])
  then have "find_down (\<lambda>i. is_compaction_summary ((?s # ms) ! i)) 0 (length (?s # ms)) = Some 0"
    by (auto simp: find_down_Some_iff is_compaction_summary_def createCompactionSummary_def nth_Cons split: nat.splits)
  then have "freshness (?s # ms) = Some (Suc (length ms), None)"
    using l by (simp add: freshness_def createCompactionSummary_def safe_integer_def)
  then show ?thesis
    by (auto simp: getLastAssistantUsageInfo_def find_down_None_iff)
qed

lemma kept_no_summary:
  assumes "boundary_index ms < k"
  shows "list_all (\<lambda>m. compactionSummaryText m = None) (drop k ms)"
  using no_summary_after_boundary [of ms] assms by (auto simp: list_all_length)

lemma checkpoint_replaces:
  assumes "checkpointLocked env input before = (Inr (ReplaceMessages ms md), events)"
  obtains plan summary where "te_shouldCompact (evaluateTrigger env (hi_messages input) input)"
    "selectPlan env (hi_messages input) (te_tokens (evaluateTrigger env (hi_messages input) input))
       (te_triggerAt (evaluateTrigger env (hi_messages input) input)) = Some plan"
    "before = None \<or> before = Some (Inr True)" "generate_summary env input plan = Inr summary" "\<not> list_all utext_space summary"
    "(Inr (ReplaceMessages ms md), events) = commit_result env (hi_messages input) plan summary
       [TriggerEvaluated (te_source (evaluateTrigger env (hi_messages input) input)) (te_tokens (evaluateTrigger env (hi_messages input) input))
          (te_triggerAt (evaluateTrigger env (hi_messages input) input)) True]"
  using assms that
  by (auto simp: checkpointLocked_def skip_result_def Let_def split: if_splits option.splits sum.splits bool.splits)

text \<open>When a checkpoint skips, said without the order of the tests: each reason has its own condition on the settings, the token count,
  the cut, the host's answer and the summary.\<close>

definition token_count :: "ManagerEnv \<Rightarrow> HookInput \<Rightarrow> (int \<times> string) option" where
  "token_count env input =
     (case me_tokenCounter env of
        Some counter \<Rightarrow> counter (hi_messages input) input
      | None \<Rightarrow> Some (ce_tokens (context_tokens (me_textTokens env) (hi_messages input)), ''local_estimate''))"

definition trigger_at :: "ManagerEnv \<Rightarrow> HookInput \<Rightarrow> int" where
  "trigger_at env input =
     computeCompactionTriggerAt (Some (hi_modelId input))
       (if hi_contextWindow input > 0 then hi_contextWindow input else cs_contextWindowFallback (me_settings env)) (hi_maxTokens input)
       (cs_reserveTokens (me_settings env)) (cs_safetyMarginTokens (me_settings env))"

definition enough_messages :: "ManagerEnv \<Rightarrow> HookInput \<Rightarrow> bool" where
  "enough_messages env input \<longleftrightarrow> 1 < length (hi_messages input) \<and> cs_minMessagesToCompact (me_settings env) \<le> length (hi_messages input)"

definition over_limit :: "ManagerEnv \<Rightarrow> HookInput \<Rightarrow> int \<Rightarrow> bool" where
  "over_limit env input tokens \<longleftrightarrow> cs_enabled (me_settings env) \<and> enough_messages env input \<and>
     (\<exists>src. token_count env input = Some (tokens, src)) \<and> trigger_at env input < tokens"

definition may_compact :: "ManagerEnv \<Rightarrow> HookInput \<Rightarrow> ContextCompactionPlan \<Rightarrow> bool" where
  "may_compact env input plan \<longleftrightarrow>
     (\<exists>tokens. over_limit env input tokens \<and> selectPlan env (hi_messages input) tokens (trigger_at env input) = Some plan)"

fun skip_applies :: "ManagerEnv \<Rightarrow> HookInput \<Rightarrow> (string + bool) option \<Rightarrow> SkipReason \<Rightarrow> bool" where
  "skip_applies env input before SkipDisabled \<longleftrightarrow> \<not> cs_enabled (me_settings env)"
| "skip_applies env input before SkipNotEnoughMessages \<longleftrightarrow> cs_enabled (me_settings env) \<and> \<not> enough_messages env input"
| "skip_applies env input before SkipTokenCountFailed \<longleftrightarrow>
     cs_enabled (me_settings env) \<and> enough_messages env input \<and> token_count env input = None"
| "skip_applies env input before SkipBelowThreshold \<longleftrightarrow>
     cs_enabled (me_settings env) \<and> enough_messages env input \<and> (\<exists>t src. token_count env input = Some (t, src) \<and> t \<le> trigger_at env input)"
| "skip_applies env input before SkipNoSafeCutPoint \<longleftrightarrow>
     (\<exists>t. over_limit env input t \<and> selectPlan env (hi_messages input) t (trigger_at env input) = None)"
| "skip_applies env input before SkipDeferredByPluginHook \<longleftrightarrow> (\<exists>plan. may_compact env input plan) \<and> before = Some (Inr False)"
| "skip_applies env input before SkipSummaryFailed \<longleftrightarrow>
     (\<exists>plan e. may_compact env input plan \<and> generate_summary env input plan = Inl e) \<and> (before = None \<or> before = Some (Inr True))"
| "skip_applies env input before SkipSummaryEmpty \<longleftrightarrow>
     (\<exists>plan t. may_compact env input plan \<and> generate_summary env input plan = Inr t \<and> list_all utext_space t) \<and>
     (before = None \<or> before = Some (Inr True))"

lemma trigger_cases:
  obtains (disabled) "\<not> cs_enabled (me_settings env)" "\<not> te_shouldCompact (evaluateTrigger env (hi_messages input) input)"
      "te_reason (evaluateTrigger env (hi_messages input) input) = Some SkipDisabled"
  | (few) "cs_enabled (me_settings env)" "\<not> enough_messages env input" "\<not> te_shouldCompact (evaluateTrigger env (hi_messages input) input)"
      "te_reason (evaluateTrigger env (hi_messages input) input) = Some SkipNotEnoughMessages"
  | (uncounted) "cs_enabled (me_settings env)" "enough_messages env input" "token_count env input = None"
      "\<not> te_shouldCompact (evaluateTrigger env (hi_messages input) input)"
      "te_reason (evaluateTrigger env (hi_messages input) input) = Some SkipTokenCountFailed"
  | (below) t src where "cs_enabled (me_settings env)" "enough_messages env input" "token_count env input = Some (t, src)" "t \<le> trigger_at env input"
      "\<not> te_shouldCompact (evaluateTrigger env (hi_messages input) input)"
      "te_reason (evaluateTrigger env (hi_messages input) input) = Some SkipBelowThreshold"
  | (over) t src where "cs_enabled (me_settings env)" "enough_messages env input" "token_count env input = Some (t, src)" "trigger_at env input < t"
      "te_shouldCompact (evaluateTrigger env (hi_messages input) input)"
      "te_tokens (evaluateTrigger env (hi_messages input) input) = t" "te_triggerAt (evaluateTrigger env (hi_messages input) input) = trigger_at env input"
proof -
  note d = evaluateTrigger_def Let_def token_count_def [symmetric] trigger_at_def [symmetric]
  have enough: "enough_messages env input \<longleftrightarrow>
      \<not> (length (hi_messages input) \<le> 1 \<or> length (hi_messages input) < cs_minMessagesToCompact (me_settings env))"
    by (auto simp: enough_messages_def)
  consider "\<not> cs_enabled (me_settings env)" | "cs_enabled (me_settings env)" "\<not> enough_messages env input"
    | "cs_enabled (me_settings env)" "enough_messages env input" "token_count env input = None"
    | t src where "cs_enabled (me_settings env)" "enough_messages env input" "token_count env input = Some (t, src)"
    by fastforce
  then show thesis
  proof cases
    case 1
    then show thesis by (intro disabled) (simp_all add: d)
  next
    case 2
    then show thesis by (intro few) (simp_all add: d enough [unfolded One_nat_def])
  next
    case 3
    then show thesis by (intro uncounted) (simp_all add: d enough [unfolded One_nat_def])
  next
    case (4 t src)
    show thesis
    proof (cases "trigger_at env input < t")
      case True
      then show thesis using 4 by (intro over) (simp_all add: d enough [unfolded One_nat_def])
    next
      case False
      then show thesis using 4 by (intro below) (simp_all add: d enough [unfolded One_nat_def] not_less)
    qed
  qed
qed

lemma skips_when_it_applies:
  "fst (checkpointLocked env input before) = Inr (Skip r) \<longleftrightarrow> skip_applies env input before r"
  "fst (checkpointLocked env input before) = Inl e \<longleftrightarrow> (\<exists>plan. may_compact env input plan) \<and> before = Some (Inl e)"
proof -
  note d = checkpointLocked_def Let_def skip_result_def
  have "(fst (checkpointLocked env input before) = Inr (Skip r) \<longleftrightarrow> skip_applies env input before r) \<and>
    (fst (checkpointLocked env input before) = Inl e \<longleftrightarrow> (\<exists>plan. may_compact env input plan) \<and> before = Some (Inl e))"
  proof (cases rule: trigger_cases [of env input])
    case disabled
    then show ?thesis by (cases r) (simp_all add: d nullish_def may_compact_def over_limit_def)
  next
    case few
    then show ?thesis by (cases r) (simp_all add: d nullish_def may_compact_def over_limit_def)
  next
    case uncounted
    then show ?thesis by (cases r) (simp_all add: d nullish_def may_compact_def over_limit_def)
  next
    case (below t src)
    then show ?thesis by (cases r) (simp_all add: d nullish_def may_compact_def over_limit_def)
  next
    case (over t src)
    have o: "over_limit env input t' \<longleftrightarrow> t' = t" for t' using over by (auto simp: over_limit_def)
    show ?thesis
    proof (cases "selectPlan env (hi_messages input) t (trigger_at env input)")
      case None
      then show ?thesis using over by (cases r) (simp_all add: d may_compact_def o)
    next
      case (Some plan)
      then have m: "may_compact env input p \<longleftrightarrow> p = plan" for p by (auto simp: may_compact_def o)
      show ?thesis
      proof (cases "before = None \<or> before = Some (Inr True)")
        case True
        have com: "fst (commit_result env ms plan summary ev) \<noteq> Inr (Skip r')" "fst (commit_result env ms plan summary ev) \<noteq> Inl e'"
          for ms summary ev r' e'
          by (simp_all add: commit_result_def Let_def)
        from True over Some have "fst (checkpointLocked env input before) = (case generate_summary env input plan of
            Inl _ \<Rightarrow> Inr (Skip SkipSummaryFailed)
          | Inr summary \<Rightarrow> if list_all utext_space summary then Inr (Skip SkipSummaryEmpty)
              else fst (commit_result env (hi_messages input) plan summary [TriggerEvaluated (te_source (evaluateTrigger env (hi_messages input) input)) t (trigger_at env input) True]))"
          by (auto simp: d split: sum.split)
        then show ?thesis using True
          using not_le [THEN iffD2, OF over(4)] by (cases "generate_summary env input plan"; cases r) (auto simp: m o com over Some)
      next
        case False
        then obtain x where x: "before = Some x" "x = Inr False \<or> (\<exists>e'. x = Inl e')" by (cases before) (metis, metis sum.exhaust)
        then show ?thesis using over Some by (cases r) (auto simp: d m o)
      qed
    qed
  qed
  then show "fst (checkpointLocked env input before) = Inr (Skip r) \<longleftrightarrow> skip_applies env input before r"
    "fst (checkpointLocked env input before) = Inl e \<longleftrightarrow> (\<exists>plan. may_compact env input plan) \<and> before = Some (Inl e)" by auto
qed

lemma replacement_is_sound:
  assumes "checkpointLocked env input before = (Inr (ReplaceMessages ms md), events)"
    "well_paired (hi_messages input) (boundary_index (hi_messages input))" "\<forall>t. 0 \<le> me_textTokens env t"
    "int (length (hi_messages input)) \<le> 9007199254740991"
  shows "(\<exists>now. ms = CompactionSummaryMessage (rm_summary md) (rm_tokensBefore md) now (Some (NInt (int (length (rm_keptMessages md))))) #
             rm_keptMessages md) \<and>
    \<not> list_all utext_space (rm_summary md) \<and>
    take (boundary_index (hi_messages input)) (hi_messages input) @ rm_compactedMessages md @ rm_keptMessages md = hi_messages input \<and>
    length ms + cs_minMessagesToCompact (me_settings env) \<le> length (hi_messages input) + 1 \<and>
    well_paired ms (boundary_index ms) \<and> boundary_index ms = 1 \<and>
    rm_tokensAfter md = transcript_tokens (me_textTokens env) ms"
proof -
  let ?h = "hi_messages input" and ?f = "me_textTokens env"
  from assms(1) obtain plan summary where c: "te_shouldCompact (evaluateTrigger env ?h input)"
    "selectPlan env ?h (te_tokens (evaluateTrigger env ?h input)) (te_triggerAt (evaluateTrigger env ?h input)) = Some plan"
    "before = None \<or> before = Some (Inr True)" "\<not> list_all utext_space summary"
    and com: "(Inr (ReplaceMessages ms md), events) = commit_result env ?h plan summary
       [TriggerEvaluated (te_source (evaluateTrigger env ?h input)) (te_tokens (evaluateTrigger env ?h input))
          (te_triggerAt (evaluateTrigger env ?h input)) True]"
    by (rule checkpoint_replaces)
  let ?s = "createCompactionSummary summary (pl_tokensBefore plan) (me_now env) (length (pl_keptMessages plan))"
  have m: "ms = ?s # pl_keptMessages plan" "rm_summary md = summary" "rm_tokensBefore md = pl_tokensBefore plan"
    "rm_keptMessages md = pl_keptMessages plan" "rm_compactedMessages md = pl_compactedMessages plan"
    "rm_tokensAfter md = ce_tokens (context_tokens ?f ms)"
    using com by (auto simp: commit_result_def Let_def)
  note safe = compaction_plans_safe [OF c(2) assms(2,3)]
  obtain k where k: "plan = plan_of ?h (te_tokens (evaluateTrigger env ?h input)) k" "boundary_index ?h < k" "k < length ?h"
    using c(2) unfolding selectPlan_Some_iff by blast
  then have kept: "pl_keptMessages plan = drop k ?h" by (simp add: plan_of_def)
  have ns: "list_all (\<lambda>m. compactionSummaryText m = None) (pl_keptMessages plan)" unfolding kept by (rule kept_no_summary [OF k(2)])
  have "getLastAssistantUsageInfo ms = None" unfolding m(1) by (rule summary_hides_usage [OF ns]) (use assms(4) kept in simp)
  then have t: "rm_tokensAfter md = transcript_tokens ?f ms" by (simp add: m(6) context_tokens_def)
  have "findLatestCompactionSummaryIndex ms = Some 0"
    using ns unfolding m(1) findLatestCompactionSummaryIndex_def find_down_Some_iff
    by (auto simp: createCompactionSummary_def list_all_length nth_Cons split: nat.splits)
  then have b: "boundary_index ms = 1" by (simp add: boundary_index_def)
  have "length ms + cs_minMessagesToCompact (me_settings env) \<le> length ?h + 1"
  proof -
    have "length ?h = length (take (boundary_index ?h) ?h) + length (pl_compactedMessages plan) + length (pl_keptMessages plan)"
      using safe by (metis add.assoc length_append)
    then show ?thesis using safe m(1) by simp
  qed
  moreover have "well_paired ms (boundary_index ms)" using well_paired_Cons [of "pl_keptMessages plan" ?s] safe b m(1) by simp
  ultimately show ?thesis using c(3,4) m safe t b by (auto simp: createCompactionSummary_def)
qed

text \<open>C18: A checkpoint skips with a reason exactly when that reason's condition holds, and fails exactly when a cut exists and the host's
  answer was an error.  When it replaces the messages of a turn, an enabled manager has counted more tokens than the
  threshold and the host did not object; the new transcript is a summary that is not blank followed by the kept messages; it is shorter by at
  least the configured number of messages less one; tool results still follow their calls in it; and its token count is estimated in full,
  since no usage reported before the compaction is trusted any more.  The transcript is well paired and no longer than the largest safe integer, and
  estimates are not negative.\<close>

theorem compaction_replaces_soundly:
  assumes "well_paired (hi_messages input) (boundary_index (hi_messages input))" "\<forall>t. 0 \<le> me_textTokens env t"
    "int (length (hi_messages input)) \<le> 9007199254740991"
  shows "case fst (checkpointLocked env input before) of
      Inl e \<Rightarrow> (\<exists>plan. may_compact env input plan) \<and> before = Some (Inl e)
    | Inr (Skip r) \<Rightarrow> skip_applies env input before r \<and> (\<forall>r'. skip_applies env input before r' \<longrightarrow> r' = r)
    | Inr (ReplaceMessages ms md) \<Rightarrow>
        (\<forall>r. \<not> skip_applies env input before r) \<and> (\<exists>tokens. over_limit env input tokens) \<and> (before = None \<or> before = Some (Inr True)) \<and>
        (\<exists>now. ms = CompactionSummaryMessage (rm_summary md) (rm_tokensBefore md) now (Some (NInt (int (length (rm_keptMessages md))))) #
                 rm_keptMessages md) \<and>
        \<not> list_all utext_space (rm_summary md) \<and>
        take (boundary_index (hi_messages input)) (hi_messages input) @ rm_compactedMessages md @ rm_keptMessages md = hi_messages input \<and>
        length ms + cs_minMessagesToCompact (me_settings env) \<le> length (hi_messages input) + 1 \<and>
        well_paired ms (boundary_index ms) \<and> boundary_index ms = 1 \<and>
        rm_tokensAfter md = transcript_tokens (me_textTokens env) ms"
proof -
  obtain res events where c: "checkpointLocked env input before = (res, events)" by fastforce
  note skips = skips_when_it_applies [of env input before, unfolded c fst_conv]
  show ?thesis
  proof (cases res)
    case (Inl e)
    show ?thesis unfolding c fst_conv Inl sum.case using skips(2) [of e] Inl by blast
  next
    case (Inr d)
    show ?thesis
    proof (cases d)
      case (Skip r)
      have "skip_applies env input before r' \<longleftrightarrow> r' = r" for r' using skips(1) [of r'] Inr Skip by auto
      then show ?thesis unfolding c fst_conv Inr Skip sum.case Decision.case by blast
    next
      case (ReplaceMessages ms md)
      note r = c [unfolded Inr ReplaceMessages]
      have over: "\<exists>tokens. over_limit env input tokens" "before = None \<or> before = Some (Inr True)"
        by (rule checkpoint_replaces [OF r], rule trigger_cases [of env input]; auto simp: over_limit_def)
          (rule checkpoint_replaces [OF r])
      have "\<not> skip_applies env input before r'" for r' using skips(1) [of r'] Inr ReplaceMessages by simp
      then show ?thesis unfolding c fst_conv Inr ReplaceMessages sum.case Decision.case using replacement_is_sound [OF r assms] over by blast
    qed
  qed
qed

text \<open>A transcript of six messages becomes a summary and two messages.\<close>
theorem compaction_replaces_soundly_witness:
  "\<exists>ms md. fst (checkpointLocked sample_env sample_input None) = Inr (ReplaceMessages ms md) \<and> length ms = 3 \<and>
     well_paired ms (boundary_index ms) \<and> rm_tokensAfter md = 25"
proof -
  have "(case fst (checkpointLocked sample_env sample_input None) of
      Inr (ReplaceMessages ms md) \<Rightarrow> length ms = 3 \<and> rm_tokensAfter md = 25 | _ \<Rightarrow> False)" by code_simp
  then obtain ms md where c: "fst (checkpointLocked sample_env sample_input None) = Inr (ReplaceMessages ms md)"
    "length ms = 3" "rm_tokensAfter md = 25"
    by (auto split: sum.splits Decision.splits)
  have h: "hi_messages sample_input = sample_messages" by (simp add: sample_input_def)
  have len: "int (length sample_messages) \<le> 9007199254740991" by (simp add: sample_messages_def)
  show ?thesis
    using compaction_replaces_soundly [of sample_input sample_env None, unfolded h, OF sample_paired sample_nonneg len] c by auto
qed

end
