(* ===== verification/Session_Lock.thy ===== *)
theory Session_Lock
  imports Bari_Prelude
begin

text \<open>
  The in-process session lock of the context manager (\<^verbatim>\<open>InProcessContextManagerLock\<close> in
  \<^verbatim>\<open>context-manager/src/manager.ts\<close>).  Each call of \<^verbatim>\<open>withSessionLock\<close> chains a promise to the one its session's entry of
  the map holds, waits for that one, runs its action and releases.

  Calls are numbered in the order they are made.  A call's promise \<^verbatim>\<open>chained\<close> is known by the call's number; it is resolved
  when the call has released and the promise it was chained to is resolved.  The steps interleave in any order: a call may
  arrive at any time, a waiting call may start once its predecessor's promise is resolved, and a running action may end,
  with a result or an error, at any time.
\<close>

section \<open>The lock\<close>

datatype Phase = Waiting | Running | Released

record LockCall =
  lc_session :: string
  lc_previous :: "nat option"
  lc_phase :: Phase

record LockState =
  lk_calls :: "LockCall list"
  lk_sessionLocks :: "(string \<times> nat) list"

definition new_lock :: LockState where
  "new_lock = \<lparr>lk_calls = [], lk_sessionLocks = []\<rparr>"

function chained_resolved :: "LockCall list \<Rightarrow> nat \<Rightarrow> bool" where
  "chained_resolved calls t =
     (t < length calls \<and> lc_phase (calls ! t) = Released \<and>
      (case lc_previous (calls ! t) of None \<Rightarrow> True | Some p \<Rightarrow> if p < t then chained_resolved calls p else False))"
  by pat_completeness auto
termination by (relation "measure snd") auto

declare chained_resolved.simps [simp del]

text \<open>The synchronous part of a call.\<close>

definition lock_call :: "string \<Rightarrow> LockState \<Rightarrow> LockState" where
  "lock_call sessionId s =
     s\<lparr>lk_calls := lk_calls s @ [\<lparr>lc_session = sessionId, lc_previous = map_of (lk_sessionLocks s) sessionId, lc_phase = Waiting\<rparr>],
       lk_sessionLocks := AList.update sessionId (length (lk_calls s)) (lk_sessionLocks s)\<rparr>"

definition may_start :: "LockState \<Rightarrow> nat \<Rightarrow> bool" where
  "may_start s t =
     (t < length (lk_calls s) \<and> lc_phase (lk_calls s ! t) = Waiting \<and>
      (case lc_previous (lk_calls s ! t) of None \<Rightarrow> True | Some p \<Rightarrow> chained_resolved (lk_calls s) p))"

definition set_phase :: "nat \<Rightarrow> Phase \<Rightarrow> LockState \<Rightarrow> LockState" where
  "set_phase t p s = s\<lparr>lk_calls := (lk_calls s)[t := (lk_calls s ! t)\<lparr>lc_phase := p\<rparr>]\<rparr>"

definition lock_release :: "nat \<Rightarrow> LockState \<Rightarrow> LockState" where
  "lock_release t s =
     (let sessionId = lc_session (lk_calls s ! t); s' = set_phase t Released s in
      if map_of (lk_sessionLocks s) sessionId = Some t
      then s'\<lparr>lk_sessionLocks := AList.delete sessionId (lk_sessionLocks s)\<rparr> else s')"

inductive lock_step :: "LockState \<Rightarrow> LockState \<Rightarrow> bool" where
  step_call: "lock_step s (lock_call sessionId s)"
| step_start: "may_start s t \<Longrightarrow> lock_step s (set_phase t Running s)"
| step_end: "t < length (lk_calls s) \<Longrightarrow> lc_phase (lk_calls s ! t) = Running \<Longrightarrow> lock_step s (lock_release t s)"

inductive_cases lock_stepE: "lock_step s s'"

definition lock_reachable :: "LockState \<Rightarrow> bool" where
  "lock_reachable s = lock_step\<^sup>*\<^sup>* new_lock s"

section \<open>The invariant\<close>

abbreviation call_at :: "LockState \<Rightarrow> nat \<Rightarrow> LockCall" where
  "call_at s t \<equiv> lk_calls s ! t"

definition in_order :: "LockState \<Rightarrow> bool" where
  "in_order s \<longleftrightarrow>
     (\<forall>t < length (lk_calls s). \<forall>u < t. lc_session (call_at s u) = lc_session (call_at s t) \<longrightarrow>
        (lc_phase (call_at s t) \<noteq> Waiting \<longrightarrow> lc_phase (call_at s u) = Released) \<and>
        (case lc_previous (call_at s t) of
           None \<Rightarrow> lc_phase (call_at s u) = Released
         | Some p \<Rightarrow> u \<le> p))"

definition linked :: "LockState \<Rightarrow> bool" where
  "linked s \<longleftrightarrow>
     (\<forall>t < length (lk_calls s). \<forall>p. lc_previous (call_at s t) = Some p \<longrightarrow>
        p < t \<and> lc_session (call_at s p) = lc_session (call_at s t))"

definition map_ok :: "LockState \<Rightarrow> bool" where
  "map_ok s \<longleftrightarrow>
     (\<forall>x. case map_of (lk_sessionLocks s) x of
        None \<Rightarrow> (\<forall>t < length (lk_calls s). lc_session (call_at s t) = x \<longrightarrow> lc_phase (call_at s t) = Released)
      | Some t \<Rightarrow> t < length (lk_calls s) \<and> lc_session (call_at s t) = x \<and> lc_phase (call_at s t) \<noteq> Released \<and>
          (\<forall>u < length (lk_calls s). lc_session (call_at s u) = x \<longrightarrow> u \<le> t))"

definition lock_ok :: "LockState \<Rightarrow> bool" where
  "lock_ok s \<longleftrightarrow> in_order s \<and> linked s \<and> map_ok s"

lemma lock_ok_new: "lock_ok new_lock"
  by (simp add: lock_ok_def in_order_def linked_def map_ok_def new_lock_def)

subsection \<open>Calls\<close>

lemma call_sel [simp]:
  "length (lk_calls (lock_call x s)) = Suc (length (lk_calls s))"
  "t < length (lk_calls s) \<Longrightarrow> call_at (lock_call x s) t = call_at s t"
  "call_at (lock_call x s) (length (lk_calls s)) = \<lparr>lc_session = x, lc_previous = map_of (lk_sessionLocks s) x, lc_phase = Waiting\<rparr>"
  "lk_sessionLocks (lock_call x s) = AList.update x (length (lk_calls s)) (lk_sessionLocks s)"
  by (simp_all add: lock_call_def nth_append)

lemma map_okD:
  assumes "map_ok s"
  shows "map_of (lk_sessionLocks s) x = None \<Longrightarrow> t < length (lk_calls s) \<Longrightarrow> lc_session (call_at s t) = x \<Longrightarrow> lc_phase (call_at s t) = Released"
    "map_of (lk_sessionLocks s) x = Some t \<Longrightarrow> t < length (lk_calls s) \<and> lc_session (call_at s t) = x \<and> lc_phase (call_at s t) \<noteq> Released"
    "map_of (lk_sessionLocks s) x = Some t \<Longrightarrow> u < length (lk_calls s) \<Longrightarrow> lc_session (call_at s u) = x \<Longrightarrow> u \<le> t"
  using spec [OF assms [unfolded map_ok_def], of x] by auto

lemma map_okI:
  assumes "\<And>x t. map_of (lk_sessionLocks s) x = None \<Longrightarrow> t < length (lk_calls s) \<Longrightarrow> lc_session (call_at s t) = x \<Longrightarrow> lc_phase (call_at s t) = Released"
    "\<And>x t. map_of (lk_sessionLocks s) x = Some t \<Longrightarrow> t < length (lk_calls s) \<and> lc_session (call_at s t) = x \<and> lc_phase (call_at s t) \<noteq> Released"
    "\<And>x t u. map_of (lk_sessionLocks s) x = Some t \<Longrightarrow> u < length (lk_calls s) \<Longrightarrow> lc_session (call_at s u) = x \<Longrightarrow> u \<le> t"
  shows "map_ok s"
  unfolding map_ok_def using assms by (auto split: option.split)

lemma in_orderD:
  assumes "in_order s" "t < length (lk_calls s)" "u < t" "lc_session (call_at s u) = lc_session (call_at s t)"
  shows "lc_phase (call_at s t) \<noteq> Waiting \<Longrightarrow> lc_phase (call_at s u) = Released"
    "lc_previous (call_at s t) = None \<Longrightarrow> lc_phase (call_at s u) = Released"
    "lc_previous (call_at s t) = Some p \<Longrightarrow> u \<le> p"
  using assms unfolding in_order_def by fastforce+

lemma in_orderI:
  assumes "\<And>t u. t < length (lk_calls s) \<Longrightarrow> u < t \<Longrightarrow> lc_session (call_at s u) = lc_session (call_at s t) \<Longrightarrow>
      (lc_phase (call_at s t) \<noteq> Waiting \<longrightarrow> lc_phase (call_at s u) = Released) \<and>
      (lc_previous (call_at s t) = None \<longrightarrow> lc_phase (call_at s u) = Released) \<and>
      (\<forall>p. lc_previous (call_at s t) = Some p \<longrightarrow> u \<le> p)"
  shows "in_order s"
  unfolding in_order_def using assms by (auto split: option.split)

lemma lock_ok_call: "lock_ok s \<Longrightarrow> lock_ok (lock_call x s)"
proof -
  assume ok: "lock_ok s"
  then have m: "map_ok s" by (simp add: lock_ok_def)
  have "in_order (lock_call x s)"
    using ok map_okD(1,3) [OF m, of x] unfolding lock_ok_def in_order_def
    by (auto simp: less_Suc_eq split: option.splits)
  moreover have "linked (lock_call x s)"
    using ok map_okD(2) [OF m, of x] unfolding lock_ok_def linked_def by (fastforce simp: less_Suc_eq)
  moreover have "map_ok (lock_call x s)"
    by (rule map_okI) (auto simp: update_conv' less_Suc_eq dest: map_okD [OF m] split: if_splits)
  ultimately show ?thesis by (simp add: lock_ok_def)
qed

subsection \<open>Starts and ends\<close>

lemma set_phase_sel [simp]:
  "length (lk_calls (set_phase t p s)) = length (lk_calls s)"
  "lk_sessionLocks (set_phase t p s) = lk_sessionLocks s"
  "u < length (lk_calls s) \<Longrightarrow> lc_session (call_at (set_phase t p s) u) = lc_session (call_at s u)"
  "u < length (lk_calls s) \<Longrightarrow> lc_previous (call_at (set_phase t p s) u) = lc_previous (call_at s u)"
  "u < length (lk_calls s) \<Longrightarrow> lc_phase (call_at (set_phase t p s) u) = (if u = t then p else lc_phase (call_at s u))"
  by (cases "u = t"; simp add: set_phase_def)+

lemma resolved_released: "chained_resolved calls p \<Longrightarrow> lc_phase (calls ! p) = Released"
  by (simp add: chained_resolved.simps)

lemma released_resolved:
  "linked s \<Longrightarrow> in_order s \<Longrightarrow> p < length (lk_calls s) \<Longrightarrow> lc_phase (call_at s p) = Released \<Longrightarrow> chained_resolved (lk_calls s) p"
proof (induction p rule: less_induct)
  case (less p)
  show ?case
  proof (cases "lc_previous (call_at s p)")
    case None
    then show ?thesis using less.prems by (simp add: chained_resolved.simps)
  next
    case (Some q)
    then have q: "q < p" "lc_session (call_at s q) = lc_session (call_at s p)" using less.prems by (auto simp: linked_def)
    then have "lc_phase (call_at s q) = Released" using less.prems by (auto simp: in_order_def)
    then have "chained_resolved (lk_calls s) q" using less q by simp
    then show ?thesis using less.prems Some q by (subst chained_resolved.simps) simp
  qed
qed

lemma start_all_released:
  assumes "lock_ok s" "may_start s t" "u < t" "lc_session (call_at s u) = lc_session (call_at s t)"
  shows "lc_phase (call_at s u) = Released"
proof (cases "lc_previous (call_at s t)")
  case None
  then show ?thesis using assms by (auto simp: lock_ok_def in_order_def may_start_def)
next
  case (Some p)
  then have p: "chained_resolved (lk_calls s) p" "p < t" "lc_session (call_at s p) = lc_session (call_at s t)" "u \<le> p"
    using assms by (auto simp: lock_ok_def in_order_def linked_def may_start_def)
  show ?thesis
  proof (cases "u = p")
    case True
    then show ?thesis using p resolved_released by blast
  next
    case False
    then have "u < p" using p by simp
    moreover have "lc_phase (call_at s p) = Released" using p resolved_released by blast
    moreover have "in_order s" "t < length (lk_calls s)" using assms by (auto simp: lock_ok_def may_start_def)
    ultimately show ?thesis using in_orderD(1) [of s p u] assms(4) p by simp
  qed
qed

lemma later_waits:
  assumes "lock_ok s" "lc_phase (call_at s t) \<noteq> Released" "t < v" "v < length (lk_calls s)" "lc_session (call_at s t) = lc_session (call_at s v)"
  shows "lc_phase (call_at s v) = Waiting" "lc_previous (call_at s v) \<noteq> None"
  using in_orderD(1,2) [of s v t] assms by (auto simp: lock_ok_def)

lemma lock_ok_set_phase:
  assumes ok: "lock_ok s" and t: "t < length (lk_calls s)" "lc_phase (call_at s t) \<noteq> Released"
    and before: "\<And>u. u < t \<Longrightarrow> lc_session (call_at s u) = lc_session (call_at s t) \<Longrightarrow> lc_phase (call_at s u) = Released"
  shows "in_order (set_phase t p s)" "linked (set_phase t p s)"
proof -
  show "in_order (set_phase t p s)"
  proof (rule in_orderI)
    fix v u
    assume v: "v < length (lk_calls (set_phase t p s))" "u < v"
      "lc_session (call_at (set_phase t p s) u) = lc_session (call_at (set_phase t p s) v)"
    then have v': "v < length (lk_calls s)" "u < v" "lc_session (call_at s u) = lc_session (call_at s v)" by simp_all
    have o: "in_order s" using ok by (simp add: lock_ok_def)
    show "(lc_phase (call_at (set_phase t p s) v) \<noteq> Waiting \<longrightarrow> lc_phase (call_at (set_phase t p s) u) = Released) \<and>
      (lc_previous (call_at (set_phase t p s) v) = None \<longrightarrow> lc_phase (call_at (set_phase t p s) u) = Released) \<and>
      (\<forall>q. lc_previous (call_at (set_phase t p s) v) = Some q \<longrightarrow> u \<le> q)"
      using v' in_orderD [OF o v'] before [of u] later_waits [OF ok t(2), of v] by auto
  qed
  show "linked (set_phase t p s)" using ok by (auto simp: lock_ok_def linked_def)
qed

lemma lock_ok_start: "lock_ok s \<Longrightarrow> may_start s t \<Longrightarrow> lock_ok (set_phase t Running s)"
proof -
  assume ok: "lock_ok s" and st: "may_start s t"
  have w: "t < length (lk_calls s)" "lc_phase (call_at s t) = Waiting" using st by (auto simp: may_start_def)
  have m: "map_ok s" using ok by (simp add: lock_ok_def)
  have "map_ok (set_phase t Running s)"
  proof (rule map_okI)
    fix x u
    assume "map_of (lk_sessionLocks (set_phase t Running s)) x = Some u"
    then have "u < length (lk_calls s) \<and> lc_session (call_at s u) = x \<and> lc_phase (call_at s u) \<noteq> Released"
      using map_okD(2) [OF m] by simp
    then show "u < length (lk_calls (set_phase t Running s)) \<and> lc_session (call_at (set_phase t Running s) u) = x \<and>
        lc_phase (call_at (set_phase t Running s) u) \<noteq> Released" by auto
  qed (use w in \<open>auto dest: map_okD(1,3) [OF m]\<close>)
  then show ?thesis
    using lock_ok_set_phase [OF ok w(1)] w start_all_released [OF ok st] by (simp add: lock_ok_def)
qed

lemma release_sel [simp]:
  "lk_calls (lock_release t s) = lk_calls (set_phase t Released s)"
  "map_of (lk_sessionLocks (lock_release t s)) x =
     (if x = lc_session (call_at s t) \<and> map_of (lk_sessionLocks s) x = Some t then None else map_of (lk_sessionLocks s) x)"
  by (auto simp: lock_release_def Let_def delete_conv')

lemma ok_cong: "lk_calls s = lk_calls s' \<Longrightarrow> in_order s = in_order s'" "lk_calls s = lk_calls s' \<Longrightarrow> linked s = linked s'"
  by (simp_all only: in_order_def linked_def)

lemma lock_ok_release:
  assumes ok: "lock_ok s" and t: "t < length (lk_calls s)" "lc_phase (call_at s t) = Running"
  shows "lock_ok (lock_release t s)"
proof -
  have m: "map_ok s" and o: "in_order s" using ok by (simp_all add: lock_ok_def)
  have before: "lc_phase (call_at s u) = Released" if "u < t" "lc_session (call_at s u) = lc_session (call_at s t)" for u
    using in_orderD(1) [OF o t(1) that] t(2) by simp
  have "map_ok (lock_release t s)"
  proof (rule map_okI)
    fix x u
    assume n: "map_of (lk_sessionLocks (lock_release t s)) x = None" "u < length (lk_calls (lock_release t s))"
      "lc_session (call_at (lock_release t s) u) = x"
    then have u: "u < length (lk_calls s)" "lc_session (call_at s u) = x" by simp_all
    show "lc_phase (call_at (lock_release t s) u) = Released"
    proof (cases "map_of (lk_sessionLocks s) x")
      case None
      then show ?thesis using map_okD(1) [OF m None] u by simp
    next
      case (Some v)
      then have x: "x = lc_session (call_at s t)" "v = t" using n by (auto split: if_splits)
      then have "u \<le> t" using map_okD(3) [OF m] Some u by auto
      then show ?thesis using before [of u] u x by (auto simp: le_less)
    qed
  next
    fix x u
    assume "map_of (lk_sessionLocks (lock_release t s)) x = Some u"
    then have e: "map_of (lk_sessionLocks s) x = Some u" "\<not> (x = lc_session (call_at s t) \<and> u = t)"
      by (auto split: if_splits)
    then show "u < length (lk_calls (lock_release t s)) \<and> lc_session (call_at (lock_release t s) u) = x \<and>
        lc_phase (call_at (lock_release t s) u) \<noteq> Released" using map_okD(2) [OF m e(1)] by auto
  next
    fix x u v
    assume "map_of (lk_sessionLocks (lock_release t s)) x = Some u" "v < length (lk_calls (lock_release t s))"
      "lc_session (call_at (lock_release t s) v) = x"
    then show "v \<le> u" using map_okD(3) [OF m] by (auto split: if_splits)
  qed
  moreover have "in_order (lock_release t s)" "linked (lock_release t s)"
    unfolding ok_cong [OF release_sel(1)]
    by (rule lock_ok_set_phase [OF ok t(1) _ before]; simp add: t(2))+
  ultimately show ?thesis by (simp add: lock_ok_def)
qed

lemma lock_ok_step: "lock_step s s' \<Longrightarrow> lock_ok s \<Longrightarrow> lock_ok s'"
  by (induction rule: lock_step.induct) (simp_all add: lock_ok_call lock_ok_start lock_ok_release)

lemma reachable_ok: "lock_reachable s \<Longrightarrow> lock_ok s"
  unfolding lock_reachable_def by (induction rule: rtranclp_induct) (auto intro: lock_ok_new lock_ok_step)

subsection \<open>Runs of the lock\<close>

text \<open>An executable run: the calls in the order given, each with what happens next.\<close>

datatype LockEvent = Call string | Start nat | End nat

fun lock_run :: "LockEvent list \<Rightarrow> LockState \<Rightarrow> LockState option" where
  "lock_run [] s = Some s"
| "lock_run (Call x # es) s = lock_run es (lock_call x s)"
| "lock_run (Start t # es) s = (if may_start s t then lock_run es (set_phase t Running s) else None)"
| "lock_run (End t # es) s =
     (if t < length (lk_calls s) \<and> lc_phase (lk_calls s ! t) = Running then lock_run es (lock_release t s) else None)"

lemma run_reachable: "lock_run es s = Some s' \<Longrightarrow> lock_reachable s \<Longrightarrow> lock_reachable s'"
  unfolding lock_reachable_def
  by (induction es s rule: lock_run.induct)
     (auto split: if_splits intro: rtranclp.rtrancl_into_rtrancl lock_step.intros)

section \<open>What the lock promises\<close>

lemma lowest_unreleased_may_proceed:
  assumes ok: "lock_ok s" and t: "t < length (lk_calls s)" "lc_phase (call_at s t) \<noteq> Released"
  obtains u where "u \<le> t" "lc_session (call_at s u) = lc_session (call_at s t)" "lc_phase (call_at s u) = Running \<or> may_start s u"
proof -
  define P where "P = (\<lambda>u. u < length (lk_calls s) \<and> lc_session (call_at s u) = lc_session (call_at s t) \<and> lc_phase (call_at s u) \<noteq> Released)"
  have "P t" using t by (simp add: P_def)
  define u where "u = (LEAST u. P u)"
  have u: "P u" "u \<le> t" unfolding u_def using \<open>P t\<close> by (auto intro: LeastI Least_le)
  have least: "\<not> P v" if "v < u" for v using that not_less_Least unfolding u_def by blast
  have "may_start s u" if w: "lc_phase (call_at s u) = Waiting"
  proof (cases "lc_previous (call_at s u)")
    case None
    then show ?thesis using u w by (simp add: may_start_def P_def)
  next
    case (Some p)
    then have p: "p < u" "lc_session (call_at s p) = lc_session (call_at s u)" using ok u by (auto simp: lock_ok_def linked_def P_def)
    then have "lc_phase (call_at s p) = Released" using least [of p] u by (auto simp: P_def)
    then have "chained_resolved (lk_calls s) p" using released_resolved [of s p] ok p u by (simp add: lock_ok_def P_def)
    then show ?thesis using u w Some by (simp add: may_start_def P_def)
  qed
  then have "lc_phase (call_at s u) = Running \<or> may_start s u" using u by (cases "lc_phase (call_at s u)") (auto simp: P_def)
  then show thesis using that [of u] u by (auto simp: P_def)
qed

subsection \<open>Work left\<close>

fun phase_work :: "Phase \<Rightarrow> nat" where
  "phase_work Waiting = 2"
| "phase_work Running = 1"
| "phase_work Released = 0"

definition work_left :: "LockState \<Rightarrow> nat" where
  "work_left s = (\<Sum>c\<leftarrow>lk_calls s. phase_work (lc_phase c))"

definition is_call :: "LockEvent \<Rightarrow> bool" where
  "is_call e = (case e of Call _ \<Rightarrow> True | _ \<Rightarrow> False)"

lemma sum_list_update_nat:
  "t < length xs \<Longrightarrow> (\<Sum>c\<leftarrow>xs[t := y]. (f c :: nat)) + f (xs ! t) = (\<Sum>c\<leftarrow>xs. f c) + f y"
  by (induction xs arbitrary: t) (auto split: nat.splits)

lemma work_left_set_phase:
  "t < length (lk_calls s) \<Longrightarrow> work_left (set_phase t p s) + phase_work (lc_phase (call_at s t)) = work_left s + phase_work p"
  using sum_list_update_nat [of t "lk_calls s" "\<lambda>c. phase_work (lc_phase c)" "(call_at s t)\<lparr>lc_phase := p\<rparr>"]
  by (simp add: work_left_def set_phase_def)

lemma work_left_release: "work_left (lock_release t s) = work_left (set_phase t Released s)"
  by (simp only: work_left_def release_sel)

lemma run_uses_work:
  "lock_run es s = Some s' \<Longrightarrow> list_all (\<lambda>e. \<not> is_call e) es \<Longrightarrow> length es + work_left s' = work_left s"
proof (induction es s rule: lock_run.induct)
  case (3 t es s)
  then have "may_start s t" "length es + work_left s' = work_left (set_phase t Running s)" by (auto split: if_splits)
  then show ?case using work_left_set_phase [of t s Running] by (auto simp: may_start_def)
next
  case (4 t es s)
  then have "t < length (lk_calls s)" "lc_phase (call_at s t) = Running" "length es + work_left s' = work_left (lock_release t s)"
    by (auto split: if_splits)
  then show ?case using work_left_set_phase [of t s Released] by (simp add: work_left_release)
qed (auto simp: is_call_def)

lemma work_left_0: "work_left s = 0 \<longleftrightarrow> (\<forall>c \<in> set (lk_calls s). lc_phase c = Released)"
proof -
  have "phase_work p = 0 \<longleftrightarrow> p = Released" for p by (cases p) auto
  then show ?thesis by (simp add: work_left_def sum_list_eq_0_iff)
qed

lemma idle_map_empty: "lock_ok s \<Longrightarrow> work_left s = 0 \<Longrightarrow> map_of (lk_sessionLocks s) x = None"
proof (rule ccontr)
  assume ok: "lock_ok s" and z: "work_left s = 0" and n: "map_of (lk_sessionLocks s) x \<noteq> None"
  then obtain t where "map_of (lk_sessionLocks s) x = Some t" by auto
  then have "t < length (lk_calls s)" "lc_phase (call_at s t) \<noteq> Released"
    using map_okD(2) [of s x t] ok by (auto simp: lock_ok_def)
  then show False using z nth_mem by (auto simp: work_left_0)
qed

lemma work_left_progress:
  assumes "lock_ok s" "work_left s \<noteq> 0"
  shows "\<exists>e s'. \<not> is_call e \<and> lock_run [e] s = Some s'"
proof -
  obtain t where t: "t < length (lk_calls s)" "lc_phase (call_at s t) \<noteq> Released"
    using assms(2) by (auto simp: work_left_0 in_set_conv_nth)
  then obtain u where u: "u \<le> t" "lc_phase (call_at s u) = Running \<or> may_start s u"
    using lowest_unreleased_may_proceed [OF assms(1)] by blast
  then have "(\<exists>s'. lock_run [Start u] s = Some s') \<or> (\<exists>s'. lock_run [End u] s = Some s')" using t by auto
  then show ?thesis by (metis LockEvent.simps(11,12) is_call_def)
qed

subsection \<open>The properties\<close>

text \<open>C12: 
  Whatever the interleaving, of two different calls for one session the earlier one has released before the later one's
  action has begun: actions of a session never overlap and run in the order they were asked for.  The map has an entry for
  a session exactly while a call of the session has not released, and that entry is the latest call.
\<close>
theorem session_actions_are_serialised:
  assumes "lock_reachable s"
  shows "(t < length (lk_calls s) \<and> u < t \<and> lc_session (lk_calls s ! u) = lc_session (lk_calls s ! t) \<and>
        lc_phase (lk_calls s ! t) \<noteq> Waiting \<longrightarrow> lc_phase (lk_calls s ! u) = Released) \<and>
      map_of (lk_sessionLocks s) x =
        find_down (\<lambda>t. lc_session (lk_calls s ! t) = x \<and> lc_phase (lk_calls s ! t) \<noteq> Released) 0 (length (lk_calls s))"
proof -
  have ok: "in_order s" "map_ok s" using reachable_ok [OF assms] by (simp_all add: lock_ok_def)
  have "map_of (lk_sessionLocks s) x =
      find_down (\<lambda>t. lc_session (lk_calls s ! t) = x \<and> lc_phase (lk_calls s ! t) \<noteq> Released) 0 (length (lk_calls s))"
  proof (cases "map_of (lk_sessionLocks s) x")
    case None
    then show ?thesis using map_okD(1) [OF ok(2) None] by (simp add: eq_commute [of None] find_down_None_iff)
  next
    case (Some t)
    then show ?thesis using map_okD(2,3) [OF ok(2) Some] by (fastforce simp: eq_commute [of "Some t"] find_down_Some_iff)
  qed
  then show ?thesis using in_orderD(1) [OF ok(1), of t u] by blast
qed

definition example_run :: "LockEvent list" where
  "example_run = [Call ''a'', Call ''a'', Call ''b'', Start 0, Start 2, End 0, Start 1]"

definition example_state :: LockState where
  "example_state =
     \<lparr>lk_calls =
        [\<lparr>lc_session = ''a'', lc_previous = None, lc_phase = Released\<rparr>,
         \<lparr>lc_session = ''a'', lc_previous = Some 0, lc_phase = Running\<rparr>,
         \<lparr>lc_session = ''b'', lc_previous = None, lc_phase = Running\<rparr>],
      lk_sessionLocks = [(''a'', 1), (''b'', 2)]\<rparr>"

lemma example_run_ends: "lock_run example_run new_lock = Some example_state" by code_simp

lemma example_reachable: "lock_reachable example_state"
  by (rule run_reachable [OF example_run_ends]) (simp add: lock_reachable_def)

theorem session_actions_are_serialised_witness:
  "lock_reachable example_state \<and> lc_phase (lk_calls example_state ! 0) = Released \<and>
   map_of (lk_sessionLocks example_state) ''a'' = Some 1"
proof -
  have "find_down (\<lambda>t. lc_session (lk_calls example_state ! t) = ''a'' \<and> lc_phase (lk_calls example_state ! t) \<noteq> Released)
      0 (length (lk_calls example_state)) = Some 1" by code_simp
  moreover have "1 < length (lk_calls example_state) \<and> (0::nat) < 1 \<and>
      lc_session (lk_calls example_state ! 0) = lc_session (lk_calls example_state ! 1) \<and>
      lc_phase (lk_calls example_state ! 1) \<noteq> Waiting" by code_simp
  ultimately show ?thesis
    using session_actions_are_serialised [OF example_reachable, of 1 0 "''a''"] example_reachable by metis
qed

text \<open>C36: 
  The lock never wedges.  Once no further call is made, every start and end uses up one unit of the work left, so a run has at
  most \<^term>\<open>work_left s\<close> of them; as long as work is left some call can start or end, and when none is left the map
  holds no session any more.
\<close>
theorem session_lock_drains:
  assumes "lock_reachable s"
  shows "(lock_run es s = Some s' \<and> list_all (\<lambda>e. \<not> is_call e) es \<longrightarrow> length es + work_left s' = work_left s) \<and>
    (work_left s \<noteq> 0 \<longrightarrow> (\<exists>e s''. \<not> is_call e \<and> lock_run [e] s = Some s'')) \<and>
    (work_left s = 0 \<longrightarrow> map_of (lk_sessionLocks s) x = None)"
  using run_uses_work work_left_progress idle_map_empty reachable_ok [OF assms] by blast

theorem session_lock_drains_witness:
  "lock_reachable example_state \<and> (\<exists>e s'. \<not> is_call e \<and> lock_run [e] example_state = Some s') \<and>
   lock_run [End 1, End 2] example_state \<noteq> None \<and> work_left (the (lock_run [End 1, End 2] example_state)) = 0"
proof -
  have "lock_run [End 1, End 2] example_state \<noteq> None" "list_all (\<lambda>e. \<not> is_call e) [End 1, End 2]" "work_left example_state = 2"
    by code_simp+
  then show ?thesis
    using session_lock_drains [OF example_reachable, of "[End 1, End 2]" "the (lock_run [End 1, End 2] example_state)" "''a''"]
      example_reachable by auto
qed

end
