(* ===== verification/Mcp_Tool_Name.thy ===== *)
theory Mcp_Tool_Name
  imports Js_Text
begin

text \<open>
  The public names of MCP servers and tools (\<^verbatim>\<open>agent-modules/mcp/src/runtime/tool-name.ts\<close>).  A raw name is any UTF-16
  text; its projection, a segment, is an ASCII \<^typ>\<open>string\<close>.  The format characters of Unicode (category Cf) are a
  parameter of the functions that test for them; control characters and lone surrogates are written out.
\<close>

section \<open>Segments\<close>

datatype NameKind = KServer | KTool

fun name_kind_string :: "NameKind \<Rightarrow> string" where
  "name_kind_string KServer = ''server''"
| "name_kind_string KTool = ''tool''"

definition MCP_RUNTIME_TOOL_NAME_MAX_LENGTH :: int where
  "MCP_RUNTIME_TOOL_NAME_MAX_LENGTH = 80"

definition MCP_RUNTIME_SERVER_SEGMENT_MAX_LENGTH :: int where
  "MCP_RUNTIME_SERVER_SEGMENT_MAX_LENGTH = 48"

definition name_alnum :: "nat \<Rightarrow> bool" where
  "name_alnum u = (48 \<le> u \<and> u \<le> 57 \<or> 65 \<le> u \<and> u \<le> 90 \<or> 97 \<le> u \<and> u \<le> 122)"

definition name_unit :: "nat \<Rightarrow> bool" where
  "name_unit u = (name_alnum u \<or> u = 95 \<or> u = 45)"

definition forbidden_point :: "(nat \<Rightarrow> bool) \<Rightarrow> nat \<Rightarrow> bool" where
  "forbidden_point is_format c = (c \<le> 31 \<or> 127 \<le> c \<and> c \<le> 159 \<or> is_format c \<or> 55296 \<le> c \<and> c \<le> 57343)"

text \<open>The replacement of every run of other characters by an underscore; the flag says whether a run is open.\<close>

fun replace_others :: "bool \<Rightarrow> utext \<Rightarrow> string" where
  "replace_others r [] = []"
| "replace_others r (u # us) =
     (if name_unit u then char_of u # replace_others False us
      else if r then replace_others True us
      else CHR ''_'' # replace_others True us)"

fun collapse_underscores :: "bool \<Rightarrow> string \<Rightarrow> string" where
  "collapse_underscores r [] = []"
| "collapse_underscores r (c # cs) =
     (if c = CHR ''_'' then if r then collapse_underscores True cs else c # collapse_underscores True cs
      else c # collapse_underscores False cs)"

definition strip_tail :: "string \<Rightarrow> string" where
  "strip_tail s = rev (dropWhile (\<lambda>c. c = CHR ''_'') (rev s))"

definition strip_ends :: "string \<Rightarrow> string" where
  "strip_ends s = strip_tail (dropWhile (\<lambda>c. c = CHR ''_'') s)"

definition has_alnum :: "string \<Rightarrow> bool" where
  "has_alnum s = list_ex (\<lambda>c. name_alnum (of_char c)) s"

definition normalizeMcpNameSegment :: "(nat \<Rightarrow> bool) \<Rightarrow> utext \<Rightarrow> NameKind \<Rightarrow> string + string" where
  "normalizeMcpNameSegment is_format v kind =
     (if v = [] \<or> list_ex (forbidden_point is_format) (code_points v)
      then Inl (''Invalid MCP '' @ name_kind_string kind @ '' name'')
      else
        (let segment = strip_ends (collapse_underscores False (replace_others False v))
         in Inr (if has_alnum segment then segment else name_kind_string kind)))"

definition shortenMcpNameSegment :: "string \<Rightarrow> int \<Rightarrow> NameKind \<Rightarrow> string + string" where
  "shortenMcpNameSegment segment limit kind =
     (if limit < 1 then Inl (''MCP '' @ name_kind_string kind @ '' name has no room for a readable prefix'')
      else
        (let kept = strip_tail (take (nat limit) segment)
         in Inr (if has_alnum kept then kept else take (nat limit) (name_kind_string kind))))"

definition buildMcpServerRuntimeName :: "(nat \<Rightarrow> bool) \<Rightarrow> utext \<Rightarrow> string + string" where
  "buildMcpServerRuntimeName is_format serverName =
     (case normalizeMcpNameSegment is_format serverName KServer of
        Inl e \<Rightarrow> Inl e
      | Inr n \<Rightarrow>
          (case shortenMcpNameSegment n MCP_RUNTIME_SERVER_SEGMENT_MAX_LENGTH KServer of
             Inl e \<Rightarrow> Inl e
           | Inr segment \<Rightarrow> Inr (''mcp__'' @ segment)))"

definition buildMcpToolRuntimeName :: "(nat \<Rightarrow> bool) \<Rightarrow> utext \<Rightarrow> utext \<Rightarrow> string + string" where
  "buildMcpToolRuntimeName is_format serverName toolName =
     (case buildMcpServerRuntimeName is_format serverName of
        Inl e \<Rightarrow> Inl e
      | Inr server \<Rightarrow>
          (case normalizeMcpNameSegment is_format toolName KTool of
             Inl e \<Rightarrow> Inl e
           | Inr n \<Rightarrow>
               (case shortenMcpNameSegment n (MCP_RUNTIME_TOOL_NAME_MAX_LENGTH - int (length server) - 2) KTool of
                  Inl e \<Rightarrow> Inl e
                | Inr tool \<Rightarrow> Inr (server @ ''__'' @ tool))))"

section \<open>Valid segments\<close>

text \<open>
  The two patterns of \<^verbatim>\<open>validSegment\<close> in \<^verbatim>\<open>name-registry.ts\<close>: runs of letters, digits and hyphens joined by single
  underscores, with at least one letter or digit.
\<close>

definition run_unit :: "nat \<Rightarrow> bool" where
  "run_unit u = (name_alnum u \<or> u = 45)"

text \<open>The flag says whether the previous character belongs to a run.\<close>

fun runs_match :: "bool \<Rightarrow> utext \<Rightarrow> bool" where
  "runs_match r [] = r"
| "runs_match r (u # us) = (if run_unit u then runs_match True us else r \<and> u = 95 \<and> runs_match False us)"

definition validSegment :: "utext \<Rightarrow> bool" where
  "validSegment s = (runs_match False s \<and> list_ex name_alnum s)"

abbreviation segment_ok :: "string \<Rightarrow> bool" where
  "segment_ok s \<equiv> validSegment (ascii_text s)"

lemma ascii_text_simps [simp]: "ascii_text [] = []" "ascii_text (c # s) = of_char c # ascii_text s"
  "ascii_text (s @ t) = ascii_text s @ ascii_text t" "length (ascii_text s) = length s"
  by (simp_all add: ascii_text_def)

lemma ascii_text_inj [simp]: "ascii_text s = ascii_text t \<longleftrightarrow> s = t"
  by (induction s arbitrary: t; case_tac t) auto

lemma has_alnum_ascii: "list_ex name_alnum (ascii_text s) = has_alnum s"
  by (induction s) (simp_all add: has_alnum_def)

text \<open>Strings that could be the tail of a segment: allowed characters, no two underscores in a row.\<close>

fun tidy :: "bool \<Rightarrow> string \<Rightarrow> bool" where
  "tidy r [] = True"
| "tidy r (c # cs) =
     (if c = CHR ''_'' then \<not> r \<and> tidy True cs else run_unit (of_char c) \<and> tidy False cs)"

lemma tidy_mono: "tidy True s \<Longrightarrow> tidy r s"
  by (cases s) auto

lemma tidy_take: "tidy r s \<Longrightarrow> tidy r (take n s)"
  by (induction r s arbitrary: n rule: tidy.induct) (auto simp: take_Cons split: nat.splits)

lemma tidy_dropWhile: "tidy r s \<Longrightarrow> tidy True (dropWhile (\<lambda>c. c = CHR ''_'') s)"
  by (induction r s rule: tidy.induct) auto

lemma tidy_appendD: "tidy r (s @ t) \<Longrightarrow> tidy r s"
  by (induction r s rule: tidy.induct) auto

lemma strip_tail_prefix: "\<exists>t. s = strip_tail s @ t"
  unfolding strip_tail_def by (metis rev_append rev_rev_ident takeWhile_dropWhile_id)

lemma tidy_strip_tail: "tidy r s \<Longrightarrow> tidy r (strip_tail s)"
  using strip_tail_prefix [of s] tidy_appendD by metis

lemma strip_tail_last: "strip_tail s \<noteq> [] \<Longrightarrow> last (strip_tail s) \<noteq> CHR ''_''"
  unfolding strip_tail_def by (metis (mono_tags, lifting) hd_dropWhile last_rev rev_is_Nil_conv)

lemma underscore_unit: "\<not> run_unit (95::nat)" "of_char (CHR ''_'') = (95::nat)"
  by (simp_all add: run_unit_def name_alnum_def)

lemma tidy_runs_match:
  "tidy r s \<Longrightarrow> (s \<noteq> [] \<Longrightarrow> last s \<noteq> CHR ''_'') \<Longrightarrow> (s = [] \<Longrightarrow> \<not> r) \<Longrightarrow> runs_match (\<not> r) (ascii_text s)"
proof (induction r s rule: tidy.induct)
  case (2 r c cs)
  show ?case
  proof (cases "c = CHR ''_''")
    case True
    then have "cs \<noteq> []" using 2 by auto
    then show ?thesis using 2 True underscore_unit by simp
  next
    case False
    then have "tidy False cs" "run_unit (of_char c)" using 2 by auto
    then show ?thesis using 2 False by (cases cs) auto
  qed
qed simp

lemma tidy_valid: "tidy True s \<Longrightarrow> last s \<noteq> CHR ''_'' \<Longrightarrow> has_alnum s \<Longrightarrow> segment_ok s"
  using tidy_runs_match [of True s] by (cases "s = []") (auto simp: validSegment_def has_alnum_ascii has_alnum_def)

lemma valid_tidy_aux: "runs_match r (ascii_text s) \<Longrightarrow> tidy (\<not> r) s \<and> (s \<noteq> [] \<longrightarrow> last s \<noteq> CHR ''_'')"
proof (induction s arbitrary: r)
  case (Cons c s)
  show ?case
  proof (cases "run_unit (of_char c)")
    case True
    then have "c \<noteq> CHR ''_''" using underscore_unit by metis
    moreover have m: "runs_match True (ascii_text s)" using Cons.prems True by simp
    have "tidy False s" "s \<noteq> [] \<longrightarrow> last s \<noteq> CHR ''_''" using Cons.IH [OF m] by simp_all
    ultimately show ?thesis using True by simp
  next
    case False
    then have c: "of_char c = (95::nat)" "r" "runs_match False (ascii_text s)" using Cons.prems by auto
    then have "c = CHR ''_''" using underscore_unit(2) of_char_eq_iff by metis
    moreover have "s \<noteq> []" using c by auto
    moreover have "tidy True s" "s \<noteq> [] \<longrightarrow> last s \<noteq> CHR ''_''" using Cons.IH [OF c(3)] by simp_all
    ultimately show ?thesis using c(2) by simp
  qed
qed simp

lemma valid_tidy: "segment_ok s \<Longrightarrow> tidy True s \<and> s \<noteq> [] \<and> last s \<noteq> CHR ''_'' \<and> has_alnum s"
  using valid_tidy_aux [of False s] by (auto simp: validSegment_def has_alnum_ascii has_alnum_def)

section \<open>What the functions return\<close>

lemma char_of_unit: "name_unit u \<Longrightarrow> of_char (char_of u) = u"
  by (auto simp: name_unit_def name_alnum_def)

lemma replace_others_units: "c \<in> set (replace_others r us) \<Longrightarrow> name_unit (of_char c)"
proof (induction r us rule: replace_others.induct)
  case (2 r u us)
  have "name_unit (of_char (CHR ''_''))" by (simp add: name_unit_def)
  moreover have "name_unit (of_char (char_of u :: char))" if "name_unit u" using that by (simp only: char_of_unit)
  ultimately show ?case
    by (cases "name_unit u"; cases r; use 2 in \<open>simp only: replace_others.simps if_True if_False list.set insert_iff\<close>) blast+
qed simp

lemma collapse_tidy: "(\<And>c. c \<in> set s \<Longrightarrow> name_unit (of_char c)) \<Longrightarrow> tidy r (collapse_underscores r s)"
proof (induction r s rule: collapse_underscores.induct)
  case (2 r c cs)
  have "run_unit (of_char c)" if "c \<noteq> CHR ''_''"
    using 2(4) [of c] that underscore_unit(2) of_char_eq_iff [of c "CHR ''_''", where 'a = nat]
    by (auto simp: name_unit_def run_unit_def)
  then show ?case using 2 by (auto intro: tidy_mono)
qed simp

lemma kind_tidy: "tidy True (name_kind_string k)" "has_alnum (take (Suc n) (name_kind_string k))"
  by (cases k; simp add: run_unit_def name_alnum_def has_alnum_def)+

lemma has_alnum_nonempty: "has_alnum s \<Longrightarrow> s \<noteq> []"
  by (auto simp: has_alnum_def)

lemma normalize_tidy: "normalizeMcpNameSegment f v kind = Inr s \<Longrightarrow> tidy True s \<and> s \<noteq> []"
proof -
  assume n: "normalizeMcpNameSegment f v kind = Inr s"
  have t: "tidy True (strip_ends (collapse_underscores False (replace_others False v)))"
    unfolding strip_ends_def by (intro tidy_strip_tail tidy_dropWhile [of False] collapse_tidy) (rule replace_others_units)
  from n show ?thesis
    using t kind_tidy(1) [of kind] has_alnum_nonempty
    by (cases kind) (auto simp: normalizeMcpNameSegment_def Let_def split: if_splits)
qed

lemma kind_no_underscore: "CHR ''_'' \<notin> set (take n (name_kind_string k))"
  using set_take_subset [of n "name_kind_string k"] by (cases k) auto

lemma shorten_ok:
  assumes "shortenMcpNameSegment segment limit kind = Inr s" "tidy True segment"
  shows "segment_ok s \<and> int (length s) \<le> limit"
proof -
  let ?k = "strip_tail (take (nat limit) segment)"
  have l: "limit \<ge> 1" and s: "s = (if has_alnum ?k then ?k else take (nat limit) (name_kind_string kind))"
    using assms(1) by (auto simp: shortenMcpNameSegment_def Let_def split: if_splits)
  show ?thesis
  proof (cases "has_alnum ?k")
    case True
    have "tidy True ?k" using assms(2) by (intro tidy_strip_tail tidy_take)
    moreover have "last ?k \<noteq> CHR ''_''" using has_alnum_nonempty [OF True] by (rule strip_tail_last)
    moreover have "length ?k \<le> length (take (nat limit) segment)"
      using strip_tail_prefix [of "take (nat limit) segment"] by (metis length_append le_add1)
    ultimately show ?thesis using True s l tidy_valid [of ?k] by auto
  next
    case False
    obtain n where n: "nat limit = Suc n" using l by (cases "nat limit") auto
    let ?t = "take (Suc n) (name_kind_string kind)"
    have "has_alnum ?t" by (rule kind_tidy)
    moreover have "last ?t \<noteq> CHR ''_''"
      using kind_no_underscore [of "Suc n" kind] has_alnum_nonempty [OF calculation] last_in_set by metis
    ultimately show ?thesis using s False n l kind_tidy(1) [of kind] by (auto intro!: tidy_valid tidy_take)
  qed
qed

lemma shorten_total: "1 \<le> limit \<Longrightarrow> \<exists>s. shortenMcpNameSegment segment limit kind = Inr s"
  by (simp add: shortenMcpNameSegment_def Let_def)

text \<open>A name that is a segment already and fits is kept as it is.\<close>

lemma strip_tail_id: "s = [] \<or> last s \<noteq> CHR ''_'' \<Longrightarrow> strip_tail s = s"
  unfolding strip_tail_def by (cases s rule: rev_cases) auto

lemma shorten_id: "segment_ok s \<Longrightarrow> int (length s) \<le> limit \<Longrightarrow> shortenMcpNameSegment s limit kind = Inr s"
  using valid_tidy [of s] by (cases s) (auto simp: shortenMcpNameSegment_def Let_def strip_tail_id)

end
