(* ===== verification/Mcp_Name_Registry.thy ===== *)
theory Mcp_Name_Registry
  imports Mcp_Tool_Name "HOL-Library.Product_Lexorder"
begin

text \<open>
  The registry of MCP names (\<^verbatim>\<open>agent-modules/mcp/src/runtime/name-registry.ts\<close>): the two-level allocation of public segments
  to server and tool identities, the validation of the saved registry and the transaction around both.

  Parameters are the Unicode category Cf, \<^verbatim>\<open>JSON.parse\<close> and \<^verbatim>\<open>JSON.stringify\<close>, and, for each transaction, whether the
  lock is free and whether the new file can be written.  Fields of the saved file that the code never reads are not
  represented.  The comparison of two strings is the lexicographic order of their code units.
\<close>

section \<open>Data\<close>

datatype json =
    JsonNull
  | JsonBool bool
  | JsonNumber rat
  | JsonString utext
  | JsonArray "json list"
  | JsonObject "(string \<times> json) list"

record NameHost =
  nh_format :: "nat \<Rightarrow> bool"
  nh_parse :: "utext \<Rightarrow> json option"
  nh_stringify :: "json \<Rightarrow> utext"

record ToolAssignment =
  ta_raw :: utext
  ta_segment :: string

record ServerAssignment =
  sa_key :: utext
  sa_raw :: utext
  sa_segment :: string
  sa_tools :: "ToolAssignment list"

text \<open>The list of servers of a registry of version 1.\<close>

type_synonym State = "ServerAssignment list"

record McpNameCandidate =
  cd_key :: utext
  cd_name :: utext

record McpNameAssignments =
  na_names :: "(utext \<times> string) list"
  na_errors :: "(utext \<times> string) list"

record PendingName =
  pn_key :: utext
  pn_base :: string
  pn_natural :: bool

section \<open>Allocation\<close>

definition js_new_map :: "('k \<times> 'v) list \<Rightarrow> ('k \<times> 'v) list" where
  "js_new_map ps = foldl (\<lambda>m (k, v). AList.update k v m) [] ps"

definition sourcePriority :: "NameHost \<Rightarrow> utext \<Rightarrow> nat" where
  "sourcePriority h key =
     (case nh_parse h key of
        Some (JsonArray identity) \<Rightarrow>
          if nth_opt identity 0 = Some (JsonString (ascii_text ''configured'')) then 0
          else if nth_opt identity 0 = Some (JsonString (ascii_text ''plugin'')) \<and>
                  nth_opt identity 1 = Some (JsonString (ascii_text ''OFFICIAL'')) then 1
          else 2
      | _ \<Rightarrow> 2)"

definition base_segment :: "NameHost \<Rightarrow> NameKind \<Rightarrow> int \<Rightarrow> utext \<Rightarrow> string + string" where
  "base_segment h kind limit v =
     (case normalizeMcpNameSegment (nh_format h) v kind of
        Inl e \<Rightarrow> Inl e
      | Inr n \<Rightarrow> shortenMcpNameSegment n limit kind)"

fun prepare_loop ::
  "NameHost \<Rightarrow> NameKind \<Rightarrow> int \<Rightarrow> (utext \<times> string) list \<Rightarrow> McpNameAssignments \<Rightarrow> PendingName list \<Rightarrow> McpNameCandidate list
     \<Rightarrow> McpNameAssignments \<times> PendingName list" where
  "prepare_loop h kind limit existing a pending [] = (a, pending)"
| "prepare_loop h kind limit existing a pending (c # cs) =
     (let saved = (case map_of existing (cd_key c) of None \<Rightarrow> [] | Some s \<Rightarrow> s) in
      if saved \<noteq> [] then
        prepare_loop h kind limit existing (a\<lparr>na_names := AList.update (cd_key c) saved (na_names a)\<rparr>) pending cs
      else
        (case base_segment h kind limit (cd_name c) of
           Inl e \<Rightarrow>
             prepare_loop h kind limit existing (a\<lparr>na_errors := AList.update (cd_key c) e (na_errors a)\<rparr>) pending cs
         | Inr base \<Rightarrow>
             prepare_loop h kind limit existing a
               (pending @ [\<lparr>pn_key = cd_key c, pn_base = base, pn_natural = (ascii_text base = cd_name c)\<rparr>]) cs))"

definition pending_order :: "NameHost \<Rightarrow> PendingName \<Rightarrow> nat \<times> nat \<times> utext" where
  "pending_order h p = (if pn_natural p then 0 else 1, sourcePriority h (pn_key p), pn_key p)"

fun place_loop ::
  "string list \<Rightarrow> McpNameAssignments \<Rightarrow> PendingName list \<Rightarrow> PendingName list \<Rightarrow> string list \<times> McpNameAssignments \<times> PendingName list" where
  "place_loop used a conflicts [] = (used, a, conflicts)"
| "place_loop used a conflicts (p # ps) =
     (if pn_base p \<in> set used then place_loop used a (conflicts @ [p]) ps
      else place_loop (pn_base p # used) (a\<lparr>na_names := AList.update (pn_key p) (pn_base p) (na_names a)\<rparr>) conflicts ps)"

text \<open>The search for a free suffix ends with a name, with a message, or with an exception of the shortening.\<close>

datatype Suffixed = NoRoom string | Suffixed string | SuffixThrew string

lemma show_nat_bound: "n < 10 ^ length (show_nat n)"
proof (induction n rule: show_nat.induct)
  case (1 n)
  show ?case
  proof (cases "n < 10")
    case True
    then show ?thesis by (subst show_nat.simps) simp
  next
    case False
    then have "n div 10 < 10 ^ length (show_nat (n div 10))" using 1 by simp
    then have "n < 10 * 10 ^ length (show_nat (n div 10))" by (simp add: div_less_iff_less_mult mult.commute)
    then show ?thesis using False by (subst show_nat.simps) simp
  qed
qed

function suffix_loop :: "string list \<Rightarrow> string \<Rightarrow> NameKind \<Rightarrow> int \<Rightarrow> nat \<Rightarrow> Suffixed" where
  "suffix_loop used base kind limit number =
     (let suffix = CHR ''_'' # show_nat number in
      if int (length suffix) \<ge> limit then NoRoom (''MCP '' @ name_kind_string kind @ '' name has no room for a collision suffix'')
      else
        (case shortenMcpNameSegment base (limit - int (length suffix)) kind of
           Inl e \<Rightarrow> SuffixThrew e
         | Inr p \<Rightarrow> if p @ suffix \<in> set used then suffix_loop used base kind limit (number + 1) else Suffixed (p @ suffix)))"
  by pat_completeness auto
termination
proof (relation "measure (\<lambda>(used, base, kind, limit, number). 10 ^ nat limit - number)", goal_cases)
  case (2 used base kind limit number suffix p)
  have "number < 10 ^ length (show_nat number)" by (rule show_nat_bound)
  also have "\<dots> \<le> 10 ^ nat limit" using 2 by (intro power_increasing) auto
  finally show ?case by simp
qed simp

declare suffix_loop.simps [simp del]

fun resolve_loop ::
  "NameKind \<Rightarrow> int \<Rightarrow> string list \<Rightarrow> McpNameAssignments \<Rightarrow> PendingName list \<Rightarrow> string + McpNameAssignments" where
  "resolve_loop kind limit used a [] = Inr a"
| "resolve_loop kind limit used a (p # ps) =
     (case suffix_loop used (pn_base p) kind limit 2 of
        NoRoom e \<Rightarrow> resolve_loop kind limit used (a\<lparr>na_errors := AList.update (pn_key p) e (na_errors a)\<rparr>) ps
      | Suffixed c \<Rightarrow> resolve_loop kind limit (c # used) (a\<lparr>na_names := AList.update (pn_key p) c (na_names a)\<rparr>) ps
      | SuffixThrew e \<Rightarrow> Inl e)"

definition unique_candidates :: "McpNameCandidate list \<Rightarrow> McpNameCandidate list" where
  "unique_candidates cs = sort_key cd_key (map snd (js_new_map (map (\<lambda>c. (cd_key c, c)) cs)))"

definition allocate ::
  "NameHost \<Rightarrow> McpNameCandidate list \<Rightarrow> (utext \<times> string) list \<Rightarrow> NameKind \<Rightarrow> int \<Rightarrow> string + McpNameAssignments" where
  "allocate h candidates existing kind limit =
     (let (a, pending) = prepare_loop h kind limit existing \<lparr>na_names = [], na_errors = []\<rparr> [] (unique_candidates candidates);
          (used, a', conflicts) = place_loop (map snd existing) a [] (sort_key (pending_order h) pending)
      in resolve_loop kind limit used a' conflicts)"

section \<open>The registry\<close>

fun push_servers :: "(utext \<times> string) list \<Rightarrow> McpNameCandidate list \<Rightarrow> State \<Rightarrow> State" where
  "push_servers names [] s = s"
| "push_servers names (c # cs) s =
     (case map_of names (cd_key c) of
        Some segment \<Rightarrow>
          if segment \<noteq> [] \<and> cd_key c \<notin> set (map sa_key s)
          then push_servers names cs (s @ [\<lparr>sa_key = cd_key c, sa_raw = cd_name c, sa_segment = segment, sa_tools = []\<rparr>])
          else push_servers names cs s
      | None \<Rightarrow> push_servers names cs s)"

definition assignServers :: "NameHost \<Rightarrow> McpNameCandidate list \<Rightarrow> State \<Rightarrow> (string + McpNameAssignments) \<times> State" where
  "assignServers h candidates s =
     (case allocate h candidates (js_new_map (map (\<lambda>e. (sa_key e, sa_segment e)) s)) KServer MCP_RUNTIME_SERVER_SEGMENT_MAX_LENGTH of
        Inl e \<Rightarrow> (Inl e, s)
      | Inr result \<Rightarrow> (Inr result, push_servers (na_names result) candidates s))"

fun push_tools :: "(utext \<times> string) list \<Rightarrow> utext list \<Rightarrow> ToolAssignment list \<Rightarrow> ToolAssignment list" where
  "push_tools names [] ts = ts"
| "push_tools names (raw # raws) ts =
     (case map_of names raw of
        Some segment \<Rightarrow>
          if segment \<noteq> [] \<and> raw \<notin> set (map ta_raw ts)
          then push_tools names raws (ts @ [\<lparr>ta_raw = raw, ta_segment = segment\<rparr>])
          else push_tools names raws ts
      | None \<Rightarrow> push_tools names raws ts)"

fun set_tools :: "utext \<Rightarrow> ToolAssignment list \<Rightarrow> State \<Rightarrow> State" where
  "set_tools key ts [] = []"
| "set_tools key ts (e # es) = (if sa_key e = key then e\<lparr>sa_tools := ts\<rparr> # es else e # set_tools key ts es)"

definition runtime_name :: "string \<Rightarrow> string \<Rightarrow> string" where
  "runtime_name server segment = ''mcp__'' @ server @ ''__'' @ segment"

definition assignTools :: "NameHost \<Rightarrow> utext \<Rightarrow> utext list \<Rightarrow> State \<Rightarrow> (string + McpNameAssignments) \<times> State" where
  "assignTools h serverKey rawNames s =
     (case find (\<lambda>e. sa_key e = serverKey) s of
        None \<Rightarrow> (Inl ''MCP server name has not been allocated'', s)
      | Some server \<Rightarrow>
          (case allocate h (map (\<lambda>name. \<lparr>cd_key = name, cd_name = name\<rparr>) rawNames)
                  (js_new_map (map (\<lambda>t. (ta_raw t, ta_segment t)) (sa_tools server))) KTool
                  (MCP_RUNTIME_TOOL_NAME_MAX_LENGTH - 7 - int (length (sa_segment server))) of
             Inl e \<Rightarrow> (Inl e, s)
           | Inr result \<Rightarrow>
               (Inr (result\<lparr>na_names := js_new_map (map (\<lambda>(raw, segment). (raw, runtime_name (sa_segment server) segment)) (na_names result))\<rparr>),
                set_tools serverKey (push_tools (na_names result) rawNames (sa_tools server)) s)))"

section \<open>The saved registry\<close>

definition json_field :: "string \<Rightarrow> json \<Rightarrow> json option" where
  "json_field f j = (case j of JsonObject fs \<Rightarrow> map_of fs f | _ \<Rightarrow> None)"

definition json_string_field :: "string \<Rightarrow> json \<Rightarrow> utext option" where
  "json_string_field f j = (case json_field f j of Some (JsonString u) \<Rightarrow> Some u | _ \<Rightarrow> None)"

definition json_array_field :: "string \<Rightarrow> json \<Rightarrow> json list option" where
  "json_array_field f j = (case json_field f j of Some (JsonArray js) \<Rightarrow> Some js | _ \<Rightarrow> None)"

definition json_segment_field :: "string \<Rightarrow> json \<Rightarrow> string option" where
  "json_segment_field f j =
     (case json_string_field f j of Some u \<Rightarrow> if validSegment u then Some (map char_of u) else None | None \<Rightarrow> None)"

fun parse_tools :: "string \<Rightarrow> ToolAssignment list \<Rightarrow> json list \<Rightarrow> string + ToolAssignment list" where
  "parse_tools server seen [] = Inr seen"
| "parse_tools server seen (j # js) =
     (case (json_string_field ''raw'' j, json_segment_field ''segment'' j) of
        (Some raw, Some segment) \<Rightarrow>
          if int (length segment) + int (length server) + 7 > MCP_RUNTIME_TOOL_NAME_MAX_LENGTH \<or>
             raw \<in> set (map ta_raw seen) \<or> segment \<in> set (map ta_segment seen)
          then Inl ''Invalid MCP tool assignment''
          else parse_tools server (seen @ [\<lparr>ta_raw = raw, ta_segment = segment\<rparr>]) js
      | _ \<Rightarrow> Inl ''Invalid MCP tool assignment'')"

fun parse_servers :: "State \<Rightarrow> json list \<Rightarrow> string + State" where
  "parse_servers seen [] = Inr seen"
| "parse_servers seen (j # js) =
     (case (json_string_field ''key'' j, json_string_field ''raw'' j, json_segment_field ''segment'' j, json_array_field ''tools'' j) of
        (Some key, Some raw, Some segment, Some tools) \<Rightarrow>
          if int (length segment) > MCP_RUNTIME_SERVER_SEGMENT_MAX_LENGTH \<or>
             key \<in> set (map sa_key seen) \<or> segment \<in> set (map sa_segment seen)
          then Inl ''Invalid MCP server assignment''
          else
            (case parse_tools segment [] tools of
               Inl e \<Rightarrow> Inl e
             | Inr ts \<Rightarrow> parse_servers (seen @ [\<lparr>sa_key = key, sa_raw = raw, sa_segment = segment, sa_tools = ts\<rparr>]) js)
      | _ \<Rightarrow> Inl ''Invalid MCP server assignment'')"

definition parseState :: "NameHost \<Rightarrow> utext \<Rightarrow> string + State" where
  "parseState h text =
     (case nh_parse h text of
        None \<Rightarrow> Inl ''SyntaxError''
      | Some state \<Rightarrow>
          if json_field ''version'' state \<noteq> Some (JsonNumber 1) then Inl ''Invalid MCP name registry''
          else
            (case json_array_field ''servers'' state of
               None \<Rightarrow> Inl ''Invalid MCP name registry''
             | Some servers \<Rightarrow> parse_servers [] servers))"

definition tool_json :: "ToolAssignment \<Rightarrow> json" where
  "tool_json t = JsonObject [(''raw'', JsonString (ta_raw t)), (''segment'', JsonString (ascii_text (ta_segment t)))]"

definition server_json :: "ServerAssignment \<Rightarrow> json" where
  "server_json e =
     JsonObject [(''key'', JsonString (sa_key e)), (''raw'', JsonString (sa_raw e)),
       (''segment'', JsonString (ascii_text (sa_segment e))), (''tools'', JsonArray (map tool_json (sa_tools e)))]"

definition state_json :: "State \<Rightarrow> json" where
  "state_json s = JsonObject [(''version'', JsonNumber 1), (''servers'', JsonArray (map server_json s))]"

section \<open>Transactions\<close>

text \<open>
  A host has the state in memory and, when it was given a path, shares the file with other hosts; the file is absent or
  holds a text.  The outcomes of the file operations of one transaction are its parameter.
\<close>

record FileOutcome =
  fo_lock :: bool
  fo_write :: bool
  fo_cleanup :: bool

type_synonym Disk = "utext option"

definition locked_transaction ::
  "NameHost \<Rightarrow> bool \<Rightarrow> (State \<Rightarrow> (string + 'r) \<times> State) \<Rightarrow> State \<times> Disk \<Rightarrow> (string + 'r) \<times> State \<times> Disk" where
  "locked_transaction h write run sd =
     (let (memory, disk) = sd in
      case (case disk of None \<Rightarrow> Inr [] | Some text \<Rightarrow> parseState h text) of
        Inl e \<Rightarrow> (Inl e, memory, disk)
      | Inr loaded \<Rightarrow>
          (case run loaded of
             (Inl e, after) \<Rightarrow> (Inl e, after, disk)
           | (Inr result, after) \<Rightarrow>
               if nh_stringify h (state_json loaded) \<noteq> nh_stringify h (state_json after) then
                 if write then (Inr result, after, Some (nh_stringify h (state_json after) @ [10]))
                 else (Inl ''EIO'', after, disk)
               else (Inr result, after, disk)))"

definition transaction ::
  "NameHost \<Rightarrow> bool \<Rightarrow> FileOutcome \<Rightarrow> (State \<Rightarrow> (string + 'r) \<times> State) \<Rightarrow> State \<times> Disk \<Rightarrow> (string + 'r) \<times> State \<times> Disk" where
  "transaction h filePath io run sd =
     (if \<not> filePath then (let (r, memory') = run (fst sd) in (r, memory', snd sd))
      else if \<not> fo_lock io then (Inl ''ELOCKED'', sd)
      else
        (let (r, sd') = locked_transaction h (fo_write io) run sd
         in (if fo_cleanup io then r else Inl ''EIO'', sd')))"

definition configuredMcpNameKey :: "NameHost \<Rightarrow> utext \<Rightarrow> utext" where
  "configuredMcpNameKey h server = nh_stringify h (JsonArray [JsonString (ascii_text ''configured''), JsonString server])"

definition pluginMcpNameKey :: "NameHost \<Rightarrow> utext \<Rightarrow> utext \<Rightarrow> utext \<Rightarrow> utext" where
  "pluginMcpNameKey h source plugin server =
     nh_stringify h (JsonArray [JsonString (ascii_text ''plugin''), JsonString source, JsonString plugin, JsonString server])"

section \<open>Maps built from pairs\<close>

lemma js_new_map_snoc: "js_new_map (ps @ [(k, v)]) = AList.update k v (js_new_map ps)"
  by (simp add: js_new_map_def)

lemma map_of_js_new_map: "map_of (js_new_map ps) k = map_of (rev ps) k"
proof (induction ps rule: rev_induct)
  case (snoc p ps)
  then show ?case by (cases p) (simp add: js_new_map_snoc)
qed (simp add: js_new_map_def)

lemma distinct_js_new_map: "distinct (keys (js_new_map ps))"
proof (induction ps rule: rev_induct)
  case (snoc p ps)
  then show ?case by (cases p) (simp add: js_new_map_snoc distinct_update)
qed (simp add: js_new_map_def)

lemma keys_js_new_map: "set (keys (js_new_map ps)) = set (keys ps)"
proof (induction ps rule: rev_induct)
  case (snoc p ps)
  then show ?case by (cases p; cases "fst p \<in> set (keys (js_new_map ps))") (auto simp: js_new_map_snoc)
qed (simp add: js_new_map_def)

lemma js_new_map_distinct: "distinct (keys ps) \<Longrightarrow> js_new_map ps = ps"
proof (induction ps rule: rev_induct)
  case (snoc p ps)
  then show ?case by (cases p) (simp add: js_new_map_snoc update_new)
qed (simp add: js_new_map_def)

section \<open>Tables of names\<close>

text \<open>A table assigns segments to keys: no key and no segment twice, every segment valid and within the limit.\<close>

type_synonym name_table = "(utext \<times> string) list"

definition segment_fits :: "int \<Rightarrow> string \<Rightarrow> bool" where
  "segment_fits limit s = (segment_ok s \<and> int (length s) \<le> limit)"

definition table_ok :: "int \<Rightarrow> name_table \<Rightarrow> bool" where
  "table_ok limit m = (distinct (keys m) \<and> distinct (map snd m) \<and> list_all (segment_fits limit) (map snd m))"

lemma segment_ok_Nil [simp]: "\<not> validSegment []"
  by (simp add: validSegment_def)

lemma ran_map_of: "distinct (keys m) \<Longrightarrow> ran (map_of m) = snd ` set m"
  by (rule ran_distinct)

lemma table_ok_iff:
  "table_ok limit m \<longleftrightarrow> distinct (keys m) \<and> inj_on (map_of m) (dom (map_of m)) \<and> (\<forall>s \<in> ran (map_of m). segment_fits limit s)"
proof -
  have "distinct (map snd m) \<longleftrightarrow> inj_on (map_of m) (dom (map_of m))" if d: "distinct (keys m)"
  proof -
    have "map snd m = map (\<lambda>k. the (map_of m k)) (keys m)"
      using d by (auto intro!: map_cong simp: o_def)
    then have "distinct (map snd m) \<longleftrightarrow> distinct (map (\<lambda>k. the (map_of m k)) (keys m))" by (rule arg_cong)
    also have "\<dots> \<longleftrightarrow> inj_on (\<lambda>k. the (map_of m k)) (set (keys m))" by (subst distinct_map) (simp only: d simp_thms)
    also have "\<dots> \<longleftrightarrow> inj_on (map_of m) (dom (map_of m))"
      by (auto simp: inj_on_def dom_map_of_conv_image_fst) (metis map_of_eq_None_iff option.expand image_eqI fst_conv)+
    finally show ?thesis .
  qed
  then show ?thesis by (simp add: table_ok_def list_all_iff ran_map_of cong: conj_cong)
qed

text \<open>What the allocation keeps while it works: the names given so far and the set of used segments.\<close>

definition naming_ok :: "int \<Rightarrow> (utext \<rightharpoonup> string) \<Rightarrow> string list \<Rightarrow> bool" where
  "naming_ok limit M used = (inj_on M (dom M) \<and> ran M \<subseteq> set used \<and> (\<forall>s \<in> ran M. segment_fits limit s))"

lemma naming_ok_add:
  assumes "naming_ok limit M used" "k \<notin> dom M" "s \<notin> set used" "segment_fits limit s"
  shows "naming_ok limit (M(k \<mapsto> s)) (s # used)"
proof -
  have "s \<notin> ran M" using assms by (auto simp: naming_ok_def)
  then have "inj_on (M(k \<mapsto> s)) (dom (M(k \<mapsto> s)))"
    using assms(1,2) by (auto simp: naming_ok_def inj_on_def ran_def split: if_splits)
  then show ?thesis using assms by (auto simp: naming_ok_def)
qed

section \<open>Suffixes\<close>

lemma digit_run: "is_digit c \<Longrightarrow> run_unit (of_char c) \<and> name_alnum (of_char c) \<and> c \<noteq> CHR ''_''"
  by (auto simp: is_digit_def run_unit_def name_alnum_def)

lemma runs_match_digits: "list_all is_digit ds \<Longrightarrow> ds \<noteq> [] \<Longrightarrow> runs_match r (ascii_text ds)"
  by (induction ds arbitrary: r) (case_tac ds; auto dest: digit_run)+

lemma runs_match_append: "runs_match r us \<Longrightarrow> runs_match False vs \<Longrightarrow> runs_match r (us @ 95 # vs)"
  by (induction r us rule: runs_match.induct) (auto simp: underscore_unit split: if_splits)

lemma suffixed_ok: "segment_ok p \<Longrightarrow> segment_ok (p @ CHR ''_'' # show_nat n)"
  unfolding validSegment_def
  by (auto simp: underscore_unit intro!: runs_match_append runs_match_digits show_nat_digits)

lemma suffix_loop_result:
  assumes "tidy True base"
  shows "(\<exists>c. suffix_loop used base kind limit n = Suffixed c \<and> c \<notin> set used \<and> segment_fits limit c) \<or>
    suffix_loop used base kind limit n = NoRoom (''MCP '' @ name_kind_string kind @ '' name has no room for a collision suffix'')"
  using assms
proof (induction used base kind limit n rule: suffix_loop.induct)
  case (1 used base kind limit n)
  let ?suffix = "CHR ''_'' # show_nat n"
  show ?case
  proof (cases "int (length ?suffix) \<ge> limit")
    case True
    then show ?thesis by (subst (1 2) suffix_loop.simps) simp
  next
    case False
    then obtain p where p: "shortenMcpNameSegment base (limit - int (length ?suffix)) kind = Inr p"
      using shorten_total [of "limit - int (length ?suffix)" base kind] by auto
    have ok: "segment_fits limit (p @ ?suffix)"
      using shorten_ok [OF p 1(2)] suffixed_ok by (auto simp: segment_fits_def)
    show ?thesis
    proof (cases "p @ ?suffix \<in> set used")
      case True
      then have "suffix_loop used base kind limit n = suffix_loop used base kind limit (n + 1)"
        using False p by (subst suffix_loop.simps) simp
      then show ?thesis using 1(1) [OF refl False p True 1(2)] by simp
    next
      case unused: False
      then have "suffix_loop used base kind limit n = Suffixed (p @ ?suffix)"
        using False p by (subst suffix_loop.simps) simp
      then show ?thesis using ok unused by blast
    qed
  qed
qed

text \<open>
  While fewer than \<open>10 ^ (limit - 2) - 2\<close> segments are in use the search finds a name: the numbers tried so far all give
  different used segments.
\<close>

lemma suffix_inj: "p @ CHR ''_'' # show_nat m = q @ CHR ''_'' # show_nat n \<Longrightarrow> m = n"
proof -
  assume e: "p @ CHR ''_'' # show_nat m = q @ CHR ''_'' # show_nat n"
  have d: "CHR ''_'' \<notin> set (show_nat k)" for k
    using show_nat_digits [of k] digit_run by (auto simp: list_all_iff)
  from e have "takeWhile (\<lambda>c. c \<noteq> CHR ''_'') (rev (p @ CHR ''_'' # show_nat m)) =
      takeWhile (\<lambda>c. c \<noteq> CHR ''_'') (rev (q @ CHR ''_'' # show_nat n))" by simp
  moreover have "takeWhile (\<lambda>c. c \<noteq> CHR ''_'') (rev (r @ CHR ''_'' # show_nat k)) = rev (show_nat k)" for r k
    using d [of k] by (auto simp: takeWhile_append)
  ultimately show ?thesis using show_nat_inj by (metis rev_rev_ident)
qed

lemma show_nat_length: "n < 10 ^ k \<Longrightarrow> 1 \<le> k \<Longrightarrow> length (show_nat n) \<le> k"
proof (induction n arbitrary: k rule: show_nat.induct)
  case (1 n)
  show ?case
  proof (cases "n < 10")
    case True
    then show ?thesis using 1 by (subst show_nat.simps) simp
  next
    case False
    then have "k \<noteq> 1" "k \<noteq> 0" using 1(2,3) by auto
    then obtain j where k: "k = Suc j" "1 \<le> j" by (cases k) auto
    then have "length (show_nat (n div 10)) \<le> j" using 1(1) [of j] 1(2) False by (simp add: div_less_iff_less_mult mult.commute)
    then show ?thesis using False k by (subst show_nat.simps) simp
  qed
qed

lemma no_room_uses_all:
  assumes "suffix_loop used base kind limit n = NoRoom e" "n \<le> m" "m < 10 ^ nat (limit - 2)" "3 \<le> limit"
  shows "\<exists>p. p @ CHR ''_'' # show_nat m \<in> set used"
  using assms
proof (induction used base kind limit n rule: suffix_loop.induct)
  case (1 used base kind limit n)
  let ?suffix = "CHR ''_'' # show_nat n"
  have "n < 10 ^ nat (limit - 2)" using 1(3,4) by simp
  then have "length (show_nat n) \<le> nat (limit - 2)" using 1(5) by (intro show_nat_length) auto
  then have room: "\<not> int (length ?suffix) \<ge> limit" using 1(5) by simp
  then obtain p where p: "shortenMcpNameSegment base (limit - int (length ?suffix)) kind = Inr p"
    using shorten_total [of "limit - int (length ?suffix)" base kind] by auto
  have used: "p @ ?suffix \<in> set used" using 1(2) room p by (subst (asm) suffix_loop.simps) (auto simp: Let_def split: if_splits)
  then have "suffix_loop used base kind limit (n + 1) = NoRoom e"
    using 1(2) room p by (subst (asm) suffix_loop.simps) simp
  then show ?case using 1(1) [OF refl room p used] 1(3-5) used by (cases "m = n") auto
qed

lemma suffix_loop_finds:
  assumes "tidy True base" "3 \<le> limit" "card (set used) + 2 < 10 ^ nat (limit - 2)"
  shows "\<exists>c. suffix_loop used base kind limit 2 = Suffixed c"
proof (rule ccontr)
  assume "\<not> ?thesis"
  then obtain e where e: "suffix_loop used base kind limit 2 = NoRoom e"
    using suffix_loop_result [OF assms(1), of used kind limit 2] by blast
  let ?N = "{2 ..< 10 ^ nat (limit - 2)} :: nat set"
  have "\<forall>m \<in> ?N. \<exists>p. p @ CHR ''_'' # show_nat m \<in> set used"
    using no_room_uses_all [OF e _ _ assms(2)] by auto
  then obtain f where f: "\<forall>m \<in> ?N. f m @ CHR ''_'' # show_nat m \<in> set used" by metis
  have "inj_on (\<lambda>m. f m @ CHR ''_'' # show_nat m) ?N" by (rule inj_onI) (rule suffix_inj)
  then have "card ?N \<le> card (set used)" using f by (intro card_inj_on_le) auto
  then show False using assms(3) by simp
qed

section \<open>Allocation\<close>

definition saved_name :: "name_table \<Rightarrow> utext \<Rightarrow> string option" where
  "saved_name existing k = (case map_of existing k of None \<Rightarrow> None | Some s \<Rightarrow> if s = [] then None else Some s)"

definition pending_of :: "NameHost \<Rightarrow> NameKind \<Rightarrow> int \<Rightarrow> name_table \<Rightarrow> McpNameCandidate \<Rightarrow> PendingName option" where
  "pending_of h kind limit existing c =
     (if saved_name existing (cd_key c) \<noteq> None then None
      else case base_segment h kind limit (cd_name c) of
          Inl e \<Rightarrow> None
        | Inr base \<Rightarrow> Some \<lparr>pn_key = cd_key c, pn_base = base, pn_natural = (ascii_text base = cd_name c)\<rparr>)"

lemma prepare_loop_pending:
  "snd (prepare_loop h kind limit existing a pending cs) = pending @ List.map_filter (pending_of h kind limit existing) cs"
  by (induction h kind limit existing a pending cs rule: prepare_loop.induct)
     (auto simp: Let_def pending_of_def saved_name_def List.map_filter_simps split: option.splits sum.splits)

lemma prepare_loop_names:
  "map_of (na_names (fst (prepare_loop h kind limit existing a pending cs))) k =
     (if k \<in> cd_key ` set cs \<and> saved_name existing k \<noteq> None then saved_name existing k else map_of (na_names a) k)"
  by (induction h kind limit existing a pending cs rule: prepare_loop.induct)
     (auto simp: Let_def saved_name_def split: option.splits sum.splits)

lemma prepare_loop_errors:
  "distinct (map cd_key cs) \<Longrightarrow> map_of (na_errors (fst (prepare_loop h kind limit existing a pending cs))) k =
     (case map_of (map (\<lambda>c. (cd_key c, cd_name c)) cs) k of
        None \<Rightarrow> map_of (na_errors a) k
      | Some v \<Rightarrow>
          if saved_name existing k \<noteq> None then map_of (na_errors a) k
          else case base_segment h kind limit v of Inl e \<Rightarrow> Some e | Inr _ \<Rightarrow> map_of (na_errors a) k)"
proof (induction h kind limit existing a pending cs rule: prepare_loop.induct)
  case (2 h kind limit existing a pending c cs)
  have "map_of (map (\<lambda>c. (cd_key c, cd_name c)) cs) (cd_key c) = None" using 2(4) by (force simp: map_of_eq_None_iff)
  with 2 show ?case by (auto simp: Let_def saved_name_def split: option.splits sum.splits)
qed simp

text \<open>A pending list: different keys that have no name yet, with bases that fit.\<close>

definition pending_ok :: "int \<Rightarrow> (utext \<rightharpoonup> string) \<Rightarrow> PendingName list \<Rightarrow> bool" where
  "pending_ok limit M ps =
     (distinct (map pn_key ps) \<and> pn_key ` set ps \<inter> dom M = {} \<and> (\<forall>p \<in> set ps. segment_fits limit (pn_base p)))"

abbreviation names_of :: "McpNameAssignments \<Rightarrow> utext \<rightharpoonup> string" where
  "names_of a \<equiv> map_of (na_names a)"

abbreviation errors_of :: "McpNameAssignments \<Rightarrow> utext \<rightharpoonup> string" where
  "errors_of a \<equiv> map_of (na_errors a)"

definition add_name :: "utext \<Rightarrow> string \<Rightarrow> McpNameAssignments \<Rightarrow> McpNameAssignments" where
  "add_name k s a = a\<lparr>na_names := AList.update k s (na_names a)\<rparr>"

definition add_error :: "utext \<Rightarrow> string \<Rightarrow> McpNameAssignments \<Rightarrow> McpNameAssignments" where
  "add_error k s a = a\<lparr>na_errors := AList.update k s (na_errors a)\<rparr>"

lemma add_sel [simp]:
  "names_of (add_name k s a) = (names_of a)(k \<mapsto> s)" "na_errors (add_name k s a) = na_errors a"
  "errors_of (add_error k e a) = (errors_of a)(k \<mapsto> e)" "na_names (add_error k e a) = na_names a"
  by (auto simp: add_name_def add_error_def)

lemma naming_ok_add_name:
  assumes "naming_ok limit (E ++ names_of a) used" "pending_ok limit (E ++ names_of a) (p # ps)" "s \<notin> set used" "segment_fits limit s"
  shows "naming_ok limit (E ++ names_of (add_name (pn_key p) s a)) (s # used)"
    "pending_ok limit (E ++ names_of (add_name (pn_key p) s a)) ps"
  using naming_ok_add [OF assms(1) _ assms(3,4), of "pn_key p"] assms(2) by (auto simp: pending_ok_def map_add_upd)

lemma place_loop_ok:
  assumes "place_loop used a conflicts ps = (used', a', conflicts')"
    and "naming_ok limit (E ++ names_of a) used" and "pending_ok limit (E ++ names_of a) (conflicts @ ps)"
  shows "naming_ok limit (E ++ names_of a') used' \<and> pending_ok limit (E ++ names_of a') conflicts' \<and>
    na_errors a' = na_errors a \<and> names_of a \<subseteq>\<^sub>m names_of a' \<and>
    dom (names_of a') \<union> pn_key ` set conflicts' = dom (names_of a) \<union> pn_key ` set (conflicts @ ps) \<and>
    card (set used') + length conflicts' \<le> card (set used) + length (conflicts @ ps)"
  using assms
proof (induction used a conflicts ps rule: place_loop.induct)
  case (2 used a conflicts p ps)
  show ?case
  proof (cases "pn_base p \<in> set used")
    case True
    then show ?thesis using 2(1) 2(3-) by simp
  next
    case False
    let ?a = "add_name (pn_key p) (pn_base p) a"
    have p: "pending_ok limit (E ++ names_of a) (p # conflicts @ ps)" "segment_fits limit (pn_base p)"
      using 2(5) by (auto simp: pending_ok_def)
    note n = naming_ok_add_name [OF 2(4) p(1) False p(2)]
    have "naming_ok limit (E ++ names_of a') used' \<and> pending_ok limit (E ++ names_of a') conflicts' \<and>
      na_errors a' = na_errors ?a \<and> names_of ?a \<subseteq>\<^sub>m names_of a' \<and>
      dom (names_of a') \<union> pn_key ` set conflicts' = dom (names_of ?a) \<union> pn_key ` set (conflicts @ ps) \<and>
      card (set used') + length conflicts' \<le> card (set (pn_base p # used)) + length (conflicts @ ps)"
      by (rule 2(2) [OF False, folded add_name_def, OF _ n]) (use False 2(3) in \<open>simp add: add_name_def\<close>)
    moreover have "names_of a \<subseteq>\<^sub>m names_of ?a" using p(1) by (auto simp: map_le_def pending_ok_def)
    ultimately show ?thesis using False by (auto intro: map_le_trans)
  qed
qed simp

lemma resolve_loop_ok:
  assumes "naming_ok limit (E ++ names_of a) used" "pending_ok limit (E ++ names_of a) ps"
    and "pn_key ` set ps \<inter> dom (errors_of a) = {}"
  shows "\<exists>r used'. resolve_loop kind limit used a ps = Inr r \<and> naming_ok limit (E ++ names_of r) used' \<and> names_of a \<subseteq>\<^sub>m names_of r \<and>
    errors_of a \<subseteq>\<^sub>m errors_of r \<and>
    dom (names_of r) \<union> dom (errors_of r) = dom (names_of a) \<union> dom (errors_of a) \<union> pn_key ` set ps \<and>
    (dom (names_of a) \<inter> dom (errors_of a) = {} \<longrightarrow> dom (names_of r) \<inter> dom (errors_of r) = {}) \<and>
    (3 \<le> limit \<and> card (set used) + length ps + 2 \<le> 10 ^ nat (limit - 2) \<longrightarrow> na_errors r = na_errors a)"
  using assms
proof (induction ps arbitrary: used a)
  case (Cons p ps)
  let ?L = "10 ^ nat (limit - 2) :: nat"
  have t: "tidy True (pn_base p)" using Cons.prems(2) valid_tidy by (auto simp: pending_ok_def segment_fits_def)
  consider (named) c where "suffix_loop used (pn_base p) kind limit 2 = Suffixed c" "c \<notin> set used" "segment_fits limit c"
    | (full) e where "suffix_loop used (pn_base p) kind limit 2 = NoRoom e"
    using suffix_loop_result [OF t] by metis
  then show ?case
  proof cases
    case named
    let ?a = "add_name (pn_key p) c a"
    note n = naming_ok_add_name [OF Cons.prems(1,2) named(2,3)]
    have pre: "pn_key ` set ps \<inter> dom (errors_of ?a) = {}" using Cons.prems(3) by auto
    obtain r used' where r: "resolve_loop kind limit (c # used) ?a ps = Inr r" "naming_ok limit (E ++ names_of r) used'"
      "names_of ?a \<subseteq>\<^sub>m names_of r" "errors_of ?a \<subseteq>\<^sub>m errors_of r"
      "dom (names_of r) \<union> dom (errors_of r) = dom (names_of ?a) \<union> dom (errors_of ?a) \<union> pn_key ` set ps"
      "dom (names_of ?a) \<inter> dom (errors_of ?a) = {} \<longrightarrow> dom (names_of r) \<inter> dom (errors_of r) = {}"
      "3 \<le> limit \<and> card (set (c # used)) + length ps + 2 \<le> ?L \<longrightarrow> na_errors r = na_errors ?a"
      using Cons.IH [OF n pre] by blast
    have "resolve_loop kind limit used a (p # ps) = Inr r" using named(1) r(1) by (simp add: add_name_def)
    moreover have "names_of a \<subseteq>\<^sub>m names_of ?a" using Cons.prems(2) by (auto simp: map_le_def pending_ok_def)
    then have "names_of a \<subseteq>\<^sub>m names_of r" using r(3) map_le_trans by blast
    moreover have d: "dom (names_of ?a) = insert (pn_key p) (dom (names_of a))" "na_errors ?a = na_errors a" by auto
    have "dom (names_of r) \<union> dom (errors_of r) = dom (names_of a) \<union> dom (errors_of a) \<union> pn_key ` set (p # ps)"
      using r(5) unfolding d by auto
    moreover have "dom (names_of a) \<inter> dom (errors_of a) = {} \<longrightarrow> dom (names_of r) \<inter> dom (errors_of r) = {}"
      using r(6) Cons.prems(3) unfolding d by auto
    moreover have "3 \<le> limit \<and> card (set used) + length (p # ps) + 2 \<le> ?L \<longrightarrow> na_errors r = na_errors a"
      using r(7) named(2) unfolding d by simp
    moreover have "errors_of a \<subseteq>\<^sub>m errors_of r" using r(4) unfolding d .
    ultimately show ?thesis using r(2) by blast
  next
    case full
    let ?a = "add_error (pn_key p) e a"
    have no_space: "\<not> (3 \<le> limit \<and> card (set used) + 2 < ?L)" using suffix_loop_finds [OF t, of limit used kind] full by auto
    have pre: "naming_ok limit (E ++ names_of ?a) used" "pending_ok limit (E ++ names_of ?a) ps"
      "pn_key ` set ps \<inter> dom (errors_of ?a) = {}"
      using Cons.prems by (auto simp: pending_ok_def)
    obtain r used' where r: "resolve_loop kind limit used ?a ps = Inr r" "naming_ok limit (E ++ names_of r) used'"
      "names_of ?a \<subseteq>\<^sub>m names_of r" "errors_of ?a \<subseteq>\<^sub>m errors_of r"
      "dom (names_of r) \<union> dom (errors_of r) = dom (names_of ?a) \<union> dom (errors_of ?a) \<union> pn_key ` set ps"
      "dom (names_of ?a) \<inter> dom (errors_of ?a) = {} \<longrightarrow> dom (names_of r) \<inter> dom (errors_of r) = {}"
      using Cons.IH [OF pre] by blast
    have "resolve_loop kind limit used a (p # ps) = Inr r" using full r(1) by (simp add: add_error_def)
    moreover have "errors_of a \<subseteq>\<^sub>m errors_of ?a" using Cons.prems(3) by (auto simp: map_le_def)
    then have "errors_of a \<subseteq>\<^sub>m errors_of r" using r(4) map_le_trans by blast
    moreover have d: "dom (errors_of ?a) = insert (pn_key p) (dom (errors_of a))" "names_of ?a = names_of a" by auto
    have "dom (names_of r) \<union> dom (errors_of r) = dom (names_of a) \<union> dom (errors_of a) \<union> pn_key ` set (p # ps)"
      using r(5) unfolding d by auto
    moreover have "dom (names_of a) \<inter> dom (errors_of a) = {} \<longrightarrow> dom (names_of r) \<inter> dom (errors_of r) = {}"
      using r(6) Cons.prems(2) unfolding d by (auto simp: pending_ok_def)
    moreover have "3 \<le> limit \<and> card (set used) + length (p # ps) + 2 \<le> ?L \<longrightarrow> na_errors r = na_errors a"
      using no_space by auto
    moreover have "names_of a \<subseteq>\<^sub>m names_of r" using r(3) unfolding d .
    ultimately show ?thesis using r(2) by blast
  qed
qed auto

text \<open>Of several candidates with one key the last one counts.\<close>

definition candidate_name :: "McpNameCandidate list \<Rightarrow> utext \<rightharpoonup> utext" where
  "candidate_name cs = map_of (rev (map (\<lambda>c. (cd_key c, cd_name c)) cs))"

lemma set_js_new_map: "set (js_new_map ps) \<subseteq> set ps"
proof (induction ps rule: rev_induct)
  case (snoc p ps)
  have "set (AList.update k v m) \<subseteq> insert (k, v) (set m)" for k v and m :: "('a \<times> 'b) list" by (induction m) auto
  with snoc show ?case by (cases p) (fastforce simp: js_new_map_snoc)
qed (simp add: js_new_map_def)

lemma unique_candidates:
  "distinct (map cd_key (unique_candidates cs))" "cd_key ` set (unique_candidates cs) = cd_key ` set cs"
  "map_of (map (\<lambda>c. (cd_key c, cd_name c)) (unique_candidates cs)) = candidate_name cs"
  "length (unique_candidates cs) \<le> length cs"
proof -
  define m where "m = js_new_map (map (\<lambda>c. (cd_key c, c)) cs)"
  have m: "fst p = cd_key (snd p)" if "p \<in> set m" for p
    using set_js_new_map [of "map (\<lambda>c. (cd_key c, c)) cs"] that unfolding m_def by auto
  have u: "unique_candidates cs = sort_key cd_key (map snd m)" by (simp add: unique_candidates_def m_def)
  have k: "map cd_key (map snd m) = keys m" using m by simp
  have d: "distinct (keys m)" unfolding m_def by (rule distinct_js_new_map)
  have "distinct (map cd_key (map snd m))" unfolding k by (rule d)
  then show dk: "distinct (map cd_key (unique_candidates cs))"
    unfolding u distinct_map [of cd_key] distinct_sort set_sort .
  have s: "set (unique_candidates cs) = snd ` set m" unfolding u by simp
  have "cd_key ` set (unique_candidates cs) = fst ` set m" unfolding s image_image using m by (intro image_cong) auto
  also have "\<dots> = cd_key ` set cs"
    using keys_js_new_map [of "map (\<lambda>c. (cd_key c, c)) cs"] unfolding m_def by (simp add: image_image)
  finally show "cd_key ` set (unique_candidates cs) = cd_key ` set cs" .
  have "map_of (map (\<lambda>c. (cd_key c, cd_name c)) (unique_candidates cs)) = map_of (map (\<lambda>(k, c). (k, cd_name c)) m)"
  proof (subst map_of_inject_set)
    show "distinct (keys (map (\<lambda>c. (cd_key c, cd_name c)) (unique_candidates cs)))" using dk by (simp add: comp_def)
    show "distinct (keys (map (\<lambda>(k, c). (k, cd_name c)) m))" using d by (simp add: comp_def case_prod_unfold)
    show "set (map (\<lambda>c. (cd_key c, cd_name c)) (unique_candidates cs)) = set (map (\<lambda>(k, c). (k, cd_name c)) m)"
      using m by (auto simp: s image_image case_prod_unfold)
  qed
  also have "\<dots> = (\<lambda>k. map_option cd_name (map_of m k))" by (rule ext) (simp add: map_of_map)
  also have "\<dots> = candidate_name cs"
  proof
    fix k
    have "map_option cd_name (map_of (map (\<lambda>c. (cd_key c, c)) ds) k) = map_of (map (\<lambda>c. (cd_key c, cd_name c)) ds) k" for ds
      by (induction ds) auto
    then show "map_option cd_name (map_of m k) = candidate_name cs k"
      unfolding m_def map_of_js_new_map candidate_name_def rev_map .
  qed
  finally show "map_of (map (\<lambda>c. (cd_key c, cd_name c)) (unique_candidates cs)) = candidate_name cs" .
  have "length m = card (fst ` set m)" using d by (metis distinct_card length_map set_map)
  also have "\<dots> = card (cd_key ` set cs)"
    using keys_js_new_map [of "map (\<lambda>c. (cd_key c, c)) cs"] unfolding m_def by (simp add: image_image)
  also have "\<dots> \<le> length cs" by (metis card_length length_map set_map)
  finally show "length (unique_candidates cs) \<le> length cs" unfolding u by simp
qed

lemma base_segment_fits: "base_segment h kind limit v = Inr b \<Longrightarrow> segment_fits limit b"
  using normalize_tidy shorten_ok by (fastforce simp: base_segment_def segment_fits_def split: sum.splits)

lemma map_filter_keys:
  assumes "\<And>c p. f c = Some p \<Longrightarrow> pn_key p = cd_key c" "distinct (map cd_key cs)"
  shows "distinct (map pn_key (List.map_filter f cs))" "set (List.map_filter f cs) = {p. \<exists>c \<in> set cs. f c = Some p}"
proof -
  show s: "set (List.map_filter f cs) = {p. \<exists>c \<in> set cs. f c = Some p}" for cs
    by (induction cs) (auto simp: List.map_filter_simps split: option.splits)
  show "distinct (map pn_key (List.map_filter f cs))"
    using assms(2)
  proof (induction cs)
    case (Cons c cs)
    have "pn_key p \<noteq> cd_key c" if "p \<in> set (List.map_filter f cs)" for p
      using that Cons.prems assms(1) s [of cs] by (auto simp: image_iff)
    then have n: "cd_key c \<notin> pn_key ` set (List.map_filter f cs)" by (metis imageE)
    have d: "distinct (map pn_key (List.map_filter f cs))" using Cons by simp
    show ?case
    proof (cases "f c")
      case (Some p)
      then show ?thesis using n d assms(1) [OF Some] by (simp add: List.map_filter_simps)
    qed (simp add: List.map_filter_simps d)
  qed (simp add: List.map_filter_simps)
qed

lemma saved_name_table:
  assumes "table_ok limit existing"
  shows "saved_name existing k = map_of existing k"
proof (cases "map_of existing k")
  case (Some s)
  then have "s \<in> ran (map_of existing)" by (rule ranI)
  then have "s \<noteq> []" using assms by (auto simp: table_ok_iff segment_fits_def simp del: ran_map_of)
  then show ?thesis using Some by (simp add: saved_name_def)
qed (simp add: saved_name_def)

lemma pending_of_key: "pending_of h kind limit existing c = Some q \<Longrightarrow> pn_key q = cd_key c"
  by (auto simp: pending_of_def split: if_splits sum.splits)

lemma pending_of_base:
  "pending_of h kind limit existing c = Some q \<Longrightarrow>
   saved_name existing (cd_key c) = None \<and> base_segment h kind limit (cd_name c) = Inr (pn_base q)"
  by (auto simp: pending_of_def split: if_splits sum.splits)

lemma candidate_of_unique:
  assumes "c \<in> set (unique_candidates cs)"
  shows "candidate_name cs (cd_key c) = Some (cd_name c)"
  unfolding unique_candidates(3) [symmetric] using assms unique_candidates(1) [of cs]
  by (intro map_of_is_SomeI) (auto simp: comp_def)

lemma dom_candidate_name: "dom (candidate_name cs) = cd_key ` set cs"
  by (simp add: candidate_name_def dom_map_of_conv_image_fst image_image)

lemma candidate_unique:
  assumes "candidate_name cs k = Some v"
  obtains c where "c \<in> set (unique_candidates cs)" "cd_key c = k" "cd_name c = v"
  using assms unfolding unique_candidates(3) [symmetric] by (auto dest!: map_of_SomeD)

lemma pending_of_Some:
  "saved_name existing (cd_key c) = None \<Longrightarrow> base_segment h kind limit (cd_name c) = Inr b \<Longrightarrow>
   \<exists>q. pending_of h kind limit existing c = Some q"
  by (simp add: pending_of_def)

text \<open>What the first loop leaves behind: saved names, errors of unusable names, and everything else pending.\<close>

lemma prepare_spec:
  assumes ok: "table_ok limit existing"
  obtains a ps where
    "prepare_loop h kind limit existing \<lparr>na_names = [], na_errors = []\<rparr> [] (unique_candidates cs) = (a, ps)"
    "\<And>k. names_of a k = (if k \<in> cd_key ` set cs then map_of existing k else None)"
    "\<And>k. errors_of a k = (case candidate_name cs k of None \<Rightarrow> None | Some v \<Rightarrow>
       if map_of existing k \<noteq> None then None else case base_segment h kind limit v of Inl e \<Rightarrow> Some e | Inr _ \<Rightarrow> None)"
    "distinct (map pn_key ps)"
    "\<forall>q \<in> set ps.
       \<exists>v. candidate_name cs (pn_key q) = Some v \<and> map_of existing (pn_key q) = None \<and> base_segment h kind limit v = Inr (pn_base q)"
    "\<forall>k v b. candidate_name cs k = Some v \<and> map_of existing k = None \<and> base_segment h kind limit v = Inr b \<longrightarrow> k \<in> pn_key ` set ps"
    "length ps \<le> length cs"
proof -
  let ?u = "unique_candidates cs"
  let ?p = "prepare_loop h kind limit existing \<lparr>na_names = [], na_errors = []\<rparr> [] ?u"
  let ?pend = "pending_of h kind limit existing"
  define a where "a = fst ?p"
  define ps where "ps = List.map_filter ?pend ?u"
  have p: "?p = (a, ps)"
    using prepare_loop_pending [of h kind limit existing _ "[]" ?u] by (simp add: a_def ps_def prod_eq_iff)
  have saved: "saved_name existing k = map_of existing k" for k using ok by (rule saved_name_table)
  have names: "names_of a k = (if k \<in> cd_key ` set cs then map_of existing k else None)" for k
    unfolding a_def prepare_loop_names by (simp add: saved unique_candidates(2))
  have errors: "errors_of a k = (case candidate_name cs k of None \<Rightarrow> None | Some v \<Rightarrow>
      if map_of existing k \<noteq> None then None else case base_segment h kind limit v of Inl e \<Rightarrow> Some e | Inr _ \<Rightarrow> None)" for k
    unfolding a_def prepare_loop_errors [OF unique_candidates(1)] saved unique_candidates(3)
    by (simp split: option.splits sum.splits)
  have pk: "distinct (map pn_key ps)" "set ps = {p. \<exists>c \<in> set ?u. ?pend c = Some p}"
    unfolding ps_def by (rule map_filter_keys [OF _ unique_candidates(1)]; erule pending_of_key)+
  have q: "\<exists>v. candidate_name cs (pn_key q) = Some v \<and> map_of existing (pn_key q) = None \<and> base_segment h kind limit v = Inr (pn_base q)"
    if q: "q \<in> set ps" for q
  proof -
    obtain c where c: "c \<in> set ?u" "?pend c = Some q" using q pk(2) by blast
    show ?thesis using candidate_of_unique [OF c(1)] pending_of_key [OF c(2)] pending_of_base [OF c(2)] saved by auto
  qed
  have conv: "k \<in> pn_key ` set ps" if kv: "candidate_name cs k = Some v" and new: "map_of existing k = None" "base_segment h kind limit v = Inr b" for k v b
  proof -
    obtain c where c: "c \<in> set ?u" "cd_key c = k" "cd_name c = v" by (rule candidate_unique [OF kv])
    obtain q where q: "?pend c = Some q"
      using pending_of_Some [of existing c h kind limit b] new saved c(2,3) by auto
    then have "q \<in> set ps" unfolding pk(2) using c(1) by blast
    then show ?thesis using pending_of_key [OF q] c(2) by (metis imageI)
  qed
  have "length (List.map_filter f xs) \<le> length xs" for f and xs :: "McpNameCandidate list"
    by (induction xs) (auto simp: List.map_filter_simps split: option.splits)
  then have "length ps \<le> length cs" unfolding ps_def using unique_candidates(4) le_trans by blast
  moreover have "\<forall>k v b. candidate_name cs k = Some v \<and> map_of existing k = None \<and> base_segment h kind limit v = Inr b \<longrightarrow> k \<in> pn_key ` set ps"
    using conv by blast
  moreover have "\<forall>q \<in> set ps.
      \<exists>v. candidate_name cs (pn_key q) = Some v \<and> map_of existing (pn_key q) = None \<and> base_segment h kind limit v = Inr (pn_base q)"
    using q by blast
  ultimately show thesis by (intro that [OF p names errors pk(1)])
qed

lemma allocate_ok:
  assumes ok: "table_ok limit existing"
  obtains r used where "allocate h cs existing kind limit = Inr r" "naming_ok limit (map_of existing ++ names_of r) used"
    "dom (names_of r) \<union> dom (errors_of r) = cd_key ` set cs" "dom (names_of r) \<inter> dom (errors_of r) = {}"
    "\<And>k s. k \<in> cd_key ` set cs \<Longrightarrow> map_of existing k = Some s \<Longrightarrow> names_of r k = Some s"
    "\<And>k v e. candidate_name cs k = Some v \<Longrightarrow> map_of existing k = None \<Longrightarrow> base_segment h kind limit v = Inl e \<Longrightarrow> errors_of r k = Some e"
    "\<And>k e. 3 \<le> limit \<and> length existing + length cs + 2 \<le> 10 ^ nat (limit - 2) \<Longrightarrow> errors_of r k = Some e \<Longrightarrow>
      \<exists>v. candidate_name cs k = Some v \<and> map_of existing k = None \<and> base_segment h kind limit v = Inl e"
proof -
  obtain a ps where p: "prepare_loop h kind limit existing \<lparr>na_names = [], na_errors = []\<rparr> [] (unique_candidates cs) = (a, ps)"
    and names: "\<And>k. names_of a k = (if k \<in> cd_key ` set cs then map_of existing k else None)"
    and errors: "\<And>k. errors_of a k = (case candidate_name cs k of None \<Rightarrow> None | Some v \<Rightarrow>
       if map_of existing k \<noteq> None then None else case base_segment h kind limit v of Inl e \<Rightarrow> Some e | Inr _ \<Rightarrow> None)"
    and dps: "distinct (map pn_key ps)"
    and q: "\<forall>q \<in> set ps.
       \<exists>v. candidate_name cs (pn_key q) = Some v \<and> map_of existing (pn_key q) = None \<and> base_segment h kind limit v = Inr (pn_base q)"
    and conv: "\<forall>k v b. candidate_name cs k = Some v \<and> map_of existing k = None \<and> base_segment h kind limit v = Inr b \<longrightarrow> k \<in> pn_key ` set ps"
    and len: "length ps \<le> length cs"
    by (rule prepare_spec [OF ok, where h = h and kind = kind and cs = cs]) (rule that; assumption)
  let ?q = "sort_key (pending_order h) ps"
  have E: "map_of existing ++ names_of a = map_of existing" by (rule ext) (simp add: map_add_def names split: option.splits)
  have M: "naming_ok limit (map_of existing ++ names_of a) (map snd existing)"
    using ok ran_map_of [of existing] unfolding E table_ok_iff naming_ok_def by simp
  have P: "pending_ok limit (map_of existing ++ names_of a) ([] @ ?q)"
    unfolding E pending_ok_def using dps q by (fastforce simp: distinct_map intro: base_segment_fits)
  obtain used a' conflicts where pl: "place_loop (map snd existing) a [] ?q = (used, a', conflicts)" by (metis prod_cases3)
  note L = place_loop_ok [OF pl M P]
  have no_error: "errors_of a (pn_key q) = None" if "q \<in> set ps" for q using bspec [OF q that] by (auto simp: errors)
  have all: "dom (names_of a) \<union> pn_key ` set ps \<union> dom (errors_of a) = cd_key ` set cs" (is "?A = ?B")
  proof
    show "?A \<subseteq> ?B" using dom_candidate_name [of cs] q by (fastforce simp: dom_def names errors split: if_splits option.splits)
    show "?B \<subseteq> ?A"
    proof
      fix k
      assume k: "k \<in> ?B"
      then obtain v where v: "candidate_name cs k = Some v" using dom_candidate_name [of cs] by blast
      show "k \<in> ?A"
        using conv k v names [of k] errors [of k] by (cases "map_of existing k"; cases "base_segment h kind limit v") auto
    qed
  qed
  have ea: "na_errors a' = na_errors a" using L by blast
  have dn: "dom (names_of a') \<union> pn_key ` set conflicts = dom (names_of a) \<union> pn_key ` set ps" using L by simp
  have "dom (names_of a) \<subseteq> dom (names_of a')" using L map_le_implies_dom_le by blast
  moreover have "pn_key ` set conflicts \<inter> dom (names_of a') = {}" using L by (auto simp: pending_ok_def)
  ultimately have "pn_key ` set conflicts \<subseteq> pn_key ` set ps" using dn by blast
  then have free: "pn_key ` set conflicts \<inter> dom (errors_of a') = {}" using no_error unfolding ea by (auto simp: domIff)
  obtain r used' where r: "resolve_loop kind limit used a' conflicts = Inr r" "naming_ok limit (map_of existing ++ names_of r) used'"
    "names_of a' \<subseteq>\<^sub>m names_of r" "errors_of a' \<subseteq>\<^sub>m errors_of r"
    "dom (names_of r) \<union> dom (errors_of r) = dom (names_of a') \<union> dom (errors_of a') \<union> pn_key ` set conflicts"
    "dom (names_of a') \<inter> dom (errors_of a') = {} \<longrightarrow> dom (names_of r) \<inter> dom (errors_of r) = {}"
    "3 \<le> limit \<and> card (set used) + length conflicts + 2 \<le> 10 ^ nat (limit - 2) \<longrightarrow> na_errors r = na_errors a'"
    using resolve_loop_ok [OF L [THEN conjunct1] L [THEN conjunct2, THEN conjunct1] free, of kind] by (elim exE conjE) (rule that)
  have "allocate h cs existing kind limit = Inr r" using p pl r(1) by (simp add: allocate_def)
  moreover have "dom (names_of r) \<union> dom (errors_of r) = (dom (names_of a') \<union> pn_key ` set conflicts) \<union> dom (errors_of a)"
    unfolding r(5) ea by (simp only: Un_ac)
  then have "dom (names_of r) \<union> dom (errors_of r) = cd_key ` set cs" unfolding dn all .
  moreover have "dom (names_of r) \<inter> dom (errors_of r) = {}"
  proof -
    have "dom (names_of a) \<inter> dom (errors_of a) = {}" by (auto simp: names errors split: if_splits option.splits)
    moreover have "pn_key ` set ps \<inter> dom (errors_of a) = {}" using no_error by fastforce
    ultimately have "dom (names_of a') \<inter> dom (errors_of a') = {}" using dn unfolding ea by blast
    then show ?thesis using r(6) by blast
  qed
  moreover have "names_of r k = Some s" if "k \<in> cd_key ` set cs" "map_of existing k = Some s" for k s
  proof -
    have "names_of a k = Some s" using that names by simp
    moreover have "names_of a \<subseteq>\<^sub>m names_of r" using L r(3) map_le_trans by blast
    ultimately show ?thesis by (metis domI map_le_def)
  qed
  moreover have "errors_of r k = Some e"
    if "candidate_name cs k = Some v" "map_of existing k = None" "base_segment h kind limit v = Inl e" for k v e
  proof -
    have "errors_of a' k = Some e" using that errors unfolding ea by simp
    then show ?thesis using r(4) by (metis domI map_le_def)
  qed
  moreover have "\<exists>v. candidate_name cs k = Some v \<and> map_of existing k = None \<and> base_segment h kind limit v = Inl e"
    if "3 \<le> limit \<and> length existing + length cs + 2 \<le> 10 ^ nat (limit - 2)" "errors_of r k = Some e" for k e
  proof -
    have "card (set used) + length conflicts \<le> length existing + length cs"
      using L len card_length [of "map snd existing"] by simp
    then have "errors_of a k = Some e" using r(7) that ea by auto
    then show ?thesis unfolding errors by (auto split: option.splits if_splits sum.splits)
  qed
  ultimately show thesis using that [of r used'] r(2) by blast
qed

section \<open>Well-formed registries\<close>

definition server_table :: "State \<Rightarrow> name_table" where
  "server_table s = map (\<lambda>e. (sa_key e, sa_segment e)) s"

definition tool_table :: "ToolAssignment list \<Rightarrow> name_table" where
  "tool_table ts = map (\<lambda>t. (ta_raw t, ta_segment t)) ts"

definition tool_limit :: "string \<Rightarrow> int" where
  "tool_limit server = MCP_RUNTIME_TOOL_NAME_MAX_LENGTH - 7 - int (length server)"

definition tools_ok :: "ServerAssignment \<Rightarrow> bool" where
  "tools_ok e = table_ok (tool_limit (sa_segment e)) (tool_table (sa_tools e))"

definition registry_ok :: "State \<Rightarrow> bool" where
  "registry_ok s = (table_ok MCP_RUNTIME_SERVER_SEGMENT_MAX_LENGTH (server_table s) \<and> list_all tools_ok s)"

lemma table_simps [simp]:
  "server_table [] = []" "server_table (s @ s2) = server_table s @ server_table s2" "server_table (e # s) = (sa_key e, sa_segment e) # server_table s"
  "tool_table [] = []" "tool_table (ts @ us) = tool_table ts @ tool_table us" "tool_table (t # ts) = (ta_raw t, ta_segment t) # tool_table ts"
  "keys (server_table s) = map sa_key s" "map snd (server_table s) = map sa_segment s"
  "keys (tool_table ts) = map ta_raw ts" "map snd (tool_table ts) = map ta_segment ts"
  by (simp_all add: server_table_def tool_table_def comp_def)

lemma table_ok_snoc:
  "table_ok limit (m @ [(k, s)]) \<longleftrightarrow> table_ok limit m \<and> k \<notin> set (keys m) \<and> s \<notin> set (map snd m) \<and> segment_fits limit s"
  by (auto simp: table_ok_def)

lemma table_ok_append: "table_ok limit (m @ n) \<Longrightarrow> table_ok limit m"
  by (auto simp: table_ok_def)

lemma table_ok_Nil [simp]: "table_ok limit []"
  by (simp add: table_ok_def)

subsection \<open>Reading back what was saved\<close>

lemma char_of_ascii [simp]: "map char_of (ascii_text s) = s"
  by (induction s) simp_all

lemma ascii_char_of: "validSegment u \<Longrightarrow> ascii_text (map char_of u) = u"
proof -
  have r: "c mod 256 = c" if "run_unit c" for c using that by (auto simp: run_unit_def name_alnum_def)
  have "runs_match f u \<Longrightarrow> ascii_text (map char_of u) = u" for f
    by (induction f u rule: runs_match.induct) (auto simp: r split: if_splits)
  then show "validSegment u \<Longrightarrow> ascii_text (map char_of u) = u" unfolding validSegment_def by blast
qed

lemma json_fields [simp]:
  "json_string_field ''raw'' (tool_json t) = Some (ta_raw t)"
  "json_segment_field ''segment'' (tool_json t) = (if segment_ok (ta_segment t) then Some (ta_segment t) else None)"
  "json_string_field ''key'' (server_json e) = Some (sa_key e)" "json_string_field ''raw'' (server_json e) = Some (sa_raw e)"
  "json_segment_field ''segment'' (server_json e) = (if segment_ok (sa_segment e) then Some (sa_segment e) else None)"
  "json_array_field ''tools'' (server_json e) = Some (map tool_json (sa_tools e))"
  by (simp_all add: json_string_field_def json_segment_field_def json_array_field_def json_field_def tool_json_def server_json_def)

lemma segment_field_ok: "json_segment_field f j = Some s \<Longrightarrow> segment_ok s"
  by (auto simp: json_segment_field_def ascii_char_of split: option.splits if_splits)

lemma parse_tools_saved:
  "table_ok (tool_limit server) (tool_table (seen @ ts)) \<Longrightarrow> parse_tools server seen (map tool_json ts) = Inr (seen @ ts)"
proof (induction ts arbitrary: seen)
  case (Cons t ts)
  have "table_ok (tool_limit server) (tool_table seen @ [(ta_raw t, ta_segment t)])"
    using Cons.prems table_ok_append [of _ "tool_table seen @ [(ta_raw t, ta_segment t)]" "tool_table ts"] by simp
  then show ?case using Cons.IH [of "seen @ [t]"] Cons.prems
    by (cases t) (auto simp: table_ok_snoc segment_fits_def tool_limit_def)
qed simp

lemma parse_tools_ok:
  "parse_tools server seen js = Inr ts \<Longrightarrow> table_ok (tool_limit server) (tool_table seen) \<Longrightarrow> table_ok (tool_limit server) (tool_table ts)"
  by (induction server seen js rule: parse_tools.induct)
     (auto simp: table_ok_snoc segment_fits_def tool_limit_def not_less dest!: segment_field_ok split: option.splits if_splits)

lemma parse_servers_saved:
  "registry_ok (seen @ s) \<Longrightarrow> parse_servers seen (map server_json s) = Inr (seen @ s)"
proof (induction s arbitrary: seen)
  case (Cons e s)
  have t: "table_ok MCP_RUNTIME_SERVER_SEGMENT_MAX_LENGTH (server_table seen @ [(sa_key e, sa_segment e)])"
    using Cons.prems table_ok_append [of _ "server_table seen @ [(sa_key e, sa_segment e)]" "server_table s"] by (simp add: registry_ok_def)
  have "parse_tools (sa_segment e) [] (map tool_json (sa_tools e)) = Inr (sa_tools e)"
    using Cons.prems parse_tools_saved [of "sa_segment e" "[]" "sa_tools e"] by (simp add: registry_ok_def tools_ok_def)
  then show ?case using t Cons.IH [of "seen @ [e]"] Cons.prems
    by (cases e) (auto simp: table_ok_snoc segment_fits_def)
qed simp

lemma parse_servers_ok: "parse_servers seen js = Inr s \<Longrightarrow> registry_ok seen \<Longrightarrow> registry_ok s"
proof (induction seen js rule: parse_servers.induct)
  case (2 seen j js)
  from 2(2) obtain key raw segment tools ts where
    f: "json_string_field ''key'' j = Some key" "json_string_field ''raw'' j = Some raw" "json_segment_field ''segment'' j = Some segment"
      "json_array_field ''tools'' j = Some tools" and
    c: "\<not> (int (length segment) > MCP_RUNTIME_SERVER_SEGMENT_MAX_LENGTH \<or> key \<in> set (map sa_key seen) \<or> segment \<in> set (map sa_segment seen))" and
    t: "parse_tools segment [] tools = Inr ts" and
    r: "parse_servers (seen @ [\<lparr>sa_key = key, sa_raw = raw, sa_segment = segment, sa_tools = ts\<rparr>]) js = Inr s"
    by (auto split: option.splits if_splits sum.splits)
  have "registry_ok (seen @ [\<lparr>sa_key = key, sa_raw = raw, sa_segment = segment, sa_tools = ts\<rparr>])"
    using 2(3) c segment_field_ok [OF f(3)] parse_tools_ok [OF t]
    by (auto simp: registry_ok_def table_ok_snoc segment_fits_def tools_ok_def)
  then show ?case using 2(1) f c t r by simp
qed simp

lemma registry_ok_Nil [simp]: "registry_ok []"
  by (simp add: registry_ok_def)

subsection \<open>Assignments keep the registry well formed\<close>

fun push_table :: "(utext \<times> string) list \<Rightarrow> utext list \<Rightarrow> name_table \<Rightarrow> name_table" where
  "push_table names [] m = m"
| "push_table names (k # ks) m =
     (case map_of names k of
        Some s \<Rightarrow> if s \<noteq> [] \<and> k \<notin> set (keys m) then push_table names ks (m @ [(k, s)]) else push_table names ks m
      | None \<Rightarrow> push_table names ks m)"

lemma push_servers_table: "server_table (push_servers names cs s) = push_table names (map cd_key cs) (server_table s)"
  by (induction names cs s rule: push_servers.induct) (auto split: option.split)

lemma push_servers_append: "\<exists>new. push_servers names cs s = s @ new \<and> list_all (\<lambda>e. sa_tools e = []) new"
proof (induction names cs s rule: push_servers.induct)
  case (2 names c cs s)
  show ?case
  proof (cases "map_of names (cd_key c)")
    case (Some g)
    let ?e = "\<lparr>sa_key = cd_key c, sa_raw = cd_name c, sa_segment = g, sa_tools = []\<rparr>"
    show ?thesis
    proof (cases "g \<noteq> [] \<and> cd_key c \<notin> set (map sa_key s)")
      case True
      then obtain new where "push_servers names cs (s @ [?e]) = (s @ [?e]) @ new" "list_all (\<lambda>e. sa_tools e = []) new"
        using 2 Some by blast
      then show ?thesis using Some True by (intro exI [of _ "?e # new"]) simp
    next
      case False
      then show ?thesis using 2 Some by auto
    qed
  qed (use 2 in simp)
qed simp

lemma push_tools_table: "tool_table (push_tools names raws ts) = push_table names raws (tool_table ts)"
  by (induction names raws ts rule: push_tools.induct) (auto split: option.split)

lemma push_table_lookup:
  "map_of (push_table names ks m) k =
     (case map_of m k of Some s \<Rightarrow> Some s
      | None \<Rightarrow> if k \<in> set ks \<and> map_of names k \<noteq> Some [] then map_of names k else None)"
proof (induction names ks m rule: push_table.induct)
  case (2 names j ks m)
  show ?case
  proof (cases "map_of names j")
    case None
    then show ?thesis using 2 by (simp split: option.split) auto?
  next
    case (Some g)
    show ?thesis
    proof (cases "g \<noteq> [] \<and> j \<notin> set (keys m)")
      case True
      then have "map_of m j = None" by (simp add: map_of_None_iff)
      then show ?thesis using 2 Some True by (simp add: map_add_def split: option.split) auto?
    next
      case False
      then have "g = [] \<or> map_of m j \<noteq> None" by (auto simp: map_of_None_iff)
      then show ?thesis using 2 Some False by (simp split: option.split) auto?
    qed
  qed
qed (simp split: option.split)

lemma push_table_keys: "distinct (keys m) \<Longrightarrow> distinct (keys (push_table names ks m))"
  by (induction names ks m rule: push_table.induct) (auto split: option.split)

lemma push_table_ok:
  assumes "table_ok limit m" "allocate h cs m kind limit = Inr r"
  shows "table_ok limit (push_table (na_names r) (map cd_key cs) m) \<and>
    map_of (push_table (na_names r) (map cd_key cs) m) = map_of m ++ names_of r \<and> map_of m \<subseteq>\<^sub>m map_of m ++ names_of r"
proof -
  obtain used where n: "naming_ok limit (map_of m ++ names_of r) used" and d: "dom (names_of r) \<subseteq> cd_key ` set cs"
    and same: "\<And>k s. k \<in> cd_key ` set cs \<Longrightarrow> map_of m k = Some s \<Longrightarrow> names_of r k = Some s"
    using allocate_ok [OF assms(1), of h cs kind] assms(2) by (metis Inr_inject Un_upper1)
  have ne: "names_of r k \<noteq> Some []" for k
  proof
    assume "names_of r k = Some []"
    then have "(map_of m ++ names_of r) k = Some []" by (simp add: map_add_def)
    then have "[] \<in> ran (map_of m ++ names_of r)" by (rule ranI)
    then show False using n by (auto simp: naming_ok_def segment_fits_def)
  qed
  have e: "map_of (push_table (na_names r) (map cd_key cs) m) = map_of m ++ names_of r"
  proof
    fix k
    show "map_of (push_table (na_names r) (map cd_key cs) m) k = (map_of m ++ names_of r) k"
      using d ne [of k] same [of k] unfolding push_table_lookup map_add_def
      by (cases "names_of r k"; cases "map_of m k") auto
  qed
  have "map_of m \<subseteq>\<^sub>m map_of m ++ names_of r"
    unfolding map_le_def
  proof
    fix k
    assume "k \<in> dom (map_of m)"
    then obtain s where "map_of m k = Some s" by blast
    then show "map_of m k = (map_of m ++ names_of r) k"
      using d same [of k s] by (cases "names_of r k") (auto simp: map_add_def)
  qed
  moreover have "distinct (keys (push_table (na_names r) (map cd_key cs) m))"
    using assms(1) push_table_keys by (auto simp: table_ok_def)
  ultimately show ?thesis using n e by (simp add: table_ok_iff naming_ok_def)
qed

end
