(* ===== verification/Mcp_Registry_Runs.thy ===== *)
theory Mcp_Registry_Runs
  imports Mcp_Name_Registry "HOL-Library.Countable"
begin

text \<open>
  What the MCP name registry promises over its life: the operations on a registry that several hosts share through one file,
  in any order and with any failure of the file operations, and the names read off it.
\<close>

section \<open>Names read off a registry\<close>

definition server_segment :: "State \<Rightarrow> utext \<rightharpoonup> string" where
  "server_segment s = map_of (server_table s)"

definition runtime_of :: "State \<Rightarrow> utext \<Rightarrow> utext \<Rightarrow> string option" where
  "runtime_of s key raw =
     (case find (\<lambda>e. sa_key e = key) s of
        None \<Rightarrow> None
      | Some e \<Rightarrow> map_option (runtime_name (sa_segment e)) (map_of (tool_table (sa_tools e)) raw))"

definition registry_le :: "State \<Rightarrow> State \<Rightarrow> bool" where
  "registry_le s s' \<longleftrightarrow>
     (\<forall>k g. server_segment s k = Some g \<longrightarrow> server_segment s' k = Some g) \<and>
     (\<forall>k raw n. runtime_of s k raw = Some n \<longrightarrow> runtime_of s' k raw = Some n)"

lemma registry_le_refl [simp]: "registry_le s s"
  by (simp add: registry_le_def)

lemma registry_le_trans: "registry_le s t \<Longrightarrow> registry_le t u \<Longrightarrow> registry_le s u"
  by (simp add: registry_le_def)

lemma registry_leD:
  "registry_le s s' \<Longrightarrow> server_segment s k = Some g \<Longrightarrow> server_segment s' k = Some g"
  "registry_le s s' \<Longrightarrow> runtime_of s k raw = Some n \<Longrightarrow> runtime_of s' k raw = Some n"
  by (simp_all add: registry_le_def)

lemma find_append: "find P (s @ t) = (case find P s of Some e \<Rightarrow> Some e | None \<Rightarrow> find P t)"
  by (induction s) auto

lemma find_Some_set: "find P s = Some e \<Longrightarrow> e \<in> set s \<and> P e"
  by (induction s) (auto split: if_splits)

lemma server_segment_find: "server_segment s k = map_option sa_segment (find (\<lambda>e. sa_key e = k) s)"
  by (induction s) (auto simp: server_segment_def)

subsection \<open>Splitting a runtime name\<close>

lemma tidy_split:
  "tidy r S \<Longrightarrow> S \<noteq> [] \<Longrightarrow> last S \<noteq> CHR ''_'' \<Longrightarrow> split_at_prefix ''__'' acc (S @ ''__'' @ R) = Some (rev acc @ S, R)"
proof (induction r S arbitrary: acc rule: tidy.induct)
  case (2 r c cs)
  show ?case
  proof (cases "cs = []")
    case True
    then show ?thesis using 2(5) by simp
  next
    case False
    then have "\<not> prefix ''__'' (c # cs @ ''__'' @ R)" using 2(3) by (cases cs) auto
    then show ?thesis using 2 False by (cases "c = CHR ''_''") auto
  qed
qed simp

lemma tidy_no_split: "tidy r S \<Longrightarrow> split_at_prefix ''__'' acc S = None"
proof (induction r S arbitrary: acc rule: tidy.induct)
  case (2 r c cs)
  then have "\<not> prefix ''__'' (c # cs)" by (cases cs) auto
  then show ?case using 2 by (cases "c = CHR ''_''") auto
qed simp

lemma js_split_runtime_name:
  assumes "segment_ok S" "segment_ok T"
  shows "js_split ''__'' (runtime_name S T) = [''mcp'', S, T]"
proof -
  have "tidy True ''mcp''" by (simp add: run_unit_def name_alnum_def)
  then have "split_at_prefix ''__'' [] (''mcp'' @ ''__'' @ S @ ''__'' @ T) = Some (''mcp'', S @ ''__'' @ T)"
    using tidy_split [of True "''mcp''" "[]" "S @ ''__'' @ T"] by simp
  moreover have "split_at_prefix ''__'' [] (S @ ''__'' @ T) = Some (S, T)"
    using tidy_split [of True S "[]" T] valid_tidy [OF assms(1)] by simp
  moreover have "split_at_prefix ''__'' [] T = None" using tidy_no_split valid_tidy [OF assms(2)] by blast
  ultimately show ?thesis unfolding runtime_name_def
    by (subst js_split.simps, simp, subst js_split.simps, simp, subst js_split.simps, simp)
qed

lemma runtime_name_inj:
  assumes "segment_ok S" "segment_ok T" "segment_ok S'" "segment_ok T'" "runtime_name S T = runtime_name S' T'"
  shows "S = S' \<and> T = T'"
proof -
  have "[''mcp'', S, T] = [''mcp'', S', T']"
    unfolding js_split_runtime_name [OF assms(1,2), symmetric] js_split_runtime_name [OF assms(3,4), symmetric] assms(5) ..
  then show ?thesis by simp
qed

lemma registry_segments:
  assumes "registry_ok s" "find (\<lambda>e. sa_key e = k) s = Some e"
  shows "segment_fits MCP_RUNTIME_SERVER_SEGMENT_MAX_LENGTH (sa_segment e)" "tools_ok e" "sa_key e = k"
    "map_of (tool_table (sa_tools e)) raw = Some g \<Longrightarrow> segment_fits (tool_limit (sa_segment e)) g"
proof -
  have e: "e \<in> set s" "sa_key e = k" using find_Some_set [OF assms(2)] by simp_all
  then show "segment_fits MCP_RUNTIME_SERVER_SEGMENT_MAX_LENGTH (sa_segment e)" "sa_key e = k" and t: "tools_ok e"
    using assms(1) by (auto simp: registry_ok_def table_ok_def list_all_iff)
  show "segment_fits (tool_limit (sa_segment e)) g" if "map_of (tool_table (sa_tools e)) raw = Some g"
    using t that unfolding tools_ok_def table_ok_iff by (meson ranI)
qed

lemma runtime_ofE:
  assumes "registry_ok s" "runtime_of s k raw = Some n"
  obtains e g where "find (\<lambda>e. sa_key e = k) s = Some e" "map_of (tool_table (sa_tools e)) raw = Some g" "n = runtime_name (sa_segment e) g"
    "segment_ok (sa_segment e)" "segment_ok g" "int (length g) \<le> tool_limit (sa_segment e)"
proof -
  obtain e g where f: "find (\<lambda>e. sa_key e = k) s = Some e" "map_of (tool_table (sa_tools e)) raw = Some g" "n = runtime_name (sa_segment e) g"
    using assms(2) by (auto simp: runtime_of_def split: option.splits)
  then show thesis using that registry_segments(1) [OF assms(1) f(1)] registry_segments(4) [OF assms(1) f(1,2)] by (simp add: segment_fits_def)
qed

lemma runtime_of_inj:
  assumes ok: "registry_ok s" and "runtime_of s k raw = Some n" "runtime_of s k' raw' = Some n"
  shows "k = k' \<and> raw = raw'"
proof -
  obtain e g where e: "find (\<lambda>e. sa_key e = k) s = Some e" "map_of (tool_table (sa_tools e)) raw = Some g" "n = runtime_name (sa_segment e) g"
    "segment_ok (sa_segment e)" "segment_ok g" by (rule runtime_ofE [OF ok assms(2)])
  obtain e' g' where e': "find (\<lambda>e. sa_key e = k') s = Some e'" "map_of (tool_table (sa_tools e')) raw' = Some g'" "n = runtime_name (sa_segment e') g'"
    "segment_ok (sa_segment e')" "segment_ok g'" by (rule runtime_ofE [OF ok assms(3)])
  have g: "sa_segment e = sa_segment e'" "g = g'" using runtime_name_inj [OF e(4,5) e'(4,5)] e(3) e'(3) by auto
  have "server_segment s k = Some (sa_segment e)" "server_segment s k' = Some (sa_segment e)"
    using e(1) e'(1) g(1) by (simp_all add: server_segment_find)
  then have k: "k = k'" using ok unfolding registry_ok_def table_ok_iff server_segment_def inj_on_def by (metis domI)
  then have "e = e'" using e(1) e'(1) by simp
  then have "raw = raw'"
    using registry_segments(2) [OF ok e(1)] e(2) e'(2) g(2) unfolding tools_ok_def table_ok_iff inj_on_def by (metis domI)
  then show ?thesis using k by simp
qed

section \<open>The operations\<close>

lemma distinct_names:
  "distinct (keys (na_names a)) \<Longrightarrow> distinct (keys (na_names (fst (prepare_loop h kind limit existing a pending cs))))"
  "distinct (keys (na_names a)) \<Longrightarrow> place_loop used a conflicts ps = (used', a', conflicts') \<Longrightarrow> distinct (keys (na_names a'))"
  "distinct (keys (na_names a)) \<Longrightarrow> resolve_loop kind limit used a ps = Inr r \<Longrightarrow> distinct (keys (na_names r))"
proof -
  show "distinct (keys (na_names a)) \<Longrightarrow> distinct (keys (na_names (fst (prepare_loop h kind limit existing a pending cs))))"
    by (induction h kind limit existing a pending cs rule: prepare_loop.induct) (auto simp: Let_def distinct_update split: sum.split)
  show "distinct (keys (na_names a)) \<Longrightarrow> place_loop used a conflicts ps = (used', a', conflicts') \<Longrightarrow> distinct (keys (na_names a'))"
    by (induction used a conflicts ps rule: place_loop.induct) (auto simp: distinct_update split: if_splits)
  show "distinct (keys (na_names a)) \<Longrightarrow> resolve_loop kind limit used a ps = Inr r \<Longrightarrow> distinct (keys (na_names r))"
    by (induction kind limit used a ps rule: resolve_loop.induct) (auto simp: distinct_update split: Suffixed.splits)
qed

lemma allocate_distinct: "allocate h cs existing kind limit = Inr r \<Longrightarrow> distinct (keys (na_names r))"
  unfolding allocate_def
  using distinct_names(1) [of "\<lparr>na_names = [], na_errors = []\<rparr>" h kind limit existing "[]" "unique_candidates cs"]
  by (auto simp: Let_def split: prod.splits dest: distinct_names(2,3))

lemma assignServers_spec:
  assumes ok: "registry_ok s"
  obtains r s' where "assignServers h cs s = (Inr r, s')" "registry_ok s'" "registry_le s s'"
    "\<And>k g. names_of r k = Some g \<Longrightarrow> server_segment s' k = Some g"
proof -
  let ?limit = MCP_RUNTIME_SERVER_SEGMENT_MAX_LENGTH
  have t: "table_ok ?limit (server_table s)" using ok by (simp add: registry_ok_def)
  have m: "js_new_map (map (\<lambda>e. (sa_key e, sa_segment e)) s) = server_table s"
    using t js_new_map_distinct [of "server_table s"] by (simp add: table_ok_def server_table_def)
  obtain r where r: "allocate h cs (server_table s) KServer ?limit = Inr r" using allocate_ok [OF t] by metis
  let ?s = "push_servers (na_names r) cs s"
  have p: "table_ok ?limit (server_table ?s)" "map_of (server_table ?s) = map_of (server_table s) ++ names_of r"
    "map_of (server_table s) \<subseteq>\<^sub>m map_of (server_table s) ++ names_of r"
    using push_table_ok [OF t r] by (simp_all add: push_servers_table)
  obtain new where new: "?s = s @ new" "list_all (\<lambda>e. sa_tools e = []) new" using push_servers_append by blast
  have "registry_ok ?s" using p(1) ok new by (auto simp: registry_ok_def list_all_iff tools_ok_def)
  moreover have "runtime_of ?s k raw = Some n" if "runtime_of s k raw = Some n" for k raw n
    using that by (auto simp: runtime_of_def new(1) find_append split: option.splits)
  then have "registry_le s ?s"
    using p(2,3) by (auto simp: registry_le_def server_segment_def map_le_def domI) (metis domI)
  moreover have "assignServers h cs s = (Inr r, ?s)" using r by (simp add: assignServers_def m)
  moreover have "server_segment ?s k = Some g" if "names_of r k = Some g" for k g using that p(2) by (simp add: server_segment_def)
  ultimately show thesis using that by blast
qed

lemma set_tools_sel [simp]:
  "server_table (set_tools k ts s) = server_table s"
  "find (\<lambda>e. sa_key e = j) (set_tools k ts s) =
     (if j = k then map_option (\<lambda>e. e\<lparr>sa_tools := ts\<rparr>) (find (\<lambda>e. sa_key e = j) s) else find (\<lambda>e. sa_key e = j) s)"
  by (induction s) auto

lemma set_tools_ok: "list_all tools_ok s \<Longrightarrow> find (\<lambda>e. sa_key e = k) s = Some e \<Longrightarrow> tools_ok (e\<lparr>sa_tools := ts\<rparr>) \<Longrightarrow> list_all tools_ok (set_tools k ts s)"
  by (induction s) (auto split: if_splits)

lemma map_of_runtime_names:
  "distinct (keys m) \<Longrightarrow> map_of (js_new_map (map (\<lambda>(raw, g). (raw, runtime_name S g)) m)) k = map_option (runtime_name S) (map_of m k)"
proof -
  have k: "keys (map (\<lambda>(raw, g). (raw, runtime_name S g)) m) = keys m" by (simp add: comp_def case_prod_unfold)
  moreover have "map_of (map (\<lambda>(raw, g). (raw, runtime_name S g)) m) k = map_option (runtime_name S) (map_of m k)"
    by (induction m) auto
  ultimately show "distinct (keys m) \<Longrightarrow> ?thesis" by (simp only: js_new_map_distinct)
qed

lemma assignTools_spec:
  assumes ok: "registry_ok s" and f: "find (\<lambda>e. sa_key e = key) s = Some server"
  obtains r s' where "assignTools h key raws s = (Inr r, s')" "registry_ok s'" "registry_le s s'"
    "\<And>raw n. names_of r raw = Some n \<Longrightarrow> runtime_of s' key raw = Some n"
proof -
  let ?limit = "tool_limit (sa_segment server)"
  let ?cs = "map (\<lambda>name. \<lparr>cd_key = name, cd_name = name\<rparr>) raws"
  let ?table = "tool_table (sa_tools server)"
  have t: "table_ok ?limit ?table" using registry_segments(2) [OF ok f] by (simp add: tools_ok_def)
  have m: "js_new_map (map (\<lambda>t. (ta_raw t, ta_segment t)) (sa_tools server)) = ?table"
    using t js_new_map_distinct [of ?table] by (simp add: table_ok_def tool_table_def)
  obtain r where r: "allocate h ?cs ?table KTool ?limit = Inr r" using allocate_ok [OF t] by metis
  let ?ts = "push_tools (na_names r) raws (sa_tools server)"
  let ?s = "set_tools key ?ts s"
  let ?r = "r\<lparr>na_names := js_new_map (map (\<lambda>(raw, g). (raw, runtime_name (sa_segment server) g)) (na_names r))\<rparr>"
  have k: "map cd_key ?cs = raws" by (simp add: comp_def)
  have p: "table_ok ?limit (tool_table ?ts)" "map_of (tool_table ?ts) = map_of ?table ++ names_of r"
    "map_of ?table \<subseteq>\<^sub>m map_of ?table ++ names_of r"
    using push_table_ok [OF t r] unfolding k by (simp_all add: push_tools_table)
  have "assignTools h key raws s = (Inr ?r, ?s)" using r f by (simp add: assignTools_def m tool_limit_def)
  moreover have "registry_ok ?s" using ok f p(1) set_tools_ok [of s key server ?ts] by (simp add: registry_ok_def tools_ok_def)
  moreover have "registry_le s ?s"
    unfolding registry_le_def
  proof (intro conjI allI impI)
    fix k raw n
    assume "runtime_of s k raw = Some n"
    moreover have "map_of (tool_table ?ts) raw = Some g" if "map_of ?table raw = Some g" for g
      using that p(2,3) unfolding map_le_def by (metis domI)
    ultimately show "runtime_of ?s k raw = Some n" using f by (cases "k = key") (auto simp: runtime_of_def)
  qed (simp add: server_segment_def)
  moreover have "runtime_of ?s key raw = Some n" if "names_of ?r raw = Some n" for raw n
    using that f p(2) map_of_runtime_names [OF allocate_distinct [OF r], of "sa_segment server" raw] by (auto simp: runtime_of_def)
  ultimately show thesis using that by blast
qed

section \<open>Shared registries\<close>

datatype Request = AssignServers "McpNameCandidate list" | AssignTools utext "utext list"

fun request_run :: "NameHost \<Rightarrow> Request \<Rightarrow> State \<Rightarrow> (string + McpNameAssignments) \<times> State" where
  "request_run h (AssignServers cs) s = assignServers h cs s"
| "request_run h (AssignTools key raws) s = assignTools h key raws s"

text \<open>Hosts that share one file: a request names the host that makes it and the outcome of its file operations.\<close>

fun shared_run ::
  "NameHost \<Rightarrow> (nat \<times> FileOutcome \<times> Request) list \<Rightarrow> (nat \<Rightarrow> State) \<times> Disk \<Rightarrow> (string + McpNameAssignments) list \<times> (nat \<Rightarrow> State) \<times> Disk" where
  "shared_run h [] w = ([], w)"
| "shared_run h ((i, io, req) # ops) (mem, disk) =
     (let (answer, memory, disk') = transaction h True io (request_run h req) (mem i, disk);
          (answers, w) = shared_run h ops (mem(i := memory), disk')
      in (answer # answers, w))"

definition disk_state :: "NameHost \<Rightarrow> Disk \<Rightarrow> string + State" where
  "disk_state h disk = (case disk of None \<Rightarrow> Inr [] | Some text \<Rightarrow> parseState h text)"

text \<open>What is assumed of JSON: the text written for a well-formed registry, which holds strings and one small number, is read back as its value.\<close>

definition json_codec :: "NameHost \<Rightarrow> bool" where
  "json_codec h \<longleftrightarrow> (\<forall>s. registry_ok s \<longrightarrow> nh_parse h (nh_stringify h (state_json s) @ [10]) = Some (state_json s))"

definition answered :: "Request \<Rightarrow> McpNameAssignments \<Rightarrow> State \<Rightarrow> bool" where
  "answered req r s =
     (case req of
        AssignServers cs \<Rightarrow> (\<forall>k g. names_of r k = Some g \<longrightarrow> server_segment s k = Some g)
      | AssignTools key raws \<Rightarrow> (\<forall>raw n. names_of r raw = Some n \<longrightarrow> runtime_of s key raw = Some n))"

lemma answered_mono: "answered req r s \<Longrightarrow> registry_le s s' \<Longrightarrow> answered req r s'"
  by (auto simp: answered_def registry_le_def split: Request.splits)

lemma request_run_spec:
  assumes "registry_ok s" "request_run h req s = (answer, s')"
  shows "registry_ok s' \<and> registry_le s s' \<and> (\<forall>r. answer = Inr r \<longrightarrow> answered req r s') \<and> (\<forall>e. answer = Inl e \<longrightarrow> s' = s)"
proof (cases req)
  case (AssignServers cs)
  obtain r t where "assignServers h cs s = (Inr r, t)" "registry_ok t" "registry_le s t"
    "\<And>k g. names_of r k = Some g \<Longrightarrow> server_segment t k = Some g" by (rule assignServers_spec [OF assms(1)]) blast
  then show ?thesis using assms(2) AssignServers by (auto simp: answered_def)
next
  case (AssignTools key raws)
  show ?thesis
  proof (cases "find (\<lambda>e. sa_key e = key) s")
    case None
    then show ?thesis using assms AssignTools by (auto simp: assignTools_def)
  next
    case (Some server)
    obtain r t where "assignTools h key raws s = (Inr r, t)" "registry_ok t" "registry_le s t"
      "\<And>raw n. names_of r raw = Some n \<Longrightarrow> runtime_of t key raw = Some n" by (rule assignTools_spec [OF assms(1) Some]) blast
    then show ?thesis using assms(2) AssignTools by (auto simp: answered_def)
  qed
qed

lemma parse_saved: "json_codec h \<Longrightarrow> registry_ok s \<Longrightarrow> parseState h (nh_stringify h (state_json s) @ [10]) = Inr s"
  using parse_servers_saved [of "[]" s]
  by (simp add: json_codec_def parseState_def state_json_def json_field_def json_array_field_def)

lemma parse_ok: "parseState h text = Inr s \<Longrightarrow> registry_ok s"
  using parse_servers_ok [of "[]"] by (auto simp: parseState_def split: option.splits if_splits)

lemma state_json_inj: "registry_ok s \<Longrightarrow> registry_ok t \<Longrightarrow> state_json s = state_json t \<Longrightarrow> s = t"
proof -
  assume ok: "registry_ok s" "registry_ok t" and "state_json s = state_json t"
  then have e: "map server_json s = map server_json t" by (simp add: state_json_def)
  have "parse_servers [] (map server_json s) = Inr s" "parse_servers [] (map server_json t) = Inr t"
    using parse_servers_saved [of "[]"] ok by simp_all
  then have "Inr s = (Inr t :: string + State)" unfolding e by simp
  then show "s = t" by simp
qed

lemma stringify_inj:
  assumes c: "json_codec h" and ok: "registry_ok s" "registry_ok t" and eq: "nh_stringify h (state_json s) = nh_stringify h (state_json t)"
  shows "s = t"
proof -
  have "Some (state_json s) = Some (state_json t)" using c ok eq unfolding json_codec_def by metis
  then show ?thesis using state_json_inj [OF ok] by simp
qed

lemma locked_transaction_spec:
  assumes c: "json_codec h" and d: "disk_state h disk = Inr s" and ok: "registry_ok s"
    and t: "locked_transaction h w (request_run h req) (mem, disk) = (answer, mem', disk')"
  shows "\<exists>s'. disk_state h disk' = Inr s' \<and> registry_ok s' \<and> registry_le s s' \<and> (\<forall>r. answer = Inr r \<longrightarrow> answered req r s')"
proof -
  obtain ans after where run: "request_run h req s = (ans, after)" by fastforce
  note spec = request_run_spec [OF ok run]
  have saved: "disk_state h (Some (nh_stringify h (state_json after) @ [10])) = Inr after"
    using parse_saved [OF c] spec by (simp add: disk_state_def)
  have same: "after = s" if "nh_stringify h (state_json s) = nh_stringify h (state_json after)"
    using stringify_inj [OF c ok _ that] spec by simp
  have l: "(case disk of None \<Rightarrow> Inr [] | Some text \<Rightarrow> parseState h text) = Inr s" using d by (simp add: disk_state_def)
  show ?thesis
  proof (cases ans)
    case (Inl e)
    then show ?thesis using t run d ok by (auto simp: locked_transaction_def l)
  next
    case (Inr r)
    then show ?thesis using t run d ok spec saved same by (auto simp: locked_transaction_def l split: if_splits)
  qed
qed

lemma transaction_spec:
  assumes "json_codec h" "disk_state h disk = Inr s" "registry_ok s"
    and t: "transaction h True io (request_run h req) (mem, disk) = (answer, mem', disk')"
  shows "\<exists>s'. disk_state h disk' = Inr s' \<and> registry_ok s' \<and> registry_le s s' \<and> (\<forall>r. answer = Inr r \<longrightarrow> answered req r s')"
proof (cases "fo_lock io")
  case True
  obtain a where a: "locked_transaction h (fo_write io) (request_run h req) (mem, disk) = (a, mem', disk')"
    "answer = (if fo_cleanup io then a else Inl ''EIO'')"
    using t True by (auto simp: transaction_def split: prod.splits)
  show ?thesis using locked_transaction_spec [OF assms(1-3) a(1)] a(2) by auto
next
  case False
  then show ?thesis using t assms(2,3) by (auto simp: transaction_def)
qed

lemma shared_run_spec:
  assumes "json_codec h" "disk_state h disk = Inr s" "registry_ok s" "shared_run h ops (mem, disk) = (answers, mem', disk')"
  shows "\<exists>s'. disk_state h disk' = Inr s' \<and> registry_ok s' \<and> registry_le s s' \<and> length answers = length ops \<and>
    (\<forall>i < length ops. \<forall>r. answers ! i = Inr r \<longrightarrow> answered (snd (snd (ops ! i))) r s')"
  using assms(2-)
proof (induction ops arbitrary: mem disk s answers)
  case (Cons op ops)
  obtain i io req where op: "op = (i, io, req)" by (cases op) auto
  obtain a memory d where t: "transaction h True io (request_run h req) (mem i, disk) = (a, memory, d)" by (metis prod_cases3)
  obtain as where r: "shared_run h ops (mem(i := memory), d) = (as, mem', disk')" and as: "answers = a # as"
    using Cons.prems(3) t by (auto simp: op Let_def split: prod.splits)
  obtain s1 where s1: "disk_state h d = Inr s1" "registry_ok s1" "registry_le s s1" "\<forall>r. a = Inr r \<longrightarrow> answered req r s1"
    using transaction_spec [OF assms(1) Cons.prems(1,2) t] by blast
  obtain s' where s': "disk_state h disk' = Inr s'" "registry_ok s'" "registry_le s1 s'" "length as = length ops"
    "\<forall>i < length ops. \<forall>r. as ! i = Inr r \<longrightarrow> answered (snd (snd (ops ! i))) r s'"
    using Cons.IH [OF s1(1,2) r] by blast
  have "answered (snd (snd ((op # ops) ! j))) r s'" if "j < length (op # ops)" "answers ! j = Inr r" for j r
    using that s1(4) s'(3,5) answered_mono by (cases j) (auto simp: as op)
  then show ?case using s' s1(3) registry_le_trans as by auto
qed simp

section \<open>Which names are refused\<close>

definition unusable :: "NameHost \<Rightarrow> utext \<Rightarrow> bool" where
  "unusable h v = (v = [] \<or> list_ex (forbidden_point (nh_format h)) (code_points v))"

lemma base_segment_error:
  "1 \<le> limit \<Longrightarrow> base_segment h kind limit v = Inl e \<longleftrightarrow> unusable h v \<and> e = ''Invalid MCP '' @ name_kind_string kind @ '' name''"
  by (auto simp: base_segment_def normalizeMcpNameSegment_def shortenMcpNameSegment_def unusable_def Let_def)

lemma allocate_errors:
  assumes "table_ok limit existing" "3 \<le> limit" "length existing + length cs + 2 \<le> 10 ^ nat (limit - 2)" "allocate h cs existing kind limit = Inr r"
  shows "errors_of r k = Some e \<longleftrightarrow>
      (\<exists>v. candidate_name cs k = Some v \<and> map_of existing k = None \<and> unusable h v \<and> e = ''Invalid MCP '' @ name_kind_string kind @ '' name'')"
    "k \<in> cd_key ` set cs \<Longrightarrow> names_of r k = None \<longleftrightarrow> errors_of r k \<noteq> None"
proof -
  obtain used where d: "dom (names_of r) \<union> dom (errors_of r) = cd_key ` set cs" "dom (names_of r) \<inter> dom (errors_of r) = {}"
    and a: "\<And>k v e. candidate_name cs k = Some v \<Longrightarrow> map_of existing k = None \<Longrightarrow> base_segment h kind limit v = Inl e \<Longrightarrow> errors_of r k = Some e"
    and b: "\<And>k e. errors_of r k = Some e \<Longrightarrow> \<exists>v. candidate_name cs k = Some v \<and> map_of existing k = None \<and> base_segment h kind limit v = Inl e"
  proof (rule allocate_ok [OF assms(1), of h cs kind], goal_cases)
    case (1 r' used)
    have "r' = r" using 1(2) assms(4) by simp
    then show ?case using 1 assms(2,3) by blast
  qed
  show "errors_of r k = Some e \<longleftrightarrow>
      (\<exists>v. candidate_name cs k = Some v \<and> map_of existing k = None \<and> unusable h v \<and> e = ''Invalid MCP '' @ name_kind_string kind @ '' name'')"
    using a b base_segment_error [of limit h kind] assms(2) by fastforce
  show "names_of r k = None \<longleftrightarrow> errors_of r k \<noteq> None" if "k \<in> cd_key ` set cs"
  proof -
    have "k \<in> dom (names_of r) \<or> k \<in> dom (errors_of r)" "\<not> (k \<in> dom (names_of r) \<and> k \<in> dom (errors_of r))" using that d by blast+
    then show ?thesis by (auto simp: domIff)
  qed
qed

lemma allocate_complete:
  assumes "table_ok limit existing" "25 \<le> limit" "length existing + length cs < 10 ^ 20" "allocate h cs existing kind limit = Inr r"
    "candidate_name cs k = Some v"
  shows "errors_of r k =
      (if map_of existing k = None \<and> unusable h v then Some (''Invalid MCP '' @ name_kind_string kind @ '' name'') else None) \<and>
    (names_of r k = None \<longleftrightarrow> map_of existing k = None \<and> unusable h v)"
proof -
  have "(10::nat) ^ 23 \<le> 10 ^ nat (limit - 2)" using assms(2) by (intro power_increasing) auto
  then have "length existing + length cs + 2 \<le> 10 ^ nat (limit - 2)" using assms(3) by simp
  moreover have "3 \<le> limit" using assms(2) by simp
  ultimately have e: "errors_of r k = Some e \<longleftrightarrow>
      map_of existing k = None \<and> unusable h v \<and> e = ''Invalid MCP '' @ name_kind_string kind @ '' name''"
    and n: "names_of r k = None \<longleftrightarrow> errors_of r k \<noteq> None" for e
    using allocate_errors [OF assms(1) _ _ assms(4), of k] assms(5) dom_candidate_name [of cs] by auto
  show ?thesis unfolding n by (cases "errors_of r k") (use e in auto)
qed

lemma assignServers_complete:
  assumes ok: "registry_ok s" and len: "length s + length cs < 10 ^ 20"
  shows "\<exists>r s'. assignServers h cs s = (Inr r, s') \<and>
      (\<forall>k v. candidate_name cs k = Some v \<longrightarrow>
         errors_of r k = (if server_segment s k = None \<and> unusable h v then Some ''Invalid MCP server name'' else None) \<and>
         (names_of r k = None \<longleftrightarrow> server_segment s k = None \<and> unusable h v))"
proof -
  let ?limit = MCP_RUNTIME_SERVER_SEGMENT_MAX_LENGTH
  have t: "table_ok ?limit (server_table s)" using ok by (simp add: registry_ok_def)
  have m: "js_new_map (map (\<lambda>e. (sa_key e, sa_segment e)) s) = server_table s"
    using t js_new_map_distinct [of "server_table s"] by (simp add: table_ok_def server_table_def)
  obtain r where r: "allocate h cs (server_table s) KServer ?limit = Inr r" using allocate_ok [OF t] by metis
  have "25 \<le> ?limit" "length (server_table s) + length cs < 10 ^ 20"
    using len by (simp_all add: MCP_RUNTIME_SERVER_SEGMENT_MAX_LENGTH_def server_table_def)
  from allocate_complete [OF t this r] r show ?thesis by (auto simp: assignServers_def m server_segment_def)
qed

lemma assignTools_complete:
  assumes ok: "registry_ok s" and f: "find (\<lambda>e. sa_key e = key) s = Some server" and len: "length (sa_tools server) + length raws < 10 ^ 20"
  shows "\<exists>r s'. assignTools h key raws s = (Inr r, s') \<and>
      (\<forall>raw \<in> set raws.
         errors_of r raw = (if runtime_of s key raw = None \<and> unusable h raw then Some ''Invalid MCP tool name'' else None) \<and>
         (names_of r raw = None \<longleftrightarrow> runtime_of s key raw = None \<and> unusable h raw))"
proof -
  let ?limit = "tool_limit (sa_segment server)"
  let ?cs = "map (\<lambda>name. \<lparr>cd_key = name, cd_name = name\<rparr>) raws"
  let ?table = "tool_table (sa_tools server)"
  have t: "table_ok ?limit ?table" using registry_segments(2) [OF ok f] by (simp add: tools_ok_def)
  have m: "js_new_map (map (\<lambda>t. (ta_raw t, ta_segment t)) (sa_tools server)) = ?table"
    using t js_new_map_distinct [of ?table] by (simp add: table_ok_def tool_table_def)
  obtain r where r: "allocate h ?cs ?table KTool ?limit = Inr r" using allocate_ok [OF t] by metis
  have l: "25 \<le> ?limit" "length ?table + length ?cs < 10 ^ 20"
    using len registry_segments(1) [OF ok f]
    by (simp_all add: segment_fits_def tool_limit_def MCP_RUNTIME_SERVER_SEGMENT_MAX_LENGTH_def MCP_RUNTIME_TOOL_NAME_MAX_LENGTH_def tool_table_def)
  have c: "candidate_name ?cs raw = Some raw" if "raw \<in> set raws" for raw
  proof -
    have "map_of (map (\<lambda>x. (x, x)) xs) raw = Some raw" if "raw \<in> set xs" for xs :: "utext list" using that by (induction xs) auto
    then show ?thesis using that by (simp add: candidate_name_def comp_def rev_map)
  qed
  have o: "runtime_of s key raw = None \<longleftrightarrow> map_of ?table raw = None" for raw using f by (simp add: runtime_of_def)
  have n: "map_of (js_new_map (map (\<lambda>(raw, g). (raw, runtime_name (sa_segment server) g)) (na_names r))) raw = None \<longleftrightarrow> names_of r raw = None" for raw
    using map_of_runtime_names [OF allocate_distinct [OF r]] by simp
  show ?thesis
    using allocate_complete [OF t l r c] r f n unfolding o by (auto simp: assignTools_def m tool_limit_def [symmetric])
qed

section \<open>Properties\<close>

instance json :: countable
  by countable_datatype

text \<open>A host whose JSON texts are single numbers; the format characters are left out.\<close>

definition plain_host :: NameHost where
  "plain_host =
     \<lparr>nh_format = (\<lambda>_. False),
      nh_parse = (\<lambda>t. if length t = 2 \<and> t ! 1 = 10 then Some (from_nat (t ! 0)) else None),
      nh_stringify = (\<lambda>j. [to_nat j])\<rparr>"

lemma plain_host_codec: "json_codec plain_host"
  by (simp add: json_codec_def plain_host_def)

definition sample_ops :: "(nat \<times> FileOutcome \<times> Request) list" where
  "sample_ops =
     (let io = \<lparr>fo_lock = True, fo_write = True, fo_cleanup = True\<rparr> in
      [(0, io, AssignServers [\<lparr>cd_key = ascii_text ''k1'', cd_name = ascii_text ''docs''\<rparr>]),
       (1, io, AssignServers [\<lparr>cd_key = ascii_text ''k2'', cd_name = ascii_text ''docs''\<rparr>]),
       (1, io, AssignTools (ascii_text ''k1'') [ascii_text ''search'']),
       (0, io, AssignTools (ascii_text ''k2'') [ascii_text ''search''])])"

text \<open>C1: 
  Hosts share one registry file.  Whatever they ask for, in whatever order, and whichever of their file operations fail, the
  file can always be read back; every name a host was given is in it and stays the name of that server or tool; and no two
  tools, of one server or of different ones, ever have the same runtime name.
\<close>
theorem shared_names_are_permanent:
  assumes "json_codec h" "shared_run h ops (mem, None) = (answers, w)"
  shows "\<exists>s. disk_state h (snd w) = Inr s \<and> registry_ok s \<and>
    (\<forall>i r. i < length ops \<and> answers ! i = Inr r \<longrightarrow> answered (snd (snd (ops ! i))) r s) \<and>
    (\<forall>k raw k' raw' n. runtime_of s k raw = Some n \<and> runtime_of s k' raw' = Some n \<longrightarrow> k = k' \<and> raw = raw')"
proof -
  obtain mem' disk where w: "w = (mem', disk)" by fastforce
  have "disk_state h None = Inr []" by (simp add: disk_state_def)
  from shared_run_spec [OF assms(1) this registry_ok_Nil assms(2) [unfolded w]] obtain s where
    "disk_state h disk = Inr s" "registry_ok s" "\<forall>i < length ops. \<forall>r. answers ! i = Inr r \<longrightarrow> answered (snd (snd (ops ! i))) r s"
    by blast
  then show ?thesis using runtime_of_inj [of s] w by auto
qed

theorem shared_names_are_permanent_witness:
  "\<exists>s. disk_state plain_host (snd (snd (shared_run plain_host sample_ops (\<lambda>_. [], None)))) = Inr s \<and> registry_ok s"
  using shared_names_are_permanent [OF plain_host_codec, of sample_ops "\<lambda>_. []"] by (metis prod.collapse)

text \<open>C33: 
  The check that a host applies to the file before it uses it accepts exactly the well-formed registries, and what it reads is
  what was saved.
\<close>
theorem saved_registry_reads_back:
  assumes "json_codec h"
  shows "parseState h (nh_stringify h (state_json s) @ [10]) = Inr s \<longleftrightarrow> registry_ok s"
  using parse_saved [OF assms] parse_ok by blast

theorem saved_registry_reads_back_witness:
  "parseState plain_host (nh_stringify plain_host (state_json []) @ [10]) = Inr []"
  using saved_registry_reads_back [OF plain_host_codec, of "[]"] by simp

text \<open>C19: 
  The search for free names always ends, and with fewer than \<open>10 ^ 20\<close> names it never runs out of room: a server or tool is
  refused exactly when its name is empty or holds a control, format or lone surrogate character and it has no saved name;
  everything else gets a name.
\<close>
theorem only_unusable_names_are_refused:
  assumes "registry_ok s" "length s + length cs < 10 ^ 20"
    and "find (\<lambda>e. sa_key e = key) s = Some server" "length (sa_tools server) + length raws < 10 ^ 20"
  shows "(\<exists>r s'. assignServers h cs s = (Inr r, s') \<and>
      (\<forall>k v. candidate_name cs k = Some v \<longrightarrow>
         map_of (na_errors r) k = (if server_segment s k = None \<and> unusable h v then Some ''Invalid MCP server name'' else None) \<and>
         (map_of (na_names r) k = None \<longleftrightarrow> server_segment s k = None \<and> unusable h v))) \<and>
    (\<exists>r s'. assignTools h key raws s = (Inr r, s') \<and>
      (\<forall>raw \<in> set raws.
         map_of (na_errors r) raw = (if runtime_of s key raw = None \<and> unusable h raw then Some ''Invalid MCP tool name'' else None) \<and>
         (map_of (na_names r) raw = None \<longleftrightarrow> runtime_of s key raw = None \<and> unusable h raw)))"
  using assignServers_complete [OF assms(1,2)] assignTools_complete [OF assms(1,3,4)] by blast

definition sample_registry :: State where
  "sample_registry = [\<lparr>sa_key = ascii_text ''k1'', sa_raw = ascii_text ''docs'', sa_segment = ''docs'', sa_tools = []\<rparr>]"

theorem only_unusable_names_are_refused_witness:
  "registry_ok sample_registry \<and>
   (\<exists>r s'. assignServers plain_host [\<lparr>cd_key = ascii_text ''k2'', cd_name = ascii_text ''docs''\<rparr>] sample_registry = (Inr r, s') \<and>
      map_of (na_errors r) (ascii_text ''k2'') = None \<and> map_of (na_names r) (ascii_text ''k2'') \<noteq> None)"
proof -
  let ?c = "[\<lparr>cd_key = ascii_text ''k2'', cd_name = ascii_text ''docs''\<rparr>]"
  have ok: "registry_ok sample_registry" by code_simp
  have f: "find (\<lambda>e. sa_key e = ascii_text ''k1'') sample_registry = Some (sample_registry ! 0)" by code_simp
  have "length sample_registry + length ?c < 10 ^ 20" "length (sa_tools (sample_registry ! 0)) + length ([] :: utext list) < 10 ^ 20"
    by (simp_all add: sample_registry_def)
  from only_unusable_names_are_refused [OF ok this(1) f this(2), of plain_host, THEN conjunct1] obtain r s' where
    r: "assignServers plain_host ?c sample_registry = (Inr r, s')"
      "\<And>k v. candidate_name ?c k = Some v \<Longrightarrow>
         map_of (na_errors r) k = (if server_segment sample_registry k = None \<and> unusable plain_host v then Some ''Invalid MCP server name'' else None) \<and>
         (map_of (na_names r) k = None \<longleftrightarrow> server_segment sample_registry k = None \<and> unusable plain_host v)" by blast
  have "candidate_name ?c (ascii_text ''k2'') = Some (ascii_text ''docs'')" by (simp add: candidate_name_def)
  moreover have "\<not> unusable plain_host (ascii_text ''docs'')"
    by (simp add: unusable_def plain_host_def forbidden_point_def is_high_def)
  ultimately show ?thesis using ok r by auto
qed

end
