(* ===== verification/Llm_Error.thy ===== *)
theory Llm_Error
  imports Bari_Prelude
begin

text \<open>
  Classification of failed model calls (\<^verbatim>\<open>shared/src/llm-error-classifier.ts\<close>): the facts read off an error value, the kind
  reported in metrics, the retry decision and the protocol code.

  Parameters are the regular expressions that test a message or an error name, and \<^verbatim>\<open>JSON.parse\<close>.  An error value is a
  tree of objects with their own data properties; a property with a getter reads as undefined.  An object carries its identity when
  it did not come out of \<^verbatim>\<open>JSON.parse\<close>, and \<^verbatim>\<open>safeExtract\<close> never looks below a second occurrence of an identity.  Numbers that
  are not integers are \<^const>\<open>NNaN\<close>: the facts accept safe integers only, and fractional HTTP statuses are left out.
\<close>

section \<open>Kinds and codes\<close>

datatype LLMErrorReason =
    R_abort | R_timeout | R_rate_limited | R_tpm_rate_limited | R_usage_limit | R_credits_exhausted | R_auth | R_bad_request
  | R_not_found | R_content_filter | R_server_error | R_overloaded | R_network | R_empty_response | R_unknown | R_length

definition LLM_RETRY_REASONS :: "LLMErrorReason list" where
  "LLM_RETRY_REASONS = [R_timeout, R_network, R_rate_limited, R_tpm_rate_limited, R_overloaded]"

datatype LLMRetryDecision = Retryable LLMErrorReason | NotRetryable LLMErrorReason

datatype LLMErrorSignal = S_usage_limit | S_credits_exhausted | S_tpm_rate_limit | S_content_filter | S_network | S_empty_response | S_length

record LLMErrorFacts =
  ef_explicitAbort :: bool
  ef_timeout :: bool
  ef_httpStatus :: "int option"
  ef_upstreamStatusCode :: "int option"
  ef_providerMessageCode :: "int option"
  ef_existingProtocolCode :: "int option"
  ef_signals :: "LLMErrorSignal set"

record NormalizedLLMError =
  nz_facts :: LLMErrorFacts
  nz_sanitizedMessage :: "string option"

definition EMPTY_FACTS :: LLMErrorFacts where
  "EMPTY_FACTS = \<lparr>ef_explicitAbort = False, ef_timeout = False, ef_httpStatus = None, ef_upstreamStatusCode = None,
     ef_providerMessageCode = None, ef_existingProtocolCode = None, ef_signals = {}\<rparr>"

definition USAGE_LIMIT_EXCEEDED :: int where "USAGE_LIMIT_EXCEEDED = 42212"
definition LLM_CREDITS_EXHAUSTED :: int where "LLM_CREDITS_EXHAUSTED = 50110"
definition LLM_RATE_LIMITED :: int where "LLM_RATE_LIMITED = 50111"
definition LLM_AUTH_ERROR :: int where "LLM_AUTH_ERROR = 50112"
definition LLM_UPSTREAM_ERROR :: int where "LLM_UPSTREAM_ERROR = 50113"
definition LLM_MIGRATION_ERROR :: int where "LLM_MIGRATION_ERROR = 50114"
definition LLM_TPM_RATE_LIMITED :: int where "LLM_TPM_RATE_LIMITED = 50150"
definition LLM_CLUSTER_OVERLOADED :: int where "LLM_CLUSTER_OVERLOADED = 50151"

definition LLM_ERROR_STATUS_CODES :: "int list" where
  "LLM_ERROR_STATUS_CODES =
     [USAGE_LIMIT_EXCEEDED, LLM_CREDITS_EXHAUSTED, LLM_RATE_LIMITED, LLM_AUTH_ERROR, LLM_UPSTREAM_ERROR, LLM_MIGRATION_ERROR,
      LLM_TPM_RATE_LIMITED, LLM_CLUSTER_OVERLOADED]"

lemmas llm_codes =
  USAGE_LIMIT_EXCEEDED_def LLM_CREDITS_EXHAUSTED_def LLM_RATE_LIMITED_def LLM_AUTH_ERROR_def LLM_UPSTREAM_ERROR_def
  LLM_MIGRATION_ERROR_def LLM_TPM_RATE_LIMITED_def LLM_CLUSTER_OVERLOADED_def

definition isLLMUsageLimitUpstreamStatusCode :: "int option \<Rightarrow> bool" where
  "isLLMUsageLimitUpstreamStatusCode c = (c = Some 2056 \<or> c = Some 2067)"

section \<open>Numbers\<close>

definition validInteger :: "jsnum option \<Rightarrow> int option" where
  "validInteger v = (case v of Some (NInt n) \<Rightarrow> if 0 \<le> n \<and> n \<le> 2000000000 then Some n else None | _ \<Rightarrow> None)"

definition http_range :: "int option \<Rightarrow> int option" where
  "http_range v = (case v of Some n \<Rightarrow> if 100 \<le> n \<and> n \<le> 599 then Some n else None | None \<Rightarrow> None)"

definition validHttpStatus :: "jsnum option \<Rightarrow> int option" where
  "validHttpStatus v = http_range (validInteger v)"

definition effectiveHttpStatus :: "LLMErrorFacts \<Rightarrow> int option" where
  "effectiveHttpStatus f =
     (case validHttpStatus (map_option NInt (ef_upstreamStatusCode f)) of Some n \<Rightarrow> Some n | None \<Rightarrow> ef_httpStatus f)"

lemma or_else_simps [simp]: "or_else None b = b" "or_else (Some x) b = Some x"
  by (simp_all add: or_else_def)

section \<open>Classification\<close>

definition protocol_kind :: "int option \<Rightarrow> LLMErrorReason option" where
  "protocol_kind c =
     (if c = Some USAGE_LIMIT_EXCEEDED then Some R_usage_limit
      else if c = Some LLM_CREDITS_EXHAUSTED then Some R_credits_exhausted
      else if c = Some LLM_TPM_RATE_LIMITED then Some R_tpm_rate_limited
      else if c = Some LLM_RATE_LIMITED then Some R_rate_limited
      else if c = Some LLM_AUTH_ERROR then Some R_auth
      else if c = Some LLM_CLUSTER_OVERLOADED then Some R_overloaded
      else None)"

definition status_kind :: "LLMErrorFacts \<Rightarrow> int option \<Rightarrow> LLMErrorReason" where
  "status_kind f status =
     (if status = Some 429 then R_rate_limited
      else if status = Some 401 \<or> status = Some 403 then R_auth
      else if status = Some 404 then R_not_found
      else if (case status of Some n \<Rightarrow> 400 \<le> n \<and> n < 500 | None \<Rightarrow> False) then R_bad_request
      else if status = Some 529 then R_overloaded
      else if S_network \<in> ef_signals f then R_network
      else if (case status of Some n \<Rightarrow> 500 \<le> n | None \<Rightarrow> False) then R_server_error
      else R_unknown)"

definition toLLMMetricErrorKind :: "LLMErrorFacts \<Rightarrow> LLMErrorReason" where
  "toLLMMetricErrorKind f =
     (if ef_explicitAbort f then R_abort
      else if S_credits_exhausted \<in> ef_signals f then R_credits_exhausted
      else if S_usage_limit \<in> ef_signals f then R_usage_limit
      else if S_tpm_rate_limit \<in> ef_signals f then R_tpm_rate_limited
      else if ef_timeout f \<and> effectiveHttpStatus f = Some 529 then R_overloaded
      else if ef_timeout f then R_timeout
      else if S_content_filter \<in> ef_signals f then R_content_filter
      else if S_empty_response \<in> ef_signals f then R_empty_response
      else if S_length \<in> ef_signals f then R_length
      else case protocol_kind (ef_existingProtocolCode f) of
          Some k \<Rightarrow> k
        | None \<Rightarrow> status_kind f (effectiveHttpStatus f))"

definition toLLMRetryDecision :: "NormalizedLLMError \<Rightarrow> LLMRetryDecision" where
  "toLLMRetryDecision n =
     (let f = nz_facts n; metricKind = toLLMMetricErrorKind f in
      if ef_explicitAbort f \<or> S_usage_limit \<in> ef_signals f \<or> S_credits_exhausted \<in> ef_signals f \<or> S_content_filter \<in> ef_signals f \<or>
         metricKind = R_abort \<or> metricKind = R_usage_limit \<or> metricKind = R_credits_exhausted \<or> metricKind = R_auth
      then NotRetryable metricKind
      else
        (let status = effectiveHttpStatus f in
         if ef_existingProtocolCode f = Some LLM_AUTH_ERROR \<or> status = Some 401 \<or> status = Some 403 then NotRetryable R_auth
         else if ef_timeout f then Retryable R_timeout
         else if S_network \<in> ef_signals f then Retryable R_network
         else if ef_existingProtocolCode f = Some LLM_RATE_LIMITED then Retryable R_rate_limited
         else if ef_existingProtocolCode f = Some LLM_TPM_RATE_LIMITED then Retryable R_tpm_rate_limited
         else if ef_existingProtocolCode f = Some LLM_CLUSTER_OVERLOADED then Retryable R_overloaded
         else if status = Some 429 then Retryable (if S_tpm_rate_limit \<in> ef_signals f then R_tpm_rate_limited else R_rate_limited)
         else if status = Some 529 then Retryable R_overloaded
         else NotRetryable metricKind))"

definition mapUpstreamHttpError :: "int \<Rightarrow> int option" where
  "mapUpstreamHttpError httpStatus =
     (if httpStatus = 402 then Some LLM_CREDITS_EXHAUSTED
      else if httpStatus = 429 then Some LLM_RATE_LIMITED
      else if httpStatus = 529 then Some LLM_CLUSTER_OVERLOADED
      else if httpStatus = 401 \<or> httpStatus = 403 then Some LLM_AUTH_ERROR
      else if httpStatus \<ge> 400 then Some LLM_UPSTREAM_ERROR
      else None)"

text \<open>The code and the message; a code of zero counts as no code.\<close>

definition toLLMProtocolClassification :: "NormalizedLLMError \<Rightarrow> (int \<times> string option) option" where
  "toLLMProtocolClassification n =
     (let f = nz_facts n; httpStatus = effectiveHttpStatus f;
          code =
            (case ef_existingProtocolCode f of
               Some c \<Rightarrow> if c \<noteq> 0 \<and> c \<in> set LLM_ERROR_STATUS_CODES then Some (Some c) else None
             | None \<Rightarrow> None);
          code' =
            (case code of
               Some c \<Rightarrow> c
             | None \<Rightarrow>
                 if S_credits_exhausted \<in> ef_signals f then Some LLM_CREDITS_EXHAUSTED
                 else if isLLMUsageLimitUpstreamStatusCode (ef_upstreamStatusCode f) then Some USAGE_LIMIT_EXCEEDED
                 else if httpStatus = Some 429 \<and> S_tpm_rate_limit \<in> ef_signals f then Some LLM_TPM_RATE_LIMITED
                 else if httpStatus = Some 529 then Some LLM_CLUSTER_OVERLOADED
                 else case httpStatus of
                     Some s \<Rightarrow> mapUpstreamHttpError s
                   | None \<Rightarrow> if ef_timeout f then Some LLM_UPSTREAM_ERROR else None)
      in map_option (\<lambda>c. (c, case nz_sanitizedMessage n of Some m \<Rightarrow> if m = [] then None else Some m | None \<Rightarrow> None)) code')"

section \<open>Reading an error value\<close>

datatype errval =
    EUndefined
  | ENull
  | EOther
  | ENumber jsnum
  | EString string
  | EObject "nat option" "(string \<times> string) option" bool "(string \<times> errval) list"

text \<open>
  The fields of an object are its identity, the name and message it has as an \<^verbatim>\<open>Error\<close> or \<^verbatim>\<open>DOMException\<close>, whether its
  properties can be listed, and its own data properties.
\<close>

record SafeExtracted =
  sx_httpStatus :: "int option"
  sx_upstreamStatusCode :: "int option"
  sx_providerMessageCode :: "int option"
  sx_existingProtocolCode :: "int option"
  sx_explicitAbort :: bool
  sx_timeout :: bool
  sx_network :: bool
  sx_message :: "string option"

definition no_extract :: SafeExtracted where
  "no_extract = \<lparr>sx_httpStatus = None, sx_upstreamStatusCode = None, sx_providerMessageCode = None, sx_existingProtocolCode = None,
     sx_explicitAbort = False, sx_timeout = False, sx_network = False, sx_message = None\<rparr>"

datatype MessageTest =
    ReRequestAborted | ReRateLimit | ReOverload | ReTpm | ReUsageLimit | ReCredits | ReTimeout | ReNetwork | ReEmptyResponse | ReContentFilter
  | ReTimeoutError | ReTimeoutCode | ReContentWord | ReQuotaCredits | ReQuotaUsage | ReHibernation | ReTooFrequent | ReHttpTimeout | ReTimeoutName
  | ReTransportTimeout | ReTransportNetwork

record ErrorHost =
  eh_test :: "MessageTest \<Rightarrow> string \<Rightarrow> bool"
  eh_parse :: "string \<Rightarrow> errval option"

definition SAFE_NETWORK_CODES :: "string list" where
  "SAFE_NETWORK_CODES =
     [''ECONNREFUSED'', ''ECONNRESET'', ''ENOTFOUND'', ''ETIMEDOUT'', ''ESOCKETTIMEDOUT'', ''ECONNABORTED'',
      ''ERR_CONNECTION_REFUSED'', ''ERR_CONNECTION_RESET'', ''ERR_CONNECTION_CLOSED'', ''ERR_NETWORK_IO_SUSPENDED'',
      ''ERR_NETWORK_CHANGED'', ''ERR_NAME_NOT_RESOLVED'', ''ERR_INTERNET_DISCONNECTED'', ''ERR_ADDRESS_UNREACHABLE'',
      ''ERR_PROXY_CONNECTION_FAILED'', ''ERR_HTTP2_PROTOCOL_ERROR'', ''ERR_TIMED_OUT'', ''ERR_CONNECTION_TIMED_OUT'',
      ''UND_ERR_CONNECT_TIMEOUT'', ''UND_ERR_HEADERS_TIMEOUT'', ''UND_ERR_BODY_TIMEOUT'']"

definition sanitizeMessage :: "string \<Rightarrow> string" where
  "sanitizeMessage m = take 4096 m"

definition no_text :: "string option \<Rightarrow> bool" where
  "no_text m = (m = None \<or> m = Some [])"

definition own_prop :: "(string \<times> errval) list \<Rightarrow> string \<Rightarrow> errval" where
  "own_prop ps k = (case map_of ps k of Some v \<Rightarrow> v | None \<Rightarrow> EUndefined)"

fun num_of :: "errval \<Rightarrow> jsnum option" where
  "num_of (ENumber n) = Some n"
| "num_of _ = None"

fun str_of :: "errval \<Rightarrow> string option" where
  "str_of (EString s) = Some s"
| "str_of _ = None"

definition extract_builtin :: "ErrorHost \<Rightarrow> (string \<times> string) option \<Rightarrow> SafeExtracted \<Rightarrow> SafeExtracted" where
  "extract_builtin h b out =
     (case b of
        None \<Rightarrow> out
      | Some (name, message) \<Rightarrow>
          out\<lparr>sx_explicitAbort := sx_explicitAbort out \<or> name = ''AbortError'',
              sx_timeout := sx_timeout out \<or> eh_test h ReTimeoutError name,
              sx_message := (if no_text (sx_message out) \<and> message \<noteq> [] then Some (sanitizeMessage message) else sx_message out)\<rparr>)"

definition extract_props :: "ErrorHost \<Rightarrow> bool \<Rightarrow> (string \<times> errval) list \<Rightarrow> SafeExtracted \<Rightarrow> SafeExtracted" where
  "extract_props h isError ps out =
     (let name = str_of (own_prop ps ''name''); code = str_of (own_prop ps ''code'');
          netCode = (case code of Some c \<Rightarrow> c \<in> set SAFE_NETWORK_CODES | None \<Rightarrow> False);
          statusCode = or_else (validHttpStatus (num_of (own_prop ps ''statusCode''))) (validHttpStatus (num_of (own_prop ps ''status'')));
          providerCode = validInteger (num_of (own_prop ps ''code''));
          statusMessage = (case own_prop ps ''status_message'' of EUndefined \<Rightarrow> own_prop ps ''status_msg'' | ENull \<Rightarrow> own_prop ps ''status_msg'' | v \<Rightarrow> v)
      in out\<lparr>sx_explicitAbort := sx_explicitAbort out \<or> name = Some ''AbortError'',
             sx_timeout := sx_timeout out \<or> (case name of Some n \<Rightarrow> eh_test h ReTimeoutError n | None \<Rightarrow> False) \<or>
               netCode \<and> eh_test h ReTimeoutCode (the code),
             sx_network := sx_network out \<or> netCode \<or> name = Some ''APICallError'' \<and> statusCode = None \<and> isError,
             sx_httpStatus := or_else (sx_httpStatus out) statusCode,
             sx_upstreamStatusCode := or_else (sx_upstreamStatusCode out) (validInteger (num_of (own_prop ps ''status_code''))),
             sx_existingProtocolCode := or_else (sx_existingProtocolCode out) (validInteger (num_of (own_prop ps ''errorCode''))),
             sx_providerMessageCode :=
               (case providerCode of Some c \<Rightarrow> if c < 10000 then or_else (sx_providerMessageCode out) (Some c) else sx_providerMessageCode out
                | None \<Rightarrow> sx_providerMessageCode out),
             sx_message :=
               (case str_of statusMessage of
                  Some m \<Rightarrow> Some (sanitizeMessage m)
                | None \<Rightarrow>
                    (case str_of (own_prop ps ''message'') of
                       Some m \<Rightarrow> if no_text (sx_message out) then Some (sanitizeMessage m) else sx_message out
                     | None \<Rightarrow> sx_message out))\<rparr>)"

definition children :: "ErrorHost \<Rightarrow> nat \<Rightarrow> (string \<times> errval) list \<Rightarrow> (errval \<times> nat) list" where
  "children h depth ps =
     (case str_of (own_prop ps ''responseBody'') of
        Some body \<Rightarrow> if length body \<le> 64000 then (case eh_parse h body of Some v \<Rightarrow> [(v, depth + 1)] | None \<Rightarrow> []) else []
      | None \<Rightarrow> []) @
     [(own_prop ps ''cause'', depth + 1), (own_prop ps ''error'', depth + 1), (own_prop ps ''data'', depth + 1)]"

text \<open>The first argument is how many items may still be taken off the queue.\<close>

fun extract_loop :: "ErrorHost \<Rightarrow> nat \<Rightarrow> (errval \<times> nat) list \<Rightarrow> nat list \<Rightarrow> SafeExtracted \<Rightarrow> SafeExtracted" where
  "extract_loop h 0 queue seen out = out"
| "extract_loop h (Suc n) [] seen out = out"
| "extract_loop h (Suc n) ((v, depth) # queue) seen out =
     (if depth > 4 then extract_loop h n queue seen out
      else case v of
          EObject i b readable ps \<Rightarrow>
            if (case i of Some k \<Rightarrow> k \<in> set seen | None \<Rightarrow> False) then extract_loop h n queue seen out
            else
              (let seen' = (case i of Some k \<Rightarrow> k # seen | None \<Rightarrow> seen); out' = extract_builtin h b out in
               if \<not> readable then extract_loop h n queue seen' out'
               else extract_loop h n (queue @ children h depth ps) seen' (extract_props h (b \<noteq> None) ps out'))
        | _ \<Rightarrow> extract_loop h n queue seen out)"

definition safeExtract :: "ErrorHost \<Rightarrow> errval \<Rightarrow> SafeExtracted" where
  "safeExtract h raw = extract_loop h 32 [(raw, 0)] [] no_extract"

definition applyMessageSignals :: "ErrorHost \<Rightarrow> string option \<Rightarrow> LLMErrorFacts \<Rightarrow> LLMErrorFacts" where
  "applyMessageSignals h message f =
     (case message of
        None \<Rightarrow> f
      | Some m \<Rightarrow>
          if m = [] then f
          else
            (let t = (\<lambda>r. eh_test h r m);
                 f1 = f\<lparr>ef_explicitAbort := ef_explicitAbort f \<or> t ReRequestAborted,
                        ef_httpStatus := or_else (or_else (ef_httpStatus f) (if t ReRateLimit then Some 429 else None)) (if t ReOverload then Some 529 else None),
                        ef_timeout := ef_timeout f \<or> t ReTimeout,
                        ef_signals := ef_signals f \<union> (if t ReTpm then {S_tpm_rate_limit} else {}) \<union> (if t ReUsageLimit then {S_usage_limit} else {}) \<union>
                          (if t ReCredits then {S_credits_exhausted} else {}) \<union> (if t ReNetwork then {S_network} else {}) \<union>
                          (if t ReEmptyResponse then {S_empty_response} else {})\<rparr>;
                 hasStructuredError = (ef_existingProtocolCode f1 \<noteq> None \<or> effectiveHttpStatus f1 \<noteq> None)
             in if \<not> hasStructuredError \<and> t ReContentFilter then f1\<lparr>ef_signals := ef_signals f1 \<union> {S_content_filter}\<rparr> else f1))"

definition applyNumericSignals :: "LLMErrorFacts \<Rightarrow> LLMErrorFacts" where
  "applyNumericSignals f =
     (let httpStatus = effectiveHttpStatus f in
      f\<lparr>ef_signals := ef_signals f \<union>
          (if ef_upstreamStatusCode f = Some 1400010161 \<or> ef_providerMessageCode f = Some 1008 \<or> httpStatus = Some 402
           then {S_credits_exhausted} else {}) \<union>
          (if isLLMUsageLimitUpstreamStatusCode (ef_upstreamStatusCode f) then {S_usage_limit} else {}) \<union>
          (if httpStatus = Some 429 \<and> (\<exists>c \<in> set [2045, 2046, 2047, 1039, 1041]. ef_providerMessageCode f = Some c)
           then {S_tpm_rate_limit} else {})\<rparr>)"

record LLMErrorInput =
  ei_raw :: errval
  ei_finishReason :: "string option"
  ei_errorMessage :: "string option"
  ei_statusCode :: "jsnum option"
  ei_explicitAbort :: bool

section \<open>Codes in flattened payloads\<close>

record Extracted =
  xt_statusCode :: "jsnum option"
  xt_errorCode :: "jsnum option"
  xt_message :: "string option"

definition no_codes :: Extracted where
  "no_codes = \<lparr>xt_statusCode = None, xt_errorCode = None, xt_message = None\<rparr>"

definition fill :: "Extracted \<Rightarrow> Extracted \<Rightarrow> Extracted" where
  "fill a b = \<lparr>xt_statusCode = or_else (xt_statusCode a) (xt_statusCode b), xt_errorCode = or_else (xt_errorCode a) (xt_errorCode b),
     xt_message = or_else (xt_message a) (xt_message b)\<rparr>"

text \<open>Reading a property of an error object finds its own properties first and then the name and message of the error.\<close>

definition read_prop :: "(string \<times> string) option \<Rightarrow> (string \<times> errval) list \<Rightarrow> string \<Rightarrow> errval" where
  "read_prop b ps k =
     (case map_of ps k of
        Some v \<Rightarrow> v
      | None \<Rightarrow> (case b of Some (n, m) \<Rightarrow> if k = ''name'' then EString n else if k = ''message'' then EString m else EUndefined | None \<Rightarrow> EUndefined))"

definition or_text :: "string option \<Rightarrow> string option \<Rightarrow> string option" where
  "or_text a b = (if no_text a \<and> b \<noteq> None then b else a)"

definition char_between :: "char \<Rightarrow> char \<Rightarrow> char \<Rightarrow> bool" where
  "char_between lo hi c = (of_char lo \<le> (of_char c :: nat) \<and> (of_char c :: nat) \<le> of_char hi)"

definition word_char :: "char \<Rightarrow> bool" where
  "word_char c = (is_digit c \<or> c = CHR ''_'' \<or> char_between (CHR ''A'') (CHR ''Z'') c \<or> char_between (CHR ''a'') (CHR ''z'') c)"

text \<open>The first match of \<^verbatim>\<open>/\b([45]\d{2})\b/\<close>; the flag tells whether the character before is a word character.\<close>

fun http_number :: "bool \<Rightarrow> string \<Rightarrow> int option" where
  "http_number inWord (a # b # c # rest) =
     (if \<not> inWord \<and> (a = CHR ''4'' \<or> a = CHR ''5'') \<and> is_digit b \<and> is_digit c \<and> (case rest of [] \<Rightarrow> True | d # _ \<Rightarrow> \<not> word_char d)
      then Some (int (100 * digit_val a + 10 * digit_val b + digit_val c))
      else http_number (word_char a) (b # c # rest))"
| "http_number inWord _ = None"

definition json_slice :: "string \<Rightarrow> string option" where
  "json_slice s =
     (let body = dropWhile (\<lambda>c. c \<noteq> CHR ''{'') s; slice = rev (dropWhile (\<lambda>c. c \<noteq> CHR ''}'') (rev body))
      in if slice = [] then None else Some slice)"

definition before_json :: "string \<Rightarrow> string" where
  "before_json s = (let pre = takeWhile (\<lambda>c. c \<noteq> CHR ''{'') s in if pre = [] then s else pre)"

text \<open>The outer fields fill what the nested payloads left open.\<close>

definition outer_fields :: "(string \<Rightarrow> errval) \<Rightarrow> Extracted \<Rightarrow> Extracted" where
  "outer_fields get out =
     \<lparr>xt_statusCode = or_else (xt_statusCode out) (or_else (num_of (get ''status_code'')) (or_else (num_of (get ''statusCode'')) (num_of (get ''status'')))),
      xt_errorCode = or_else (xt_errorCode out) (or_else (num_of (get ''errorCode'')) (num_of (get ''code''))),
      xt_message = or_text (or_text (or_text (or_text (xt_message out) (str_of (get ''message''))) (str_of (get ''status_message'')))
        (str_of (get ''status_msg''))) (str_of (get ''error''))\<rparr>"

definition message_fields :: "Extracted \<Rightarrow> Extracted \<Rightarrow> Extracted" where
  "message_fields out fromMsg =
     \<lparr>xt_statusCode = or_else (xt_statusCode out) (xt_statusCode fromMsg), xt_errorCode = or_else (xt_errorCode out) (xt_errorCode fromMsg),
      xt_message = (if no_text (xt_message fromMsg) then xt_message out else xt_message fromMsg)\<rparr>"

definition status_in_text :: "string \<Rightarrow> Extracted \<Rightarrow> Extracted" where
  "status_in_text s out = out\<lparr>xt_statusCode := or_else (xt_statusCode out) (map_option NInt (http_number False (before_json s)))\<rparr>"

text \<open>The first argument after the host bounds the nesting that is followed; \<^const>\<open>None\<close> means that it was not enough.\<close>

function tryExtractFromPayload :: "ErrorHost \<Rightarrow> nat \<Rightarrow> errval \<Rightarrow> Extracted option"
and extractFromMessageString :: "ErrorHost \<Rightarrow> nat \<Rightarrow> string \<Rightarrow> Extracted option"
and extract_object :: "ErrorHost \<Rightarrow> nat \<Rightarrow> errval \<Rightarrow> Extracted option"
and extract_parsed :: "ErrorHost \<Rightarrow> nat \<Rightarrow> string \<Rightarrow> Extracted option" where
  "tryExtractFromPayload h 0 raw = None"
| "tryExtractFromPayload h (Suc n) raw =
     (case raw of
        EObject _ b _ ps \<Rightarrow>
          (let get = read_prop b ps in
           Option.bind (case get ''responseBody'' of EString body \<Rightarrow> extract_parsed h n body | _ \<Rightarrow> Some no_codes) (\<lambda>body.
           Option.bind (extract_object h n (get ''error'')) (\<lambda>e.
           Option.bind (extract_object h n (get ''data'')) (\<lambda>d.
           Option.bind (extract_object h n (get ''cause'')) (\<lambda>c.
             let out = outer_fields get (fill (fill (fill body e) d) c) in
             case get ''message'' of
               EString m \<Rightarrow> map_option (message_fields out) (extractFromMessageString h n m)
             | _ \<Rightarrow> Some out)))))
      | _ \<Rightarrow> Some no_codes)"
| "extractFromMessageString h n s =
     (if s = [] then Some no_codes
      else
        map_option (status_in_text s)
          (case json_slice s of
             None \<Rightarrow> Some no_codes
           | Some slice \<Rightarrow>
               map_option (\<lambda>inner. inner\<lparr>xt_message := (if no_text (xt_message inner) then None else xt_message inner)\<rparr>) (extract_parsed h n slice)))"
| "extract_object h n v = (case v of EObject _ _ _ _ \<Rightarrow> tryExtractFromPayload h n v | _ \<Rightarrow> Some no_codes)"
| "extract_parsed h n text = (case eh_parse h text of Some inner \<Rightarrow> tryExtractFromPayload h n inner | None \<Rightarrow> Some no_codes)"

  by pat_completeness auto
termination
  by (relation "measure (\<lambda>x. case x of Inl (Inl (h, n, v)) \<Rightarrow> 3 * n | Inl (Inr (h, n, s)) \<Rightarrow> 3 * n + 2 | Inr (Inl (h, n, v)) \<Rightarrow> 3 * n + 1 | Inr (Inr (h, n, s)) \<Rightarrow> 3 * n + 1)") auto

section \<open>Codes of errors\<close>

definition UPSTREAM_STATUS_CODE_MAP :: "jsnum \<Rightarrow> int option" where
  "UPSTREAM_STATUS_CODE_MAP v =
     (if v = NInt 1400010161 then Some LLM_CREDITS_EXHAUSTED
      else if v = NInt 2056 \<or> v = NInt 2067 then Some USAGE_LIMIT_EXCEEDED
      else None)"

definition map_http :: "jsnum \<Rightarrow> int option" where
  "map_http v = (case v of NInt n \<Rightarrow> mapUpstreamHttpError n | NPosInf \<Rightarrow> Some LLM_UPSTREAM_ERROR | _ \<Rightarrow> None)"

definition num_ge :: "jsnum \<Rightarrow> int \<Rightarrow> bool" where
  "num_ge v k = (case v of NInt n \<Rightarrow> k \<le> n | NPosInf \<Rightarrow> True | _ \<Rightarrow> False)"

definition num_less :: "jsnum \<Rightarrow> int \<Rightarrow> bool" where
  "num_less v k = (case v of NInt n \<Rightarrow> n < k | NNegInf \<Rightarrow> True | _ \<Rightarrow> False)"

definition classifyQuotaSignalFromMessage :: "ErrorHost \<Rightarrow> string \<Rightarrow> (int \<times> string) option" where
  "classifyQuotaSignalFromMessage h message =
     (if eh_test h ReQuotaCredits message then Some (LLM_CREDITS_EXHAUSTED, message)
      else if eh_test h ReQuotaUsage message then Some (USAGE_LIMIT_EXCEEDED, message)
      else if eh_test h ReHibernation message then Some (LLM_CREDITS_EXHAUSTED, message)
      else if eh_test h ReTooFrequent message then Some (LLM_RATE_LIMITED, message)
      else None)"

definition fallbackMessage :: "errval \<Rightarrow> string" where
  "fallbackMessage err = (case err of EObject _ (Some (n, m)) _ _ \<Rightarrow> m | EString s \<Rightarrow> s | _ \<Rightarrow> ''LLM call failed'')"

definition err_prop :: "errval \<Rightarrow> string \<Rightarrow> errval" where
  "err_prop err k = (case err of EObject _ b _ ps \<Rightarrow> read_prop b ps k | _ \<Rightarrow> EUndefined)"

definition extractErrorCode :: "errval \<Rightarrow> string option" where
  "extractErrorCode err = str_of (err_prop err ''code'')"

definition is_error :: "errval \<Rightarrow> bool" where
  "is_error err = (case err of EObject _ (Some _) _ _ \<Rightarrow> True | _ \<Rightarrow> False)"

definition extractErrorMessage :: "errval \<Rightarrow> string option" where
  "extractErrorMessage err = (if is_error err then Some (fallbackMessage err) else str_of (err_prop err ''message''))"

definition extractAPICallErrorStatus :: "errval \<Rightarrow> jsnum option" where
  "extractAPICallErrorStatus err = (if err_prop err ''name'' \<noteq> EString ''APICallError'' then None else num_of (err_prop err ''statusCode''))"

definition isLLMTransportTimeoutCode :: "ErrorHost \<Rightarrow> string \<Rightarrow> bool" where
  "isLLMTransportTimeoutCode h code = eh_test h ReTimeoutCode code"

definition isLLMTransportNetworkCode :: "ErrorHost \<Rightarrow> string option \<Rightarrow> bool" where
  "isLLMTransportNetworkCode h code =
     (case code of Some c \<Rightarrow> c \<in> set SAFE_NETWORK_CODES \<and> \<not> isLLMTransportTimeoutCode h c | None \<Rightarrow> False)"

definition isLLMHttpTimeoutSignal :: "ErrorHost \<Rightarrow> errval \<Rightarrow> string \<Rightarrow> bool" where
  "isLLMHttpTimeoutSignal h err message =
     (eh_test h ReHttpTimeout message \<or>
      (case str_of (err_prop err ''name'') of Some n \<Rightarrow> eh_test h ReTimeoutName n | None \<Rightarrow> False) \<or>
      (case str_of (err_prop err ''code'') of Some c \<Rightarrow> isLLMTransportTimeoutCode h c | None \<Rightarrow> False))"

definition message_payload :: "string \<Rightarrow> errval" where
  "message_payload m = EObject None None True [(''message'', EString m)]"

text \<open>What follows the two typed codes: quota wording, token throttling, HTTP status, timeout and network signals.\<close>

definition code_from_signals :: "ErrorHost \<Rightarrow> errval \<Rightarrow> Extracted \<Rightarrow> string \<Rightarrow> (int \<times> string) option" where
  "code_from_signals h err x message =
     (case classifyQuotaSignalFromMessage h message of
        Some r \<Rightarrow> Some r
      | None \<Rightarrow>
          (let httpStatus = or_else (xt_statusCode x) (num_of (err_prop err ''statusCode''));
               mapped = map_option (\<lambda>c. (c, message)) (Option.bind httpStatus map_http)
           in if httpStatus = Some (NInt 429) \<and> eh_test h ReTpm message then Some (LLM_TPM_RATE_LIMITED, message)
              else if (case httpStatus of Some v \<Rightarrow> num_less v 500 \<or> v = NInt 529 | None \<Rightarrow> False) \<and> mapped \<noteq> None then mapped
              else if isLLMHttpTimeoutSignal h err message then Some (LLM_UPSTREAM_ERROR, message)
              else if mapped \<noteq> None then mapped
              else if eh_test h ReTransportNetwork message \<or> isLLMTransportNetworkCode h (extractErrorCode err)
              then Some (LLM_UPSTREAM_ERROR, message)
              else None))"

definition code_of_extracted :: "ErrorHost \<Rightarrow> errval \<Rightarrow> Extracted \<Rightarrow> (int \<times> string) option" where
  "code_of_extracted h err x =
     (let message = (case xt_message x of Some m \<Rightarrow> m | None \<Rightarrow> fallbackMessage err);
          typed = (case xt_errorCode x of Some (NInt c) \<Rightarrow> if c \<in> set LLM_ERROR_STATUS_CODES then Some c else None | _ \<Rightarrow> None)
      in case or_else typed (Option.bind (xt_statusCode x) UPSTREAM_STATUS_CODE_MAP) of
           Some c \<Rightarrow> Some (c, message)
         | None \<Rightarrow> code_from_signals h err x message)"

definition classifyLLMErrorToCode :: "ErrorHost \<Rightarrow> nat \<Rightarrow> errval \<Rightarrow> (int \<times> string) option option" where
  "classifyLLMErrorToCode h n err =
     map_option (code_of_extracted h err) (tryExtractFromPayload h n (case err of EString s \<Rightarrow> message_payload s | _ \<Rightarrow> err))"

definition classifyFinishStepError :: "ErrorHost \<Rightarrow> string option \<Rightarrow> jsnum option \<Rightarrow> string option \<Rightarrow> LLMErrorReason option" where
  "classifyFinishStepError h finishReason statusCode errorMessage =
     (if finishReason = Some ''length'' then Some R_length
      else if finishReason = Some ''content-filter'' \<or> finishReason = Some ''content_filter'' then Some R_content_filter
      else if statusCode = Some (NInt 429) then Some R_rate_limited
      else if statusCode = Some (NInt 401) \<or> statusCode = Some (NInt 403) then Some R_auth
      else if statusCode = Some (NInt 404) then Some R_not_found
      else if (case statusCode of Some v \<Rightarrow> num_ge v 400 \<and> num_less v 500 | None \<Rightarrow> False) then Some R_bad_request
      else
        (let t = (\<lambda>r. case errorMessage of Some m \<Rightarrow> m \<noteq> [] \<and> eh_test h r m | None \<Rightarrow> False) in
         if t ReTimeout then Some R_timeout
         else if t ReNetwork then Some R_network
         else if t ReEmptyResponse then Some R_empty_response
         else if t ReContentWord then Some R_content_filter
         else if (case statusCode of Some v \<Rightarrow> num_ge v 500 | None \<Rightarrow> False) then Some R_server_error
         else if finishReason = Some ''error'' then Some R_unknown
         else None))"

text \<open>The two flags tell whether the value is an abort \<^verbatim>\<open>DOMException\<close> and whether it is a \<^verbatim>\<open>TypeError\<close>.\<close>

definition classifyLLMError :: "ErrorHost \<Rightarrow> bool \<Rightarrow> bool \<Rightarrow> errval \<Rightarrow> LLMErrorReason" where
  "classifyLLMError h domAbort typeError err =
     (let t = (\<lambda>r. is_error err \<and> eh_test h r (fallbackMessage err));
          errorCode = extractErrorCode err; errorMessage = extractErrorMessage err; apiStatus = extractAPICallErrorStatus err;
          m = (\<lambda>r. case errorMessage of Some s \<Rightarrow> eh_test h r s | None \<Rightarrow> False);
          coded = (case errorCode of Some c \<Rightarrow> c \<in> set SAFE_NETWORK_CODES | None \<Rightarrow> False);
          code_kind = (if isLLMTransportTimeoutCode h (the errorCode) then R_timeout else R_network);
          tail =
            (if coded then code_kind
             else if apiStatus = None \<and> is_error err \<and> err_prop err ''name'' = EString ''APICallError'' then R_network
             else if typeError \<or> t ReNetwork then R_network
             else if t ReContentWord then R_content_filter
             else if t ReEmptyResponse then R_empty_response
             else R_unknown)
      in if domAbort \<or> t ReTimeout then R_timeout
         else case apiStatus of
             None \<Rightarrow> tail
           | Some v \<Rightarrow>
               if v = NInt 429 then R_rate_limited
               else if v = NInt 401 \<or> v = NInt 403 then R_auth
               else if v = NInt 404 then R_not_found
               else if num_ge v 400 \<and> num_less v 500 then R_bad_request
               else if coded then code_kind
               else if m ReTransportTimeout then R_timeout
               else if m ReTransportNetwork then R_network
               else if num_ge v 500 then R_server_error
               else tail)"

section \<open>Normalisation\<close>

record LegacyFacts =
  lg_httpStatus :: "int option"
  lg_upstreamStatusCode :: "int option"
  lg_existingProtocolCode :: "int option"
  lg_message :: "string option"

text \<open>A message of \<open>n\<close> characters nests at most \<open>n\<close> payloads, so a bound of \<open>n + 2\<close> is never reached.\<close>

definition extractLegacyMessageFacts :: "ErrorHost \<Rightarrow> string option \<Rightarrow> LegacyFacts" where
  "extractLegacyMessageFacts h message =
     (if no_text message then \<lparr>lg_httpStatus = None, lg_upstreamStatusCode = None, lg_existingProtocolCode = None, lg_message = None\<rparr>
      else
        (let boundedMessage = sanitizeMessage (the message);
             n = length boundedMessage + 2;
             extracted = (case tryExtractFromPayload h n (message_payload boundedMessage) of Some x \<Rightarrow> x | None \<Rightarrow> no_codes);
             classified = (case classifyLLMErrorToCode h n (EString boundedMessage) of Some c \<Rightarrow> c | None \<Rightarrow> None);
             statusCode = validInteger (xt_statusCode extracted);
             httpStatus = http_range statusCode
         in \<lparr>lg_httpStatus = httpStatus, lg_upstreamStatusCode = (if httpStatus = None then statusCode else None),
             lg_existingProtocolCode = map_option fst classified,
             lg_message = (if no_text (xt_message extracted) then None else map_option sanitizeMessage (xt_message extracted))\<rparr>))"

definition normalizeLLMError :: "ErrorHost \<Rightarrow> LLMErrorInput \<Rightarrow> NormalizedLLMError" where
  "normalizeLLMError h input =
     (let extracted = safeExtract h (ei_raw input);
          visibleMessage = or_else (sx_message extracted) (ei_errorMessage input);
          legacy = extractLegacyMessageFacts h visibleMessage;
          message = or_else (lg_message legacy) visibleMessage;
          facts =
            \<lparr>ef_explicitAbort = (ei_explicitAbort input \<or> ei_finishReason input = Some ''aborted'' \<or> sx_explicitAbort extracted),
             ef_timeout = sx_timeout extracted,
             ef_httpStatus = or_else (or_else (validHttpStatus (ei_statusCode input)) (sx_httpStatus extracted)) (lg_httpStatus legacy),
             ef_upstreamStatusCode = or_else (sx_upstreamStatusCode extracted) (lg_upstreamStatusCode legacy),
             ef_providerMessageCode = sx_providerMessageCode extracted,
             ef_existingProtocolCode = or_else (sx_existingProtocolCode extracted) (lg_existingProtocolCode legacy),
             ef_signals =
               (if ei_finishReason input = Some ''length'' then {S_length} else {}) \<union>
               (if ei_finishReason input = Some ''content-filter'' \<or> ei_finishReason input = Some ''content_filter'' then {S_content_filter} else {}) \<union>
               (if sx_network extracted then {S_network} else {})\<rparr>;
          facts' = applyNumericSignals (applyMessageSignals h message facts)
      in \<lparr>nz_facts = facts', nz_sanitizedMessage = (if no_text message then None else message)\<rparr>)"

section \<open>Extraction ends\<close>

declare tryExtractFromPayload.simps(2) [simp del] extractFromMessageString.simps [simp del] extract_object.simps [simp del]
  extract_parsed.simps [simp del]

lemma extract_no_object: "\<nexists>i b r ps. v = EObject i b r ps \<Longrightarrow> tryExtractFromPayload h (Suc n) v = Some no_codes"
  by (cases v) (auto simp: tryExtractFromPayload.simps(2))

text \<open>
  How much room a payload has for nesting.  \<^verbatim>\<open>JSON.parse\<close> is given text that is longer than the room of the value it returns: every
  string, object and array of the value takes its own characters of the text.
\<close>

fun room :: "errval \<Rightarrow> nat" where
  "room (EString s) = length s"
| "room (EObject i b r ps) =
     1 + (case b of Some (n, m) \<Rightarrow> length n + length m | None \<Rightarrow> 0) + sum_list (map (\<lambda>p. room (snd p)) ps)"
| "room _ = 0"

definition json_shrinks :: "ErrorHost \<Rightarrow> bool" where
  "json_shrinks h = (\<forall>s v. eh_parse h s = Some v \<longrightarrow> room v < length s)"

lemma room_member: "(k, v) \<in> set ps \<Longrightarrow> room v \<le> sum_list (map (\<lambda>p. room (snd p)) ps)"
  by (induction ps) auto

lemma room_read: "room (read_prop b ps k) < room (EObject i b r ps)"
proof (cases "map_of ps k")
  case (Some v)
  then have "room v \<le> sum_list (map (\<lambda>p. room (snd p)) ps)" by (intro room_member) (rule map_of_SomeD)
  then show ?thesis using Some by (simp add: read_prop_def)
next
  case None
  then show ?thesis by (cases b) (auto simp: read_prop_def split: prod.split)
qed

lemma json_slice_length: "json_slice s = Some t \<Longrightarrow> length t \<le> length s"
proof -
  assume "json_slice s = Some t"
  then have "t = rev (dropWhile (\<lambda>c. c \<noteq> CHR ''}'') (rev (dropWhile (\<lambda>c. c \<noteq> CHR ''{'') s)))"
    by (auto simp: json_slice_def Let_def split: if_splits)
  then have "length t \<le> length (dropWhile (\<lambda>c. c \<noteq> CHR ''{'') s)"
    by (simp add: length_dropWhile_le [of _ "rev (dropWhile (\<lambda>c. c \<noteq> CHR ''{'') s)", simplified])
  also have "\<dots> \<le> length s" by (rule length_dropWhile_le)
  finally show ?thesis .
qed

lemma extraction_returns: "json_shrinks h \<Longrightarrow> room v < n \<Longrightarrow> tryExtractFromPayload h n v \<noteq> None"
proof (induction n arbitrary: v)
  case (Suc n)
  note J = Suc.prems(1)
  have obj: "extract_object h n w \<noteq> None" if "room w < n" for w
    using Suc.IH [OF J that] by (cases w) (auto simp: extract_object.simps)
  have parsed: "extract_parsed h n t \<noteq> None" if "length t \<le> n" for t
  proof (cases "eh_parse h t")
    case (Some w)
    then have "room w < length t" using J by (auto simp: json_shrinks_def)
    then have "room w < n" using that by linarith
    then show ?thesis using Suc.IH [OF J] Some by (simp add: extract_parsed.simps)
  qed (simp add: extract_parsed.simps)
  have msg: "extractFromMessageString h n t \<noteq> None" if "length t \<le> n" for t
  proof (cases "json_slice t")
    case (Some u)
    then show ?thesis using parsed [of u] json_slice_length [OF Some] that by (simp add: extractFromMessageString.simps)
  qed (simp add: extractFromMessageString.simps)
  show ?case
  proof (cases v)
    case (EObject i b r ps)
    have get: "room (read_prop b ps k) < n" for k
      using room_read [of b ps k i r] Suc.prems(2) EObject by simp
    have str: "length t \<le> n" if "read_prop b ps k = EString t" for k t
      using get [of k] that by simp
    obtain e d c where "extract_object h n (read_prop b ps ''error'') = Some e" "extract_object h n (read_prop b ps ''data'') = Some d"
      "extract_object h n (read_prop b ps ''cause'') = Some c"
      using obj [OF get] by blast
    moreover obtain body where "(case read_prop b ps ''responseBody'' of EString t \<Rightarrow> extract_parsed h n t | _ \<Rightarrow> Some no_codes) = Some body"
      using parsed [OF str] by (cases "read_prop b ps ''responseBody''") auto
    ultimately show ?thesis
      using msg [OF str] EObject by (auto simp: tryExtractFromPayload.simps(2) Let_def split: errval.split)
  qed (auto simp: extract_no_object)
qed simp

lemma bind_mono:
  assumes "Option.bind a f = Some y" "\<And>x. a = Some x \<Longrightarrow> a' = Some x" "\<And>x. f x = Some y \<Longrightarrow> f' x = Some y"
  shows "Option.bind a' f' = Some y"
  using assms by (auto simp: bind_eq_Some_conv)

lemma extraction_mono: "tryExtractFromPayload h n v = Some x \<Longrightarrow> tryExtractFromPayload h (Suc n) v = Some x"
proof (induction n arbitrary: v x)
  case (Suc n)
  have obj: "extract_object h (Suc n) w = Some y" if "extract_object h n w = Some y" for w y
    using that Suc.IH by (cases w) (auto simp: extract_object.simps)
  have parsed: "extract_parsed h (Suc n) t = Some y" if "extract_parsed h n t = Some y" for t y
    using that Suc.IH by (cases "eh_parse h t") (auto simp: extract_parsed.simps)
  have msg: "extractFromMessageString h (Suc n) t = Some y" if "extractFromMessageString h n t = Some y" for t y
    using that parsed by (cases "json_slice t") (auto simp: extractFromMessageString.simps split: if_splits)
  show ?case
  proof (cases v)
    case (EObject i b r ps)
    show ?thesis
      using Suc.prems unfolding EObject tryExtractFromPayload.simps(2) errval.case Let_def
      apply (rule bind_mono)
      subgoal by (auto intro: parsed split: errval.splits)
      apply (erule bind_mono [OF _ obj])
      apply assumption
      apply (erule bind_mono [OF _ obj])
      apply assumption
      apply (erule bind_mono [OF _ obj])
      apply assumption
      apply (auto intro: msg split: errval.splits)
      done
  qed (use Suc.prems in \<open>auto simp: extract_no_object\<close>)
qed simp

lemma extraction_stable: "tryExtractFromPayload h n v = Some x \<Longrightarrow> n \<le> m \<Longrightarrow> tryExtractFromPayload h m v = Some x"
  by (induction m) (auto simp: le_Suc_eq intro: extraction_mono)

section \<open>The retry policy\<close>

text \<open>What the policy documents: an error is retried only for one of five reasons.\<close>

lemma retry_reason: "toLLMRetryDecision n = Retryable r \<Longrightarrow> r \<in> set LLM_RETRY_REASONS"
  by (auto simp: toLLMRetryDecision_def LLM_RETRY_REASONS_def Let_def split: if_splits)

lemma retry_excludes:
  "toLLMRetryDecision n = Retryable r \<Longrightarrow>
   \<not> ef_explicitAbort (nz_facts n) \<and> ef_signals (nz_facts n) \<inter> {S_usage_limit, S_credits_exhausted, S_content_filter} = {} \<and>
   effectiveHttpStatus (nz_facts n) \<notin> {Some 401, Some 403} \<and> ef_existingProtocolCode (nz_facts n) \<noteq> Some LLM_AUTH_ERROR"
  by (auto simp: toLLMRetryDecision_def Let_def split: if_splits)

text \<open>The policy without its order of tests: a transient fact must be there, and no fact that makes a repetition useless.  A typed code for usage
  or credits is such a fact only as long as no timeout, token rate, empty response or length signal is read before it.\<close>

definition transient_facts :: "LLMErrorFacts \<Rightarrow> bool" where
  "transient_facts f \<longleftrightarrow> ef_timeout f \<or> S_network \<in> ef_signals f \<or>
     ef_existingProtocolCode f \<in> {Some LLM_RATE_LIMITED, Some LLM_TPM_RATE_LIMITED, Some LLM_CLUSTER_OVERLOADED} \<or>
     effectiveHttpStatus f \<in> {Some 429, Some 529}"

definition final_facts :: "LLMErrorFacts \<Rightarrow> bool" where
  "final_facts f \<longleftrightarrow> ef_explicitAbort f \<or> ef_signals f \<inter> {S_usage_limit, S_credits_exhausted, S_content_filter} \<noteq> {} \<or>
     effectiveHttpStatus f \<in> {Some 401, Some 403} \<or> ef_existingProtocolCode f = Some LLM_AUTH_ERROR \<or>
     ef_existingProtocolCode f \<in> {Some USAGE_LIMIT_EXCEEDED, Some LLM_CREDITS_EXHAUSTED} \<and> \<not> ef_timeout f \<and>
       ef_signals f \<inter> {S_tpm_rate_limit, S_empty_response, S_length} = {}"

lemma metric_kind_final:
  assumes "\<not> ef_explicitAbort f" "ef_signals f \<inter> {S_usage_limit, S_credits_exhausted, S_content_filter} = {}"
    "effectiveHttpStatus f \<notin> {Some 401, Some 403}" "ef_existingProtocolCode f \<noteq> Some LLM_AUTH_ERROR"
  shows "toLLMMetricErrorKind f \<in> {R_abort, R_usage_limit, R_credits_exhausted, R_auth} \<longleftrightarrow>
    ef_existingProtocolCode f \<in> {Some USAGE_LIMIT_EXCEEDED, Some LLM_CREDITS_EXHAUSTED} \<and> \<not> ef_timeout f \<and>
       ef_signals f \<inter> {S_tpm_rate_limit, S_empty_response, S_length} = {}"
proof (cases "ef_timeout f \<or> S_tpm_rate_limit \<in> ef_signals f \<or> S_empty_response \<in> ef_signals f \<or> S_length \<in> ef_signals f")
  case True
  then show ?thesis using assms by (auto simp: toLLMMetricErrorKind_def)
next
  case False
  have s: "status_kind f (effectiveHttpStatus f) \<notin> {R_abort, R_usage_limit, R_credits_exhausted, R_auth}"
    using assms(3) by (simp add: status_kind_def)
  have k: "toLLMMetricErrorKind f =
      (case protocol_kind (ef_existingProtocolCode f) of Some k \<Rightarrow> k | None \<Rightarrow> status_kind f (effectiveHttpStatus f))"
    using False assms(1,2) by (simp add: toLLMMetricErrorKind_def)
  show ?thesis
  proof (cases "ef_existingProtocolCode f \<in> {Some USAGE_LIMIT_EXCEEDED, Some LLM_CREDITS_EXHAUSTED}")
    case True
    then have "toLLMMetricErrorKind f \<in> {R_usage_limit, R_credits_exhausted}" unfolding k by (auto simp: protocol_kind_def)
    then show ?thesis using True False by blast
  next
    case no: False
    then have "protocol_kind (ef_existingProtocolCode f) \<notin> {Some R_abort, Some R_usage_limit, Some R_credits_exhausted, Some R_auth}"
      using assms(4) by (simp add: protocol_kind_def)
    then have "toLLMMetricErrorKind f \<notin> {R_abort, R_usage_limit, R_credits_exhausted, R_auth}"
      using s unfolding k by (cases "protocol_kind (ef_existingProtocolCode f)") simp_all
    then show ?thesis using no by blast
  qed
qed

lemma retry_tests:
  fixes n
  defines "f \<equiv> nz_facts n"
  shows "(\<exists>r. toLLMRetryDecision n = Retryable r) \<longleftrightarrow> transient_facts f \<and>
    \<not> (ef_explicitAbort f \<or> S_usage_limit \<in> ef_signals f \<or> S_credits_exhausted \<in> ef_signals f \<or> S_content_filter \<in> ef_signals f \<or>
       toLLMMetricErrorKind f = R_abort \<or> toLLMMetricErrorKind f = R_usage_limit \<or> toLLMMetricErrorKind f = R_credits_exhausted \<or>
       toLLMMetricErrorKind f = R_auth) \<and>
    \<not> (ef_existingProtocolCode f = Some LLM_AUTH_ERROR \<or> effectiveHttpStatus f = Some 401 \<or> effectiveHttpStatus f = Some 403)"
    (is "_ \<longleftrightarrow> _ \<and> \<not> ?E \<and> \<not> ?A")
proof (cases "?E \<or> ?A")
  case True
  then have "\<exists>k. toLLMRetryDecision n = NotRetryable k" unfolding toLLMRetryDecision_def Let_def f_def [symmetric] by (cases ?E; simp)
  then show ?thesis using True by auto
next
  case False
  then have "toLLMRetryDecision n =
     (if ef_timeout f then Retryable R_timeout
      else if S_network \<in> ef_signals f then Retryable R_network
      else if ef_existingProtocolCode f = Some LLM_RATE_LIMITED then Retryable R_rate_limited
      else if ef_existingProtocolCode f = Some LLM_TPM_RATE_LIMITED then Retryable R_tpm_rate_limited
      else if ef_existingProtocolCode f = Some LLM_CLUSTER_OVERLOADED then Retryable R_overloaded
      else if effectiveHttpStatus f = Some 429 then Retryable (if S_tpm_rate_limit \<in> ef_signals f then R_tpm_rate_limited else R_rate_limited)
      else if effectiveHttpStatus f = Some 529 then Retryable R_overloaded
      else NotRetryable (toLLMMetricErrorKind f))"
    unfolding toLLMRetryDecision_def Let_def f_def [symmetric] by simp
  then have "(\<exists>r. toLLMRetryDecision n = Retryable r) \<longleftrightarrow> transient_facts f" by (simp add: transient_facts_def)
  then show ?thesis using False by blast
qed

lemma retry_iff: "(\<exists>r. toLLMRetryDecision n = Retryable r) \<longleftrightarrow> transient_facts (nz_facts n) \<and> \<not> final_facts (nz_facts n)"
proof -
  let ?f = "nz_facts n"
  show ?thesis
  proof (cases "ef_explicitAbort ?f \<or> ef_signals ?f \<inter> {S_usage_limit, S_credits_exhausted, S_content_filter} \<noteq> {} \<or>
      effectiveHttpStatus ?f \<in> {Some 401, Some 403} \<or> ef_existingProtocolCode ?f = Some LLM_AUTH_ERROR")
    case True
    then show ?thesis unfolding retry_tests final_facts_def by blast
  next
    case False
    then have "final_facts ?f \<longleftrightarrow> toLLMMetricErrorKind ?f \<in> {R_abort, R_usage_limit, R_credits_exhausted, R_auth}"
      using metric_kind_final [of ?f] unfolding final_facts_def by blast
    then show ?thesis unfolding retry_tests using False by blast
  qed
qed

text \<open>A typed quota code is read only after the timeout signal, so together with it the call is retried.\<close>

lemma quota_code_with_timeout_is_retried:
  "toLLMRetryDecision \<lparr>nz_facts = EMPTY_FACTS\<lparr>ef_existingProtocolCode := Some USAGE_LIMIT_EXCEEDED, ef_timeout := True\<rparr>,
     nz_sanitizedMessage = None\<rparr> = Retryable R_timeout"
  by (simp add: toLLMRetryDecision_def toLLMMetricErrorKind_def EMPTY_FACTS_def effectiveHttpStatus_def validHttpStatus_def
      validInteger_def http_range_def llm_codes)

section \<open>Theorems about classification\<close>

text \<open>C39: A message that a wrapper has flattened to text is read completely: two more than its length bounds the payloads nested in it, and
  a greater bound gives the same codes, provided that \<^verbatim>\<open>JSON.parse\<close> never returns more than it was given.\<close>

theorem flattened_messages_are_read_completely:
  assumes "json_shrinks h" "length m + 2 \<le> n"
  shows "\<exists>x c. tryExtractFromPayload h n (message_payload m) = Some x \<and> tryExtractFromPayload h (length m + 2) (message_payload m) = Some x \<and>
    classifyLLMErrorToCode h n (EString m) = Some c \<and> classifyLLMErrorToCode h (length m + 2) (EString m) = Some c"
proof -
  have "room (message_payload m) < length m + 2" by (simp add: message_payload_def)
  then obtain x where x: "tryExtractFromPayload h (length m + 2) (message_payload m) = Some x"
    using extraction_returns [OF assms(1)] by blast
  moreover have "tryExtractFromPayload h n (message_payload m) = Some x" using extraction_stable [OF x assms(2)] .
  ultimately show ?thesis by (simp add: classifyLLMErrorToCode_def)
qed

definition sample_error_host :: ErrorHost where
  "sample_error_host = \<lparr>eh_test = (\<lambda>_ _. False),
     eh_parse = (\<lambda>s. if s = ''{...}'' then Some (EObject None None True [(''status_code'', ENumber (NInt 429))]) else None)\<rparr>"

theorem flattened_messages_are_read_completely_witness:
  "json_shrinks sample_error_host \<and>
   map_option xt_statusCode (tryExtractFromPayload sample_error_host 20 (message_payload ''[Error] {...}'')) = Some (Some (NInt 429)) \<and>
   (\<exists>c. classifyLLMErrorToCode sample_error_host 20 (EString ''[Error] {...}'') = Some c)"
proof (intro conjI)
  show J: "json_shrinks sample_error_host" by (simp add: json_shrinks_def sample_error_host_def)
  show "map_option xt_statusCode (tryExtractFromPayload sample_error_host 20 (message_payload ''[Error] {...}'')) = Some (Some (NInt 429))"
    by code_simp
  show "\<exists>c. classifyLLMErrorToCode sample_error_host 20 (EString ''[Error] {...}'') = Some c"
    using flattened_messages_are_read_completely [OF J, of "''[Error] {...}''" 20] by auto
qed

lemma map_http_declared: "map_http v = Some c \<Longrightarrow> c \<in> set LLM_ERROR_STATUS_CODES"
  by (auto simp: map_http_def mapUpstreamHttpError_def LLM_ERROR_STATUS_CODES_def split: jsnum.splits if_splits)

lemma quota_declared: "classifyQuotaSignalFromMessage h m = Some (c, t) \<Longrightarrow> c \<in> set LLM_ERROR_STATUS_CODES"
  by (auto simp: classifyQuotaSignalFromMessage_def LLM_ERROR_STATUS_CODES_def split: if_splits)

lemma upstream_declared: "UPSTREAM_STATUS_CODE_MAP v = Some c \<Longrightarrow> c \<in> set LLM_ERROR_STATUS_CODES"
  by (auto simp: UPSTREAM_STATUS_CODE_MAP_def LLM_ERROR_STATUS_CODES_def split: if_splits)

lemma signals_declared: "code_from_signals h err x m = Some (c, t) \<Longrightarrow> c \<in> set LLM_ERROR_STATUS_CODES"
  using quota_declared [of h m c t] map_http_declared [of _ c]
  by (auto simp: code_from_signals_def Let_def LLM_ERROR_STATUS_CODES_def bind_eq_Some_conv split: option.splits if_splits)

lemma extracted_declared: "code_of_extracted h err x = Some (c, t) \<Longrightarrow> c \<in> set LLM_ERROR_STATUS_CODES"
proof (cases "xt_errorCode x")
  case None
  assume "code_of_extracted h err x = Some (c, t)"
  then show ?thesis using None signals_declared upstream_declared
    by (cases "Option.bind (xt_statusCode x) UPSTREAM_STATUS_CODE_MAP") (auto simp: code_of_extracted_def Let_def bind_eq_Some_conv)
next
  case (Some v)
  assume r: "code_of_extracted h err x = Some (c, t)"
  show ?thesis
  proof (cases "\<exists>k. v = NInt k \<and> k \<in> set LLM_ERROR_STATUS_CODES")
    case True
    then show ?thesis using Some r by (auto simp: code_of_extracted_def Let_def)
  next
    case False
    then have "(case xt_errorCode x of Some (NInt k) \<Rightarrow> if k \<in> set LLM_ERROR_STATUS_CODES then Some k else None | _ \<Rightarrow> None) = None"
      using Some by (cases v) auto
    then show ?thesis using r signals_declared upstream_declared
      by (cases "Option.bind (xt_statusCode x) UPSTREAM_STATUS_CODE_MAP") (auto simp: code_of_extracted_def Let_def bind_eq_Some_conv)
  qed
qed

lemma protocol_declared:
  "toLLMProtocolClassification nz = Some (c, m) \<Longrightarrow> c \<in> set LLM_ERROR_STATUS_CODES"
  by (auto simp: toLLMProtocolClassification_def Let_def mapUpstreamHttpError_def LLM_ERROR_STATUS_CODES_def split: option.splits if_splits)

text \<open>C40: Every code that is put on the wire is one of the declared codes, whatever the error and whether it is classified directly or from
  its normalised facts.\<close>

theorem wire_codes_are_declared:
  "(classifyLLMErrorToCode h n err = Some (Some (c, m)) \<longrightarrow> c \<in> set LLM_ERROR_STATUS_CODES) \<and>
   (toLLMProtocolClassification (normalizeLLMError h input) = Some (c', m') \<longrightarrow> c' \<in> set LLM_ERROR_STATUS_CODES)"
  using extracted_declared protocol_declared by (auto simp: classifyLLMErrorToCode_def)

theorem wire_codes_are_declared_witness:
  "classifyLLMErrorToCode sample_error_host 20 (EString ''[Error] {...}'') = Some (Some (50111, ''[Error] {...}'')) \<and>
   50111 \<in> set LLM_ERROR_STATUS_CODES"
proof -
  have c: "classifyLLMErrorToCode sample_error_host 20 (EString ''[Error] {...}'') = Some (Some (50111, ''[Error] {...}''))" by code_simp
  then show ?thesis using wire_codes_are_declared [THEN conjunct1, THEN mp, OF c] by blast
qed

text \<open>Payloads are unwrapped at any depth, not just three levels.\<close>

fun caused_by :: "nat \<Rightarrow> errval \<Rightarrow> errval" where
  "caused_by 0 v = v"
| "caused_by (Suc k) v = EObject None None True [(''cause'', caused_by k v)]"

lemma payloads_are_unwrapped_at_any_depth:
  "tryExtractFromPayload h (Suc k) (caused_by k (EObject None None True [(''status_code'', ENumber (NInt 429))])) =
   Some \<lparr>xt_statusCode = Some (NInt 429), xt_errorCode = None, xt_message = None\<rparr>"
proof (induction k)
  case 0
  show ?case
    by (simp add: tryExtractFromPayload.simps(2) extract_object.simps read_prop_def outer_fields_def fill_def no_codes_def or_text_def)
next
  case (Suc k)
  have "extract_object h (Suc k) (caused_by k (EObject None None True [(''status_code'', ENumber (NInt 429))])) =
      Some \<lparr>xt_statusCode = Some (NInt 429), xt_errorCode = None, xt_message = None\<rparr>"
    using Suc by (cases k) (simp_all add: extract_object.simps)
  moreover have "extract_object h n EUndefined = Some no_codes" for n by (simp add: extract_object.simps)
  ultimately show ?case
    by (simp add: tryExtractFromPayload.simps(2) read_prop_def outer_fields_def fill_def no_codes_def or_text_def)
qed

end
