(* ===== verification/Llm_Retry.thy ===== *)
theory Llm_Retry
  imports Llm_Error
begin

text \<open>
  Framework-owned retry of model calls (\<^verbatim>\<open>agent-core/src/pi-turn-runner/llm-retry.ts\<close>): one logical call makes physical
  requests until one of them shows output, fails for good, or the retries are used up.

  A physical request is a script: whether opening it or its iterator throws, the events it yields, how its iterator ends and what its
  \<^verbatim>\<open>result()\<close> settles to.  Every script ends.  The clock, the random numbers, the state of the abort signal and the outcome of
  the waits are functions of the request's number; \<^verbatim>\<open>Number\<close>, \<^verbatim>\<open>Date.parse\<close> and \<^verbatim>\<open>String\<close> are parameters.  Times are
  rational numbers of milliseconds.  Observer calls are the list of their events.
\<close>

section \<open>Messages, events and requests\<close>

datatype AsstBlock = TextBlock string | ThinkingBlock string | ToolCallBlock string string | OtherBlock

record TokenUsage =
  tu_input :: jsnum
  tu_output :: jsnum
  tu_cacheRead :: jsnum
  tu_cacheWrite :: jsnum

record AsstMessage =
  am_content :: "AsstBlock list"
  am_stopReason :: "string option"
  am_errorMessage :: "string option"
  am_usage :: "TokenUsage option"

datatype StreamEvent =
    DeltaEvent string
  | EndEvent string
  | ToolCallEnd
  | PartialEvent AsstMessage
  | DoneEvent AsstMessage
  | ErrorEvent AsstMessage
  | OtherEvent

record Attempt =
  at_response :: "(int \<times> (string \<times> string) list) option"
  at_open :: "errval option"
  at_iterator :: "errval option"
  at_events :: "StreamEvent list"
  at_end :: "errval option"
  at_result :: "errval + AsstMessage"

record RetryHost =
  rh_errors :: ErrorHost
  rh_number :: "string \<Rightarrow> rat option"
  rh_date :: "string \<Rightarrow> rat option"
  rh_string :: "errval \<Rightarrow> string"

record LLMRetryPolicy =
  rp_maxRetries :: int
  rp_baseDelayMs :: rat
  rp_maxDelayMs :: rat
  rp_maxRetryElapsedMs :: rat

definition DEFAULT_LLM_RETRY_POLICY :: LLMRetryPolicy where
  "DEFAULT_LLM_RETRY_POLICY = \<lparr>rp_maxRetries = 5, rp_baseDelayMs = 1000, rp_maxDelayMs = 30000, rp_maxRetryElapsedMs = 120000\<rparr>"

record RetryEnv =
  re_inner :: "nat \<Rightarrow> Attempt"
  re_byok :: bool
  re_aborted :: "nat \<Rightarrow> bool"
  re_abortedAfter :: "nat \<Rightarrow> bool"
  re_abortError :: errval
  re_now :: "nat \<Rightarrow> rat"
  re_nowParsed :: "nat \<Rightarrow> rat"
  re_random :: "nat \<Rightarrow> rat option"
  re_sleep :: "nat \<Rightarrow> errval option"

definition isByokProvider :: "string \<Rightarrow> bool" where
  "isByokProvider provider = (provider = ''minimax_api'' \<or> prefix ''custom_provider:'' provider)"

section \<open>What counts as output\<close>

definition block_committed :: "AsstBlock \<Rightarrow> bool" where
  "block_committed b = (case b of TextBlock t \<Rightarrow> t \<noteq> [] | ThinkingBlock t \<Rightarrow> t \<noteq> [] | ToolCallBlock _ _ \<Rightarrow> True | OtherBlock \<Rightarrow> False)"

definition hasCommittedContent :: "AsstMessage \<Rightarrow> bool" where
  "hasCommittedContent m = list_ex block_committed (am_content m)"

fun commitsOutput :: "StreamEvent \<Rightarrow> bool" where
  "commitsOutput (DeltaEvent d) = (d \<noteq> [])"
| "commitsOutput (EndEvent c) = (c \<noteq> [])"
| "commitsOutput ToolCallEnd = True"
| "commitsOutput (PartialEvent m) = hasCommittedContent m"
| "commitsOutput (DoneEvent _) = False"
| "commitsOutput (ErrorEvent _) = False"
| "commitsOutput OtherEvent = False"

definition isFailureMessage :: "AsstMessage \<Rightarrow> bool" where
  "isFailureMessage m = (am_stopReason m = Some ''error'' \<or> am_stopReason m = Some ''aborted'')"

section \<open>Failures\<close>

fun PUBLIC_ERROR_MESSAGES :: "LLMErrorReason \<Rightarrow> string" where
  "PUBLIC_ERROR_MESSAGES R_abort = ''LLM request was cancelled''"
| "PUBLIC_ERROR_MESSAGES R_timeout = ''LLM request timed out''"
| "PUBLIC_ERROR_MESSAGES R_rate_limited = ''LLM provider rate limited the request''"
| "PUBLIC_ERROR_MESSAGES R_tpm_rate_limited = ''LLM provider token rate limit reached''"
| "PUBLIC_ERROR_MESSAGES R_usage_limit = ''LLM usage limit reached''"
| "PUBLIC_ERROR_MESSAGES R_credits_exhausted = ''LLM credits exhausted''"
| "PUBLIC_ERROR_MESSAGES R_auth = ''LLM provider authentication failed''"
| "PUBLIC_ERROR_MESSAGES R_bad_request = ''LLM provider rejected the request''"
| "PUBLIC_ERROR_MESSAGES R_not_found = ''LLM provider resource not found''"
| "PUBLIC_ERROR_MESSAGES R_content_filter = ''LLM provider blocked the response''"
| "PUBLIC_ERROR_MESSAGES R_server_error = ''LLM provider request failed''"
| "PUBLIC_ERROR_MESSAGES R_overloaded = ''LLM provider is overloaded''"
| "PUBLIC_ERROR_MESSAGES R_network = ''LLM network connection failed''"
| "PUBLIC_ERROR_MESSAGES R_empty_response = ''LLM provider returned an empty response''"
| "PUBLIC_ERROR_MESSAGES R_unknown = ''LLM request failed''"
| "PUBLIC_ERROR_MESSAGES R_length = ''LLM response reached the length limit''"

record LLMRetryError =
  rr_reason :: LLMErrorReason
  rr_code :: "int option"
  rr_message :: string

definition publicRetryError :: "NormalizedLLMError \<Rightarrow> LLMErrorReason \<Rightarrow> LLMRetryError" where
  "publicRetryError n reason =
     \<lparr>rr_reason = reason, rr_code = map_option fst (toLLMProtocolClassification n), rr_message = PUBLIC_ERROR_MESSAGES reason\<rparr>"

text \<open>How far a failed request had got: without a stream, with a stream but no iterator, or iterating.\<close>

datatype Reached = NoStream | NoIterator | Iterating

record RetryFailure =
  rf_normalized :: NormalizedLLMError
  rf_error :: LLMRetryError
  rf_reached :: Reached
  rf_buffered :: "StreamEvent list"
  rf_thrown :: errval
  rf_retryAfterMs :: "rat option"

datatype PreflightResult = Committed | Terminal RetryFailure | Failure RetryFailure LLMErrorReason

definition header_value :: "(string \<times> string) list \<Rightarrow> string \<Rightarrow> string option" where
  "header_value headers name = map_option snd (find (\<lambda>(n, v). map to_lower n = name) headers)"

definition parseRetryAfterMs :: "RetryHost \<Rightarrow> (string \<times> string) list option \<Rightarrow> rat \<Rightarrow> rat option" where
  "parseRetryAfterMs h headers nowMs =
     (case headers of
        None \<Rightarrow> None
      | Some hs \<Rightarrow>
          (case Option.bind (header_value hs ''retry-after-ms'') (rh_number h) of
             Some ms \<Rightarrow> Some (max 0 ms)
           | None \<Rightarrow>
               (case header_value hs ''retry-after'' of
                  None \<Rightarrow> None
                | Some retryAfter \<Rightarrow>
                    if retryAfter = [] then None
                    else
                      (case rh_number h retryAfter of
                         Some secs \<Rightarrow> Some (max 0 (secs * 1000))
                       | None \<Rightarrow> map_option (\<lambda>d. max 0 (d - nowMs)) (rh_date h retryAfter)))))"

definition failureResult ::
  "RetryHost \<Rightarrow> bool \<Rightarrow> rat \<Rightarrow> Attempt \<Rightarrow> Reached \<Rightarrow> StreamEvent list \<Rightarrow> errval \<Rightarrow> AsstMessage option \<Rightarrow> PreflightResult" where
  "failureResult h retryAllErrors nowMs a reached buffered thrown final =
     (let normalized = normalizeLLMError (rh_errors h)
            \<lparr>ei_raw = thrown,
             ei_finishReason = Option.bind final (\<lambda>m. case am_stopReason m of Some r \<Rightarrow> if r = [] then None else Some r | None \<Rightarrow> None),
             ei_errorMessage = Option.bind final (\<lambda>m. case am_errorMessage m of Some r \<Rightarrow> if r = [] then None else Some r | None \<Rightarrow> None),
             ei_statusCode = map_option (\<lambda>(status, hs). NInt status) (at_response a),
             ei_explicitAbort = (Option.bind final am_stopReason = Some ''aborted'')\<rparr>;
          decision =
            (if retryAllErrors \<and> \<not> ef_explicitAbort (nz_facts normalized) then Retryable R_network else toLLMRetryDecision normalized);
          failure = (\<lambda>reason after.
            \<lparr>rf_normalized = normalized, rf_error = publicRetryError normalized reason, rf_reached = reached, rf_buffered = buffered,
             rf_thrown = thrown, rf_retryAfterMs = after\<rparr>)
      in case decision of
           NotRetryable reason \<Rightarrow> Terminal (failure reason None)
         | Retryable reason \<Rightarrow>
             Failure (failure reason (parseRetryAfterMs h (map_option snd (at_response a)) nowMs)) reason)"

definition isAbortFailure :: "RetryFailure \<Rightarrow> bool" where
  "isAbortFailure f = ef_explicitAbort (nz_facts (rf_normalized f))"

section \<open>One request\<close>

fun preflight_loop :: "RetryHost \<Rightarrow> bool \<Rightarrow> rat \<Rightarrow> Attempt \<Rightarrow> StreamEvent list \<Rightarrow> StreamEvent list \<Rightarrow> PreflightResult" where
  "preflight_loop h retryAllErrors nowMs a buffered [] =
     (case at_end a of
        Some thrown \<Rightarrow> failureResult h retryAllErrors nowMs a Iterating buffered thrown None
      | None \<Rightarrow>
          (case at_result a of
             Inl thrown \<Rightarrow> failureResult h retryAllErrors nowMs a Iterating buffered thrown None
           | Inr final \<Rightarrow>
               if isFailureMessage final then failureResult h retryAllErrors nowMs a Iterating buffered EUndefined (Some final)
               else Committed))"
| "preflight_loop h retryAllErrors nowMs a buffered (e # es) =
     (case e of
        ErrorEvent m \<Rightarrow> failureResult h retryAllErrors nowMs a Iterating (buffered @ [e]) EUndefined (Some m)
      | _ \<Rightarrow>
          if commitsOutput e \<or> \<not> retryAllErrors \<and> (case e of DoneEvent _ \<Rightarrow> True | _ \<Rightarrow> False) then Committed
          else preflight_loop h retryAllErrors nowMs a (buffered @ [e]) es)"

definition preflightAttempt :: "RetryHost \<Rightarrow> bool \<Rightarrow> rat \<Rightarrow> Attempt \<Rightarrow> PreflightResult" where
  "preflightAttempt h retryAllErrors nowMs a =
     (case at_open a of
        Some thrown \<Rightarrow> failureResult h retryAllErrors nowMs a NoStream [] thrown None
      | None \<Rightarrow>
          (case at_iterator a of
             Some thrown \<Rightarrow> failureResult h retryAllErrors nowMs a NoIterator [] thrown None
           | None \<Rightarrow> preflight_loop h retryAllErrors nowMs a [] (at_events a)))"

text \<open>The stream the caller gets: its events, how its iterator ends and its result.\<close>

record ReplayStream =
  st_events :: "StreamEvent list"
  st_end :: "errval option"
  st_result :: "errval + AsstMessage"

definition replayStream :: "Attempt \<Rightarrow> ReplayStream" where
  "replayStream a = \<lparr>st_events = at_events a, st_end = at_end a, st_result = at_result a\<rparr>"

definition throwingReplayStream :: "StreamEvent list \<Rightarrow> errval \<Rightarrow> ReplayStream" where
  "throwingReplayStream buffered thrown = \<lparr>st_events = buffered, st_end = Some thrown, st_result = Inl thrown\<rparr>"

definition new_error :: "string \<Rightarrow> errval" where
  "new_error m = EObject None (Some (''Error'', m)) True [(''message'', EString m)]"

definition asError :: "RetryHost \<Rightarrow> errval \<Rightarrow> errval" where
  "asError h v =
     (case v of
        EObject _ (Some _) _ _ \<Rightarrow> v
      | EUndefined \<Rightarrow> new_error ''LLM request failed''
      | ENull \<Rightarrow> new_error ''LLM request failed''
      | _ \<Rightarrow> new_error (rh_string h v))"

definition terminalFailure :: "RetryHost \<Rightarrow> Attempt \<Rightarrow> RetryFailure \<Rightarrow> errval + ReplayStream" where
  "terminalFailure h a f =
     (if rf_reached f = NoStream then Inl (asError h (rf_thrown f))
      else if rf_thrown f \<noteq> EUndefined then Inr (throwingReplayStream (rf_buffered f) (rf_thrown f))
      else if rf_reached f = NoIterator then Inl (new_error ''LLM failure stream iterator is unavailable'')
      else Inr (replayStream a))"

section \<open>Delays\<close>

definition clampRandom :: "rat option \<Rightarrow> rat" where
  "clampRandom v = (case v of Some r \<Rightarrow> max 0 (min 1 r) | None \<Rightarrow> 0)"

definition retryDelayMs :: "rat option \<Rightarrow> nat \<Rightarrow> LLMRetryPolicy \<Rightarrow> rat option \<Rightarrow> rat" where
  "retryDelayMs retryAfterMs retryAttempt policy random =
     (case retryAfterMs of
        Some ms \<Rightarrow> min (rp_maxDelayMs policy) (max 0 ms)
      | None \<Rightarrow>
          (let exponential = min (rp_maxDelayMs policy) (rp_baseDelayMs policy * 2 ^ (retryAttempt - 1))
           in of_int \<lfloor>exponential / 2 + clampRandom random * exponential / 2\<rfloor>))"

section \<open>The call\<close>

datatype LLMRetryStatus = SWaiting | SRecovered | SExhausted | SCancelled

record LLMRetryEvent =
  ev_status :: LLMRetryStatus
  ev_retryAttempt :: nat
  ev_maxRetries :: int
  ev_requestAttempt :: nat
  ev_delayMs :: "rat option"
  ev_nextRetryAtMs :: "rat option"
  ev_error :: "LLMRetryError option"

record RetryCallState =
  cs_retryTriggered :: bool
  cs_retryReason :: "LLMErrorReason option"
  cs_requestAttempts :: nat

text \<open>
  The call ends with a stream, whose settlement is reported later, or it throws, and the settlement is reported at once.
\<close>

datatype CallEnd = Returned ReplayStream | Threw errval

record CallRun =
  cr_end :: CallEnd
  cr_state :: RetryCallState
  cr_events :: "LLMRetryEvent list"

definition retry_event :: "LLMRetryPolicy \<Rightarrow> LLMRetryStatus \<Rightarrow> nat \<Rightarrow> nat \<Rightarrow> LLMRetryError option \<Rightarrow> LLMRetryEvent" where
  "retry_event policy status retryAttempt requestAttempt error =
     \<lparr>ev_status = status, ev_retryAttempt = retryAttempt, ev_maxRetries = rp_maxRetries policy, ev_requestAttempt = requestAttempt,
      ev_delayMs = None, ev_nextRetryAtMs = None, ev_error = error\<rparr>"

definition waiting_event :: "LLMRetryPolicy \<Rightarrow> nat \<Rightarrow> rat \<Rightarrow> rat \<Rightarrow> LLMRetryError \<Rightarrow> LLMRetryEvent" where
  "waiting_event policy retryAttempt failureAtMs delayMs error =
     (retry_event policy SWaiting retryAttempt (retryAttempt + 1) (Some error))
       \<lparr>ev_delayMs := Some delayMs, ev_nextRetryAtMs := Some (failureAtMs + delayMs)\<rparr>"

definition end_of :: "errval + ReplayStream \<Rightarrow> CallEnd" where
  "end_of r = (case r of Inl e \<Rightarrow> Threw e | Inr s \<Rightarrow> Returned s)"

function retry_loop ::
  "RetryHost \<Rightarrow> RetryEnv \<Rightarrow> LLMRetryPolicy \<Rightarrow> nat \<Rightarrow> rat option \<Rightarrow> (nat \<times> RetryFailure) option \<Rightarrow> RetryCallState \<Rightarrow> LLMRetryEvent list \<Rightarrow> CallRun" where
  "retry_loop h env policy n started lastFailure st evs =
     (if int n \<le> rp_maxRetries policy + 1 then
        if re_aborted env n then \<lparr>cr_end = Threw (re_abortError env), cr_state = st, cr_events = evs\<rparr>
        else
          (let a = re_inner env n; st1 = st\<lparr>cs_requestAttempts := n\<rparr> in
           case preflightAttempt h (re_byok env) (re_nowParsed env n) a of
             Committed \<Rightarrow>
               \<lparr>cr_end = Returned (replayStream a), cr_state = st1,
                cr_events = evs @ (if n > 1 then [retry_event policy SRecovered (n - 1) n None] else [])\<rparr>
           | Terminal f \<Rightarrow>
               \<lparr>cr_end = end_of (terminalFailure h a f), cr_state = st1,
                cr_events = evs @
                  (if n > 1 \<and> lastFailure \<noteq> None
                   then [retry_event policy (if re_abortedAfter env n \<or> isAbortFailure f then SCancelled else SExhausted) (n - 1) n (Some (rf_error f))]
                   else [])\<rparr>
           | Failure f reason \<Rightarrow>
               (let delayMs = retryDelayMs (rf_retryAfterMs f) n policy (re_random env n);
                    failureAtMs = re_now env n;
                    startedAt = (case started of Some t \<Rightarrow> t | None \<Rightarrow> failureAtMs);
                    retryDeadlineExceeded = (failureAtMs + delayMs - startedAt > rp_maxRetryElapsedMs policy)
                in
                  if int n > rp_maxRetries policy \<or> retryDeadlineExceeded then
                    \<lparr>cr_end = end_of (terminalFailure h a f), cr_state = st1,
                     cr_events = evs @ [retry_event policy SExhausted (n - 1) n (Some (rf_error f))]\<rparr>
                  else
                    (let st2 = st1\<lparr>cs_retryTriggered := True,
                                   cs_retryReason := (case cs_retryReason st1 of None \<Rightarrow> Some reason | Some r \<Rightarrow> Some r)\<rparr>;
                         evs' = evs @ [waiting_event policy n failureAtMs delayMs (rf_error f)]
                     in case re_sleep env n of
                          Some e \<Rightarrow>
                            \<lparr>cr_end = Threw e, cr_state = st2,
                             cr_events = evs' @ [retry_event policy SCancelled n (n + 1) (Some (rf_error f))]\<rparr>
                        | None \<Rightarrow> retry_loop h env policy (n + 1) (Some startedAt) (Some (n, f)) st2 evs')))
      else
        (case lastFailure of
           Some (m, f) \<Rightarrow> \<lparr>cr_end = end_of (terminalFailure h (re_inner env m) f), cr_state = st, cr_events = evs\<rparr>
         | None \<Rightarrow> \<lparr>cr_end = Threw (new_error ''LLM retry loop ended without a provider result''), cr_state = st, cr_events = evs\<rparr>))"
  by pat_completeness auto
termination
  by (relation "measure (\<lambda>(h, env, policy, n, started, lastFailure, st, evs). nat (rp_maxRetries policy + 2 - int n))") auto

declare retry_loop.simps [simp del]

definition withLLMRetry :: "RetryHost \<Rightarrow> RetryEnv \<Rightarrow> LLMRetryPolicy \<Rightarrow> CallRun" where
  "withLLMRetry h env policy =
     retry_loop h env policy 1 None None \<lparr>cs_retryTriggered = False, cs_retryReason = None, cs_requestAttempts = 0\<rparr> []"

section \<open>Settlement\<close>

datatype LLMCallOutcome = OSuccess | OError | OAbort

text \<open>The error kind is absent, \<^verbatim>\<open>'none'\<close>, for a success.\<close>

definition classifyCallOutcome :: "RetryHost \<Rightarrow> AsstMessage option \<Rightarrow> errval \<Rightarrow> bool \<Rightarrow> LLMCallOutcome \<times> LLMErrorReason option" where
  "classifyCallOutcome h final thrown explicitAbort =
     (let stopReason = Option.bind final am_stopReason in
      if thrown = EUndefined \<and> stopReason \<noteq> Some ''error'' \<and> stopReason \<noteq> Some ''aborted'' then (OSuccess, None)
      else
        (let normalized = normalizeLLMError (rh_errors h)
               \<lparr>ei_raw = thrown,
                ei_finishReason = (case stopReason of Some r \<Rightarrow> if r = [] then None else Some r | None \<Rightarrow> None),
                ei_errorMessage = Option.bind final (\<lambda>m. case am_errorMessage m of Some r \<Rightarrow> if r = [] then None else Some r | None \<Rightarrow> None),
                ei_statusCode = None,
                ei_explicitAbort = (explicitAbort \<or> stopReason = Some ''aborted'')\<rparr>;
             errorKind = toLLMMetricErrorKind (nz_facts normalized)
         in (if errorKind = R_abort then OAbort else OError, Some errorKind)))"

definition finiteTokens :: "jsnum \<Rightarrow> int" where
  "finiteTokens v = (case v of NInt n \<Rightarrow> if n > 0 then n else 0 | _ \<Rightarrow> 0)"

record LLMCallUsage =
  lu_input :: int
  lu_output :: int
  lu_cacheRead :: int
  lu_cacheWrite :: int

definition callUsage :: "AsstMessage option \<Rightarrow> LLMCallUsage option" where
  "callUsage final =
     map_option (\<lambda>u. \<lparr>lu_input = finiteTokens (tu_input u), lu_output = finiteTokens (tu_output u),
        lu_cacheRead = finiteTokens (tu_cacheRead u), lu_cacheWrite = finiteTokens (tu_cacheWrite u)\<rparr>) (Option.bind final am_usage)"

definition readTokenBucket :: "jsnum \<Rightarrow> int \<times> bool" where
  "readTokenBucket v = (case v of NInt n \<Rightarrow> if n \<ge> 0 then (n, True) else (0, False) | _ \<Rightarrow> (0, False))"

definition readProviderUsage :: "AsstMessage option \<Rightarrow> LLMCallUsage option \<times> bool" where
  "readProviderUsage final =
     (case Option.bind final am_usage of
        None \<Rightarrow> (None, False)
      | Some u \<Rightarrow>
          (Some \<lparr>lu_input = fst (readTokenBucket (tu_input u)), lu_output = fst (readTokenBucket (tu_output u)),
             lu_cacheRead = fst (readTokenBucket (tu_cacheRead u)), lu_cacheWrite = fst (readTokenBucket (tu_cacheWrite u))\<rparr>,
           snd (readTokenBucket (tu_input u)) \<and> snd (readTokenBucket (tu_output u)) \<and>
           snd (readTokenBucket (tu_cacheRead u)) \<and> snd (readTokenBucket (tu_cacheWrite u))))"

definition expectedToolsFrom :: "AsstMessage \<Rightarrow> (string \<times> string) list" where
  "expectedToolsFrom m = concat (map (\<lambda>b. case b of ToolCallBlock i n \<Rightarrow> [(i, n)] | _ \<Rightarrow> []) (am_content m))"

record LLMCallSettledEvent =
  se_outcome :: LLMCallOutcome
  se_errorKind :: "LLMErrorReason option"
  se_retryTriggered :: bool
  se_retryReason :: "LLMErrorReason option"
  se_requestAttempts :: nat
  se_expectedTools :: "(string \<times> string) list option"
  se_usage :: "LLMCallUsage option"

definition notifyCallSettled :: "RetryHost \<Rightarrow> RetryCallState \<Rightarrow> bool \<Rightarrow> errval \<Rightarrow> AsstMessage option \<Rightarrow> LLMCallSettledEvent" where
  "notifyCallSettled h st aborted thrown final =
     (let (outcome, errorKind) = classifyCallOutcome h final thrown aborted in
      \<lparr>se_outcome = outcome, se_errorKind = errorKind, se_retryTriggered = cs_retryTriggered st, se_retryReason = cs_retryReason st,
       se_requestAttempts = cs_requestAttempts st,
       se_expectedTools = (if outcome = OSuccess then map_option expectedToolsFrom final else None),
       se_usage = (if outcome = OSuccess then callUsage final else None)\<rparr>)"

text \<open>
  A returned stream settles when its result does or when its iterator throws, whichever the caller meets first; later
  occasions are ignored.
\<close>

datatype SettleOccasion = ResultResolved AsstMessage | ResultRejected errval | IteratorThrew errval

fun settle_loop :: "(errval \<Rightarrow> AsstMessage option \<Rightarrow> 'e) \<Rightarrow> bool \<Rightarrow> SettleOccasion list \<Rightarrow> 'e list" where
  "settle_loop notify settled [] = []"
| "settle_loop notify settled (x # xs) =
     (if settled then settle_loop notify settled xs
      else
        (case x of
           ResultResolved final \<Rightarrow> notify EUndefined (Some final)
         | ResultRejected e \<Rightarrow> notify e None
         | IteratorThrew e \<Rightarrow> notify e None) # settle_loop notify True xs)"

definition result_occasion :: "ReplayStream \<Rightarrow> SettleOccasion" where
  "result_occasion s = (case st_result s of Inl e \<Rightarrow> ResultRejected e | Inr m \<Rightarrow> ResultResolved m)"

definition observeCallSettlement :: "RetryHost \<Rightarrow> CallRun \<Rightarrow> bool \<Rightarrow> SettleOccasion list \<Rightarrow> LLMCallSettledEvent list" where
  "observeCallSettlement h r aborted occasions =
     (case cr_end r of
        Threw e \<Rightarrow> [notifyCallSettled h (cr_state r) aborted e None]
      | Returned s \<Rightarrow> settle_loop (notifyCallSettled h (cr_state r) aborted) False occasions)"

text \<open>
  Every physical request is reported too: by the preflight when it sees the request fail or end, otherwise by the stream it hands
  on.  \<^term>\<open>preflight_settled\<close> is what the preflight reports, \<^term>\<open>None\<close> when it leaves the report to the stream.
\<close>

record LLMRequestSettledEvent =
  qe_requestAttempt :: nat
  qe_outcome :: LLMCallOutcome
  qe_usage :: "LLMCallUsage option"
  qe_usageComplete :: bool

definition notifyRequestSettled :: "RetryHost \<Rightarrow> nat \<Rightarrow> bool \<Rightarrow> errval \<Rightarrow> AsstMessage option \<Rightarrow> LLMRequestSettledEvent" where
  "notifyRequestSettled h n aborted thrown final =
     \<lparr>qe_requestAttempt = n, qe_outcome = fst (classifyCallOutcome h final thrown aborted),
      qe_usage = fst (readProviderUsage final), qe_usageComplete = snd (readProviderUsage final)\<rparr>"

fun preflight_settled_loop :: "bool \<Rightarrow> Attempt \<Rightarrow> StreamEvent list \<Rightarrow> (errval \<times> AsstMessage option) option" where
  "preflight_settled_loop retryAllErrors a [] =
     (case at_end a of
        Some thrown \<Rightarrow> Some (thrown, None)
      | None \<Rightarrow> (case at_result a of Inl thrown \<Rightarrow> Some (thrown, None) | Inr final \<Rightarrow> Some (EUndefined, Some final)))"
| "preflight_settled_loop retryAllErrors a (e # es) =
     (case e of
        ErrorEvent m \<Rightarrow> Some (EUndefined, Some m)
      | _ \<Rightarrow>
          if commitsOutput e \<or> \<not> retryAllErrors \<and> (case e of DoneEvent _ \<Rightarrow> True | _ \<Rightarrow> False) then None
          else preflight_settled_loop retryAllErrors a es)"

definition preflight_settled :: "bool \<Rightarrow> Attempt \<Rightarrow> (errval \<times> AsstMessage option) option" where
  "preflight_settled retryAllErrors a =
     (case at_open a of
        Some thrown \<Rightarrow> Some (thrown, None)
      | None \<Rightarrow> (case at_iterator a of Some thrown \<Rightarrow> Some (thrown, None) | None \<Rightarrow> preflight_settled_loop retryAllErrors a (at_events a)))"

definition observeRequestSettlement ::
  "RetryHost \<Rightarrow> bool \<Rightarrow> nat \<Rightarrow> Attempt \<Rightarrow> bool \<Rightarrow> SettleOccasion list \<Rightarrow> LLMRequestSettledEvent list" where
  "observeRequestSettlement h retryAllErrors n a aborted occasions =
     (case preflight_settled retryAllErrors a of
        Some (thrown, final) \<Rightarrow> [notifyRequestSettled h n aborted thrown final]
      | None \<Rightarrow> settle_loop (notifyRequestSettled h n aborted) False occasions)"

section \<open>A reference description of the call\<close>

text \<open>
  A request is retried when it failed retryably, retries are left and the next one would start within the time allowed since
  the first failure.  The call proceeds past it when moreover the signal was not aborted before it and the wait after it was not
  cut short.  The call is decided by the first request it does not proceed past.
\<close>

definition preflight_at :: "RetryHost \<Rightarrow> RetryEnv \<Rightarrow> nat \<Rightarrow> PreflightResult" where
  "preflight_at h env m = preflightAttempt h (re_byok env) (re_nowParsed env m) (re_inner env m)"

definition delay_at :: "RetryEnv \<Rightarrow> LLMRetryPolicy \<Rightarrow> nat \<Rightarrow> RetryFailure \<Rightarrow> rat" where
  "delay_at env policy m f = retryDelayMs (rf_retryAfterMs f) m policy (re_random env m)"

definition retried :: "RetryHost \<Rightarrow> RetryEnv \<Rightarrow> LLMRetryPolicy \<Rightarrow> nat \<Rightarrow> bool" where
  "retried h env policy m =
     (case preflight_at h env m of
        Failure f reason \<Rightarrow>
          int m \<le> rp_maxRetries policy \<and> re_now env m + delay_at env policy m f - re_now env 1 \<le> rp_maxRetryElapsedMs policy
      | _ \<Rightarrow> False)"

definition proceeds :: "RetryHost \<Rightarrow> RetryEnv \<Rightarrow> LLMRetryPolicy \<Rightarrow> nat \<Rightarrow> bool" where
  "proceeds h env policy m = (\<not> re_aborted env m \<and> retried h env policy m \<and> re_sleep env m = None)"

fun failure_of :: "PreflightResult \<Rightarrow> RetryFailure" where
  "failure_of (Terminal f) = f"
| "failure_of (Failure f _) = f"
| "failure_of Committed = undefined"

fun reason_of :: "PreflightResult \<Rightarrow> LLMErrorReason" where
  "reason_of (Failure _ r) = r"
| "reason_of _ = R_unknown"

definition wait_event :: "RetryHost \<Rightarrow> RetryEnv \<Rightarrow> LLMRetryPolicy \<Rightarrow> nat \<Rightarrow> LLMRetryEvent" where
  "wait_event h env policy m =
     (let f = failure_of (preflight_at h env m)
      in waiting_event policy m (re_now env m) (delay_at env policy m f) (rf_error f))"

definition state_before :: "RetryHost \<Rightarrow> RetryEnv \<Rightarrow> nat \<Rightarrow> RetryCallState" where
  "state_before h env m =
     \<lparr>cs_retryTriggered = (m > 1), cs_retryReason = (if m > 1 then Some (reason_of (preflight_at h env 1)) else None),
      cs_requestAttempts = m - 1\<rparr>"

definition stopped_at :: "RetryHost \<Rightarrow> RetryEnv \<Rightarrow> LLMRetryPolicy \<Rightarrow> nat \<Rightarrow> CallRun" where
  "stopped_at h env policy m =
     (let waits = map (wait_event h env policy) [1..<m]; st = state_before h env m in
      if re_aborted env m then \<lparr>cr_end = Threw (re_abortError env), cr_state = st, cr_events = waits\<rparr>
      else
        (case preflight_at h env m of
           Committed \<Rightarrow>
             \<lparr>cr_end = Returned (replayStream (re_inner env m)), cr_state = st\<lparr>cs_requestAttempts := m\<rparr>,
              cr_events = waits @ (if m > 1 then [retry_event policy SRecovered (m - 1) m None] else [])\<rparr>
         | Terminal f \<Rightarrow>
             \<lparr>cr_end = end_of (terminalFailure h (re_inner env m) f), cr_state = st\<lparr>cs_requestAttempts := m\<rparr>,
              cr_events = waits @
                (if m > 1
                 then [retry_event policy (if re_abortedAfter env m \<or> isAbortFailure f then SCancelled else SExhausted) (m - 1) m (Some (rf_error f))]
                 else [])\<rparr>
         | Failure f reason \<Rightarrow>
             if retried h env policy m then
               \<lparr>cr_end = Threw (the (re_sleep env m)), cr_state = (state_before h env (m + 1)),
                cr_events = waits @ [wait_event h env policy m, retry_event policy SCancelled m (m + 1) (Some (rf_error f))]\<rparr>
             else
               \<lparr>cr_end = end_of (terminalFailure h (re_inner env m) f), cr_state = st\<lparr>cs_requestAttempts := m\<rparr>,
                cr_events = waits @ [retry_event policy SExhausted (m - 1) m (Some (rf_error f))]\<rparr>))"

fun deciding_request :: "RetryHost \<Rightarrow> RetryEnv \<Rightarrow> LLMRetryPolicy \<Rightarrow> nat \<Rightarrow> nat \<Rightarrow> nat" where
  "deciding_request h env policy n 0 = n"
| "deciding_request h env policy n (Suc fuel) =
     (if proceeds h env policy n then deciding_request h env policy (n + 1) fuel else n)"

lemma state_before_next:
  assumes "preflight_at h env n = Failure f reason" "1 \<le> n"
  shows "(state_before h env n)
      \<lparr>cs_requestAttempts := n, cs_retryTriggered := True,
       cs_retryReason := (case cs_retryReason (state_before h env n) of None \<Rightarrow> Some reason | Some r \<Rightarrow> Some r)\<rparr> =
    state_before h env (n + 1)"
  using assms by (cases "n = 1") (auto simp: state_before_def)

text \<open>What the loop carries when it comes to a request: the time of the first failure and the last failure, if any.\<close>

definition carried :: "RetryEnv \<Rightarrow> nat \<Rightarrow> rat option \<Rightarrow> (nat \<times> RetryFailure) option \<Rightarrow> bool" where
  "carried env n started lastFailure =
     (1 \<le> n \<and> started = (if n = 1 then None else Some (re_now env 1)) \<and> (lastFailure = None \<longleftrightarrow> n = 1))"

lemma carried_start: "carried env n started lastFailure \<Longrightarrow> (case started of Some t \<Rightarrow> t | None \<Rightarrow> re_now env n) = re_now env 1"
  by (auto simp: carried_def)

abbreviation loop_at :: "RetryHost \<Rightarrow> RetryEnv \<Rightarrow> LLMRetryPolicy \<Rightarrow> nat \<Rightarrow> rat option \<Rightarrow> (nat \<times> RetryFailure) option \<Rightarrow> CallRun" where
  "loop_at h env policy n started lastFailure \<equiv>
     retry_loop h env policy n started lastFailure (state_before h env n) (map (wait_event h env policy) [1..<n])"

lemma loop_stops:
  assumes c: "carried env n started lastFailure" and n: "int n \<le> rp_maxRetries policy + 1" and stop: "\<not> proceeds h env policy n"
  shows "loop_at h env policy n started lastFailure = stopped_at h env policy n"
proof (cases "re_aborted env n")
  case True
  then show ?thesis using n by (subst retry_loop.simps) (simp add: stopped_at_def)
next
  case False
  note start = carried_start [OF c]
  show ?thesis
  proof (cases "preflight_at h env n")
    case Committed
    then show ?thesis using n False by (subst retry_loop.simps) (simp add: stopped_at_def preflight_at_def Let_def)
  next
    case (Terminal f)
    have "1 < n \<and> lastFailure \<noteq> None \<longleftrightarrow> 1 < n" using c by (auto simp: carried_def)
    then show ?thesis using n False Terminal by (subst retry_loop.simps) (simp add: stopped_at_def preflight_at_def Let_def)
  next
    case (Failure f reason)
    note p = Failure [unfolded preflight_at_def]
    let ?d = "retryDelayMs (rf_retryAfterMs f) n policy (re_random env n)"
    show ?thesis
    proof (cases "retried h env policy n")
      case True
      then have r: "\<not> (int n > rp_maxRetries policy \<or> re_now env n + ?d - re_now env 1 > rp_maxRetryElapsedMs policy)"
        by (auto simp: retried_def Failure delay_at_def)
      obtain e where e: "re_sleep env n = Some e" using stop False True by (auto simp: proceeds_def)
      show ?thesis
        unfolding stopped_at_def
        using n False p e r start Failure True state_before_next [OF Failure] c
        by (subst retry_loop.simps) (simp add: Let_def wait_event_def delay_at_def carried_def)
    next
      case no: False
      then have r: "int n > rp_maxRetries policy \<or> re_now env n + ?d - re_now env 1 > rp_maxRetryElapsedMs policy"
        by (auto simp: retried_def Failure delay_at_def)
      show ?thesis
        unfolding stopped_at_def
        using n False p r start Failure no
        by (subst retry_loop.simps) (simp add: Let_def)
    qed
  qed
qed

lemma retry_loop_step:
  assumes "\<not> re_aborted env n" "int n \<le> rp_maxRetries policy" "re_sleep env n = None"
    and "preflightAttempt h (re_byok env) (re_nowParsed env n) (re_inner env n) = Failure f reason"
    and "(case started of Some t \<Rightarrow> t | None \<Rightarrow> re_now env n) = t0"
    and "re_now env n + retryDelayMs (rf_retryAfterMs f) n policy (re_random env n) - t0 \<le> rp_maxRetryElapsedMs policy"
  shows "retry_loop h env policy n started lastFailure st evs =
    retry_loop h env policy (n + 1) (Some t0) (Some (n, f))
      (st\<lparr>cs_requestAttempts := n, cs_retryTriggered := True,
          cs_retryReason := (case cs_retryReason st of None \<Rightarrow> Some reason | Some r \<Rightarrow> Some r)\<rparr>)
      (evs @ [waiting_event policy n (re_now env n) (retryDelayMs (rf_retryAfterMs f) n policy (re_random env n)) (rf_error f)])"
  using assms(1-4,6) by (subst retry_loop.simps) (simp add: assms(5) Let_def not_less)

lemma loop_proceeds:
  assumes c: "carried env n started lastFailure" and go: "proceeds h env policy n"
  shows "\<exists>started' lastFailure'. carried env (n + 1) started' lastFailure' \<and>
    loop_at h env policy n started lastFailure = loop_at h env policy (n + 1) started' lastFailure'"
proof -
  obtain f reason where F: "preflight_at h env n = Failure f reason" and m: "int n \<le> rp_maxRetries policy"
    and t: "re_now env n + delay_at env policy n f - re_now env 1 \<le> rp_maxRetryElapsedMs policy"
    using go by (auto simp: proceeds_def retried_def split: PreflightResult.splits)
  note p = F [unfolded preflight_at_def]
  have n: "1 \<le> n" using c by (simp add: carried_def)
  have "carried env (n + 1) (Some (re_now env 1)) (Some (n, f))" using n by (simp add: carried_def)
  moreover have e: "wait_event h env policy n =
      waiting_event policy n (re_now env n) (retryDelayMs (rf_retryAfterMs f) n policy (re_random env n)) (rf_error f)"
    by (simp add: wait_event_def delay_at_def F)
  have u: "[1..<n + 1] = [1..<n] @ [n]" using upt_Suc_append [of 1 n] n unfolding Suc_eq_plus1 .
  have w: "map (wait_event h env policy) [1..<n + 1] = map (wait_event h env policy) [1..<n] @
      [waiting_event policy n (re_now env n) (retryDelayMs (rf_retryAfterMs f) n policy (re_random env n)) (rf_error f)]"
    unfolding u e [symmetric] map_append list.map ..
  have "\<not> re_aborted env n" "re_sleep env n = None" using go by (simp_all add: proceeds_def)
  from retry_loop_step [OF this(1) m this(2) p carried_start [OF c] t [unfolded delay_at_def],
      of lastFailure "state_before h env n" "map (wait_event h env policy) [1..<n]"]
  have "loop_at h env policy n started lastFailure = loop_at h env policy (n + 1) (Some (re_now env 1)) (Some (n, f))"
    unfolding state_before_next [OF F n] w .
  ultimately show ?thesis by blast
qed

lemma retry_loop_stopped:
  "carried env n started lastFailure \<Longrightarrow> int n + int k = rp_maxRetries policy + 1 \<Longrightarrow>
   loop_at h env policy n started lastFailure = stopped_at h env policy (deciding_request h env policy n k)"
proof (induction k arbitrary: n started lastFailure)
  case 0
  then have "\<not> proceeds h env policy n" by (auto simp: proceeds_def retried_def split: PreflightResult.splits)
  then show ?case using loop_stops [OF 0(1)] 0(2) by simp
next
  case (Suc k)
  show ?case
  proof (cases "proceeds h env policy n")
    case True
    then obtain st lf where "carried env (n + 1) st lf" "loop_at h env policy n started lastFailure = loop_at h env policy (n + 1) st lf"
      using loop_proceeds [OF Suc(2)] by blast
    then show ?thesis using Suc(1) [of "n + 1" st lf] Suc(3) True by simp
  next
    case False
    then show ?thesis using loop_stops [OF Suc(2)] Suc(3) by simp
  qed
qed

lemma deciding_request_bounds:
  "n \<le> deciding_request h env policy n k \<and> deciding_request h env policy n k \<le> n + k \<and>
   (\<forall>m. n \<le> m \<and> m < deciding_request h env policy n k \<longrightarrow> proceeds h env policy m)"
proof (induction k arbitrary: n)
  case (Suc k)
  show ?case
  proof (cases "proceeds h env policy n")
    case True
    have "proceeds h env policy m" if "n \<le> m" "m < deciding_request h env policy (n + 1) k" for m
      using that True Suc [of "n + 1"] by (cases "m = n") auto
    then show ?thesis using Suc [of "n + 1"] True by simp
  qed auto
qed auto

lemma withLLMRetry_stopped:
  assumes "0 \<le> rp_maxRetries policy"
  obtains N where "withLLMRetry h env policy = stopped_at h env policy N" "1 \<le> N" "int N \<le> rp_maxRetries policy + 1"
    "\<And>m. 1 \<le> m \<Longrightarrow> m < N \<Longrightarrow> proceeds h env policy m" "N = deciding_request h env policy 1 (nat (rp_maxRetries policy))"
proof -
  let ?k = "nat (rp_maxRetries policy)"
  have "state_before h env 1 = \<lparr>cs_retryTriggered = False, cs_retryReason = None, cs_requestAttempts = 0\<rparr>"
    by (simp add: state_before_def)
  then have "withLLMRetry h env policy = loop_at h env policy 1 None None" by (simp add: withLLMRetry_def)
  also have "\<dots> = stopped_at h env policy (deciding_request h env policy 1 ?k)"
    using assms by (intro retry_loop_stopped) (auto simp: carried_def)
  finally show thesis
    using that [of "deciding_request h env policy 1 ?k"] deciding_request_bounds [of 1 h env policy ?k] assms by auto
qed

section \<open>Consequences\<close>

definition failed_with :: "PreflightResult \<Rightarrow> RetryFailure \<Rightarrow> bool" where
  "failed_with p f = (p = Terminal f \<or> (\<exists>reason. p = Failure f reason))"

lemma failureResult_buffered:
  "failed_with (failureResult h all now a reached buffered thrown final) f \<Longrightarrow> rf_buffered f = buffered \<and> rf_reached f = reached"
  by (auto simp: failed_with_def failureResult_def Let_def split: LLMRetryDecision.splits)

lemma not_failed_Committed: "\<not> failed_with Committed f"
  by (simp add: failed_with_def)

lemma preflight_loop_buffered:
  "failed_with (preflight_loop h all now a buffered es) f \<Longrightarrow> \<exists>shown. rf_buffered f = buffered @ shown \<and> prefix shown es \<and> list_all (\<lambda>e. \<not> commitsOutput e) shown"
proof (induction h all now a buffered es rule: preflight_loop.induct)
  case (1 h all now a buffered)
  then have "rf_buffered f = buffered"
    by (auto simp: not_failed_Committed split: option.splits sum.splits if_splits dest: failureResult_buffered)
  then show ?case by simp
next
  case (2 h all now a buffered e es)
  show ?case
  proof (cases "\<exists>m. e = ErrorEvent m")
    case True
    then obtain m where m: "e = ErrorEvent m" by blast
    then have "rf_buffered f = buffered @ [e]" using 2 by (auto dest: failureResult_buffered)
    then show ?thesis using m by (intro exI [of _ "[e]"]) simp
  next
    case False
    have nc: "\<not> (commitsOutput e \<or> \<not> all \<and> (case e of DoneEvent _ \<Rightarrow> True | _ \<Rightarrow> False))"
      using 2 False by (auto simp: not_failed_Committed split: StreamEvent.splits if_splits)
    then have "failed_with (preflight_loop h all now a (buffered @ [e]) es) f"
      using 2 False by (cases e) auto
    then obtain shown where "rf_buffered f = (buffered @ [e]) @ shown" "prefix shown es" "list_all (\<lambda>e. \<not> commitsOutput e) shown"
      using 2 nc False by (cases e) auto
    then show ?thesis using nc by (intro exI [of _ "e # shown"]) auto
  qed
qed

lemma preflight_buffered:
  assumes "failed_with (preflightAttempt h all now a) f"
  shows "prefix (rf_buffered f) (at_events a) \<and> list_all (\<lambda>e. \<not> commitsOutput e) (rf_buffered f)"
proof (cases "at_open a = None \<and> at_iterator a = None")
  case True
  then show ?thesis using assms preflight_loop_buffered [of h all now a "[]" "at_events a" f] by (auto simp: preflightAttempt_def)
next
  case False
  then have "rf_buffered f = []" using assms by (auto simp: preflightAttempt_def dest: failureResult_buffered split: option.splits)
  then show ?thesis by simp
qed

lemma terminal_events:
  "failed_with (preflightAttempt h all now a) f \<Longrightarrow> terminalFailure h a f = Inr s \<Longrightarrow> prefix (st_events s) (at_events a)"
  using preflight_buffered by (fastforce simp: terminalFailure_def throwingReplayStream_def replayStream_def split: if_splits)

lemma scaled_half:
  assumes "0 \<le> e" "0 \<le> c" "c \<le> (1::rat)"
  shows "0 \<le> e / 2 + c * e / 2" "e / 2 + c * e / 2 \<le> e"
proof -
  have "0 \<le> c * e" using assms by simp
  then show "0 \<le> e / 2 + c * e / 2" using assms(1) by simp
  have "c * e \<le> 1 * e" using assms(3,1) by (rule mult_right_mono)
  then show "e / 2 + c * e / 2 \<le> e" by linarith
qed

lemma retryDelayMs_bounds:
  assumes "0 \<le> rp_baseDelayMs policy" "0 \<le> rp_maxDelayMs policy"
  shows "0 \<le> retryDelayMs after n policy r \<and> retryDelayMs after n policy r \<le> rp_maxDelayMs policy"
proof (cases after)
  case None
  define e where "e = min (rp_maxDelayMs policy) (rp_baseDelayMs policy * 2 ^ (n - 1))"
  define v where "v = e / 2 + clampRandom r * e / 2"
  have e: "0 \<le> e" "e \<le> rp_maxDelayMs policy" using assms by (auto simp: e_def)
  have c: "0 \<le> clampRandom r" "clampRandom r \<le> 1" by (auto simp: clampRandom_def split: option.split)
  have v: "0 \<le> v" "v \<le> e" unfolding v_def by (rule scaled_half [OF e(1) c])+
  have d: "retryDelayMs after n policy r = of_int \<lfloor>v\<rfloor>" by (simp add: None retryDelayMs_def Let_def e_def v_def)
  have "(of_int \<lfloor>v\<rfloor> :: rat) \<le> v" by (rule of_int_floor_le)
  then have "(of_int \<lfloor>v\<rfloor> :: rat) \<le> rp_maxDelayMs policy" using v(2) e(2) by linarith
  then show ?thesis using v(1) unfolding d by simp
next
  case (Some ms)
  then show ?thesis using assms by (auto simp: retryDelayMs_def)
qed

lemma retried_failure:
  assumes "proceeds h env policy m"
  obtains f reason where "preflight_at h env m = Failure f reason" "int m \<le> rp_maxRetries policy"
    "re_now env m + delay_at env policy m f - re_now env 1 \<le> rp_maxRetryElapsedMs policy"
  using assms by (auto simp: proceeds_def retried_def split: PreflightResult.splits)

lemma deciding_request_stops: "int n + int k = rp_maxRetries policy + 1 \<Longrightarrow> \<not> proceeds h env policy (deciding_request h env policy n k)"
  by (induction k arbitrary: n) (auto simp: proceeds_def retried_def split: PreflightResult.splits)

text \<open>Requests made and waits announced by a call that stops at a given request.\<close>

lemma stopped_requests:
  assumes "1 \<le> N"
  shows "cs_requestAttempts (cr_state (stopped_at h env policy N)) \<le> N"
    and "cr_end (stopped_at h env policy N) = Returned s \<Longrightarrow>
      cs_requestAttempts (cr_state (stopped_at h env policy N)) = N \<and> prefix (st_events s) (at_events (re_inner env N))"
proof -
  show "cs_requestAttempts (cr_state (stopped_at h env policy N)) \<le> N"
    by (cases "preflight_at h env N") (simp_all add: stopped_at_def state_before_def Let_def)
  assume r: "cr_end (stopped_at h env policy N) = Returned s"
  have t: "prefix (st_events s) (at_events (re_inner env N))"
    if "end_of (terminalFailure h (re_inner env N) f) = Returned s" "failed_with (preflight_at h env N) f" for f
    using that terminal_events by (auto simp: end_of_def preflight_at_def split: sum.splits)
  show "cs_requestAttempts (cr_state (stopped_at h env policy N)) = N \<and> prefix (st_events s) (at_events (re_inner env N))"
    using r t by (cases "preflight_at h env N")
      (auto simp: stopped_at_def Let_def failed_with_def replayStream_def split: if_splits)
qed

definition is_wait :: "LLMRetryEvent \<Rightarrow> bool" where
  "is_wait e = (ev_status e = SWaiting)"

lemma is_wait_simps [simp]:
  "is_wait (wait_event h env policy m)"
  "\<not> is_wait (retry_event policy SRecovered n m err)" "\<not> is_wait (retry_event policy SExhausted n m err)"
  "\<not> is_wait (retry_event policy SCancelled n m err)"
  by (simp_all add: is_wait_def wait_event_def waiting_event_def retry_event_def Let_def)

lemma filter_waits [simp]: "filter is_wait (map (wait_event h env policy) ms) = map (wait_event h env policy) ms"
  by (induction ms) simp_all

lemma stopped_waits:
  assumes "1 \<le> N"
  obtains M where "filter is_wait (cr_events (stopped_at h env policy N)) = map (wait_event h env policy) [1..<M]"
    "\<And>m. m < M \<Longrightarrow> m < N \<or> m = N \<and> retried h env policy N"
proof (cases "\<not> re_aborted env N \<and> retried h env policy N")
  case True
  then obtain f reason where "preflight_at h env N = Failure f reason" by (auto simp: retried_def split: PreflightResult.splits)
  moreover have "[1..<N + 1] = [1..<N] @ [N]" using upt_Suc_append [OF assms] by simp
  ultimately show thesis using True by (intro that [of "N + 1"]) (auto simp: stopped_at_def Let_def)
next
  case False
  then show thesis by (intro that [of N]) (auto simp: stopped_at_def Let_def split: PreflightResult.split)
qed

lemma retried_wait:
  assumes "retried h env policy m" "0 \<le> rp_baseDelayMs policy" "0 \<le> rp_maxDelayMs policy"
  shows "\<exists>d. ev_delayMs (wait_event h env policy m) = Some d \<and> 0 \<le> d \<and> d \<le> rp_maxDelayMs policy \<and>
    ev_nextRetryAtMs (wait_event h env policy m) = Some (re_now env m + d) \<and> re_now env m + d - re_now env 1 \<le> rp_maxRetryElapsedMs policy \<and>
    int m \<le> rp_maxRetries policy"
  using assms retryDelayMs_bounds [OF assms(2,3)]
  by (auto simp: retried_def wait_event_def waiting_event_def delay_at_def Let_def split: PreflightResult.splits)

lemma proceeds_retried: "proceeds h env policy m \<Longrightarrow> retried h env policy m"
  by (simp add: proceeds_def)

lemma failureResult_retryable:
  "failureResult h all now a reached buffered thrown final = Failure f reason \<Longrightarrow>
   \<not> isAbortFailure f \<and> (if all then reason = R_network else toLLMRetryDecision (rf_normalized f) = Retryable reason)"
  using retry_excludes [of _ reason]
  by (auto simp: failureResult_def isAbortFailure_def Let_def split: LLMRetryDecision.splits if_splits)

lemma preflight_loop_retryable:
  "preflight_loop h all now a buffered es = Failure f reason \<Longrightarrow>
   \<not> isAbortFailure f \<and> (if all then reason = R_network else toLLMRetryDecision (rf_normalized f) = Retryable reason)"
proof (induction h all now a buffered es rule: preflight_loop.induct)
  case (1 h all now a buffered)
  then show ?case by (auto split: option.splits sum.splits if_splits dest: failureResult_retryable)
next
  case (2 h all now a buffered e es)
  then show ?case by (cases e) (simp_all add: failureResult_retryable split: if_splits)
qed

lemma preflight_retryable:
  "preflight_at h env m = Failure f reason \<Longrightarrow>
   \<not> isAbortFailure f \<and> (if re_byok env then reason = R_network else toLLMRetryDecision (rf_normalized f) = Retryable reason)"
  unfolding preflight_at_def preflightAttempt_def
  using failureResult_retryable preflight_loop_retryable by (auto split: option.splits)

lemma settle_done: "settle_loop notify True xs = []"
  by (induction xs) simp_all

lemma settle_once: "xs \<noteq> [] \<Longrightarrow> length (settle_loop notify False xs) = 1"
  by (cases xs) (simp_all add: settle_done)

section \<open>Theorems about the retried call\<close>

text \<open>A sample host and a call whose first request is rate limited.\<close>

definition sample_retry_host :: RetryHost where
  "sample_retry_host =
     \<lparr>rh_errors = sample_error_host,
      rh_number = (\<lambda>_. None), rh_date = (\<lambda>_. None), rh_string = (\<lambda>_. [])\<rparr>"

definition sample_message :: AsstMessage where
  "sample_message = \<lparr>am_content = [TextBlock ''hi''], am_stopReason = Some ''stop'', am_errorMessage = None, am_usage = None\<rparr>"

definition sample_attempt :: "nat \<Rightarrow> Attempt" where
  "sample_attempt n =
     (if n = 1
      then \<lparr>at_response = Some (429, []), at_open = Some ENull, at_iterator = None, at_events = [], at_end = None, at_result = Inl ENull\<rparr>
      else \<lparr>at_response = None, at_open = None, at_iterator = None, at_events = [DeltaEvent ''hi'', DoneEvent sample_message],
            at_end = None, at_result = Inr sample_message\<rparr>)"

definition sample_retry_env :: RetryEnv where
  "sample_retry_env =
     \<lparr>re_inner = sample_attempt, re_byok = False, re_aborted = (\<lambda>_. False), re_abortedAfter = (\<lambda>_. False), re_abortError = EUndefined,
      re_now = (\<lambda>_. 0), re_nowParsed = (\<lambda>_. 0), re_random = (\<lambda>_. None), re_sleep = (\<lambda>_. None)\<rparr>"

abbreviation sample_retry_call :: CallRun where
  "sample_retry_call \<equiv> withLLMRetry sample_retry_host sample_retry_env DEFAULT_LLM_RETRY_POLICY"

lemma sample_call: "cs_requestAttempts (cr_state sample_retry_call) = 2" "map ev_status (cr_events sample_retry_call) = [SWaiting, SRecovered]"
  by code_simp+

lemma sample_policy: "0 \<le> rp_maxRetries DEFAULT_LLM_RETRY_POLICY" "0 \<le> rp_baseDelayMs DEFAULT_LLM_RETRY_POLICY"
  "0 \<le> rp_maxDelayMs DEFAULT_LLM_RETRY_POLICY"
  by (simp_all add: DEFAULT_LLM_RETRY_POLICY_def)

text \<open>C3: Whatever the requests do, the call is decided by the first of them it does not proceed past: what it returns or throws, the
  state it leaves and the events it announces are those of a call that stops there, and there is such a request within the number of
  retries allowed.\<close>

theorem retried_call_is_decided_by_one_request:
  assumes "0 \<le> rp_maxRetries policy"
  shows "\<exists>N. 1 \<le> N \<and> int N \<le> rp_maxRetries policy + 1 \<and> (\<forall>m. 1 \<le> m \<and> m < N \<longrightarrow> proceeds h env policy m) \<and>
    \<not> proceeds h env policy N \<and> withLLMRetry h env policy = stopped_at h env policy N"
proof -
  obtain N where "withLLMRetry h env policy = stopped_at h env policy N" "1 \<le> N" "int N \<le> rp_maxRetries policy + 1"
    and p: "\<And>m. 1 \<le> m \<Longrightarrow> m < N \<Longrightarrow> proceeds h env policy m" and d: "N = deciding_request h env policy 1 (nat (rp_maxRetries policy))"
    using withLLMRetry_stopped [OF assms] by blast
  moreover have "\<not> proceeds h env policy N" unfolding d by (rule deciding_request_stops) (use assms in simp)
  ultimately show ?thesis by blast
qed

theorem retried_call_is_decided_by_one_request_witness:
  "\<exists>N. withLLMRetry sample_retry_host sample_retry_env DEFAULT_LLM_RETRY_POLICY =
      stopped_at sample_retry_host sample_retry_env DEFAULT_LLM_RETRY_POLICY N \<and>
    cs_requestAttempts (cr_state (stopped_at sample_retry_host sample_retry_env DEFAULT_LLM_RETRY_POLICY N)) = 2"
  using retried_call_is_decided_by_one_request [OF sample_policy(1), of sample_retry_host sample_retry_env] sample_call(1) by metis

text \<open>C4: The caller sees one request only.  At most one more request than there are retries is made; every request before the last failed
  before it had shown any output; and a returned stream shows events of the last request, from its first on.\<close>

theorem caller_sees_one_request:
  fixes h :: RetryHost and env :: RetryEnv and policy :: LLMRetryPolicy
  assumes "0 \<le> rp_maxRetries policy"
  defines "r \<equiv> withLLMRetry h env policy"
  defines "K \<equiv> cs_requestAttempts (cr_state r)"
  shows "int K \<le> rp_maxRetries policy + 1 \<and>
    (\<forall>m. 1 \<le> m \<and> m < K \<longrightarrow>
       (\<exists>f reason. preflight_at h env m = Failure f reason \<and> prefix (rf_buffered f) (at_events (re_inner env m)) \<and>
          list_all (\<lambda>e. \<not> commitsOutput e) (rf_buffered f))) \<and>
    (\<forall>s. cr_end r = Returned s \<longrightarrow> prefix (st_events s) (at_events (re_inner env K)))"
proof -
  obtain N where N: "r = stopped_at h env policy N" "1 \<le> N" "int N \<le> rp_maxRetries policy + 1"
    and p: "\<And>m. 1 \<le> m \<Longrightarrow> m < N \<Longrightarrow> proceeds h env policy m"
    using withLLMRetry_stopped [OF assms(1)] unfolding r_def by blast
  have K: "K \<le> N" unfolding K_def N(1) by (rule stopped_requests(1) [OF N(2)])
  have "\<exists>f reason. preflight_at h env m = Failure f reason \<and> prefix (rf_buffered f) (at_events (re_inner env m)) \<and>
      list_all (\<lambda>e. \<not> commitsOutput e) (rf_buffered f)" if m: "1 \<le> m \<and> m < K" for m
  proof -
    have "proceeds h env policy m" using p m K by simp
    then obtain f reason where F: "preflight_at h env m = Failure f reason" by (rule retried_failure)
    then show ?thesis using preflight_buffered [of h "re_byok env" "re_nowParsed env m" "re_inner env m" f]
      by (auto simp: preflight_at_def failed_with_def)
  qed
  moreover have "prefix (st_events s) (at_events (re_inner env K))" if "cr_end r = Returned s" for s
    using stopped_requests(2) [OF N(2)] that unfolding K_def N(1) by metis
  moreover have "int K \<le> rp_maxRetries policy + 1" using K N(3) by linarith
  ultimately show ?thesis by blast
qed

theorem caller_sees_one_request_witness:
  "cs_requestAttempts (cr_state sample_retry_call) = 2 \<and>
   (\<exists>f reason. preflight_at sample_retry_host sample_retry_env 1 = Failure f reason \<and> list_all (\<lambda>e. \<not> commitsOutput e) (rf_buffered f))"
proof
  show "cs_requestAttempts (cr_state sample_retry_call) = 2" by (rule sample_call)
  show "\<exists>f reason. preflight_at sample_retry_host sample_retry_env 1 = Failure f reason \<and> list_all (\<lambda>e. \<not> commitsOutput e) (rf_buffered f)"
    using caller_sees_one_request [OF sample_policy(1), of sample_retry_host sample_retry_env, THEN conjunct2, THEN conjunct1,
        rule_format, of 1] unfolding sample_call(1) by auto
qed

text \<open>C34: The waits a call announces are numbered from one, there are no more of them than retries allowed, each is between zero and the
  longest delay, and each next request is due within the time allowed since the first failure.\<close>

theorem retries_respect_the_policy:
  fixes h :: RetryHost and env :: RetryEnv and policy :: LLMRetryPolicy
  assumes "0 \<le> rp_maxRetries policy" "0 \<le> rp_baseDelayMs policy" "0 \<le> rp_maxDelayMs policy"
  defines "waits \<equiv> filter is_wait (cr_events (withLLMRetry h env policy))"
  shows "int (length waits) \<le> rp_maxRetries policy \<and> map ev_retryAttempt waits = [1..<length waits + 1] \<and>
    (\<forall>e \<in> set waits. \<exists>d t. ev_delayMs e = Some d \<and> 0 \<le> d \<and> d \<le> rp_maxDelayMs policy \<and>
       ev_nextRetryAtMs e = Some t \<and> t \<le> re_now env 1 + rp_maxRetryElapsedMs policy)"
proof -
  obtain N where N: "withLLMRetry h env policy = stopped_at h env policy N" "1 \<le> N"
    and p: "\<And>m. 1 \<le> m \<Longrightarrow> m < N \<Longrightarrow> proceeds h env policy m"
    using withLLMRetry_stopped [OF assms(1)] by blast
  obtain M where w: "waits = map (wait_event h env policy) [1..<M]" and M: "\<And>m. m < M \<Longrightarrow> m < N \<or> m = N \<and> retried h env policy N"
    using stopped_waits [OF N(2)] unfolding waits_def N(1) by blast
  have r: "retried h env policy m" if "1 \<le> m" "m < M" for m
    using M [OF that(2)] p [OF that(1)] proceeds_retried by blast
  note rw = retried_wait [OF r assms(2,3)]
  have "int (length waits) \<le> rp_maxRetries policy"
  proof (cases "1 < M")
    case True
    then have "1 \<le> M - 1" "M - 1 < M" by linarith+
    then have "int (M - 1) \<le> rp_maxRetries policy" using rw [of "M - 1"] by blast
    then show ?thesis by (simp add: w)
  next
    case False
    then show ?thesis using assms(1) by (simp add: w)
  qed
  moreover have "map ev_retryAttempt waits = [1..<length waits + 1]"
    by (cases M) (simp_all add: w comp_def wait_event_def waiting_event_def retry_event_def Let_def)
  moreover have "\<exists>d t. ev_delayMs e = Some d \<and> 0 \<le> d \<and> d \<le> rp_maxDelayMs policy \<and>
      ev_nextRetryAtMs e = Some t \<and> t \<le> re_now env 1 + rp_maxRetryElapsedMs policy" if in_waits: "e \<in> set waits" for e
  proof -
    obtain m where m: "e = wait_event h env policy m" "1 \<le> m" "m < M" using in_waits by (auto simp: w)
    from rw [OF m(2,3)] obtain d where d: "ev_delayMs e = Some d" "0 \<le> d" "d \<le> rp_maxDelayMs policy"
      "ev_nextRetryAtMs e = Some (re_now env m + d)" "re_now env m + d - re_now env 1 \<le> rp_maxRetryElapsedMs policy"
      unfolding m(1) by blast
    then have "re_now env m + d \<le> re_now env 1 + rp_maxRetryElapsedMs policy" by linarith
    with d show ?thesis by blast
  qed
  ultimately show ?thesis by blast
qed

theorem retries_respect_the_policy_witness:
  "map ev_status (cr_events sample_retry_call) = [SWaiting, SRecovered] \<and>
   map ev_retryAttempt (filter is_wait (cr_events sample_retry_call)) = [1..<length (filter is_wait (cr_events sample_retry_call)) + 1]"
  using sample_call(2) retries_respect_the_policy [OF sample_policy, of sample_retry_host sample_retry_env] by blast

text \<open>C35: A request is followed by another only if it was not cancelled.  With a provider of the service itself it moreover failed for one of
  the five reasons that count as transient: it timed out, met a network failure, carried a typed code for a rate limit or an overload, or the status
  429 or 529.  It had no signal of exhausted usage or credits or of filtered content and neither a status nor a code of missing authorisation;
  and it carried a typed code for exhausted usage or credits only together with a timeout, token rate, empty response or length signal, which the
  code reads first.\<close>

theorem only_transient_failures_are_retried:
  assumes "0 \<le> rp_maxRetries policy" "1 \<le> m" "m < cs_requestAttempts (cr_state (withLLMRetry h env policy))"
  shows "\<exists>f reason. preflight_at h env m = Failure f reason \<and> \<not> isAbortFailure f \<and>
    (\<not> re_byok env \<longrightarrow> reason \<in> set LLM_RETRY_REASONS \<and> transient_facts (nz_facts (rf_normalized f)) \<and>
       \<not> final_facts (nz_facts (rf_normalized f)))"
proof -
  obtain N where N: "withLLMRetry h env policy = stopped_at h env policy N" "1 \<le> N"
    and p: "\<And>m. 1 \<le> m \<Longrightarrow> m < N \<Longrightarrow> proceeds h env policy m"
    using withLLMRetry_stopped [OF assms(1)] by blast
  have "m < N" using assms(3) stopped_requests(1) [OF N(2), of h env policy] unfolding N(1) by linarith
  then obtain f reason where F: "preflight_at h env m = Failure f reason" using p [OF assms(2)] retried_failure by blast
  note x = preflight_retryable [OF F]
  have "reason \<in> set LLM_RETRY_REASONS \<and> transient_facts (nz_facts (rf_normalized f)) \<and> \<not> final_facts (nz_facts (rf_normalized f))" if "\<not> re_byok env"
  proof -
    have "toLLMRetryDecision (rf_normalized f) = Retryable reason" using x that by simp
    then show ?thesis using retry_reason retry_iff by blast
  qed
  then show ?thesis using F x by blast
qed

theorem only_transient_failures_are_retried_witness:
  "\<not> re_byok sample_retry_env \<and>
   (\<exists>f reason. preflight_at sample_retry_host sample_retry_env 1 = Failure f reason \<and> reason \<in> set LLM_RETRY_REASONS)"
proof -
  have b: "\<not> re_byok sample_retry_env" by (simp add: sample_retry_env_def)
  have "\<exists>f reason. preflight_at sample_retry_host sample_retry_env 1 = Failure f reason \<and> reason \<in> set LLM_RETRY_REASONS"
    using only_transient_failures_are_retried [OF sample_policy(1), of 1 sample_retry_host sample_retry_env] b
    unfolding sample_call(1) by auto
  with b show ?thesis by blast
qed

text \<open>A call that throws is reported at once and a call that returns a stream is reported on the first of the occasions the stream
  gives, and on none of the later ones; so is each request, by the preflight or by the stream.\<close>

theorem calls_and_requests_settle_once:
  assumes "occasions \<noteq> []"
  shows "length (observeCallSettlement h r aborted occasions) = 1 \<and> length (observeRequestSettlement h all n a aborted occasions) = 1"
  by (auto simp: observeCallSettlement_def observeRequestSettlement_def settle_once [OF assms] split: CallEnd.split option.split prod.split)

theorem calls_and_requests_settle_once_witness:
  "length (observeCallSettlement sample_retry_host sample_retry_call False [ResultResolved sample_message, IteratorThrew ENull]) = 1"
  using calls_and_requests_settle_once [of "[ResultResolved sample_message, IteratorThrew ENull]"] by blast

end
