(* ===== verification/Cron_Queue.thy ===== *)
theory Cron_Queue
  imports Bari_Prelude "HOL-Library.Multiset"
begin

text \<open>
  Cron messages for busy sessions (\<^verbatim>\<open>cron/src/busy-queue.ts\<close>), the purposes of cron sessions
  (\<^verbatim>\<open>shared/src/cron-purpose.ts\<close>) and the active hours of a task (\<^verbatim>\<open>cron/src/active-hours.ts\<close>).

  A queued message is known by the number of the \<^verbatim>\<open>enqueue\<close> call that made it, which stands for its send function and for
  the promise the call returned; settling that promise is an entry of a log.  A drain empties the queue of a session at once and then
  sends the messages one after the other; other calls may come in between, so the drains under way are part of the state.  The local
  time, which depends on the host's time zone data, is a parameter.
\<close>

section \<open>The queue\<close>

definition TTL_MS :: int where
  "TTL_MS = 30 * 60 * 1000"

datatype BusyQueueDrainResult = Sent | Expired | Removed | Replaced | Failed

record QueuedEntry =
  qd_ticket :: nat
  qd_enqueuedAt :: int
  qd_agentName :: string
  qd_cronName :: string
  qd_sessionId :: string

record BusyQueue =
  bq_queue :: "(string \<times> QueuedEntry) list"
  bq_drains :: "QueuedEntry list list"
  bq_settled :: "(nat \<times> BusyQueueDrainResult) list"
  bq_calls :: nat

definition new_queue :: BusyQueue where
  "new_queue = \<lparr>bq_queue = [], bq_drains = [], bq_settled = [], bq_calls = 0\<rparr>"

definition queue_key :: "string \<Rightarrow> string \<Rightarrow> string \<Rightarrow> string" where
  "queue_key sessionId agentName cronName = sessionId @ '':'' @ agentName @ '':'' @ cronName"

definition resolveDrain :: "QueuedEntry \<Rightarrow> BusyQueueDrainResult \<Rightarrow> nat \<times> BusyQueueDrainResult" where
  "resolveDrain e r = (qd_ticket e, r)"

definition enqueue :: "int \<Rightarrow> string \<Rightarrow> string \<Rightarrow> string \<Rightarrow> BusyQueue \<Rightarrow> BusyQueue" where
  "enqueue now sessionId agentName cronName q =
     (let k = queue_key sessionId agentName cronName;
          e = \<lparr>qd_ticket = bq_calls q, qd_enqueuedAt = now, qd_agentName = agentName, qd_cronName = cronName, qd_sessionId = sessionId\<rparr>
      in q\<lparr>bq_settled := bq_settled q @ (case map_of (bq_queue q) k of Some old \<Rightarrow> [resolveDrain old Replaced] | None \<Rightarrow> []),
           bq_queue := AList.update k e (bq_queue q),
           bq_calls := Suc (bq_calls q)\<rparr>)"

text \<open>The older signature names no agent.\<close>

definition enqueue_legacy :: "int \<Rightarrow> string \<Rightarrow> string \<Rightarrow> BusyQueue \<Rightarrow> BusyQueue" where
  "enqueue_legacy now sessionId cronName = enqueue now sessionId [] cronName"

definition of_cron :: "string \<Rightarrow> string \<Rightarrow> QueuedEntry \<Rightarrow> bool" where
  "of_cron agentName cronName e = (qd_agentName e = agentName \<and> qd_cronName e = cronName)"

definition removeCron :: "string \<Rightarrow> string \<Rightarrow> BusyQueue \<Rightarrow> BusyQueue \<times> nat" where
  "removeCron agentName cronName q =
     (let gone = filter (of_cron agentName cronName) (map snd (bq_queue q)) in
      (q\<lparr>bq_queue := filter (\<lambda>(k, e). \<not> of_cron agentName cronName e) (bq_queue q),
         bq_settled := bq_settled q @ map (\<lambda>e. resolveDrain e Removed) gone\<rparr>,
       length gone))"

definition fresh :: "int \<Rightarrow> QueuedEntry \<Rightarrow> bool" where
  "fresh now e = (now - qd_enqueuedAt e < TTL_MS)"

text \<open>A drain up to its first wait, and the settlement of the message it is sending.\<close>

definition drain :: "int \<Rightarrow> string \<Rightarrow> BusyQueue \<Rightarrow> BusyQueue" where
  "drain now sessionId q =
     (let mine = filter (\<lambda>e. qd_sessionId e = sessionId) (map snd (bq_queue q)) in
      q\<lparr>bq_queue := filter (\<lambda>(k, e). qd_sessionId e \<noteq> sessionId) (bq_queue q),
        bq_settled := bq_settled q @ map (\<lambda>e. resolveDrain e Expired) (filter (\<lambda>e. \<not> fresh now e) mine),
        bq_drains := bq_drains q @ [filter (fresh now) mine]\<rparr>)"

definition drain_sent :: "nat \<Rightarrow> bool \<Rightarrow> BusyQueue \<Rightarrow> BusyQueue" where
  "drain_sent d ok q =
     (case bq_drains q ! d of
        [] \<Rightarrow> q
      | e # rest \<Rightarrow>
          q\<lparr>bq_drains := (bq_drains q)[d := rest], bq_settled := bq_settled q @ [resolveDrain e (if ok then Sent else Failed)]\<rparr>)"

definition queue_size :: "BusyQueue \<Rightarrow> nat" where
  "queue_size q = length (bq_queue q)"

definition getQueuedCount :: "string \<Rightarrow> BusyQueue \<Rightarrow> nat" where
  "getQueuedCount sessionId q = length (filter (\<lambda>e. qd_sessionId e = sessionId) (map snd (bq_queue q)))"

text \<open>Calls and settlements interleave in any order; the clock may show anything.\<close>

inductive queue_step :: "BusyQueue \<Rightarrow> BusyQueue \<Rightarrow> bool" where
  step_enqueue: "queue_step q (enqueue now sessionId agentName cronName q)"
| step_remove: "queue_step q (fst (removeCron agentName cronName q))"
| step_drain: "queue_step q (drain now sessionId q)"
| step_sent: "d < length (bq_drains q) \<Longrightarrow> queue_step q (drain_sent d ok q)"

inductive_cases queue_stepE: "queue_step q q'"

definition queue_reachable :: "BusyQueue \<Rightarrow> bool" where
  "queue_reachable q = queue_step\<^sup>*\<^sup>* new_queue q"

section \<open>Purposes and active hours\<close>

definition MEMORY_CLEANUP_CRON_NAME :: string where
  "MEMORY_CLEANUP_CRON_NAME = ''memory-cleanup''"

definition CRON_SESSION_PURPOSE_PREFIX :: string where
  "CRON_SESSION_PURPOSE_PREFIX = ''cron:''"

definition createCronSessionPurpose :: "string \<Rightarrow> string \<Rightarrow> string" where
  "createCronSessionPurpose agentName cronName = CRON_SESSION_PURPOSE_PREFIX @ agentName @ '':'' @ cronName"

definition formatCronRunTitle :: "string \<Rightarrow> string" where
  "formatCronRunTitle cronName = cronName"

definition parseCronSessionPurpose :: "string option \<Rightarrow> (string \<times> string) option" where
  "parseCronSessionPurpose purpose =
     (case purpose of
        None \<Rightarrow> None
      | Some p \<Rightarrow>
          if \<not> js_starts_with p CRON_SESSION_PURPOSE_PREFIX then None
          else
            (case js_split '':'' (drop (length CRON_SESSION_PURPOSE_PREFIX) p) of
               agentName # x # rest \<Rightarrow>
                 (let cronName = js_join '':'' (x # rest)
                  in if agentName \<noteq> [] \<and> cronName \<noteq> [] then Some (agentName, cronName) else None)
             | _ \<Rightarrow> None))"

definition isLegacyMemoryCleanupTitle :: "string option \<Rightarrow> bool" where
  "isLegacyMemoryCleanupTitle title =
     (case title of
        None \<Rightarrow> False
      | Some t \<Rightarrow>
          js_starts_with t ''Memory cleanup '' \<and>
          (let date = drop 15 t in
           length date = 10 \<and> list_all (\<lambda>i. if i = 4 \<or> i = 7 then date ! i = CHR ''-'' else is_digit (date ! i)) [0..<10]))"

record ActiveHoursConfig =
  ah_start :: string
  ah_end :: string

definition time_schema :: "string \<Rightarrow> bool" where
  "time_schema t = (length t = 5 \<and> list_all is_digit (take 2 t) \<and> t ! 2 = CHR '':'' \<and> list_all is_digit (drop 3 t))"

definition ActiveHoursSchema :: "ActiveHoursConfig \<Rightarrow> bool" where
  "ActiveHoursSchema a = (time_schema (ah_start a) \<and> time_schema (ah_end a))"

text \<open>\<^verbatim>\<open>Number\<close> of a part of a time.  The schema admits digits only; other parts count as not a number.\<close>

definition time_number :: "string option \<Rightarrow> jsnum" where
  "time_number t = (case t of Some s \<Rightarrow> if list_all is_digit s then NInt (int (read_digits 0 s)) else NNaN | None \<Rightarrow> NNaN)"

definition parseTime :: "string \<Rightarrow> jsnum \<times> jsnum" where
  "parseTime t = (let parts = js_split '':'' t in (time_number (nth_opt parts 0), time_number (nth_opt parts 1)))"

definition timeToMinutes :: "jsnum \<times> jsnum \<Rightarrow> jsnum" where
  "timeToMinutes t = (case t of (NInt h, NInt m) \<Rightarrow> NInt (h * 60 + m) | _ \<Rightarrow> NNaN)"

definition js_le :: "jsnum \<Rightarrow> jsnum \<Rightarrow> bool" where
  "js_le a b = (case (a, b) of (NInt x, NInt y) \<Rightarrow> x \<le> y | _ \<Rightarrow> False)"

definition js_lt :: "jsnum \<Rightarrow> jsnum \<Rightarrow> bool" where
  "js_lt a b = (case (a, b) of (NInt x, NInt y) \<Rightarrow> x < y | _ \<Rightarrow> False)"

text \<open>The first argument is the local time, in hours and minutes.\<close>

definition isWithinActiveHours :: "int \<times> int \<Rightarrow> ActiveHoursConfig option \<Rightarrow> bool" where
  "isWithinActiveHours now activeHours =
     (case activeHours of
        None \<Rightarrow> True
      | Some a \<Rightarrow>
          (let current = timeToMinutes (NInt (fst now), NInt (snd now));
               start = timeToMinutes (parseTime (ah_start a));
               stop = timeToMinutes (parseTime (ah_end a))
           in if js_le start stop then js_le start current \<and> js_lt current stop else js_le start current \<or> js_lt current stop))"

section \<open>Where a message is\<close>

text \<open>The tickets of the messages that wait, that are about to be sent and that are settled.\<close>

definition waiting_tickets :: "BusyQueue \<Rightarrow> nat list" where
  "waiting_tickets q = map (\<lambda>p. qd_ticket (snd p)) (bq_queue q)"

definition sending_tickets :: "BusyQueue \<Rightarrow> nat list" where
  "sending_tickets q = map qd_ticket (concat (bq_drains q))"

definition settled_tickets :: "BusyQueue \<Rightarrow> nat list" where
  "settled_tickets q = map fst (bq_settled q)"

definition tickets :: "BusyQueue \<Rightarrow> nat multiset" where
  "tickets q = mset (waiting_tickets q) + mset (sending_tickets q) + mset (settled_tickets q)"

lemma mset_update:
  assumes "distinct (keys m)" "map_of m k = Some old"
  shows "mset (map (\<lambda>p. f (snd p)) (AList.update k v m)) + {#f old#} = mset (map (\<lambda>p. f (snd p)) m) + {#f v#}"
  using assms
proof (induction m)
  case (Cons p m)
  then show ?case by (cases p) (auto simp: image_iff)
qed simp

lemma mset_concat_update:
  "d < length xss \<Longrightarrow> mset (concat (xss[d := ys])) + mset (xss ! d) = mset (concat xss) + mset ys"
  by (induction xss arbitrary: d) (auto simp: nth_Cons split: nat.splits)

lemmas ticket_defs = tickets_def waiting_tickets_def sending_tickets_def settled_tickets_def resolveDrain_def

lemma tickets_enqueue:
  assumes "distinct (keys (bq_queue q))"
  shows "tickets (enqueue now s a c q) = add_mset (bq_calls q) (tickets q)"
proof (cases "map_of (bq_queue q) (queue_key s a c)")
  case None
  then have "AList.update (queue_key s a c) e (bq_queue q) = bq_queue q @ [(queue_key s a c, e)]" for e
    by (simp add: map_of_None_iff update_new)
  then show ?thesis using None by (simp add: ticket_defs enqueue_def Let_def)
next
  case (Some old)
  let ?e = "\<lparr>qd_ticket = bq_calls q, qd_enqueuedAt = now, qd_agentName = a, qd_cronName = c, qd_sessionId = s\<rparr>"
  have "mset (map (\<lambda>p. qd_ticket (snd p)) (AList.update (queue_key s a c) ?e (bq_queue q))) + {#qd_ticket old#} =
      mset (map (\<lambda>p. qd_ticket (snd p)) (bq_queue q)) + {#bq_calls q#}"
    using mset_update [OF assms Some, of qd_ticket ?e] by simp
  then have w: "mset (waiting_tickets (enqueue now s a c q)) + {#qd_ticket old#} = mset (waiting_tickets q) + {#bq_calls q#}"
    by (simp add: waiting_tickets_def enqueue_def Let_def)
  have st: "mset (settled_tickets (enqueue now s a c q)) = mset (settled_tickets q) + {#qd_ticket old#}"
    using Some by (simp add: settled_tickets_def enqueue_def resolveDrain_def Let_def)
  have sd: "sending_tickets (enqueue now s a c q) = sending_tickets q"
    by (simp add: sending_tickets_def enqueue_def Let_def)
  have "tickets (enqueue now s a c q) =
      (mset (waiting_tickets (enqueue now s a c q)) + {#qd_ticket old#}) + (mset (sending_tickets q) + mset (settled_tickets q))"
    unfolding tickets_def st sd by (simp only: ac_simps)
  then show ?thesis unfolding w tickets_def by simp
qed

lemma filter_entries: "map snd (filter (\<lambda>(k, e). P e) m) = filter P (map snd m)"
  by (induction m) auto

lemma waiting_map: "waiting_tickets q = map qd_ticket (map snd (bq_queue q))"
  by (simp add: waiting_tickets_def)

lemma mset_map_partition: "mset (map f (filter P xs)) + mset (map f (filter (\<lambda>x. \<not> P x) xs)) = mset (map f xs)"
  by (induction xs) auto

lemma tickets_remove: "tickets (fst (removeCron a c q)) = tickets q"
proof -
  have "waiting_tickets (fst (removeCron a c q)) = map qd_ticket (filter (\<lambda>e. \<not> of_cron a c e) (map snd (bq_queue q)))"
    by (simp add: waiting_map removeCron_def Let_def filter_entries)
  moreover have "settled_tickets (fst (removeCron a c q)) = settled_tickets q @ map qd_ticket (filter (of_cron a c) (map snd (bq_queue q)))"
    by (simp add: settled_tickets_def removeCron_def Let_def resolveDrain_def comp_def)
  moreover have "sending_tickets (fst (removeCron a c q)) = sending_tickets q"
    by (simp add: sending_tickets_def removeCron_def Let_def)
  ultimately show ?thesis
    using mset_map_partition [of qd_ticket "of_cron a c" "map snd (bq_queue q)"]
    by (simp add: tickets_def waiting_map ac_simps)
qed

lemma tickets_drain: "tickets (drain now s q) = tickets q"
proof -
  let ?mine = "filter (\<lambda>e. qd_sessionId e = s) (map snd (bq_queue q))"
  have "waiting_tickets (drain now s q) = map qd_ticket (filter (\<lambda>e. qd_sessionId e \<noteq> s) (map snd (bq_queue q)))"
    by (simp add: waiting_map drain_def Let_def filter_entries)
  moreover have "settled_tickets (drain now s q) = settled_tickets q @ map qd_ticket (filter (\<lambda>e. \<not> fresh now e) ?mine)"
    by (simp add: settled_tickets_def drain_def Let_def resolveDrain_def comp_def)
  moreover have "sending_tickets (drain now s q) = sending_tickets q @ map qd_ticket (filter (fresh now) ?mine)"
    by (simp add: sending_tickets_def drain_def Let_def)
  ultimately show ?thesis
    using mset_map_partition [of qd_ticket "\<lambda>e. qd_sessionId e = s" "map snd (bq_queue q)"]
      mset_map_partition [of qd_ticket "fresh now" ?mine]
    by (simp add: tickets_def waiting_map ac_simps)
qed

lemma tickets_sent:
  assumes "d < length (bq_drains q)"
  shows "tickets (drain_sent d ok q) = tickets q"
proof (cases "bq_drains q ! d")
  case (Cons e rest)
  have "mset (concat ((bq_drains q)[d := rest])) + {#e#} = mset (concat (bq_drains q))"
    using mset_concat_update [OF assms, of rest] Cons by simp
  from arg_cong [OF this, of "image_mset qd_ticket"]
  have "mset (map qd_ticket (concat ((bq_drains q)[d := rest]))) + {#qd_ticket e#} = mset (map qd_ticket (concat (bq_drains q)))"
    by (simp only: mset_map image_mset_union image_mset_add_mset image_mset_empty)
  then show ?thesis using Cons
    by (simp add: tickets_def waiting_tickets_def sending_tickets_def settled_tickets_def resolveDrain_def drain_sent_def ac_simps)
qed (simp add: drain_sent_def)

definition keys_ok :: "BusyQueue \<Rightarrow> bool" where
  "keys_ok q \<longleftrightarrow> distinct (keys (bq_queue q)) \<and>
     list_all (\<lambda>(k, e). k = queue_key (qd_sessionId e) (qd_agentName e) (qd_cronName e)) (bq_queue q)"

lemma distinct_update: "distinct (keys m) \<Longrightarrow> distinct (keys (AList.update k v m))"
  by (cases "k \<in> set (keys m)") simp_all

lemma distinct_filter: "distinct (keys m) \<Longrightarrow> distinct (keys (filter P m))"
  by (simp add: distinct_map_filter)

lemma keys_ok_step: "queue_step q q' \<Longrightarrow> keys_ok q \<Longrightarrow> keys_ok q'"
proof (induction rule: queue_step.induct)
  case (step_enqueue q now s a c)
  then show ?case by (auto simp: keys_ok_def enqueue_def Let_def intro!: distinct_update list_all_update)
next
  case (step_remove q a c)
  then show ?case by (auto simp: keys_ok_def removeCron_def Let_def list_all_iff intro!: distinct_filter)
next
  case (step_drain q now s)
  then show ?case by (auto simp: keys_ok_def drain_def Let_def list_all_iff intro!: distinct_filter)
next
  case (step_sent d q ok)
  then show ?case by (auto simp: keys_ok_def drain_sent_def split: list.split)
qed

lemma calls_step:
  "bq_calls (fst (removeCron a c q)) = bq_calls q" "bq_calls (drain now s q) = bq_calls q" "bq_calls (drain_sent d ok q) = bq_calls q"
  by (simp_all add: removeCron_def drain_def drain_sent_def Let_def split: list.split)

lemma tickets_step:
  assumes "queue_step q q'" "keys_ok q" "tickets q = mset [0..<bq_calls q]"
  shows "tickets q' = mset [0..<bq_calls q']"
  using assms
proof (induction rule: queue_step.induct)
  case (step_enqueue q now s a c)
  then show ?case using tickets_enqueue [of q now s a c] by (simp add: keys_ok_def enqueue_def Let_def)
qed (simp_all add: tickets_remove tickets_drain tickets_sent calls_step)

lemma queue_reachable_inv:
  assumes "queue_reachable q"
  shows "keys_ok q \<and> tickets q = mset [0..<bq_calls q]"
  using assms unfolding queue_reachable_def
proof (induction rule: rtranclp_induct)
  case base
  show ?case by (simp add: keys_ok_def new_queue_def ticket_defs)
next
  case (step q q')
  then show ?case using keys_ok_step tickets_step by blast
qed

section \<open>An abstract view of the queue\<close>

text \<open>What the queue promises: for each session, agent and cron task, the last message.\<close>

definition triple :: "QueuedEntry \<Rightarrow> string \<times> string \<times> string" where
  "triple e = (qd_sessionId e, qd_agentName e, qd_cronName e)"

definition pending :: "BusyQueue \<Rightarrow> string \<times> string \<times> string \<Rightarrow> QueuedEntry option" where
  "pending q = map_of (map (\<lambda>(k, e). (triple e, e)) (bq_queue q))"

definition plain_names :: "string \<Rightarrow> string \<Rightarrow> bool" where
  "plain_names sessionId agentName = (CHR '':'' \<notin> set sessionId \<and> CHR '':'' \<notin> set agentName)"

definition plain_queue :: "BusyQueue \<Rightarrow> bool" where
  "plain_queue q = list_all (\<lambda>(k, e). plain_names (qd_sessionId e) (qd_agentName e)) (bq_queue q)"

lemma append_sep_eq: "c \<notin> set a \<Longrightarrow> c \<notin> set b \<Longrightarrow> a @ c # x = b @ c # y \<longleftrightarrow> a = b \<and> x = y"
proof (induction a arbitrary: b)
  case Nil
  then show ?case by (cases b) auto
next
  case (Cons d a)
  then show ?case by (cases b) auto
qed

lemma queue_key_inj:
  assumes "plain_names s a" "plain_names s' a'"
  shows "queue_key s a c = queue_key s' a' c' \<longleftrightarrow> (s, a, c) = (s', a', c')"
  using assms by (auto simp: queue_key_def plain_names_def append_sep_eq)

lemma pending_key:
  assumes "keys_ok q" "plain_queue q" "plain_names s a"
  shows "pending q (s, a, c) = map_of (bq_queue q) (queue_key s a c)"
  using assms unfolding keys_ok_def plain_queue_def pending_def
proof (induction "bq_queue q" arbitrary: q)
  case (Cons p m)
  obtain k e where p: "p = (k, e)" by fastforce
  let ?q = "q\<lparr>bq_queue := m\<rparr>"
  have k: "k = queue_key (qd_sessionId e) (qd_agentName e) (qd_cronName e)" "plain_names (qd_sessionId e) (qd_agentName e)"
    using Cons(2-) p by (auto simp flip: Cons(2))
  have "map_of (map (\<lambda>(k, e). (triple e, e)) m) (s, a, c) = map_of m (queue_key s a c)"
    using Cons(1) [of ?q] Cons(3-) by (auto simp flip: Cons(2))
  then show ?case using queue_key_inj [OF assms(3) k(2), of c "qd_cronName e"] k p by (auto simp: triple_def simp flip: Cons(2))
qed simp

lemma pending_map:
  assumes "keys_ok q" "plain_queue q"
  shows "pending q t = (case t of (s, a, c) \<Rightarrow> if plain_names s a then map_of (bq_queue q) (queue_key s a c) else None)"
proof -
  obtain s a c where t: "t = (s, a, c)" by (cases t) auto
  have "pending q (s, a, c) = None" if "\<not> plain_names s a"
    using assms(2) that by (auto simp: pending_def plain_queue_def list_all_iff map_of_eq_None_iff triple_def)
  then show ?thesis using pending_key [OF assms] by (simp add: t)
qed

lemma map_of_filter_values:
  "map_of (map (\<lambda>(k, e). (triple e, e)) (filter (\<lambda>(k, e). P (triple e)) m)) t =
   (if P t then map_of (map (\<lambda>(k, e). (triple e, e)) m) t else None)"
  by (induction m) auto

lemma pending_remove: "pending (fst (removeCron a c q)) = (\<lambda>(s', a', c'). if (a', c') = (a, c) then None else pending q (s', a', c'))"
proof
  fix t :: "string \<times> string \<times> string"
  have f: "(\<lambda>(k, e). \<not> of_cron a c e) = (\<lambda>(k :: string, e). (\<lambda>(s', a', c'). (a', c') \<noteq> (a, c)) (triple e))"
    by (auto simp: of_cron_def triple_def fun_eq_iff)
  show "pending (fst (removeCron a c q)) t = (case t of (s', a', c') \<Rightarrow> if (a', c') = (a, c) then None else pending q (s', a', c'))"
    using map_of_filter_values [of "\<lambda>(s', a', c'). (a', c') \<noteq> (a, c)" "bq_queue q" t]
    by (cases t) (simp add: pending_def removeCron_def Let_def f)
qed

lemma pending_drain: "pending (drain now s q) = (\<lambda>(s', a', c'). if s' = s then None else pending q (s', a', c'))"
proof
  fix t :: "string \<times> string \<times> string"
  have f: "(\<lambda>(k, e). qd_sessionId e \<noteq> s) = (\<lambda>(k :: string, e). (\<lambda>(s', a', c'). s' \<noteq> s) (triple e))"
    by (auto simp: triple_def fun_eq_iff)
  show "pending (drain now s q) t = (case t of (s', a', c') \<Rightarrow> if s' = s then None else pending q (s', a', c'))"
    using map_of_filter_values [of "\<lambda>(s', a', c'). s' \<noteq> s" "bq_queue q" t]
    by (cases t) (simp add: pending_def drain_def Let_def f)
qed

lemma pending_sent: "pending (drain_sent d ok q) = pending q"
  by (simp add: pending_def drain_sent_def split: list.split)

lemma plain_enqueue: "plain_queue q \<Longrightarrow> plain_names s a \<Longrightarrow> plain_queue (enqueue now s a c q)"
  by (auto simp: plain_queue_def enqueue_def Let_def intro!: list_all_update)

lemma pending_enqueue:
  assumes "keys_ok q" "plain_queue q" "plain_names s a"
  shows "pending (enqueue now s a c q) =
    (pending q)((s, a, c) \<mapsto> \<lparr>qd_ticket = bq_calls q, qd_enqueuedAt = now, qd_agentName = a, qd_cronName = c, qd_sessionId = s\<rparr>)"
proof
  fix t :: "string \<times> string \<times> string"
  obtain s' a' c' where t: "t = (s', a', c')" by (cases t) auto
  have k: "keys_ok (enqueue now s a c q)" using keys_ok_step [OF step_enqueue assms(1)] .
  note p = pending_map [OF k plain_enqueue [OF assms(2,3)]] and p' = pending_map [OF assms(1,2)]
  have m: "map_of (bq_queue (enqueue now s a c q)) (queue_key s' a' c') =
      (if queue_key s' a' c' = queue_key s a c
       then Some \<lparr>qd_ticket = bq_calls q, qd_enqueuedAt = now, qd_agentName = a, qd_cronName = c, qd_sessionId = s\<rparr>
       else map_of (bq_queue q) (queue_key s' a' c'))"
    by (simp add: enqueue_def Let_def)
  show "pending (enqueue now s a c q) t =
    ((pending q)((s, a, c) \<mapsto> \<lparr>qd_ticket = bq_calls q, qd_enqueuedAt = now, qd_agentName = a, qd_cronName = c, qd_sessionId = s\<rparr>)) t"
  proof (cases "plain_names s' a'")
    case True
    then show ?thesis using queue_key_inj [OF True assms(3), of c' c] by (simp add: t p p' m)
  next
    case False
    then have "(s', a') \<noteq> (s, a)" using assms(3) by auto
    then show ?thesis using False by (auto simp: t p p')
  qed
qed

section \<open>Theorems about the queue\<close>

text \<open>C13: In every run, whatever the interleaving of calls and sends, every message ever queued is in exactly one place: it waits in the
  queue, it belongs to a drain that has not sent it yet, or its promise has been settled, once.\<close>

theorem queued_messages_settle_once:
  assumes "queue_reachable q"
  shows "mset (waiting_tickets q @ sending_tickets q @ settled_tickets q) = mset [0..<bq_calls q]"
  using queue_reachable_inv [OF assms] by (simp add: tickets_def add.assoc)

definition sample_queue :: BusyQueue where
  "sample_queue = drain 5 ''s'' (enqueue 3 ''s'' ''a'' ''c'' (enqueue 2 ''t'' ''a'' ''c'' (enqueue 1 ''s'' ''a'' ''c'' new_queue)))"

lemma reach_step: "queue_reachable q \<Longrightarrow> queue_step q q' \<Longrightarrow> queue_reachable q'"
  unfolding queue_reachable_def by (rule rtranclp.rtrancl_into_rtrancl)

lemma sample_queue_reachable: "queue_reachable sample_queue"
proof -
  have "queue_reachable new_queue" by (simp add: queue_reachable_def)
  then show ?thesis unfolding sample_queue_def using reach_step step_enqueue step_drain by metis
qed

theorem queued_messages_settle_once_witness:
  "waiting_tickets sample_queue = [1] \<and> sending_tickets sample_queue = [2] \<and> settled_tickets sample_queue = [0] \<and>
   mset (waiting_tickets sample_queue @ sending_tickets sample_queue @ settled_tickets sample_queue) = mset [0..<bq_calls sample_queue]"
proof (intro conjI)
  show "waiting_tickets sample_queue = [1]" "sending_tickets sample_queue = [2]" "settled_tickets sample_queue = [0]"
    by code_simp+
  show "mset (waiting_tickets sample_queue @ sending_tickets sample_queue @ settled_tickets sample_queue) = mset [0..<bq_calls sample_queue]"
    by (rule queued_messages_settle_once [OF sample_queue_reachable])
qed

text \<open>C26: As long as session ids and agent names hold no colon, the queue is a map that holds the last message of each session, agent and
  cron task: queueing a message replaces that one entry, deleting a task removes its entries of all sessions, draining removes the entries
  of one session, and nothing else changes.\<close>

theorem queue_keeps_the_last_message:
  assumes "queue_reachable q" "plain_queue q" "plain_names sessionId agentName"
  shows "pending (enqueue now sessionId agentName cronName q) =
      (pending q)((sessionId, agentName, cronName) \<mapsto>
        \<lparr>qd_ticket = bq_calls q, qd_enqueuedAt = now, qd_agentName = agentName, qd_cronName = cronName, qd_sessionId = sessionId\<rparr>) \<and>
    pending (fst (removeCron agentName cronName q)) =
      (\<lambda>(s, a, c). if (a, c) = (agentName, cronName) then None else pending q (s, a, c)) \<and>
    pending (drain now sessionId q) = (\<lambda>(s, a, c). if s = sessionId then None else pending q (s, a, c)) \<and>
    pending (drain_sent d ok q) = pending q \<and> plain_queue (enqueue now sessionId agentName cronName q)"
  using pending_enqueue [OF conjunct1 [OF queue_reachable_inv [OF assms(1)]] assms(2,3)] pending_remove pending_drain pending_sent
    plain_enqueue [OF assms(2,3)] by blast

theorem queue_keeps_the_last_message_witness:
  "map_option qd_ticket (pending sample_queue (''t'', ''a'', ''c'')) = Some 1 \<and>
   map_option qd_ticket (pending (enqueue 9 ''t'' ''a'' ''c'' sample_queue) (''t'', ''a'', ''c'')) = Some 3"
proof
  show "map_option qd_ticket (pending sample_queue (''t'', ''a'', ''c'')) = Some 1" by code_simp
  have "plain_queue sample_queue" "plain_names ''t'' ''a''" "bq_calls sample_queue = 3" by code_simp+
  then show "map_option qd_ticket (pending (enqueue 9 ''t'' ''a'' ''c'' sample_queue) (''t'', ''a'', ''c'')) = Some 3"
    using queue_keeps_the_last_message [OF sample_queue_reachable, of "''t''" "''a''", THEN conjunct1, of 9 "''c''"] by simp
qed

text \<open>With a colon in an agent name, messages of different tasks share a key, and one replaces the other.\<close>

lemma colliding_names_replace_each_other:
  "bq_settled (enqueue 1 ''s'' ''a:b'' ''c'' (enqueue 0 ''s'' ''a'' ''b:c'' new_queue)) = [(0, Replaced)]"
  by code_simp

text \<open>A message that a drain has taken is sent even though its task is deleted while the drain waits for an earlier message.\<close>

lemma drained_messages_outlive_deletion:
  "bq_settled (drain_sent 0 True (drain_sent 0 True (fst (removeCron ''a'' ''d''
     (drain 1 ''s'' (enqueue 0 ''s'' ''a'' ''d'' (enqueue 0 ''s'' ''a'' ''c'' new_queue))))))) = [(0, Sent), (1, Sent)]"
  by code_simp

section \<open>Theorems about purposes and hours\<close>

lemma split_no_sep: "c \<notin> set s \<Longrightarrow> split_at_prefix [c] acc s = None"
  by (induction s arbitrary: acc) auto

lemma split_first: "c \<notin> set a \<Longrightarrow> split_at_prefix [c] acc (a @ c # b) = Some (rev acc @ a, b)"
  by (induction a arbitrary: acc) auto

lemma js_split_plain: "c \<notin> set s \<Longrightarrow> js_split [c] s = [s]"
  by (subst js_split.simps) (simp add: split_no_sep)

lemma js_split_first: "c \<notin> set a \<Longrightarrow> js_split [c] (a @ c # b) = a # js_split [c] b"
  by (subst js_split.simps) (simp add: split_first)

lemma split_at_prefix_head: "split_at_prefix [c] acc s = Some (a, b) \<Longrightarrow> c \<notin> set acc \<Longrightarrow> c \<notin> set a"
  by (induction "[c]" acc s rule: split_at_prefix.induct) (auto split: if_splits)

lemma js_split_head: "js_split [c] s = a # x # rest \<Longrightarrow> c \<notin> set a"
  using split_at_prefix_head [of c "[]" s] by (subst (asm) js_split.simps) (auto split: option.splits)

lemma cron_purposes_read_back_if:
  assumes "agentName \<noteq> []" "cronName \<noteq> []" "CHR '':'' \<notin> set agentName"
  shows "parseCronSessionPurpose (Some (createCronSessionPurpose agentName cronName)) = Some (agentName, cronName)"
proof -
  have sp: "js_split '':'' (agentName @ '':'' @ cronName) = agentName # js_split '':'' cronName"
    using js_split_first [of "CHR '':''" agentName cronName] assms by simp
  obtain x rest where c: "js_split '':'' cronName = x # rest" using js_split_nonempty [of "'':''" cronName] by (cases "js_split '':'' cronName") auto
  have "js_join '':'' (x # rest) = cronName" using js_join_split [of "'':''" cronName] c by simp
  then show ?thesis
    using assms sp c by (simp add: parseCronSessionPurpose_def createCronSessionPurpose_def CRON_SESSION_PURPOSE_PREFIX_def js_starts_with_def Let_def)
qed

text \<open>A cron session's purpose names its agent and its task, and both are read back exactly if neither is empty and the agent's name holds
  no colon; the task's name may hold colons.\<close>

theorem cron_purposes_read_back:
  "parseCronSessionPurpose (Some (createCronSessionPurpose agentName cronName)) = Some (agentName, cronName) \<longleftrightarrow>
   agentName \<noteq> [] \<and> cronName \<noteq> [] \<and> CHR '':'' \<notin> set agentName"
proof
  assume r: "parseCronSessionPurpose (Some (createCronSessionPurpose agentName cronName)) = Some (agentName, cronName)"
  then obtain x rest where sp: "js_split '':'' (agentName @ '':'' @ cronName) = agentName # x # rest" "agentName \<noteq> []" "cronName \<noteq> []"
    by (auto simp: parseCronSessionPurpose_def createCronSessionPurpose_def CRON_SESSION_PURPOSE_PREFIX_def Let_def
        split: list.splits if_splits)
  then show "agentName \<noteq> [] \<and> cronName \<noteq> [] \<and> CHR '':'' \<notin> set agentName" using js_split_head [OF sp(1)] by blast
qed (simp add: cron_purposes_read_back_if)

lemma time_schema_parts:
  assumes "time_schema t"
  obtains h m where "t = h @ CHR '':'' # m" "length h = 2" "length m = 2" "list_all is_digit h" "list_all is_digit m"
proof (rule that [of "take 2 t" "drop 3 t"])
  have l: "length t = 5" "t ! 2 = CHR '':''" using assms by (simp_all add: time_schema_def)
  have "t = take 2 t @ t ! 2 # drop 3 t" using id_take_nth_drop [of 2 t] l by (simp add: numeral_3_eq_3)
  then show "t = take 2 t @ CHR '':'' # drop 3 t" by (simp only: l(2))
qed (use assms in \<open>auto simp: time_schema_def\<close>)

lemma parseTime_schema:
  assumes "time_schema t"
  shows "\<exists>h m. parseTime t = (NInt (int h), NInt (int m))"
proof -
  obtain h m where t: "t = h @ CHR '':'' # m" "list_all is_digit h" "list_all is_digit m" using time_schema_parts [OF assms] by metis
  have "CHR '':'' \<notin> set h" "CHR '':'' \<notin> set m" using t(2,3) by (auto simp: list_all_iff is_digit_def)
  then have "js_split '':'' t = [h, m]" by (simp add: t(1) js_split_first js_split_plain)
  then show ?thesis using t(2,3) by (simp add: parseTime_def time_number_def nth_opt_def Let_def)
qed

lemma day_difference:
  assumes "0 \<le> x" "x < 1440" "0 \<le> y" "y < (1440 :: int)"
  shows "(x - y) mod 1440 = (if y \<le> x then x - y else x - y + 1440)"
proof (cases "y \<le> x")
  case True
  then show ?thesis using assms by simp
next
  case False
  have "(x - y) mod 1440 = (x - y + 1440) mod 1440" by simp
  also have "\<dots> = x - y + 1440" using False assms by (intro mod_pos_pos_trivial) linarith+
  finally show ?thesis using False by simp
qed

text \<open>Active hours are the half-open cyclic interval from start to end: with times within a day, the local time is inside exactly if it
  is reached from the start before the end is.  A window that crosses midnight is covered by this, and one that ends where it starts is
  empty.\<close>

theorem active_hours_are_a_cyclic_window:
  assumes "timeToMinutes (parseTime (ah_start a)) = NInt s" "timeToMinutes (parseTime (ah_end a)) = NInt e"
    "0 \<le> s" "s < 1440" "0 \<le> e" "e < 1440" "0 \<le> h" "h < 24" "0 \<le> m" "m < 60"
  shows "isWithinActiveHours (h, m) (Some a) \<longleftrightarrow> (h * 60 + m - s) mod 1440 < (e - s) mod 1440"
proof -
  define t where "t = h * 60 + m"
  have t: "0 \<le> t" "t < 1440" unfolding t_def using assms(7-) by linarith+
  have w: "isWithinActiveHours (h, m) (Some a) \<longleftrightarrow> (if s \<le> e then s \<le> t \<and> t < e else s \<le> t \<or> t < e)"
    using assms(1,2) by (simp add: isWithinActiveHours_def timeToMinutes_def js_le_def js_lt_def t_def)
  have m: "(t - s) mod 1440 = (if s \<le> t then t - s else t - s + 1440)" "(e - s) mod 1440 = (if s \<le> e then e - s else e - s + 1440)"
    using t assms(3-6) by (simp_all only: day_difference)
  show ?thesis unfolding w t_def [symmetric] m using t assms(3-6) by auto
qed

theorem active_hours_are_a_cyclic_window_witness:
  "isWithinActiveHours (23, 30) (Some \<lparr>ah_start = ''22:00'', ah_end = ''06:00''\<rparr>) \<and>
   (23 * 60 + 30 - 1320) mod 1440 < (360 - 1320) mod (1440 :: int)"
proof -
  let ?a = "\<lparr>ah_start = ''22:00'', ah_end = ''06:00''\<rparr>"
  have "timeToMinutes (parseTime (ah_start ?a)) = NInt 1320" "timeToMinutes (parseTime (ah_end ?a)) = NInt 360" by code_simp+
  from active_hours_are_a_cyclic_window [OF this, of 23 30] show ?thesis by simp
qed

text \<open>Where the host's formatter reports midnight as hour 24, the first hour of the day is outside a window that starts at midnight.\<close>

lemma hour_24_is_outside:
  "\<not> isWithinActiveHours (24, 15) (Some \<lparr>ah_start = ''00:00'', ah_end = ''06:00''\<rparr>) \<and>
   isWithinActiveHours (0, 15) (Some \<lparr>ah_start = ''00:00'', ah_end = ''06:00''\<rparr>)"
  by code_simp

end
