(* ===== verification/Cron_Sessions.thy ===== *)
theory Cron_Sessions
  imports Cron_Queue
begin

text \<open>
  Retention and deletion of the sessions a cron task has made: the cleanups of \<^verbatim>\<open>CronExecutor\<close> in \<^verbatim>\<open>cron/src/executor.ts\<close>.

  The session service is a parameter: what it answers for the record at a position of the history, and whether it carries out an archival or a
  deletion.  Any answers are allowed, so that sessions may change while a cleanup waits.  The results list what was asked of the service.
\<close>

section \<open>Sessions and records\<close>

record CronSessionRecord =
  sr_sessionId :: string
  sr_createdAt :: int

record CronSessionInfo =
  si_sessionId :: string
  si_agentName :: string
  si_root :: bool
  si_compressed :: bool
  si_started :: bool
  si_purpose :: "string option"

datatype SessionConfig = RootMode | SessionIdMode string | NewMode "nat nullable"

text \<open>The answer to a lookup: the service throws, knows no such session, or returns it.\<close>

datatype Lookup = LookupFails | NoSession | Found CronSessionInfo

section \<open>Retention\<close>

datatype InspectionKind = Missing | Compressed | Started | RootSession | Visible

definition DEFAULT_KEEP_SESSIONS :: "nat option" where
  "DEFAULT_KEEP_SESSIONS = None"

definition effective_keep :: "nat nullable \<Rightarrow> nat option" where
  "effective_keep k = (case k of Undefined \<Rightarrow> DEFAULT_KEEP_SESSIONS | Null \<Rightarrow> None | Val n \<Rightarrow> Some n)"

definition inspect :: "Lookup \<Rightarrow> InspectionKind" where
  "inspect l =
     (case l of
        Found s \<Rightarrow> if si_root s then RootSession else if si_compressed s then Compressed else if si_started s then Started else Visible
      | _ \<Rightarrow> Missing)"

definition archive_set :: "nat option \<Rightarrow> InspectionKind list \<Rightarrow> nat list" where
  "archive_set keep kinds =
     (let visibleIndexes = filter (\<lambda>i. kinds ! i = Visible) [0..<length kinds] in
      case keep of
        None \<Rightarrow> []
      | Some keepCount \<Rightarrow>
          if length visibleIndexes > keepCount then take (length visibleIndexes - keepCount) visibleIndexes else [])"

text \<open>The records that stay, those that were archived and the number of those that were dropped.\<close>

record Retention =
  rt_next :: "CronSessionRecord list"
  rt_archived :: "CronSessionRecord list"
  rt_compacted :: nat

definition retain :: "nat list \<Rightarrow> (nat \<Rightarrow> bool) \<Rightarrow> nat \<Rightarrow> InspectionKind \<Rightarrow> CronSessionRecord \<Rightarrow> Retention \<Rightarrow> Retention" where
  "retain archiveSet archives i kind r acc =
     (case kind of
        Started \<Rightarrow> acc\<lparr>rt_next := rt_next acc @ [r]\<rparr>
      | RootSession \<Rightarrow> acc\<lparr>rt_next := rt_next acc @ [r]\<rparr>
      | Missing \<Rightarrow> acc\<lparr>rt_compacted := Suc (rt_compacted acc)\<rparr>
      | Compressed \<Rightarrow> acc\<lparr>rt_compacted := Suc (rt_compacted acc)\<rparr>
      | Visible \<Rightarrow>
          if i \<in> set archiveSet then
            if archives i then acc\<lparr>rt_archived := rt_archived acc @ [r]\<rparr> else acc\<lparr>rt_next := rt_next acc @ [r]\<rparr>
          else acc\<lparr>rt_next := rt_next acc @ [r]\<rparr>)"

fun retain_loop :: "nat list \<Rightarrow> (nat \<Rightarrow> bool) \<Rightarrow> (nat \<times> InspectionKind \<times> CronSessionRecord) list \<Rightarrow> Retention \<Rightarrow> Retention" where
  "retain_loop archiveSet archives [] acc = acc"
| "retain_loop archiveSet archives ((i, kind, r) # xs) acc =
     retain_loop archiveSet archives xs (retain archiveSet archives i kind r acc)"

text \<open>The new history, unless nothing has changed, and the archived records.\<close>

definition cleanupCronSessionsLocked ::
  "SessionConfig option \<Rightarrow> CronSessionRecord list \<Rightarrow> (nat \<Rightarrow> Lookup) \<Rightarrow> (nat \<Rightarrow> bool) \<Rightarrow> CronSessionRecord list option \<times> CronSessionRecord list" where
  "cleanupCronSessionsLocked config records look archives =
     (case config of
        Some (NewMode keepSessions) \<Rightarrow>
          if records = [] then (None, [])
          else
            (let kinds = map (\<lambda>i. inspect (look i)) [0..<length records];
                 r = retain_loop (archive_set (effective_keep keepSessions) kinds) archives (zip [0..<length records] (zip kinds records))
                       \<lparr>rt_next = [], rt_archived = [], rt_compacted = 0\<rparr>;
                 changed = (rt_archived r \<noteq> [] \<or> rt_compacted r > 0 \<or> length (rt_next r) \<noteq> length records)
             in (if changed then Some (rt_next r) else None, rt_archived r))
      | _ \<Rightarrow> (None, []))"

section \<open>Deletion\<close>

text \<open>The ids whose deletion is asked for, in order.\<close>

fun delete_tracked :: "string \<Rightarrow> (string \<Rightarrow> Lookup) \<Rightarrow> string list \<Rightarrow> string list \<Rightarrow> string list" where
  "delete_tracked expectedPurpose look seen [] = []"
| "delete_tracked expectedPurpose look seen (i # is) =
     (if i \<in> set seen then delete_tracked expectedPurpose look seen is
      else
        (case look i of
           Found s \<Rightarrow> if si_root s \<or> si_purpose s \<noteq> Some expectedPurpose then [] else [i]
         | _ \<Rightarrow> []) @ delete_tracked expectedPurpose look (i # seen) is)"

definition delete_untracked :: "string \<Rightarrow> string list \<Rightarrow> CronSessionInfo list \<Rightarrow> string list" where
  "delete_untracked expectedPurpose seen orphans =
     map si_sessionId (filter (\<lambda>s. si_sessionId s \<notin> set seen \<and> \<not> si_root s \<and> si_purpose s = Some expectedPurpose) orphans)"

text \<open>The listing by prefix is optional and may fail; then only the history is looked at.\<close>

definition cleanupSessionsOnDelete ::
  "string \<Rightarrow> string \<Rightarrow> CronSessionRecord list \<Rightarrow> (string \<Rightarrow> Lookup) \<Rightarrow> (string \<Rightarrow> CronSessionInfo list) option \<Rightarrow> string list" where
  "cleanupSessionsOnDelete agentName cronName records look listByPurposePrefix =
     (let expectedPurpose = ''cron:'' @ agentName @ '':'' @ cronName; ids = map sr_sessionId records in
      delete_tracked expectedPurpose look [] ids @
      (case listByPurposePrefix of None \<Rightarrow> [] | Some list \<Rightarrow> delete_untracked expectedPurpose ids (list expectedPurpose)))"

definition task_key :: "string \<Rightarrow> string \<Rightarrow> string" where
  "task_key agentName cronName = agentName @ '':'' @ cronName"

definition orphaned :: "string list \<Rightarrow> CronSessionInfo \<Rightarrow> bool" where
  "orphaned aliveTaskKeys s =
     (\<not> si_root s \<and>
      (case si_purpose s of
         None \<Rightarrow> False
       | Some p \<Rightarrow>
           p \<noteq> [] \<and>
           (case parseCronSessionPurpose (Some p) of
              None \<Rightarrow> False
            | Some (agentName, cronName) \<Rightarrow> cronName \<noteq> MEMORY_CLEANUP_CRON_NAME \<and> task_key agentName cronName \<notin> set aliveTaskKeys)))"

definition cleanupOrphanCronSessions :: "string list \<Rightarrow> (string \<Rightarrow> CronSessionInfo list) option \<Rightarrow> string list" where
  "cleanupOrphanCronSessions aliveTaskKeys listByPurposePrefix =
     (case listByPurposePrefix of None \<Rightarrow> [] | Some list \<Rightarrow> map si_sessionId (filter (orphaned aliveTaskKeys) (list ''cron:'')))"

section \<open>What retention keeps\<close>

text \<open>The specification: how many visible records come after a position, and whether the record there is to be kept.\<close>

definition newer_visible :: "(nat \<Rightarrow> Lookup) \<Rightarrow> nat \<Rightarrow> nat \<Rightarrow> nat" where
  "newer_visible look n i = length (filter (\<lambda>j. inspect (look j) = Visible) [Suc i..<n])"

definition too_old :: "nat option \<Rightarrow> (nat \<Rightarrow> Lookup) \<Rightarrow> nat \<Rightarrow> nat \<Rightarrow> bool" where
  "too_old keep look n i = (case keep of None \<Rightarrow> False | Some k \<Rightarrow> k \<le> newer_visible look n i)"

definition kept :: "nat option \<Rightarrow> (nat \<Rightarrow> Lookup) \<Rightarrow> (nat \<Rightarrow> bool) \<Rightarrow> nat \<Rightarrow> nat \<Rightarrow> bool" where
  "kept keep look archives n i =
     (inspect (look i) \<in> {Started, RootSession} \<or> inspect (look i) = Visible \<and> (too_old keep look n i \<longrightarrow> \<not> archives i))"

lemma upt_split: "i \<le> j \<Longrightarrow> j \<le> k \<Longrightarrow> [i..<k] = [i..<j] @ [j..<k]"
  using upt_add_eq_append [of i j "k - j"] by simp

lemma take_filter_upt:
  assumes "i < n" "P i" "k \<le> length (filter P [0..<n])"
  shows "i \<in> set (take (length (filter P [0..<n]) - k) (filter P [0..<n])) \<longleftrightarrow> k \<le> length (filter P [Suc i..<n])"
proof -
  have "[0..<n] = [0..<i] @ i # [Suc i..<n]" using assms(1) upt_split [of 0 i n] by (simp add: upt_conv_Cons)
  then have f: "filter P [0..<n] = filter P [0..<i] @ i # filter P [Suc i..<n]" using assms(2) by simp
  let ?a = "length (filter P [0..<i])" and ?b = "length (filter P [Suc i..<n])"
  have l: "length (filter P [0..<n]) = ?a + Suc ?b" by (simp add: f)
  have "i \<notin> set (filter P [0..<i])" "i \<notin> set (filter P [Suc i..<n])" by auto
  then show ?thesis using assms(3) unfolding f l
    by (auto simp: take_append take_Cons' dest: in_set_takeD)
qed

lemma archive_set_iff:
  assumes "i < n" "inspect (look i) = Visible"
  shows "i \<in> set (archive_set keep (map (\<lambda>i. inspect (look i)) [0..<n])) \<longleftrightarrow> too_old keep look n i"
proof (cases keep)
  case (Some k)
  let ?P = "\<lambda>i. inspect (look i) = Visible"
  have f: "filter (\<lambda>i. map (\<lambda>i. inspect (look i)) [0..<n] ! i = Visible) [0..<n] = filter ?P [0..<n]"
    by (rule filter_cong) auto
  have A: "archive_set keep (map (\<lambda>i. inspect (look i)) [0..<n]) = take (length (filter ?P [0..<n]) - k) (filter ?P [0..<n])"
    using f by (simp add: archive_set_def Some Let_def)
  show ?thesis
  proof (cases "k \<le> length (filter ?P [0..<n])")
    case True
    then show ?thesis unfolding A using take_filter_upt [of i n ?P k] assms Some
      by (simp add: too_old_def newer_visible_def)
  next
    case False
    have "length (filter ?P [Suc i..<n]) \<le> length (filter ?P [0..<n])"
      using upt_split [of 0 "Suc i" n] assms(1) by simp
    then show ?thesis unfolding A using False Some by (simp add: too_old_def newer_visible_def)
  qed
qed (simp add: archive_set_def too_old_def)

lemma retain_loop_result:
  "rt_next (retain_loop A ar xs acc) = rt_next acc @
     map (\<lambda>(i, k, r). r) (filter (\<lambda>(i, k, r). k \<in> {Started, RootSession} \<or> k = Visible \<and> (i \<in> set A \<longrightarrow> \<not> ar i)) xs) \<and>
   rt_archived (retain_loop A ar xs acc) = rt_archived acc @
     map (\<lambda>(i, k, r). r) (filter (\<lambda>(i, k, r). k = Visible \<and> i \<in> set A \<and> ar i) xs)"
proof (induction A ar xs acc rule: retain_loop.induct)
  case (2 A ar i k r xs acc)
  then show ?case by (cases k) (auto simp: retain_def)
qed simp

lemma retain_loop_count:
  "length (rt_next (retain_loop A ar xs acc)) + length (rt_archived (retain_loop A ar xs acc)) + rt_compacted (retain_loop A ar xs acc) =
   length xs + length (rt_next acc) + length (rt_archived acc) + rt_compacted acc"
proof (induction A ar xs acc rule: retain_loop.induct)
  case (2 A ar i k r xs acc)
  then show ?case by (cases k) (auto simp: retain_def)
qed simp

lemma zip_positions:
  "length kinds = length rs \<Longrightarrow> zip [0..<length rs] (zip kinds rs) = map (\<lambda>i. (i, kinds ! i, rs ! i)) [0..<length rs]"
  by (rule nth_equalityI) auto

lemma filter_all_length: "length (filter P xs) = length xs \<Longrightarrow> filter P xs = xs"
  by (metis filter_id_conv length_filter_less less_irrefl)

section \<open>Theorems about cron sessions\<close>

text \<open>C17: Retention keeps the newest sessions: of a task that makes a new session for each run, the history keeps, in order, the started and
  root sessions, and those finished ones that fewer than \<^verbatim>\<open>keepSessions\<close> finished ones come after, or that could not be archived; all other
  finished ones are archived, and records of missing or archived sessions are dropped.  Nothing is written when nothing changes.\<close>

theorem retention_keeps_the_newest:
  fixes records :: "CronSessionRecord list" and look :: "nat \<Rightarrow> Lookup"
  assumes "cleanupCronSessionsLocked (Some (NewMode keepSessions)) records look archives = (written, archived)"
  defines "n \<equiv> length records" and "keep \<equiv> effective_keep keepSessions"
  shows "nullish written records = map (\<lambda>i. records ! i) (filter (kept keep look archives n) [0..<n]) \<and>
    archived = map (\<lambda>i. records ! i) (filter (\<lambda>i. inspect (look i) = Visible \<and> too_old keep look n i \<and> archives i) [0..<n]) \<and>
    (written \<noteq> None \<longrightarrow> written \<noteq> Some records)"
proof (cases "records = []")
  case True
  then show ?thesis using assms(1) by (simp add: cleanupCronSessionsLocked_def n_def nullish_def)
next
  case False
  let ?kinds = "map (\<lambda>i. inspect (look i)) [0..<n]"
  let ?A = "archive_set keep ?kinds"
  let ?xs = "map (\<lambda>i. (i, ?kinds ! i, records ! i)) [0..<n]"
  let ?r = "retain_loop ?A archives ?xs \<lparr>rt_next = [], rt_archived = [], rt_compacted = 0\<rparr>"
  have z: "zip [0..<n] (zip ?kinds records) = ?xs" unfolding n_def by (rule zip_positions) simp
  have positions: "rt_next \<lparr>rt_next = [], rt_archived = [], rt_compacted = 0\<rparr> @ map (\<lambda>(i, k, r). r) (filter (\<lambda>(i, k, r). Q i k) ?xs) =
      map (\<lambda>i. records ! i) (filter (\<lambda>i. Q i (?kinds ! i)) [0..<n])" 
    "rt_archived \<lparr>rt_next = [], rt_archived = [], rt_compacted = 0\<rparr> @ map (\<lambda>(i, k, r). r) (filter (\<lambda>(i, k, r). Q i k) ?xs) =
      map (\<lambda>i. records ! i) (filter (\<lambda>i. Q i (?kinds ! i)) [0..<n])" for Q
    by (simp_all add: filter_map comp_def)
  have nx: "rt_next ?r = map (\<lambda>i. records ! i) (filter (kept keep look archives n) [0..<n])"
    unfolding retain_loop_result [THEN conjunct1] positions
    by (rule arg_cong [of _ _ "map (\<lambda>i. records ! i)"], rule filter_cong) (use archive_set_iff [of _ n look keep] in \<open>auto simp: kept_def\<close>)
  have ar: "rt_archived ?r = map (\<lambda>i. records ! i) (filter (\<lambda>i. inspect (look i) = Visible \<and> too_old keep look n i \<and> archives i) [0..<n])"
    unfolding retain_loop_result [THEN conjunct2] positions
    by (rule arg_cong [of _ _ "map (\<lambda>i. records ! i)"], rule filter_cong) (use archive_set_iff [of _ n look keep] in auto)
  have "cleanupCronSessionsLocked (Some (NewMode keepSessions)) records look archives =
      (if rt_archived ?r \<noteq> [] \<or> rt_compacted ?r > 0 \<or> length (rt_next ?r) \<noteq> n then Some (rt_next ?r) else None, rt_archived ?r)"
    using False z unfolding n_def keep_def by (simp add: cleanupCronSessionsLocked_def Let_def)
  moreover have count: "length (rt_next ?r) + length (rt_archived ?r) + rt_compacted ?r = n" by (simp add: retain_loop_count)
  ultimately have "(written, archived) = (if length (rt_next ?r) \<noteq> n then Some (rt_next ?r) else None, rt_archived ?r)"
    using assms(1) by auto
  then have w: "written = (if length (rt_next ?r) \<noteq> n then Some (rt_next ?r) else None)" "archived = rt_archived ?r" by blast+
  show ?thesis
  proof (cases "length (rt_next ?r) = n")
    case True
    then have "length (filter (kept keep look archives n) [0..<n]) = length [0..<n]" by (simp add: nx)
    then have "filter (kept keep look archives n) [0..<n] = [0..<n]" by (rule filter_all_length)
    then show ?thesis using True w ar by (simp add: nullish_def map_nth n_def)
  next
    case False
    then have "rt_next ?r \<noteq> records" by (auto simp: n_def)
    then show ?thesis using False w ar nx by (simp add: nullish_def)
  qed
qed

definition sample_session :: "bool \<Rightarrow> CronSessionInfo" where
  "sample_session started = \<lparr>si_sessionId = ''s'', si_agentName = ''a'', si_root = False, si_compressed = False, si_started = started, si_purpose = None\<rparr>"

theorem retention_keeps_the_newest_witness:
  "\<exists>written archived.
     cleanupCronSessionsLocked (Some (NewMode (Val 1)))
       [\<lparr>sr_sessionId = ''a'', sr_createdAt = 1\<rparr>, \<lparr>sr_sessionId = ''b'', sr_createdAt = 2\<rparr>, \<lparr>sr_sessionId = ''c'', sr_createdAt = 3\<rparr>]
       (\<lambda>i. Found (sample_session (i = 1))) (\<lambda>_. True) = (written, archived) \<and>
     map sr_sessionId archived = [''a''] \<and> map sr_sessionId (nullish written []) = [''b'', ''c''] \<and> written \<noteq> Some []"
proof -
  let ?rs = "[\<lparr>sr_sessionId = ''a'', sr_createdAt = 1\<rparr>, \<lparr>sr_sessionId = ''b'', sr_createdAt = 2\<rparr>, \<lparr>sr_sessionId = ''c'', sr_createdAt = 3\<rparr>]"
  let ?look = "\<lambda>i. Found (sample_session (i = Suc 0))"
  obtain written archived where c: "cleanupCronSessionsLocked (Some (NewMode (Val 1))) ?rs ?look (\<lambda>_. True) = (written, archived)" by fastforce
  note t = retention_keeps_the_newest [OF c]
  have k: "filter (kept (effective_keep (Val 1)) ?look (\<lambda>_. True) (length ?rs)) [0..<length ?rs] = [1, 2]" by code_simp
  have a: "filter (\<lambda>i. inspect (?look i) = Visible \<and> too_old (effective_keep (Val 1)) ?look (length ?rs) i \<and> True) [0..<length ?rs] = [0]"
    by code_simp
  have "map sr_sessionId archived = [''a'']" using t unfolding a by simp
  moreover have "map sr_sessionId (nullish written ?rs) = [''b'', ''c'']" using t unfolding k by simp
  ultimately show ?thesis using c by (cases written) (auto simp: nullish_def)
qed

lemma delete_tracked_sound:
  "i \<in> set (delete_tracked p look seen is) \<Longrightarrow> i \<in> set is \<and> i \<notin> set seen \<and> (\<exists>s. look i = Found s \<and> \<not> si_root s \<and> si_purpose s = Some p)"
proof (induction p look seen "is" rule: delete_tracked.induct)
  case (2 p look seen j "is")
  then show ?case by (cases "look j") (auto split: if_splits)
qed simp

lemma delete_tracked_complete:
  "i \<in> set is \<Longrightarrow> i \<notin> set seen \<Longrightarrow> look i = Found s \<Longrightarrow> \<not> si_root s \<Longrightarrow> si_purpose s = Some p \<Longrightarrow>
   i \<in> set (delete_tracked p look seen is)"
proof (induction p look seen "is" rule: delete_tracked.induct)
  case (2 p look seen j "is")
  then show ?case by (cases "i = j") auto
qed simp

lemma delete_tracked_distinct: "distinct (delete_tracked p look seen is)"
proof (induction p look seen "is" rule: delete_tracked.induct)
  case (2 p look seen i "is")
  then show ?case using delete_tracked_sound [of i p look "i # seen" "is"] by (auto split: Lookup.splits)
qed simp

lemma js_split_cons_join: "js_split '':'' s = a # x # rest \<Longrightarrow> a @ '':'' @ js_join '':'' (x # rest) = s"
  using js_join_split [of "'':''" s] js_join_Cons [of "x # rest" "'':''" a] by simp

lemma parse_purpose_key: "parseCronSessionPurpose (Some p) = Some (a, c) \<Longrightarrow> p = createCronSessionPurpose a c"
  using js_split_cons_join
  by (fastforce simp: parseCronSessionPurpose_def createCronSessionPurpose_def CRON_SESSION_PURPOSE_PREFIX_def js_starts_with_def Let_def prefix_def
      split: if_splits list.splits)

text \<open>Startup never deletes a session of a task that still has a configuration, whatever its names, nor a root session, nor one of the memory
  cleanup.\<close>

theorem startup_spares_living_tasks:
  assumes "i \<in> set (cleanupOrphanCronSessions (map (\<lambda>(a, c). task_key a c) tasks) (Some list))"
  shows "\<exists>s \<in> set (list ''cron:''). si_sessionId s = i \<and> \<not> si_root s \<and>
    (\<forall>(a, c) \<in> set tasks. si_purpose s \<noteq> Some (createCronSessionPurpose a c)) \<and>
    (\<forall>a. a \<noteq> [] \<and> CHR '':'' \<notin> set a \<longrightarrow> si_purpose s \<noteq> Some (createCronSessionPurpose a MEMORY_CLEANUP_CRON_NAME))"
proof -
  obtain s where s: "s \<in> set (list ''cron:'')" "si_sessionId s = i" "orphaned (map (\<lambda>(a, c). task_key a c) tasks) s"
    using assms by (auto simp: cleanupOrphanCronSessions_def)
  then obtain p a c where p: "si_purpose s = Some p" "parseCronSessionPurpose (Some p) = Some (a, c)" "c \<noteq> MEMORY_CLEANUP_CRON_NAME"
    "task_key a c \<notin> set (map (\<lambda>(a, c). task_key a c) tasks)" "\<not> si_root s"
    by (auto simp: orphaned_def split: option.splits)
  note e = parse_purpose_key [OF p(2)]
  have "si_purpose s \<noteq> Some (createCronSessionPurpose a' c')" if "(a', c') \<in> set tasks" for a' c'
  proof
    assume "si_purpose s = Some (createCronSessionPurpose a' c')"
    then have "task_key a c = task_key a' c'" using p(1) e by (simp add: createCronSessionPurpose_def task_key_def)
    then show False using p(4) that by force
  qed
  moreover have "si_purpose s \<noteq> Some (createCronSessionPurpose a' MEMORY_CLEANUP_CRON_NAME)" if "a' \<noteq> [] \<and> CHR '':'' \<notin> set a'" for a'
    using cron_purposes_read_back_if [of a' MEMORY_CLEANUP_CRON_NAME] that p(1-3) by (auto simp: MEMORY_CLEANUP_CRON_NAME_def)
  ultimately show ?thesis using s p(5) by blast
qed

theorem startup_spares_living_tasks_witness:
  "cleanupOrphanCronSessions (map (\<lambda>(a, c). task_key a c) [(''a'', ''c'')])
     (Some (\<lambda>_. [(sample_session False)\<lparr>si_purpose := Some ''cron:a:d''\<rparr>, (sample_session False)\<lparr>si_purpose := Some ''cron:a:c''\<rparr>])) = [''s''] \<and>
   (\<exists>s :: CronSessionInfo. si_sessionId s = ''s'' \<and> si_purpose s \<noteq> Some (createCronSessionPurpose ''a'' ''c''))"
proof
  let ?l = "\<lambda>_ :: string. [(sample_session False)\<lparr>si_purpose := Some ''cron:a:d''\<rparr>, (sample_session False)\<lparr>si_purpose := Some ''cron:a:c''\<rparr>]"
  show c: "cleanupOrphanCronSessions (map (\<lambda>(a, c). task_key a c) [(''a'', ''c'')]) (Some ?l) = [''s'']" by code_simp
  have "''s'' \<in> set (cleanupOrphanCronSessions (map (\<lambda>(a, c). task_key a c) [(''a'', ''c'')]) (Some ?l))" unfolding c by simp
  from startup_spares_living_tasks [OF this] obtain s where "s \<in> set (?l ''cron:'')"
    and s: "si_sessionId s = ''s'' \<and> \<not> si_root s \<and>
      (\<forall>(a, c) \<in> set [(''a'', ''c'')]. si_purpose s \<noteq> Some (createCronSessionPurpose a c)) \<and>
      (\<forall>a. a \<noteq> [] \<and> CHR '':'' \<notin> set a \<longrightarrow> si_purpose s \<noteq> Some (createCronSessionPurpose a MEMORY_CLEANUP_CRON_NAME))"
    by (rule bexE)
  have "\<forall>(a, c) \<in> set [(''a'', ''c'')]. si_purpose s \<noteq> Some (createCronSessionPurpose a c)" by (rule s [THEN conjunct2, THEN conjunct2, THEN conjunct1])
  then have "si_purpose s \<noteq> Some (createCronSessionPurpose ''a'' ''c'')" by simp
  with s [THEN conjunct1] show "\<exists>s :: CronSessionInfo. si_sessionId s = ''s'' \<and> si_purpose s \<noteq> Some (createCronSessionPurpose ''a'' ''c'')"
    by blast
qed

text \<open>Deleting a task asks for the deletion of sessions of that very task only, never of a root session, and of every one of them the
  history or the listing knows.\<close>

lemma deletion_is_confined_to_the_task:
  assumes "i \<in> set (cleanupSessionsOnDelete a c records look listing)"
  shows "(\<exists>s. look i = Found s \<and> \<not> si_root s \<and> si_purpose s = Some (createCronSessionPurpose a c)) \<or>
    (\<exists>l s. listing = Some l \<and> s \<in> set (l (createCronSessionPurpose a c)) \<and> si_sessionId s = i \<and> \<not> si_root s \<and>
       si_purpose s = Some (createCronSessionPurpose a c))"
  using assms delete_tracked_sound [of i "createCronSessionPurpose a c" look "[]" "map sr_sessionId records"]
  by (auto simp: cleanupSessionsOnDelete_def delete_untracked_def createCronSessionPurpose_def CRON_SESSION_PURPOSE_PREFIX_def Let_def
      split: option.splits)

end
