(* ===== verification/Cron_Executor.thy ===== *)
theory Cron_Executor
  imports Cron_Sessions Session_Lock
begin

text \<open>
  One run of a cron task (\<^verbatim>\<open>cron/src/executor.ts\<close>, \<^verbatim>\<open>cron/src/report-delivery.ts\<close>): the checks, the choice of the session, the
  history, the busy check and the send, and the delivery of the response.

  A run is split where it first waits: its checks and the change to \<^verbatim>\<open>running\<close> happen at once, the rest later.  What the host answers on the
  way is a script of the run; errors are their messages.  Log output and metrics are left out.
\<close>

section \<open>Tasks\<close>

datatype ScheduleType = CronType | OnceType

record CronConfig =
  cc_disabled :: bool
  cc_schedule :: string
  cc_scheduleType :: ScheduleType
  cc_runAtMs :: "int option"
  cc_deleteAfterRun :: "bool option"
  cc_timezone :: "string option"
  cc_activeHours :: "ActiveHoursConfig option"
  cc_prompt :: string
  cc_session :: SessionConfig
  cc_delivery :: "(string \<times> string) option"
  cc_report_to_root :: "bool option"
  cc_report_to_main :: "bool option"

definition resolveReportToRoot :: "CronConfig \<Rightarrow> bool option" where
  "resolveReportToRoot cfg = (case cc_report_to_root cfg of Some b \<Rightarrow> Some b | None \<Rightarrow> cc_report_to_main cfg)"

datatype CronExecutionStatus = Idle | RunningNow | SkippedNow

datatype LastResult = LastSuccess | LastError | LastSkipped

record CronTaskState =
  ts_agentName :: string
  ts_cronName :: string
  ts_config :: CronConfig
  ts_cronId :: "string option"
  ts_enabled :: bool
  ts_lastRun :: "int option"
  ts_lastResult :: "LastResult option"
  ts_lastError :: "string option"
  ts_nextRun :: "int option"
  ts_status :: CronExecutionStatus

datatype ExecuteReason = RDisabled | ROutsideActiveHours | RInvalidTimezone | RAlreadyRunning | REnqueued | RError

record ExecuteResult =
  er_executed :: bool
  er_reason :: "ExecuteReason option"
  er_sessionId :: "string option"
  er_queuedSend :: "nat option"

text \<open>What the executor makes the host do or tells it.\<close>

datatype CronEffect = SendMessage string string string | EmitTriggered string | EmitCompleted | EmitFailed string

record ExecScript =
  xs_time :: "string + int \<times> int"
  xs_root :: "string + string option"
  xs_session :: "string + bool"
  xs_new :: "string + string"
  xs_history :: "string option"
  xs_status :: "string + bool"
  xs_activeTurn :: bool
  xs_activeSource :: bool
  xs_send :: "string option"
  xs_autoDelivery :: bool
  xs_now :: int

section \<open>A run\<close>

text \<open>The checks; \<^const>\<open>None\<close> lets the run begin.\<close>

definition execute_check :: "string + int \<times> int \<Rightarrow> bool \<Rightarrow> CronTaskState \<Rightarrow> ExecuteReason option" where
  "execute_check localTime force st =
     (if \<not> force \<and> \<not> ts_enabled st then Some RDisabled
      else
        (let hours =
           (if force then None
            else case cc_activeHours (ts_config st) of
                None \<Rightarrow> None
              | Some a \<Rightarrow>
                  (case localTime of
                     Inl _ \<Rightarrow> Some RInvalidTimezone
                   | Inr t \<Rightarrow> if isWithinActiveHours t (Some a) then None else Some ROutsideActiveHours))
         in case hours of
              Some r \<Rightarrow> Some r
            | None \<Rightarrow> if ts_status st = RunningNow then Some RAlreadyRunning else None))"

definition skipped_result :: "ExecuteReason \<Rightarrow> ExecuteResult" where
  "skipped_result r = \<lparr>er_executed = False, er_reason = Some r, er_sessionId = None, er_queuedSend = None\<rparr>"

definition resolve_session :: "ExecScript \<Rightarrow> CronTaskState \<Rightarrow> string + string" where
  "resolve_session x st =
     (case cc_session (ts_config st) of
        RootMode \<Rightarrow>
          (case xs_root x of
             Inl e \<Rightarrow> Inl e
           | Inr None \<Rightarrow> Inl (''No root session found for agent '' @ [CHR 0x27] @ ts_agentName st @ [CHR 0x27])
           | Inr (Some s) \<Rightarrow> Inr s)
      | SessionIdMode sid \<Rightarrow>
          (case xs_session x of
             Inl e \<Rightarrow> Inl e
           | Inr False \<Rightarrow>
               Inl (''Session '' @ [CHR 0x27] @ sid @ [CHR 0x27] @ '' not found for agent '' @ [CHR 0x27] @ ts_agentName st @ [CHR 0x27])
           | Inr True \<Rightarrow> Inr sid)
      | NewMode _ \<Rightarrow> xs_new x)"

definition IM_AUTO_DELIVERY_PROMPT_NOTE :: string where
  "IM_AUTO_DELIVERY_PROMPT_NOTE =
     ''[System: IM delivery is handled automatically after this task completes. Do not send messages to IM/Feishu/Telegram/WeChat yourself.]''"

definition is_new_mode :: "SessionConfig \<Rightarrow> bool" where
  "is_new_mode c = (case c of NewMode _ \<Rightarrow> True | _ \<Rightarrow> False)"

text \<open>The message a send task sends; it reads the task's configuration when it is run.\<close>

definition im_auto_delivery :: "bool \<Rightarrow> CronConfig \<Rightarrow> bool" where
  "im_auto_delivery supportsIm cfg =
     (nullish (resolveReportToRoot cfg) (is_new_mode (cc_session cfg)) \<and> cc_delivery cfg = None \<and> supportsIm)"

definition send_task :: "bool \<Rightarrow> CronTaskState \<Rightarrow> string \<Rightarrow> CronEffect" where
  "send_task supportsIm st sessionId =
     (let cfg = ts_config st in
      SendMessage (ts_agentName st) sessionId
        (if im_auto_delivery supportsIm cfg then cc_prompt cfg @ [CHR 0x0A, CHR 0x0A] @ IM_AUTO_DELIVERY_PROMPT_NOTE else cc_prompt cfg))"

definition session_busy :: "bool \<Rightarrow> ExecScript \<Rightarrow> bool" where
  "session_busy started x = (started \<or> xs_activeTurn x \<or> xs_activeSource x)"

text \<open>What a run gives back: the task, the queue, its result and its effects.\<close>

type_synonym exec_outcome = "CronTaskState \<times> BusyQueue \<times> ExecuteResult \<times> CronEffect list"

definition run_failed :: "ExecScript \<Rightarrow> string option \<Rightarrow> string \<Rightarrow> CronTaskState \<Rightarrow> BusyQueue \<Rightarrow> CronEffect list \<Rightarrow> exec_outcome" where
  "run_failed x sessionId e st q effects =
     (st\<lparr>ts_lastRun := Some (xs_now x), ts_lastResult := Some LastError, ts_lastError := Some e, ts_status := Idle\<rparr>, q,
      \<lparr>er_executed = False, er_reason = Some RError, er_sessionId = sessionId, er_queuedSend = None\<rparr>, effects @ [EmitFailed e])"

definition execute_rest :: "ExecScript \<Rightarrow> CronTaskState \<Rightarrow> BusyQueue \<Rightarrow> exec_outcome" where
  "execute_rest x st q =
     (case resolve_session x st of
        Inl e \<Rightarrow> run_failed x None e st q []
      | Inr sessionId \<Rightarrow>
          (case xs_history x of
             Some e \<Rightarrow> run_failed x (Some sessionId) e st q []
           | None \<Rightarrow>
               (case xs_status x of
                  Inl e \<Rightarrow> run_failed x (Some sessionId) e st q []
                | Inr started \<Rightarrow>
                    if session_busy started x then
                      (st\<lparr>ts_lastRun := Some (xs_now x), ts_lastResult := Some LastSkipped, ts_status := Idle\<rparr>,
                       enqueue (xs_now x) sessionId (ts_agentName st) (ts_cronName st) q,
                       \<lparr>er_executed = False, er_reason = Some REnqueued, er_sessionId = Some sessionId, er_queuedSend = Some (bq_calls q)\<rparr>, [])
                    else
                      (let effects = [EmitTriggered sessionId, send_task (xs_autoDelivery x) st sessionId] in
                       case xs_send x of
                         Some e \<Rightarrow> run_failed x (Some sessionId) e st q effects
                       | None \<Rightarrow>
                           (st\<lparr>ts_lastRun := Some (xs_now x), ts_lastResult := Some LastSuccess, ts_lastError := None, ts_status := Idle\<rparr>, q,
                            \<lparr>er_executed = True, er_reason = None, er_sessionId = Some sessionId, er_queuedSend = None\<rparr>,
                            effects @ [EmitCompleted])))))"

definition execute :: "ExecScript \<Rightarrow> bool \<Rightarrow> CronTaskState \<Rightarrow> BusyQueue \<Rightarrow> exec_outcome" where
  "execute x force st q =
     (case execute_check (xs_time x) force st of
        Some r \<Rightarrow> (st, q, skipped_result r, [])
      | None \<Rightarrow> execute_rest x (st\<lparr>ts_status := RunningNow\<rparr>) q)"

section \<open>Which events drain the queue\<close>

definition drains_queue :: "string \<Rightarrow> string option \<Rightarrow> bool" where
  "drains_queue event source =
     (event = ''session.finish'' \<or> event = ''session.error'' \<and> source = Some ''session-bridge'' \<or>
      event = ''session.abort'' \<and> source \<noteq> Some ''session-service'')"

definition on_session_event :: "int \<Rightarrow> string \<Rightarrow> string option \<Rightarrow> string option \<Rightarrow> BusyQueue \<Rightarrow> BusyQueue" where
  "on_session_event now event source sessionId q =
     (case sessionId of Some sid \<Rightarrow> if drains_queue event source \<and> sid \<noteq> [] then drain now sid q else q | None \<Rightarrow> q)"

section \<open>Responses\<close>

record ResponsePart =
  mp_content :: string
  mp_role :: "string option"
  mp_msgId :: "string option"

record ResponseMessage =
  rm_sessionId :: string
  rm_source :: "string option"
  rm_chunk :: "ResponsePart option"
  rm_full :: "ResponsePart option"
  rm_end :: bool

definition from_agent :: "ResponsePart \<Rightarrow> bool" where
  "from_agent p = (mp_content p \<noteq> [] \<and> (mp_role p = None \<or> mp_role p = Some [] \<or> mp_role p \<noteq> Some ''user''))"

definition has_id :: "ResponsePart \<Rightarrow> bool" where
  "has_id p = (mp_msgId p \<noteq> None \<and> mp_msgId p \<noteq> Some [])"

definition collect_chunk :: "ResponsePart option \<Rightarrow> string \<times> string list \<Rightarrow> string \<times> string list" where
  "collect_chunk chunk acc =
     (case chunk of
        Some p \<Rightarrow>
          if from_agent p then (fst acc @ mp_content p, if has_id p then the (mp_msgId p) # snd acc else snd acc) else acc
      | None \<Rightarrow> acc)"

definition collect_full :: "ResponsePart option \<Rightarrow> string \<times> string list \<Rightarrow> string \<times> string list" where
  "collect_full full acc =
     (case full of
        Some p \<Rightarrow>
          if from_agent p \<and> \<not> (has_id p \<and> the (mp_msgId p) \<in> set (snd acc)) then (fst acc @ mp_content p, snd acc) else acc
      | None \<Rightarrow> acc)"

text \<open>The listener; \<^const>\<open>None\<close> while the turn has not ended.  The timeout of five minutes, which unsubscribes it, is the end of the list.\<close>

fun collect_loop :: "string \<Rightarrow> string \<times> string list \<Rightarrow> ResponseMessage list \<Rightarrow> string option" where
  "collect_loop sessionId acc [] = None"
| "collect_loop sessionId acc (m # ms) =
     (if rm_sessionId m \<noteq> sessionId \<or> rm_source m \<noteq> Some ''cron'' then collect_loop sessionId acc ms
      else
        (let acc' = collect_full (rm_full m) (collect_chunk (rm_chunk m) acc)
         in if rm_end m then Some (js_trim (fst acc')) else collect_loop sessionId acc' ms))"

definition collectCronTurnText :: "string \<Rightarrow> ResponseMessage list \<Rightarrow> string option" where
  "collectCronTurnText sessionId = collect_loop sessionId ([], [])"

text \<open>The deliveries that are attempted, as client and chat.\<close>

definition deliverToChannel :: "(string \<times> string) \<Rightarrow> string \<Rightarrow> (string \<Rightarrow> bool) option \<Rightarrow> (string \<times> string) list" where
  "deliverToChannel delivery content running =
     (case running of Some r \<Rightarrow> if content \<noteq> [] \<and> r (fst delivery) then [delivery] else [] | None \<Rightarrow> [])"

fun deliver_loop :: "(string \<Rightarrow> bool) \<Rightarrow> string list \<Rightarrow> (string \<times> string) list \<Rightarrow> (string \<times> string) list" where
  "deliver_loop running seen [] = []"
| "deliver_loop running seen ((clientName, chatId) # bs) =
     (if clientName = [] \<or> chatId = [] then deliver_loop running seen bs
      else
        (let dedupeKey = clientName @ [CHR 0x00] @ chatId in
         if dedupeKey \<in> set seen then deliver_loop running seen bs
         else if running clientName then (clientName, chatId) # deliver_loop running (dedupeKey # seen) bs
         else deliver_loop running (dedupeKey # seen) bs))"

definition deliverToAllBoundChannels :: "string \<Rightarrow> (string \<times> string) list option \<Rightarrow> (string \<Rightarrow> bool) \<Rightarrow> (string \<times> string) list" where
  "deliverToAllBoundChannels content bindings running =
     (case bindings of Some bs \<Rightarrow> if content = [] then [] else deliver_loop running [] bs | None \<Rightarrow> [])"

section \<open>The history lock\<close>

text \<open>
  \<^verbatim>\<open>runUnderHistoryLock\<close> chains promises per key in the way the session lock of the context manager does, so a call of it is a call of
  that lock under the task's key.
\<close>

definition history_key :: "string \<Rightarrow> string \<Rightarrow> string" where
  "history_key agentName cronName = agentName @ [CHR 0x00] @ cronName"

definition runUnderHistoryLock :: "string \<Rightarrow> string \<Rightarrow> LockState \<Rightarrow> LockState" where
  "runUnderHistoryLock agentName cronName = lock_call (history_key agentName cronName)"

section \<open>Runs of one task\<close>

text \<open>Runs of a task begin and end, its configuration is changed, and the queue moves, in any order.\<close>

record TaskRuns =
  tr_state :: CronTaskState
  tr_queue :: BusyQueue
  tr_inFlight :: nat

inductive run_step :: "TaskRuns \<Rightarrow> TaskRuns \<Rightarrow> bool" where
  run_begins: "execute_check localTime force (tr_state r) = None \<Longrightarrow>
     run_step r (r\<lparr>tr_state := (tr_state r)\<lparr>ts_status := RunningNow\<rparr>, tr_inFlight := Suc (tr_inFlight r)\<rparr>)"
| run_ends: "tr_inFlight r = Suc n \<Longrightarrow> execute_rest x (tr_state r) (tr_queue r) = (st, q, res, effects) \<Longrightarrow>
     run_step r \<lparr>tr_state = st, tr_queue = q, tr_inFlight = n\<rparr>"
| config_changes: "run_step r (r\<lparr>tr_state := (tr_state r)\<lparr>ts_config := c, ts_enabled := b, ts_nextRun := next\<rparr>\<rparr>)"
| queue_moves: "queue_step (tr_queue r) q \<Longrightarrow> run_step r (r\<lparr>tr_queue := q\<rparr>)"

definition runs_ok :: "TaskRuns \<Rightarrow> bool" where
  "runs_ok r \<longleftrightarrow> tr_inFlight r \<le> 1 \<and> (ts_status (tr_state r) = RunningNow \<longleftrightarrow> tr_inFlight r = 1)"

lemma check_not_running: "execute_check t force st = None \<Longrightarrow> ts_status st \<noteq> RunningNow"
  by (auto simp: execute_check_def Let_def split: if_splits option.splits sum.splits)

lemma rest_ends_idle: "execute_rest x st q = (st', q', res, effects) \<Longrightarrow> ts_status st' = Idle"
  by (auto simp: execute_rest_def run_failed_def Let_def split: sum.splits option.splits if_splits)

lemma runs_ok_step: "run_step r r' \<Longrightarrow> runs_ok r \<Longrightarrow> runs_ok r'"
proof (induction rule: run_step.induct)
  case (run_begins t force r)
  then show ?case using check_not_running [of t force "tr_state r"] by (auto simp: runs_ok_def)
next
  case (run_ends r n x st q res effects)
  then show ?case using rest_ends_idle [OF run_ends(2)] by (auto simp: runs_ok_def)
qed (auto simp: runs_ok_def)

lemma names_kept:
  "execute_rest x st q = (st', q', res, effects) \<Longrightarrow>
   ts_agentName st' = ts_agentName st \<and> ts_cronName st' = ts_cronName st \<and> ts_config st' = ts_config st \<and> ts_enabled st' = ts_enabled st"
  by (auto simp: execute_rest_def run_failed_def Let_def split: sum.splits option.splits if_splits)

section \<open>Theorems about runs\<close>

text \<open>However runs of a task begin and end, and whatever else happens to its configuration and the queue meanwhile, no two runs of it
  are under way at once, and its status says whether one is.\<close>

theorem runs_of_a_task_do_not_overlap:
  assumes "run_step\<^sup>*\<^sup>* \<lparr>tr_state = st, tr_queue = q, tr_inFlight = 0\<rparr> r" "ts_status st \<noteq> RunningNow"
  shows "tr_inFlight r \<le> 1 \<and> (ts_status (tr_state r) = RunningNow \<longleftrightarrow> tr_inFlight r = 1)"
proof -
  have "runs_ok r"
    using assms(1) by (induction rule: rtranclp_induct) (use assms(2) runs_ok_step in \<open>auto simp: runs_ok_def\<close>)
  then show ?thesis by (simp add: runs_ok_def)
qed

definition sample_config :: CronConfig where
  "sample_config = \<lparr>cc_disabled = False, cc_schedule = ''0 9 * * *'', cc_scheduleType = CronType, cc_runAtMs = None, cc_deleteAfterRun = None, cc_timezone = None,
     cc_activeHours = None, cc_prompt = ''report'', cc_session = SessionIdMode ''s'', cc_delivery = None, cc_report_to_root = None,
     cc_report_to_main = None\<rparr>"

definition sample_task :: CronTaskState where
  "sample_task = \<lparr>ts_agentName = ''a'', ts_cronName = ''c'', ts_config = sample_config, ts_cronId = None, ts_enabled = True, ts_lastRun = None,
     ts_lastResult = None, ts_lastError = None, ts_nextRun = None, ts_status = Idle\<rparr>"

definition sample_script :: "bool \<Rightarrow> ExecScript" where
  "sample_script busy = \<lparr>xs_time = Inr (9, 0), xs_root = Inr None, xs_session = Inr True, xs_new = Inl [], xs_history = None, xs_status = Inr False,
     xs_activeTurn = busy, xs_activeSource = False, xs_send = None, xs_autoDelivery = False, xs_now = 7\<rparr>"

definition sample_runs :: "CronExecutionStatus \<Rightarrow> nat \<Rightarrow> TaskRuns" where
  "sample_runs status n = \<lparr>tr_state = sample_task\<lparr>ts_status := status\<rparr>, tr_queue = new_queue, tr_inFlight = n\<rparr>"

theorem runs_of_a_task_do_not_overlap_witness:
  "run_step\<^sup>*\<^sup>* (sample_runs Idle 0) (sample_runs RunningNow 1) \<and> tr_inFlight (sample_runs RunningNow 1) \<le> 1 \<and>
   execute_check (Inr (9, 0)) False (tr_state (sample_runs RunningNow 1)) = Some RAlreadyRunning"
proof -
  have "execute_check (Inr (9, 0)) False (tr_state (sample_runs Idle 0)) = None" by code_simp
  from run_begins [OF this] have "run_step (sample_runs Idle 0) (sample_runs RunningNow 1)" by (simp add: sample_runs_def)
  then have r: "run_step\<^sup>*\<^sup>* (sample_runs Idle 0) (sample_runs RunningNow 1)" by (rule r_into_rtranclp)
  have "tr_inFlight (sample_runs RunningNow 1) \<le> 1"
    using runs_of_a_task_do_not_overlap [OF r [unfolded sample_runs_def [of Idle]]] by simp
  moreover have "execute_check (Inr (9, 0)) False (tr_state (sample_runs RunningNow 1)) = Some RAlreadyRunning" by code_simp
  ultimately show ?thesis using r by blast
qed

text \<open>C7: How a run ends.  A run that is not let begin changes nothing.  Any other ends idle with one of three results: it has sent its
  message to a session that was not busy, it has queued its message for a busy session and sent nothing, or it has failed and says so in the
  task, in its result and in an event; in the last two cases the queue changes only as told.\<close>

theorem runs_end_in_one_of_four_ways:
  assumes "execute x force st q = (st', q', res, effects)"
  shows "(\<exists>reason. execute_check (xs_time x) force st = Some reason \<and> (st', q', res, effects) = (st, q, skipped_result reason, [])) \<or>
    execute_check (xs_time x) force st = None \<and> ts_status st' = Idle \<and> ts_lastRun st' = Some (xs_now x) \<and>
    ((\<exists>sid started. er_executed res \<and> er_sessionId res = Some sid \<and> ts_lastResult st' = Some LastSuccess \<and> ts_lastError st' = None \<and> q' = q \<and>
        xs_status x = Inr started \<and> \<not> session_busy started x \<and>
        effects = [EmitTriggered sid, send_task (xs_autoDelivery x) st sid, EmitCompleted]) \<or>
     (\<exists>sid started. \<not> er_executed res \<and> er_reason res = Some REnqueued \<and> er_sessionId res = Some sid \<and> er_queuedSend res = Some (bq_calls q) \<and>
        ts_lastResult st' = Some LastSkipped \<and> xs_status x = Inr started \<and> session_busy started x \<and> effects = [] \<and>
        q' = enqueue (xs_now x) sid (ts_agentName st) (ts_cronName st) q) \<or>
     (\<exists>e. \<not> er_executed res \<and> er_reason res = Some RError \<and> ts_lastResult st' = Some LastError \<and> ts_lastError st' = Some e \<and> q' = q \<and>
        last effects = EmitFailed e))"
proof (cases "execute_check (xs_time x) force st")
  case (Some reason)
  then show ?thesis using assms by (auto simp: execute_def)
next
  case None
  have sent: "send_task b (st\<lparr>ts_status := RunningNow\<rparr>) sid = send_task b st sid" for b sid by (simp add: send_task_def)
  show ?thesis using assms None
    by (auto simp: execute_def execute_rest_def run_failed_def sent Let_def split: sum.splits option.splits if_splits)
qed

theorem runs_end_in_one_of_four_ways_witness:
  "\<exists>st' q' res effects. execute (sample_script True) False sample_task new_queue = (st', q', res, effects) \<and>
     er_queuedSend res = Some 0 \<and> ts_status st' = Idle \<and> effects = []"
proof -
  obtain st' q' res effects where e: "execute (sample_script True) False sample_task new_queue = (st', q', res, effects)"
    by (metis prod_cases4)
  have c: "execute_check (xs_time (sample_script True)) False sample_task = None" by code_simp
  have b: "session_busy False (sample_script True)" "xs_status (sample_script True) = Inr False"
    by (simp_all add: session_busy_def sample_script_def)
  have "er_reason (fst (snd (snd (execute (sample_script True) False sample_task new_queue)))) = Some REnqueued" by code_simp
  then have r: "er_reason res = Some REnqueued" by (simp add: e)
  have "er_queuedSend res = Some (bq_calls new_queue) \<and> ts_status st' = Idle \<and> effects = []"
    using runs_end_in_one_of_four_ways [OF e] c r b by auto
  then show ?thesis using e by (simp add: new_queue_def)
qed

lemma enqueue_in_drain:
  assumes "now - t0 < TTL_MS"
  shows "bq_calls q \<in> set (map qd_ticket (last (bq_drains (drain now s (enqueue t0 s a c q)))))"
proof -
  let ?e = "\<lparr>qd_ticket = bq_calls q, qd_enqueuedAt = t0, qd_agentName = a, qd_cronName = c, qd_sessionId = s\<rparr>"
  have "map_of (bq_queue (enqueue t0 s a c q)) (queue_key s a c) = Some ?e" by (simp add: enqueue_def Let_def)
  then have "(queue_key s a c, ?e) \<in> set (bq_queue (enqueue t0 s a c q))" by (rule map_of_SomeD)
  then have "?e \<in> set (filter (fresh now) (filter (\<lambda>e. qd_sessionId e = s) (map snd (bq_queue (enqueue t0 s a c q)))))"
    using assms by (force simp: fresh_def)
  then show ?thesis by (force simp: drain_def Let_def)
qed

text \<open>A message that a run has queued for a busy session is sent when the session's turn ends: the end of the turn, within half an hour,
  starts a drain that holds it, whichever of the events the executor listens to reports it.\<close>

theorem queued_run_is_drained_when_the_turn_ends:
  assumes "execute x force st q = (st', q', res, effects)" "er_queuedSend res = Some ticket" "er_sessionId res = Some sid" "sid \<noteq> []"
    "drains_queue event source" "now - xs_now x < TTL_MS"
  shows "ticket \<in> set (map qd_ticket (last (bq_drains (on_session_event now event source (Some sid) q'))))"
proof -
  have "q' = enqueue (xs_now x) sid (ts_agentName st) (ts_cronName st) q \<and> ticket = bq_calls q"
    using assms(1-3)
    by (auto simp: execute_def execute_rest_def run_failed_def skipped_result_def Let_def split: sum.splits option.splits if_splits)
  then show ?thesis using enqueue_in_drain [OF assms(6)] assms(4,5) by (simp add: on_session_event_def)
qed

theorem queued_run_is_drained_when_the_turn_ends_witness:
  "\<exists>q'. q' = fst (snd (execute (sample_script True) False sample_task new_queue)) \<and>
     0 \<in> set (map qd_ticket (last (bq_drains (on_session_event 9 ''session.finish'' None (Some ''s'') q'))))"
proof -
  obtain st' q' res effects where e: "execute (sample_script True) False sample_task new_queue = (st', q', res, effects)"
    by (metis prod_cases4)
  have "er_queuedSend (fst (snd (snd (execute (sample_script True) False sample_task new_queue)))) = Some 0"
    "er_sessionId (fst (snd (snd (execute (sample_script True) False sample_task new_queue)))) = Some ''s''" by code_simp+
  then have r: "er_queuedSend res = Some 0" "er_sessionId res = Some ''s''" by (simp_all add: e)
  have "drains_queue ''session.finish'' None" "9 - xs_now (sample_script True) < TTL_MS"
    by (simp_all add: drains_queue_def sample_script_def TTL_MS_def)
  from queued_run_is_drained_when_the_turn_ends [OF e r _ this] show ?thesis using e by simp
qed

section \<open>Deliveries and history\<close>

lemma deliver_loop_sound:
  "(n, i) \<in> set (deliver_loop running seen bs) \<Longrightarrow> (n, i) \<in> set bs \<and> running n \<and> n \<noteq> [] \<and> i \<noteq> [] \<and> n @ [CHR 0x00] @ i \<notin> set seen"
  by (induction running seen bs rule: deliver_loop.induct) (auto simp: Let_def split: if_splits)

text \<open>A result reaches each chat once, and only running channels of the agent's bindings.\<close>

lemma each_chat_gets_one_copy:
  "distinct (deliverToAllBoundChannels content bindings running)"
  "(n, i) \<in> set (deliverToAllBoundChannels content (Some bs) running) \<Longrightarrow> (n, i) \<in> set bs \<and> running n"
proof -
  have "distinct (deliver_loop running seen bs)" for seen bs
  proof (induction running seen bs rule: deliver_loop.induct)
    case (2 running seen n i bs)
    then show ?case using deliver_loop_sound [of n i running "(n @ [CHR 0x00] @ i) # seen" bs] by (auto simp: Let_def)
  qed simp
  then show "distinct (deliverToAllBoundChannels content bindings running)"
    by (simp add: deliverToAllBoundChannels_def split: option.split)
  show "(n, i) \<in> set (deliverToAllBoundChannels content (Some bs) running) \<Longrightarrow> (n, i) \<in> set bs \<and> running n"
    using deliver_loop_sound [of n i running "[]" bs] by (auto simp: deliverToAllBoundChannels_def split: if_splits)
qed

lemma history_key_inj:
  "CHR 0x00 \<notin> set a \<Longrightarrow> CHR 0x00 \<notin> set a' \<Longrightarrow> history_key a c = history_key a' c' \<longleftrightarrow> (a, c) = (a', c')"
  by (simp add: history_key_def append_sep_eq)

text \<open>Of two accesses to the history of one task, the earlier one is over before the later one begins.\<close>

lemma history_accesses_are_serialised:
  assumes "lock_reachable s" "t < length (lk_calls s)" "u < t" "lc_session (lk_calls s ! u) = history_key a c"
    "lc_session (lk_calls s ! t) = history_key a c" "lc_phase (lk_calls s ! t) \<noteq> Waiting"
  shows "lc_phase (lk_calls s ! u) = Released"
  using reachable_ok [OF assms(1)] in_orderD(1) [of s t u] assms(2-) by (simp add: lock_ok_def)

end
