(* ===== verification/Cron_Registry.thy ===== *)
theory Cron_Registry
  imports Cron_Executor
begin

text \<open>
  The registry of cron tasks and their timers (\<^verbatim>\<open>cron/src/registry.ts\<close>).

  The entries of the registry are objects that an operation may hold on to while it waits, so they live in a heap, and the map of tasks
  refers to them; a timer refers to the entry whose state its callback closes over.  Operations that wait are split there.  The
  scheduler is a parameter: which configurations it can make a timer for, and the next run of a configuration.  The store's answers are
  arguments of the second halves.
\<close>

section \<open>The registry\<close>

record CronJob =
  jb_config :: CronConfig
  jb_entry :: nat
  jb_live :: bool

record TaskEntry =
  en_state :: CronTaskState
  en_job :: nat

datatype CronEvent = CronCreated string string | CronUpdated string string | CronDeleted string string

record CronRegistry =
  rk_tasks :: "(string \<times> nat) list"
  rk_entries :: "TaskEntry list"
  rk_jobs :: "CronJob list"
  rk_globalEnabled :: bool
  rk_events :: "CronEvent list"

record Scheduler =
  sc_creates :: "CronConfig \<Rightarrow> bool"
  sc_assert :: "CronConfig \<Rightarrow> string option"
  sc_nextRun :: "CronConfig \<Rightarrow> int option"

datatype CronError = CronTaskNotFound | CronTaskExists | ValidationError string | ScheduleRejected | StoreFailed string

definition new_cron_registry :: CronRegistry where
  "new_cron_registry = \<lparr>rk_tasks = [], rk_entries = [], rk_jobs = [], rk_globalEnabled = True, rk_events = []\<rparr>"

definition entry_of :: "CronRegistry \<Rightarrow> string \<Rightarrow> string \<Rightarrow> nat option" where
  "entry_of R agentName cronName = map_of (rk_tasks R) (task_key agentName cronName)"

definition new_task_state :: "string \<Rightarrow> string \<Rightarrow> CronConfig \<Rightarrow> string option \<Rightarrow> bool \<Rightarrow> int option \<Rightarrow> CronTaskState" where
  "new_task_state agentName cronName config cronId enabled next =
     \<lparr>ts_agentName = agentName, ts_cronName = cronName, ts_config = config,
      ts_cronId = (case cronId of Some i \<Rightarrow> if i = [] then None else Some i | None \<Rightarrow> None),
      ts_enabled = enabled, ts_lastRun = None, ts_lastResult = None, ts_lastError = None, ts_nextRun = next, ts_status = Idle\<rparr>"

definition stop_job :: "nat \<Rightarrow> CronRegistry \<Rightarrow> CronRegistry" where
  "stop_job j R = R\<lparr>rk_jobs := (rk_jobs R)[j := (rk_jobs R ! j)\<lparr>jb_live := False\<rparr>]\<rparr>"

definition emit_cron :: "CronEvent \<Rightarrow> CronRegistry \<Rightarrow> CronRegistry" where
  "emit_cron e R = R\<lparr>rk_events := rk_events R @ [e]\<rparr>"

text \<open>A new entry with its timer, if the scheduler takes the configuration.\<close>

definition add_task :: "Scheduler \<Rightarrow> string \<Rightarrow> string \<Rightarrow> CronConfig \<Rightarrow> string option \<Rightarrow> bool \<Rightarrow> CronRegistry \<Rightarrow> CronRegistry option" where
  "add_task sc agentName cronName config cronId enabled R =
     (if \<not> sc_creates sc config then None
      else
        (let e = length (rk_entries R); j = length (rk_jobs R) in
         Some (R\<lparr>rk_jobs := rk_jobs R @ [\<lparr>jb_config = config, jb_entry = e, jb_live = True\<rparr>],
                 rk_entries := rk_entries R @ [\<lparr>en_state = new_task_state agentName cronName config cronId enabled (sc_nextRun sc config), en_job = j\<rparr>],
                 rk_tasks := AList.update (task_key agentName cronName) e (rk_tasks R)\<rparr>)))"

text \<open>A new timer for an entry: it is made before the old one is stopped.\<close>

definition replace_job :: "Scheduler \<Rightarrow> nat \<Rightarrow> CronConfig \<Rightarrow> CronRegistry \<Rightarrow> CronRegistry option" where
  "replace_job sc e config R =
     (if \<not> sc_creates sc config then None
      else
        (let old = en_job (rk_entries R ! e); j = length (rk_jobs R);
             R1 = stop_job old (R\<lparr>rk_jobs := rk_jobs R @ [\<lparr>jb_config = config, jb_entry = e, jb_live = True\<rparr>]\<rparr>)
         in Some (R1\<lparr>rk_entries := (rk_entries R)[e := (rk_entries R ! e)
               \<lparr>en_job := j, en_state := (en_state (rk_entries R ! e))\<lparr>ts_nextRun := sc_nextRun sc config\<rparr>\<rparr>]\<rparr>)))"

definition set_config :: "nat \<Rightarrow> CronConfig \<Rightarrow> CronRegistry \<Rightarrow> CronRegistry" where
  "set_config e config R =
     R\<lparr>rk_entries := (rk_entries R)[e := (rk_entries R ! e)
         \<lparr>en_state := (en_state (rk_entries R ! e))\<lparr>ts_config := config, ts_enabled := \<not> cc_disabled config\<rparr>\<rparr>]\<rparr>"

definition remove_task :: "string \<Rightarrow> nat \<Rightarrow> CronRegistry \<Rightarrow> CronRegistry" where
  "remove_task key e R = (stop_job (en_job (rk_entries R ! e)) R)\<lparr>rk_tasks := AList.delete key (rk_tasks R)\<rparr>"

section \<open>Operations\<close>

record CronLoadResult =
  lr_agentName :: string
  lr_cronName :: string
  lr_config :: CronConfig
  lr_configPath :: string
  lr_cronId :: "string option"

definition start_one :: "Scheduler \<Rightarrow> bool \<Rightarrow> CronLoadResult \<Rightarrow> CronRegistry \<Rightarrow> CronRegistry" where
  "start_one sc quarantined l R =
     (case add_task sc (lr_agentName l) (lr_cronName l) (lr_config l) (lr_cronId l) (\<not> quarantined \<and> \<not> cc_disabled (lr_config l)) R of
        Some R' \<Rightarrow> R'
      | None \<Rightarrow> R)"

definition registry_start :: "Scheduler \<Rightarrow> bool \<Rightarrow> CronLoadResult list \<Rightarrow> CronRegistry \<Rightarrow> CronRegistry" where
  "registry_start sc quarantined configs R = fold (start_one sc quarantined) configs R"

definition alive_keys :: "CronLoadResult list \<Rightarrow> string list" where
  "alive_keys configs = map (\<lambda>l. task_key (lr_agentName l) (lr_cronName l)) configs"

text \<open>The tasks whose history the sweep at startup and after a finished turn cleans, unless the store fails.\<close>

definition cleanupAllCronSessions :: "CronLoadResult list option \<Rightarrow> (string \<times> string) list" where
  "cleanupAllCronSessions configs =
     (case configs of
        None \<Rightarrow> []
      | Some ls \<Rightarrow> map (\<lambda>l. (lr_agentName l, lr_cronName l)) (filter (\<lambda>l. is_new_mode (cc_session (lr_config l))) ls))"

definition registry_stop :: "CronRegistry \<Rightarrow> CronRegistry" where
  "registry_stop R = (fold (\<lambda>(k, e). stop_job (en_job (rk_entries R ! e))) (rk_tasks R) R)\<lparr>rk_tasks := []\<rparr>"

text \<open>A read refreshes the time of the next run.\<close>

definition read_state :: "Scheduler \<Rightarrow> CronRegistry \<Rightarrow> nat \<Rightarrow> CronTaskState" where
  "read_state sc R e =
     (let en = rk_entries R ! e in (en_state en)\<lparr>ts_nextRun := sc_nextRun sc (jb_config (rk_jobs R ! en_job en))\<rparr>)"

definition getTask :: "Scheduler \<Rightarrow> string \<Rightarrow> string \<Rightarrow> CronRegistry \<Rightarrow> CronTaskState option" where
  "getTask sc agentName cronName R = map_option (read_state sc R) (entry_of R agentName cronName)"

definition listAllTasks :: "Scheduler \<Rightarrow> CronRegistry \<Rightarrow> CronTaskState list" where
  "listAllTasks sc R = map (\<lambda>(k, e). read_state sc R e) (rk_tasks R)"

definition listTasks :: "Scheduler \<Rightarrow> string \<Rightarrow> CronRegistry \<Rightarrow> CronTaskState list" where
  "listTasks sc agentName R = filter (\<lambda>st. ts_agentName st = agentName) (listAllTasks sc R)"

definition setGlobalEnabled :: "bool \<Rightarrow> CronRegistry \<Rightarrow> CronRegistry" where
  "setGlobalEnabled b R = R\<lparr>rk_globalEnabled := b\<rparr>"

text \<open>The entry whose task a firing timer runs.\<close>

definition on_tick :: "nat \<Rightarrow> CronRegistry \<Rightarrow> nat option" where
  "on_tick j R = (if jb_live (rk_jobs R ! j) \<and> rk_globalEnabled R then Some (jb_entry (rk_jobs R ! j)) else None)"

record CronConfigUpdate =
  cu_disabled :: "bool option"
  cu_schedule :: "string option"
  cu_scheduleType :: "ScheduleType option"
  cu_runAtMs :: "int nullable"
  cu_deleteAfterRun :: "bool nullable"
  cu_timezone :: "string nullable"
  cu_activeHours :: "ActiveHoursConfig nullable"
  cu_prompt :: "string option"
  cu_session :: "SessionConfig option"
  cu_delivery :: "(string \<times> string) nullable"
  cu_report_to_root :: "bool nullable"
  cu_report_to_main :: "bool nullable"

definition applyCronScheduleUpdate :: "CronConfig \<Rightarrow> CronConfigUpdate \<Rightarrow> CronConfig" where
  "applyCronScheduleUpdate config u =
     config\<lparr>cc_schedule := nullish (cu_schedule u) (cc_schedule config),
            cc_timezone := (case cu_timezone u of Undefined \<Rightarrow> cc_timezone config | Null \<Rightarrow> None | Val tz \<Rightarrow> Some tz)\<rparr>"

definition needs_recreate :: "CronConfigUpdate \<Rightarrow> bool" where
  "needs_recreate u = (cu_schedule u \<noteq> None \<or> cu_timezone u \<noteq> Undefined)"

definition assertCronConfigSchedulable :: "Scheduler \<Rightarrow> CronConfig \<Rightarrow> CronError option" where
  "assertCronConfigSchedulable sc config = map_option ValidationError (sc_assert sc config)"

text \<open>An update up to its wait for the store gives the entry it will change; a missing task is no error.\<close>

definition updateConfig_begin :: "Scheduler \<Rightarrow> string \<Rightarrow> string \<Rightarrow> CronConfigUpdate \<Rightarrow> CronRegistry \<Rightarrow> CronError + nat option" where
  "updateConfig_begin sc agentName cronName u R =
     (case entry_of R agentName cronName of
        None \<Rightarrow> Inr None
      | Some e \<Rightarrow>
          (case (if needs_recreate u
                 then assertCronConfigSchedulable sc (applyCronScheduleUpdate (ts_config (en_state (rk_entries R ! e))) u) else None) of
             Some err \<Rightarrow> Inl err
           | None \<Rightarrow> Inr (Some e)))"

definition updateConfig_end :: "Scheduler \<Rightarrow> string \<Rightarrow> string \<Rightarrow> nat \<Rightarrow> CronConfigUpdate \<Rightarrow> CronConfig \<Rightarrow> CronRegistry \<Rightarrow> CronRegistry \<times> CronError option" where
  "updateConfig_end sc agentName cronName e u newConfig R =
     (if needs_recreate u then
        (case replace_job sc e newConfig R of
           None \<Rightarrow> (R, Some ScheduleRejected)
         | Some R' \<Rightarrow> (emit_cron (CronUpdated agentName cronName) (set_config e newConfig R'), None))
      else (emit_cron (CronUpdated agentName cronName) (set_config e newConfig R), None))"

definition createTask_begin :: "Scheduler \<Rightarrow> string \<Rightarrow> string \<Rightarrow> CronConfig \<Rightarrow> CronRegistry \<Rightarrow> CronError option" where
  "createTask_begin sc agentName cronName config R =
     (if entry_of R agentName cronName \<noteq> None then Some CronTaskExists else assertCronConfigSchedulable sc config)"

definition createTask_end :: "Scheduler \<Rightarrow> string \<Rightarrow> string \<Rightarrow> CronConfig \<Rightarrow> string option \<Rightarrow> CronRegistry \<Rightarrow> CronRegistry \<times> CronError option" where
  "createTask_end sc agentName cronName config cronId R =
     (case add_task sc agentName cronName config cronId (\<not> cc_disabled config) R of
        None \<Rightarrow> (R, Some ScheduleRejected)
      | Some R' \<Rightarrow> (emit_cron (CronCreated agentName cronName) R', None))"

text \<open>
  A deletion up to its first wait.  At its end the store has deleted the task's files, and the event follows, or the store has failed
  (\<open>stored\<close> is its message) and so does the call; the task is gone from the registry either way.
\<close>

definition deleteTask_begin :: "string \<Rightarrow> string \<Rightarrow> CronRegistry \<Rightarrow> BusyQueue \<Rightarrow> CronRegistry \<times> BusyQueue \<times> bool" where
  "deleteTask_begin agentName cronName R q =
     (case entry_of R agentName cronName of
        None \<Rightarrow> (R, q, False)
      | Some e \<Rightarrow> (remove_task (task_key agentName cronName) e R, fst (removeCron agentName cronName q), True))"

definition deleteTask_end :: "string \<Rightarrow> string \<Rightarrow> string option \<Rightarrow> CronRegistry \<Rightarrow> CronRegistry \<times> CronError option" where
  "deleteTask_end agentName cronName stored R =
     (case stored of
        Some msg \<Rightarrow> (R, Some (StoreFailed msg))
      | None \<Rightarrow> (emit_cron (CronDeleted agentName cronName) R, None))"

text \<open>The completion of a once task in the same two halves; the first says whether there is a second.\<close>

definition completeOnceTask_begin :: "string \<Rightarrow> string \<Rightarrow> CronRegistry \<Rightarrow> CronRegistry \<times> bool" where
  "completeOnceTask_begin agentName cronName R =
     (case entry_of R agentName cronName of
        None \<Rightarrow> (R, False)
      | Some e \<Rightarrow>
          (let config = ts_config (en_state (rk_entries R ! e)) in
           if cc_scheduleType config \<noteq> OnceType \<or> cc_deleteAfterRun config = Some False then (R, False)
           else (remove_task (task_key agentName cronName) e R, True)))"

definition completeOnceTask_end :: "string \<Rightarrow> string \<Rightarrow> string option \<Rightarrow> CronRegistry \<Rightarrow> CronRegistry \<times> CronError option" where
  "completeOnceTask_end agentName cronName stored R =
     (case stored of
        Some msg \<Rightarrow> (R, Some (StoreFailed msg))
      | None \<Rightarrow> (emit_cron (CronDeleted agentName cronName) R, None))"

text \<open>Whether a run of a once task completes it: at once, when its queued message has been sent, or not.\<close>

datatype Completion = CompleteNow | CompleteWhenSent nat | NotComplete

definition completeOnceAfterExecution :: "ExecuteResult \<Rightarrow> Completion" where
  "completeOnceAfterExecution r =
     (if er_executed r then CompleteNow
      else if er_reason r = Some REnqueued then (case er_queuedSend r of Some t \<Rightarrow> CompleteWhenSent t | None \<Rightarrow> NotComplete)
      else NotComplete)"

definition register_one :: "Scheduler \<Rightarrow> CronLoadResult \<Rightarrow> CronRegistry \<Rightarrow> CronRegistry" where
  "register_one sc l R =
     (let a = lr_agentName l; c = lr_cronName l; config = lr_config l in
      case entry_of R a c of
        Some e \<Rightarrow>
          (let old = ts_config (en_state (rk_entries R ! e)) in
           if cc_schedule old \<noteq> cc_schedule config \<or> cc_timezone old \<noteq> cc_timezone config then
             (case replace_job sc e config R of None \<Rightarrow> R | Some R' \<Rightarrow> emit_cron (CronUpdated a c) (set_config e config R'))
           else emit_cron (CronUpdated a c) (set_config e config R))
      | None \<Rightarrow>
          (case add_task sc a c config (lr_cronId l) (\<not> cc_disabled config) R of
             None \<Rightarrow> R
           | Some R' \<Rightarrow> emit_cron (CronCreated a c) R'))"

definition registerHarnessCrons :: "Scheduler \<Rightarrow> CronLoadResult list \<Rightarrow> CronRegistry \<Rightarrow> CronRegistry" where
  "registerHarnessCrons sc configs R = fold (register_one sc) configs R"

definition of_harness :: "string \<Rightarrow> string \<Rightarrow> bool" where
  "of_harness harnessName key = (js_starts_with key (harnessName @ '':'') \<or> js_starts_with key (harnessName @ ''--''))"

definition unregister_one :: "CronTaskState \<Rightarrow> CronRegistry \<Rightarrow> CronRegistry" where
  "unregister_one st R =
     (case entry_of R (ts_agentName st) (ts_cronName st) of
        None \<Rightarrow> R
      | Some e \<Rightarrow> emit_cron (CronDeleted (ts_agentName st) (ts_cronName st)) (remove_task (task_key (ts_agentName st) (ts_cronName st)) e R))"

definition unregisterHarnessCrons :: "string \<Rightarrow> CronRegistry \<Rightarrow> CronRegistry" where
  "unregisterHarnessCrons harnessName R =
     fold unregister_one (map (\<lambda>(k, e). en_state (rk_entries R ! e)) (filter (\<lambda>(k, e). of_harness harnessName k) (rk_tasks R))) R"

definition set_state :: "nat \<Rightarrow> CronTaskState \<Rightarrow> CronRegistry \<Rightarrow> CronRegistry" where
  "set_state e st R = R\<lparr>rk_entries := (rk_entries R)[e := (rk_entries R ! e)\<lparr>en_state := st\<rparr>]\<rparr>"

text \<open>
  A run of an entry's task begins with its checks and the change to \<open>running\<close>, unless a check ends it at once, and goes on later, when other
  operations may have changed the entry or taken it out of the map; it still holds the entry.  The executor's waits after the first are taken
  together, and all of the configuration is read there, also the session mode, which the code reads when the run begins.
\<close>

definition run_begin :: "string + int \<times> int \<Rightarrow> bool \<Rightarrow> nat \<Rightarrow> CronRegistry \<Rightarrow> ExecuteResult + CronRegistry" where
  "run_begin localTime force e R =
     (let st = en_state (rk_entries R ! e) in
      case execute_check localTime force st of
        Some r \<Rightarrow> Inl (skipped_result r)
      | None \<Rightarrow> Inr (set_state e (st\<lparr>ts_status := RunningNow\<rparr>) R))"

definition run_end :: "ExecScript \<Rightarrow> nat \<Rightarrow> CronRegistry \<Rightarrow> BusyQueue \<Rightarrow> CronRegistry \<times> BusyQueue \<times> ExecuteResult \<times> CronEffect list" where
  "run_end x e R q =
     (case execute_rest x (en_state (rk_entries R ! e)) q of
        (st, q', res, effects) \<Rightarrow> (set_state e st R, q', res, effects))"

text \<open>
  What follows a run: a once task that has run is completed, under the name it ran under.  The result says whether the store is awaited.
\<close>

definition after_run :: "string \<Rightarrow> string \<Rightarrow> nat \<Rightarrow> ExecuteResult \<Rightarrow> CronRegistry \<Rightarrow> CronRegistry \<times> bool" where
  "after_run agentName cronName e res R =
     (if cc_scheduleType (ts_config (en_state (rk_entries R ! e))) = OnceType \<and> completeOnceAfterExecution res = CompleteNow
      then completeOnceTask_begin agentName cronName R else (R, False))"

text \<open>The entry a firing timer runs, under its own names, and how its run begins; what fails later in it is only logged.\<close>

definition tick :: "string + int \<times> int \<Rightarrow> nat \<Rightarrow> CronRegistry \<Rightarrow> (nat \<times> (ExecuteResult + CronRegistry)) option" where
  "tick localTime j R = map_option (\<lambda>e. (e, run_begin localTime False e R)) (on_tick j R)"

text \<open>A trigger begins in the same way, and its caller is told of a failing completion.\<close>

definition triggerTask_begin :: "string + int \<times> int \<Rightarrow> string \<Rightarrow> string \<Rightarrow> CronRegistry \<Rightarrow> CronError + nat \<times> (ExecuteResult + CronRegistry)" where
  "triggerTask_begin localTime agentName cronName R =
     (case entry_of R agentName cronName of
        None \<Rightarrow> Inl CronTaskNotFound
      | Some e \<Rightarrow> Inr (e, run_begin localTime True e R))"

definition triggerTask_end :: "string \<Rightarrow> string \<Rightarrow> ExecuteResult \<Rightarrow> bool \<Rightarrow> string option \<Rightarrow> CronRegistry \<Rightarrow> CronRegistry \<times> (CronError + ExecuteResult)" where
  "triggerTask_end agentName cronName res waits stored R =
     (if waits then
        (case completeOnceTask_end agentName cronName stored R of
           (R', Some err) \<Rightarrow> (R', Inl err)
         | (R', None) \<Rightarrow> (R', Inr res))
      else (R, Inr res))"

text \<open>When a queued message settles.\<close>

definition on_drained :: "string \<Rightarrow> string \<Rightarrow> Completion \<Rightarrow> nat \<times> BusyQueueDrainResult \<Rightarrow> CronRegistry \<Rightarrow> CronRegistry \<times> bool" where
  "on_drained agentName cronName c d R =
     (case c of CompleteWhenSent t \<Rightarrow> if d = (t, Sent) then completeOnceTask_begin agentName cronName R else (R, False) | _ \<Rightarrow> (R, False))"

section \<open>Timers and tasks\<close>

text \<open>
  What the registry is to keep: every task has one live timer, made for its schedule and time zone, whose callback runs that task, and there
  is no other live timer.
\<close>

definition entry_ok :: "CronRegistry \<Rightarrow> string \<Rightarrow> nat \<Rightarrow> bool" where
  "entry_ok R k e \<longleftrightarrow> e < length (rk_entries R) \<and>
     (let en = rk_entries R ! e; cfg = ts_config (en_state en) in
      k = task_key (ts_agentName (en_state en)) (ts_cronName (en_state en)) \<and> en_job en < length (rk_jobs R) \<and>
      (let jb = rk_jobs R ! en_job en in
       jb_live jb \<and> jb_entry jb = e \<and> cc_schedule (jb_config jb) = cc_schedule cfg \<and> cc_timezone (jb_config jb) = cc_timezone cfg))"

definition registered :: "CronRegistry \<Rightarrow> nat set" where
  "registered R = snd ` set (rk_tasks R)"

definition timers_ok :: "CronRegistry \<Rightarrow> bool" where
  "timers_ok R \<longleftrightarrow> distinct (keys (rk_tasks R)) \<and> (\<forall>(k, e) \<in> set (rk_tasks R). entry_ok R k e) \<and>
     (\<forall>j < length (rk_jobs R). jb_live (rk_jobs R ! j) \<longrightarrow> jb_entry (rk_jobs R ! j) \<in> registered R \<and> en_job (rk_entries R ! jb_entry (rk_jobs R ! j)) = j)"

lemma in_registered: "e \<in> registered R \<longleftrightarrow> (\<exists>k. (k, e) \<in> set (rk_tasks R))"
  by (force simp: registered_def)

lemma timers_okI:
  assumes "distinct (keys (rk_tasks R))" "\<And>k e. (k, e) \<in> set (rk_tasks R) \<Longrightarrow> entry_ok R k e"
    "\<And>j. j < length (rk_jobs R) \<Longrightarrow> jb_live (rk_jobs R ! j) \<Longrightarrow>
       (\<exists>k. (k, jb_entry (rk_jobs R ! j)) \<in> set (rk_tasks R)) \<and> en_job (rk_entries R ! jb_entry (rk_jobs R ! j)) = j"
  shows "timers_ok R"
  using assms by (auto simp: timers_ok_def in_registered)

lemma timers_okD:
  assumes "timers_ok R"
  shows "distinct (keys (rk_tasks R))" "(k, e) \<in> set (rk_tasks R) \<Longrightarrow> entry_ok R k e"
    "j < length (rk_jobs R) \<Longrightarrow> jb_live (rk_jobs R ! j) \<Longrightarrow> en_job (rk_entries R ! jb_entry (rk_jobs R ! j)) = j"
    "j < length (rk_jobs R) \<Longrightarrow> jb_live (rk_jobs R ! j) \<Longrightarrow> \<exists>k. (k, jb_entry (rk_jobs R ! j)) \<in> set (rk_tasks R)"
  using assms unfolding timers_ok_def in_registered by auto

lemma entry_okD:
  assumes "entry_ok R k e"
  shows "e < length (rk_entries R)" "k = task_key (ts_agentName (en_state (rk_entries R ! e))) (ts_cronName (en_state (rk_entries R ! e)))"
    "en_job (rk_entries R ! e) < length (rk_jobs R)" "jb_live (rk_jobs R ! en_job (rk_entries R ! e))"
    "jb_entry (rk_jobs R ! en_job (rk_entries R ! e)) = e"
    "cc_schedule (jb_config (rk_jobs R ! en_job (rk_entries R ! e))) = cc_schedule (ts_config (en_state (rk_entries R ! e)))"
    "cc_timezone (jb_config (rk_jobs R ! en_job (rk_entries R ! e))) = cc_timezone (ts_config (en_state (rk_entries R ! e)))"
  using assms by (auto simp: entry_ok_def Let_def)

lemma entry_of_in: "entry_of R a c = Some e \<Longrightarrow> (task_key a c, e) \<in> set (rk_tasks R)"
  unfolding entry_of_def by (rule map_of_SomeD)

lemma timers_ok_emit [simp]: "timers_ok (emit_cron ev R) = timers_ok R"
  by (simp add: timers_ok_def entry_ok_def registered_def emit_cron_def)

lemma timers_ok_global [simp]: "timers_ok (setGlobalEnabled b R) = timers_ok R"
  by (simp add: timers_ok_def entry_ok_def registered_def setGlobalEnabled_def)

lemma timers_ok_add:
  assumes ok: "timers_ok R" and fresh: "entry_of R a c = None" and add: "add_task sc a c cfg i b R = Some R'"
  shows "timers_ok R'"
proof -
  let ?E = "length (rk_entries R)" and ?J = "length (rk_jobs R)"
  have new: "task_key a c \<notin> set (keys (rk_tasks R))" using fresh by (simp add: entry_of_def map_of_None_iff)
  have R': "rk_tasks R' = rk_tasks R @ [(task_key a c, ?E)]"
    "rk_jobs R' = rk_jobs R @ [\<lparr>jb_config = cfg, jb_entry = ?E, jb_live = True\<rparr>]"
    "rk_entries R' = rk_entries R @ [\<lparr>en_state = new_task_state a c cfg i b (sc_nextRun sc cfg), en_job = ?J\<rparr>]"
    using add by (auto simp: add_task_def Let_def update_new [OF new] split: if_splits)
  show ?thesis
  proof (rule timers_okI)
    show "distinct (keys (rk_tasks R'))" using timers_okD(1) [OF ok] new by (simp add: R')
    show "entry_ok R' k e" if "(k, e) \<in> set (rk_tasks R')" for k e
    proof (cases "(k, e) \<in> set (rk_tasks R)")
      case True
      then show ?thesis using timers_okD(2) [OF ok True] by (auto simp: entry_ok_def R' nth_append Let_def)
    next
      case False
      then show ?thesis using that by (auto simp: entry_ok_def R' nth_append new_task_state_def)
    qed
    show "(\<exists>k. (k, jb_entry (rk_jobs R' ! j)) \<in> set (rk_tasks R')) \<and> en_job (rk_entries R' ! jb_entry (rk_jobs R' ! j)) = j"
      if "j < length (rk_jobs R')" "jb_live (rk_jobs R' ! j)" for j
    proof (cases "j < ?J")
      case True
      then have live: "jb_live (rk_jobs R ! j)" using that(2) by (simp add: R' nth_append)
      obtain k where k: "(k, jb_entry (rk_jobs R ! j)) \<in> set (rk_tasks R)" using timers_okD(4) [OF ok True live] by blast
      have "jb_entry (rk_jobs R ! j) < ?E" using entry_okD(1) [OF timers_okD(2) [OF ok k]] .
      then show ?thesis using True k timers_okD(3) [OF ok True live] by (auto simp: R' nth_append)
    next
      case False
      then have "j = ?J" using that(1) by (simp add: R')
      then show ?thesis by (auto simp: R')
    qed
  qed
qed

lemma tasks_same_entry:
  assumes "timers_ok R" "(k, e) \<in> set (rk_tasks R)" "(k', e) \<in> set (rk_tasks R)"
  shows "k' = k"
  using entry_okD(2) [OF timers_okD(2) [OF assms(1,2)]] entry_okD(2) [OF timers_okD(2) [OF assms(1,3)]] by simp

lemma other_job:
  assumes "timers_ok R" "(k, e) \<in> set (rk_tasks R)" "(k', e') \<in> set (rk_tasks R)" "e' \<noteq> e"
  shows "en_job (rk_entries R ! e') \<noteq> en_job (rk_entries R ! e)"
  using entry_okD(5) [OF timers_okD(2) [OF assms(1,2)]] entry_okD(5) [OF timers_okD(2) [OF assms(1,3)]] assms(4) by metis

lemma timers_ok_remove:
  assumes ok: "timers_ok R" and t: "(k, e) \<in> set (rk_tasks R)"
  shows "timers_ok (remove_task k e R)"
proof -
  let ?J = "en_job (rk_entries R ! e)" and ?R = "remove_task k e R"
  note ed = entry_okD [OF timers_okD(2) [OF ok t]]
  have R': "rk_tasks ?R = AList.delete k (rk_tasks R)" "rk_entries ?R = rk_entries R"
    "rk_jobs ?R = (rk_jobs R)[?J := (rk_jobs R ! ?J)\<lparr>jb_live := False\<rparr>]"
    by (simp_all add: remove_task_def stop_job_def)
  have in': "(k', e') \<in> set (rk_tasks ?R) \<longleftrightarrow> (k', e') \<in> set (rk_tasks R) \<and> k' \<noteq> k" for k' e'
    by (auto simp: R' AList.delete_eq)
  show ?thesis
  proof (rule timers_okI)
    show "distinct (keys (rk_tasks ?R))" unfolding R'(1) AList.delete_eq using timers_okD(1) [OF ok] by (rule distinct_filter)
    show "entry_ok ?R k' e'" if "(k', e') \<in> set (rk_tasks ?R)" for k' e'
    proof -
      have t': "(k', e') \<in> set (rk_tasks R)" "k' \<noteq> k" using that in' by auto
      have "e' \<noteq> e" using tasks_same_entry [OF ok t] t' by blast
      then have "en_job (rk_entries R ! e') \<noteq> ?J" using other_job [OF ok t t'(1)] by blast
      then show ?thesis using timers_okD(2) [OF ok t'(1)] by (simp add: entry_ok_def R' Let_def)
    qed
    show "(\<exists>k'. (k', jb_entry (rk_jobs ?R ! j)) \<in> set (rk_tasks ?R)) \<and> en_job (rk_entries ?R ! jb_entry (rk_jobs ?R ! j)) = j"
      if j: "j < length (rk_jobs ?R)" "jb_live (rk_jobs ?R ! j)" for j
    proof -
      have jJ: "j \<noteq> ?J" using j ed(3) by (auto simp: R')
      then have j': "j < length (rk_jobs R)" "jb_live (rk_jobs R ! j)" "rk_jobs ?R ! j = rk_jobs R ! j" using j by (auto simp: R')
      obtain k' where k': "(k', jb_entry (rk_jobs R ! j)) \<in> set (rk_tasks R)" using timers_okD(4) [OF ok j'(1,2)] by blast
      have "k' \<noteq> k"
      proof
        assume "k' = k"
        then have "jb_entry (rk_jobs R ! j) = e" using k' t timers_okD(1) [OF ok] by (metis eq_key_imp_eq_value)
        then show False using timers_okD(3) [OF ok j'(1,2)] jJ by simp
      qed
      then show ?thesis using k' in' timers_okD(3) [OF ok j'(1,2)] j'(3) by (auto simp: R'(2))
    qed
  qed
qed

lemma timers_ok_set_config:
  assumes ok: "timers_ok R" and t: "(k, e) \<in> set (rk_tasks R)"
    and same: "cc_schedule cfg = cc_schedule (ts_config (en_state (rk_entries R ! e)))" "cc_timezone cfg = cc_timezone (ts_config (en_state (rk_entries R ! e)))"
  shows "timers_ok (set_config e cfg R)"
proof -
  let ?R = "set_config e cfg R"
  note ed = entry_okD [OF timers_okD(2) [OF ok t]]
  have R': "rk_tasks ?R = rk_tasks R" "rk_jobs ?R = rk_jobs R" "length (rk_entries ?R) = length (rk_entries R)"
    "rk_entries ?R ! i = (if i = e then (rk_entries R ! e)\<lparr>en_state := (en_state (rk_entries R ! e))\<lparr>ts_config := cfg, ts_enabled := \<not> cc_disabled cfg\<rparr>\<rparr>
       else rk_entries R ! i)" for i
    using ed(1) by (simp_all add: set_config_def)
  have job: "en_job (rk_entries ?R ! i) = en_job (rk_entries R ! i)" for i by (simp add: R')
  show ?thesis
  proof (rule timers_okI)
    show "distinct (keys (rk_tasks ?R))" using timers_okD(1) [OF ok] by (simp add: R')
    show "entry_ok ?R k' e'" if "(k', e') \<in> set (rk_tasks ?R)" for k' e'
    proof -
      have "entry_ok R k' e'" using timers_okD(2) [OF ok] that by (simp add: R')
      then show ?thesis using same by (auto simp: entry_ok_def R' Let_def)
    qed
    show "(\<exists>k'. (k', jb_entry (rk_jobs ?R ! j)) \<in> set (rk_tasks ?R)) \<and> en_job (rk_entries ?R ! jb_entry (rk_jobs ?R ! j)) = j"
      if "j < length (rk_jobs ?R)" "jb_live (rk_jobs ?R ! j)" for j
      using timers_okD(3,4) [OF ok, of j] that by (simp add: R'(1,2) job)
  qed
qed

lemma timers_ok_replace:
  assumes ok: "timers_ok R" and t: "(k, e) \<in> set (rk_tasks R)" and rep: "replace_job sc e cfg R = Some R1"
  shows "timers_ok (set_config e cfg R1)"
proof -
  let ?O = "en_job (rk_entries R ! e)" and ?J = "length (rk_jobs R)" and ?R = "set_config e cfg R1"
  note ed = entry_okD [OF timers_okD(2) [OF ok t]]
  have R1: "rk_tasks R1 = rk_tasks R" "rk_jobs R1 = (rk_jobs R @ [\<lparr>jb_config = cfg, jb_entry = e, jb_live = True\<rparr>])[?O := (rk_jobs R ! ?O)\<lparr>jb_live := False\<rparr>]"
    "rk_entries R1 = (rk_entries R)[e := (rk_entries R ! e)\<lparr>en_job := ?J, en_state := (en_state (rk_entries R ! e))\<lparr>ts_nextRun := sc_nextRun sc cfg\<rparr>\<rparr>]"
    using rep ed(3) by (auto simp: replace_job_def stop_job_def Let_def nth_append split: if_splits)
  have R': "rk_tasks ?R = rk_tasks R" "rk_jobs ?R = rk_jobs R1" "length (rk_entries ?R) = length (rk_entries R)"
    "\<And>i. i \<noteq> e \<Longrightarrow> rk_entries ?R ! i = rk_entries R ! i" "en_job (rk_entries ?R ! e) = ?J"
    "ts_agentName (en_state (rk_entries ?R ! e)) = ts_agentName (en_state (rk_entries R ! e))"
    "ts_cronName (en_state (rk_entries ?R ! e)) = ts_cronName (en_state (rk_entries R ! e))"
    "ts_config (en_state (rk_entries ?R ! e)) = cfg"
    using ed(1) by (simp_all add: set_config_def R1)
  have len: "length (rk_jobs ?R) = Suc ?J" by (simp add: R' R1)
  have new: "rk_jobs ?R ! ?J = \<lparr>jb_config = cfg, jb_entry = e, jb_live = True\<rparr>" using ed(3) by (simp add: R' R1 nth_append)
  have old: "rk_jobs ?R ! j = rk_jobs R ! j" if "j < ?J" "j \<noteq> ?O" for j using that by (simp add: R' R1 nth_append)
  have stopped: "\<not> jb_live (rk_jobs ?R ! ?O)" using ed(3) by (simp add: R' R1)
  show ?thesis
  proof (rule timers_okI)
    show "distinct (keys (rk_tasks ?R))" using timers_okD(1) [OF ok] by (simp add: R')
    show "entry_ok ?R k' e'" if "(k', e') \<in> set (rk_tasks ?R)" for k' e'
    proof (cases "e' = e")
      case True
      then have "k' = k" using tasks_same_entry [OF ok t] that by (simp add: R')
      then show ?thesis using True ed(1,2) by (simp add: entry_ok_def R'(3,5-8) len new)
    next
      case False
      have t': "(k', e') \<in> set (rk_tasks R)" using that by (simp add: R')
      have "en_job (rk_entries R ! e') \<noteq> ?O" using other_job [OF ok t t' False] .
      then show ?thesis using timers_okD(2) [OF ok t'] False old by (simp add: entry_ok_def R'(3,4) len Let_def)
    qed
    show "(\<exists>k'. (k', jb_entry (rk_jobs ?R ! j)) \<in> set (rk_tasks ?R)) \<and> en_job (rk_entries ?R ! jb_entry (rk_jobs ?R ! j)) = j"
      if j: "j < length (rk_jobs ?R)" "jb_live (rk_jobs ?R ! j)" for j
    proof (cases "j = ?J")
      case True
      then show ?thesis using t by (auto simp: new R'(1,5))
    next
      case False
      then have jJ: "j < ?J" using j(1) len by simp
      have jO: "j \<noteq> ?O" using j(2) stopped by blast
      have live: "jb_live (rk_jobs R ! j)" using j(2) old [OF jJ jO] by simp
      have "jb_entry (rk_jobs R ! j) \<noteq> e" using timers_okD(3) [OF ok jJ live] jO by metis
      then show ?thesis using timers_okD(3,4) [OF ok jJ live] by (simp add: old [OF jJ jO] R'(1,4))
    qed
  qed
qed

lemma fold_stop_jobs:
  "rk_jobs (fold (\<lambda>(k, e). stop_job (f e)) ts R) ! j = (rk_jobs R ! j)\<lparr>jb_live := jb_live (rk_jobs R ! j) \<and> (\<forall>(k, e) \<in> set ts. f e \<noteq> j)\<rparr> \<and>
   length (rk_jobs (fold (\<lambda>(k, e). stop_job (f e)) ts R)) = length (rk_jobs R)" if "j < length (rk_jobs R)"
  using that
proof (induction ts arbitrary: R)
  case (Cons p ts)
  obtain k e where p: "p = (k, e)" by fastforce
  have "j < length (rk_jobs (stop_job (f e) R))" using Cons.prems by (simp add: stop_job_def)
  from Cons.IH [OF this] show ?case using Cons.prems by (cases "f e = j") (simp_all add: p stop_job_def)
qed simp

lemma stop_length: "length (rk_jobs (fold (\<lambda>(k, e). stop_job (f e)) ts R)) = length (rk_jobs R)"
  by (induction ts arbitrary: R) (auto simp: stop_job_def)

lemma timers_ok_stop:
  assumes ok: "timers_ok R"
  shows "timers_ok (registry_stop R)"
proof (rule timers_okI)
  let ?f = "\<lambda>e. en_job (rk_entries R ! e)"
  have jobs: "rk_jobs (registry_stop R) = rk_jobs (fold (\<lambda>(k, e). stop_job (?f e)) (rk_tasks R) R)" by (simp add: registry_stop_def)
  show "distinct (keys (rk_tasks (registry_stop R)))" by (simp add: registry_stop_def)
  show "entry_ok (registry_stop R) k e" if "(k, e) \<in> set (rk_tasks (registry_stop R))" for k e
    using that by (simp add: registry_stop_def)
  show "(\<exists>k. (k, jb_entry (rk_jobs (registry_stop R) ! j)) \<in> set (rk_tasks (registry_stop R))) \<and>
      en_job (rk_entries (registry_stop R) ! jb_entry (rk_jobs (registry_stop R) ! j)) = j"
    if j: "j < length (rk_jobs (registry_stop R))" "jb_live (rk_jobs (registry_stop R) ! j)" for j
  proof -
    have l: "j < length (rk_jobs R)" using j(1) by (simp add: jobs stop_length)
    have live: "jb_live (rk_jobs R ! j)" and no: "\<forall>(k, e) \<in> set (rk_tasks R). ?f e \<noteq> j"
      using j(2) fold_stop_jobs [of j R ?f "rk_tasks R", OF l] by (simp_all add: jobs)
    have False using timers_okD(3,4) [OF ok l live] no by auto
    then show ?thesis ..
  qed
qed

lemma timers_ok_set_state:
  assumes ok: "timers_ok R" and "ts_agentName st = ts_agentName (en_state (rk_entries R ! e))"
    "ts_cronName st = ts_cronName (en_state (rk_entries R ! e))" "ts_config st = ts_config (en_state (rk_entries R ! e))"
  shows "timers_ok (set_state e st R)"
proof -
  have n: "rk_entries (set_state e st R) ! i = (if i = e \<and> e < length (rk_entries R) then (rk_entries R ! e)\<lparr>en_state := st\<rparr> else rk_entries R ! i)" for i
    by (auto simp: set_state_def list_update_beyond not_less)
  have j: "en_job (rk_entries (set_state e st R) ! i) = en_job (rk_entries R ! i)" for i by (simp add: n)
  have s: "ts_agentName (en_state (rk_entries (set_state e st R) ! i)) = ts_agentName (en_state (rk_entries R ! i))"
    "ts_cronName (en_state (rk_entries (set_state e st R) ! i)) = ts_cronName (en_state (rk_entries R ! i))"
    "ts_config (en_state (rk_entries (set_state e st R) ! i)) = ts_config (en_state (rk_entries R ! i))" for i
    using assms(2-) by (simp_all add: n)
  have r: "rk_tasks (set_state e st R) = rk_tasks R" "rk_jobs (set_state e st R) = rk_jobs R"
    "length (rk_entries (set_state e st R)) = length (rk_entries R)" by (simp_all add: set_state_def)
  show ?thesis using ok by (simp add: timers_ok_def entry_ok_def registered_def j s r Let_def)
qed

section \<open>Runs of the registry\<close>

text \<open>
  The store's contract for an update: a field the update does not name stays as it is.
\<close>

definition update_agrees :: "CronConfig \<Rightarrow> CronConfigUpdate \<Rightarrow> CronConfig \<Rightarrow> bool" where
  "update_agrees old u new =
     ((cu_schedule u = None \<longrightarrow> cc_schedule new = cc_schedule old) \<and> (cu_timezone u = Undefined \<longrightarrow> cc_timezone new = cc_timezone old))"

text \<open>
  Updates and creations one after the other, each to its end; deletions, completions and runs may begin and end at any time between them, and
  a run ends on the entry it holds.  Tasks are loaded under keys that are free.
\<close>

inductive reg_step :: "Scheduler \<Rightarrow> CronRegistry \<Rightarrow> CronRegistry \<Rightarrow> bool" for sc where
  reg_load: "entry_of R (lr_agentName l) (lr_cronName l) = None \<Longrightarrow> reg_step sc R (start_one sc quarantined l R)"
| reg_stop: "reg_step sc R (registry_stop R)"
| reg_global: "reg_step sc R (setGlobalEnabled b R)"
| reg_update: "updateConfig_begin sc a c u R = Inr (Some e) \<Longrightarrow> update_agrees (ts_config (en_state (rk_entries R ! e))) u new \<Longrightarrow>
     reg_step sc R (fst (updateConfig_end sc a c e u new R))"
| reg_create: "createTask_begin sc a c cfg R = None \<Longrightarrow> reg_step sc R (fst (createTask_end sc a c cfg i R))"
| reg_delete: "reg_step sc R (fst (deleteTask_begin a c R q))"
| reg_deleted: "reg_step sc R (fst (deleteTask_end a c stored R))"
| reg_complete: "reg_step sc R (fst (completeOnceTask_begin a c R))"
| reg_completed: "reg_step sc R (fst (completeOnceTask_end a c stored R))"
| reg_register: "reg_step sc R (register_one sc l R)"
| reg_unregister: "reg_step sc R (unregisterHarnessCrons h R)"
| reg_begin: "run_begin localTime force e R = Inr R' \<Longrightarrow> reg_step sc R R'"
| reg_end: "reg_step sc R (fst (run_end x e R q))"

lemma begin_entry: "updateConfig_begin sc a c u R = Inr (Some e) \<Longrightarrow> entry_of R a c = Some e"
  by (auto simp: updateConfig_begin_def split: option.splits)

lemma timers_ok_update:
  assumes ok: "timers_ok R" and b: "updateConfig_begin sc a c u R = Inr (Some e)"
    and ag: "update_agrees (ts_config (en_state (rk_entries R ! e))) u new"
  shows "timers_ok (fst (updateConfig_end sc a c e u new R))"
proof -
  have t: "(task_key a c, e) \<in> set (rk_tasks R)" using entry_of_in [OF begin_entry [OF b]] .
  show ?thesis
  proof (cases "needs_recreate u")
    case True
    then show ?thesis using ok timers_ok_replace [OF ok t]
      by (cases "replace_job sc e new R") (simp_all add: updateConfig_end_def)
  next
    case False
    then show ?thesis using timers_ok_set_config [OF ok t] ag
      by (simp add: updateConfig_end_def update_agrees_def needs_recreate_def)
  qed
qed

lemma timers_ok_unregister: "timers_ok R \<Longrightarrow> timers_ok (unregister_one st R)"
  using timers_ok_remove [OF _ entry_of_in] by (simp add: unregister_one_def split: option.split)

lemma timers_ok_register:
  assumes ok: "timers_ok R"
  shows "timers_ok (register_one sc l R)"
proof (cases "entry_of R (lr_agentName l) (lr_cronName l)")
  case None
  then show ?thesis using ok timers_ok_add [OF ok None] by (simp add: register_one_def Let_def split: option.split)
next
  case (Some e)
  note t = entry_of_in [OF Some]
  show ?thesis
    using Some ok timers_ok_replace [OF ok t] timers_ok_set_config [OF ok t, of "lr_config l"]
    by (simp add: register_one_def Let_def split: option.split)
qed

lemma timers_ok_complete: "timers_ok R \<Longrightarrow> timers_ok (fst (completeOnceTask_begin a c R))"
  using timers_ok_remove [OF _ entry_of_in] by (auto simp: completeOnceTask_begin_def Let_def split: option.split)

lemma run_begin_state:
  assumes "run_begin t force e R = Inr R'"
  shows "R' = set_state e ((en_state (rk_entries R ! e))\<lparr>ts_status := RunningNow\<rparr>) R"
  using assms by (simp add: run_begin_def Let_def split: option.splits)

lemma run_end_state:
  assumes "run_end x e R q = (R', q', res, effects)"
  obtains st where "R' = set_state e st R" "execute_rest x (en_state (rk_entries R ! e)) q = (st, q', res, effects)"
    "ts_agentName st = ts_agentName (en_state (rk_entries R ! e))" "ts_cronName st = ts_cronName (en_state (rk_entries R ! e))"
    "ts_config st = ts_config (en_state (rk_entries R ! e))"
proof -
  obtain st q1 res1 effects1 where x: "execute_rest x (en_state (rk_entries R ! e)) q = (st, q1, res1, effects1)" by (metis prod_cases4)
  have eq: "R' = set_state e st R" "q1 = q'" "res1 = res" "effects1 = effects" using assms by (simp_all add: run_end_def x)
  show thesis by (rule that [OF eq(1)]) (use x eq(2-) names_kept [OF x] in simp_all)
qed

lemma timers_ok_run_begin: "run_begin t force e R = Inr R' \<Longrightarrow> timers_ok R \<Longrightarrow> timers_ok R'"
  by (drule run_begin_state) (simp add: timers_ok_set_state)

lemma timers_ok_run_end:
  assumes "timers_ok R"
  shows "timers_ok (fst (run_end x e R q))"
proof -
  obtain R' q' res effects where r: "run_end x e R q = (R', q', res, effects)" by (metis prod_cases4)
  then show ?thesis by (rule run_end_state) (simp add: r timers_ok_set_state [OF assms])
qed

lemma deleted_tasks [simp]: "timers_ok (fst (deleteTask_end a c stored R)) = timers_ok R"
  "rk_tasks (fst (deleteTask_end a c stored R)) = rk_tasks R" "rk_entries (fst (deleteTask_end a c stored R)) = rk_entries R"
  by (simp_all add: deleteTask_end_def emit_cron_def timers_ok_emit [unfolded emit_cron_def] split: option.split)

lemma completed_tasks [simp]: "timers_ok (fst (completeOnceTask_end a c stored R)) = timers_ok R"
  "rk_tasks (fst (completeOnceTask_end a c stored R)) = rk_tasks R" "rk_entries (fst (completeOnceTask_end a c stored R)) = rk_entries R"
  by (simp_all add: completeOnceTask_end_def emit_cron_def timers_ok_emit [unfolded emit_cron_def] split: option.split)

lemma timers_ok_step:
  assumes "reg_step sc R R'" "timers_ok R"
  shows "timers_ok R'"
  using assms
proof (induction rule: reg_step.induct)
  case (reg_load R l quarantined)
  then show ?case using timers_ok_add by (auto simp: start_one_def split: option.split)
next
  case (reg_update a c u R e new)
  then show ?case using timers_ok_update by blast
next
  case (reg_create a c cfg R i)
  then show ?case using timers_ok_add [of R a c]
    by (auto simp: createTask_begin_def createTask_end_def split: option.split if_splits)
next
  case (reg_delete R a c q)
  then show ?case using timers_ok_remove [OF _ entry_of_in] by (auto simp: deleteTask_begin_def split: option.split)
next
  case (reg_complete R a c)
  then show ?case by (intro timers_ok_complete)
next
  case (reg_unregister R h)
  have "timers_ok (fold unregister_one sts R)" for sts
    using reg_unregister by (induction sts arbitrary: R) (simp_all add: timers_ok_unregister)
  then show ?case by (simp add: unregisterHarnessCrons_def)
next
  case (reg_begin t force e R R')
  then show ?case using timers_ok_run_begin by blast
next
  case (reg_end R x e q)
  then show ?case by (intro timers_ok_run_end)
qed (simp_all add: timers_ok_stop timers_ok_register)

lemma timers_ok_new: "timers_ok new_cron_registry"
  by (simp add: timers_ok_def new_cron_registry_def)

section \<open>Theorems about the registry\<close>

text \<open>C6: Timers and tasks belong together: as long as updates and creations run undisturbed, a timer that fires runs a task that is registered and whose
  only live timer it is, and every registered task has a live timer that was made for its present schedule and time zone.\<close>

theorem timers_belong_to_tasks:
  assumes "(reg_step sc)\<^sup>*\<^sup>* new_cron_registry R"
  shows "(\<forall>j e. j < length (rk_jobs R) \<and> on_tick j R = Some e \<longrightarrow>
      (\<exists>k. map_of (rk_tasks R) k = Some e) \<and> en_job (rk_entries R ! e) = j) \<and>
    (\<forall>k e. map_of (rk_tasks R) k = Some e \<longrightarrow>
      (let en = rk_entries R ! e; jb = rk_jobs R ! en_job en in
       jb_live jb \<and> jb_entry jb = e \<and> cc_schedule (jb_config jb) = cc_schedule (ts_config (en_state en)) \<and>
       cc_timezone (jb_config jb) = cc_timezone (ts_config (en_state en))))"
proof -
  have ok: "timers_ok R"
    using assms by (induction rule: rtranclp_induct) (use timers_ok_new timers_ok_step in auto)
  have "(\<exists>k. map_of (rk_tasks R) k = Some e) \<and> en_job (rk_entries R ! e) = j" if "j < length (rk_jobs R) \<and> on_tick j R = Some e" for j e
  proof -
    have j: "j < length (rk_jobs R)" "jb_live (rk_jobs R ! j)" "jb_entry (rk_jobs R ! j) = e"
      using that by (auto simp: on_tick_def split: if_splits)
    obtain k where "(k, e) \<in> set (rk_tasks R)" using timers_okD(4) [OF ok j(1,2)] j(3) by blast
    then show ?thesis using timers_okD(1) [OF ok] timers_okD(3) [OF ok j(1,2)] j(3) by auto
  qed
  moreover have "let en = rk_entries R ! e; jb = rk_jobs R ! en_job en in
       jb_live jb \<and> jb_entry jb = e \<and> cc_schedule (jb_config jb) = cc_schedule (ts_config (en_state en)) \<and>
       cc_timezone (jb_config jb) = cc_timezone (ts_config (en_state en))" if "map_of (rk_tasks R) k = Some e" for k e
    using entry_okD [OF timers_okD(2) [OF ok map_of_SomeD [OF that]]] by (simp add: Let_def)
  ultimately show ?thesis by blast
qed

definition sample_scheduler :: Scheduler where
  "sample_scheduler = \<lparr>sc_creates = (\<lambda>_. True), sc_assert = (\<lambda>_. None), sc_nextRun = (\<lambda>c. cc_runAtMs c)\<rparr>"

definition once_config :: CronConfig where
  "once_config = sample_config\<lparr>cc_scheduleType := OnceType, cc_schedule := ''once:100'', cc_runAtMs := Some 100\<rparr>"

definition sample_registry :: CronRegistry where
  "sample_registry = fst (createTask_end sample_scheduler ''a'' ''c'' once_config None new_cron_registry)"

theorem timers_belong_to_tasks_witness:
  "(reg_step sample_scheduler)\<^sup>*\<^sup>* new_cron_registry sample_registry \<and> on_tick 0 sample_registry = Some 0 \<and>
   en_job (rk_entries sample_registry ! 0) = 0"
proof -
  have "createTask_begin sample_scheduler ''a'' ''c'' once_config new_cron_registry = None" by code_simp
  from reg_create [OF this, of None] have "reg_step sample_scheduler new_cron_registry sample_registry" by (simp only: sample_registry_def)
  then have r: "(reg_step sample_scheduler)\<^sup>*\<^sup>* new_cron_registry sample_registry" by (rule r_into_rtranclp)
  have t: "on_tick 0 sample_registry = Some 0" "0 < length (rk_jobs sample_registry)" by code_simp+
  then have "en_job (rk_entries sample_registry ! 0) = 0" using timers_belong_to_tasks [OF r] by blast
  then show ?thesis using r t by blast
qed

section \<open>Entries that have left the map\<close>

text \<open>No operation puts an entry back into the map: what is registered later was registered before, or is a new entry.\<close>

definition only_new :: "CronRegistry \<Rightarrow> CronRegistry \<Rightarrow> bool" where
  "only_new R R' \<longleftrightarrow> length (rk_entries R) \<le> length (rk_entries R') \<and>
     (\<forall>e \<in> registered R'. e \<in> registered R \<or> length (rk_entries R) \<le> e)"

lemma only_new_refl [simp]: "only_new R R"
  by (simp add: only_new_def)

lemma only_new_trans: "only_new R R' \<Longrightarrow> only_new R' R'' \<Longrightarrow> only_new R R''"
  by (fastforce simp: only_new_def)

lemma only_newI: "length (rk_entries R') = length (rk_entries R) \<Longrightarrow> set (rk_tasks R') \<subseteq> set (rk_tasks R) \<Longrightarrow> only_new R R'"
  by (auto simp: only_new_def registered_def)

lemma only_new_same: "rk_tasks R' = rk_tasks R \<Longrightarrow> length (rk_entries R') = length (rk_entries R) \<Longrightarrow> only_new R R'"
  by (rule only_newI) simp_all

lemma set_AList_update: "set (AList.update k v xs) \<subseteq> insert (k, v) (set xs)"
  by (induction xs) auto

lemma only_new_add: "add_task sc a c cfg i b R = Some R' \<Longrightarrow> only_new R R'"
  using set_AList_update [of "task_key a c" "length (rk_entries R)" "rk_tasks R"]
  by (auto simp: add_task_def only_new_def registered_def Let_def split: if_splits)

lemma only_new_emit [simp]: "only_new R (emit_cron ev R') = only_new R R'"
  by (simp add: only_new_def registered_def emit_cron_def)

lemma only_new_config [simp]: "only_new R (set_config e cfg R') = only_new R R'"
  by (simp add: only_new_def registered_def set_config_def)

lemma only_new_replace: "replace_job sc e cfg R = Some R' \<Longrightarrow> only_new R R'"
  by (rule only_new_same) (auto simp: replace_job_def stop_job_def Let_def split: if_splits)

lemma only_new_state [simp]: "only_new R (set_state e st R') = only_new R R'"
  by (simp add: only_new_def registered_def set_state_def)

lemma only_new_remove [simp]: "only_new R (remove_task k e R)"
  by (rule only_newI) (auto simp: remove_task_def stop_job_def AList.delete_eq)

lemma only_new_stop: "only_new R (registry_stop R)"
proof (rule only_newI)
  have "length (rk_entries (fold (\<lambda>(k, e). stop_job (f e)) ts R)) = length (rk_entries R)" for f :: "nat \<Rightarrow> nat" and ts :: "(string \<times> nat) list"
    by (induction ts arbitrary: R) (auto simp: stop_job_def)
  then show "length (rk_entries (registry_stop R)) = length (rk_entries R)" by (simp add: registry_stop_def)
qed (simp add: registry_stop_def)

lemma only_new_register: "only_new R (register_one sc l R)"
  using only_new_replace only_new_add by (auto simp: register_one_def Let_def split: option.split)

lemma only_new_unregister: "only_new R (fold unregister_one sts R)"
proof (induction sts arbitrary: R)
  case (Cons st sts)
  have "only_new R (unregister_one st R)" by (simp add: unregister_one_def split: option.split)
  then show ?case using Cons only_new_trans by fastforce
qed simp

lemma only_new_step: "reg_step sc R R' \<Longrightarrow> only_new R R'"
proof (induction rule: reg_step.induct)
  case (reg_load R l quarantined)
  then show ?case using only_new_add by (auto simp: start_one_def split: option.split)
next
  case (reg_update a c u R e new)
  then show ?case using only_new_replace by (auto simp: updateConfig_end_def split: option.split)
next
  case (reg_create a c cfg R i)
  then show ?case using only_new_add by (auto simp: createTask_end_def split: option.split)
next
  case (reg_begin t force e R R')
  from run_begin_state [OF this] show ?case by simp
next
  case (reg_end R x e q)
  obtain R' q' res effects where r: "run_end x e R q = (R', q', res, effects)" by (metis prod_cases4)
  then show ?case by (rule run_end_state) (simp add: r)
qed (simp_all add: only_new_stop only_new_register only_new_unregister unregisterHarnessCrons_def only_new_same setGlobalEnabled_def deleteTask_begin_def
    completeOnceTask_begin_def Let_def split: option.split)

lemma steps_ok:
  assumes "(reg_step sc)\<^sup>*\<^sup>* R R'" "timers_ok R"
  shows "timers_ok R' \<and> only_new R R'"
  using assms by (induction rule: rtranclp_induct) (auto intro: timers_ok_step only_new_trans only_new_step)

lemma reachable_timers_ok: "(reg_step sc)\<^sup>*\<^sup>* new_cron_registry R \<Longrightarrow> timers_ok R"
  using steps_ok timers_ok_new by blast

lemma removed_never_ticks:
  assumes "timers_ok R" "e < length (rk_entries R)" "e \<notin> registered R" "(reg_step sc)\<^sup>*\<^sup>* R R'" "j < length (rk_jobs R')"
  shows "on_tick j R' \<noteq> Some e"
proof
  assume "on_tick j R' = Some e"
  then have l: "jb_live (rk_jobs R' ! j)" "jb_entry (rk_jobs R' ! j) = e" by (auto simp: on_tick_def split: if_splits)
  have s: "timers_ok R'" "only_new R R'" using steps_ok [OF assms(4,1)] by auto
  have "e \<in> registered R'" using timers_okD(4) [OF s(1) assms(5) l(1)] l(2) by (simp add: in_registered)
  then show False using s(2) assms(2,3) by (auto simp: only_new_def)
qed

section \<open>The end of a once task\<close>

lemma set_state_simps [simp]: "entry_of (set_state e st R) a c = entry_of R a c" "rk_tasks (set_state e st R) = rk_tasks R"
  "rk_jobs (set_state e st R) = rk_jobs R" "length (rk_entries (set_state e st R)) = length (rk_entries R)"
  "e < length (rk_entries R) \<Longrightarrow> en_state (rk_entries (set_state e st R) ! e) = st"
  by (simp_all add: entry_of_def set_state_def)

text \<open>Whether a configuration is one of a task that ends with its run.\<close>

definition ends_with_run :: "CronConfig \<Rightarrow> bool" where
  "ends_with_run cfg \<longleftrightarrow> cc_scheduleType cfg = OnceType \<and> cc_deleteAfterRun cfg \<noteq> Some False"

lemma complete_spec:
  assumes "entry_of R a c = Some e"
  shows "completeOnceTask_begin a c R =
    (if ends_with_run (ts_config (en_state (rk_entries R ! e))) then (remove_task (task_key a c) e R, True) else (R, False))"
  using assms by (auto simp: completeOnceTask_begin_def ends_with_run_def)

lemma removed_is_gone:
  assumes ok: "timers_ok R" and e: "entry_of R a c = Some e" and steps: "(reg_step sc)\<^sup>*\<^sup>* (remove_task (task_key a c) e R) R'"
  shows "entry_of (remove_task (task_key a c) e R) a c = None" "j < length (rk_jobs R') \<Longrightarrow> on_tick j R' \<noteq> Some e"
proof -
  let ?k = "task_key a c" let ?R = "remove_task ?k e R"
  have tasks: "rk_tasks ?R = AList.delete ?k (rk_tasks R)" "rk_entries ?R = rk_entries R" by (simp_all add: remove_task_def stop_job_def)
  show "entry_of ?R a c = None" by (simp add: entry_of_def tasks delete_conv')
  have "e < length (rk_entries ?R)" using entry_okD(1) [OF timers_okD(2) [OF ok entry_of_in [OF e]]] by (simp add: tasks)
  moreover have "e \<notin> registered ?R"
    using tasks_same_entry [OF ok entry_of_in [OF e]] by (auto simp: in_registered tasks AList.delete_eq)
  ultimately show "on_tick j R' \<noteq> Some e" if "j < length (rk_jobs R')"
    using removed_never_ticks [OF timers_ok_remove [OF ok entry_of_in [OF e]] _ _ steps that] by blast
qed

text \<open>C27: A once task whose \<^verbatim>\<open>deleteAfterRun\<close> is not false ends with the run that carries it out, be it a trigger or a timer that began it
  and whatever operations came in between, as long as they left the task registered: at the end of the run it leaves the registry, no timer
  runs it ever again, and a trigger fails exactly if the store then fails to delete the task's files.  If the run was put off or failed, or the
  task is not such a one by then, it stays registered with its timers; a put-off one ends when its message has been sent.\<close>

theorem once_task_ends_with_its_run:
  assumes "(reg_step sc)\<^sup>*\<^sup>* new_cron_registry R0" "run_begin localTime force e R0 = Inr R1" "(reg_step sc)\<^sup>*\<^sup>* R1 R" "entry_of R a c = Some e"
    and run: "run_end x e R q = (R2, q', res, effects)" "after_run a c e res R2 = (R3, waits)"
  shows "if er_executed res \<and> ends_with_run (ts_config (en_state (rk_entries R ! e)))
    then waits \<and> entry_of R3 a c = None \<and> (\<forall>R4 j. (reg_step sc)\<^sup>*\<^sup>* R3 R4 \<longrightarrow> j < length (rk_jobs R4) \<longrightarrow> on_tick j R4 \<noteq> Some e) \<and>
      (\<forall>stored. case triggerTask_end a c res waits stored R3 of
         (R4, Inl err) \<Rightarrow> R4 = R3 \<and> (\<exists>msg. stored = Some msg \<and> err = StoreFailed msg)
       | (R4, Inr r) \<Rightarrow> stored = None \<and> r = res \<and> R4 = emit_cron (CronDeleted a c) R3)
    else \<not> waits \<and> rk_tasks R3 = rk_tasks R \<and> rk_jobs R3 = rk_jobs R \<and>
      (\<forall>R4 t. (reg_step sc)\<^sup>*\<^sup>* R3 R4 \<longrightarrow> entry_of R4 a c = Some e \<longrightarrow> ends_with_run (ts_config (en_state (rk_entries R4 ! e))) \<longrightarrow>
        completeOnceAfterExecution res = CompleteWhenSent t \<longrightarrow>
        entry_of (fst (on_drained a c (CompleteWhenSent t) (t, Sent) R4)) a c = None \<and>
        (\<forall>d. d \<noteq> Sent \<longrightarrow> on_drained a c (CompleteWhenSent t) (t, d) R4 = (R4, False)))"
proof -
  have "timers_ok R1" using assms(2) reachable_timers_ok [OF assms(1)] by (rule timers_ok_run_begin)
  then have ok: "timers_ok R" using steps_ok [OF assms(3)] by blast
  have len: "e < length (rk_entries R)" using entry_okD(1) [OF timers_okD(2) [OF ok entry_of_in [OF assms(4)]]] .
  obtain st where st: "R2 = set_state e st R" "execute_rest x (en_state (rk_entries R ! e)) q = (st, q', res, effects)"
    "ts_config st = ts_config (en_state (rk_entries R ! e))" by (rule run_end_state [OF run(1)])
  have ok2: "timers_ok R2" using timers_ok_run_end [OF ok, of x e q] by (simp add: run(1))
  have e2: "entry_of R2 a c = Some e" "en_state (rk_entries R2 ! e) = st" using assms(4) len by (simp_all add: st(1))
  note cfg = e2(2) [THEN arg_cong, of ts_config, unfolded st(3)]
  show ?thesis
  proof (cases "er_executed res \<and> ends_with_run (ts_config (en_state (rk_entries R ! e)))")
    case True
    then have "after_run a c e res R2 = (remove_task (task_key a c) e R2, True)"
      by (simp add: after_run_def cfg complete_spec [OF e2(1)] completeOnceAfterExecution_def) (simp add: ends_with_run_def)
    then have R3: "R3 = remove_task (task_key a c) e R2" "waits" using run(2) by simp_all
    have "case triggerTask_end a c res waits stored R3 of
         (R4, Inl err) \<Rightarrow> R4 = R3 \<and> (\<exists>msg. stored = Some msg \<and> err = StoreFailed msg)
       | (R4, Inr r) \<Rightarrow> stored = None \<and> r = res \<and> R4 = emit_cron (CronDeleted a c) R3" for stored
      using R3(2) by (cases stored) (simp_all add: triggerTask_end_def completeOnceTask_end_def)
    moreover have "entry_of R3 a c = None" using removed_is_gone(1) [OF ok2 e2(1) rtranclp.rtrancl_refl] by (simp only: R3(1))
    moreover have "on_tick j R4 \<noteq> Some e" if "(reg_step sc)\<^sup>*\<^sup>* R3 R4" "j < length (rk_jobs R4)" for R4 j
      using that unfolding R3(1) by (rule removed_is_gone(2) [OF ok2 e2(1)])
    ultimately show ?thesis unfolding if_P [OF True] using R3(2) by blast
  next
    case False
    have "after_run a c e res R2 = (R2, False)"
      using False by (auto simp: after_run_def cfg complete_spec [OF e2(1)] completeOnceAfterExecution_def split: if_splits option.splits)
    then have R3: "R3 = R2" "\<not> waits" using run(2) by simp_all
    have "entry_of (fst (on_drained a c (CompleteWhenSent t) (t, Sent) R4)) a c = None"
      if "(reg_step sc)\<^sup>*\<^sup>* R3 R4" "entry_of R4 a c = Some e" "ends_with_run (ts_config (en_state (rk_entries R4 ! e)))" for R4 t
      using that removed_is_gone(1) [OF _ that(2), of sc] steps_ok [OF that(1)] ok2 by (simp add: on_drained_def complete_spec R3(1)) blast
    moreover have "on_drained a c (CompleteWhenSent t) (t, d) R4 = (R4, False)" if "d \<noteq> Sent" for d t R4
      using that by (simp add: on_drained_def)
    ultimately show ?thesis using False R3 by (simp add: st(1))
  qed
qed

lemma sample_registry_reachable: "(reg_step sample_scheduler)\<^sup>*\<^sup>* new_cron_registry sample_registry"
proof -
  have "createTask_begin sample_scheduler ''a'' ''c'' once_config new_cron_registry = None" by code_simp
  from reg_create [OF this, of None] show ?thesis unfolding sample_registry_def by (rule r_into_rtranclp)
qed

definition empty_update :: CronConfigUpdate where
  "empty_update = \<lparr>cu_disabled = None, cu_schedule = None, cu_scheduleType = None, cu_runAtMs = Undefined, cu_deleteAfterRun = Undefined,
     cu_timezone = Undefined, cu_activeHours = Undefined, cu_prompt = None, cu_session = None, cu_delivery = Undefined,
     cu_report_to_root = Undefined, cu_report_to_main = Undefined\<rparr>"

definition schedule_update :: CronConfigUpdate where
  "schedule_update = empty_update\<lparr>cu_schedule := Some ''0 9 * * *''\<rparr>"

definition running_registry :: CronRegistry where
  "running_registry = (case run_begin (Inr (9, 0)) True 0 sample_registry of Inr R \<Rightarrow> R | Inl _ \<Rightarrow> sample_registry)"

text \<open>While the run is under way the schedule of the task is changed; the run then ends the task, and its new timer with it.\<close>

definition rescheduled_registry :: CronRegistry where
  "rescheduled_registry = fst (updateConfig_end sample_scheduler ''a'' ''c'' 0 schedule_update (once_config\<lparr>cc_schedule := ''0 9 * * *''\<rparr>) running_registry)"

theorem once_task_ends_with_its_run_witness:
  "case run_end (sample_script False) 0 rescheduled_registry new_queue of (R2, q', res, effects) \<Rightarrow>
     (case after_run ''a'' ''c'' 0 res R2 of (R3, waits) \<Rightarrow>
        er_executed res \<and> waits \<and> entry_of rescheduled_registry ''a'' ''c'' = Some 0 \<and> on_tick 1 rescheduled_registry = Some 0 \<and>
        entry_of R3 ''a'' ''c'' = None \<and> on_tick 1 R3 \<noteq> Some 0)"
proof -
  obtain R2 q' res effects where run: "run_end (sample_script False) 0 rescheduled_registry new_queue = (R2, q', res, effects)" by (metis prod_cases4)
  obtain R3 waits where after: "after_run ''a'' ''c'' 0 res R2 = (R3, waits)" by fastforce
  have begun: "run_begin (Inr (9, 0)) True 0 sample_registry = Inr running_registry" by code_simp
  have "updateConfig_begin sample_scheduler ''a'' ''c'' schedule_update running_registry = Inr (Some 0)"
    "update_agrees (ts_config (en_state (rk_entries running_registry ! 0))) schedule_update (once_config\<lparr>cc_schedule := ''0 9 * * *''\<rparr>)" by code_simp+
  from reg_update [OF this] have step: "(reg_step sample_scheduler)\<^sup>*\<^sup>* running_registry rescheduled_registry"
    unfolding rescheduled_registry_def by (rule r_into_rtranclp)
  have e: "entry_of rescheduled_registry ''a'' ''c'' = Some 0" "on_tick 1 rescheduled_registry = Some 0"
    "ends_with_run (ts_config (en_state (rk_entries rescheduled_registry ! 0)))" by code_simp+
  have "case run_end (sample_script False) 0 rescheduled_registry new_queue of (R2, q', res, effects) \<Rightarrow>
      er_executed res \<and> length (rk_jobs (fst (after_run ''a'' ''c'' 0 res R2))) = 2" by code_simp
  then have res: "er_executed res" "length (rk_jobs R3) = 2" by (simp_all add: run after)
  note t = once_task_ends_with_its_run [OF sample_registry_reachable begun step e(1) run after]
  have g: "waits" "entry_of R3 ''a'' ''c'' = None"
    "(reg_step sample_scheduler)\<^sup>*\<^sup>* R3 R3 \<longrightarrow> 1 < length (rk_jobs R3) \<longrightarrow> on_tick 1 R3 \<noteq> Some 0"
    using t res(1) e(3) by simp_all
  then show ?thesis using res e by (simp add: run after)
qed

text \<open>
  A run completes the task by its name.  A once task that was deleted and created anew while a run of the old one was under way is removed when
  that run ends, before it has run itself.
\<close>

definition recreated_registry :: CronRegistry where
  "recreated_registry = fst (createTask_end sample_scheduler ''a'' ''c'' once_config None (fst (deleteTask_begin ''a'' ''c'' running_registry new_queue)))"

lemma old_run_ends_the_new_task:
  "entry_of recreated_registry ''a'' ''c'' = Some 1 \<and>
   (case run_end (sample_script False) 0 recreated_registry new_queue of (R2, q', res, effects) \<Rightarrow>
      (case after_run ''a'' ''c'' 0 res R2 of (R3, waits) \<Rightarrow> waits \<and> rk_tasks R3 = [] \<and> on_tick 1 R3 = None \<and> ts_lastRun (en_state (rk_entries R3 ! 1)) = None))"
  by code_simp

text \<open>
  When operations do overlap, a timer can outlive its task: a deletion while an update of the schedule waits for the store stops
  the old timer, and the update then starts a new one for the deleted task.
\<close>

lemma update_racing_delete_leaves_a_timer:
  "updateConfig_begin sample_scheduler ''a'' ''c'' schedule_update sample_registry = Inr (Some 0) \<and>
   (let R = fst (updateConfig_end sample_scheduler ''a'' ''c'' 0 schedule_update sample_config
              (fst (deleteTask_begin ''a'' ''c'' sample_registry new_queue)))
    in rk_tasks R = [] \<and> on_tick 1 R = Some 0)"
  by code_simp

text \<open>An update of the run time of a once task alone leaves the timer at the old time.\<close>

definition run_time_update :: CronConfigUpdate where
  "run_time_update = empty_update\<lparr>cu_runAtMs := Val 200\<rparr>"

lemma new_run_time_keeps_the_old_timer:
  "let R = fst (updateConfig_end sample_scheduler ''a'' ''c'' 0 run_time_update (once_config\<lparr>cc_runAtMs := Some 200\<rparr>) sample_registry)
   in cc_runAtMs (ts_config (en_state (rk_entries R ! 0))) = Some 200 \<and> on_tick 0 R = Some 0 \<and> cc_runAtMs (jb_config (rk_jobs R ! 0)) = Some 100"
  by code_simp

end
