(* ===== verification/Goal_Store.thy ===== *)
theory Goal_Store
  imports Bari_Prelude
begin

text \<open>
  The store of thread goals: the contract of \<^verbatim>\<open>agent-modules/goal/src\<close> (\<^verbatim>\<open>types.ts\<close>, \<^verbatim>\<open>store-port.ts\<close>) and its SQLite implementation
  \<^verbatim>\<open>local-runtime/src/thread-goal/store*.ts\<close>, \<^verbatim>\<open>binding-stale.ts\<close>.

  The table is the list of its rows; an \<^verbatim>\<open>UPDATE\<close> maps over the rows its condition selects and counts them.  Columns that hold JSON text
  hold the value it encodes.  Hashes and the JSON text of resources are functions of the host, the clock is an argument.  Numbers that come
  from callers are rational, those of the table are integers.
\<close>

section \<open>Goals\<close>

datatype ThreadGoalStatus = GActive | GPaused | GBlocked | GComplete | GBudgetLimited | GUsageLimited

definition THREAD_GOAL_STATUSES :: "ThreadGoalStatus list" where
  "THREAD_GOAL_STATUSES = [GActive, GPaused, GBlocked, GComplete, GBudgetLimited, GUsageLimited]"

fun goal_status_string :: "ThreadGoalStatus \<Rightarrow> string" where
  "goal_status_string GActive = ''active''"
| "goal_status_string GPaused = ''paused''"
| "goal_status_string GBlocked = ''blocked''"
| "goal_status_string GComplete = ''complete''"
| "goal_status_string GBudgetLimited = ''budget_limited''"
| "goal_status_string GUsageLimited = ''usage_limited''"

definition THREAD_GOAL_STATUS_REASONS :: "string list" where
  "THREAD_GOAL_STATUS_REASONS =
     [''complete(worker_proposal)'', ''complete(verifier_met)'', ''complete(user_requested)'', ''paused(user_requested)'', ''paused(retracted)'',
      ''paused(infra_retryable)'', ''paused(accounting_unavailable)'', ''paused(verifier_unavailable)'', ''paused(route_unavailable)'',
      ''paused(verifier_timeout)'', ''paused(verifier_protocol)'', ''paused(verifier_runtime)'', ''paused(verifier_budget)'',
      ''paused(verifier_capability)'', ''paused(verifier_aborted)'', ''paused(no_progress)'', ''paused(no_progress_after_completion_claim)'',
      ''blocked(worker_reported)'', ''blocked(safety_policy)'', ''blocked(verifier_impossible)'', ''budget_limited(token)'',
      ''budget_limited(main_turn)'', ''budget_limited(active_time)'', ''usage_limited(provider_quota)'', ''usage_limited(rate_limit)'']"

definition THREAD_GOAL_WAIT_REASONS :: "string list" where
  "THREAD_GOAL_WAIT_REASONS =
     [''questionnaire'', ''permission'', ''plan'', ''required_background'', ''automation_owner_conflict'', ''dependency_unavailable'',
      ''verification'', ''unknown'']"

definition isContinuationStatus :: "ThreadGoalStatus \<Rightarrow> bool" where
  "isContinuationStatus st = (st \<in> set [GActive])"

definition isTerminalStatus :: "ThreadGoalStatus \<Rightarrow> bool" where
  "isTerminalStatus st = (st \<in> set [GComplete, GBlocked, GBudgetLimited, GUsageLimited])"

definition validateThreadGoalObjective :: "string \<Rightarrow> nat option \<Rightarrow> string option" where
  "validateThreadGoalObjective v maxChars =
     (if length v = 0 then Some ''goal objective must not be empty''
      else case maxChars of
          Some n \<Rightarrow> if length v > n then Some (''goal objective must not exceed '' @ show_nat n @ '' characters'') else None
        | None \<Rightarrow> None)"

datatype AttachmentType = FileAttachment | ImageAttachment

record ThreadGoalAttachment =
  ga_type :: AttachmentType
  ga_filePath :: string
  ga_fileName :: string
  ga_mimeType :: string
  ga_dataUrl :: "string option"
  ga_assetId :: "string option"
  ga_error :: "string option"

datatype VerifierBackend = EvaluatorBackend | SubagentBackend

datatype VerifierVerdict = VMet | VNotMet | VImpossible | VInconclusive

record LastVerificationV1 =
  lv_backend :: VerifierBackend
  lv_verdict :: VerifierVerdict
  lv_reason :: string
  lv_missing :: "string list"
  lv_missingFingerprint :: "string option"
  lv_notMetStreak :: int
  lv_turnId :: string
  lv_objectiveDigest :: string
  lv_at :: int

datatype ProposalType = ProposeComplete | ProposeBlocked

record LastWorkerProposalV1 =
  wp_type :: ProposalType
  wp_turnId :: string
  wp_summary :: "string option"
  wp_at :: int

datatype ThreadGoalKickoffState = KPending | KEnqueued | KConsumed

fun kickoff_string :: "ThreadGoalKickoffState \<Rightarrow> string" where
  "kickoff_string KPending = ''pending''"
| "kickoff_string KEnqueued = ''enqueued''"
| "kickoff_string KConsumed = ''consumed''"

record ThreadGoalState =
  gs_goalId :: string
  gs_sessionId :: string
  gs_objective :: string
  gs_objectiveResources :: "ThreadGoalAttachment list"
  gs_status :: ThreadGoalStatus
  gs_createdAt :: int
  gs_updatedAt :: int
  gs_tokensUsed :: int
  gs_turnsUsed :: int
  gs_timeUsedSeconds :: int
  gs_tokenBudget :: "int option"
  gs_replyFingerprint :: "string option"
  gs_noProgressStreak :: int
  gs_noToolStreak :: int
  gs_lastVerification :: "LastVerificationV1 option"
  gs_lastWorkerProposal :: "LastWorkerProposalV1 option"
  gs_statusReason :: "string option"
  gs_kickoffAttachments :: "ThreadGoalAttachment list"
  gs_kickoffState :: ThreadGoalKickoffState
  gs_executionWait :: "(string \<times> int) option"

section \<open>Rows\<close>

record ThreadGoalDbRow =
  gr_goal_id :: string
  gr_session_id :: string
  gr_objective :: string
  gr_status :: string
  gr_created_at_ms :: int
  gr_updated_at_ms :: int
  gr_tokens_used :: int
  gr_time_used_seconds :: int
  gr_token_budget :: "int option"
  gr_kickoff_attachments :: "ThreadGoalAttachment list"
  gr_objective_resources :: "ThreadGoalAttachment list"
  gr_kickoff_state :: string
  gr_turns_used :: int
  gr_reply_fingerprint :: "string option"
  gr_no_progress_streak :: int
  gr_no_tool_streak :: int
  gr_last_verification :: "LastVerificationV1 option"
  gr_last_worker_proposal :: "LastWorkerProposalV1 option"
  gr_status_reason :: "string option"
  gr_execution_wait_reason :: "string option"
  gr_execution_wait_since_ms :: "int option"
  gr_execution_wait_epoch :: "int option"

definition numericOrZero :: "rat option \<Rightarrow> int" where
  "numericOrZero v = (case v of Some x \<Rightarrow> if x < 0 then 0 else \<lfloor>x\<rfloor> | None \<Rightarrow> 0)"

definition positiveOrNull :: "rat option \<Rightarrow> int option" where
  "positiveOrNull v = (case v of Some x \<Rightarrow> if x \<le> 0 then None else Some \<lfloor>x\<rfloor> | None \<Rightarrow> None)"

definition isKnownThreadGoalStatus :: "string \<Rightarrow> bool" where
  "isKnownThreadGoalStatus v = (v \<in> set (map goal_status_string THREAD_GOAL_STATUSES))"

definition readStatus :: "string \<Rightarrow> ThreadGoalStatus" where
  "readStatus v = nullish (find (\<lambda>st. goal_status_string st = v) THREAD_GOAL_STATUSES) GPaused"

definition readStatusReason :: "string option \<Rightarrow> string option" where
  "readStatusReason v = (case v of Some r \<Rightarrow> if r \<in> set THREAD_GOAL_STATUS_REASONS then Some r else None | None \<Rightarrow> None)"

definition readExecutionWait :: "string option \<Rightarrow> int option \<Rightarrow> (string \<times> int) option" where
  "readExecutionWait reason sinceMs =
     (case reason of
        None \<Rightarrow> None
      | Some r \<Rightarrow>
          if r \<notin> set THREAD_GOAL_WAIT_REASONS then None
          else case sinceMs of
              Some n \<Rightarrow> if n > 2 ^ 53 - 1 \<or> n < 0 then None else Some (r, n)
            | None \<Rightarrow> None)"

text \<open>Of the checks on a stored value those that its type does not give.\<close>

definition THREAD_GOAL_WORKER_PROPOSAL_SUMMARY_MAX_CHARS :: nat where
  "THREAD_GOAL_WORKER_PROPOSAL_SUMMARY_MAX_CHARS = 2000"

definition non_empty :: "string option \<Rightarrow> string option" where
  "non_empty s = (case s of Some t \<Rightarrow> if t = [] then None else Some t | None \<Rightarrow> None)"

definition isLastVerificationV1 :: "LastVerificationV1 \<Rightarrow> bool" where
  "isLastVerificationV1 v = (lv_notMetStreak v \<ge> 0 \<and> lv_at v \<ge> 0)"

definition readLastVerification :: "LastVerificationV1 option \<Rightarrow> LastVerificationV1 option" where
  "readLastVerification v =
     (case v of
        Some p \<Rightarrow> if isLastVerificationV1 p then Some (p\<lparr>lv_missingFingerprint := non_empty (lv_missingFingerprint p)\<rparr>) else None
      | None \<Rightarrow> None)"

definition isLastWorkerProposalV1 :: "LastWorkerProposalV1 \<Rightarrow> bool" where
  "isLastWorkerProposalV1 p =
     ((case wp_summary p of Some s \<Rightarrow> length s \<le> THREAD_GOAL_WORKER_PROPOSAL_SUMMARY_MAX_CHARS | None \<Rightarrow> True) \<and> wp_at p \<ge> 0)"

definition readLastWorkerProposal :: "LastWorkerProposalV1 option \<Rightarrow> LastWorkerProposalV1 option" where
  "readLastWorkerProposal v =
     (case v of Some p \<Rightarrow> if isLastWorkerProposalV1 p then Some (p\<lparr>wp_summary := non_empty (wp_summary p)\<rparr>) else None | None \<Rightarrow> None)"

definition readKickoffState :: "string \<Rightarrow> ThreadGoalKickoffState" where
  "readKickoffState v = (if v = ''pending'' then KPending else if v = ''enqueued'' then KEnqueued else KConsumed)"

definition rowToThreadGoalState :: "ThreadGoalDbRow \<Rightarrow> ThreadGoalState option" where
  "rowToThreadGoalState row =
     (if gr_goal_id row = [] \<or> gr_session_id row = [] \<or> gr_objective row = [] \<or> gr_status row = [] then None
      else
        (let status = readStatus (gr_status row) in
         Some \<lparr>gs_goalId = gr_goal_id row, gs_sessionId = gr_session_id row, gs_objective = gr_objective row,
           gs_objectiveResources = gr_objective_resources row, gs_status = status, gs_createdAt = gr_created_at_ms row,
           gs_updatedAt = gr_updated_at_ms row, gs_tokensUsed = numericOrZero (Some (of_int (gr_tokens_used row))),
           gs_turnsUsed = numericOrZero (Some (of_int (gr_turns_used row))),
           gs_timeUsedSeconds = numericOrZero (Some (of_int (gr_time_used_seconds row))),
           gs_tokenBudget = positiveOrNull (map_option of_int (gr_token_budget row)), gs_replyFingerprint = gr_reply_fingerprint row,
           gs_noProgressStreak = numericOrZero (Some (of_int (gr_no_progress_streak row))),
           gs_noToolStreak = numericOrZero (Some (of_int (gr_no_tool_streak row))),
           gs_lastVerification = readLastVerification (gr_last_verification row),
           gs_lastWorkerProposal = readLastWorkerProposal (gr_last_worker_proposal row),
           gs_statusReason = readStatusReason (gr_status_reason row), gs_kickoffAttachments = gr_kickoff_attachments row,
           gs_kickoffState = readKickoffState (gr_kickoff_state row),
           gs_executionWait =
             (if status = GActive \<and> gr_execution_wait_epoch row = Some (gr_updated_at_ms row)
              then readExecutionWait (gr_execution_wait_reason row) (gr_execution_wait_since_ms row) else None)\<rparr>))"

type_synonym goal_table = "ThreadGoalDbRow list"

definition row_by_id :: "goal_table \<Rightarrow> string \<Rightarrow> ThreadGoalDbRow option" where
  "row_by_id tbl i = find (\<lambda>r. gr_goal_id r = i) tbl"

definition row_by_session :: "goal_table \<Rightarrow> string \<Rightarrow> ThreadGoalDbRow option" where
  "row_by_session tbl s = find (\<lambda>r. gr_session_id r = s) tbl"

definition readGoal :: "goal_table \<Rightarrow> string \<Rightarrow> ThreadGoalState option" where
  "readGoal tbl i = Option.bind (row_by_id tbl i) rowToThreadGoalState"

definition getBySession :: "goal_table \<Rightarrow> string \<Rightarrow> ThreadGoalState option" where
  "getBySession tbl s = Option.bind (row_by_session tbl s) rowToThreadGoalState"

definition sql_update :: "(ThreadGoalDbRow \<Rightarrow> bool) \<Rightarrow> (ThreadGoalDbRow \<Rightarrow> ThreadGoalDbRow) \<Rightarrow> goal_table \<Rightarrow> goal_table" where
  "sql_update P f tbl = map (\<lambda>r. if P r then f r else r) tbl"

definition sql_changes :: "(ThreadGoalDbRow \<Rightarrow> bool) \<Rightarrow> goal_table \<Rightarrow> nat" where
  "sql_changes P tbl = length (filter P tbl)"

text \<open>The condition of every write that needs the exact epoch of an active goal.\<close>

definition active_at :: "string \<Rightarrow> int \<Rightarrow> ThreadGoalDbRow \<Rightarrow> bool" where
  "active_at i epoch r = (gr_goal_id r = i \<and> gr_updated_at_ms r = epoch \<and> gr_status r = ''active'')"

section \<open>Bindings\<close>

record GoalHost =
  gh_digest :: "string \<Rightarrow> string"
  gh_missing_digest :: "string list \<Rightarrow> string"
  gh_json :: "ThreadGoalAttachment list \<Rightarrow> string"

record GoalTurnBinding =
  tb_goalId :: string
  tb_admittedGoalUpdatedAt :: int
  tb_objectiveDigest :: string
  tb_turnId :: string

datatype StaleReason = StaleMissingGoal | StaleGoalEpoch | StaleObjectiveDigest | StaleGoalStatus

definition classifyThreadGoalAccountingStale :: "GoalHost \<Rightarrow> ThreadGoalState option \<Rightarrow> int \<Rightarrow> string \<Rightarrow> StaleReason option" where
  "classifyThreadGoalAccountingStale h st expectedEpoch digest =
     (case st of
        None \<Rightarrow> Some StaleMissingGoal
      | Some g \<Rightarrow>
          if gs_updatedAt g \<noteq> expectedEpoch then Some StaleGoalEpoch
          else if gh_digest h (gs_objective g) \<noteq> digest then Some StaleObjectiveDigest else None)"

definition classifyThreadGoalBindingStale :: "GoalHost \<Rightarrow> ThreadGoalState option \<Rightarrow> int \<Rightarrow> string \<Rightarrow> StaleReason option" where
  "classifyThreadGoalBindingStale h st expectedEpoch digest =
     (case classifyThreadGoalAccountingStale h st expectedEpoch digest of
        Some r \<Rightarrow> Some r
      | None \<Rightarrow> if map_option gs_status st = Some GActive then None else Some StaleGoalStatus)"

datatype DecisionResult = Settled ThreadGoalState int | StaleDecision StaleReason "ThreadGoalState option"

definition threadGoalStaleDecision :: "GoalHost \<Rightarrow> ThreadGoalState option \<Rightarrow> int \<Rightarrow> string \<Rightarrow> DecisionResult option" where
  "threadGoalStaleDecision h st expectedEpoch digest =
     map_option (\<lambda>r. StaleDecision r st) (classifyThreadGoalBindingStale h st expectedEpoch digest)"

record WorkerProposalInput =
  wi_type :: ProposalType
  wi_turnId :: string
  wi_summary :: "string option"

definition normalizeThreadGoalWorkerProposalSummary :: "string option \<Rightarrow> string option" where
  "normalizeThreadGoalWorkerProposalSummary summary =
     (case summary of
        Some s \<Rightarrow> if js_trim s = [] then None else Some (take THREAD_GOAL_WORKER_PROPOSAL_SUMMARY_MAX_CHARS (js_trim s))
      | None \<Rightarrow> None)"

definition materializeThreadGoalWorkerProposal :: "WorkerProposalInput option \<Rightarrow> int \<Rightarrow> LastWorkerProposalV1 option" where
  "materializeThreadGoalWorkerProposal input epoch =
     map_option (\<lambda>p. \<lparr>wp_type = wi_type p, wp_turnId = wi_turnId p, wp_summary = normalizeThreadGoalWorkerProposalSummary (wi_summary p), wp_at = epoch\<rparr>) input"

section \<open>Accounting and settlement\<close>

record BoundUsageDelta =
  bd_tokens :: "rat option"
  bd_activeSeconds :: "rat option"
  bd_mainTurns :: int

record BudgetLimits =
  bl_tokens :: "rat option"
  bl_mainTurns :: "rat option"
  bl_activeSeconds :: "rat option"

datatype BudgetDimension = DimToken | DimMainTurn | DimActiveTime

fun budget_reason :: "BudgetDimension \<Rightarrow> string" where
  "budget_reason DimToken = ''budget_limited(token)''"
| "budget_reason DimMainTurn = ''budget_limited(main_turn)''"
| "budget_reason DimActiveTime = ''budget_limited(active_time)''"

definition exceeds :: "rat option \<Rightarrow> int \<Rightarrow> bool" where
  "exceeds limit used = (case limit of Some l \<Rightarrow> l > 0 \<and> of_int used \<ge> l | None \<Rightarrow> False)"

definition firstExceededBudget :: "int \<Rightarrow> int \<Rightarrow> int \<Rightarrow> BudgetLimits \<Rightarrow> BudgetDimension option" where
  "firstExceededBudget tokens mainTurns activeSeconds limits =
     (if exceeds (bl_tokens limits) tokens then Some DimToken
      else if exceeds (bl_mainTurns limits) mainTurns then Some DimMainTurn
      else if exceeds (bl_activeSeconds limits) activeSeconds then Some DimActiveTime
      else None)"

record BoundUsageResult =
  ur_goal :: "ThreadGoalState option"
  ur_decisionEpoch :: "int option"
  ur_transitioned :: "BudgetDimension option"
  ur_staleReason :: "StaleReason option"

definition bumpThreadGoalBoundUsage ::
  "GoalHost \<Rightarrow> int \<Rightarrow> GoalTurnBinding \<Rightarrow> BoundUsageDelta \<Rightarrow> BudgetLimits \<Rightarrow> goal_table \<Rightarrow> BoundUsageResult \<times> goal_table" where
  "bumpThreadGoalBoundUsage h now b delta limits tbl =
     (case readGoal tbl (tb_goalId b) of
        None \<Rightarrow> (\<lparr>ur_goal = None, ur_decisionEpoch = None, ur_transitioned = None, ur_staleReason = Some StaleMissingGoal\<rparr>, tbl)
      | Some st \<Rightarrow>
          (let stale = classifyThreadGoalAccountingStale h (Some st) (tb_admittedGoalUpdatedAt b) (tb_objectiveDigest b);
               tokens = numericOrZero (bd_tokens delta);
               activeSeconds = numericOrZero (bd_activeSeconds delta);
               mainTurns = (if bd_mainTurns delta = 1 then 1 else 0)
           in if tokens = 0 \<and> activeSeconds = 0 \<and> mainTurns = 0 then
                (\<lparr>ur_goal = Some st, ur_decisionEpoch = Some (gs_updatedAt st), ur_transitioned = None, ur_staleReason = stale\<rparr>, tbl)
              else
                (let tokensUsed = gs_tokensUsed st + tokens;
                     turnsUsed = gs_turnsUsed st + mainTurns;
                     timeUsedSeconds = gs_timeUsedSeconds st + activeSeconds;
                     dimension = (if gs_status st = GActive then firstExceededBudget tokensUsed turnsUsed timeUsedSeconds limits else None);
                     status = (if dimension \<noteq> None then GBudgetLimited else gs_status st);
                     statusReason = (case dimension of Some d \<Rightarrow> Some (budget_reason d) | None \<Rightarrow> gs_statusReason st);
                     keepsDecisionEpoch = (gs_status st = GBudgetLimited \<or> stale \<noteq> None \<and> dimension = None);
                     decisionEpoch = (if keepsDecisionEpoch then gs_updatedAt st else max now (gs_updatedAt st + 1))
                 in (\<lparr>ur_goal = Some (st\<lparr>gs_status := status, gs_statusReason := statusReason, gs_tokensUsed := tokensUsed, gs_turnsUsed := turnsUsed,
                         gs_timeUsedSeconds := timeUsedSeconds, gs_updatedAt := decisionEpoch,
                         gs_executionWait := (if keepsDecisionEpoch then gs_executionWait st else None)\<rparr>),
                      ur_decisionEpoch = Some decisionEpoch, ur_transitioned = dimension, ur_staleReason = stale\<rparr>,
                     sql_update (\<lambda>r. gr_goal_id r = tb_goalId b)
                       (\<lambda>r. r\<lparr>gr_tokens_used := tokensUsed, gr_turns_used := turnsUsed, gr_time_used_seconds := timeUsedSeconds,
                              gr_status := goal_status_string status, gr_status_reason := statusReason, gr_updated_at_ms := decisionEpoch\<rparr>) tbl))))"

record SettleInput =
  se_goalId :: string
  se_expectedEpoch :: int
  se_objectiveDigest :: string
  se_status :: ThreadGoalStatus
  se_statusReason :: string
  se_workerProposal :: "WorkerProposalInput option"

definition settleThreadGoalBoundTurn :: "GoalHost \<Rightarrow> int \<Rightarrow> SettleInput \<Rightarrow> goal_table \<Rightarrow> DecisionResult \<times> goal_table" where
  "settleThreadGoalBoundTurn h now input tbl =
     (case readGoal tbl (se_goalId input) of
        None \<Rightarrow> (StaleDecision StaleMissingGoal None, tbl)
      | Some st \<Rightarrow>
          (case threadGoalStaleDecision h (Some st) (se_expectedEpoch input) (se_objectiveDigest input) of
             Some stale \<Rightarrow> (stale, tbl)
           | None \<Rightarrow>
               (let decisionEpoch = max now (se_expectedEpoch input + 1);
                    proposal = materializeThreadGoalWorkerProposal (se_workerProposal input) decisionEpoch;
                    P = active_at (se_goalId input) (se_expectedEpoch input);
                    tbl' = sql_update P (\<lambda>r. r\<lparr>gr_status := goal_status_string (se_status input), gr_status_reason := Some (se_statusReason input),
                             gr_updated_at_ms := decisionEpoch, gr_last_worker_proposal := or_else proposal (gr_last_worker_proposal r)\<rparr>) tbl
                in if sql_changes P tbl = 0 then
                     (nullish (threadGoalStaleDecision h (readGoal tbl' (se_goalId input)) (se_expectedEpoch input) (se_objectiveDigest input))
                        (StaleDecision StaleGoalStatus None), tbl')
                   else
                     (Settled (st\<lparr>gs_status := se_status input, gs_statusReason := Some (se_statusReason input), gs_updatedAt := decisionEpoch,
                         gs_lastWorkerProposal := or_else proposal (gs_lastWorkerProposal st), gs_executionWait := None\<rparr>) decisionEpoch, tbl'))))"

section \<open>Verification\<close>

fun collapse_spaces :: "bool \<Rightarrow> string \<Rightarrow> string" where
  "collapse_spaces inSpace [] = []"
| "collapse_spaces inSpace (c # cs) =
     (if js_space c then (if inSpace then collapse_spaces True cs else CHR '' '' # collapse_spaces True cs) else c # collapse_spaces False cs)"

definition normalizeMissing :: "string list \<Rightarrow> string list" where
  "normalizeMissing vs = sort (remdups (filter (\<lambda>v. length v > 0) (map (\<lambda>v. collapse_spaces False (js_trim v)) vs)))"

definition normalizeVerificationResult :: "GoalHost \<Rightarrow> LastVerificationV1 option \<Rightarrow> LastVerificationV1 \<Rightarrow> LastVerificationV1" where
  "normalizeVerificationResult h previous result =
     (let missing = normalizeMissing (lv_missing result) in
      if lv_verdict result \<noteq> VNotMet then result\<lparr>lv_missing := missing, lv_missingFingerprint := None, lv_notMetStreak := 0\<rparr>
      else
        (let fp = gh_missing_digest h missing;
             streak = (case previous of
                 Some p \<Rightarrow> if lv_verdict p = VNotMet \<and> lv_missingFingerprint p = Some fp then lv_notMetStreak p + 1 else 1
               | None \<Rightarrow> 1)
         in result\<lparr>lv_missing := missing, lv_missingFingerprint := Some fp, lv_notMetStreak := streak\<rparr>))"

definition GOAL_CONFIG_repeatedNotMetLimit :: int where
  "GOAL_CONFIG_repeatedNotMetLimit = 5"

definition positiveIntegerOrDefault :: "rat option \<Rightarrow> int \<Rightarrow> int" where
  "positiveIntegerOrDefault v fallback = (case v of Some x \<Rightarrow> if x > 0 then \<lfloor>x\<rfloor> else fallback | None \<Rightarrow> fallback)"

record RecordVerificationInput =
  rv_goalId :: string
  rv_expectedEpoch :: int
  rv_objectiveDigest :: string
  rv_result :: LastVerificationV1
  rv_repeatedNotMetLimit :: "rat option"
  rv_workerProposal :: "WorkerProposalInput option"
  rv_decision :: "(ThreadGoalStatus \<times> string) option"

definition verification_decision :: "RecordVerificationInput \<Rightarrow> LastVerificationV1 \<Rightarrow> (ThreadGoalStatus \<times> string) option" where
  "verification_decision input v =
     (if lv_verdict v = VNotMet \<and> lv_notMetStreak v \<ge> positiveIntegerOrDefault (rv_repeatedNotMetLimit input) GOAL_CONFIG_repeatedNotMetLimit
      then Some (GPaused, ''paused(no_progress)'') else rv_decision input)"

definition recordThreadGoalVerification :: "GoalHost \<Rightarrow> int \<Rightarrow> RecordVerificationInput \<Rightarrow> goal_table \<Rightarrow> DecisionResult \<times> goal_table" where
  "recordThreadGoalVerification h now input tbl =
     (case readGoal tbl (rv_goalId input) of
        None \<Rightarrow> (StaleDecision StaleMissingGoal None, tbl)
      | Some st \<Rightarrow>
          (case threadGoalStaleDecision h (Some st) (rv_expectedEpoch input) (rv_objectiveDigest input) of
             Some stale \<Rightarrow> (stale, tbl)
           | None \<Rightarrow>
               (let v = normalizeVerificationResult h (gs_lastVerification st) (rv_result input);
                    decision = verification_decision input v;
                    nextStatus = nullish (map_option fst decision) (gs_status st);
                    nextStatusReason = (case decision of Some d \<Rightarrow> Some (snd d) | None \<Rightarrow> gs_statusReason st);
                    decisionEpoch = max now (rv_expectedEpoch input + 1);
                    proposal = materializeThreadGoalWorkerProposal (rv_workerProposal input) decisionEpoch;
                    P = active_at (rv_goalId input) (rv_expectedEpoch input);
                    tbl' = sql_update P (\<lambda>r. r\<lparr>gr_last_verification := Some v, gr_status := goal_status_string nextStatus,
                             gr_status_reason := nextStatusReason, gr_updated_at_ms := decisionEpoch,
                             gr_last_worker_proposal := or_else proposal (gr_last_worker_proposal r)\<rparr>) tbl
                in if sql_changes P tbl = 0 then
                     (nullish (threadGoalStaleDecision h (readGoal tbl' (rv_goalId input)) (rv_expectedEpoch input) (rv_objectiveDigest input))
                        (StaleDecision StaleGoalStatus None), tbl')
                   else
                     (Settled (st\<lparr>gs_status := nextStatus, gs_statusReason := nextStatusReason, gs_lastVerification := Some v,
                         gs_lastWorkerProposal := or_else proposal (gs_lastWorkerProposal st), gs_updatedAt := decisionEpoch,
                         gs_executionWait := None\<rparr>) decisionEpoch, tbl'))))"

section \<open>The breaker\<close>

datatype BreakerAction = BNone | BNudge | BPause

definition decideAction :: "int \<Rightarrow> int \<Rightarrow> BreakerAction" where
  "decideAction occurrences limit = (if occurrences \<ge> limit then BPause else if occurrences \<ge> 2 then BNudge else BNone)"

definition strongerAction :: "BreakerAction \<Rightarrow> BreakerAction \<Rightarrow> BreakerAction" where
  "strongerAction left right =
     (if left = BPause \<or> right = BPause then BPause else if left = BNudge \<or> right = BNudge then BNudge else BNone)"

datatype ToolActivity = ToolUsed | ToolAbsent | ToolUnknown

record BreakerInput =
  bi_expectedEpoch :: int
  bi_fingerprint :: "string option"
  bi_toolActivity :: ToolActivity
  bi_limit :: "rat option"
  bi_pauseReason :: "string option"

datatype BreakerCause = RepeatedReply | NoTool

datatype BreakerResult = BreakerDone BreakerAction ThreadGoalState int "BreakerCause option" | BreakerStale StaleReason "ThreadGoalState option"

definition occurrence_limit :: "BreakerInput \<Rightarrow> int" where
  "occurrence_limit input = (case bi_limit input of Some l \<Rightarrow> max 2 \<lfloor>l\<rfloor> | None \<Rightarrow> 2)"

definition reply_repeated :: "string option \<Rightarrow> string option \<Rightarrow> bool" where
  "reply_repeated fingerprint stored = (fingerprint \<noteq> None \<and> stored = fingerprint)"

definition next_reply_streak :: "string option \<Rightarrow> string option \<Rightarrow> int \<Rightarrow> int" where
  "next_reply_streak fingerprint stored streak =
     (if fingerprint \<noteq> None then if reply_repeated fingerprint stored then streak + 1 else 0 else streak)"

definition next_no_tool_streak :: "ToolActivity \<Rightarrow> int \<Rightarrow> int" where
  "next_no_tool_streak activity streak = (if activity = ToolAbsent then streak + 1 else 0)"

definition reply_action :: "BreakerInput \<Rightarrow> string option \<Rightarrow> int \<Rightarrow> BreakerAction" where
  "reply_action input stored streak =
     (if reply_repeated (bi_fingerprint input) stored
      then decideAction (next_reply_streak (bi_fingerprint input) stored streak + 1) (occurrence_limit input) else BNone)"

definition no_tool_action :: "BreakerInput \<Rightarrow> int \<Rightarrow> BreakerAction" where
  "no_tool_action input streak =
     (if bi_toolActivity input = ToolAbsent
      then decideAction (next_no_tool_streak (bi_toolActivity input) streak) (occurrence_limit input) else BNone)"

definition updateThreadGoalBreaker :: "int \<Rightarrow> string \<Rightarrow> BreakerInput \<Rightarrow> goal_table \<Rightarrow> BreakerResult \<times> goal_table" where
  "updateThreadGoalBreaker now goalId input tbl =
     (case readGoal tbl goalId of
        None \<Rightarrow> (BreakerStale StaleMissingGoal None, tbl)
      | Some st \<Rightarrow>
          (let stored = gs_replyFingerprint st;
               nextReplyStreak = next_reply_streak (bi_fingerprint input) stored (gs_noProgressStreak st);
               nextFingerprint = or_else (bi_fingerprint input) stored;
               replyAction = reply_action input stored (gs_noProgressStreak st);
               nextNoToolStreak = next_no_tool_streak (bi_toolActivity input) (gs_noToolStreak st);
               action = strongerAction replyAction (no_tool_action input (gs_noToolStreak st));
               cause = (if action = BNone then None else if replyAction = action then Some RepeatedReply else Some NoTool)
           in if action = BNone \<and> nextFingerprint = stored \<and> nextReplyStreak = gs_noProgressStreak st \<and> nextNoToolStreak = gs_noToolStreak st then
                (if gs_updatedAt st \<noteq> bi_expectedEpoch input then BreakerStale StaleGoalEpoch (Some st)
                 else if gs_status st \<noteq> GActive then BreakerStale StaleGoalStatus (Some st)
                 else BreakerDone BNone st (gs_updatedAt st) None, tbl)
              else
                (let nextStatus = (if action = BPause then GPaused else gs_status st);
                     nextStatusReason = (if action = BPause then Some (nullish (bi_pauseReason input) ''paused(no_progress)'') else gs_statusReason st);
                     nextEpoch = max now (gs_updatedAt st + 1);
                     P = active_at goalId (bi_expectedEpoch input);
                     tbl' = sql_update P (\<lambda>r. r\<lparr>gr_reply_fingerprint := nextFingerprint, gr_no_progress_streak := nextReplyStreak,
                              gr_no_tool_streak := nextNoToolStreak, gr_status := goal_status_string nextStatus,
                              gr_status_reason := nextStatusReason, gr_updated_at_ms := nextEpoch\<rparr>) tbl
                 in if sql_changes P tbl = 0 then
                      (case readGoal tbl' goalId of
                         None \<Rightarrow> BreakerStale StaleMissingGoal None
                       | Some current \<Rightarrow>
                           if gs_updatedAt current \<noteq> bi_expectedEpoch input then BreakerStale StaleGoalEpoch (Some current)
                           else BreakerStale StaleGoalStatus (Some current), tbl')
                    else
                      (BreakerDone action (st\<lparr>gs_status := nextStatus, gs_statusReason := nextStatusReason, gs_replyFingerprint := nextFingerprint,
                          gs_noProgressStreak := nextReplyStreak, gs_noToolStreak := nextNoToolStreak, gs_updatedAt := nextEpoch,
                          gs_executionWait := None\<rparr>) nextEpoch cause, tbl'))))"

section \<open>Patches\<close>

record ThreadGoalPatchInput =
  pi_status :: "ThreadGoalStatus option"
  pi_objective :: "string option"
  pi_objectiveResources :: "ThreadGoalAttachment list option"
  pi_tokenBudget :: "rat nullable"
  pi_statusReason :: "string nullable"
  pi_rejectIfCurrentStatus :: "ThreadGoalStatus option"
  pi_rejectIfObjectiveChangedFrom :: "string option"
  pi_rejectIfUpdatedAtChangedFrom :: "int option"

datatype GoalError =
    GoalNotFound string
  | StatusConflict string ThreadGoalStatus
  | ObjectiveConflict string string string
  | EpochConflict string int int
  | TokenBudgetExhausted string int rat
  | BudgetLimitedError string
  | AlreadyExists string
  | GuardedPatchUnchanged string

definition resumes_token_limited :: "ThreadGoalPatchInput \<Rightarrow> ThreadGoalState \<Rightarrow> bool" where
  "resumes_token_limited input st =
     (pi_status input = Some GActive \<and> gs_status st = GBudgetLimited \<and> gs_statusReason st = Some ''budget_limited(token)'' \<and>
      (case pi_tokenBudget input of Undefined \<Rightarrow> False | Null \<Rightarrow> True | Val b \<Rightarrow> b > of_int (gs_tokensUsed st)))"

text \<open>The checks on the goal that was read; the stored status is needed to recognise one that is unknown.\<close>

definition patch_refused :: "string \<Rightarrow> ThreadGoalPatchInput \<Rightarrow> string \<Rightarrow> ThreadGoalState \<Rightarrow> GoalError option" where
  "patch_refused goalId input storedStatus st =
     (if Some (gs_status st) = pi_rejectIfCurrentStatus input then Some (StatusConflict goalId (gs_status st))
      else if pi_rejectIfObjectiveChangedFrom input \<noteq> None \<and> pi_rejectIfObjectiveChangedFrom input \<noteq> Some (gs_objective st)
        then Some (ObjectiveConflict goalId (the (pi_rejectIfObjectiveChangedFrom input)) (gs_objective st))
      else if pi_rejectIfUpdatedAtChangedFrom input \<noteq> None \<and> pi_rejectIfUpdatedAtChangedFrom input \<noteq> Some (gs_updatedAt st)
        then Some (EpochConflict goalId (the (pi_rejectIfUpdatedAtChangedFrom input)) (gs_updatedAt st))
      else
        (case (case pi_tokenBudget input of
                 Val b \<Rightarrow> if b \<le> of_int (gs_tokensUsed st) then Some (TokenBudgetExhausted goalId (gs_tokensUsed st) b) else None
               | _ \<Rightarrow> None) of
           Some e \<Rightarrow> Some e
         | None \<Rightarrow>
             if pi_status input = Some GActive \<and> gs_status st = GBudgetLimited \<and> \<not> resumes_token_limited input st
               then Some (BudgetLimitedError goalId)
             else if pi_status input = Some GActive \<and> \<not> isKnownThreadGoalStatus storedStatus then Some (StatusConflict goalId GPaused)
             else if pi_status input = Some GActive \<and> gs_status st = GComplete then Some (StatusConflict goalId (gs_status st))
             else None))"

definition patched :: "GoalHost \<Rightarrow> int \<Rightarrow> ThreadGoalPatchInput \<Rightarrow> ThreadGoalState \<Rightarrow> ThreadGoalState" where
  "patched h now input st =
     (let nextObjective = nullish (pi_objective input) (gs_objective st);
          nextResources = nullish (pi_objectiveResources input) (gs_objectiveResources st);
          objectiveChanged = (pi_objective input \<noteq> None \<and> pi_objective input \<noteq> Some (gs_objective st) \<or>
             gh_json h nextResources \<noteq> gh_json h (gs_objectiveResources st));
          resumed = (pi_status input = Some GActive \<and>
             (gs_status st = GPaused \<or> gs_status st = GBlocked \<or> gs_status st = GUsageLimited \<or> resumes_token_limited input st))
      in st\<lparr>gs_objective := nextObjective, gs_objectiveResources := nextResources, gs_status := nullish (pi_status input) (gs_status st),
            gs_updatedAt := max now (gs_updatedAt st + 1),
            gs_tokenBudget := (case pi_tokenBudget input of Undefined \<Rightarrow> gs_tokenBudget st | Null \<Rightarrow> positiveOrNull None | Val b \<Rightarrow> positiveOrNull (Some b)),
            gs_replyFingerprint := (if objectiveChanged \<or> resumed then None else gs_replyFingerprint st),
            gs_noProgressStreak := (if objectiveChanged \<or> resumed then 0 else gs_noProgressStreak st),
            gs_noToolStreak := (if objectiveChanged \<or> resumed then 0 else gs_noToolStreak st),
            gs_lastVerification := (if objectiveChanged then None else gs_lastVerification st),
            gs_lastWorkerProposal := (if objectiveChanged then None else gs_lastWorkerProposal st),
            gs_statusReason := (case pi_statusReason input of
                Val r \<Rightarrow> Some r
              | Null \<Rightarrow> None
              | Undefined \<Rightarrow> if pi_status input \<noteq> None \<and> pi_status input \<noteq> Some (gs_status st) then None else gs_statusReason st),
            gs_executionWait := None\<rparr>)"

definition patch_guard :: "string \<Rightarrow> ThreadGoalPatchInput \<Rightarrow> ThreadGoalDbRow \<Rightarrow> bool" where
  "patch_guard goalId input r =
     (gr_goal_id r = goalId \<and>
      (case pi_rejectIfCurrentStatus input of Some st \<Rightarrow> gr_status r \<noteq> goal_status_string st | None \<Rightarrow> True) \<and>
      (case pi_rejectIfObjectiveChangedFrom input of Some ob \<Rightarrow> gr_objective r = ob | None \<Rightarrow> True) \<and>
      (case pi_rejectIfUpdatedAtChangedFrom input of Some e \<Rightarrow> gr_updated_at_ms r = e | None \<Rightarrow> True))"

definition write_patch :: "ThreadGoalState \<Rightarrow> ThreadGoalDbRow \<Rightarrow> ThreadGoalDbRow" where
  "write_patch g r =
     r\<lparr>gr_status := goal_status_string (gs_status g), gr_objective := gs_objective g, gr_token_budget := gs_tokenBudget g,
       gr_reply_fingerprint := gs_replyFingerprint g, gr_no_progress_streak := gs_noProgressStreak g, gr_no_tool_streak := gs_noToolStreak g,
       gr_last_verification := gs_lastVerification g, gr_last_worker_proposal := gs_lastWorkerProposal g, gr_status_reason := gs_statusReason g,
       gr_updated_at_ms := gs_updatedAt g, gr_objective_resources := gs_objectiveResources g\<rparr>"

definition guarded_patch_missed :: "string \<Rightarrow> ThreadGoalPatchInput \<Rightarrow> goal_table \<Rightarrow> GoalError" where
  "guarded_patch_missed goalId input tbl =
     (case readGoal tbl goalId of
        None \<Rightarrow> GoalNotFound goalId
      | Some current \<Rightarrow>
          if pi_rejectIfCurrentStatus input = Some (gs_status current) then StatusConflict goalId (gs_status current)
          else if pi_rejectIfObjectiveChangedFrom input \<noteq> None \<and> pi_rejectIfObjectiveChangedFrom input \<noteq> Some (gs_objective current)
            then ObjectiveConflict goalId (the (pi_rejectIfObjectiveChangedFrom input)) (gs_objective current)
          else if pi_rejectIfUpdatedAtChangedFrom input \<noteq> None \<and> pi_rejectIfUpdatedAtChangedFrom input \<noteq> Some (gs_updatedAt current)
            then EpochConflict goalId (the (pi_rejectIfUpdatedAtChangedFrom input)) (gs_updatedAt current)
          else GuardedPatchUnchanged goalId)"

text \<open>
  A patch reads and writes in two statements without a transaction, so another process may write between them: \<open>tbl0\<close> is the table it
  reads and \<open>tbl\<close> the one it writes.
\<close>

definition patchThreadGoal :: "GoalHost \<Rightarrow> int \<Rightarrow> string \<Rightarrow> ThreadGoalPatchInput \<Rightarrow> goal_table \<Rightarrow> goal_table \<Rightarrow> (GoalError + ThreadGoalState) \<times> goal_table" where
  "patchThreadGoal h now goalId input tbl0 tbl =
     (case (row_by_id tbl0 goalId, readGoal tbl0 goalId) of
        (Some row, Some st) \<Rightarrow>
          (case patch_refused goalId input (gr_status row) st of
             Some e \<Rightarrow> (Inl e, tbl)
           | None \<Rightarrow>
               (let g = patched h now input st;
                    tbl' = sql_update (patch_guard goalId input) (write_patch g) tbl
                in if (pi_rejectIfCurrentStatus input \<noteq> None \<or> pi_rejectIfObjectiveChangedFrom input \<noteq> None \<or> pi_rejectIfUpdatedAtChangedFrom input \<noteq> None) \<and>
                      sql_changes (patch_guard goalId input) tbl = 0
                   then (Inl (guarded_patch_missed goalId input tbl'), tbl')
                   else (Inr g, tbl')))
      | _ \<Rightarrow> (Inl (GoalNotFound goalId), tbl))"

section \<open>Waits\<close>

definition isCurrentActiveEpoch :: "ThreadGoalDbRow \<Rightarrow> int \<Rightarrow> bool" where
  "isCurrentActiveEpoch r e = (gr_status r = ''active'' \<and> gr_updated_at_ms r = e)"

definition hasVisibleWait :: "ThreadGoalDbRow \<Rightarrow> bool" where
  "hasVisibleWait r = (gr_execution_wait_reason r \<noteq> None \<and> gr_execution_wait_epoch r = Some (gr_updated_at_ms r))"

definition setThreadGoalExecutionWait :: "int \<Rightarrow> string \<Rightarrow> int \<Rightarrow> string \<Rightarrow> goal_table \<Rightarrow> ThreadGoalState option \<times> goal_table" where
  "setThreadGoalExecutionWait now goalId expected reason tbl =
     (case row_by_id tbl goalId of
        None \<Rightarrow> (None, tbl)
      | Some r \<Rightarrow>
          if \<not> isCurrentActiveEpoch r expected \<or> hasVisibleWait r \<and> gr_execution_wait_reason r = Some reason then (None, tbl)
          else
            (let P = active_at goalId expected;
                 tbl' = sql_update P (\<lambda>r. r\<lparr>gr_execution_wait_reason := Some reason, gr_execution_wait_since_ms := Some now,
                          gr_execution_wait_epoch := Some expected\<rparr>) tbl
             in if sql_changes P tbl = 0 then (None, tbl') else (readGoal tbl' goalId, tbl')))"

definition clearThreadGoalExecutionWait :: "string \<Rightarrow> int \<Rightarrow> goal_table \<Rightarrow> ThreadGoalState option \<times> goal_table" where
  "clearThreadGoalExecutionWait goalId expected tbl =
     (case row_by_id tbl goalId of
        None \<Rightarrow> (None, tbl)
      | Some r \<Rightarrow>
          if \<not> isCurrentActiveEpoch r expected \<or> \<not> hasVisibleWait r then (None, tbl)
          else
            (let P = active_at goalId expected;
                 tbl' = sql_update P (\<lambda>r. r\<lparr>gr_execution_wait_reason := None, gr_execution_wait_since_ms := None, gr_execution_wait_epoch := None\<rparr>) tbl
             in if sql_changes P tbl = 0 then (None, tbl') else (readGoal tbl' goalId, tbl')))"

section \<open>The other operations of the store\<close>

record ThreadGoalCreateInput =
  ci_sessionId :: string
  ci_objective :: string
  ci_tokenBudget :: "rat option"
  ci_kickoffAttachments :: "ThreadGoalAttachment list"
  ci_objectiveResources :: "ThreadGoalAttachment list"

definition new_goal_row :: "int \<Rightarrow> string \<Rightarrow> ThreadGoalCreateInput \<Rightarrow> ThreadGoalDbRow" where
  "new_goal_row now goalId input =
     \<lparr>gr_goal_id = goalId, gr_session_id = ci_sessionId input, gr_objective = ci_objective input, gr_status = ''active'', gr_created_at_ms = now,
      gr_updated_at_ms = now, gr_tokens_used = 0, gr_time_used_seconds = 0, gr_token_budget = positiveOrNull (ci_tokenBudget input),
      gr_kickoff_attachments = ci_kickoffAttachments input, gr_objective_resources = ci_objectiveResources input, gr_kickoff_state = ''pending'',
      gr_turns_used = 0, gr_reply_fingerprint = None, gr_no_progress_streak = 0, gr_no_tool_streak = 0, gr_last_verification = None,
      gr_last_worker_proposal = None, gr_status_reason = None, gr_execution_wait_reason = None, gr_execution_wait_since_ms = None,
      gr_execution_wait_epoch = None\<rparr>"

definition new_goal :: "int \<Rightarrow> string \<Rightarrow> ThreadGoalCreateInput \<Rightarrow> ThreadGoalState" where
  "new_goal now goalId input =
     \<lparr>gs_goalId = goalId, gs_sessionId = ci_sessionId input, gs_objective = ci_objective input, gs_objectiveResources = ci_objectiveResources input,
      gs_status = GActive, gs_createdAt = now, gs_updatedAt = now, gs_tokensUsed = 0, gs_turnsUsed = 0, gs_timeUsedSeconds = 0,
      gs_tokenBudget = positiveOrNull (ci_tokenBudget input), gs_replyFingerprint = None, gs_noProgressStreak = 0, gs_noToolStreak = 0,
      gs_lastVerification = None, gs_lastWorkerProposal = None, gs_statusReason = None, gs_kickoffAttachments = ci_kickoffAttachments input,
      gs_kickoffState = KPending, gs_executionWait = None\<rparr>"

definition goal_create :: "int \<Rightarrow> string \<Rightarrow> ThreadGoalCreateInput \<Rightarrow> goal_table \<Rightarrow> (GoalError + ThreadGoalState) \<times> goal_table" where
  "goal_create now goalId input tbl =
     (case row_by_session tbl (ci_sessionId input) of
        Some r \<Rightarrow>
          if gr_status r \<noteq> ''complete'' then (Inl (AlreadyExists (gr_goal_id r)), tbl)
          else (Inr (new_goal now goalId input),
                filter (\<lambda>r. gr_session_id r \<noteq> ci_sessionId input) tbl @ [new_goal_row now goalId input])
      | None \<Rightarrow> (Inr (new_goal now goalId input), tbl @ [new_goal_row now goalId input]))"

definition goal_delete :: "string \<Rightarrow> goal_table \<Rightarrow> goal_table" where
  "goal_delete goalId tbl = filter (\<lambda>r. gr_goal_id r \<noteq> goalId) tbl"

definition pauseActiveBySession :: "int \<Rightarrow> string \<Rightarrow> string \<Rightarrow> goal_table \<Rightarrow> ThreadGoalState option \<times> goal_table" where
  "pauseActiveBySession now sessionId reason tbl =
     (let P = (\<lambda>r. gr_session_id r = sessionId \<and> gr_status r = ''active'');
          tbl' = sql_update P (\<lambda>r. r\<lparr>gr_status := ''paused'', gr_status_reason := Some reason, gr_updated_at_ms := max now (gr_updated_at_ms r + 1)\<rparr>) tbl
      in if sql_changes P tbl = 0 then (None, tbl') else (getBySession tbl' sessionId, tbl'))"

definition transitionActiveAtEpoch :: "int \<Rightarrow> string \<Rightarrow> int \<Rightarrow> ThreadGoalStatus \<Rightarrow> string \<Rightarrow> goal_table \<Rightarrow> ThreadGoalState option \<times> goal_table" where
  "transitionActiveAtEpoch now goalId expected status reason tbl =
     (let P = active_at goalId expected;
          tbl' = sql_update P (\<lambda>r. r\<lparr>gr_status := goal_status_string status, gr_status_reason := Some reason, gr_updated_at_ms := max now (expected + 1)\<rparr>) tbl
      in if sql_changes P tbl = 0 then (None, tbl') else (readGoal tbl' goalId, tbl'))"

definition resetBreakerAtEpoch :: "int \<Rightarrow> string \<Rightarrow> int \<Rightarrow> goal_table \<Rightarrow> ThreadGoalState option \<times> goal_table" where
  "resetBreakerAtEpoch now goalId expected tbl =
     (let P = active_at goalId expected;
          tbl' = sql_update P (\<lambda>r. r\<lparr>gr_reply_fingerprint := None, gr_no_progress_streak := 0, gr_no_tool_streak := 0, gr_updated_at_ms := max now (expected + 1)\<rparr>) tbl
      in if sql_changes P tbl = 0 then (None, tbl') else (readGoal tbl' goalId, tbl'))"

definition transitionKickoffState :: "string \<Rightarrow> ThreadGoalKickoffState \<Rightarrow> ThreadGoalKickoffState \<Rightarrow> goal_table \<Rightarrow> ThreadGoalState option \<times> goal_table" where
  "transitionKickoffState goalId expected next tbl =
     (let P = (\<lambda>r. gr_goal_id r = goalId \<and> gr_kickoff_state r = kickoff_string expected);
          tbl' = sql_update P (\<lambda>r. r\<lparr>gr_kickoff_state := kickoff_string next\<rparr>) tbl
      in if sql_changes P tbl = 0 then (None, tbl') else (readGoal tbl' goalId, tbl'))"

text \<open>The listings for recovery at startup, in the order of their key.\<close>

definition list_states :: "(ThreadGoalDbRow \<Rightarrow> bool) \<Rightarrow> (ThreadGoalDbRow \<Rightarrow> int) \<Rightarrow> goal_table \<Rightarrow> ThreadGoalState list" where
  "list_states P key tbl = List.map_filter rowToThreadGoalState (sort_key key (sort_key gr_goal_id (filter P tbl)))"

definition listRecoverableKickoffs :: "goal_table \<Rightarrow> ThreadGoalState list" where
  "listRecoverableKickoffs = list_states (\<lambda>r. gr_kickoff_state r \<in> set [''pending'', ''enqueued''] \<and> gr_status r \<noteq> ''complete'') gr_created_at_ms"

definition listRecoverableActiveGoals :: "goal_table \<Rightarrow> ThreadGoalState list" where
  "listRecoverableActiveGoals = list_states (\<lambda>r. gr_kickoff_state r = ''consumed'' \<and> gr_status r = ''active'') gr_updated_at_ms"

definition listRecoverableBudgetLimitSummaries :: "goal_table \<Rightarrow> ThreadGoalState list" where
  "listRecoverableBudgetLimitSummaries = list_states (\<lambda>r. gr_status r = ''budget_limited'') gr_updated_at_ms"

definition listThreadGoalsWaitingOnVerification :: "goal_table \<Rightarrow> ThreadGoalState list" where
  "listThreadGoalsWaitingOnVerification =
     list_states (\<lambda>r. gr_status r = ''active'' \<and> gr_execution_wait_reason r = Some ''verification'' \<and>
       gr_execution_wait_epoch r = Some (gr_updated_at_ms r)) gr_updated_at_ms"

end
