(* ===== verification/Goal_Runs.thy ===== *)
theory Goal_Runs
  imports Goal_Store
begin

text \<open>
  What the goal store promises: its table stays well-formed, what an operation returns is what is stored, decisions need the exact epoch of
  an active goal and are made once, and usage is always charged.
\<close>

section \<open>Selecting and updating\<close>

lemma known_status [simp]: "readStatus (goal_status_string st) = st" "goal_status_string st \<noteq> []"
  by (cases st; simp add: readStatus_def THREAD_GOAL_STATUSES_def nullish_def)+

lemma goal_status_inj [simp]: "goal_status_string a = goal_status_string b \<longleftrightarrow> a = b"
  by (metis known_status(1))

lemma readStatus_other: "\<not> isKnownThreadGoalStatus v \<Longrightarrow> readStatus v = GPaused"
  by (auto simp: isKnownThreadGoalStatus_def readStatus_def nullish_def find_None_iff THREAD_GOAL_STATUSES_def split: option.split)

lemma known_iff: "isKnownThreadGoalStatus v \<longleftrightarrow> (\<exists>st. v = goal_status_string st)"
proof
  assume "\<exists>st. v = goal_status_string st"
  then obtain st where "v = goal_status_string st" ..
  then show "isKnownThreadGoalStatus v" by (cases st) (simp_all add: isKnownThreadGoalStatus_def THREAD_GOAL_STATUSES_def)
qed (auto simp: isKnownThreadGoalStatus_def)

lemma numericOrZero_int [simp]: "numericOrZero (Some (rat_of_int x)) = max 0 x"
  by (simp add: numericOrZero_def)

lemma numericOrZero_nonneg [simp]: "0 \<le> numericOrZero v"
  by (simp add: numericOrZero_def split: option.split)

lemma row_by_id_SomeD: "row_by_id tbl i = Some r \<Longrightarrow> r \<in> set tbl \<and> gr_goal_id r = i"
  by (auto simp: row_by_id_def find_Some_iff)

lemma row_by_id_eq:
  assumes "distinct (map gr_goal_id tbl)" "r \<in> set tbl"
  shows "row_by_id tbl (gr_goal_id r) = Some r"
  using assms by (induction tbl) (auto simp: row_by_id_def)

lemma row_by_id_update [simp]:
  assumes "\<And>r. gr_goal_id (f r) = gr_goal_id r"
  shows "row_by_id (sql_update P f tbl) i = map_option (\<lambda>r. if P r then f r else r) (row_by_id tbl i)"
  using assms by (induction tbl) (auto simp: row_by_id_def sql_update_def)

lemma sql_changes_0: "sql_changes P tbl = 0 \<longleftrightarrow> (\<forall>r \<in> set tbl. \<not> P r)"
  by (simp add: sql_changes_def filter_empty_conv)

lemma sql_update_none: "sql_changes P tbl = 0 \<Longrightarrow> sql_update P f tbl = tbl"
  unfolding sql_changes_0 sql_update_def by (induction tbl) auto

lemma changes_active_at:
  assumes "distinct (map gr_goal_id tbl)" "row_by_id tbl i = Some r"
  shows "sql_changes (active_at i e) tbl = 0 \<longleftrightarrow> \<not> active_at i e r"
proof -
  have "r' = r" if "r' \<in> set tbl" "gr_goal_id r' = i" for r' using row_by_id_eq [OF assms(1) that(1)] that(2) assms(2) by simp
  then show ?thesis using row_by_id_SomeD [OF assms(2)] unfolding sql_changes_0 by (auto simp: active_at_def)
qed

section \<open>Well-formed tables\<close>

definition reason_ok :: "string option \<Rightarrow> bool" where
  "reason_ok v = (case v of Some r \<Rightarrow> r \<in> set THREAD_GOAL_STATUS_REASONS | None \<Rightarrow> True)"

definition budget_ok :: "int option \<Rightarrow> bool" where
  "budget_ok b = (case b of Some x \<Rightarrow> 0 < x | None \<Rightarrow> True)"

text \<open>A wait belongs to an epoch the row has had.\<close>

definition wait_ok :: "int option \<Rightarrow> int \<Rightarrow> bool" where
  "wait_ok w epoch = (case w of Some e \<Rightarrow> e \<le> epoch | None \<Rightarrow> True)"

definition row_ok :: "ThreadGoalDbRow \<Rightarrow> bool" where
  "row_ok r \<longleftrightarrow> gr_goal_id r \<noteq> [] \<and> gr_session_id r \<noteq> [] \<and> gr_objective r \<noteq> [] \<and> isKnownThreadGoalStatus (gr_status r) \<and>
     0 \<le> gr_updated_at_ms r \<and> 0 \<le> gr_tokens_used r \<and> 0 \<le> gr_turns_used r \<and> 0 \<le> gr_time_used_seconds r \<and>
     budget_ok (gr_token_budget r) \<and> 0 \<le> gr_no_progress_streak r \<and> 0 \<le> gr_no_tool_streak r \<and>
     readLastVerification (gr_last_verification r) = gr_last_verification r \<and>
     readLastWorkerProposal (gr_last_worker_proposal r) = gr_last_worker_proposal r \<and> reason_ok (gr_status_reason r) \<and>
     wait_ok (gr_execution_wait_epoch r) (gr_updated_at_ms r)"

definition goal_table_ok :: "goal_table \<Rightarrow> bool" where
  "goal_table_ok tbl \<longleftrightarrow> distinct (map gr_goal_id tbl) \<and> distinct (map gr_session_id tbl) \<and> list_all row_ok tbl"

text \<open>What is read off a well-formed row.\<close>

definition row_state :: "ThreadGoalDbRow \<Rightarrow> ThreadGoalState" where
  "row_state row =
     \<lparr>gs_goalId = gr_goal_id row, gs_sessionId = gr_session_id row, gs_objective = gr_objective row, gs_objectiveResources = gr_objective_resources row,
      gs_status = readStatus (gr_status row), gs_createdAt = gr_created_at_ms row, gs_updatedAt = gr_updated_at_ms row,
      gs_tokensUsed = gr_tokens_used row, gs_turnsUsed = gr_turns_used row, gs_timeUsedSeconds = gr_time_used_seconds row,
      gs_tokenBudget = gr_token_budget row, gs_replyFingerprint = gr_reply_fingerprint row, gs_noProgressStreak = gr_no_progress_streak row,
      gs_noToolStreak = gr_no_tool_streak row, gs_lastVerification = gr_last_verification row, gs_lastWorkerProposal = gr_last_worker_proposal row,
      gs_statusReason = gr_status_reason row, gs_kickoffAttachments = gr_kickoff_attachments row, gs_kickoffState = readKickoffState (gr_kickoff_state row),
      gs_executionWait =
        (if readStatus (gr_status row) = GActive \<and> gr_execution_wait_epoch row = Some (gr_updated_at_ms row)
         then readExecutionWait (gr_execution_wait_reason row) (gr_execution_wait_since_ms row) else None)\<rparr>"

lemma budget_read: "budget_ok b \<Longrightarrow> positiveOrNull (map_option rat_of_int b) = b"
  by (cases b) (simp_all add: positiveOrNull_def budget_ok_def)

lemma reason_read: "reason_ok v \<Longrightarrow> readStatusReason v = v"
  by (cases v) (simp_all add: reason_ok_def readStatusReason_def)

lemma row_ok_read: "row_ok r \<Longrightarrow> rowToThreadGoalState r = Some (row_state r)"
  by (auto simp: row_ok_def rowToThreadGoalState_def row_state_def Let_def budget_read reason_read known_iff max_def)
    (metis known_status(2))

lemma table_row_ok: "goal_table_ok tbl \<Longrightarrow> row_by_id tbl i = Some r \<Longrightarrow> row_ok r"
  by (auto simp: goal_table_ok_def list_all_iff dest: row_by_id_SomeD)

lemma readGoal_ok: "goal_table_ok tbl \<Longrightarrow> readGoal tbl i = map_option row_state (row_by_id tbl i)"
  using row_ok_read table_row_ok by (cases "row_by_id tbl i") (auto simp: readGoal_def)

lemma table_ok_update:
  assumes "goal_table_ok tbl" "\<And>r. gr_goal_id (f r) = gr_goal_id r" "\<And>r. gr_session_id (f r) = gr_session_id r"
    "\<And>r. r \<in> set tbl \<Longrightarrow> P r \<Longrightarrow> row_ok (f r)"
  shows "goal_table_ok (sql_update P f tbl)"
proof -
  have "map gr_goal_id (sql_update P f tbl) = map gr_goal_id tbl" "map gr_session_id (sql_update P f tbl) = map gr_session_id tbl"
    using assms(2,3) by (simp_all add: sql_update_def)
  moreover have "list_all row_ok (sql_update P f tbl)" using assms(1,4) by (auto simp: goal_table_ok_def list_all_iff sql_update_def)
  ultimately show ?thesis using assms(1) unfolding goal_table_ok_def by metis
qed

text \<open>An update that advances the epoch retires the wait.\<close>

lemma wait_retired: "row_ok r \<Longrightarrow> gr_updated_at_ms r < e \<Longrightarrow> gr_execution_wait_epoch r \<noteq> Some e"
  by (auto simp: row_ok_def wait_ok_def)

section \<open>Decisions\<close>

lemma bind_stale_None:
  "classifyThreadGoalBindingStale h (Some g) e d = None \<longleftrightarrow> gs_updatedAt g = e \<and> gh_digest h (gs_objective g) = d \<and> gs_status g = GActive"
  by (auto simp: classifyThreadGoalBindingStale_def classifyThreadGoalAccountingStale_def)

lemma stale_decision_None:
  "threadGoalStaleDecision h (Some g) e d = None \<longleftrightarrow> gs_updatedAt g = e \<and> gh_digest h (gs_objective g) = d \<and> gs_status g = GActive"
  by (simp add: threadGoalStaleDecision_def bind_stale_None)

lemma row_state_simps [simp]:
  "gs_updatedAt (row_state r) = gr_updated_at_ms r" "gs_objective (row_state r) = gr_objective r" "gs_status (row_state r) = readStatus (gr_status r)"
  "gs_statusReason (row_state r) = gr_status_reason r" "gs_tokensUsed (row_state r) = gr_tokens_used r" "gs_goalId (row_state r) = gr_goal_id r"
  "gs_tokenBudget (row_state r) = gr_token_budget r"
  by (simp_all add: row_state_def)

lemma status_active: "row_ok r \<Longrightarrow> readStatus (gr_status r) = st \<longleftrightarrow> gr_status r = goal_status_string st"
  by (auto simp: row_ok_def known_iff)

definition settle_row :: "int \<Rightarrow> SettleInput \<Rightarrow> ThreadGoalDbRow \<Rightarrow> ThreadGoalDbRow" where
  "settle_row now input r =
     (let e = max now (se_expectedEpoch input + 1) in
      r\<lparr>gr_status := goal_status_string (se_status input), gr_status_reason := Some (se_statusReason input), gr_updated_at_ms := e,
        gr_last_worker_proposal := or_else (materializeThreadGoalWorkerProposal (se_workerProposal input) e) (gr_last_worker_proposal r)\<rparr>)"

lemma row_by_id_settle [simp]:
  "row_by_id (sql_update P (settle_row now input) tbl) i = map_option (\<lambda>r. if P r then settle_row now input r else r) (row_by_id tbl i)"
  by (rule row_by_id_update) (simp add: settle_row_def Let_def)

text \<open>A settlement either finds the binding stale and changes nothing, or moves the one row.\<close>

lemma settle_cases:
  assumes ok: "goal_table_ok tbl" and s: "settleThreadGoalBoundTurn h now input tbl = (res, tbl')"
  obtains (stale) reason g where "res = StaleDecision reason g" "tbl' = tbl"
  | (settled) r where "row_by_id tbl (se_goalId input) = Some r" "active_at (se_goalId input) (se_expectedEpoch input) r"
      "gh_digest h (gr_objective r) = se_objectiveDigest input"
      "tbl' = sql_update (active_at (se_goalId input) (se_expectedEpoch input)) (settle_row now input) tbl"
      "res = Settled (row_state (settle_row now input r)) (max now (se_expectedEpoch input + 1))"
proof (cases "row_by_id tbl (se_goalId input)")
  case None
  then show ?thesis using s by (auto intro!: stale simp: settleThreadGoalBoundTurn_def readGoal_ok [OF ok])
next
  case (Some r)
  note rok = table_row_ok [OF ok Some]
  show ?thesis
  proof (cases "threadGoalStaleDecision h (Some (row_state r)) (se_expectedEpoch input) (se_objectiveDigest input)")
    case (Some d)
    then show ?thesis using s stale \<open>row_by_id tbl (se_goalId input) = Some r\<close>
      by (auto simp: settleThreadGoalBoundTurn_def readGoal_ok [OF ok] threadGoalStaleDecision_def)
  next
    case None
    note n = None [unfolded stale_decision_None]
    have a: "active_at (se_goalId input) (se_expectedEpoch input) r"
      using n status_active [OF rok] row_by_id_SomeD [OF Some] by (simp add: active_at_def)
    have c: "sql_changes (active_at (se_goalId input) (se_expectedEpoch input)) tbl \<noteq> 0"
      using changes_active_at [OF _ Some] a ok by (simp add: goal_table_ok_def)
    have w: "gr_execution_wait_epoch r \<noteq> Some (max now (se_expectedEpoch input + 1))"
      using wait_retired [OF rok] n by simp
    show ?thesis
    proof (rule settled [OF Some a])
      show "gh_digest h (gr_objective r) = se_objectiveDigest input" using n by simp
    qed (use s None Some c w in \<open>simp_all add: settleThreadGoalBoundTurn_def readGoal_ok [OF ok] Let_def settle_row_def [abs_def] row_state_def\<close>)
  qed
qed

definition verified :: "GoalHost \<Rightarrow> RecordVerificationInput \<Rightarrow> ThreadGoalDbRow \<Rightarrow> LastVerificationV1" where
  "verified h input r = normalizeVerificationResult h (gr_last_verification r) (rv_result input)"

definition record_row :: "GoalHost \<Rightarrow> int \<Rightarrow> RecordVerificationInput \<Rightarrow> ThreadGoalDbRow \<Rightarrow> ThreadGoalDbRow \<Rightarrow> ThreadGoalDbRow" where
  "record_row h now input old r =
     (let e = max now (rv_expectedEpoch input + 1); v = verified h input old; d = verification_decision input v in
      r\<lparr>gr_last_verification := Some v, gr_status := goal_status_string (nullish (map_option fst d) (readStatus (gr_status old))),
        gr_status_reason := (case d of Some x \<Rightarrow> Some (snd x) | None \<Rightarrow> gr_status_reason old), gr_updated_at_ms := e,
        gr_last_worker_proposal := or_else (materializeThreadGoalWorkerProposal (rv_workerProposal input) e) (gr_last_worker_proposal r)\<rparr>)"

lemma record_cases:
  assumes ok: "goal_table_ok tbl" and s: "recordThreadGoalVerification h now input tbl = (res, tbl')"
  obtains (stale) reason g where "res = StaleDecision reason g" "tbl' = tbl"
  | (settled) r where "row_by_id tbl (rv_goalId input) = Some r" "active_at (rv_goalId input) (rv_expectedEpoch input) r"
      "gh_digest h (gr_objective r) = rv_objectiveDigest input"
      "tbl' = sql_update (active_at (rv_goalId input) (rv_expectedEpoch input)) (record_row h now input r) tbl"
      "res = Settled (row_state (record_row h now input r r)) (max now (rv_expectedEpoch input + 1))"
proof (cases "row_by_id tbl (rv_goalId input)")
  case None
  then show ?thesis using s by (auto intro!: stale simp: recordThreadGoalVerification_def readGoal_ok [OF ok])
next
  case (Some r)
  note rok = table_row_ok [OF ok Some]
  show ?thesis
  proof (cases "threadGoalStaleDecision h (Some (row_state r)) (rv_expectedEpoch input) (rv_objectiveDigest input)")
    case (Some d)
    then show ?thesis using s stale \<open>row_by_id tbl (rv_goalId input) = Some r\<close>
      by (auto simp: recordThreadGoalVerification_def readGoal_ok [OF ok] threadGoalStaleDecision_def)
  next
    case None
    note n = None [unfolded stale_decision_None]
    have a: "active_at (rv_goalId input) (rv_expectedEpoch input) r"
      using n status_active [OF rok] row_by_id_SomeD [OF Some] by (simp add: active_at_def)
    have c: "sql_changes (active_at (rv_goalId input) (rv_expectedEpoch input)) tbl \<noteq> 0"
      using changes_active_at [OF _ Some] a ok by (simp add: goal_table_ok_def)
    have w: "gr_execution_wait_epoch r \<noteq> Some (max now (rv_expectedEpoch input + 1))" using wait_retired [OF rok] n by simp
    have lv: "gs_lastVerification (row_state r) = gr_last_verification r" by (simp add: row_state_def)
    have e: "(res, tbl') =
       (Settled (row_state (record_row h now input r r)) (max now (rv_expectedEpoch input + 1)),
        sql_update (active_at (rv_goalId input) (rv_expectedEpoch input)) (record_row h now input r) tbl)"
      using s None Some c w
      by (simp add: recordThreadGoalVerification_def readGoal_ok [OF ok] Let_def record_row_def [abs_def] verified_def lv)
        (auto simp: row_state_def cong: option.case_cong)
    show ?thesis by (rule settled [OF Some a]) (use n e in simp_all)
  qed
qed

section \<open>The breaker\<close>

definition breaker_action :: "BreakerInput \<Rightarrow> ThreadGoalDbRow \<Rightarrow> BreakerAction" where
  "breaker_action input r =
     strongerAction (reply_action input (gr_reply_fingerprint r) (gr_no_progress_streak r)) (no_tool_action input (gr_no_tool_streak r))"

definition breaker_row :: "int \<Rightarrow> BreakerInput \<Rightarrow> ThreadGoalDbRow \<Rightarrow> ThreadGoalDbRow \<Rightarrow> ThreadGoalDbRow" where
  "breaker_row now input old r =
     r\<lparr>gr_reply_fingerprint := or_else (bi_fingerprint input) (gr_reply_fingerprint old),
       gr_no_progress_streak := next_reply_streak (bi_fingerprint input) (gr_reply_fingerprint old) (gr_no_progress_streak old),
       gr_no_tool_streak := next_no_tool_streak (bi_toolActivity input) (gr_no_tool_streak old),
       gr_status := goal_status_string (if breaker_action input old = BPause then GPaused else readStatus (gr_status old)),
       gr_status_reason :=
         (if breaker_action input old = BPause then Some (nullish (bi_pauseReason input) ''paused(no_progress)'') else gr_status_reason old),
       gr_updated_at_ms := max now (gr_updated_at_ms old + 1)\<rparr>"

text \<open>Nothing to write: the counters stay as they are.\<close>

definition breaker_idle :: "BreakerInput \<Rightarrow> ThreadGoalDbRow \<Rightarrow> bool" where
  "breaker_idle input r \<longleftrightarrow> breaker_action input r = BNone \<and> or_else (bi_fingerprint input) (gr_reply_fingerprint r) = gr_reply_fingerprint r \<and>
     next_reply_streak (bi_fingerprint input) (gr_reply_fingerprint r) (gr_no_progress_streak r) = gr_no_progress_streak r \<and>
     next_no_tool_streak (bi_toolActivity input) (gr_no_tool_streak r) = gr_no_tool_streak r"

lemma row_state_counters:
  "gs_replyFingerprint (row_state r) = gr_reply_fingerprint r" "gs_noProgressStreak (row_state r) = gr_no_progress_streak r"
  "gs_noToolStreak (row_state r) = gr_no_tool_streak r"
  by (simp_all add: row_state_def)

lemma breaker_cases:
  assumes ok: "goal_table_ok tbl" and s: "updateThreadGoalBreaker now i input tbl = (res, tbl')"
  obtains (stale) reason g where "res = BreakerStale reason g" "tbl' = tbl"
  | (idle) r where "row_by_id tbl i = Some r" "active_at i (bi_expectedEpoch input) r" "breaker_idle input r" "tbl' = tbl"
      "res = BreakerDone BNone (row_state r) (gr_updated_at_ms r) None"
  | (counted) r cause where "row_by_id tbl i = Some r" "active_at i (bi_expectedEpoch input) r" "\<not> breaker_idle input r"
      "tbl' = sql_update (active_at i (bi_expectedEpoch input)) (breaker_row now input r) tbl"
      "res = BreakerDone (breaker_action input r) (row_state (breaker_row now input r r)) (max now (gr_updated_at_ms r + 1)) cause"
proof (cases "row_by_id tbl i")
  case None
  then show ?thesis using s by (auto intro!: stale simp: updateThreadGoalBreaker_def readGoal_ok [OF ok])
next
  case (Some r)
  note rok = table_row_ok [OF ok Some]
  have g: "readGoal tbl i = Some (row_state r)" using Some by (simp add: readGoal_ok [OF ok])
  have a: "active_at i e r \<longleftrightarrow> gr_updated_at_ms r = e \<and> readStatus (gr_status r) = GActive" for e
    using status_active [OF rok] row_by_id_SomeD [OF Some] by (auto simp: active_at_def)
  have c: "sql_changes (active_at i (bi_expectedEpoch input)) tbl = 0 \<longleftrightarrow> \<not> active_at i (bi_expectedEpoch input) r"
    using changes_active_at [OF _ Some] ok by (simp add: goal_table_ok_def)
  note d = updateThreadGoalBreaker_def g Let_def row_state_counters breaker_action_def [symmetric]
  show ?thesis
  proof (cases "breaker_idle input r")
    case True
    then have "(res, tbl') = (if gr_updated_at_ms r \<noteq> bi_expectedEpoch input then BreakerStale StaleGoalEpoch (Some (row_state r))
       else if readStatus (gr_status r) \<noteq> GActive then BreakerStale StaleGoalStatus (Some (row_state r))
       else BreakerDone BNone (row_state r) (gr_updated_at_ms r) None, tbl)"
      using s by (auto simp: d breaker_idle_def split: if_splits)
    then show ?thesis using stale idle [OF Some _ True] a by (auto split: if_splits)
  next
    case False
    then have n: "\<not> (breaker_action input r = BNone \<and> or_else (bi_fingerprint input) (gr_reply_fingerprint r) = gr_reply_fingerprint r \<and>
     next_reply_streak (bi_fingerprint input) (gr_reply_fingerprint r) (gr_no_progress_streak r) = gr_no_progress_streak r \<and>
     next_no_tool_streak (bi_toolActivity input) (gr_no_tool_streak r) = gr_no_tool_streak r)" by (simp add: breaker_idle_def)
    show ?thesis
    proof (cases "active_at i (bi_expectedEpoch input) r")
      case act: True
      have w: "gr_execution_wait_epoch r \<noteq> Some (max now (gr_updated_at_ms r + 1))" using wait_retired [OF rok] by simp
      have st: "(row_state r)\<lparr>gs_status := if breaker_action input r = BPause then GPaused else readStatus (gr_status r),
           gs_statusReason := if breaker_action input r = BPause then Some (nullish (bi_pauseReason input) ''paused(no_progress)'') else gr_status_reason r,
           gs_replyFingerprint := or_else (bi_fingerprint input) (gr_reply_fingerprint r),
           gs_noProgressStreak := next_reply_streak (bi_fingerprint input) (gr_reply_fingerprint r) (gr_no_progress_streak r),
           gs_noToolStreak := next_no_tool_streak (bi_toolActivity input) (gr_no_tool_streak r),
           gs_updatedAt := max now (gr_updated_at_ms r + 1), gs_executionWait := None\<rparr> = row_state (breaker_row now input r r)"
        using w by (simp add: row_state_def breaker_row_def)
      have "\<exists>cause. (res, tbl') = (BreakerDone (breaker_action input r) (row_state (breaker_row now input r r)) (max now (gr_updated_at_ms r + 1)) cause,
         sql_update (active_at i (bi_expectedEpoch input)) (breaker_row now input r) tbl)"
        using c act unfolding s [symmetric] breaker_row_def [of now input r, abs_def]
        by (simp add: d n st cong: if_cong) (simp add: breaker_row_def)
      then show ?thesis using counted [OF Some act False] by blast
    next
      case inact: False
      have "\<exists>reason g. (res, tbl') = (BreakerStale reason g, tbl)"
        using c inact unfolding s [symmetric] by (simp add: d n sql_update_none cong: if_cong)
      then show ?thesis using stale by blast
    qed
  qed
qed

section \<open>Charges\<close>

definition charge_tokens :: "BoundUsageDelta \<Rightarrow> int" where
  "charge_tokens d = numericOrZero (bd_tokens d)"

definition charge_seconds :: "BoundUsageDelta \<Rightarrow> int" where
  "charge_seconds d = numericOrZero (bd_activeSeconds d)"

definition charge_turns :: "BoundUsageDelta \<Rightarrow> int" where
  "charge_turns d = (if bd_mainTurns d = 1 then 1 else 0)"

definition charge_empty :: "BoundUsageDelta \<Rightarrow> bool" where
  "charge_empty d \<longleftrightarrow> charge_tokens d = 0 \<and> charge_seconds d = 0 \<and> charge_turns d = 0"

definition charge_limit :: "BoundUsageDelta \<Rightarrow> BudgetLimits \<Rightarrow> ThreadGoalDbRow \<Rightarrow> BudgetDimension option" where
  "charge_limit d limits r =
     (if readStatus (gr_status r) = GActive
      then firstExceededBudget (gr_tokens_used r + charge_tokens d) (gr_turns_used r + charge_turns d) (gr_time_used_seconds r + charge_seconds d) limits
      else None)"

definition charge_stale :: "GoalHost \<Rightarrow> GoalTurnBinding \<Rightarrow> ThreadGoalDbRow \<Rightarrow> StaleReason option" where
  "charge_stale h b r =
     (if gr_updated_at_ms r \<noteq> tb_admittedGoalUpdatedAt b then Some StaleGoalEpoch
      else if gh_digest h (gr_objective r) \<noteq> tb_objectiveDigest b then Some StaleObjectiveDigest else None)"

definition charge_epoch :: "GoalHost \<Rightarrow> int \<Rightarrow> GoalTurnBinding \<Rightarrow> BoundUsageDelta \<Rightarrow> BudgetLimits \<Rightarrow> ThreadGoalDbRow \<Rightarrow> int" where
  "charge_epoch h now b d limits r =
     (if readStatus (gr_status r) = GBudgetLimited \<or> charge_stale h b r \<noteq> None \<and> charge_limit d limits r = None then gr_updated_at_ms r
      else max now (gr_updated_at_ms r + 1))"

definition charged_row :: "GoalHost \<Rightarrow> int \<Rightarrow> GoalTurnBinding \<Rightarrow> BoundUsageDelta \<Rightarrow> BudgetLimits \<Rightarrow> ThreadGoalDbRow \<Rightarrow> ThreadGoalDbRow \<Rightarrow> ThreadGoalDbRow" where
  "charged_row h now b d limits old r =
     r\<lparr>gr_tokens_used := gr_tokens_used old + charge_tokens d, gr_turns_used := gr_turns_used old + charge_turns d,
       gr_time_used_seconds := gr_time_used_seconds old + charge_seconds d,
       gr_status := goal_status_string (if charge_limit d limits old \<noteq> None then GBudgetLimited else readStatus (gr_status old)),
       gr_status_reason := (case charge_limit d limits old of Some x \<Rightarrow> Some (budget_reason x) | None \<Rightarrow> gr_status_reason old),
       gr_updated_at_ms := charge_epoch h now b d limits old\<rparr>"

lemma row_state_usage:
  "gs_turnsUsed (row_state r) = gr_turns_used r" "gs_timeUsedSeconds (row_state r) = gr_time_used_seconds r"
  by (simp_all add: row_state_def)

lemma charged_state:
  assumes "row_ok r"
  shows "(row_state r)\<lparr>gs_status := if charge_limit d limits r \<noteq> None then GBudgetLimited else readStatus (gr_status r),
      gs_statusReason := case charge_limit d limits r of Some x \<Rightarrow> Some (budget_reason x) | None \<Rightarrow> gr_status_reason r,
      gs_tokensUsed := gr_tokens_used r + charge_tokens d, gs_turnsUsed := gr_turns_used r + charge_turns d,
      gs_timeUsedSeconds := gr_time_used_seconds r + charge_seconds d, gs_updatedAt := charge_epoch h now b d limits r,
      gs_executionWait := if readStatus (gr_status r) = GBudgetLimited \<or> charge_stale h b r \<noteq> None \<and> charge_limit d limits r = None
        then gs_executionWait (row_state r) else None\<rparr> = row_state (charged_row h now b d limits r r)"
proof -
  have "gr_execution_wait_epoch r \<noteq> Some (max now (gr_updated_at_ms r + 1))" using wait_retired [OF assms] by simp
  moreover have "charge_limit d limits r \<noteq> None \<Longrightarrow> readStatus (gr_status r) \<noteq> GBudgetLimited" by (auto simp: charge_limit_def)
  ultimately show ?thesis by (auto simp: row_state_def charged_row_def charge_epoch_def)
qed

lemma charge_missing: "row_by_id tbl (tb_goalId b) = None \<Longrightarrow> bumpThreadGoalBoundUsage h now b d limits tbl =
    (\<lparr>ur_goal = None, ur_decisionEpoch = None, ur_transitioned = None, ur_staleReason = Some StaleMissingGoal\<rparr>, tbl)"
  by (simp add: bumpThreadGoalBoundUsage_def readGoal_def)

lemma charge_spec:
  assumes ok: "goal_table_ok tbl" and r: "row_by_id tbl (tb_goalId b) = Some r"
  shows "bumpThreadGoalBoundUsage h now b d limits tbl =
    (if charge_empty d then
       (\<lparr>ur_goal = Some (row_state r), ur_decisionEpoch = Some (gr_updated_at_ms r), ur_transitioned = None, ur_staleReason = charge_stale h b r\<rparr>, tbl)
     else
       (\<lparr>ur_goal = Some (row_state (charged_row h now b d limits r r)), ur_decisionEpoch = Some (charge_epoch h now b d limits r),
         ur_transitioned = charge_limit d limits r, ur_staleReason = charge_stale h b r\<rparr>,
        sql_update (\<lambda>r. gr_goal_id r = tb_goalId b) (charged_row h now b d limits r) tbl))"
proof -
  have g: "readGoal tbl (tb_goalId b) = Some (row_state r)" using r by (simp add: readGoal_ok [OF ok])
  have st: "classifyThreadGoalAccountingStale h (Some (row_state r)) (tb_admittedGoalUpdatedAt b) (tb_objectiveDigest b) = charge_stale h b r"
    by (simp add: classifyThreadGoalAccountingStale_def charge_stale_def)
  note u = charge_tokens_def [symmetric] charge_seconds_def [symmetric] charge_turns_def [symmetric]
  show ?thesis
    unfolding bumpThreadGoalBoundUsage_def g option.case Let_def st u row_state_simps row_state_usage
    by (simp only: charge_empty_def [symmetric] charge_limit_def [symmetric] charge_epoch_def [symmetric] charged_state [OF table_row_ok [OF ok r]]
        charged_row_def [of h now b d limits r, abs_def])
qed

section \<open>Patches\<close>

lemma row_by_id_patch [simp]:
  "row_by_id (sql_update P (write_patch g) tbl) i = map_option (\<lambda>r. if P r then write_patch g r else r) (row_by_id tbl i)"
  by (rule row_by_id_update) (simp add: write_patch_def)

lemma patched_ids [simp]:
  "gs_goalId (patched h now input st) = gs_goalId st" "gs_sessionId (patched h now input st) = gs_sessionId st"
  "gs_createdAt (patched h now input st) = gs_createdAt st" "gs_tokensUsed (patched h now input st) = gs_tokensUsed st"
  "gs_turnsUsed (patched h now input st) = gs_turnsUsed st" "gs_timeUsedSeconds (patched h now input st) = gs_timeUsedSeconds st"
  "gs_kickoffAttachments (patched h now input st) = gs_kickoffAttachments st" "gs_kickoffState (patched h now input st) = gs_kickoffState st"
  "gs_executionWait (patched h now input st) = None" "gs_updatedAt (patched h now input st) = max now (gs_updatedAt st + 1)"
  "gs_status (patched h now input st) = nullish (pi_status input) (gs_status st)"
  by (simp_all add: patched_def Let_def)

lemma patched_state:
  assumes "row_ok r"
  shows "row_state (write_patch (patched h now input (row_state r)) r) = patched h now input (row_state r)"
proof -
  have "gr_execution_wait_epoch r \<noteq> Some (max now (gr_updated_at_ms r + 1))" using wait_retired [OF assms] by simp
  then show ?thesis
    by (intro ThreadGoalState.equality) (simp_all add: row_state_def write_patch_def)
qed

lemma patch_guards:
  assumes "patch_refused i input stored st = None"
  shows "Some (gs_status st) \<noteq> pi_rejectIfCurrentStatus input"
    "\<not> (pi_rejectIfObjectiveChangedFrom input \<noteq> None \<and> pi_rejectIfObjectiveChangedFrom input \<noteq> Some (gs_objective st))"
    "\<not> (pi_rejectIfUpdatedAtChangedFrom input \<noteq> None \<and> pi_rejectIfUpdatedAtChangedFrom input \<noteq> Some (gs_updatedAt st))"
proof -
  show 1: "Some (gs_status st) \<noteq> pi_rejectIfCurrentStatus input"
    using assms by (rule contrapos_pn) (simp add: patch_refused_def)
  show 2: "\<not> (pi_rejectIfObjectiveChangedFrom input \<noteq> None \<and> pi_rejectIfObjectiveChangedFrom input \<noteq> Some (gs_objective st))"
    using assms 1 by (rule_tac notI) (simp add: patch_refused_def)
  show "\<not> (pi_rejectIfUpdatedAtChangedFrom input \<noteq> None \<and> pi_rejectIfUpdatedAtChangedFrom input \<noteq> Some (gs_updatedAt st))"
    using assms 1 2 by (rule_tac notI) (auto simp: patch_refused_def)
qed

lemma patch_guard_passed:
  assumes "patch_refused i input (gr_status r) (row_state r) = None" "row_ok r" "gr_goal_id r = i"
  shows "patch_guard i input r"
  using patch_guards [OF assms(1)] assms(3) status_active [OF assms(2)] by (auto simp: patch_guard_def split: option.split)

text \<open>A patch that reads and writes the same table is refused without effect or moves the one row.\<close>

lemma goal_patch_cases:
  assumes ok: "goal_table_ok tbl" and s: "patchThreadGoal h now i input tbl tbl = (res, tbl')"
  obtains (refused) e where "res = Inl e" "tbl' = tbl"
  | (patched) r where "row_by_id tbl i = Some r" "patch_refused i input (gr_status r) (row_state r) = None"
      "tbl' = sql_update (patch_guard i input) (write_patch (patched h now input (row_state r))) tbl" "patch_guard i input r"
      "res = Inr (patched h now input (row_state r))"
proof (cases "row_by_id tbl i")
  case None
  then show ?thesis using s by (auto intro!: refused simp: patchThreadGoal_def readGoal_ok [OF ok])
next
  case (Some r)
  have g: "readGoal tbl i = Some (row_state r)" using Some by (simp add: readGoal_ok [OF ok])
  show ?thesis
  proof (cases "patch_refused i input (gr_status r) (row_state r)")
    case (Some e)
    then show ?thesis using s \<open>row_by_id tbl i = Some r\<close> by (auto intro!: refused simp: patchThreadGoal_def g)
  next
    case None
    have gd: "patch_guard i input r" using patch_guard_passed [OF None table_row_ok [OF ok Some]] row_by_id_SomeD [OF Some] by blast
    then have "sql_changes (patch_guard i input) tbl \<noteq> 0" using row_by_id_SomeD [OF Some] by (auto simp: sql_changes_0)
    then have "(res, tbl') = (Inr (patched h now input (row_state r)), sql_update (patch_guard i input) (write_patch (patched h now input (row_state r))) tbl)"
      using Some None g unfolding s [symmetric] by (simp add: patchThreadGoal_def Let_def)
    then show ?thesis using patched [OF Some None _ gd] by simp
  qed
qed

section \<open>Moves of a row\<close>

text \<open>
  What one write may do to a row: the epoch and the usage never fall, the status changes only with the epoch, and a goal that is not active
  becomes active only when it was stopped for a reason the user may lift.
\<close>

definition resumable :: "ThreadGoalDbRow \<Rightarrow> ThreadGoalDbRow \<Rightarrow> bool" where
  "resumable r r' \<longleftrightarrow> gr_status r \<in> {''paused'', ''blocked'', ''usage_limited''} \<or>
     gr_status r = ''budget_limited'' \<and> gr_status_reason r = Some ''budget_limited(token)'' \<and>
     (case gr_token_budget r' of Some b \<Rightarrow> gr_tokens_used r' < b | None \<Rightarrow> True)"

definition moves :: "ThreadGoalDbRow \<Rightarrow> ThreadGoalDbRow \<Rightarrow> bool" where
  "moves r r' \<longleftrightarrow> gr_session_id r' = gr_session_id r \<and> gr_created_at_ms r' = gr_created_at_ms r \<and> gr_updated_at_ms r \<le> gr_updated_at_ms r' \<and>
     gr_tokens_used r \<le> gr_tokens_used r' \<and> gr_turns_used r \<le> gr_turns_used r' \<and> gr_time_used_seconds r \<le> gr_time_used_seconds r' \<and>
     (gr_updated_at_ms r' = gr_updated_at_ms r \<longrightarrow> gr_status r' = gr_status r) \<and>
     (gr_status r \<noteq> ''active'' \<and> gr_status r' = ''active'' \<longrightarrow> resumable r r')"

lemma moves_refl [simp]: "moves r r"
  by (simp add: moves_def)

lemma status_strings [simp]:
  "goal_status_string st = ''active'' \<longleftrightarrow> st = GActive" "goal_status_string st = ''complete'' \<longleftrightarrow> st = GComplete"
  "goal_status_string st = ''budget_limited'' \<longleftrightarrow> st = GBudgetLimited" "goal_status_string st = ''paused'' \<longleftrightarrow> st = GPaused"
  "goal_status_string st = ''blocked'' \<longleftrightarrow> st = GBlocked" "goal_status_string st = ''usage_limited'' \<longleftrightarrow> st = GUsageLimited"
  by (cases st; simp)+

text \<open>The promises of the callers' types.\<close>

definition host_ok :: "GoalHost \<Rightarrow> bool" where
  "host_ok h \<longleftrightarrow> (\<forall>m. gh_missing_digest h m \<noteq> [])"

definition settle_ok :: "SettleInput \<Rightarrow> bool" where
  "settle_ok input \<longleftrightarrow> se_status input \<noteq> GActive \<and> se_statusReason input \<in> set THREAD_GOAL_STATUS_REASONS"

definition record_ok :: "RecordVerificationInput \<Rightarrow> bool" where
  "record_ok input \<longleftrightarrow> 0 \<le> lv_at (rv_result input) \<and>
     (case rv_decision input of Some d \<Rightarrow> fst d \<noteq> GActive \<and> snd d \<in> set THREAD_GOAL_STATUS_REASONS | None \<Rightarrow> True)"

definition patch_ok :: "ThreadGoalPatchInput \<Rightarrow> bool" where
  "patch_ok input \<longleftrightarrow> pi_objective input \<noteq> Some [] \<and>
     (case pi_statusReason input of Val r \<Rightarrow> r \<in> set THREAD_GOAL_STATUS_REASONS | _ \<Rightarrow> True) \<and>
     (case pi_tokenBudget input of Val b \<Rightarrow> rat_of_int \<lfloor>b\<rfloor> = b | _ \<Rightarrow> True)"

definition create_ok :: "ThreadGoalCreateInput \<Rightarrow> bool" where
  "create_ok input \<longleftrightarrow> ci_sessionId input \<noteq> [] \<and> ci_objective input \<noteq> [] \<and>
     (case ci_tokenBudget input of Some b \<Rightarrow> rat_of_int \<lfloor>b\<rfloor> = b | None \<Rightarrow> True)"

text \<open>A proposal at an epoch of the store, and a normalised verification, are read back as they are.\<close>

lemma proposal_read:
  assumes "0 \<le> e" "readLastWorkerProposal p = p"
  shows "readLastWorkerProposal (or_else (materializeThreadGoalWorkerProposal input e) p) = or_else (materializeThreadGoalWorkerProposal input e) p"
  using assms
  by (cases input) (auto simp: or_else_def materializeThreadGoalWorkerProposal_def readLastWorkerProposal_def isLastWorkerProposalV1_def
      normalizeThreadGoalWorkerProposalSummary_def non_empty_def THREAD_GOAL_WORKER_PROPOSAL_SUMMARY_MAX_CHARS_def split: option.split)

lemma verification_streak: "readLastVerification (Some v) = Some v \<Longrightarrow> 0 \<le> lv_notMetStreak v"
  by (auto simp: readLastVerification_def isLastVerificationV1_def split: if_splits)

lemma verification_read:
  assumes "host_ok h" "0 \<le> lv_at v" "readLastVerification p = p"
  shows "readLastVerification (Some (normalizeVerificationResult h p v)) = Some (normalizeVerificationResult h p v)"
proof -
  have "0 \<le> lv_notMetStreak q" if "p = Some q" for q using verification_streak assms(3) that by simp
  then show ?thesis using assms(1,2)
    by (auto simp: normalizeVerificationResult_def Let_def readLastVerification_def isLastVerificationV1_def non_empty_def host_ok_def
        split: option.split)
qed

lemma row_okD:
  assumes "row_ok r"
  shows "0 \<le> gr_updated_at_ms r" "0 \<le> gr_tokens_used r" "0 \<le> gr_no_progress_streak r" "0 \<le> gr_no_tool_streak r"
    "isKnownThreadGoalStatus (gr_status r)" "reason_ok (gr_status_reason r)"
    "readLastVerification (gr_last_verification r) = gr_last_verification r"
    "readLastWorkerProposal (gr_last_worker_proposal r) = gr_last_worker_proposal r"
  using assms by (simp_all add: row_ok_def)

lemma known_string [simp]: "isKnownThreadGoalStatus (goal_status_string st)"
  by (auto simp: known_iff)

lemma wait_bound: "row_ok r \<Longrightarrow> gr_updated_at_ms r \<le> e \<Longrightarrow> wait_ok (gr_execution_wait_epoch r) e"
  by (auto simp: row_ok_def wait_ok_def split: option.splits)

lemma epoch_grows [simp]: "x \<le> max n (x + 1)" "max n (x + 1) \<noteq> x" "0 \<le> x \<Longrightarrow> 0 \<le> max n (x + 1)" for x :: int
  by auto

lemma settle_row_ok:
  assumes "row_ok r" "settle_ok input" "gr_updated_at_ms r = se_expectedEpoch input"
  shows "row_ok (settle_row now input r)" "gr_status r = ''active'' \<Longrightarrow> moves r (settle_row now input r)"
proof -
  show "row_ok (settle_row now input r)"
    using assms proposal_read [OF _ row_okD(8) [OF assms(1)], of "max now (se_expectedEpoch input + 1)"] wait_bound [OF assms(1), of "max now (se_expectedEpoch input + 1)"]
    by (simp add: settle_row_def Let_def row_ok_def settle_ok_def reason_ok_def)
  show "moves r (settle_row now input r)" if "gr_status r = ''active''"
    using that assms(3) by (simp add: settle_row_def Let_def moves_def)
qed

lemma record_row_ok:
  assumes "host_ok h" "row_ok r" "record_ok input" "gr_updated_at_ms r = rv_expectedEpoch input"
  shows "row_ok (record_row h now input r r)" "gr_status r = ''active'' \<Longrightarrow> moves r (record_row h now input r r)"
proof -
  let ?d = "verification_decision input (verified h input r)"
  have d: "case ?d of Some d \<Rightarrow> fst d \<noteq> GActive \<and> snd d \<in> set THREAD_GOAL_STATUS_REASONS | None \<Rightarrow> True"
    using assms(3) by (simp add: verification_decision_def record_ok_def THREAD_GOAL_STATUS_REASONS_def)
  have re: "reason_ok (case ?d of Some x \<Rightarrow> Some (snd x) | None \<Rightarrow> gr_status_reason r)"
    using d row_okD(6) [OF assms(2)] by (cases ?d) (auto simp: reason_ok_def)
  have v: "readLastVerification (Some (verified h input r)) = Some (verified h input r)"
    using verification_read [OF assms(1) _ row_okD(7) [OF assms(2)]] assms(3) by (simp add: verified_def record_ok_def)
  show "row_ok (record_row h now input r r)"
    using assms(2,4) v re proposal_read [OF _ row_okD(8) [OF assms(2)], of "max now (rv_expectedEpoch input + 1)"]
      wait_bound [OF assms(2), of "max now (rv_expectedEpoch input + 1)"]
    by (simp add: record_row_def Let_def row_ok_def)
  show "moves r (record_row h now input r r)" if "gr_status r = ''active''"
    using that assms(4) by (simp add: record_row_def Let_def moves_def)
qed

definition breaker_ok :: "BreakerInput \<Rightarrow> bool" where
  "breaker_ok input \<longleftrightarrow> reason_ok (bi_pauseReason input)"

lemma no_progress_reason [simp]: "''paused(no_progress)'' \<in> set THREAD_GOAL_STATUS_REASONS"
  by (simp add: THREAD_GOAL_STATUS_REASONS_def)

lemma breaker_row_ok:
  assumes "row_ok r" "breaker_ok input"
  shows "row_ok (breaker_row now input r r)" "gr_status r = ''active'' \<Longrightarrow> moves r (breaker_row now input r r)"
proof -
  have "reason_ok (Some (nullish (bi_pauseReason input) ''paused(no_progress)''))"
    using assms(2) by (cases "bi_pauseReason input") (simp_all add: breaker_ok_def reason_ok_def nullish_def)
  moreover have "0 \<le> next_reply_streak (bi_fingerprint input) (gr_reply_fingerprint r) (gr_no_progress_streak r)"
    "0 \<le> next_no_tool_streak (bi_toolActivity input) (gr_no_tool_streak r)"
    using row_okD(3,4) [OF assms(1)] by (simp_all add: next_reply_streak_def next_no_tool_streak_def)
  ultimately show "row_ok (breaker_row now input r r)"
    using assms(1) wait_bound [OF assms(1), of "max now (gr_updated_at_ms r + 1)"] by (simp add: breaker_row_def row_ok_def)
  show "moves r (breaker_row now input r r)" if "gr_status r = ''active''" using that by (simp add: breaker_row_def moves_def)
qed

lemma budget_reason_ok [simp]: "budget_reason d \<in> set THREAD_GOAL_STATUS_REASONS"
  by (cases d) (simp_all add: THREAD_GOAL_STATUS_REASONS_def)

lemma charge_nonneg [simp]: "0 \<le> charge_tokens d" "0 \<le> charge_seconds d" "0 \<le> charge_turns d"
  by (simp_all add: charge_tokens_def charge_seconds_def charge_turns_def)

lemma charge_epoch_le: "gr_updated_at_ms r \<le> charge_epoch h now b d limits r"
  by (simp add: charge_epoch_def)

lemma charge_epoch_limit: "charge_limit d limits r \<noteq> None \<Longrightarrow> charge_epoch h now b d limits r \<noteq> gr_updated_at_ms r"
  by (auto simp: charge_epoch_def charge_limit_def split: if_splits)

lemma charged_row_ok:
  assumes "row_ok r"
  shows "row_ok (charged_row h now b d limits r r)" "moves r (charged_row h now b d limits r r)"
proof -
  have re: "reason_ok (case charge_limit d limits r of Some x \<Rightarrow> Some (budget_reason x) | None \<Rightarrow> gr_status_reason r)"
    using row_okD(6) [OF assms] by (cases "charge_limit d limits r") (simp_all add: reason_ok_def)
  show "row_ok (charged_row h now b d limits r r)"
    using assms re charge_epoch_le [of r h now b d limits] wait_bound [OF assms charge_epoch_le]
    by (simp add: charged_row_def row_ok_def)
  show "moves r (charged_row h now b d limits r r)"
  proof (cases "charge_limit d limits r")
    case None
    obtain st where "gr_status r = goal_status_string st" using row_okD(5) [OF assms] by (auto simp: known_iff)
    then show ?thesis using None by (simp add: charged_row_def moves_def charge_epoch_le)
  next
    case (Some x)
    then have "charge_epoch h now b d limits r \<noteq> gr_updated_at_ms r" by (intro charge_epoch_limit) simp
    then show ?thesis using Some by (simp add: charged_row_def moves_def charge_epoch_le)
  qed
qed

lemma patch_allowed:
  assumes "patch_refused i input stored st = None"
  shows "pi_tokenBudget input = Val b \<Longrightarrow> rat_of_int (gs_tokensUsed st) < b"
    "pi_status input = Some GActive \<Longrightarrow> gs_status st = GBudgetLimited \<Longrightarrow> resumes_token_limited input st"
    "pi_status input = Some GActive \<Longrightarrow> gs_status st \<noteq> GComplete"
proof -
  note g = patch_guards [OF assms]
  note d = assms [unfolded patch_refused_def if_not_P [OF g(1)] if_not_P [OF g(2)] if_not_P [OF g(3)]]
  show "rat_of_int (gs_tokensUsed st) < b" if "pi_tokenBudget input = Val b" using d that by (simp split: if_splits)
  show "resumes_token_limited input st" if "pi_status input = Some GActive" "gs_status st = GBudgetLimited"
    using d that by (simp split: option.splits if_splits)
  show "gs_status st \<noteq> GComplete" if "pi_status input = Some GActive" using d that by (auto split: option.splits if_splits)
qed

lemma patched_budget:
  assumes "patch_ok input" "patch_refused i input stored (row_state r) = None" "row_ok r"
  shows "budget_ok (gs_tokenBudget (patched h now input (row_state r)))"
    "pi_tokenBudget input \<noteq> Undefined \<Longrightarrow> (case gs_tokenBudget (patched h now input (row_state r)) of Some b \<Rightarrow> gr_tokens_used r < b | None \<Rightarrow> True)"
proof -
  have "0 < x \<and> gr_tokens_used r < x" if "pi_tokenBudget input = Val b" "positiveOrNull (Some b) = Some x" for b x
  proof -
    have "rat_of_int \<lfloor>b\<rfloor> = b" "rat_of_int (gr_tokens_used r) < b" using assms(1) patch_allowed(1) [OF assms(2)] that(1) by (simp_all add: patch_ok_def)
    moreover have "x = \<lfloor>b\<rfloor>" using that(2) by (simp add: positiveOrNull_def split: if_splits)
    ultimately show ?thesis using row_okD(2) [OF assms(3)] by (metis le_less_trans of_int_less_iff)
  qed
  then show "budget_ok (gs_tokenBudget (patched h now input (row_state r)))"
    "pi_tokenBudget input \<noteq> Undefined \<Longrightarrow> (case gs_tokenBudget (patched h now input (row_state r)) of Some b \<Rightarrow> gr_tokens_used r < b | None \<Rightarrow> True)"
    using assms(3) by (cases "pi_tokenBudget input"; force simp: patched_def Let_def budget_ok_def row_ok_def positiveOrNull_def split: option.split)+
qed

lemma patched_fields:
  fixes h :: GoalHost and now :: int
  assumes "patch_ok input" "row_ok r"
  defines "g \<equiv> patched h now input (row_state r)"
  shows "gs_objective g \<noteq> []" "0 \<le> gs_noProgressStreak g" "0 \<le> gs_noToolStreak g" "reason_ok (gs_statusReason g)"
    "readLastVerification (gs_lastVerification g) = gs_lastVerification g"
    "readLastWorkerProposal (gs_lastWorkerProposal g) = gs_lastWorkerProposal g"
proof -
  show "gs_objective g \<noteq> []"
    using assms(1,2) by (cases "pi_objective input") (auto simp: g_def patched_def Let_def patch_ok_def row_ok_def nullish_def)
  show "0 \<le> gs_noProgressStreak g" "0 \<le> gs_noToolStreak g"
    using row_okD(3,4) [OF assms(2)] by (simp_all add: g_def patched_def Let_def row_state_counters)
  show "reason_ok (gs_statusReason g)"
    using assms(1) row_okD(6) [OF assms(2)]
    by (cases "pi_statusReason input") (auto simp: g_def patched_def Let_def patch_ok_def reason_ok_def)
  show "readLastVerification (gs_lastVerification g) = gs_lastVerification g"
    using row_okD(7) [OF assms(2)] by (simp add: g_def patched_def Let_def row_state_def readLastVerification_def)
  show "readLastWorkerProposal (gs_lastWorkerProposal g) = gs_lastWorkerProposal g"
    using row_okD(8) [OF assms(2)] by (simp add: g_def patched_def Let_def row_state_def readLastWorkerProposal_def)
qed

lemma patch_row_ok:
  assumes p: "patch_ok input" and n: "patch_refused i input (gr_status r) (row_state r) = None" and r: "row_ok r"
  shows "row_ok (write_patch (patched h now input (row_state r)) r)" "moves r (write_patch (patched h now input (row_state r)) r)"
proof -
  let ?g = "patched h now input (row_state r)"
  show "row_ok (write_patch ?g r)"
    using r patched_fields [OF p r, of h now] patched_budget(1) [OF p n r, of h now] wait_bound [OF r, of "max now (gr_updated_at_ms r + 1)"]
    by (simp add: write_patch_def row_ok_def)
  have "resumable r (write_patch ?g r)" if na: "gr_status r \<noteq> ''active''" and a: "gr_status (write_patch ?g r) = ''active''"
  proof -
    obtain st where st: "gr_status r = goal_status_string st" using row_okD(5) [OF r] by (auto simp: known_iff)
    have s: "pi_status input = Some GActive" using a na st by (cases "pi_status input") (simp_all add: write_patch_def nullish_def)
    have rs: "gs_status (row_state r) = st" using st by simp
    have nc: "st \<noteq> GComplete" using patch_allowed(3) [OF n s] rs by simp
    show ?thesis
    proof (cases "st = GBudgetLimited")
      case True
      then have t: "resumes_token_limited input (row_state r)" using patch_allowed(2) [OF n s] rs by simp
      then have "pi_tokenBudget input \<noteq> Undefined" by (auto simp: resumes_token_limited_def)
      from patched_budget(2) [OF p n r this, of h now] show ?thesis using t True st
        by (simp add: resumable_def write_patch_def resumes_token_limited_def cong: option.case_cong)
    next
      case False
      then show ?thesis using st nc na by (cases st) (simp_all add: resumable_def)
    qed
  qed
  then show "moves r (write_patch ?g r)" by (simp add: moves_def) (simp add: write_patch_def)
qed

section \<open>Runs of the store\<close>

text \<open>
  Every operation that writes, with the ids that have ever been given out.  A patch reads the goal and writes it in two statements; a step takes
  them together, so these are the runs in which no other write falls between the two.  In one process nothing can, since the store is
  synchronous; between processes that share the database it can, and \<open>unguarded_patch_takes_the_epoch_back\<close> shows what then happens.
\<close>

inductive goal_step :: "GoalHost \<Rightarrow> string list \<times> goal_table \<Rightarrow> string list \<times> goal_table \<Rightarrow> bool" for h where
  step_create: "i \<notin> set used \<Longrightarrow> i \<noteq> [] \<Longrightarrow> create_ok input \<Longrightarrow> 0 \<le> now \<Longrightarrow>
     goal_step h (used, tbl) (i # used, snd (goal_create now i input tbl))"
| step_delete: "goal_step h (used, tbl) (used, goal_delete i tbl)"
| step_patch: "patch_ok input \<Longrightarrow> goal_step h (used, tbl) (used, snd (patchThreadGoal h now i input tbl tbl))"
| step_charge: "goal_step h (used, tbl) (used, snd (bumpThreadGoalBoundUsage h now b d limits tbl))"
| step_settle: "settle_ok s \<Longrightarrow> goal_step h (used, tbl) (used, snd (settleThreadGoalBoundTurn h now s tbl))"
| step_record: "record_ok v \<Longrightarrow> goal_step h (used, tbl) (used, snd (recordThreadGoalVerification h now v tbl))"
| step_breaker: "breaker_ok k \<Longrightarrow> goal_step h (used, tbl) (used, snd (updateThreadGoalBreaker now i k tbl))"
| step_pause: "reason \<in> set THREAD_GOAL_STATUS_REASONS \<Longrightarrow> goal_step h (used, tbl) (used, snd (pauseActiveBySession now sid reason tbl))"
| step_transition: "st \<noteq> GActive \<Longrightarrow> reason \<in> set THREAD_GOAL_STATUS_REASONS \<Longrightarrow>
     goal_step h (used, tbl) (used, snd (transitionActiveAtEpoch now i e st reason tbl))"
| step_reset: "goal_step h (used, tbl) (used, snd (resetBreakerAtEpoch now i e tbl))"
| step_kickoff: "goal_step h (used, tbl) (used, snd (transitionKickoffState i k0 k1 tbl))"
| step_wait: "goal_step h (used, tbl) (used, snd (setThreadGoalExecutionWait now i e reason tbl))"
| step_unwait: "goal_step h (used, tbl) (used, snd (clearThreadGoalExecutionWait i e tbl))"

definition store_ok :: "string list \<times> goal_table \<Rightarrow> bool" where
  "store_ok s \<longleftrightarrow> goal_table_ok (snd s) \<and> set (map gr_goal_id (snd s)) \<subseteq> set (fst s)"

text \<open>A write that changes the rows it selects, each by a move.\<close>

definition row_moves :: "goal_table \<Rightarrow> goal_table \<Rightarrow> bool" where
  "row_moves tbl tbl' \<longleftrightarrow> goal_table_ok tbl' \<and> map gr_goal_id tbl' = map gr_goal_id tbl \<and>
     (\<forall>i r. row_by_id tbl i = Some r \<longrightarrow> (\<exists>r'. row_by_id tbl' i = Some r' \<and> moves r r'))"

lemma row_moves_refl: "goal_table_ok tbl \<Longrightarrow> row_moves tbl tbl"
  by (simp add: row_moves_def)

lemma row_moves_update:
  assumes ok: "goal_table_ok tbl" and f: "\<And>r. gr_goal_id (f r) = gr_goal_id r" "\<And>r. gr_session_id (f r) = gr_session_id r"
    and m: "\<And>r. r \<in> set tbl \<Longrightarrow> P r \<Longrightarrow> row_ok r \<Longrightarrow> row_ok (f r) \<and> moves r (f r)"
  shows "row_moves tbl (sql_update P f tbl)"
proof -
  have rk: "row_ok r" if "r \<in> set tbl" for r using ok that by (simp add: goal_table_ok_def list_all_iff)
  have "goal_table_ok (sql_update P f tbl)" by (rule table_ok_update [OF ok f]) (use m rk in blast)
  moreover have "map gr_goal_id (sql_update P f tbl) = map gr_goal_id tbl" using f(1) by (simp add: sql_update_def)
  moreover have "\<exists>r'. row_by_id (sql_update P f tbl) i = Some r' \<and> moves r r'" if "row_by_id tbl i = Some r" for i r
    using that m [of r] rk row_by_id_SomeD [OF that] f(1) by auto
  ultimately show ?thesis by (simp add: row_moves_def)
qed

lemma only_row:
  assumes "goal_table_ok tbl" "row_by_id tbl i = Some r" "r' \<in> set tbl" "gr_goal_id r' = i"
  shows "r' = r"
  using row_by_id_eq [of tbl r'] assms by (simp add: goal_table_ok_def)

lemma patch_moves:
  assumes ok: "goal_table_ok tbl" and p: "patch_ok input"
  shows "row_moves tbl (snd (patchThreadGoal h now i input tbl tbl))"
proof -
  obtain res tbl' where s: "patchThreadGoal h now i input tbl tbl = (res, tbl')" by fastforce
  from ok s show ?thesis
  proof (cases rule: goal_patch_cases)
    case (patched r)
    have "row_ok (write_patch (patched h now input (row_state r)) r') \<and> moves r' (write_patch (patched h now input (row_state r)) r')"
      if "r' \<in> set tbl" "patch_guard i input r'" "row_ok r'" for r'
    proof -
      have "r' = r" using only_row [OF ok patched(1) that(1)] that(2) by (simp add: patch_guard_def)
      then show ?thesis using patch_row_ok [OF p patched(2)] that(3) by blast
    qed
    then have "row_moves tbl tbl'" unfolding patched(3) by (intro row_moves_update [OF ok]) (simp_all add: write_patch_def)
    then show ?thesis by (simp add: s)
  qed (simp add: s row_moves_refl [OF ok])
qed

lemma charge_moves:
  assumes ok: "goal_table_ok tbl"
  shows "row_moves tbl (snd (bumpThreadGoalBoundUsage h now b d limits tbl))"
proof (cases "row_by_id tbl (tb_goalId b)")
  case None
  then show ?thesis by (simp add: charge_missing row_moves_refl [OF ok])
next
  case (Some r)
  have "row_ok (charged_row h now b d limits r r') \<and> moves r' (charged_row h now b d limits r r')"
    if "r' \<in> set tbl" "gr_goal_id r' = tb_goalId b" "row_ok r'" for r'
    using only_row [OF ok Some that(1,2)] charged_row_ok [of r h now b d limits] that(3) by blast
  then have "row_moves tbl (sql_update (\<lambda>r. gr_goal_id r = tb_goalId b) (charged_row h now b d limits r) tbl)"
    by (intro row_moves_update [OF ok]) (simp_all add: charged_row_def)
  then show ?thesis by (simp add: charge_spec [OF ok Some] row_moves_refl [OF ok])
qed

lemma settle_moves:
  assumes ok: "goal_table_ok tbl" and p: "settle_ok input"
  shows "row_moves tbl (snd (settleThreadGoalBoundTurn h now input tbl))"
proof -
  obtain res tbl' where s: "settleThreadGoalBoundTurn h now input tbl = (res, tbl')" by fastforce
  from ok s show ?thesis
  proof (cases rule: settle_cases)
    case (settled r)
    have "row_moves tbl tbl'" unfolding settled(4) using settle_row_ok [OF _ p]
      by (intro row_moves_update [OF ok]) (simp_all add: settle_row_def Let_def active_at_def)
    then show ?thesis by (simp add: s)
  qed (simp add: s row_moves_refl [OF ok])
qed

lemma record_moves:
  assumes ok: "goal_table_ok tbl" and p: "record_ok input" and h: "host_ok h"
  shows "row_moves tbl (snd (recordThreadGoalVerification h now input tbl))"
proof -
  obtain res tbl' where s: "recordThreadGoalVerification h now input tbl = (res, tbl')" by fastforce
  from ok s show ?thesis
  proof (cases rule: record_cases)
    case (settled r)
    have "row_ok (record_row h now input r r') \<and> moves r' (record_row h now input r r')"
      if "r' \<in> set tbl" "active_at (rv_goalId input) (rv_expectedEpoch input) r'" "row_ok r'" for r'
    proof -
      have "r' = r" using only_row [OF ok settled(1) that(1)] that(2) by (simp add: active_at_def)
      then show ?thesis using record_row_ok [OF h _ p] that(2,3) by (simp add: active_at_def)
    qed
    then have "row_moves tbl tbl'" unfolding settled(4) by (intro row_moves_update [OF ok]) (simp_all add: record_row_def Let_def)
    then show ?thesis by (simp add: s)
  qed (simp add: s row_moves_refl [OF ok])
qed

lemma breaker_moves:
  assumes ok: "goal_table_ok tbl" and p: "breaker_ok input"
  shows "row_moves tbl (snd (updateThreadGoalBreaker now i input tbl))"
proof -
  obtain res tbl' where s: "updateThreadGoalBreaker now i input tbl = (res, tbl')" by fastforce
  from ok s show ?thesis
  proof (cases rule: breaker_cases)
    case (counted r cause)
    have "row_ok (breaker_row now input r r') \<and> moves r' (breaker_row now input r r')"
      if "r' \<in> set tbl" "active_at i (bi_expectedEpoch input) r'" "row_ok r'" for r'
    proof -
      have "r' = r" using only_row [OF ok counted(1) that(1)] that(2) by (simp add: active_at_def)
      then show ?thesis using breaker_row_ok [OF _ p] that(2,3) by (simp add: active_at_def)
    qed
    then have "row_moves tbl tbl'" unfolding counted(4) by (intro row_moves_update [OF ok]) (simp_all add: breaker_row_def)
    then show ?thesis by (simp add: s)
  qed (simp_all add: s row_moves_refl [OF ok])
qed

lemma paused_known [simp]: "isKnownThreadGoalStatus ''paused''" "isKnownThreadGoalStatus ''active''"
  by (simp_all add: isKnownThreadGoalStatus_def THREAD_GOAL_STATUSES_def)

lemma simple_moves:
  assumes ok: "goal_table_ok tbl"
  shows "reason \<in> set THREAD_GOAL_STATUS_REASONS \<Longrightarrow> row_moves tbl (snd (pauseActiveBySession now sid reason tbl))"
    "st \<noteq> GActive \<Longrightarrow> reason \<in> set THREAD_GOAL_STATUS_REASONS \<Longrightarrow> row_moves tbl (snd (transitionActiveAtEpoch now i e st reason tbl))"
    "row_moves tbl (snd (resetBreakerAtEpoch now i e tbl))" "row_moves tbl (snd (transitionKickoffState i k0 k1 tbl))"
    "row_moves tbl (snd (setThreadGoalExecutionWait now i e reason tbl))" "row_moves tbl (snd (clearThreadGoalExecutionWait i e tbl))"
proof -
  show "row_moves tbl (snd (pauseActiveBySession now sid reason tbl))" if "reason \<in> set THREAD_GOAL_STATUS_REASONS"
    unfolding pauseActiveBySession_def Let_def if_distrib [of snd] snd_conv if_cancel using that
    by (intro row_moves_update [OF ok]) (auto simp: row_ok_def moves_def reason_ok_def wait_ok_def split: option.splits)
  show "row_moves tbl (snd (transitionActiveAtEpoch now i e st reason tbl))" if "st \<noteq> GActive" "reason \<in> set THREAD_GOAL_STATUS_REASONS"
    unfolding transitionActiveAtEpoch_def Let_def if_distrib [of snd] snd_conv if_cancel using that
    by (intro row_moves_update [OF ok]) (auto simp: active_at_def row_ok_def moves_def reason_ok_def wait_ok_def split: option.splits)
  show "row_moves tbl (snd (resetBreakerAtEpoch now i e tbl))"
    unfolding resetBreakerAtEpoch_def Let_def if_distrib [of snd] snd_conv if_cancel
    by (intro row_moves_update [OF ok]) (auto simp: active_at_def row_ok_def moves_def wait_ok_def split: option.splits)
  show "row_moves tbl (snd (transitionKickoffState i k0 k1 tbl))"
    unfolding transitionKickoffState_def Let_def if_distrib [of snd] snd_conv if_cancel
    by (intro row_moves_update [OF ok]) (auto simp: row_ok_def moves_def)
  have "row_moves tbl (sql_update (active_at i e) (\<lambda>r. r\<lparr>gr_execution_wait_reason := a, gr_execution_wait_since_ms := b, gr_execution_wait_epoch := c\<rparr>) tbl)"
    if "c = None \<or> c = Some e" for a b c
    using that by (intro row_moves_update [OF ok]) (auto simp: active_at_def row_ok_def moves_def wait_ok_def)
  then show "row_moves tbl (snd (setThreadGoalExecutionWait now i e reason tbl))" "row_moves tbl (snd (clearThreadGoalExecutionWait i e tbl))"
    using row_moves_refl [OF ok]
    by (simp_all add: setThreadGoalExecutionWait_def clearThreadGoalExecutionWait_def Let_def split: option.split)
qed

lemma create_rows:
  assumes ok: "store_ok (used, tbl)" and i: "i \<notin> set used" "i \<noteq> []" "create_ok input" "0 \<le> now"
  shows "store_ok (i # used, snd (goal_create now i input tbl))"
    "j \<noteq> i \<Longrightarrow> row_by_id (snd (goal_create now i input tbl)) j = Some r \<Longrightarrow> row_by_id tbl j = Some r"
proof -
  let ?n = "new_goal_row now i input" and ?others = "filter (\<lambda>r. gr_session_id r \<noteq> ci_sessionId input) tbl"
  have n: "row_ok ?n"
    using i by (auto simp: new_goal_row_def row_ok_def create_ok_def budget_ok_def positiveOrNull_def wait_ok_def reason_ok_def
        readLastVerification_def readLastWorkerProposal_def split: option.splits)
  have t: "goal_table_ok tbl" and sub: "set (map gr_goal_id tbl) \<subseteq> set used" using ok by (simp_all add: store_ok_def)
  have new: "store_ok (i # used, filter P tbl @ [?n])" if "\<And>r. r \<in> set tbl \<Longrightarrow> P r \<Longrightarrow> gr_session_id r \<noteq> ci_sessionId input" for P
  proof -
    have "distinct (map gr_goal_id (filter P tbl))" "distinct (map gr_session_id (filter P tbl))" "list_all row_ok (filter P tbl)"
      using t by (auto simp: goal_table_ok_def distinct_map_filter list_all_iff)
    moreover have "ci_sessionId input \<notin> set (map gr_session_id (filter P tbl))" using that by fastforce
    moreover have "i \<notin> set (map gr_goal_id (filter P tbl))" using sub i(1) by auto
    ultimately show ?thesis using n sub by (auto simp: store_ok_def goal_table_ok_def new_goal_row_def)
  qed
  have find: "row_by_id tbl j = Some r" if "row_by_id (filter P tbl @ [?n]) j = Some r" "j \<noteq> i" for P
  proof -
    have "r \<in> set tbl" "gr_goal_id r = j" using row_by_id_SomeD [OF that(1)] that(2) by (auto simp: new_goal_row_def)
    then show ?thesis using row_by_id_eq [of tbl r] t by (simp add: goal_table_ok_def)
  qed
  have all: "filter (\<lambda>_. True) tbl = tbl" by simp
  have none: "gr_session_id r \<noteq> ci_sessionId input" if "row_by_session tbl (ci_sessionId input) = None" "r \<in> set tbl" for r
    using that by (auto simp: row_by_session_def find_None_iff)
  show "store_ok (i # used, snd (goal_create now i input tbl))"
    using new [of "\<lambda>_. True"] new [of "\<lambda>r. gr_session_id r \<noteq> ci_sessionId input"] none ok
    by (auto simp: goal_create_def store_ok_def split: option.split)
  show "row_by_id tbl j = Some r" if "j \<noteq> i" "row_by_id (snd (goal_create now i input tbl)) j = Some r"
    using that find [of "\<lambda>_. True"] find [of "\<lambda>r. gr_session_id r \<noteq> ci_sessionId input"]
    by (simp add: goal_create_def split: option.splits if_splits)
qed

lemma delete_rows:
  assumes "store_ok (used, tbl)"
  shows "store_ok (used, goal_delete i tbl)" "row_by_id (goal_delete i tbl) j = Some r \<Longrightarrow> row_by_id tbl j = Some r"
proof -
  show "store_ok (used, goal_delete i tbl)" using assms by (auto simp: store_ok_def goal_table_ok_def goal_delete_def distinct_map_filter list_all_iff)
  show "row_by_id tbl j = Some r" if "row_by_id (goal_delete i tbl) j = Some r"
    using row_by_id_SomeD [OF that] row_by_id_eq [of tbl r] assms by (simp add: store_ok_def goal_table_ok_def goal_delete_def)
qed

lemma moves_back:
  assumes "row_moves tbl tbl'" "row_by_id tbl' j = Some r'"
  shows "\<exists>r. row_by_id tbl j = Some r \<and> moves r r'"
proof (cases "row_by_id tbl j")
  case None
  then have "j \<notin> set (map gr_goal_id tbl)" by (auto simp: row_by_id_def find_None_iff)
  then have "j \<notin> set (map gr_goal_id tbl')" using assms(1) by (simp add: row_moves_def)
  then show ?thesis using row_by_id_SomeD [OF assms(2)] by auto
next
  case (Some r)
  then obtain r'' where "row_by_id tbl' j = Some r''" "moves r r''" using assms(1) unfolding row_moves_def by blast
  then show ?thesis using Some assms(2) by auto
qed

lemma step_rows:
  assumes "goal_step h s s'" "store_ok s" "host_ok h"
  shows "store_ok s' \<and> set (fst s) \<subseteq> set (fst s') \<and>
    (\<forall>j r'. j \<in> set (fst s) \<and> row_by_id (snd s') j = Some r' \<longrightarrow> (\<exists>r. row_by_id (snd s) j = Some r \<and> moves r r'))"
proof -
  have m: ?thesis if "s = (used, tbl)" "s' = (used, tbl')" "row_moves tbl tbl'" for used tbl tbl'
    using that assms(2) moves_back [OF that(3)] by (auto simp: store_ok_def row_moves_def)
  from assms(1) show ?thesis
  proof cases
    case (step_create i used input now tbl)
    note c = create_rows [OF _ step_create(3-6), of tbl]
    have ok: "store_ok (used, tbl)" using assms(2) step_create(1) by simp
    have "row_by_id tbl j = Some r'" if "j \<in> set used" "row_by_id (snd (goal_create now i input tbl)) j = Some r'" for j r'
      using c(2) [OF ok _ that(2)] that(1) step_create(3) by blast
    then show ?thesis using c(1) [OF ok] moves_refl unfolding step_create(1,2) fst_conv snd_conv by (metis set_subset_Cons)
  next
    case (step_delete used tbl i)
    have ok: "store_ok (used, tbl)" using assms(2) step_delete(1) by simp
    show ?thesis using delete_rows [OF ok] moves_refl unfolding step_delete fst_conv snd_conv by blast
  qed (use m assms(2,3) patch_moves charge_moves settle_moves record_moves breaker_moves simple_moves in \<open>simp_all add: store_ok_def\<close>)
qed

definition goal_reachable :: "GoalHost \<Rightarrow> string list \<times> goal_table \<Rightarrow> bool" where
  "goal_reachable h s \<longleftrightarrow> (goal_step h)\<^sup>*\<^sup>* ([], []) s"

definition grows :: "ThreadGoalDbRow \<Rightarrow> ThreadGoalDbRow \<Rightarrow> bool" where
  "grows r r' \<longleftrightarrow> gr_session_id r' = gr_session_id r \<and> gr_created_at_ms r' = gr_created_at_ms r \<and> gr_updated_at_ms r \<le> gr_updated_at_ms r' \<and>
     gr_tokens_used r \<le> gr_tokens_used r' \<and> gr_turns_used r \<le> gr_turns_used r' \<and> gr_time_used_seconds r \<le> gr_time_used_seconds r'"

lemma grows_trans: "grows a b \<Longrightarrow> grows b c \<Longrightarrow> grows a c"
  by (simp add: grows_def)

lemma run_rows:
  assumes "(goal_step h)\<^sup>*\<^sup>* s s'" "store_ok s" "host_ok h"
  shows "store_ok s' \<and> set (fst s) \<subseteq> set (fst s') \<and>
    (\<forall>j r'. j \<in> set (fst s) \<and> row_by_id (snd s') j = Some r' \<longrightarrow> (\<exists>r. row_by_id (snd s) j = Some r \<and> grows r r'))"
  using assms(1)
proof (induction rule: rtranclp_induct)
  case base
  then show ?case using assms(2) by (auto simp: grows_def)
next
  case (step s1 s2)
  note st = step_rows [OF step.hyps(2) conjunct1 [OF step.IH] assms(3)]
  have "\<exists>r. row_by_id (snd s) j = Some r \<and> grows r r2" if j: "j \<in> set (fst s)" "row_by_id (snd s2) j = Some r2" for j r2
  proof -
    obtain r1 where "row_by_id (snd s1) j = Some r1" "moves r1 r2" using st j step.IH by blast
    moreover then obtain r where "row_by_id (snd s) j = Some r" "grows r r1" using step.IH j by blast
    moreover have "grows r1 r2" using \<open>moves r1 r2\<close> by (simp add: grows_def moves_def)
    ultimately show ?thesis using grows_trans by blast
  qed
  then show ?case using st step.IH by blast
qed

lemma empty_store_ok: "store_ok ([], [])"
  by (simp add: store_ok_def goal_table_ok_def)

lemma goal_reachable_ok: "goal_reachable h s \<Longrightarrow> host_ok h \<Longrightarrow> store_ok s"
  using run_rows [OF _ empty_store_ok] by (auto simp: goal_reachable_def)

lemma reachable_table: "goal_reachable h s \<Longrightarrow> host_ok h \<Longrightarrow> goal_table_ok (snd s)"
  using goal_reachable_ok by (simp add: store_ok_def)

lemma readGoal_row:
  assumes "goal_table_ok tbl" "readGoal tbl i = Some g"
  obtains r where "row_by_id tbl i = Some r" "g = row_state r" "row_ok r"
  using assms readGoal_ok [OF assms(1), of i] table_row_ok [OF assms(1)] by auto

section \<open>Theorems about the goal store\<close>

text \<open>C21: However the operations follow one another, as long as no other write falls between the read and the write of a patch, a session has at
  most one goal, and a goal that is still there keeps its session and its creation time while its decision epoch and its accounted usage
  never fall.  Without that the epoch can fall: \<open>unguarded_patch_takes_the_epoch_back\<close>.\<close>

theorem goals_only_grow:
  assumes "host_ok h" "goal_reachable h s" "(goal_step h)\<^sup>*\<^sup>* s s'" "i \<in> set (fst s)" "readGoal (snd s') i = Some g'"
  shows "distinct (map gr_session_id (snd s')) \<and>
    (\<exists>g. readGoal (snd s) i = Some g \<and> gs_sessionId g' = gs_sessionId g \<and> gs_createdAt g' = gs_createdAt g \<and> gs_updatedAt g \<le> gs_updatedAt g' \<and>
      gs_tokensUsed g \<le> gs_tokensUsed g' \<and> gs_turnsUsed g \<le> gs_turnsUsed g' \<and> gs_timeUsedSeconds g \<le> gs_timeUsedSeconds g')"
proof -
  note ok = goal_reachable_ok [OF assms(2,1)]
  note run = run_rows [OF assms(3) ok assms(1)]
  have t': "goal_table_ok (snd s')" "goal_table_ok (snd s)" using run ok by (auto simp: store_ok_def)
  obtain r' where r': "row_by_id (snd s') i = Some r'" "g' = row_state r'" by (rule readGoal_row [OF t'(1) assms(5)])
  then obtain r where r: "row_by_id (snd s) i = Some r" "grows r r'" using run assms(4) by blast
  have "readGoal (snd s) i = Some (row_state r)" using r(1) by (simp add: readGoal_ok [OF t'(2)])
  then show ?thesis using t' r(2) r'(2) by (auto simp: goal_table_ok_def grows_def row_state_def)
qed

text \<open>C16: A goal that is not active becomes active in one step only if it was paused, blocked or out of provider quota, or if it had used up its
  token budget and the same step lifts the cap or raises it above the accounted usage; a complete goal does not.\<close>

theorem stopped_goals_resume_as_documented:
  assumes "host_ok h" "goal_reachable h s" "goal_step h s s'" "readGoal (snd s) i = Some g" "readGoal (snd s') i = Some g'"
    "gs_status g \<noteq> GActive" "gs_status g' = GActive"
  shows "gs_status g = GPaused \<or> gs_status g = GBlocked \<or> gs_status g = GUsageLimited \<or>
    gs_status g = GBudgetLimited \<and> gs_statusReason g = Some ''budget_limited(token)'' \<and>
    (gs_tokenBudget g' = None \<or> (\<exists>b. gs_tokenBudget g' = Some b \<and> gs_tokensUsed g' < b))"
proof -
  note ok = goal_reachable_ok [OF assms(2,1)]
  note st = step_rows [OF assms(3) ok assms(1)]
  have t: "goal_table_ok (snd s)" "goal_table_ok (snd s')" using st ok by (auto simp: store_ok_def)
  obtain r where r: "row_by_id (snd s) i = Some r" "g = row_state r" "row_ok r" by (rule readGoal_row [OF t(1) assms(4)])
  obtain r' where r': "row_by_id (snd s') i = Some r'" "g' = row_state r'" "row_ok r'" by (rule readGoal_row [OF t(2) assms(5)])
  have "i \<in> set (fst s)" using row_by_id_SomeD [OF r(1)] ok by (auto simp: store_ok_def)
  then have m: "moves r r'" using st r(1) r'(1) by fastforce
  obtain a where a: "gr_status r = goal_status_string a" using row_okD(5) [OF r(3)] by (auto simp: known_iff)
  obtain a' where a': "gr_status r' = goal_status_string a'" using row_okD(5) [OF r'(3)] by (auto simp: known_iff)
  have "resumable r r'" using m assms(6,7) a a' by (simp add: moves_def r(2) r'(2))
  then show ?thesis using a by (auto simp: resumable_def r(2) r'(2) split: option.splits)
qed

lemma epoch_passed:
  assumes ok: "goal_table_ok tbl" and r: "\<And>r. row_by_id tbl i = Some r \<Longrightarrow> e < gr_updated_at_ms r"
  shows "sql_changes (active_at i e) tbl = 0"
proof (cases "row_by_id tbl i")
  case None
  then show ?thesis by (auto simp: sql_changes_0 active_at_def row_by_id_def find_None_iff)
next
  case (Some x)
  then show ?thesis using r [OF Some] changes_active_at [OF _ Some] ok by (auto simp: goal_table_ok_def active_at_def)
qed

text \<open>All that a decision against a passed epoch does is to be told so.\<close>

lemma late_decisions:
  assumes ok: "goal_table_ok tbl" and r: "\<And>r. row_by_id tbl i = Some r \<Longrightarrow> e < gr_updated_at_ms r"
  shows "se_goalId s = i \<Longrightarrow> se_expectedEpoch s = e \<Longrightarrow> \<exists>reason g. settleThreadGoalBoundTurn h now s tbl = (StaleDecision reason g, tbl)"
    "rv_goalId v = i \<Longrightarrow> rv_expectedEpoch v = e \<Longrightarrow> \<exists>reason g. recordThreadGoalVerification h now v tbl = (StaleDecision reason g, tbl)"
    "bi_expectedEpoch k = e \<Longrightarrow> \<exists>reason g. updateThreadGoalBreaker now i k tbl = (BreakerStale reason g, tbl)"
    "transitionActiveAtEpoch now i e st reason tbl = (None, tbl)" "resetBreakerAtEpoch now i e tbl = (None, tbl)"
proof -
  have no: "\<not> active_at i e x" if "row_by_id tbl i = Some x" for x using r [OF that] by (simp add: active_at_def)
  show "\<exists>reason g. settleThreadGoalBoundTurn h now s tbl = (StaleDecision reason g, tbl)" if "se_goalId s = i" "se_expectedEpoch s = e"
  proof -
    obtain res tbl' where s: "settleThreadGoalBoundTurn h now s tbl = (res, tbl')" by fastforce
    show ?thesis by (rule settle_cases [OF ok s]) (use no that s in auto)
  qed
  show "\<exists>reason g. recordThreadGoalVerification h now v tbl = (StaleDecision reason g, tbl)" if "rv_goalId v = i" "rv_expectedEpoch v = e"
  proof -
    obtain res tbl' where s: "recordThreadGoalVerification h now v tbl = (res, tbl')" by fastforce
    show ?thesis by (rule record_cases [OF ok s]) (use no that s in auto)
  qed
  show "\<exists>reason g. updateThreadGoalBreaker now i k tbl = (BreakerStale reason g, tbl)" if "bi_expectedEpoch k = e"
  proof -
    obtain res tbl' where s: "updateThreadGoalBreaker now i k tbl = (res, tbl')" by fastforce
    show ?thesis by (rule breaker_cases [OF ok s]) (use no that s in auto)
  qed
  show "transitionActiveAtEpoch now i e st reason tbl = (None, tbl)" "resetBreakerAtEpoch now i e tbl = (None, tbl)"
    using epoch_passed [OF ok r] by (simp_all add: transitionActiveAtEpoch_def resetBreakerAtEpoch_def Let_def sql_update_none)
qed

text \<open>C8: A goal's next step is decided once per epoch: after a settlement against an epoch, whatever else happens, every other decision against
  that epoch, be it a settlement, a verification, a breaker update, a stop or a reset, is refused and changes nothing.\<close>

theorem one_decision_per_epoch:
  assumes "host_ok h" "goal_reachable h s" "settle_ok d" "settleThreadGoalBoundTurn h now d (snd s) = (Settled g epoch, tbl')"
    "(goal_step h)\<^sup>*\<^sup>* (fst s, tbl') s'"
  shows "(\<forall>now d'. se_goalId d' = se_goalId d \<and> se_expectedEpoch d' = se_expectedEpoch d \<longrightarrow>
        (\<exists>reason x. settleThreadGoalBoundTurn h now d' (snd s') = (StaleDecision reason x, snd s'))) \<and>
      (\<forall>now v. rv_goalId v = se_goalId d \<and> rv_expectedEpoch v = se_expectedEpoch d \<longrightarrow>
        (\<exists>reason x. recordThreadGoalVerification h now v (snd s') = (StaleDecision reason x, snd s'))) \<and>
      (\<forall>now k. bi_expectedEpoch k = se_expectedEpoch d \<longrightarrow>
        (\<exists>reason x. updateThreadGoalBreaker now (se_goalId d) k (snd s') = (BreakerStale reason x, snd s'))) \<and>
      (\<forall>now st reason. transitionActiveAtEpoch now (se_goalId d) (se_expectedEpoch d) st reason (snd s') = (None, snd s')) \<and>
      (\<forall>now. resetBreakerAtEpoch now (se_goalId d) (se_expectedEpoch d) (snd s') = (None, snd s'))"
proof -
  note ok = goal_reachable_ok [OF assms(2,1)]
  have t: "goal_table_ok (snd s)" using ok by (simp add: store_ok_def)
  have "goal_step h (fst s, snd s) (fst s, snd (settleThreadGoalBoundTurn h now d (snd s)))" using assms(3) by (rule step_settle)
  then have step: "goal_step h s (fst s, tbl')" by (simp add: assms(4))
  have ok1: "store_ok (fst s, tbl')" using step_rows [OF step ok assms(1)] by blast
  note run = run_rows [OF assms(5) ok1 assms(1)]
  obtain r where r: "row_by_id (snd s) (se_goalId d) = Some r" "row_by_id tbl' (se_goalId d) = Some (settle_row now d r)"
    by (rule settle_cases [OF t assms(4)]) auto
  have u: "se_goalId d \<in> set (fst s)" using row_by_id_SomeD [OF r(1)] ok by (auto simp: store_ok_def)
  have late: "se_expectedEpoch d < gr_updated_at_ms x" if "row_by_id (snd s') (se_goalId d) = Some x" for x
  proof -
    have "grows (settle_row now d r) x" using run u that r(2) by fastforce
    then show ?thesis by (simp add: grows_def settle_row_def Let_def)
  qed
  have t': "goal_table_ok (snd s')" using run by (simp add: store_ok_def)
  show ?thesis using late_decisions [OF t' late] by simp
qed

text \<open>C20: What an operation returns as the goal is what is read afterwards, with the decision epoch it reports; a charge returns the goal whether
  or not the binding was stale.  The input is well formed: reasons are declared ones, a settlement or a verdict decides for a status other
  than active, the time of a verification is not negative, a patch has an integral budget and its objective is not empty.  No other write
  falls between the read and the write of a patch.\<close>

theorem returned_goals_are_the_stored_ones:
  assumes "host_ok h" "goal_reachable h s"
  shows "(settle_ok d \<longrightarrow> settleThreadGoalBoundTurn h now d (snd s) = (Settled g e, tbl') \<longrightarrow> readGoal tbl' (se_goalId d) = Some g \<and> gs_updatedAt g = e) \<and>
    (record_ok v \<longrightarrow> recordThreadGoalVerification h now v (snd s) = (Settled g e, tbl') \<longrightarrow> readGoal tbl' (rv_goalId v) = Some g \<and> gs_updatedAt g = e) \<and>
    (breaker_ok k \<longrightarrow> updateThreadGoalBreaker now i k (snd s) = (BreakerDone action g e cause, tbl') \<longrightarrow> readGoal tbl' i = Some g \<and> gs_updatedAt g = e) \<and>
    (patch_ok p \<longrightarrow> patchThreadGoal h now i p (snd s) (snd s) = (Inr g, tbl') \<longrightarrow> readGoal tbl' i = Some g) \<and>
    (bumpThreadGoalBoundUsage h now b delta limits (snd s) = (res, tbl') \<longrightarrow>
      ur_goal res = readGoal tbl' (tb_goalId b) \<and> ur_decisionEpoch res = map_option gs_updatedAt (ur_goal res))"
proof (intro conjI impI)
  have t: "goal_table_ok (snd s)" using reachable_table [OF assms(2,1)] .
  have ok: "readGoal tbl' j = map_option row_state (row_by_id tbl' j)" if "row_moves (snd s) tbl'" for j
    using that by (intro readGoal_ok) (simp add: row_moves_def)
  show "readGoal tbl' (se_goalId d) = Some g" "gs_updatedAt g = e"
    if x: "settle_ok d" "settleThreadGoalBoundTurn h now d (snd s) = (Settled g e, tbl')"
  proof -
    note m = settle_moves [OF t x(1), of h now, unfolded x(2) snd_conv]
    show "readGoal tbl' (se_goalId d) = Some g" unfolding ok [OF m] by (rule settle_cases [OF t x(2)]) auto
    show "gs_updatedAt g = e" by (rule settle_cases [OF t x(2)]) (auto simp: settle_row_def Let_def)
  qed
  show "readGoal tbl' (rv_goalId v) = Some g" "gs_updatedAt g = e"
    if x: "record_ok v" "recordThreadGoalVerification h now v (snd s) = (Settled g e, tbl')"
  proof -
    note m = record_moves [OF t x(1) assms(1), of now, unfolded x(2) snd_conv]
    have i: "gr_goal_id (record_row h now v r0 r) = gr_goal_id r" for r0 r by (simp add: record_row_def Let_def)
    show "readGoal tbl' (rv_goalId v) = Some g" unfolding ok [OF m] by (rule record_cases [OF t x(2)]) (auto simp: i)
    show "gs_updatedAt g = e" by (rule record_cases [OF t x(2)]) (auto simp: record_row_def Let_def)
  qed
  show "readGoal tbl' i = Some g" "gs_updatedAt g = e"
    if x: "breaker_ok k" "updateThreadGoalBreaker now i k (snd s) = (BreakerDone action g e cause, tbl')"
  proof -
    note m = breaker_moves [OF t x(1), of now i, unfolded x(2) snd_conv]
    have i: "gr_goal_id (breaker_row now k r0 r) = gr_goal_id r" for r0 r by (simp add: breaker_row_def)
    show "readGoal tbl' i = Some g" unfolding ok [OF m] by (rule breaker_cases [OF t x(2)]) (auto simp: i)
    show "gs_updatedAt g = e" by (rule breaker_cases [OF t x(2)]) (auto simp: breaker_row_def)
  qed
  show "readGoal tbl' i = Some g" if x: "patch_ok p" "patchThreadGoal h now i p (snd s) (snd s) = (Inr g, tbl')"
  proof -
    note m = patch_moves [OF t x(1), of h now i, unfolded x(2) snd_conv]
    show ?thesis unfolding ok [OF m] by (rule goal_patch_cases [OF t x(2)]) (auto simp: patched_state [OF table_row_ok [OF t]])
  qed
  show "ur_goal res = readGoal tbl' (tb_goalId b)" if x: "bumpThreadGoalBoundUsage h now b delta limits (snd s) = (res, tbl')"
  proof (cases "row_by_id (snd s) (tb_goalId b)")
    case None
    then show ?thesis using x by (auto simp: charge_missing readGoal_def)
  next
    case (Some r)
    note m = charge_moves [OF t, of h now b delta limits, unfolded x snd_conv]
    have i: "gr_goal_id (charged_row h now b delta limits r0 r) = gr_goal_id r" for r0 r by (simp add: charged_row_def)
    show ?thesis unfolding ok [OF m] using x Some row_by_id_SomeD [OF Some] by (auto simp: charge_spec [OF t Some] i split: if_splits)
  qed
  show "ur_decisionEpoch res = map_option gs_updatedAt (ur_goal res)" if x: "bumpThreadGoalBoundUsage h now b delta limits (snd s) = (res, tbl')"
  proof (cases "row_by_id (snd s) (tb_goalId b)")
    case None
    then show ?thesis using x by (auto simp: charge_missing)
  next
    case (Some r)
    then show ?thesis using x by (auto simp: charge_spec [OF t Some] charged_row_def split: if_splits)
  qed
qed

text \<open>C15: Usage is always charged: the counters of the goal grow by the sanitised amounts even when the turn's binding is stale.  A charge
  changes the status only from active to budget-limited, for the first exceeded dimension; a goal that is still active after a charge is below
  all limits; and a stale charge that decides nothing leaves the epoch to the turn that now runs.\<close>

theorem usage_is_always_charged:
  assumes "host_ok h" "goal_reachable h s" "readGoal (snd s) (tb_goalId b) = Some g" "bumpThreadGoalBoundUsage h now b d limits (snd s) = (res, tbl')"
  shows "\<exists>g'. readGoal tbl' (tb_goalId b) = Some g' \<and> gs_tokensUsed g' = gs_tokensUsed g + numericOrZero (bd_tokens d) \<and>
    gs_turnsUsed g' = gs_turnsUsed g + (if bd_mainTurns d = 1 then 1 else 0) \<and>
    gs_timeUsedSeconds g' = gs_timeUsedSeconds g + numericOrZero (bd_activeSeconds d) \<and>
    (let exceeded = firstExceededBudget (gs_tokensUsed g') (gs_turnsUsed g') (gs_timeUsedSeconds g') limits in
     (gs_status g' \<noteq> gs_status g \<longrightarrow> gs_status g = GActive \<and> gs_status g' = GBudgetLimited \<and>
        (\<exists>x. exceeded = Some x \<and> ur_transitioned res = Some x \<and> gs_statusReason g' = Some (budget_reason x))) \<and>
     (gs_status g' = GActive \<and> (numericOrZero (bd_tokens d), numericOrZero (bd_activeSeconds d), bd_mainTurns d = 1) \<noteq> (0, 0, False) \<longrightarrow>
        exceeded = None)) \<and>
    (ur_staleReason res \<noteq> None \<and> ur_transitioned res = None \<longrightarrow> gs_updatedAt g' = gs_updatedAt g)"
proof -
  have t: "goal_table_ok (snd s)" using reachable_table [OF assms(2,1)] .
  obtain r where r: "row_by_id (snd s) (tb_goalId b) = Some r" "g = row_state r" "row_ok r" by (rule readGoal_row [OF t assms(3)])
  note m = charge_moves [OF t, of h now b d limits, unfolded assms(4) snd_conv]
  have ok: "readGoal tbl' j = map_option row_state (row_by_id tbl' j)" for j using m by (intro readGoal_ok) (simp add: row_moves_def)
  have e: "charge_empty d \<longleftrightarrow> (numericOrZero (bd_tokens d), numericOrZero (bd_activeSeconds d), bd_mainTurns d = 1) = (0, 0, False)"
    by (simp add: charge_empty_def charge_tokens_def charge_seconds_def charge_turns_def)
  note c = charge_spec [OF t r(1), of h now d limits, unfolded assms(4)]
  show ?thesis
  proof (cases "charge_empty d")
    case True
    then have z: "numericOrZero (bd_tokens d) = 0" "numericOrZero (bd_activeSeconds d) = 0" "bd_mainTurns d \<noteq> 1" using e by auto
    have "readGoal tbl' (tb_goalId b) = Some g" using c True assms(3) by simp
    then show ?thesis using z by simp
  next
    case False
    have i: "gr_goal_id (charged_row h now b d limits r0 x) = gr_goal_id x" for r0 x by (simp add: charged_row_def)
    let ?r = "charged_row h now b d limits r r"
    have g': "readGoal tbl' (tb_goalId b) = Some (row_state ?r)"
      unfolding ok using c False r(1) row_by_id_SomeD [OF r(1)] by (simp add: i)
    have u: "gs_tokensUsed (row_state ?r) = gs_tokensUsed g + numericOrZero (bd_tokens d)"
      "gs_turnsUsed (row_state ?r) = gs_turnsUsed g + (if bd_mainTurns d = 1 then 1 else 0)"
      "gs_timeUsedSeconds (row_state ?r) = gs_timeUsedSeconds g + numericOrZero (bd_activeSeconds d)"
      by (simp_all add: r(2) row_state_def charged_row_def charge_tokens_def charge_seconds_def charge_turns_def)
    have l: "charge_limit d limits r = (if gs_status g = GActive then firstExceededBudget (gs_tokensUsed (row_state ?r)) (gs_turnsUsed (row_state ?r))
        (gs_timeUsedSeconds (row_state ?r)) limits else None)"
      by (simp add: charged_row_def charge_limit_def r(2) row_state_usage charge_tokens_def charge_seconds_def charge_turns_def)
    have st: "gs_status (row_state ?r) = (if charge_limit d limits r \<noteq> None then GBudgetLimited else gs_status g)"
      "gs_statusReason (row_state ?r) = (case charge_limit d limits r of Some x \<Rightarrow> Some (budget_reason x) | None \<Rightarrow> gs_statusReason g)"
      by (simp_all add: r(2) charged_row_def cong: option.case_cong)
    have ep: "charge_stale h b r \<noteq> None \<Longrightarrow> charge_limit d limits r = None \<Longrightarrow> gs_updatedAt (row_state ?r) = gs_updatedAt g"
      by (simp add: r(2) charged_row_def charge_epoch_def)
    have res: "ur_transitioned res = charge_limit d limits r" "ur_staleReason res = charge_stale h b r" using c False by simp_all
    show ?thesis
      by (rule exI [of _ "row_state ?r"], intro conjI g' u)
        (use l st ep res False in \<open>auto simp: Let_def split: if_splits option.splits\<close>)
  qed
qed

section \<open>Examples\<close>

definition sample_host :: GoalHost where
  "sample_host = \<lparr>gh_digest = (\<lambda>x. x), gh_missing_digest = (\<lambda>_. ''d''), gh_json = (\<lambda>_. [])\<rparr>"

lemma sample_host_ok: "host_ok sample_host"
  by (simp add: host_ok_def sample_host_def)

definition sample_create :: ThreadGoalCreateInput where
  "sample_create = \<lparr>ci_sessionId = ''s'', ci_objective = ''ship'', ci_tokenBudget = Some 100, ci_kickoffAttachments = [], ci_objectiveResources = []\<rparr>"

definition goals1 :: "string list \<times> goal_table" where
  "goals1 = ([''tg''], snd (goal_create 10 ''tg'' sample_create []))"

definition sample_binding :: GoalTurnBinding where
  "sample_binding = \<lparr>tb_goalId = ''tg'', tb_admittedGoalUpdatedAt = 10, tb_objectiveDigest = ''ship'', tb_turnId = ''t''\<rparr>"

definition sample_usage :: BoundUsageDelta where
  "sample_usage = \<lparr>bd_tokens = Some 120, bd_activeSeconds = Some 3, bd_mainTurns = 1\<rparr>"

definition sample_limits :: BudgetLimits where
  "sample_limits = \<lparr>bl_tokens = Some 100, bl_mainTurns = None, bl_activeSeconds = None\<rparr>"

definition goals2 :: "string list \<times> goal_table" where
  "goals2 = ([''tg''], snd (bumpThreadGoalBoundUsage sample_host 20 sample_binding sample_usage sample_limits (snd goals1)))"

definition no_patch :: ThreadGoalPatchInput where
  "no_patch = \<lparr>pi_status = None, pi_objective = None, pi_objectiveResources = None, pi_tokenBudget = Undefined, pi_statusReason = Undefined,
     pi_rejectIfCurrentStatus = None, pi_rejectIfObjectiveChangedFrom = None, pi_rejectIfUpdatedAtChangedFrom = None\<rparr>"

definition raise_budget :: ThreadGoalPatchInput where
  "raise_budget = no_patch\<lparr>pi_status := Some GActive, pi_tokenBudget := Val 500\<rparr>"

definition goals3 :: "string list \<times> goal_table" where
  "goals3 = ([''tg''], snd (patchThreadGoal sample_host 30 ''tg'' raise_budget (snd goals2) (snd goals2)))"

lemma goals1_step: "goal_step sample_host ([], []) goals1"
proof -
  have "create_ok sample_create" by code_simp
  then show ?thesis unfolding goals1_def using step_create [of "''tg''" "[]" sample_create 10 sample_host "[]"] by simp
qed

lemma goals1_reachable: "goal_reachable sample_host goals1"
  using goals1_step by (simp add: goal_reachable_def)

lemma goals2_step: "goal_step sample_host goals1 goals2"
  unfolding goals2_def using step_charge [of sample_host "[''tg'']" "snd goals1"] by (simp add: goals1_def)

lemma goals2_reachable: "goal_reachable sample_host goals2"
  using goals1_reachable goals2_step unfolding goal_reachable_def by (rule rtranclp.rtrancl_into_rtrancl)

lemma goals3_step: "goal_step sample_host goals2 goals3"
proof -
  have "patch_ok raise_budget" by code_simp
  from step_patch [OF this, of sample_host "[''tg'']" "snd goals2" 30 "''tg''"] show ?thesis by (simp add: goals3_def) (simp add: goals2_def)
qed

theorem goals_only_grow_witness:
  "distinct (map gr_session_id (snd goals2)) \<and> (\<exists>g. readGoal (snd goals1) ''tg'' = Some g \<and> gs_tokensUsed g \<le> 120)"
proof -
  obtain g where g: "readGoal (snd goals2) ''tg'' = Some g" "gs_tokensUsed g = 120"
  proof (rule that)
    show "readGoal (snd goals2) ''tg'' = Some (the (readGoal (snd goals2) ''tg''))" by code_simp
    show "gs_tokensUsed (the (readGoal (snd goals2) ''tg'')) = 120" by code_simp
  qed
  have "''tg'' \<in> set (fst goals1)" by (simp add: goals1_def)
  from goals_only_grow [OF sample_host_ok goals1_reachable r_into_rtranclp [of "goal_step sample_host", OF goals2_step] this g(1)] g(2)
  show ?thesis by auto
qed

theorem stopped_goals_resume_as_documented_witness:
  "map_option gs_status (readGoal (snd goals2) ''tg'') = Some GBudgetLimited \<and> map_option gs_status (readGoal (snd goals3) ''tg'') = Some GActive \<and>
   map_option gs_statusReason (readGoal (snd goals2) ''tg'') = Some (Some ''budget_limited(token)'')"
proof -
  have st: "map_option gs_status (readGoal (snd goals2) ''tg'') = Some GBudgetLimited" "map_option gs_status (readGoal (snd goals3) ''tg'') = Some GActive"
    by code_simp+
  then obtain g g' where g: "readGoal (snd goals2) ''tg'' = Some g" "gs_status g = GBudgetLimited" "readGoal (snd goals3) ''tg'' = Some g'" "gs_status g' = GActive"
    by auto
  have "gs_statusReason g = Some ''budget_limited(token)''"
    using stopped_goals_resume_as_documented [OF sample_host_ok goals2_reachable goals3_step g(1,3)] g(2,4) by simp
  then show ?thesis using st g(1) by simp
qed

definition sample_settle :: SettleInput where
  "sample_settle = \<lparr>se_goalId = ''tg'', se_expectedEpoch = 10, se_objectiveDigest = ''ship'', se_status = GBlocked,
     se_statusReason = ''blocked(worker_reported)'', se_workerProposal = None\<rparr>"

lemma sample_settled:
  obtains g tbl' where "settleThreadGoalBoundTurn sample_host 12 sample_settle (snd goals1) = (Settled g 12, tbl')"
proof -
  have "case fst (settleThreadGoalBoundTurn sample_host 12 sample_settle (snd goals1)) of Settled g e \<Rightarrow> e = 12 | _ \<Rightarrow> False" by code_simp
  then show ?thesis using that by (cases "settleThreadGoalBoundTurn sample_host 12 sample_settle (snd goals1)") (auto split: DecisionResult.splits)
qed

lemma sample_settle_ok: "settle_ok sample_settle"
  by code_simp

theorem one_decision_per_epoch_witness:
  "\<exists>g tbl' reason x. settleThreadGoalBoundTurn sample_host 12 sample_settle (snd goals1) = (Settled g 12, tbl') \<and>
     settleThreadGoalBoundTurn sample_host 13 sample_settle tbl' = (StaleDecision reason x, tbl')"
proof -
  obtain g tbl' where s: "settleThreadGoalBoundTurn sample_host 12 sample_settle (snd goals1) = (Settled g 12, tbl')" by (rule sample_settled)
  show ?thesis
    using one_decision_per_epoch [OF sample_host_ok goals1_reachable sample_settle_ok s rtranclp.rtrancl_refl] s by auto
qed

theorem returned_goals_are_the_stored_ones_witness:
  "\<exists>g tbl'. settleThreadGoalBoundTurn sample_host 12 sample_settle (snd goals1) = (Settled g 12, tbl') \<and> readGoal tbl' ''tg'' = Some g"
proof -
  obtain g tbl' where s: "settleThreadGoalBoundTurn sample_host 12 sample_settle (snd goals1) = (Settled g 12, tbl')" by (rule sample_settled)
  have "se_goalId sample_settle = ''tg''" by (simp add: sample_settle_def)
  then show ?thesis
    using returned_goals_are_the_stored_ones [OF sample_host_ok goals1_reachable, THEN conjunct1, rule_format, OF sample_settle_ok s] s by auto
qed

theorem usage_is_always_charged_witness:
  "\<exists>g'. readGoal (snd goals2) ''tg'' = Some g' \<and> gs_tokensUsed g' = 120 \<and> gs_turnsUsed g' = 1 \<and> gs_timeUsedSeconds g' = 3"
proof -
  obtain g where g: "readGoal (snd goals1) (tb_goalId sample_binding) = Some g" "gs_tokensUsed g = 0" "gs_turnsUsed g = 0" "gs_timeUsedSeconds g = 0"
  proof (rule that [of "the (readGoal (snd goals1) ''tg'')"])
    show "readGoal (snd goals1) (tb_goalId sample_binding) = Some (the (readGoal (snd goals1) ''tg''))" by code_simp
  qed code_simp+
  have d: "numericOrZero (bd_tokens sample_usage) = 120" "numericOrZero (bd_activeSeconds sample_usage) = 3" "bd_mainTurns sample_usage = 1" by code_simp+
  from usage_is_always_charged [OF sample_host_ok goals1_reachable g(1) prod.collapse [symmetric], of 20 sample_usage sample_limits] d g(2-)
  show ?thesis by (auto simp: goals2_def sample_binding_def)
qed

text \<open>
  In two steps a goal that is complete, or that has used up its turns, does become active again: a patch that pauses it together with another
  edit is not refused, and a paused goal may be resumed.
\<close>

definition pause_and_edit :: ThreadGoalPatchInput where
  "pause_and_edit = no_patch\<lparr>pi_status := Some GPaused, pi_objective := Some ''ship it''\<rparr>"

definition resume_patch :: ThreadGoalPatchInput where
  "resume_patch = no_patch\<lparr>pi_status := Some GActive\<rparr>"

definition goals_complete :: goal_table where
  "goals_complete = snd (patchThreadGoal sample_host 20 ''tg'' (no_patch\<lparr>pi_status := Some GComplete\<rparr>) (snd goals1) (snd goals1))"

lemma complete_goal_is_revived_in_two_patches:
  "fst (patchThreadGoal sample_host 30 ''tg'' resume_patch goals_complete goals_complete) = Inl (StatusConflict ''tg'' GComplete) \<and>
   (let tbl = snd (patchThreadGoal sample_host 30 ''tg'' pause_and_edit goals_complete goals_complete)
    in map_option gs_status (readGoal (snd (patchThreadGoal sample_host 31 ''tg'' resume_patch tbl tbl)) ''tg'') = Some GActive)"
  by code_simp

text \<open>
  A patch reads and writes without a transaction: when another process decides in between, an unguarded patch overwrites the decision and
  takes the epoch back.
\<close>

lemma unguarded_patch_takes_the_epoch_back:
  "let tbl = snd (settleThreadGoalBoundTurn sample_host 50 sample_settle (snd goals1));
       tbl' = snd (patchThreadGoal sample_host 20 ''tg'' (no_patch\<lparr>pi_tokenBudget := Val 500\<rparr>) (snd goals1) tbl)
   in map_option gs_status (readGoal tbl ''tg'') = Some GBlocked \<and> map_option gs_updatedAt (readGoal tbl ''tg'') = Some 50 \<and>
      map_option gs_status (readGoal tbl' ''tg'') = Some GActive \<and> map_option gs_updatedAt (readGoal tbl' ''tg'') = Some 20"
  by code_simp

end
