(* ===== verification/Goal_Breaker.thy ===== *)
theory Goal_Breaker
  imports Goal_Runs
begin

text \<open>
  The breaker of a thread goal keeps a fingerprint and two counters.  They are related here to the turns they were counted over: the counters
  are lengths of trailing runs, and the breaker's action follows from the longer of the two runs.
\<close>

section \<open>Runs of turns\<close>

text \<open>The replies that carried a fingerprint, the latest first, and how often the latest one was given in a row.\<close>

definition replies :: "BreakerInput list \<Rightarrow> string list" where
  "replies turns = List.map_filter bi_fingerprint (rev turns)"

definition reply_run :: "BreakerInput list \<Rightarrow> nat" where
  "reply_run turns = length (takeWhile (\<lambda>f. f = hd (replies turns)) (replies turns))"

definition no_tool_run :: "BreakerInput list \<Rightarrow> nat" where
  "no_tool_run turns = length (takeWhile (\<lambda>k. bi_toolActivity k = ToolAbsent) (rev turns))"

text \<open>A turn without reply text is no evidence for repetition: it neither counts nor interrupts.\<close>

definition reply_count :: "BreakerInput list \<Rightarrow> nat" where
  "reply_count turns = (if bi_fingerprint (last turns) = None then 0 else reply_run turns)"

lemma replies_snoc [simp]: "replies (turns @ [k]) = (case bi_fingerprint k of Some f \<Rightarrow> f # replies turns | None \<Rightarrow> replies turns)"
  by (simp add: replies_def List.map_filter_simps split: option.split)

lemma no_tool_run_snoc [simp]: "no_tool_run (turns @ [k]) = (if bi_toolActivity k = ToolAbsent then Suc (no_tool_run turns) else 0)"
  by (simp add: no_tool_run_def)

lemma reply_run_Some: "bi_fingerprint k = Some f \<Longrightarrow>
    reply_run (turns @ [k]) = (if replies turns \<noteq> [] \<and> hd (replies turns) = f then Suc (reply_run turns) else 1)"
  by (cases "replies turns") (auto simp: reply_run_def)

lemma reply_run_None: "bi_fingerprint k = None \<Longrightarrow> reply_run (turns @ [k]) = reply_run turns"
  by (simp add: reply_run_def)

lemma reply_run_pos: "replies turns \<noteq> [] \<longleftrightarrow> 0 < reply_run turns"
  by (cases "replies turns") (auto simp: reply_run_def)

section \<open>The counters of a row\<close>

definition counts :: "BreakerInput list \<Rightarrow> ThreadGoalDbRow \<Rightarrow> bool" where
  "counts turns r \<longleftrightarrow> gr_reply_fingerprint r = (if replies turns = [] then None else Some (hd (replies turns))) \<and>
     gr_no_progress_streak r = int (reply_run turns - 1) \<and> gr_no_tool_streak r = int (no_tool_run turns)"

lemma counts_init:
  "counts [] r \<longleftrightarrow> gr_reply_fingerprint r = None \<and> gr_no_progress_streak r = 0 \<and> gr_no_tool_streak r = 0"
  by (auto simp: counts_def replies_def reply_run_def no_tool_run_def List.map_filter_simps)

lemma counts_cong:
  "gr_reply_fingerprint r = gr_reply_fingerprint r' \<Longrightarrow> gr_no_progress_streak r = gr_no_progress_streak r' \<Longrightarrow>
   gr_no_tool_streak r = gr_no_tool_streak r' \<Longrightarrow> counts turns r \<longleftrightarrow> counts turns r'"
  by (simp add: counts_def)

lemma counts_next:
  assumes "counts turns r"
  shows "counts (turns @ [k]) (breaker_row now k r r)"
  using assms reply_run_pos [of turns]
  by (cases "bi_fingerprint k")
    (auto simp: counts_def breaker_row_def or_else_def next_reply_streak_def reply_repeated_def next_no_tool_streak_def
      reply_run_Some reply_run_None)

lemma counts_idle:
  assumes "counts turns r" "breaker_idle k r"
  shows "counts (turns @ [k]) r"
  using counts_next [OF assms(1), of k 0] assms(2)
  by (subst counts_cong [of r "breaker_row 0 k r r"]) (simp_all add: breaker_idle_def breaker_row_def)

lemma limit_two: "2 \<le> occurrence_limit k"
  by (simp add: occurrence_limit_def split: option.split)

text \<open>One ladder over two counts is the ladder over the larger count.\<close>

lemma stronger_is_larger: "2 \<le> l \<Longrightarrow> strongerAction (decideAction a l) (decideAction b l) = decideAction (max a b) l"
  by (auto simp: strongerAction_def decideAction_def max_def)

lemma decide_low: "2 \<le> l \<Longrightarrow> n \<le> 1 \<Longrightarrow> decideAction n l = BNone"
  by (simp add: decideAction_def)

lemma counted_action:
  assumes "counts turns r"
  shows "breaker_action k r = decideAction (int (max (reply_count (turns @ [k])) (no_tool_run (turns @ [k])))) (occurrence_limit k)"
proof -
  note l = limit_two [of k]
  have a: "reply_action k (gr_reply_fingerprint r) (gr_no_progress_streak r) = decideAction (int (reply_count (turns @ [k]))) (occurrence_limit k)"
  proof (cases "bi_fingerprint k")
    case None
    then show ?thesis by (simp add: reply_action_def reply_repeated_def reply_count_def decide_low [OF l])
  next
    case (Some f)
    then show ?thesis using assms reply_run_pos [of turns]
      by (auto simp: reply_action_def reply_repeated_def next_reply_streak_def reply_count_def reply_run_Some counts_def decide_low [OF l])
  qed
  have b: "no_tool_action k (gr_no_tool_streak r) = decideAction (int (no_tool_run (turns @ [k]))) (occurrence_limit k)"
    using assms by (simp add: no_tool_action_def next_no_tool_streak_def counts_def decide_low [OF l] add.commute)
  show ?thesis unfolding breaker_action_def a b stronger_is_larger [OF l] by (simp add: of_nat_max)
qed

section \<open>Sequences of turns\<close>

text \<open>The breaker runs after every turn, at the epoch the settlement knows; a turn counts when its update is not stale.\<close>

fun breaker_turns :: "string \<Rightarrow> (int \<times> BreakerInput) list \<Rightarrow> goal_table \<Rightarrow> goal_table" where
  "breaker_turns i [] tbl = tbl"
| "breaker_turns i ((now, k) # turns) tbl = breaker_turns i turns (snd (updateThreadGoalBreaker now i k tbl))"

fun turns_count :: "string \<Rightarrow> (int \<times> BreakerInput) list \<Rightarrow> goal_table \<Rightarrow> bool" where
  "turns_count i [] tbl = True"
| "turns_count i ((now, k) # turns) tbl =
     (breaker_ok k \<and> (case fst (updateThreadGoalBreaker now i k tbl) of BreakerDone _ _ _ _ \<Rightarrow> True | _ \<Rightarrow> False) \<and>
      turns_count i turns (snd (updateThreadGoalBreaker now i k tbl)))"

lemma breaker_turn:
  assumes "goal_table_ok tbl" "breaker_ok k" "row_by_id tbl i = Some r" "counts turns r"
    "updateThreadGoalBreaker now i k tbl = (BreakerDone action g e cause, tbl')"
  obtains r' where "goal_table_ok tbl'" "row_by_id tbl' i = Some r'" "counts (turns @ [k]) r'" "g = row_state r'" "action = breaker_action k r"
    "gr_status r' = goal_status_string (if action = BPause then GPaused else GActive)"
proof -
  have ok: "goal_table_ok tbl'" using breaker_moves [OF assms(1,2), of now i] assms(5) by (simp add: row_moves_def)
  show ?thesis
  proof (rule breaker_cases [OF assms(1,5)])
    fix r1 assume c: "row_by_id tbl i = Some r1" "active_at i (bi_expectedEpoch k) r1" "breaker_idle k r1" "tbl' = tbl"
      "BreakerDone action g e cause = BreakerDone BNone (row_state r1) (gr_updated_at_ms r1) None"
    then show ?thesis using that [OF ok] counts_idle [OF assms(4), of k] assms(3) by (simp add: breaker_idle_def active_at_def)
  next
    fix r1 cause' assume c: "row_by_id tbl i = Some r1" "active_at i (bi_expectedEpoch k) r1"
      "tbl' = sql_update (active_at i (bi_expectedEpoch k)) (breaker_row now k r1) tbl"
      "BreakerDone action g e cause = BreakerDone (breaker_action k r1) (row_state (breaker_row now k r1 r1)) (max now (gr_updated_at_ms r1 + 1)) cause'"
    have i: "gr_goal_id (breaker_row now k r0 x) = gr_goal_id x" for r0 x by (simp add: breaker_row_def)
    have "readStatus (gr_status r1) = GActive" using c(2) known_status(1) [of GActive] by (simp add: active_at_def)
    then show ?thesis using that [OF ok, of "breaker_row now k r1 r1"] counts_next [OF assms(4)] assms(3) c by (simp add: i) (simp add: breaker_row_def)
  qed simp
qed

lemma turns_are_counted:
  assumes "goal_table_ok tbl" "row_by_id tbl i = Some r" "counts before r" "turns_count i turns tbl"
  shows "goal_table_ok (breaker_turns i turns tbl) \<and>
    (\<exists>r'. row_by_id (breaker_turns i turns tbl) i = Some r' \<and> counts (before @ map snd turns) r')"
  using assms
proof (induction turns arbitrary: tbl r before)
  case (Cons t turns)
  obtain now k where t: "t = (now, k)" by fastforce
  obtain action g e cause tbl' where u: "updateThreadGoalBreaker now i k tbl = (BreakerDone action g e cause, tbl')"
    using Cons.prems(4) t by (cases "updateThreadGoalBreaker now i k tbl") (auto split: BreakerResult.splits)
  have b: "breaker_ok k" using Cons.prems(4) t by simp
  obtain r' where r': "goal_table_ok tbl'" "row_by_id tbl' i = Some r'" "counts (before @ [k]) r'"
    using breaker_turn [OF Cons.prems(1) b Cons.prems(2,3) u] by metis
  show ?case using Cons.IH [OF r'] Cons.prems(4) u t by simp
qed auto

text \<open>C14: From cleared counters, the breaker acts on the longest trailing run: after any number of turns, it nudges when the last reply has been
  given twice in a row or two turns in a row used no tool, and pauses the goal exactly when one of these runs has reached the limit of the
  last turn.  Turns without reply text are skipped in the run of replies; a turn whose tool use is unknown ends the run of tool-less turns.\<close>

theorem breaker_acts_on_trailing_runs:
  assumes "host_ok h" "goal_reachable h s" "readGoal (snd s) i = Some g" "gs_replyFingerprint g = None" "gs_noProgressStreak g = 0" "gs_noToolStreak g = 0"
    and "turns_count i turns (snd s)" "breaker_ok k"
    and "updateThreadGoalBreaker now i k (breaker_turns i turns (snd s)) = (BreakerDone action g' e cause, tbl')"
  shows "let hist = map snd turns @ [k] in
    action = decideAction (int (max (reply_count hist) (no_tool_run hist))) (occurrence_limit k) \<and>
    gs_status g' = (if int (max (reply_count hist) (no_tool_run hist)) \<ge> occurrence_limit k then GPaused else GActive) \<and>
    gs_noProgressStreak g' = int (reply_run hist - 1) \<and> gs_noToolStreak g' = int (no_tool_run hist)"
proof -
  have t: "goal_table_ok (snd s)" using reachable_table [OF assms(2,1)] .
  obtain r where r: "row_by_id (snd s) i = Some r" "g = row_state r" "row_ok r" by (rule readGoal_row [OF t assms(3)])
  have "counts [] r" using assms(4-6) by (simp add: counts_init r(2) row_state_counters)
  from turns_are_counted [OF t r(1) this assms(7)] obtain r1
    where r1: "goal_table_ok (breaker_turns i turns (snd s))" "row_by_id (breaker_turns i turns (snd s)) i = Some r1" "counts (map snd turns) r1" by auto
  obtain r' where r': "counts (map snd turns @ [k]) r'" "g' = row_state r'" "action = breaker_action k r1"
    "gr_status r' = goal_status_string (if action = BPause then GPaused else GActive)"
    using breaker_turn [OF r1(1) assms(8) r1(2,3) assms(9)] by metis
  have a: "action = decideAction (int (max (reply_count (map snd turns @ [k])) (no_tool_run (map snd turns @ [k])))) (occurrence_limit k)"
    unfolding r'(3) by (rule counted_action [OF r1(3)])
  have "action = BPause \<longleftrightarrow> int (max (reply_count (map snd turns @ [k])) (no_tool_run (map snd turns @ [k]))) \<ge> occurrence_limit k"
    unfolding a decideAction_def by simp
  then show ?thesis using a r'(1) unfolding Let_def r'(2) by (simp add: r'(4) counts_def row_state_counters)
qed

definition idle_turn :: "int \<Rightarrow> BreakerInput" where
  "idle_turn e = \<lparr>bi_expectedEpoch = e, bi_fingerprint = Some ''same'', bi_toolActivity = ToolUsed, bi_limit = Some 3, bi_pauseReason = None\<rparr>"

theorem breaker_acts_on_trailing_runs_witness:
  "\<exists>g e cause tbl'. updateThreadGoalBreaker 13 ''tg'' (idle_turn 12) (breaker_turns ''tg'' [(11, idle_turn 10), (12, idle_turn 11)] (snd goals1)) =
     (BreakerDone BPause g e cause, tbl') \<and> gs_status g = GPaused \<and> gs_noProgressStreak g = 2"
proof -
  let ?turns = "[(11, idle_turn 10), (12, idle_turn 11)] :: (int \<times> BreakerInput) list"
  obtain g0 where g0: "readGoal (snd goals1) ''tg'' = Some g0" "gs_replyFingerprint g0 = None" "gs_noProgressStreak g0 = 0" "gs_noToolStreak g0 = 0"
  proof (rule that [of "the (readGoal (snd goals1) ''tg'')"])
    show "readGoal (snd goals1) ''tg'' = Some (the (readGoal (snd goals1) ''tg''))" by code_simp
  qed code_simp+
  have c: "turns_count ''tg'' ?turns (snd goals1)" by code_simp
  have k: "breaker_ok (idle_turn 12)" by code_simp
  have "case fst (updateThreadGoalBreaker 13 ''tg'' (idle_turn 12) (breaker_turns ''tg'' ?turns (snd goals1))) of BreakerDone _ _ _ _ \<Rightarrow> True | _ \<Rightarrow> False"
    by code_simp
  then obtain action g e cause tbl' where
    u: "updateThreadGoalBreaker 13 ''tg'' (idle_turn 12) (breaker_turns ''tg'' ?turns (snd goals1)) = (BreakerDone action g e cause, tbl')"
    by (cases "updateThreadGoalBreaker 13 ''tg'' (idle_turn 12) (breaker_turns ''tg'' ?turns (snd goals1))") (auto split: BreakerResult.splits)
  let ?hist = "map snd ?turns @ [idle_turn 12]"
  have r: "reply_count ?hist = 3" "reply_run ?hist = 3" "no_tool_run ?hist = 0" "occurrence_limit (idle_turn 12) = 3" by code_simp+
  show ?thesis
    using breaker_acts_on_trailing_runs [OF sample_host_ok goals1_reachable g0 c k u, unfolded Let_def r] u by (auto simp: decideAction_def)
qed

end
