(* ===== verification/Spec2Isabelle.thy ===== *)
theory Spec2Isabelle
  imports Background_Task_Manager Permission_Engine Runaway_Guard Extension_Runtime Shell_Safe Shell_Split Context_Manager Session_Lock
    Mcp_Registry_Runs Llm_Retry Cron_Registry Goal_Breaker
begin

text \<open>
  A verification development for the core of Bari, a terminal agent harness written in TypeScript.  It covers the modules that decide what an
  agent may do and keep its state: \<^verbatim>\<open>packages/agent-modules\<close>, \<^verbatim>\<open>packages/agent-runtime\<close>, the error
  classification and retry of model calls from \<^verbatim>\<open>packages/shared\<close> and \<^verbatim>\<open>packages/agent-core\<close>, and the store of thread goals from
  \<^verbatim>\<open>packages/local-runtime\<close>.  Paths below are relative to
  \<^verbatim>\<open>src/packages\<close>.

  \<^bold>\<open>The parts and how they interact.\<close>  A turn of an agent is assembled by the extension runtime, which has loaded the extensions of a
  profile.  Before a model call the context manager compacts the transcript if it has grown too large, one action per session at a time.
  The call goes through the retry layer, which decides with the error classifier whether a failed request is repeated.  A tool call of the
  model is judged by the permission engine; for the shell tool this rests on the readers of shell text, and MCP tools are named by
  the MCP name registry, in the form the permission rules are written for.  Long-running tools become background tasks.  The runaway
  guard watches the steps of a turn and reminds the model when it repeats itself.  Cron tasks start turns by timers and queue
  their messages while a session is busy.  A thread goal keeps a session working over many turns; its store decides after each of them whether
  the goal goes on.

  \<^bold>\<open>Theories.\<close>
  \<^item> \<open>Bari_Prelude\<close>, \<open>Js_Text\<close>: the JavaScript the sources use: \<^verbatim>\<open>undefined\<close> and \<^verbatim>\<open>null\<close>, numbers with \<^verbatim>\<open>NaN\<close> and infinities where they can occur,
    insertion-ordered maps, string operations, UTF-16 text and its UTF-8 form.  Shared lemmas and collections.
  \<^item> \<open>Background_Task_Store\<close>, \<open>Background_Task_Output\<close>, \<open>Background_Task_Manager\<close> (\<^verbatim>\<open>agent-modules/background-task/src\<close>): the status machine, the two
    in-memory stores and the manager.  The locale \<open>task_store\<close> is the manager's view of a store and is interpreted on the in-memory store.
    A task only moves forward through its states; the manager numbers its events without gaps however the calls in flight are interleaved;
    a task is ended once.
  \<^item> \<open>Permission_Context\<close>, \<open>Permission_Core\<close>, \<open>Permission_Engine\<close> (\<^verbatim>\<open>agent-modules/permission/src\<close>): rules and their updates, the policy
    reducer, the engine with its checkers.  The locale \<open>permission_policy\<close> states the documented policy; it is interpreted on the reducer and on the
    engine, which agree.  Deny and ask rules only tighten.
  \<^item> \<open>Shell_Words\<close>, \<open>Shell_Safe\<close>, \<open>Shell_Split\<close> (\<^verbatim>\<open>permission/src/tools\<close>): tokeniser and plain-script scanner, whitelist of read-only commands, and
    splitting into subcommands.  Scripts written with quoting are read back; the whitelist is the documented one; what passes it holds no
    active shell character.
  \<^item> \<open>Runaway_Fingerprint\<close>, \<open>Runaway_Detector\<close>, \<open>Runaway_Guard\<close> (\<^verbatim>\<open>agent-modules/runaway-guard/src\<close>): the bounded serialiser, the detector and the guard
    with its replay.  The locale \<open>detection_invariant\<close> carries what a detection keeps to whole turns.  A replayed trajectory equals the live turn.
  \<^item> \<open>Extension_Registry\<close>, \<open>Extension_Runtime\<close> (\<^verbatim>\<open>agent-runtime/src\<close>): loading, enabling, assembly of turns, load lists and factories.
  \<^item> \<open>Context_Tokens\<close>, \<open>Context_Manager\<close>, \<open>Session_Lock\<close> (\<^verbatim>\<open>agent-modules/context-manager/src\<close>): token estimates with their cache (locale
    \<open>steady_estimator\<close>), the compaction checkpoint, and the promise chain that serialises the actions of a session.
  \<^item> \<open>Mcp_Tool_Name\<close>, \<open>Mcp_Name_Registry\<close>, \<open>Mcp_Registry_Runs\<close> (\<^verbatim>\<open>agent-modules/mcp/src/runtime\<close>): names, their allocation, and the life of a
    registry file that several hosts share: names are permanent, distinct and always found.
  \<^item> \<open>Llm_Error\<close>, \<open>Llm_Retry\<close> (\<^verbatim>\<open>shared/src/llm-error-classifier.ts\<close>, \<^verbatim>\<open>agent-core/src/pi-turn-runner/llm-retry.ts\<close>): facts of an error and their
    classification; the retry loop, which ends, stays within the policy and shows the caller one request only.
  \<^item> \<open>Cron_Queue\<close>, \<open>Cron_Sessions\<close>, \<open>Cron_Executor\<close>, \<open>Cron_Registry\<close> (\<^verbatim>\<open>agent-modules/cron/src\<close>): the queue for busy sessions and the promise of each
    of its calls, retention and deletion of cron sessions, one run of a task with every way it can end, and the registry of tasks and timers
    as a heap of entries, where runs begin and end between other operations: timers and tasks belong together, and a once task ends with its run.  The history lock of the executor is the session lock under another key.
  \<^item> \<open>Goal_Store\<close>, \<open>Goal_Runs\<close>, \<open>Goal_Breaker\<close> (\<^verbatim>\<open>agent-modules/goal/src\<close>, \<^verbatim>\<open>local-runtime/src/thread-goal/store*.ts\<close>): the table of goals with its
    decoder and every statement on it, the runs of a store as an inductive relation, and the breaker.  Decisions are compare-and-set writes against
    an epoch: each epoch is decided once, usage is charged even to a stale turn, and the breaker acts on the longest trailing run of
    identical replies or tool-less turns.
  \<^item> This theory: the agreement of MCP names with the permission rules, which spans two components.

  \<^bold>\<open>Conventions.\<close>  Classes are records and their methods functions on them; thrown errors are \<^const>\<open>Inl\<close> values.  An asynchronous operation is one function where nothing can intervene, is split at
  its waits where something can, and takes what other code does meanwhile as an argument or as a step of an inductive relation.
  JavaScript maps are association lists in insertion order.  Clock, random numbers, identifiers and hashes are arguments.

  \<^bold>\<open>Bounds.\<close>  Loops of the sources that count down or follow a finite list are structural or have a measure.  Two searches need an argument of their own: error
  payloads are unwrapped to a nesting given as fuel, and a message as long as \<open>n\<close> needs no more than \<open>n + 2\<close> (shown, with independence of a
  greater bound); the search for a free MCP suffix ends because a numbered suffix
  outgrows the length limit, which its termination measure counts down to.  The retry loop's measure is the number of retries left by the policy.

  \<^bold>\<open>Parameters.\<close>  The model tokeniser, Unicode classes, \<^verbatim>\<open>JSON.parse\<close> and \<^verbatim>\<open>JSON.stringify\<close>, the regular expressions of the error classifier,
  tool checkers, extension code, runners, the cron scheduler and store, and the session service are arguments; where a theorem
  relies on one, it has a hypothesis and a concrete instance in its witness.  JSON columns of the goal table are taken as the values they encode;
  for the MCP registry file, whose text the hosts compare, a hypothesis states that a saved registry is read back.

  \<^bold>\<open>Not modelled.\<close>  The remaining checks of the shell tool and of paths (regular expressions on command text and the file system), model and
  HTTP clients, MCP transports, the turn runner around the retry layer, tools, browser control, the daemon with its data bases apart from the goal table, configuration and login, and the
  terminal interface: they act on the world outside the program or render it.  Log output and metrics are left out throughout.  Names are
  compared as strings; collisions that follow from unquoted separators are shown as lemmas beside the theorems, as are other cases
  where the code departs from its documentation.
\<close>

section \<open>MCP names and permission rules\<close>

lemma js_split_server_name:
  assumes "segment_ok S"
  shows "js_split ''__'' (''mcp__'' @ S) = [''mcp'', S]"
proof -
  have "tidy True ''mcp''" by (simp add: run_unit_def name_alnum_def)
  then have "split_at_prefix ''__'' [] (''mcp'' @ ''__'' @ S) = Some (''mcp'', S)"
    using tidy_split [of True "''mcp''" "[]" S] by simp
  moreover have "split_at_prefix ''__'' [] S = None" using tidy_no_split valid_tidy [OF assms] by blast
  ultimately show ?thesis by (subst js_split.simps, simp, subst js_split.simps, simp)
qed

text \<open>C22: 
  The names the registry gives out are the ones the permission rules are written for: a runtime tool name is at most 80
  characters long, and the rule for a server of the registry matches it exactly when the tool belongs to that server.
\<close>
theorem server_rules_match_their_own_tools:
  assumes "registry_ok s" "runtime_of s key raw = Some n" "server_segment s key' = Some g"
  shows "int (length n) \<le> MCP_RUNTIME_TOOL_NAME_MAX_LENGTH \<and> (matchesMcpServerRuntimeName n (''mcp__'' @ g) \<longleftrightarrow> key' = key)"
proof -
  obtain e t where e: "find (\<lambda>e. sa_key e = key) s = Some e" "n = runtime_name (sa_segment e) t" "segment_ok (sa_segment e)" "segment_ok t"
    "int (length t) \<le> tool_limit (sa_segment e)" by (rule runtime_ofE [OF assms(1,2)])
  obtain e' where e': "find (\<lambda>e. sa_key e = key') s = Some e'" "sa_segment e' = g" using assms(3) by (auto simp: server_segment_find)
  have g: "segment_ok g" using registry_segments(1) [OF assms(1) e'(1)] e'(2) by (simp add: segment_fits_def)
  have "matchesMcpServerRuntimeName n (''mcp__'' @ g) \<longleftrightarrow> sa_segment e = g"
    using js_split_runtime_name [OF e(3,4)] js_split_server_name [OF g] valid_tidy [OF e(3)] valid_tidy [OF e(4)]
    by (simp add: matchesMcpServerRuntimeName_def MCP_SEGMENT_SEPARATOR_def e(2))
  also have "\<dots> \<longleftrightarrow> key' = key"
  proof
    assume "sa_segment e = g"
    then have "server_segment s key = Some g" using e(1) by (simp add: server_segment_find)
    then show "key' = key"
      using assms(1,3) unfolding registry_ok_def table_ok_iff server_segment_def inj_on_def by (metis domI)
  qed (use e(1) e' in simp)
  finally show ?thesis using e(2,5) by (simp add: runtime_name_def tool_limit_def)
qed

definition sample_tools_registry :: State where
  "sample_tools_registry =
     [\<lparr>sa_key = ascii_text ''k1'', sa_raw = ascii_text ''docs'', sa_segment = ''docs'',
        sa_tools = [\<lparr>ta_raw = ascii_text ''find it'', ta_segment = ''find_it''\<rparr>]\<rparr>,
      \<lparr>sa_key = ascii_text ''k2'', sa_raw = ascii_text ''docs'', sa_segment = ''docs_2'', sa_tools = []\<rparr>]"

theorem server_rules_match_their_own_tools_witness:
  "matchesMcpServerRuntimeName ''mcp__docs__find_it'' (''mcp__'' @ ''docs'') \<and>
   \<not> matchesMcpServerRuntimeName ''mcp__docs__find_it'' (''mcp__'' @ ''docs_2'')"
proof -
  have ok: "registry_ok sample_tools_registry" by code_simp
  have n: "runtime_of sample_tools_registry (ascii_text ''k1'') (ascii_text ''find it'') = Some ''mcp__docs__find_it''" by code_simp
  have g: "server_segment sample_tools_registry (ascii_text ''k1'') = Some ''docs''"
    "server_segment sample_tools_registry (ascii_text ''k2'') = Some ''docs_2''" by code_simp+
  have "ascii_text ''k2'' \<noteq> ascii_text ''k1''" by simp
  then show ?thesis
    using server_rules_match_their_own_tools [OF ok n g(1)] server_rules_match_their_own_tools [OF ok n g(2)] by blast
qed

end
